(* ===== verification/Go_Prelude.thy ===== *)
theory Go_Prelude
  imports Main "HOL-Library.Sublist"
begin

text \<open>
  Shared prelude of the development: the theorem collections, the fragment of Go's
  \<open>strings\<close>, \<open>strconv\<close>, \<open>fmt\<close> and \<open>time\<close> packages that the SDK uses, and generic
  lemmas on lists and decimal numerals.

  Conventions. A Go \<open>string\<close> is a HOL \<open>string\<close> read as a sequence of bytes. A Go map
  with zero-value reads is a total function, a Go map with comma-ok reads is a partial
  map. A \<open>time.Time\<close> and a \<open>time.Duration\<close> are an \<open>int\<close> counted in nanoseconds
  (wall-clock instants since the Unix epoch); where 64-bit overflow is reachable, the
  theory that models the operation uses \<open>64 word\<close> instead.
\<close>

section \<open>Theorem collections\<close>

named_theorems step_id_simps \<open>rendering of step ids\<close>
named_theorems exec_simps \<open>unfolding of the step primitives\<close>
named_theorems frame_simps \<open>fields an operation leaves unchanged\<close>

section \<open>Strings\<close>

text \<open>\<open>strings.CutPrefix\<close>: the rest after the prefix, or nothing.\<close>

fun cutPrefix :: "string \<Rightarrow> string \<Rightarrow> string option" where
  "cutPrefix [] s = Some s"
| "cutPrefix (p # ps) [] = None"
| "cutPrefix (p # ps) (c # s) = (if p = c then cutPrefix ps s else None)"

lemma cutPrefix_append [simp]: "cutPrefix p (p @ s) = Some s"
  by (induction p) auto

lemma cutPrefix_Some_iff: "cutPrefix p s = Some r \<longleftrightarrow> s = p @ r"
  by (induction p s rule: cutPrefix.induct) auto

lemma cutPrefix_None_iff: "cutPrefix p s = None \<longleftrightarrow> \<not> prefix p s"
proof (cases "cutPrefix p s")
  case None
  then show ?thesis by (auto simp: prefix_def)
next
  case (Some r)
  then show ?thesis by (auto simp: cutPrefix_Some_iff)
qed

text \<open>\<open>strings.TrimPrefix\<close>, \<open>strings.TrimSuffix\<close> and \<open>strings.Contains\<close>.\<close>

definition trimPrefix :: "string \<Rightarrow> string \<Rightarrow> string" where
  "trimPrefix p s = (case cutPrefix p s of None \<Rightarrow> s | Some r \<Rightarrow> r)"

definition hasSuffix :: "string \<Rightarrow> string \<Rightarrow> bool" where
  "hasSuffix p s = (cutPrefix (rev p) (rev s) \<noteq> None)"

definition trimSuffix :: "string \<Rightarrow> string \<Rightarrow> string" where
  "trimSuffix p s = (case cutPrefix (rev p) (rev s) of None \<Rightarrow> s | Some r \<Rightarrow> rev r)"

definition hasPrefix :: "string \<Rightarrow> string \<Rightarrow> bool" where
  "hasPrefix p s = (cutPrefix p s \<noteq> None)"

fun containsStr :: "string \<Rightarrow> string \<Rightarrow> bool" where
  "containsStr sub [] = (sub = [])"
| "containsStr sub (c # s) = (hasPrefix sub (c # s) \<or> containsStr sub s)"

text \<open>\<open>strings.Split\<close> at a one-byte separator: always at least one segment.\<close>

fun splitOn :: "char \<Rightarrow> string \<Rightarrow> string list" where
  "splitOn sep [] = [[]]"
| "splitOn sep (c # s) =
     (if c = sep then [] # splitOn sep s
      else (case splitOn sep s of [] \<Rightarrow> [[c]] | seg # segs \<Rightarrow> (c # seg) # segs))"

lemma splitOn_nonempty [simp]: "splitOn sep s \<noteq> []"
  by (induction s) (auto split: list.splits)

lemma splitOn_no_sep: "sep \<notin> set s \<Longrightarrow> splitOn sep s = [s]"
  by (induction s) auto

lemma splitOn_append:
  "sep \<notin> set a \<Longrightarrow> splitOn sep (a @ sep # s) = a # splitOn sep s"
  by (induction a) auto

text \<open>\<open>unicode.IsSpace\<close> and \<open>unicode.IsControl\<close> on one-byte runes, and
  \<open>strings.TrimSpace\<close> of text whose spaces are such runes.\<close>

definition isSpace :: "char \<Rightarrow> bool" where
  "isSpace c = (let n = of_char c :: nat in (9 \<le> n \<and> n \<le> 13) \<or> n = 32)"

definition isControl :: "char \<Rightarrow> bool" where
  "isControl c = (let n = of_char c :: nat in n < 32 \<or> n = 127)"

definition trimSpace :: "string \<Rightarrow> string" where
  "trimSpace s = rev (dropWhile isSpace (rev (dropWhile isSpace s)))"

section \<open>Decimal numerals: \<open>strconv.Itoa\<close> and \<open>%d\<close>\<close>

definition digit_char :: "nat \<Rightarrow> char" where
  "digit_char d = char_of (48 + d)"

fun itoa :: "nat \<Rightarrow> string" where
  "itoa n = (if n < 10 then [digit_char n] else itoa (n div 10) @ [digit_char (n mod 10)])"

declare itoa.simps [simp del]

definition itoaInt :: "int \<Rightarrow> string" where
  "itoaInt i = (if i < 0 then CHR ''-'' # itoa (nat (- i)) else itoa (nat i))"

definition isDigit :: "char \<Rightarrow> bool" where
  "isDigit c = (let n = of_char c :: nat in 48 \<le> n \<and> n \<le> 57)"

lemma digit_char_inj: "a < 10 \<Longrightarrow> b < 10 \<Longrightarrow> digit_char a = digit_char b \<longleftrightarrow> a = b"
proof -
  assume "a < 10" "b < 10"
  have "of_char (digit_char a) = 48 + a" if "a < 10" for a :: nat
    using that by (simp add: digit_char_def)
  then show ?thesis using \<open>a < 10\<close> \<open>b < 10\<close> by (metis add_left_cancel)
qed

lemma isDigit_digit_char: "d < 10 \<Longrightarrow> isDigit (digit_char d)"
  by (simp add: isDigit_def digit_char_def)

lemma itoa_nonempty [simp]: "itoa n \<noteq> []"
  by (subst itoa.simps) simp

lemma itoa_small [simp]: "itoa 0 = ''0''" "itoa (Suc 0) = ''1''"
  by code_simp+

lemma itoa_digits: "c \<in> set (itoa n) \<Longrightarrow> isDigit c"
proof (induction n rule: itoa.induct)
  case (1 n)
  then show ?case
    by (cases "n < 10") (auto simp: itoa.simps [of n] isDigit_digit_char)
qed

lemma itoa_inj: "itoa m = itoa n \<longleftrightarrow> m = n"
proof
  show "itoa m = itoa n \<Longrightarrow> m = n"
  proof (induction m arbitrary: n rule: itoa.induct)
    case (1 m)
    consider "m < 10" "n < 10" | "m < 10" "\<not> n < 10" | "\<not> m < 10" "n < 10"
      | "\<not> m < 10" "\<not> n < 10" by blast
    then show ?case
    proof cases
      case 1
      with "1.prems" show ?thesis by (simp add: itoa.simps digit_char_inj)
    next
      case 2
      with "1.prems" show ?thesis
        by (simp add: itoa.simps [of m] itoa.simps [of n] Cons_eq_append_conv)
    next
      case 3
      with "1.prems" show ?thesis
        by (simp add: itoa.simps [of m] itoa.simps [of n] append_eq_Cons_conv)
    next
      case 4
      with "1.prems" have "itoa (m div 10) = itoa (n div 10)"
        and "digit_char (m mod 10) = digit_char (n mod 10)"
        by (simp_all add: itoa.simps [of m] itoa.simps [of n])
      with 4(1) "1.IH" have "m div 10 = n div 10" and "m mod 10 = n mod 10"
        by (simp_all add: digit_char_inj)
      then show ?thesis by (metis div_mult_mod_eq)
    qed
  qed
qed simp

text \<open>Division and remainder of Go integers truncate towards zero.\<close>

definition go_div :: "int \<Rightarrow> int \<Rightarrow> int" where
  "go_div a b = sgn a * sgn b * (\<bar>a\<bar> div \<bar>b\<bar>)"

definition go_rem :: "int \<Rightarrow> int \<Rightarrow> int" where
  "go_rem a b = a - b * go_div a b"

lemma go_div_nonneg: "0 \<le> a \<Longrightarrow> 0 < b \<Longrightarrow> go_div a b = a div b"
  by (cases "a = 0") (auto simp: go_div_def)

lemma go_rem_nonneg: "0 \<le> a \<Longrightarrow> 0 < b \<Longrightarrow> go_rem a b = a mod b"
  by (simp add: go_rem_def go_div_nonneg minus_mult_div_eq_mod)

section \<open>Durations\<close>

definition nanosecond :: int where "nanosecond = 1"
definition millisecond :: int where "millisecond = 1000000"
definition second :: int where "second = 1000000000"
definition minute :: int where "minute = 60000000000"
definition hour :: int where "hour = 3600000000000"

lemmas duration_units = nanosecond_def millisecond_def second_def minute_def hour_def

text \<open>\<open>Duration.Milliseconds\<close>.\<close>

definition milliseconds :: "int \<Rightarrow> int" where
  "milliseconds d = go_div d millisecond"

text \<open>\<open>Duration.String\<close>: a fraction loses its trailing zeros; below one second the unit is
  chosen so that the leading digit is not zero (the micro sign is its two UTF-8 bytes).\<close>

definition padded_digits :: "nat \<Rightarrow> nat \<Rightarrow> string" where
  "padded_digits k n = (let ds = itoa n in replicate (k - length ds) (CHR ''0'') @ ds)"

definition frac_string :: "nat \<Rightarrow> nat \<Rightarrow> string" where
  "frac_string prec v =
     (let ds = rev (dropWhile (\<lambda>c. c = CHR ''0'') (rev (padded_digits prec (v mod 10 ^ prec))))
      in if ds = [] then [] else CHR ''.'' # ds)"

definition durationString :: "int \<Rightarrow> string" where
  "durationString d =
     (let u = nat \<bar>d\<bar>; sign = (if d < 0 then ''-'' else [])
      in if u = 0 then ''0s''
         else if u < 10 ^ 3 then sign @ itoa u @ ''ns''
         else if u < 10 ^ 6 then
           sign @ itoa (u div 10 ^ 3) @ frac_string 3 u @ [CHR 0xC2, CHR 0xB5, CHR ''s'']
         else if u < 10 ^ 9 then sign @ itoa (u div 10 ^ 6) @ frac_string 6 u @ ''ms''
         else let s = u div 10 ^ 9; m = s div 60; h = m div 60
              in sign @ (if h > 0 then itoa h @ ''h'' else [])
                 @ (if m > 0 then itoa (m mod 60) @ ''m'' else [])
                 @ itoa (s mod 60) @ frac_string 9 u @ ''s'')"

text \<open>\<open>%q\<close> on printable ASCII text.\<close>

definition quoted :: "string \<Rightarrow> string" where
  "quoted s = CHR 0x22 # concat (map (\<lambda>c. if c = CHR 0x22 \<or> c = CHR 0x5C then [CHR 0x5C, c] else [c]) s) @ [CHR 0x22]"

section \<open>Lists\<close>

text \<open>The first result a search through a list finds.\<close>

fun first_some :: "('a \<Rightarrow> 'b option) \<Rightarrow> 'a list \<Rightarrow> 'b option" where
  "first_some f [] = None"
| "first_some f (x # xs) = (case f x of None \<Rightarrow> first_some f xs | Some y \<Rightarrow> Some y)"

lemma first_some_cong [fundef_cong]:
  "xs = ys \<Longrightarrow> (\<And>x. x \<in> set ys \<Longrightarrow> f x = g x) \<Longrightarrow> first_some f xs = first_some g ys"
  by (induction xs arbitrary: ys) (auto split: option.splits)

lemma first_some_None_iff: "first_some f xs = None \<longleftrightarrow> (\<forall>x\<in>set xs. f x = None)"
  by (induction xs) (auto split: option.splits)

lemma first_some_SomeD: "first_some f xs = Some y \<Longrightarrow> \<exists>x\<in>set xs. f x = Some y"
  by (induction xs) (auto split: option.splits)

text \<open>Replacing one element of a list moves a count by at most one.\<close>

lemma length_filter_update:
  "i < length xs \<Longrightarrow> length (filter P (xs[i := y])) + (if P (xs ! i) then 1 else 0)
     = length (filter P xs) + (if P y then 1 else 0)"
proof (induction xs arbitrary: i)
  case (Cons x xs)
  then show ?case by (cases i) auto
qed simp

end
