(* ===== verification/Step_Id.thy ===== *)
theory Step_Id
  imports Go_Prelude
begin

text \<open>
  Step identity (\<^verbatim>\<open>src/ironflow/step.go\<close>): escaping of names, rendering of
  \<^verbatim>\<open>{scope}:{name}:{index}\<close>, and the proof that the rendered id determines the path
  of fan-out branches, the step name and the index. The step id is the memoization key on
  both sides of the wire, so this injectivity is what keeps one step from reading the
  memoized output of another.
\<close>

section \<open>Escaping\<close>

text \<open>\<open>strings.NewReplacer\<close> with the two one-byte patterns of \<open>stepIDPartEscaper\<close>.\<close>

definition esc_char :: "char \<Rightarrow> string" where
  "esc_char c =
     (if c = CHR 0x5C then [CHR 0x5C, CHR 0x5C]
      else if c = CHR '':'' then [CHR 0x5C, CHR '':'']
      else [c])"

definition stepIDPartEscaper :: "string \<Rightarrow> string" where
  "stepIDPartEscaper s = concat (map esc_char s)"

definition stepIDNamespaces :: "string list" where
  "stepIDNamespaces = [''compensate:'', ''publish:'']"

text \<open>The \<open>for\<close> loop of \<open>escapeStepIDPart\<close> over the namespaces.\<close>

fun escapeStepIDPart_loop :: "string list \<Rightarrow> string \<Rightarrow> string" where
  "escapeStepIDPart_loop [] part = stepIDPartEscaper part"
| "escapeStepIDPart_loop (ns # nss) part =
     (case cutPrefix ns part of
        Some after \<Rightarrow> ns @ stepIDPartEscaper after
      | None \<Rightarrow> escapeStepIDPart_loop nss part)"

definition escapeStepIDPart :: "string \<Rightarrow> string" where
  "escapeStepIDPart part = escapeStepIDPart_loop stepIDNamespaces part"

text \<open>\<open>fmt.Sprintf("%s:%s:%d", scope, name, index)\<close>.\<close>

definition formatStepID :: "string \<Rightarrow> string \<Rightarrow> nat \<Rightarrow> string" where
  "formatStepID scope name index = scope @ '':'' @ name @ '':'' @ itoa index"

section \<open>Specification: a step id names a path\<close>

text \<open>
  A step is identified by its run, the branches it sits in (outermost first, each a
  fan-out name and a branch index) and its own name and index. \<open>stepPathID\<close> folds
  \<open>formatStepID\<close> over that path, as the nested branch contexts do.
\<close>

type_synonym step_path = "(string \<times> nat) list"

fun stepPathID :: "string \<Rightarrow> step_path \<Rightarrow> string" where
  "stepPathID scope [] = scope"
| "stepPathID scope ((n, i) # path) =
     stepPathID (formatStepID scope (escapeStepIDPart n) i) path"

text \<open>The decoder the uniqueness proof uses: split at the unescaped colons, undoing the
  escapes.\<close>

fun unesc_segments :: "string \<Rightarrow> string list" where
  "unesc_segments [] = [[]]"
| "unesc_segments [c] = (if c = CHR '':'' then [[], []] else [[c]])"
| "unesc_segments (c # d # s) =
     (if c = CHR 0x5C then (case unesc_segments s of [] \<Rightarrow> [[d]] | x # xs \<Rightarrow> (d # x) # xs)
      else if c = CHR '':'' then [] # unesc_segments (d # s)
      else (case unesc_segments (d # s) of [] \<Rightarrow> [[c]] | x # xs \<Rightarrow> (c # x) # xs))"

text \<open>The segments one path element contributes.\<close>

fun name_segments_loop :: "string list \<Rightarrow> string \<Rightarrow> string list" where
  "name_segments_loop [] n = [n]"
| "name_segments_loop (ns # nss) n =
     (case cutPrefix ns n of
        Some after \<Rightarrow> [butlast ns, after]
      | None \<Rightarrow> name_segments_loop nss n)"

definition name_segments :: "string \<Rightarrow> string list" where
  "name_segments n = name_segments_loop stepIDNamespaces n"

definition elem_segments :: "string \<times> nat \<Rightarrow> string list" where
  "elem_segments e = name_segments (fst e) @ [itoa (snd e)]"

section \<open>Escaping is reversible\<close>

lemma unesc_segments_nonempty [simp]: "unesc_segments s \<noteq> []"
  by (induction s rule: unesc_segments.induct) (auto split: list.splits)

lemma esc_char_cons:
  "unesc_segments (esc_char c @ t) =
     (c # hd (unesc_segments t)) # tl (unesc_segments t)"
  by (cases t) (auto simp: esc_char_def split: list.splits)

lemma unesc_escaper_append:
  "unesc_segments (stepIDPartEscaper p @ t) =
     (p @ hd (unesc_segments t)) # tl (unesc_segments t)"
  by (induction p) (auto simp: stepIDPartEscaper_def esc_char_cons)

lemma unesc_colon: "unesc_segments (CHR '':'' # t) = [] # unesc_segments t"
  by (cases t) auto

lemma unesc_escaper_colon:
  "unesc_segments (stepIDPartEscaper p @ CHR '':'' # t) = p # unesc_segments t"
  by (simp add: unesc_escaper_append unesc_colon)

lemma escaper_id:
  "CHR '':'' \<notin> set p \<Longrightarrow> CHR 0x5C \<notin> set p \<Longrightarrow> stepIDPartEscaper p = p"
  by (induction p) (auto simp: stepIDPartEscaper_def esc_char_def)

lemma itoa_plain: "CHR '':'' \<notin> set (itoa i)" "CHR 0x5C \<notin> set (itoa i)"
  by (auto dest!: itoa_digits simp: isDigit_def)

lemma escaper_itoa [simp]: "stepIDPartEscaper (itoa i) = itoa i"
  by (simp add: escaper_id itoa_plain)

lemma unesc_itoa: "unesc_segments (itoa i) = [itoa i]"
  using unesc_escaper_append [of "itoa i" "[]"] by simp

lemma unesc_itoa_colon: "unesc_segments (itoa i @ CHR '':'' # t) = itoa i # unesc_segments t"
  using unesc_escaper_colon [of "itoa i" t] by simp

lemma escapeStepIDPart_cases:
  obtains (compensate) r where "n = ''compensate:'' @ r"
      "escapeStepIDPart n = ''compensate:'' @ stepIDPartEscaper r"
      "name_segments n = [''compensate'', r]"
  | (publish) r where "n = ''publish:'' @ r"
      "escapeStepIDPart n = ''publish:'' @ stepIDPartEscaper r"
      "name_segments n = [''publish'', r]"
  | (plain) "escapeStepIDPart n = stepIDPartEscaper n" "name_segments n = [n]"
      "\<And>r. n \<noteq> ''compensate:'' @ r" "\<And>r. n \<noteq> ''publish:'' @ r"
proof (cases "cutPrefix ''compensate:'' n")
  case (Some r)
  then have "n = ''compensate:'' @ r" by (simp only: cutPrefix_Some_iff)
  then show thesis
    by (rule compensate)
       (simp_all add: \<open>n = _\<close> escapeStepIDPart_def name_segments_def stepIDNamespaces_def)
next
  case None
  note c = None
  then have nc: "\<And>r. n \<noteq> ''compensate:'' @ r" by (metis cutPrefix_Some_iff option.distinct(1))
  show thesis
  proof (cases "cutPrefix ''publish:'' n")
    case (Some r)
    then have n: "n = ''publish:'' @ r" by (simp only: cutPrefix_Some_iff)
    show thesis
      by (rule publish [OF n])
         (simp_all only: escapeStepIDPart_def name_segments_def stepIDNamespaces_def
           escapeStepIDPart_loop.simps name_segments_loop.simps c Some option.case, simp)
  next
    case None
    then have np: "\<And>r. n \<noteq> ''publish:'' @ r" by (metis cutPrefix_Some_iff option.distinct(1))
    show thesis
      by (rule plain)
         (simp_all only: escapeStepIDPart_def name_segments_def stepIDNamespaces_def
           escapeStepIDPart_loop.simps name_segments_loop.simps c None option.case
           nc np not_False_eq_True)
  qed
qed

lemma unesc_namespace:
  "unesc_segments (''compensate:'' @ t) = ''compensate'' # unesc_segments t"
  "unesc_segments (''publish:'' @ t) = ''publish'' # unesc_segments t"
  by (cases t; simp)+

lemma unesc_elem:
  "unesc_segments (escapeStepIDPart n @ CHR '':'' # t) = name_segments n @ unesc_segments t"
  by (cases n rule: escapeStepIDPart_cases)
     (simp_all add: unesc_namespace [simplified] unesc_escaper_colon)

lemma name_segments_inj: "name_segments m = name_segments n \<Longrightarrow> m = n"
  by (cases m rule: escapeStepIDPart_cases; cases n rule: escapeStepIDPart_cases) auto

section \<open>The rendered path is decodable\<close>

text \<open>What a path appends to its scope.\<close>

fun path_suffix :: "step_path \<Rightarrow> string" where
  "path_suffix [] = []"
| "path_suffix ((n, i) # path) =
     '':'' @ escapeStepIDPart n @ '':'' @ itoa i @ path_suffix path"

lemma stepPathID_suffix: "stepPathID scope path = scope @ path_suffix path"
  by (induction scope path rule: stepPathID.induct) (simp_all add: formatStepID_def)

lemma path_suffix_head: "path \<noteq> [] \<Longrightarrow> path_suffix path = CHR '':'' # tl (path_suffix path)"
  by (cases path rule: path_suffix.cases) auto

lemma unesc_path_suffix:
  "unesc_segments (path_suffix path) = [] # concat (map elem_segments path)"
proof (induction path rule: path_suffix.induct)
  case 1
  show ?case by simp
next
  case (2 n i path)
  have "unesc_segments (itoa i @ path_suffix path) = itoa i # concat (map elem_segments path)"
  proof (cases "path = []")
    case True
    then show ?thesis by (simp add: unesc_itoa)
  next
    case False
    then obtain t where t: "path_suffix path = CHR '':'' # t"
      using path_suffix_head by blast
    with 2 have "unesc_segments t = concat (map elem_segments path)"
      by (simp add: unesc_colon)
    with t show ?thesis by (simp add: unesc_itoa_colon)
  qed
  then show ?case
    by (simp add: unesc_colon unesc_elem elem_segments_def [of "(n, i)"])
qed

lemma stepPathID_segments:
  "stepPathID run p = stepPathID run q \<Longrightarrow>
     concat (map elem_segments p) = concat (map elem_segments q)"
  using unesc_path_suffix [of p] unesc_path_suffix [of q]
  by (simp add: stepPathID_suffix)

section \<open>Segments determine the path\<close>

text \<open>
  A namespaced name contributes two segments and a plain one a single segment, so the
  segment list alone does not say where an element ends. What keeps the reading unique is
  that an index is numeric and a namespace is not: a reading that is out of step with
  another by one segment can never meet a namespace, so it stays out of step to the end.
\<close>

lemma namespace_not_itoa: "''compensate'' \<noteq> itoa j" "''publish'' \<noteq> itoa j"
  using itoa_digits [of "CHR ''c''" j] itoa_digits [of "CHR ''p''" j]
  by (auto simp: isDigit_def) (metis list.set_intros(1))+

lemma out_of_step:
  "concat (map elem_segments p) \<noteq> itoa j # concat (map elem_segments q)"
proof (induction "length p + length q" arbitrary: p q j rule: less_induct)
  case less
  show ?case
  proof (cases p)
    case Nil
    then show ?thesis by simp
  next
    case (Cons e p')
    show ?thesis
    proof (cases "fst e" rule: escapeStepIDPart_cases)
      case (compensate r)
      with Cons namespace_not_itoa show ?thesis by (simp add: elem_segments_def [of e])
    next
      case (publish r)
      with Cons namespace_not_itoa show ?thesis by (simp add: elem_segments_def [of e])
    next
      case plain
      have "concat (map elem_segments q) \<noteq> itoa (snd e) # concat (map elem_segments p')"
        using Cons by (intro less) simp
      with Cons plain show ?thesis
        by (auto simp: elem_segments_def [of e])
    qed
  qed
qed

lemma segments_inj:
  "concat (map elem_segments p) = concat (map elem_segments q) \<Longrightarrow> p = q"
proof (induction p arbitrary: q)
  case Nil
  then show ?case by (cases q) (auto simp: elem_segments_def)
next
  case (Cons e p)
  then obtain f q' where q: "q = f # q'"
    by (cases q) (auto simp: elem_segments_def)
  have eq: "name_segments (fst e) @ itoa (snd e) # concat (map elem_segments p)
      = name_segments (fst f) @ itoa (snd f) # concat (map elem_segments q')"
    using Cons.prems q by (simp add: elem_segments_def [of e] elem_segments_def [of f])
  have "name_segments (fst e) = name_segments (fst f)"
    using eq out_of_step [of p "snd f" q'] out_of_step [of q' "snd e" p]
    by (cases "fst e" rule: escapeStepIDPart_cases;
        cases "fst f" rule: escapeStepIDPart_cases) auto
  moreover from this eq have "itoa (snd e) = itoa (snd f)"
    and "concat (map elem_segments p) = concat (map elem_segments q')" by simp_all
  ultimately show ?case
    using Cons.IH q name_segments_inj by (auto simp: itoa_inj prod_eq_iff)
qed

lemma stepPathID_inj: "stepPathID run p = stepPathID run q \<longleftrightarrow> p = q"
  using stepPathID_segments segments_inj by blast

end
