(* ===== verification/Json_Value.thy ===== *)
theory Json_Value
  imports Go_Prelude
begin

text \<open>
  JSON documents and the Go values that carry them. The SDK handles payloads through
  \<open>encoding/json\<close>: a \<open>json.RawMessage\<close> is a document kept as bytes, an \<open>any\<close> slot
  holds a value that marshals to one or that JSON cannot encode (a channel, a function,
  NaN). The model keeps the document, not its spelling: two byte strings that differ only
  in white space or key order escape sequences are the same document. Numbers keep their
  literal text, so no rounding happens in the model either.
\<close>

datatype json =
    JNull
  | JBool bool
  | JNum string
  | JStr string
  | JArr "json list"
  | JObj "(string \<times> json) list"

text \<open>A value in an \<open>any\<close> slot: \<open>nil\<close>, an encodable value seen as its document, or a
  value \<open>json.Marshal\<close> rejects with the given message.\<close>

datatype gval = GNil | GJson json | GBad string

text \<open>\<open>json.Marshal\<close>: the document, or the error text.\<close>

fun marshal :: "gval \<Rightarrow> string + json" where
  "marshal GNil = Inr JNull"
| "marshal (GJson j) = Inr j"
| "marshal (GBad m) = Inl m"

definition encodable :: "gval \<Rightarrow> bool" where
  "encodable v = (\<forall>m. v \<noteq> GBad m)"

lemma encodable_code [code]:
  "encodable v = (case v of GBad _ \<Rightarrow> False | _ \<Rightarrow> True)"
  by (cases v) (auto simp: encodable_def)

lemma encodable_simps [simp]:
  "encodable GNil" "encodable (GJson j)" "\<not> encodable (GBad m)"
  by (auto simp: encodable_def)

lemma encodable_iff_marshal: "encodable v \<longleftrightarrow> (\<exists>j. marshal v = Inr j)"
  by (cases v) auto

text \<open>\<open>json.Unmarshal\<close> into \<open>any\<close>: \<open>null\<close> becomes \<open>nil\<close>.\<close>

definition unmarshalAny :: "json \<Rightarrow> string + gval" where
  "unmarshalAny j = Inr (if j = JNull then GNil else GJson j)"

text \<open>Decoding an object into a Go map: the last of two equal keys wins.\<close>

definition objLookup :: "(string \<times> json) list \<Rightarrow> string \<Rightarrow> json option" where
  "objLookup kvs k = map_of (rev kvs) k"

text \<open>A \<open>json.RawMessage\<close>: no bytes, bytes that are not a JSON document, or a document.\<close>

datatype raw = RawNone | RawBad string | Raw json

definition redactedKey :: string where
  "redactedKey = CHR 0x24 # ''redacted''"

text \<open>
  \<open>IsRedacted\<close> (\<^verbatim>\<open>client.go\<close>): the payload is an object whose \<open>$redacted\<close> member
  is \<open>true\<close>. A \<open>null\<close> document decodes to a nil map and a \<open>null\<close> marker leaves the
  flag false.
\<close>

definition isRedacted :: "raw \<Rightarrow> bool" where
  "isRedacted payload =
     (case payload of
        RawNone \<Rightarrow> False
      | RawBad _ \<Rightarrow> False
      | Raw (JObj probe) \<Rightarrow>
          (case objLookup probe redactedKey of
             None \<Rightarrow> False
           | Some (JBool flag) \<Rightarrow> flag
           | Some _ \<Rightarrow> False)
      | Raw _ \<Rightarrow> False)"

section \<open>Decoding into structs\<close>

text \<open>
  \<open>json.Unmarshal\<close> matches an object key with a struct field by name, ignoring ASCII case,
  and assigns the values in order: a later key overwrites an earlier one, \<open>null\<close> leaves
  a plain field as it was, and a value of the wrong kind makes the whole call fail after
  the other fields were set.
\<close>

definition toLower :: "char \<Rightarrow> char" where
  "toLower c = (let n = of_char c :: nat in if 65 \<le> n \<and> n \<le> 90 then char_of (n + 32) else c)"

definition foldEq :: "string \<Rightarrow> string \<Rightarrow> bool" where
  "foldEq a b = (map toLower a = map toLower b)"

definition fieldValues :: "(string \<times> json) list \<Rightarrow> string \<Rightarrow> json list" where
  "fieldValues kvs name = map snd (filter (\<lambda>kv. foldEq (fst kv) name) kvs)"

fun assignString :: "json list \<Rightarrow> string \<Rightarrow> bool \<times> string" where
  "assignString [] v = (True, v)"
| "assignString (j # js) v =
     (case j of
        JNull \<Rightarrow> assignString js v
      | JStr s \<Rightarrow> assignString js s
      | _ \<Rightarrow> (False, snd (assignString js v)))"

text \<open>An integer literal: an optional minus sign and digits, within 64 bits.\<close>

fun digitsValue :: "string \<Rightarrow> nat \<Rightarrow> nat option" where
  "digitsValue [] acc = Some acc"
| "digitsValue (c # s) acc =
     (if isDigit c then digitsValue s (10 * acc + (of_char c - 48)) else None)"

definition int64Literal :: "string \<Rightarrow> int option" where
  "int64Literal s =
     (let neg = (case s of c # _ \<Rightarrow> c = CHR ''-'' | [] \<Rightarrow> False);
          ds = (if neg then tl s else s)
      in if ds = [] then None
         else (case digitsValue ds 0 of
                 None \<Rightarrow> None
               | Some n \<Rightarrow>
                   let v = (if neg then - int n else int n)
                   in if - (2 ^ 63) \<le> v \<and> v < 2 ^ 63 then Some v else None))"

fun assignInt :: "json list \<Rightarrow> int \<Rightarrow> bool \<times> int" where
  "assignInt [] v = (True, v)"
| "assignInt (j # js) v =
     (case j of
        JNull \<Rightarrow> assignInt js v
      | JNum s \<Rightarrow> (case int64Literal s of
                    Some n \<Rightarrow> assignInt js n
                  | None \<Rightarrow> (False, snd (assignInt js v)))
      | _ \<Rightarrow> (False, snd (assignInt js v)))"

text \<open>A \<open>json.RawMessage\<close> field keeps the document as it is, \<open>null\<close> included; a map
  field is set by an object and cleared by \<open>null\<close>.\<close>

definition assignRaw :: "json list \<Rightarrow> raw" where
  "assignRaw js = (if js = [] then RawNone else Raw (last js))"

fun assignMap :: "json list \<Rightarrow> (string \<times> json) list option \<Rightarrow> bool \<times> (string \<times> json) list option" where
  "assignMap [] v = (True, v)"
| "assignMap (j # js) v =
     (case j of
        JNull \<Rightarrow> assignMap js None
      | JObj kvs \<Rightarrow> assignMap js (Some kvs)
      | _ \<Rightarrow> (False, snd (assignMap js v)))"

text \<open>The JSON text codec where the SDK parses or prints text inside a value.\<close>

record json_text =
  jt_parse :: "string \<Rightarrow> json option"
  jt_render :: "json \<Rightarrow> string"

end
