(* ===== verification/Errors.thy ===== *)
theory Errors
  imports Json_Value
begin

text \<open>
  Error values (\<^verbatim>\<open>src/ironflow/errors.go\<close>, \<^verbatim>\<open>connect_errors.go\<close> and the yield
  and invoke types of \<^verbatim>\<open>types.go\<close>). Go error values are a tree: an error may wrap
  others, and \<open>errors.As\<close> and \<open>errors.Is\<close> search it depth first. The retry
  classification that decides whether a run is retried, delayed or compensated is a
  function of this tree.
\<close>

section \<open>Yield information\<close>

text \<open>
  \<open>EventFilter\<close> and \<open>YieldInfo\<close>. \<open>yi_Until\<close> is the instant the RFC 3339 text names:
  that format has whole seconds, so it is counted in seconds.
\<close>

record event_filter =
  ef_onTimeout :: string
  ef_Payload :: gval
  ef_Event :: string
  ef_Match :: string
  ef_MatchValue :: string
  ef_Timeout :: int
  ef_TimeoutStr :: string

record yield_info =
  yi_StepID :: string
  yi_Type :: string
  yi_Until :: "int option"
  yi_EventFilter :: "event_filter option"
  yi_FunctionID :: string
  yi_Input :: gval
  yi_InvokeTimeoutMs :: int

section \<open>Error values\<close>

datatype connect_code =
    CodeCanceled | CodeUnknown | CodeInvalidArgument | CodeDeadlineExceeded | CodeNotFound
  | CodeAlreadyExists | CodePermissionDenied | CodeResourceExhausted | CodeFailedPrecondition
  | CodeAborted | CodeOutOfRange | CodeUnimplemented | CodeInternal | CodeUnavailable
  | CodeDataLoss | CodeUnauthenticated

text \<open>The package-level \<open>errors.New\<close> variables, compared by identity.\<close>

datatype sentinel =
    ErrFunctionNotFound | ErrRunNotFound | ErrInvalidSignature | ErrSignatureExpired
  | ErrMissingSignature | ErrTimeout | ErrValidation | ErrUnauthorized
  | ErrEnterpriseLicenseRequired | ErrForbidden | ErrPreconditionFailed
  | ErrPreconditionRequired | ErrPayloadTooLarge | ErrUnsupportedMediaType | ErrConflict
  | ErrContended | ErrInjectionUnverified
  | ErrStreamingUnsupported | ErrProjectionBatch | ErrProjectionLeaseLost
  | ErrProjectionUnimplemented | ErrProjectionInvalidArgument | ErrStaleAck
  | ErrSubscriptionClosed | errNotFound

datatype detail = DInt int | DStr string

text \<open>
  \<open>EWrap\<close> is \<open>fmt.Errorf\<close> with one or more \<open>%w\<close> operands (its text already
  rendered) or \<open>errors.Join\<close>. The three SDK types that embed \<open>*IronflowError\<close> carry
  the embedded value.
\<close>

datatype goerr =
    ENew string
  | ESentinel sentinel
  | EWrap string "goerr list"
  | EIron ironflow_error
  | EStep ironflow_error string string
  | EStepTimeout ironflow_error string int
  | ENonRetryable ironflow_error
  | EInvoke string string string
  | EYield yield_info
  | EConnect connect_code string "(string \<times> string) list"
  | ECanceled
  | EDeadlineExceeded
and ironflow_error =
    IronflowError (ie_Message: string) (ie_Code: string) (ie_Retryable: bool)
      (ie_RetryAfter: int) (ie_Details: "(string \<times> detail) list") (ie_Cause: "goerr option")

section \<open>\<open>errors.Unwrap\<close>, \<open>errors.As\<close>, \<open>errors.Is\<close>\<close>

text \<open>\<open>errors.Unwrap\<close> calls only an \<open>Unwrap() error\<close> method: an error that wraps several
  (two \<open>%w\<close>, or a join) has \<open>Unwrap() []error\<close> instead and unwraps to nil.\<close>

fun unwrap :: "goerr \<Rightarrow> goerr option" where
  "unwrap (EWrap _ [e]) = Some e"
| "unwrap (EIron e) = ie_Cause e"
| "unwrap (EStep e _ _) = Some (EIron e)"
| "unwrap (EStepTimeout e _ _) = Some (EIron e)"
| "unwrap (ENonRetryable e) = Some (EIron e)"
| "unwrap _ = None"

text \<open>\<open>errors.As\<close> with target \<open>*IronflowError\<close>: the embedding types unwrap to their
  embedded value, which matches.\<close>

fun asIronflow :: "goerr \<Rightarrow> ironflow_error option" where
  "asIronflow (EIron e) = Some e"
| "asIronflow (EStep e _ _) = Some e"
| "asIronflow (EStepTimeout e _ _) = Some e"
| "asIronflow (ENonRetryable e) = Some e"
| "asIronflow (EWrap _ es) = first_some asIronflow es"
| "asIronflow _ = None"

text \<open>\<open>errors.As\<close> with target \<open>*InvokeError\<close> and \<open>*yieldSignal\<close>.\<close>

fun asInvoke :: "goerr \<Rightarrow> (string \<times> string \<times> string) option"
  and asInvoke_iron :: "ironflow_error \<Rightarrow> (string \<times> string \<times> string) option" where
  "asInvoke (EInvoke f c m) = Some (f, c, m)"
| "asInvoke (EIron e) = asInvoke_iron e"
| "asInvoke (EStep e _ _) = asInvoke_iron e"
| "asInvoke (EStepTimeout e _ _) = asInvoke_iron e"
| "asInvoke (ENonRetryable e) = asInvoke_iron e"
| "asInvoke (EWrap _ es) = first_some asInvoke es"
| "asInvoke _ = None"
| "asInvoke_iron (IronflowError _ _ _ _ _ c) =
     (case c of None \<Rightarrow> None | Some e \<Rightarrow> asInvoke e)"

fun asYield :: "goerr \<Rightarrow> yield_info option"
  and asYield_iron :: "ironflow_error \<Rightarrow> yield_info option" where
  "asYield (EYield y) = Some y"
| "asYield (EIron e) = asYield_iron e"
| "asYield (EStep e _ _) = asYield_iron e"
| "asYield (EStepTimeout e _ _) = asYield_iron e"
| "asYield (ENonRetryable e) = asYield_iron e"
| "asYield (EWrap _ es) = first_some asYield es"
| "asYield _ = None"
| "asYield_iron (IronflowError _ _ _ _ _ c) =
     (case c of None \<Rightarrow> None | Some e \<Rightarrow> asYield e)"

definition isYieldSignal :: "goerr \<Rightarrow> yield_info option" where
  "isYieldSignal err = asYield err"

text \<open>\<open>errors.Is\<close> against a sentinel.\<close>

fun errorsIs :: "sentinel \<Rightarrow> goerr \<Rightarrow> bool"
  and errorsIs_iron :: "sentinel \<Rightarrow> ironflow_error \<Rightarrow> bool" where
  "errorsIs s (ESentinel t) = (s = t)"
| "errorsIs s (EIron e) = errorsIs_iron s e"
| "errorsIs s (EStep e _ _) = errorsIs_iron s e"
| "errorsIs s (EStepTimeout e _ _) = errorsIs_iron s e"
| "errorsIs s (ENonRetryable e) = errorsIs_iron s e"
| "errorsIs s (EWrap _ es) = (\<exists>e\<in>set es. errorsIs s e)"
| "errorsIs s _ = False"
| "errorsIs_iron s (IronflowError _ _ _ _ _ c) =
     (case c of None \<Rightarrow> False | Some e \<Rightarrow> errorsIs s e)"

section \<open>Error texts\<close>

fun connectCodeString :: "connect_code \<Rightarrow> string" where
  "connectCodeString CodeCanceled = ''canceled''"
| "connectCodeString CodeUnknown = ''unknown''"
| "connectCodeString CodeInvalidArgument = ''invalid_argument''"
| "connectCodeString CodeDeadlineExceeded = ''deadline_exceeded''"
| "connectCodeString CodeNotFound = ''not_found''"
| "connectCodeString CodeAlreadyExists = ''already_exists''"
| "connectCodeString CodePermissionDenied = ''permission_denied''"
| "connectCodeString CodeResourceExhausted = ''resource_exhausted''"
| "connectCodeString CodeFailedPrecondition = ''failed_precondition''"
| "connectCodeString CodeAborted = ''aborted''"
| "connectCodeString CodeOutOfRange = ''out_of_range''"
| "connectCodeString CodeUnimplemented = ''unimplemented''"
| "connectCodeString CodeInternal = ''internal''"
| "connectCodeString CodeUnavailable = ''unavailable''"
| "connectCodeString CodeDataLoss = ''data_loss''"
| "connectCodeString CodeUnauthenticated = ''unauthenticated''"

fun sentinelString :: "sentinel \<Rightarrow> string" where
  "sentinelString ErrFunctionNotFound = ''function not found''"
| "sentinelString ErrRunNotFound = ''run not found''"
| "sentinelString ErrInvalidSignature = ''invalid signature''"
| "sentinelString ErrSignatureExpired = ''signature expired''"
| "sentinelString ErrMissingSignature = ''missing signature''"
| "sentinelString ErrTimeout = ''timeout''"
| "sentinelString ErrValidation = ''validation error''"
| "sentinelString ErrUnauthorized = ''unauthorized''"
| "sentinelString ErrEnterpriseLicenseRequired = ''enterprise license required''"
| "sentinelString ErrForbidden = ''forbidden''"
| "sentinelString ErrPreconditionFailed = ''ironflow: precondition failed''"
| "sentinelString ErrPreconditionRequired = ''ironflow: precondition required''"
| "sentinelString ErrPayloadTooLarge = ''ironflow: payload too large''"
| "sentinelString ErrUnsupportedMediaType = ''ironflow: unsupported media type''"
| "sentinelString ErrConflict = ''conflict''"
| "sentinelString ErrContended = ''contended''"
| "sentinelString ErrInjectionUnverified = ''injection unverified''"
| "sentinelString ErrStreamingUnsupported = ''projection streaming unsupported''"
| "sentinelString ErrProjectionBatch = ''projection batch failed''"
| "sentinelString ErrProjectionLeaseLost = ''projection lease lost''"
| "sentinelString ErrProjectionUnimplemented = ''projection method unimplemented''"
| "sentinelString ErrProjectionInvalidArgument = ''projection request invalid''"
| "sentinelString ErrStaleAck =
     ''ironflow: the event is not pending on the current stream (settled already, or delivered before a reconnect)''"
| "sentinelString ErrSubscriptionClosed = ''ironflow: the subscription is closed''"
| "sentinelString errNotFound = ''not found''"

text \<open>\<open>Error()\<close> of every error type; \<open>*IronflowError\<close> appends its cause.\<close>

fun errorText :: "goerr \<Rightarrow> string"
  and ironflowText :: "ironflow_error \<Rightarrow> string" where
  "errorText (ENew m) = m"
| "errorText (ESentinel s) = sentinelString s"
| "errorText (EWrap m _) = m"
| "errorText (EIron e) = ironflowText e"
| "errorText (EStep e _ _) = ironflowText e"
| "errorText (EStepTimeout e _ _) = ironflowText e"
| "errorText (ENonRetryable e) = ironflowText e"
| "errorText (EInvoke f child cause) =
     (if child \<noteq> [] then
        ''invoke '' @ [CHR 0x27] @ f @ [CHR 0x27] @ '' failed (run '' @ child @ ''): '' @ cause
      else ''invoke '' @ [CHR 0x27] @ f @ [CHR 0x27] @ '' failed: '' @ cause)"
| "errorText (EYield _) = ''yield signal''"
| "errorText (EConnect c m _) = connectCodeString c @ '': '' @ m"
| "errorText ECanceled = ''context canceled''"
| "errorText EDeadlineExceeded = ''context deadline exceeded''"
| "ironflowText (IronflowError m _ _ _ _ c) =
     (case c of None \<Rightarrow> m | Some e \<Rightarrow> m @ '': '' @ errorText e)"

section \<open>Constructors\<close>

definition newError :: "string \<Rightarrow> string \<Rightarrow> bool \<Rightarrow> ironflow_error" where
  "newError message code retryable = IronflowError message code retryable 0 [] None"

definition wrapError :: "goerr \<Rightarrow> string \<Rightarrow> string \<Rightarrow> bool \<Rightarrow> ironflow_error" where
  "wrapError err message code retryable = IronflowError message code retryable 0 [] (Some err)"

definition newStepError :: "string \<Rightarrow> string \<Rightarrow> string \<Rightarrow> bool \<Rightarrow> goerr option \<Rightarrow> goerr" where
  "newStepError message stepID stepName retryable cause =
     EStep (IronflowError message ''STEP_ERROR'' retryable 0
              [(''stepId'', DStr stepID), (''stepName'', DStr stepName)] cause)
       stepID stepName"

definition newStepTimeoutError :: "string \<Rightarrow> int \<Rightarrow> goerr" where
  "newStepTimeoutError stepName timeout =
     EStepTimeout
       (IronflowError (''step '' @ quoted stepName @ '' timed out after '' @ durationString timeout)
          ''STEP_TIMEOUT'' True 0 [] None)
       stepName timeout"

definition newNonRetryableError :: "string \<Rightarrow> goerr" where
  "newNonRetryableError message =
     ENonRetryable (IronflowError message ''NON_RETRYABLE'' False 0 [] None)"

definition wrapNonRetryable :: "goerr \<Rightarrow> goerr" where
  "wrapNonRetryable err =
     ENonRetryable (IronflowError (errorText err) ''NON_RETRYABLE'' False 0 [] (Some err))"

definition newRetryAfterError :: "string \<Rightarrow> int \<Rightarrow> ironflow_error" where
  "newRetryAfterError message after = IronflowError message ''RETRY_AFTER'' True after [] None"

section \<open>Retry classification\<close>

definition isRetryable :: "goerr \<Rightarrow> bool" where
  "isRetryable err =
     (case asIronflow err of
        Some e \<Rightarrow> ie_Retryable e
      | None \<Rightarrow> (case asInvoke err of Some _ \<Rightarrow> False | None \<Rightarrow> True))"

text \<open>The rounding of \<open>retryAfterMs\<close>: whole milliseconds, rounded up.\<close>

definition ceilMs :: "int \<Rightarrow> int" where
  "ceilMs d =
     (let ms = go_div d millisecond
      in if go_rem d millisecond \<noteq> 0 then ms + 1 else ms)"

text \<open>Every \<open>Unwrap\<close> makes progress: the measure of the loop below.\<close>

definition unwrap_measure :: "goerr \<Rightarrow> nat" where
  "unwrap_measure e = 2 * size e + (case e of EIron _ \<Rightarrow> 0 | _ \<Rightarrow> 1)"

lemma size_ie_Cause: "ie_Cause e = Some c \<Longrightarrow> size c < Suc (size e)"
  by (cases e) auto

lemma unwrap_decreases: "unwrap e = Some e' \<Longrightarrow> unwrap_measure e' < unwrap_measure e"
  by (cases e rule: unwrap.cases)
     (auto simp: unwrap_measure_def dest: size_ie_Cause split: goerr.splits)

text \<open>The \<open>for\<close> loop over \<open>errors.Unwrap\<close>.\<close>

function retryAfterMs_loop :: "goerr \<Rightarrow> int" where
  "retryAfterMs_loop e =
     (if (case e of EIron i \<Rightarrow> ie_RetryAfter i > 0 | _ \<Rightarrow> False)
      then (case e of EIron i \<Rightarrow> ceilMs (ie_RetryAfter i) | _ \<Rightarrow> 0)
      else (case unwrap e of None \<Rightarrow> 0 | Some e' \<Rightarrow> retryAfterMs_loop e'))"
  by pat_completeness auto
termination
  by (relation "measure unwrap_measure") (auto dest: unwrap_decreases)

declare retryAfterMs_loop.simps [simp del]

definition retryAfterMs :: "goerr \<Rightarrow> bool \<Rightarrow> int" where
  "retryAfterMs err retryable = (if \<not> retryable then 0 else retryAfterMs_loop err)"

definition isTerminalFailure :: "bool \<Rightarrow> int \<Rightarrow> int \<Rightarrow> string \<Rightarrow> bool" where
  "isTerminalFailure retryable attempt maxAttempts onExhausted =
     (if \<not> retryable then True
      else onExhausted = ''fail'' \<and> maxAttempts > 0 \<and> attempt \<ge> maxAttempts)"

section \<open>Yield signals\<close>

definition blank_yield :: yield_info where
  "blank_yield = \<lparr> yi_StepID = [], yi_Type = [], yi_Until = None, yi_EventFilter = None,
     yi_FunctionID = [], yi_Input = GNil, yi_InvokeTimeoutMs = 0 \<rparr>"

text \<open>\<open>formatDuration\<close>: whole hours, whole minutes, else seconds truncated.\<close>

definition formatDuration :: "int \<Rightarrow> string" where
  "formatDuration d =
     (if d \<ge> hour \<and> go_rem d hour = 0 then itoaInt (go_div d hour) @ ''h''
      else if d \<ge> minute \<and> go_rem d minute = 0 then itoaInt (go_div d minute) @ ''m''
      else itoaInt (go_div d second) @ ''s'')"

text \<open>The instant a \<open>time.RFC3339\<close> text names has no sub-second part.\<close>

definition rfc3339 :: "int \<Rightarrow> int" where
  "rfc3339 t = t div second"

definition newSleepYield :: "string \<Rightarrow> int \<Rightarrow> yield_info" where
  "newSleepYield stepID until =
     blank_yield \<lparr> yi_StepID := stepID, yi_Type := ''sleep'', yi_Until := Some (rfc3339 until) \<rparr>"

definition newWaitEventYield :: "string \<Rightarrow> event_filter \<Rightarrow> yield_info" where
  "newWaitEventYield stepID flt =
     (let f = (if ef_Timeout flt > 0 \<and> ef_TimeoutStr flt = []
               then flt \<lparr> ef_TimeoutStr := formatDuration (ef_Timeout flt) \<rparr>
               else flt)
      in blank_yield \<lparr> yi_StepID := stepID, yi_Type := ''wait_for_event'',
           yi_EventFilter := Some f \<rparr>)"

definition newInvokeYield :: "yield_info \<Rightarrow> yield_info" where
  "newInvokeYield info = info"

section \<open>Server errors\<close>

definition isRetryableConnectCode :: "connect_code \<Rightarrow> bool" where
  "isRetryableConnectCode code =
     (case code of
        CodeUnknown \<Rightarrow> True | CodeDeadlineExceeded \<Rightarrow> True | CodeInternal \<Rightarrow> True
      | CodeUnavailable \<Rightarrow> True | CodeDataLoss \<Rightarrow> True | CodeResourceExhausted \<Rightarrow> True
      | _ \<Rightarrow> False)"

definition legacyGenericCodes :: "(string \<times> string) list" where
  "legacyGenericCodes =
     [(''INVALID'', ''invalid_argument''), (''FORBIDDEN'', ''permission_denied''),
      (''NOT_FOUND'', ''not_found''), (''CONFLICT'', ''already_exists''),
      (''INTERNAL'', ''internal'')]"

definition restErrorCode :: "string \<Rightarrow> int \<Rightarrow> string" where
  "restErrorCode bodyCode status =
     (if bodyCode \<noteq> [] then
        (case map_of legacyGenericCodes bodyCode of Some c \<Rightarrow> c | None \<Rightarrow> bodyCode)
      else if status = 401 then ''unauthenticated''
      else if status = 408 \<or> status = 504 then ''deadline_exceeded''
      else if status = 402 \<or> status = 412 \<or> status = 507 then ''failed_precondition''
      else if status = 403 then ''permission_denied''
      else if status = 404 then ''not_found''
      else if status = 409 then ''already_exists''
      else if status = 429 then ''resource_exhausted''
      else if status = 501 then ''unimplemented''
      else if status = 503 then ''unavailable''
      else if status \<ge> 500 then ''internal''
      else ''invalid_argument'')"

section \<open>Lemmas\<close>

text \<open>\<open>NewStepError\<close> around a step's own error keeps its classification.\<close>

lemma isRetryable_newStepError [simp]: "isRetryable (newStepError m i n r c) = r"
  by (simp add: isRetryable_def newStepError_def)

lemma isRetryable_timeout [simp]: "isRetryable (newStepTimeoutError n t)"
  by (simp add: isRetryable_def newStepTimeoutError_def)

lemma isRetryable_EInvoke [simp]: "\<not> isRetryable (EInvoke f c m)"
  by (simp add: isRetryable_def)

lemma ceilMs_bounds:
  assumes "0 < d"
  shows "d \<le> ceilMs d * millisecond" and "ceilMs d * millisecond < d + millisecond"
    and "0 < ceilMs d"
proof -
  define q m where "q = d div 1000000" and "m = d mod 1000000"
  have d: "d = q * 1000000 + m" and m: "0 \<le> m" "m < 1000000"
    by (simp_all add: q_def m_def)
  have c: "ceilMs d = (if m \<noteq> 0 then q + 1 else q)"
    using assms
    by (simp add: ceilMs_def Let_def go_div_nonneg go_rem_nonneg millisecond_def q_def m_def)
  show "d \<le> ceilMs d * millisecond"
    unfolding c millisecond_def using m d by auto
  show "ceilMs d * millisecond < d + millisecond"
    unfolding c millisecond_def using m d by auto
  show "0 < ceilMs d" unfolding c using assms m d by auto
qed

lemma retryAfterMs_loop_nonneg: "0 \<le> retryAfterMs_loop e"
proof (induction e rule: retryAfterMs_loop.induct)
  case (1 e)
  then show ?case
    using ceilMs_bounds(3)
    by (auto simp: retryAfterMs_loop.simps [of e] order.strict_iff_order
        split: goerr.splits option.splits)
qed

lemma retryAfterMs_loop_iron:
  "0 < ie_RetryAfter i \<Longrightarrow> retryAfterMs_loop (EIron i) = ceilMs (ie_RetryAfter i)"
  by (subst retryAfterMs_loop.simps) simp

lemma retryAfterMs_loop_wrap: "retryAfterMs_loop (EWrap m [e]) = retryAfterMs_loop e"
  by (subst retryAfterMs_loop.simps) simp

lemma retryAfterMs_loop_step:
  "retryAfterMs_loop (newStepError m i n r (Some c)) = retryAfterMs_loop c"
  by (simp add: newStepError_def retryAfterMs_loop.simps [of "EStep _ _ _"]
      retryAfterMs_loop.simps [of "EIron _"])

end
