(* ===== verification/Exec_Context.thy ===== *)
theory Exec_Context
  imports Step_Id Errors
begin

text \<open>
  The execution context of one run invocation (\<^verbatim>\<open>executionContext\<close> of
  \<^verbatim>\<open>src/ironflow/step.go\<close>), the branch contexts of \<^verbatim>\<open>types.go\<close>, the
  \<open>StepContext\<close> interface of \<^verbatim>\<open>parallel.go\<close> as a dictionary of operations, and its
  two implementations. The laws the step primitives rely on are the locale \<open>step_scope\<close>,
  interpreted for the root context and for every branch context.

  State. An \<open>exec\<close> record is the Go struct; branch contexts are Go pointers, so they live
  in a store (\<open>ec_branches\<close>) and are named by their position. Everything outside the SDK
  (the clock, the job's \<open>context.Context\<close>, the streaming step reporter and whatever user
  code does) is the \<open>world\<close>, passed through every call. A zero value of a type
  parameter \<open>T\<close> is \<open>GNil\<close>.
\<close>

section \<open>Data\<close>

record event =
  ev_ID :: string
  ev_Name :: string
  ev_Version :: int
  ev_RawData :: raw
  ev_Timestamp :: "int option"
  ev_IdempotencyKey :: string
  ev_Source :: string
  ev_Metadata :: "(string \<times> json) list option"
  ev_EmittedBy :: string

record step_error_info =
  sei_Message :: string
  sei_Retryable :: bool

record step_result =
  sr_ID :: string
  sr_Name :: string
  sr_Type :: string
  sr_Status :: string
  sr_StartedAt :: int
  sr_EndedAt :: "int option"
  sr_Duration :: int
  sr_Output :: gval
  sr_Error :: "step_error_info option"
  sr_CompensationFor :: string

record completed_step =
  cs_ID :: string
  cs_Name :: string
  cs_Status :: string
  cs_Output :: gval
  cs_Error :: gval

record resume_context =
  rc_StepID :: string
  rc_Type :: string
  rc_Data :: gval

text \<open>Messages of the \<open>stepLifecycleReporter\<close> (streaming worker).\<close>

datatype step_report =
    StepStarted string string string
  | StepCompleted string string string gval int
  | StepFailed string string string string int

record world =
  w_now :: int
  w_ctxErr :: "goerr option"
  w_reports :: "step_report list"
  w_log :: "string list"

text \<open>
  One call of a step body: its result, and whether the timer of \<open>runWithTimeout\<close> wins the
  \<open>select\<close> (looked at only when the step has a timeout). The world it returns is the one at
  the moment the \<open>select\<close> goes on.
\<close>

record fn_run =
  fr_value :: gval
  fr_err :: "goerr option"
  fr_timerFirst :: bool

type_synonym stepfn = "string \<Rightarrow> world \<Rightarrow> fn_run \<times> world"
type_synonym compfn = "world \<Rightarrow> goerr option \<times> world"

text \<open>The \<open>TestInterceptor\<close> interface. \<open>RecordStep\<close> takes an \<open>any\<close>; the call with an
  \<open>Event\<close> in it (\<open>"waitForEvent"\<close>) is the separate field \<open>ti_RecordWait\<close>, so that
  the event keeps its type.\<close>

record interceptor =
  ti_RunStep :: "string \<Rightarrow> world \<Rightarrow> (gval \<times> goerr option) \<times> world"
  ti_SleepStep :: "string \<Rightarrow> world \<Rightarrow> world"
  ti_WaitForEventStep :: "string \<Rightarrow> event_filter \<Rightarrow> bool \<Rightarrow> world \<Rightarrow> (event option \<times> goerr option) \<times> world"
  ti_InvokeStep :: "string \<Rightarrow> gval \<Rightarrow> world \<Rightarrow> (gval \<times> goerr option) \<times> world"
  ti_InvokeAsyncStep :: "string \<Rightarrow> gval \<Rightarrow> world \<Rightarrow> (string \<times> goerr option) \<times> world"
  ti_CompensateStep :: "string \<Rightarrow> compfn \<Rightarrow> world \<Rightarrow> world"
  ti_RecordStep :: "string \<Rightarrow> string \<Rightarrow> gval \<Rightarrow> goerr option \<Rightarrow> world \<Rightarrow> world"
  ti_RecordWait :: "string \<Rightarrow> event option \<Rightarrow> goerr option \<Rightarrow> world \<Rightarrow> world"

record branch_context =
  bc_scopePrefix :: string
  bc_legacyScopePrefix :: string
  bc_stepCounters :: "string \<Rightarrow> nat"
  bc_scopedClientUsed :: bool

record exec =
  ec_hasCtx :: bool
  ec_runID :: string
  ec_functionID :: string
  ec_attempt :: int
  ec_stepCounters :: "string \<Rightarrow> nat"
  ec_completedSteps :: "string \<rightharpoonup> completed_step"
  ec_executedSteps :: "step_result list"
  ec_resumeContext :: "resume_context option"
  ec_resumeHandled :: bool
  ec_compensations :: "(string \<times> compfn) list"
  ec_testInterceptor :: "interceptor option"
  ec_stepReporter :: bool
  ec_stepTimeout :: int
  ec_serverURL :: string
  ec_apiKey :: string
  ec_environment :: string
  ec_fanOutDepth :: int
  ec_enclosingClaims :: int
  ec_warnedUnscoped :: "string list"
  ec_branches :: "branch_context list"

text \<open>What a step primitive does: return a value and an error, or unwind the handler with a
  yield signal (\<open>panic(newSleepYield ...)\<close>).\<close>

datatype 'a outcome = Ret 'a "goerr option" | Yield yield_info

section \<open>\<open>executionContext\<close>\<close>

definition cancellationErr :: "exec \<Rightarrow> world \<Rightarrow> goerr option" where
  "cancellationErr c w = (if \<not> ec_hasCtx c then None else w_ctxErr w)"

definition shouldWarnUnscoped :: "string \<Rightarrow> exec \<Rightarrow> bool \<times> exec" where
  "shouldWarnUnscoped name c =
     (if name \<in> set (ec_warnedUnscoped c) then (False, c)
      else (True, c \<lparr> ec_warnedUnscoped := name # ec_warnedUnscoped c \<rparr>))"

definition preferLegacyStepID :: "exec \<Rightarrow> string \<Rightarrow> string \<Rightarrow> string" where
  "preferLegacyStepID c id' legacy =
     (if legacy = id' then id'
      else if ec_completedSteps c id' \<noteq> None then id'
      else if ec_completedSteps c legacy \<noteq> None then legacy
      else id')"

definition generateStepID :: "string \<Rightarrow> exec \<Rightarrow> string \<times> exec" where
  "generateStepID name c =
     (let c1 = (if ec_fanOutDepth c > 0
                then c \<lparr> ec_enclosingClaims := ec_enclosingClaims c + 1 \<rparr> else c);
          index = ec_stepCounters c1 name;
          c2 = c1 \<lparr> ec_stepCounters := (ec_stepCounters c1)(name := index + 1) \<rparr>
      in (preferLegacyStepID c2
            (formatStepID (ec_runID c2) (escapeStepIDPart name) index)
            (formatStepID (ec_runID c2) name index), c2))"

definition isResumingFrom :: "string \<Rightarrow> string \<Rightarrow> exec \<Rightarrow> bool" where
  "isResumingFrom stepID stepType c =
     (case ec_resumeContext c of
        None \<Rightarrow> False
      | Some r \<Rightarrow> rc_StepID r = stepID \<and> rc_Type r = stepType)"

definition getResumeData :: "exec \<Rightarrow> gval" where
  "getResumeData c = (case ec_resumeContext c of None \<Rightarrow> GNil | Some r \<Rightarrow> rc_Data r)"

definition markResumeHandled :: "exec \<Rightarrow> exec" where
  "markResumeHandled c = c \<lparr> ec_resumeHandled := True \<rparr>"

definition getCompletedStep :: "string \<Rightarrow> exec \<Rightarrow> completed_step option" where
  "getCompletedStep stepID c = ec_completedSteps c stepID"

definition recordStep :: "step_result \<Rightarrow> exec \<Rightarrow> exec" where
  "recordStep s c = c \<lparr> ec_executedSteps := ec_executedSteps c @ [s] \<rparr>"

definition registerCompensation :: "string \<Rightarrow> compfn \<Rightarrow> exec \<Rightarrow> exec" where
  "registerCompensation stepName fn c =
     c \<lparr> ec_compensations := ec_compensations c @ [(stepName, fn)] \<rparr>"

definition hasCompensations :: "exec \<Rightarrow> bool" where
  "hasCompensations c = (length (ec_compensations c) > 0)"

text \<open>\<open>createBranchContext\<close> on the root and on a branch: a new branch in the store.\<close>

definition newBranch :: "string \<Rightarrow> string \<Rightarrow> exec \<Rightarrow> nat \<times> exec" where
  "newBranch scopePrefix legacyPrefix c =
     (length (ec_branches c),
      c \<lparr> ec_branches := ec_branches c @
        [\<lparr> bc_scopePrefix = scopePrefix, bc_legacyScopePrefix = legacyPrefix,
           bc_stepCounters = (\<lambda>_. 0), bc_scopedClientUsed = False \<rparr>] \<rparr>)"

definition createBranchContext :: "string \<Rightarrow> nat \<Rightarrow> exec \<Rightarrow> nat \<times> exec" where
  "createBranchContext parallelName branchIndex c =
     newBranch (formatStepID (ec_runID c) (escapeStepIDPart parallelName) branchIndex)
       (formatStepID (ec_runID c) parallelName branchIndex) c"

section \<open>\<open>BranchContext\<close>\<close>

definition branch_createBranchContext :: "nat \<Rightarrow> string \<Rightarrow> nat \<Rightarrow> exec \<Rightarrow> nat \<times> exec" where
  "branch_createBranchContext b parallelName branchIndex c =
     (let bc = ec_branches c ! b in
      newBranch (formatStepID (bc_scopePrefix bc) (escapeStepIDPart parallelName) branchIndex)
        (formatStepID (bc_legacyScopePrefix bc) parallelName branchIndex) c)"

definition branch_generateStepID :: "nat \<Rightarrow> string \<Rightarrow> exec \<Rightarrow> string \<times> exec" where
  "branch_generateStepID b name c =
     (let bc = ec_branches c ! b;
          index = bc_stepCounters bc name;
          bc' = bc \<lparr> bc_stepCounters := (bc_stepCounters bc)(name := index + 1) \<rparr>;
          c' = c \<lparr> ec_branches := (ec_branches c)[b := bc'] \<rparr>
      in (preferLegacyStepID c'
            (formatStepID (bc_scopePrefix bc) (escapeStepIDPart name) index)
            (formatStepID (bc_legacyScopePrefix bc) name index), c'))"

definition branch_markScopedUsed :: "nat \<Rightarrow> exec \<Rightarrow> exec" where
  "branch_markScopedUsed b c =
     c \<lparr> ec_branches :=
          (ec_branches c)[b := (ec_branches c ! b) \<lparr> bc_scopedClientUsed := True \<rparr>] \<rparr>"

section \<open>The \<open>StepContext\<close> interface\<close>

record step_context =
  sc_generateStepID :: "string \<Rightarrow> exec \<Rightarrow> string \<times> exec"
  sc_getCompletedStep :: "string \<Rightarrow> exec \<Rightarrow> completed_step option"
  sc_recordStep :: "step_result \<Rightarrow> exec \<Rightarrow> exec"
  sc_isResumingFrom :: "string \<Rightarrow> string \<Rightarrow> exec \<Rightarrow> bool"
  sc_getResumeData :: "exec \<Rightarrow> gval"
  sc_markResumeHandled :: "exec \<Rightarrow> exec"
  sc_createBranchContext :: "string \<Rightarrow> nat \<Rightarrow> exec \<Rightarrow> nat \<times> exec"
  sc_markScopedUsed :: "exec \<Rightarrow> exec"

text \<open>The root \<open>Context\<close>: every method delegates to \<open>c.exec\<close>, \<open>markScopedUsed\<close> is a
  no-op.\<close>

definition rootContext :: step_context where
  "rootContext = \<lparr>
     sc_generateStepID = generateStepID,
     sc_getCompletedStep = getCompletedStep,
     sc_recordStep = recordStep,
     sc_isResumingFrom = isResumingFrom,
     sc_getResumeData = getResumeData,
     sc_markResumeHandled = markResumeHandled,
     sc_createBranchContext = createBranchContext,
     sc_markScopedUsed = (\<lambda>c. c) \<rparr>"

text \<open>A \<open>*BranchContext\<close>: its own counters and scope, everything else from the parent.\<close>

definition branchContext :: "nat \<Rightarrow> step_context" where
  "branchContext b = \<lparr>
     sc_generateStepID = branch_generateStepID b,
     sc_getCompletedStep = getCompletedStep,
     sc_recordStep = recordStep,
     sc_isResumingFrom = isResumingFrom,
     sc_getResumeData = getResumeData,
     sc_markResumeHandled = markResumeHandled,
     sc_createBranchContext = branch_createBranchContext b,
     sc_markScopedUsed = branch_markScopedUsed b \<rparr>"

section \<open>\<open>newExecutionContext\<close>\<close>

text \<open>Indexing the completed rows: a later row with the same id replaces an earlier one.\<close>

fun indexCompleted :: "completed_step list \<Rightarrow> (string \<rightharpoonup> completed_step) \<Rightarrow> (string \<rightharpoonup> completed_step)" where
  "indexCompleted [] m = m"
| "indexCompleted (s # ss) m = indexCompleted ss (m(cs_ID s \<mapsto> s))"

definition emptyExec :: exec where
  "emptyExec = \<lparr> ec_hasCtx = False, ec_runID = [], ec_functionID = [], ec_attempt = 0,
     ec_stepCounters = (\<lambda>_. 0), ec_completedSteps = Map.empty, ec_executedSteps = [],
     ec_resumeContext = None, ec_resumeHandled = False, ec_compensations = [],
     ec_testInterceptor = None, ec_stepReporter = False, ec_stepTimeout = 0,
     ec_serverURL = [], ec_apiKey = [], ec_environment = [], ec_fanOutDepth = 0,
     ec_enclosingClaims = 0, ec_warnedUnscoped = [], ec_branches = [] \<rparr>"

definition newExecutionContext ::
  "string \<Rightarrow> string \<Rightarrow> int \<Rightarrow> completed_step list \<Rightarrow> resume_context option \<Rightarrow> exec" where
  "newExecutionContext runID functionID attempt steps resume =
     emptyExec \<lparr> ec_runID := runID, ec_functionID := functionID, ec_attempt := attempt,
       ec_resumeContext := resume, ec_completedSteps := indexCompleted steps Map.empty \<rparr>"

lemma indexCompleted_append: "indexCompleted (xs @ ys) m = indexCompleted ys (indexCompleted xs m)"
  by (induction xs arbitrary: m) auto

lemma indexCompleted_eq: "indexCompleted ss m = m ++ map_of (rev (map (\<lambda>s. (cs_ID s, s)) ss))"
  by (induction ss arbitrary: m) auto

section \<open>The interface's laws\<close>

text \<open>
  What claiming a step id may change: the counters, the branch store and the count of
  claims made during a fan-out. Every other field is as before.
\<close>

definition same_but_counters :: "exec \<Rightarrow> exec \<Rightarrow> bool" where
  "same_but_counters c d \<longleftrightarrow>
     d = c \<lparr> ec_stepCounters := ec_stepCounters d, ec_branches := ec_branches d,
             ec_enclosingClaims := ec_enclosingClaims d \<rparr>"

lemma same_but_countersD:
  assumes "same_but_counters c d"
  shows "ec_hasCtx d = ec_hasCtx c" "ec_runID d = ec_runID c"
    "ec_functionID d = ec_functionID c" "ec_attempt d = ec_attempt c"
    "ec_completedSteps d = ec_completedSteps c" "ec_executedSteps d = ec_executedSteps c"
    "ec_resumeContext d = ec_resumeContext c" "ec_resumeHandled d = ec_resumeHandled c"
    "ec_compensations d = ec_compensations c" "ec_testInterceptor d = ec_testInterceptor c"
    "ec_stepReporter d = ec_stepReporter c" "ec_stepTimeout d = ec_stepTimeout c"
    "ec_serverURL d = ec_serverURL c" "ec_apiKey d = ec_apiKey c"
    "ec_environment d = ec_environment c"
    "ec_fanOutDepth d = ec_fanOutDepth c" "ec_warnedUnscoped d = ec_warnedUnscoped c"
  by (subst assms [unfolded same_but_counters_def], simp)+

lemma same_but_countersI:
  assumes "d = c \<lparr> ec_stepCounters := ct, ec_branches := br, ec_enclosingClaims := en \<rparr>"
  shows "same_but_counters c d"
  using assms by (simp add: same_but_counters_def)

lemma same_but_counters_refl [simp]: "same_but_counters c c"
  by (simp add: same_but_counters_def)

lemma same_but_counters_trans:
  assumes "same_but_counters a b" "same_but_counters b c"
  shows "same_but_counters a c"
  by (rule same_but_countersI, subst assms(2) [unfolded same_but_counters_def],
      subst assms(1) [unfolded same_but_counters_def], simp)

locale step_scope =
  fixes sc :: step_context
  assumes gen_frame: "same_but_counters c (snd (sc_generateStepID sc name c))"
    and mark_frame: "same_but_counters c (sc_markScopedUsed sc c)"
    and get_completed: "sc_getCompletedStep sc stepID c = ec_completedSteps c stepID"
    and record_step: "sc_recordStep sc s c = c \<lparr> ec_executedSteps := ec_executedSteps c @ [s] \<rparr>"
    and resuming: "sc_isResumingFrom sc stepID t c = isResumingFrom stepID t c"
    and resume_data: "sc_getResumeData sc c = getResumeData c"
    and mark_handled: "sc_markResumeHandled sc c = c \<lparr> ec_resumeHandled := True \<rparr>"
begin

lemmas scope_simps = get_completed record_step resuming resume_data mark_handled

lemmas gen_fields = same_but_countersD [OF gen_frame]
lemmas mark_fields = same_but_countersD [OF mark_frame]

end

lemma generateStepID_frame: "same_but_counters c (snd (generateStepID name c))"
  by (simp add: same_but_counters_def generateStepID_def Let_def)

lemma branch_generateStepID_frame: "same_but_counters c (snd (branch_generateStepID b name c))"
  by (simp add: same_but_counters_def branch_generateStepID_def Let_def)

lemma branch_markScopedUsed_frame: "same_but_counters c (branch_markScopedUsed b c)"
  by (simp add: same_but_counters_def branch_markScopedUsed_def)

interpretation root: step_scope rootContext
  by unfold_locales
     (simp_all add: rootContext_def generateStepID_frame getCompletedStep_def recordStep_def
       markResumeHandled_def)

interpretation branch: step_scope "branchContext b" for b
  by unfold_locales
     (simp_all add: branchContext_def branch_generateStepID_frame branch_markScopedUsed_frame
       getCompletedStep_def recordStep_def markResumeHandled_def)

end
