(* ===== verification/Claims.thy ===== *)
theory Claims
  imports Exec_Context
begin

text \<open>
  Claiming step ids in a scope. A scope is the root context of a run or one branch of a
  fan-out; what a claim looks at is the scope's prefix, the prefix an SDK without escaping
  would have used, and one counter per name. The locale \<open>claim_scope\<close> states what
  \<open>generateStepID\<close> promises of them, and is interpreted for both implementations.
\<close>

record claim_view =
  cv_prefix :: string
  cv_legacy :: string
  cv_count :: "string \<Rightarrow> nat"

definition claimID :: "claim_view \<Rightarrow> string \<Rightarrow> nat \<Rightarrow> string" where
  "claimID v name i = formatStepID (cv_prefix v) (escapeStepIDPart name) i"

definition legacyID :: "claim_view \<Rightarrow> string \<Rightarrow> nat \<Rightarrow> string" where
  "legacyID v name i = formatStepID (cv_legacy v) name i"

text \<open>No row of the run is filed under the unescaped form of an id of the scope.\<close>

definition noLegacyRows :: "claim_view \<Rightarrow> (string \<rightharpoonup> completed_step) \<Rightarrow> bool" where
  "noLegacyRows v C \<longleftrightarrow>
     (\<forall>n i. legacyID v n i = claimID v n i \<or> C (legacyID v n i) = None)"

definition bump :: "string \<Rightarrow> claim_view \<Rightarrow> claim_view" where
  "bump name v = v \<lparr> cv_count := (cv_count v)(name := cv_count v name + 1) \<rparr>"

lemma claimID_bump [simp]: "claimID (bump m v) n i = claimID v n i"
  by (simp add: claimID_def bump_def)

lemma legacyID_bump [simp]: "legacyID (bump m v) n i = legacyID v n i"
  by (simp add: legacyID_def bump_def)

lemma noLegacyRows_bump [simp]: "noLegacyRows (bump m v) C = noLegacyRows v C"
  by (simp add: noLegacyRows_def)

lemma count_bump [simp]:
  "cv_count (bump m v) n = (if n = m then cv_count v n + 1 else cv_count v n)"
  by (simp add: bump_def)

lemma claimID_path: "claimID v n i = stepPathID (cv_prefix v) [(n, i)]"
  by (simp add: claimID_def)

lemma claimID_inj [simp]: "claimID v m i = claimID v n j \<longleftrightarrow> m = n \<and> i = j"
  unfolding claimID_path stepPathID_inj by simp

lemma preferLegacyStepID_noLegacy:
  "noLegacyRows v (ec_completedSteps c) \<Longrightarrow>
     preferLegacyStepID c (claimID v n i) (legacyID v n i) = claimID v n i"
  unfolding preferLegacyStepID_def noLegacyRows_def by metis

text \<open>A sequence of claims in one scope.\<close>

primrec claimAll :: "step_context \<Rightarrow> string list \<Rightarrow> exec \<Rightarrow> string list \<times> exec" where
  "claimAll sc [] c = ([], c)"
| "claimAll sc (n # ns) c =
     (let (i, c1) = sc_generateStepID sc n c; (ids, c2) = claimAll sc ns c1 in (i # ids, c2))"

text \<open>The fields of the context a claim does not read.\<close>

definition same_scopes :: "exec \<Rightarrow> exec \<Rightarrow> bool" where
  "same_scopes c d \<longleftrightarrow> ec_runID d = ec_runID c \<and> ec_stepCounters d = ec_stepCounters c
     \<and> ec_branches d = ec_branches c"

locale claim_scope = step_scope sc for sc :: step_context +
  fixes live :: "exec \<Rightarrow> bool"
    and view :: "exec \<Rightarrow> claim_view"
  assumes view_same: "same_scopes c d \<Longrightarrow> view d = view c \<and> live d = live c"
    and gen_id: "live c \<Longrightarrow> fst (sc_generateStepID sc name c) =
      preferLegacyStepID c (claimID (view c) name (cv_count (view c) name))
        (legacyID (view c) name (cv_count (view c) name))"
    and gen_view: "live c \<Longrightarrow> view (snd (sc_generateStepID sc name c)) = bump name (view c)
      \<and> live (snd (sc_generateStepID sc name c))"
    and mark_view: "live c \<Longrightarrow> view (sc_markScopedUsed sc c) = view c
      \<and> live (sc_markScopedUsed sc c)"
begin

text \<open>Without legacy rows a claim is the path of the scope extended by name and index.\<close>

lemma claim:
  assumes "live c" and "noLegacyRows (view c) (ec_completedSteps c)"
    and "sc_generateStepID sc name c = (stepID, c')"
  shows "stepID = claimID (view c) name (cv_count (view c) name)"
    and "view c' = bump name (view c)" and "live c'"
  using gen_id [OF assms(1), of name] gen_view [OF assms(1), of name] assms
  by (simp_all add: preferLegacyStepID_noLegacy)

lemma view_unread:
  "view (c \<lparr> ec_executedSteps := x \<rparr>) = view c" "live (c \<lparr> ec_executedSteps := x \<rparr>) = live c"
  "view (c \<lparr> ec_resumeHandled := h \<rparr>) = view c" "live (c \<lparr> ec_resumeHandled := h \<rparr>) = live c"
  "view (c \<lparr> ec_compensations := l \<rparr>) = view c" "live (c \<lparr> ec_compensations := l \<rparr>) = live c"
  by (rule conjunct1 [OF view_same] conjunct2 [OF view_same], simp add: same_scopes_def)+

text \<open>Claims of one scope never share an id.\<close>

lemma claimAll_ids:
  assumes "live c" and "noLegacyRows (view c) (ec_completedSteps c)"
    and "claimAll sc ns c = (ids, c')"
  shows "distinct ids \<and> (\<forall>x \<in> set ids. \<exists>n i. x = claimID (view c) n i \<and> cv_count (view c) n \<le> i)"
  using assms
proof (induction ns arbitrary: c ids)
  case Nil
  then show ?case by simp
next
  case (Cons n ns)
  obtain x c1 where g: "sc_generateStepID sc n c = (x, c1)" by fastforce
  obtain ids1 where r: "claimAll sc ns c1 = (ids1, c')" and ids: "ids = x # ids1"
    using Cons.prems(3) g by (auto simp: Let_def split: prod.splits)
  note cl = claim [OF Cons.prems(1,2) g]
  have C: "ec_completedSteps c1 = ec_completedSteps c" using gen_fields(5) [of n c] g by simp
  have IH: "distinct ids1 \<and> (\<forall>y \<in> set ids1. \<exists>m i. y = claimID (view c) m i \<and>
      (if m = n then cv_count (view c) m + 1 else cv_count (view c) m) \<le> i)"
    using Cons.IH [OF cl(3) _ r] Cons.prems(2) by (simp add: cl(2) C)
  then have "x \<notin> set ids1" using cl(1) by (fastforce split: if_splits)
  moreover have "\<exists>m i. y = claimID (view c) m i \<and> cv_count (view c) m \<le> i" if "y \<in> set ids1" for y
    using IH that by (fastforce split: if_splits)
  ultimately show ?case using IH cl(1) ids by auto
qed

end

section \<open>The two scopes\<close>

definition rootView :: "exec \<Rightarrow> claim_view" where
  "rootView c = \<lparr> cv_prefix = ec_runID c, cv_legacy = ec_runID c, cv_count = ec_stepCounters c \<rparr>"

definition branchView :: "nat \<Rightarrow> exec \<Rightarrow> claim_view" where
  "branchView b c =
     \<lparr> cv_prefix = bc_scopePrefix (ec_branches c ! b),
       cv_legacy = bc_legacyScopePrefix (ec_branches c ! b),
       cv_count = bc_stepCounters (ec_branches c ! b) \<rparr>"

definition branchLive :: "nat \<Rightarrow> exec \<Rightarrow> bool" where
  "branchLive b c \<longleftrightarrow> b < length (ec_branches c)"

lemma context_selectors [simp]:
  "sc_markScopedUsed rootContext c = c"
  "sc_markScopedUsed (branchContext b) = branch_markScopedUsed b"
  "sc_generateStepID rootContext = generateStepID"
  "sc_generateStepID (branchContext b) = branch_generateStepID b"
  by (simp_all add: rootContext_def branchContext_def)

lemma preferLegacyStepID_counters [simp]:
  "preferLegacyStepID (c \<lparr> ec_branches := br \<rparr>) = preferLegacyStepID c"
  "preferLegacyStepID (c \<lparr> ec_stepCounters := ct \<rparr>) = preferLegacyStepID c"
  "preferLegacyStepID (c \<lparr> ec_enclosingClaims := en \<rparr>) = preferLegacyStepID c"
  by (intro ext, simp add: preferLegacyStepID_def)+

interpretation rootClaim: claim_scope rootContext "\<lambda>_. True" rootView
proof unfold_locales
  fix c :: exec and name
  show "fst (sc_generateStepID rootContext name c) =
      preferLegacyStepID c (claimID (rootView c) name (cv_count (rootView c) name))
        (legacyID (rootView c) name (cv_count (rootView c) name))"
    by (simp add: generateStepID_def Let_def claimID_def legacyID_def rootView_def)
  show "rootView (snd (sc_generateStepID rootContext name c)) = bump name (rootView c) \<and> True"
    by (simp add: generateStepID_def Let_def rootView_def bump_def)
qed (simp_all add: same_scopes_def rootView_def)

interpretation branchClaim: claim_scope "branchContext b" "branchLive b" "branchView b" for b
proof unfold_locales
  fix c :: exec and name
  assume l: "branchLive b c"
  show "fst (sc_generateStepID (branchContext b) name c) =
      preferLegacyStepID c (claimID (branchView b c) name (cv_count (branchView b c) name))
        (legacyID (branchView b c) name (cv_count (branchView b c) name))"
    by (simp only: context_selectors branch_generateStepID_def Let_def claimID_def legacyID_def
        branchView_def claim_view.simps fst_conv preferLegacyStepID_counters)
  show "branchView b (snd (sc_generateStepID (branchContext b) name c)) = bump name (branchView b c)
      \<and> branchLive b (snd (sc_generateStepID (branchContext b) name c))"
    using l by (simp add: branch_generateStepID_def Let_def branchView_def bump_def branchLive_def)
  show "branchView b (sc_markScopedUsed (branchContext b) c) = branchView b c
      \<and> branchLive b (sc_markScopedUsed (branchContext b) c)"
    using l by (simp add: branch_markScopedUsed_def branchView_def branchLive_def)
qed (simp_all add: same_scopes_def branchView_def branchLive_def)

section \<open>Paths of scopes\<close>

text \<open>
  The life of the scopes of a run, as a step relation with the path of every branch as a ghost
  list: claims, marks, forks of the root and of branches, and updates of fields no claim reads.
\<close>

inductive scopes :: "string \<Rightarrow> step_path list \<Rightarrow> exec \<Rightarrow> bool" for run where
  start: "ec_runID c = run \<Longrightarrow> ec_branches c = [] \<Longrightarrow> scopes run [] c"
| root_claim: "scopes run ps c \<Longrightarrow> scopes run ps (snd (generateStepID n c))"
| branch_claim: "scopes run ps c \<Longrightarrow> b < length ps \<Longrightarrow>
    scopes run ps (snd (branch_generateStepID b n c))"
| branch_mark: "scopes run ps c \<Longrightarrow> b < length ps \<Longrightarrow> scopes run ps (branch_markScopedUsed b c)"
| root_fork: "scopes run ps c \<Longrightarrow>
    scopes run (ps @ [[(n, i)]]) (snd (createBranchContext n i c))"
| branch_fork: "scopes run ps c \<Longrightarrow> b < length ps \<Longrightarrow>
    scopes run (ps @ [ps ! b @ [(n, i)]]) (snd (branch_createBranchContext b n i c))"
| unread: "scopes run ps c \<Longrightarrow> same_scopes c d \<Longrightarrow> scopes run ps d"

lemma stepPathID_snoc:
  "stepPathID run (p @ [(n, i)]) = formatStepID (stepPathID run p) (escapeStepIDPart n) i"
  by (induction run p rule: stepPathID.induct) auto

text \<open>Every branch's prefix is the id of its path, and no branch has the empty path.\<close>

lemma scopes_paths:
  "scopes run ps c \<Longrightarrow> ec_runID c = run \<and> length (ec_branches c) = length ps \<and>
     (\<forall>b < length ps. bc_scopePrefix (ec_branches c ! b) = stepPathID run (ps ! b) \<and> ps ! b \<noteq> [])"
proof (induction rule: scopes.induct)
  case (branch_fork ps c b n i)
  then show ?case
    by (auto simp: branch_createBranchContext_def newBranch_def Let_def nth_append stepPathID_snoc)
qed (auto simp: generateStepID_def branch_generateStepID_def branch_markScopedUsed_def
    createBranchContext_def newBranch_def same_scopes_def Let_def nth_append nth_list_update)

text \<open>A scope as a position: the root, or a branch of the store.\<close>

fun claimIn :: "nat option \<Rightarrow> string \<Rightarrow> exec \<Rightarrow> string \<times> exec" where
  "claimIn None n c = generateStepID n c"
| "claimIn (Some b) n c = branch_generateStepID b n c"

fun viewOf :: "nat option \<Rightarrow> exec \<Rightarrow> claim_view" where
  "viewOf None c = rootView c"
| "viewOf (Some b) c = branchView b c"

fun pathOf :: "step_path list \<Rightarrow> nat option \<Rightarrow> step_path" where
  "pathOf ps None = []"
| "pathOf ps (Some b) = ps ! b"

definition scopeLive :: "step_path list \<Rightarrow> nat option \<Rightarrow> bool" where
  "scopeLive ps s = (case s of None \<Rightarrow> True | Some b \<Rightarrow> b < length ps)"

lemma claimIn_path:
  assumes "scopes run ps c" "scopeLive ps s" "noLegacyRows (viewOf s c) (ec_completedSteps c)"
  shows "fst (claimIn s n c) = stepPathID run (pathOf ps s @ [(n, cv_count (viewOf s c) n)])"
proof (cases s)
  case None
  with assms rootClaim.claim(1) [of c n] scopes_paths [OF assms(1)] show ?thesis
    by (cases "generateStepID n c") (simp add: claimID_def rootView_def)
next
  case (Some b)
  with assms scopes_paths [OF assms(1)] have "branchLive b c"
    by (simp add: branchLive_def scopeLive_def)
  with assms Some branchClaim.claim(1) [of b c n] scopes_paths [OF assms(1)] show ?thesis
    by (cases "branch_generateStepID b n c")
       (simp add: claimID_def branchView_def stepPathID_snoc scopeLive_def)
qed

text \<open>Rows of names that need no escaping are never legacy rows.\<close>

lemma append_last_eq:
  assumes "xs @ a # ys = us @ a # vs" "a \<notin> set ys" "a \<notin> set vs"
  shows "xs = us \<and> ys = vs"
  using assms by (auto simp: append_eq_append_conv2 Cons_eq_append_conv append_eq_Cons_conv)

lemma escapeStepIDPart_plain:
  "CHR '':'' \<notin> set n \<Longrightarrow> CHR 0x5C \<notin> set n \<Longrightarrow> escapeStepIDPart n = n"
  by (cases n rule: escapeStepIDPart_cases) (auto simp: escaper_id)

lemma formatStepID_inj:
  assumes "formatStepID p m i = formatStepID p n j"
  shows "m = n \<and> i = j"
proof -
  have "m @ CHR '':'' # itoa i = n @ CHR '':'' # itoa j" using assms by (simp add: formatStepID_def)
  from append_last_eq [OF this itoa_plain(1) itoa_plain(1)] show ?thesis by (simp add: itoa_inj)
qed

lemma noLegacyRows_plain:
  assumes "cv_legacy v = cv_prefix v"
    and "\<And>x. x \<in> dom C \<Longrightarrow> \<exists>n i. x = formatStepID (cv_prefix v) n i \<and> escapeStepIDPart n = n"
  shows "noLegacyRows v C"
  unfolding noLegacyRows_def
proof (intro allI)
  fix n i
  show "legacyID v n i = claimID v n i \<or> C (legacyID v n i) = None"
  proof (cases "C (legacyID v n i)")
    case (Some r)
    then obtain m j where "legacyID v n i = formatStepID (cv_prefix v) m j"
        "escapeStepIDPart m = m" using assms(2) by blast
    with assms(1) show ?thesis
      by (auto simp: legacyID_def claimID_def dest: formatStepID_inj)
  qed simp
qed

section \<open>Properties\<close>


lemma demo_scopes:
  "scopes ''r'' [[(''a'', 0)]] (snd (createBranchContext ''a'' 0 (newExecutionContext ''r'' ''f'' 0 [] None)))"
  using scopes.root_fork [OF scopes.start [of "newExecutionContext ''r'' ''f'' 0 [] None" "''r''"], of "''a''" 0]
  by (simp add: newExecutionContext_def emptyExec_def)

lemma noLegacyRows_empty [simp]: "noLegacyRows v Map.empty"
  by (simp add: noLegacyRows_def)

lemma createBranchContext_completed [simp]:
  "ec_completedSteps (snd (createBranchContext n i c)) = ec_completedSteps c"
  by (simp add: createBranchContext_def newBranch_def)

lemma newExecutionContext_empty [simp]:
  "ec_completedSteps (newExecutionContext r f a [] res) = Map.empty"
  by (simp add: newExecutionContext_def emptyExec_def)


text \<open>Every claim sequence in the root scope of a run yields pairwise different ids, and the
  same holds in every branch: the counters never hand an index out twice.\<close>

theorem successive_claims_distinct:
  assumes "noLegacyRows (rootView c) (ec_completedSteps c)"
    and "b < length (ec_branches c)" "noLegacyRows (branchView b c) (ec_completedSteps c)"
  shows "distinct (fst (claimAll rootContext ns c)) \<and>
    distinct (fst (claimAll (branchContext b) ms c))"
  using rootClaim.claimAll_ids [of c ns] branchClaim.claimAll_ids [of b c ms] assms
  by (cases "claimAll rootContext ns c"; cases "claimAll (branchContext b) ms c")
     (simp add: branchLive_def)

theorem successive_claims_distinct_witness:
  "(let c = snd (createBranchContext ''a'' 0 (newExecutionContext ''r'' ''f'' 0 [] None)) in
     distinct (fst (claimAll rootContext [''x'', ''y'', ''x''] c)))"
  using successive_claims_distinct
    [of "snd (createBranchContext ''a'' 0 (newExecutionContext ''r'' ''f'' 0 [] None))" 0
      "[''x'', ''y'', ''x'']"]
  by (simp add: Let_def createBranchContext_def newBranch_def newExecutionContext_def emptyExec_def)

text \<open>Two fan-outs with the same name in one scope are not told apart: the branches with the
  same index have the same scope prefix and each starts its own counters, so their steps claim
  the same ids.\<close>

theorem same_name_fanouts_share_ids:
  "(let (b1, c1) = createBranchContext p i c; (b2, c2) = createBranchContext p i c1 in
     b1 \<noteq> b2 \<and> fst (branch_generateStepID b1 n c2) = fst (branch_generateStepID b2 n c2))"
  by (simp add: createBranchContext_def newBranch_def branch_generateStepID_def Let_def nth_append)

end
