(* ===== verification/Steps.thy ===== *)
theory Steps
  imports Exec_Context
begin

text \<open>
  The durable step primitives (\<^verbatim>\<open>src/ironflow/step.go\<close>, the branch-scoped forms of
  \<^verbatim>\<open>parallel.go\<close> and the test-mode helpers of \<^verbatim>\<open>test_support.go\<close>): Run, Sleep,
  SleepUntil, WaitForEvent, Invoke, InvokeAsync, Compensate and the compensation run. Each
  takes the execution context and the world and returns an outcome with both updated; the
  guards stand in the order of the source.
\<close>

section \<open>Shared pieces\<close>

text \<open>The type parameter \<open>T\<close> of a generic primitive: which \<open>any\<close> values already have that
  type, and how \<open>json.Unmarshal\<close> decodes into it.\<close>

record gotype =
  gt_is :: "gval \<Rightarrow> bool"
  gt_decode :: "json \<Rightarrow> string + gval"

definition anyType :: gotype where
  "anyType = \<lparr> gt_is = (\<lambda>v. v \<noteq> GNil), gt_decode = unmarshalAny \<rparr>"

definition isCompleted :: "completed_step option \<Rightarrow> bool" where
  "isCompleted s = (case s of None \<Rightarrow> False | Some cs \<Rightarrow> cs_Status cs = ''completed'')"

lemma isCompleted_simps [simp]:
  "\<not> isCompleted None" "isCompleted (Some cs) \<longleftrightarrow> cs_Status cs = ''completed''"
  by (simp_all add: isCompleted_def)

definition report :: "step_report \<Rightarrow> world \<Rightarrow> world" where
  "report r w = w \<lparr> w_reports := w_reports w @ [r] \<rparr>"

definition reportIf :: "bool \<Rightarrow> step_report \<Rightarrow> world \<Rightarrow> world" where
  "reportIf b r w = (if b then report r w else w)"

text \<open>The step-level timeout wins over the function-level one; each \<open>WithTimeout\<close> option
  overwrites the one before it.\<close>

definition resolveTimeout :: "int list \<Rightarrow> int \<Rightarrow> int" where
  "resolveTimeout opts stepTimeout =
     (let timeout = foldl (\<lambda>_ d. d) 0 opts
      in if timeout = 0 \<and> stepTimeout > 0 then stepTimeout else timeout)"

definition blank_result :: step_result where
  "blank_result = \<lparr> sr_ID = [], sr_Name = [], sr_Type = [], sr_Status = [], sr_StartedAt = 0,
     sr_EndedAt = None, sr_Duration = 0, sr_Output = GNil, sr_Error = None,
     sr_CompensationFor = [] \<rparr>"

definition failedStep :: "string \<Rightarrow> string \<Rightarrow> string \<Rightarrow> int \<Rightarrow> int \<Rightarrow> string \<Rightarrow> bool \<Rightarrow> step_result" where
  "failedStep stepID name typ startedAt endedAt message retryable =
     blank_result \<lparr> sr_ID := stepID, sr_Name := name, sr_Type := typ, sr_Status := ''failed'',
       sr_StartedAt := startedAt, sr_EndedAt := Some endedAt,
       sr_Duration := endedAt - startedAt,
       sr_Error := Some \<lparr> sei_Message = message, sei_Retryable = retryable \<rparr> \<rparr>"

definition completedStep :: "string \<Rightarrow> string \<Rightarrow> string \<Rightarrow> int \<Rightarrow> int \<Rightarrow> gval \<Rightarrow> step_result" where
  "completedStep stepID name typ startedAt endedAt output =
     blank_result \<lparr> sr_ID := stepID, sr_Name := name, sr_Type := typ, sr_Status := ''completed'',
       sr_StartedAt := startedAt, sr_EndedAt := Some endedAt,
       sr_Duration := endedAt - startedAt, sr_Output := output \<rparr>"

section \<open>Run\<close>

text \<open>The \<open>recordStep\<close> closure handed to \<open>runWithTimeout\<close>: record, then report a failure
  over the stream.\<close>

definition recordAndReport :: "step_context \<Rightarrow> step_result \<Rightarrow> exec \<Rightarrow> world \<Rightarrow> exec \<times> world" where
  "recordAndReport sc s c w =
     (let c' = sc_recordStep sc s c
      in (c', case sr_Error s of
                None \<Rightarrow> w
              | Some e \<Rightarrow> reportIf (ec_stepReporter c \<and> sr_Status s = ''failed'')
                  (StepFailed (sr_ID s) (sr_Name s) (sr_Type s) (sei_Message e)
                     (milliseconds (sr_Duration s))) w))"

definition runWithTimeout ::
  "(world \<Rightarrow> fn_run \<times> world) \<Rightarrow> int \<Rightarrow> string \<Rightarrow> string \<Rightarrow> int
   \<Rightarrow> (step_result \<Rightarrow> exec \<Rightarrow> world \<Rightarrow> exec \<times> world) \<Rightarrow> exec \<Rightarrow> world
   \<Rightarrow> (gval \<times> goerr option \<times> bool) \<times> exec \<times> world" where
  "runWithTimeout fn timeout stepID name startedAt record_step c w =
     (let (r, w1) = fn w
      in if timeout \<le> 0 \<or> \<not> fr_timerFirst r then ((fr_value r, fr_err r, False), c, w1)
         else let timeoutErr = newStepTimeoutError name timeout;
                  (c2, w2) = record_step
                    (failedStep stepID name ''invoke'' startedAt (w_now w1)
                       (errorText timeoutErr) (isRetryable timeoutErr)) c w1
              in ((GNil, Some timeoutErr, True), c2, w2))"

text \<open>The memoized branch: marshal the stored output and decode it into \<open>T\<close>.\<close>

definition memoizedOutput :: "gotype \<Rightarrow> string \<Rightarrow> string \<Rightarrow> gval \<Rightarrow> gval outcome" where
  "memoizedOutput T stepID name output =
     (case marshal output of
        Inl m \<Rightarrow> Ret GNil (Some (newStepError (''failed to marshal memoized output: '' @ m)
                  stepID name False (Some (ENew m))))
      | Inr j \<Rightarrow>
          (case gt_decode T j of
             Inl m \<Rightarrow> Ret GNil (Some (newStepError (''failed to unmarshal memoized output: '' @ m)
                       stepID name False (Some (ENew m))))
           | Inr v \<Rightarrow> Ret v None))"

text \<open>Executing the body of a step that is not memoized.\<close>

definition runBody ::
  "step_context \<Rightarrow> string \<Rightarrow> string \<Rightarrow> stepfn \<Rightarrow> int list \<Rightarrow> exec \<Rightarrow> world
   \<Rightarrow> gval outcome \<times> exec \<times> world" where
  "runBody sc stepID name fn opts c w =
     (let timeout = resolveTimeout opts (ec_stepTimeout c);
          startedAt = w_now w;
          w1 = reportIf (ec_stepReporter c) (StepStarted stepID name ''invoke'') w;
          (res, c2, w2) =
            runWithTimeout (fn stepID) timeout stepID name startedAt (recordAndReport sc) c w1;
          (result, err, timedOut) = res
      in if timedOut then (Ret GNil err, c2, w2)
         else
           let endedAt = w_now w2; durationMs = milliseconds (endedAt - startedAt) in
           (case err of
              Some e \<Rightarrow>
                (Ret GNil (Some (newStepError (errorText e) stepID name (isRetryable e) (Some e))),
                 sc_recordStep sc
                   (failedStep stepID name ''invoke'' startedAt endedAt (errorText e) (isRetryable e)) c2,
                 reportIf (ec_stepReporter c)
                   (StepFailed stepID name ''invoke'' (errorText e) durationMs) w2)
            | None \<Rightarrow>
                (Ret result None,
                 sc_recordStep sc (completedStep stepID name ''invoke'' startedAt endedAt result) c2,
                 reportIf (ec_stepReporter c)
                   (StepCompleted stepID name ''invoke'' result durationMs) w2)))"

definition runScoped ::
  "step_context \<Rightarrow> gotype \<Rightarrow> string \<Rightarrow> stepfn \<Rightarrow> int list \<Rightarrow> exec \<Rightarrow> world
   \<Rightarrow> gval outcome \<times> exec \<times> world" where
  "runScoped sc T name fn opts c w =
     (let (stepID, c1) = sc_generateStepID sc name c in
      case sc_getCompletedStep sc stepID c1 of
        Some cs \<Rightarrow>
          if cs_Status cs = ''completed''
          then (memoizedOutput T stepID name (cs_Output cs), c1, w)
          else runBody sc stepID name fn opts c1 w
      | None \<Rightarrow> runBody sc stepID name fn opts c1 w)"

text \<open>\<open>testRunStep\<close>: the interceptor answers for the body.\<close>

definition testOutput :: "gotype \<Rightarrow> string \<Rightarrow> gval \<Rightarrow> gval outcome" where
  "testOutput T what output =
     (if gt_is T output then Ret output None
      else case marshal output of
             Inl m \<Rightarrow> Ret GNil (Some (EWrap (''test mock for '' @ what @ '': marshal error: '' @ m) [ENew m]))
           | Inr j \<Rightarrow>
               (case gt_decode T j of
                  Inl m \<Rightarrow> Ret GNil (Some (EWrap (''test mock for '' @ what @ '' returned incompatible type: '' @ m) [ENew m]))
                | Inr v \<Rightarrow> Ret v None))"

definition testRunStep :: "interceptor \<Rightarrow> gotype \<Rightarrow> string \<Rightarrow> world \<Rightarrow> gval outcome \<times> world" where
  "testRunStep ti T name w =
     (let ((output, err), w1) = ti_RunStep ti name w in
      case err of
        Some e \<Rightarrow> (Ret GNil (Some e), ti_RecordStep ti name ''run'' GNil (Some e) w1)
      | None \<Rightarrow> (testOutput T (''step '' @ quoted name) output,
                 ti_RecordStep ti name ''run'' output None w1))"

definition runWithStepID ::
  "gotype \<Rightarrow> string \<Rightarrow> stepfn \<Rightarrow> int list \<Rightarrow> exec \<Rightarrow> world \<Rightarrow> gval outcome \<times> exec \<times> world" where
  "runWithStepID T name fn opts c w =
     (case cancellationErr c w of
        Some err \<Rightarrow> (Ret GNil (Some err), c, w)
      | None \<Rightarrow>
          (case ec_testInterceptor c of
             Some ti \<Rightarrow> (let (r, w1) = testRunStep ti T name w in (r, c, w1))
           | None \<Rightarrow> runScoped rootContext T name fn opts c w))"

definition runBranchWithStepID ::
  "nat \<Rightarrow> gotype \<Rightarrow> string \<Rightarrow> stepfn \<Rightarrow> int list \<Rightarrow> exec \<Rightarrow> world
   \<Rightarrow> gval outcome \<times> exec \<times> world" where
  "runBranchWithStepID b T name fn opts c0 w =
     (let c = branch_markScopedUsed b c0 in
      case cancellationErr c w of
        Some err \<Rightarrow> (Ret GNil (Some err), c, w)
      | None \<Rightarrow>
          (case ec_testInterceptor c of
             Some ti \<Rightarrow> (let (r, w1) = testRunStep ti T name w in (r, c, w1))
           | None \<Rightarrow> runScoped (branchContext b) T name fn opts c w))"

text \<open>\<open>Run\<close> and \<open>RunWithBranch\<close> hide the step id from the body.\<close>

definition Run ::
  "gotype \<Rightarrow> string \<Rightarrow> (world \<Rightarrow> fn_run \<times> world) \<Rightarrow> int list \<Rightarrow> exec \<Rightarrow> world
   \<Rightarrow> gval outcome \<times> exec \<times> world" where
  "Run T name fn opts = runWithStepID T name (\<lambda>_. fn) opts"

definition RunWithBranch ::
  "nat \<Rightarrow> gotype \<Rightarrow> string \<Rightarrow> (world \<Rightarrow> fn_run \<times> world) \<Rightarrow> int list \<Rightarrow> exec \<Rightarrow> world
   \<Rightarrow> gval outcome \<times> exec \<times> world" where
  "RunWithBranch b T name fn opts = runBranchWithStepID b T name (\<lambda>_. fn) opts"

section \<open>Sleep\<close>

definition testSleep :: "interceptor \<Rightarrow> string \<Rightarrow> world \<Rightarrow> world" where
  "testSleep ti name w = ti_RecordStep ti name ''sleep'' GNil None (ti_SleepStep ti name w)"

text \<open>From the step id on, the three sleep bodies are the same: resume, memo, yield.\<close>

definition sleepScoped ::
  "step_context \<Rightarrow> string \<Rightarrow> int \<Rightarrow> exec \<Rightarrow> world \<Rightarrow> unit outcome \<times> exec \<times> world" where
  "sleepScoped sc name until c w =
     (let (stepID, c1) = sc_generateStepID sc name c in
      if sc_isResumingFrom sc stepID ''sleep'' c1
      then (Ret () None, sc_markResumeHandled sc c1, w)
      else if isCompleted (sc_getCompletedStep sc stepID c1) then (Ret () None, c1, w)
      else (Yield (newSleepYield stepID until), c1, w))"

definition sleepGuarded ::
  "step_context \<Rightarrow> string \<Rightarrow> int \<Rightarrow> exec \<Rightarrow> world \<Rightarrow> unit outcome \<times> exec \<times> world" where
  "sleepGuarded sc name until c w =
     (case ec_testInterceptor c of
        Some ti \<Rightarrow> (Ret () None, c, testSleep ti name w)
      | None \<Rightarrow> sleepScoped sc name until c w)"

definition Sleep :: "string \<Rightarrow> int \<Rightarrow> exec \<Rightarrow> world \<Rightarrow> unit outcome \<times> exec \<times> world" where
  "Sleep name duration c w =
     (case cancellationErr c w of
        Some err \<Rightarrow> (Ret () (Some err), c, w)
      | None \<Rightarrow> sleepGuarded rootContext name (w_now w + duration) c w)"

definition SleepWithBranch :: "nat \<Rightarrow> string \<Rightarrow> int \<Rightarrow> exec \<Rightarrow> world \<Rightarrow> unit outcome \<times> exec \<times> world" where
  "SleepWithBranch b name duration c w =
     (case cancellationErr c w of
        Some err \<Rightarrow> (Ret () (Some err), c, w)
      | None \<Rightarrow>
          sleepGuarded (branchContext b) name (w_now w + duration) (branch_markScopedUsed b c) w)"

definition sleepUntilImpl ::
  "step_context \<Rightarrow> string \<Rightarrow> int \<Rightarrow> exec \<Rightarrow> world \<Rightarrow> unit outcome \<times> exec \<times> world" where
  "sleepUntilImpl sc name until c0 w =
     (let c = sc_markScopedUsed sc c0 in
      case cancellationErr c w of
        Some err \<Rightarrow> (Ret () (Some err), c, w)
      | None \<Rightarrow> sleepGuarded sc name until c w)"

definition SleepUntil :: "string \<Rightarrow> int \<Rightarrow> exec \<Rightarrow> world \<Rightarrow> unit outcome \<times> exec \<times> world" where
  "SleepUntil = sleepUntilImpl rootContext"

definition SleepUntilWithBranch :: "nat \<Rightarrow> string \<Rightarrow> int \<Rightarrow> exec \<Rightarrow> world \<Rightarrow> unit outcome \<times> exec \<times> world" where
  "SleepUntilWithBranch b = sleepUntilImpl (branchContext b)"

section \<open>What executing and replaying a step does\<close>

text \<open>
  A record of a step agrees with the outcome the caller saw: a completed row carries the
  returned value, a failed row the message and the retry classification of the returned
  error.
\<close>

definition record_matches :: "step_result \<Rightarrow> gval outcome \<Rightarrow> bool" where
  "record_matches s out \<longleftrightarrow>
     (sr_Status s = ''completed'' \<and> sr_Error s = None \<and> out = Ret (sr_Output s) None)
     \<or> (sr_Status s = ''failed'' \<and>
        (\<exists>e m r. out = Ret GNil (Some e) \<and> sr_Error s = Some \<lparr> sei_Message = m, sei_Retryable = r \<rparr>
           \<and> isRetryable e = r))"

lemma record_matches_cases:
  assumes "record_matches s out"
  obtains (completed) "sr_Status s = ''completed''" "out = Ret (sr_Output s) None"
  | (failed) e where "sr_Status s = ''failed''" "out = Ret GNil (Some e)"
  using assms by (auto simp: record_matches_def)

context step_scope
begin

lemma runBody_records:
  assumes "runBody sc stepID name fn opts c w = (out, c', w')"
  obtains s where "c' = c \<lparr> ec_executedSteps := ec_executedSteps c @ [s] \<rparr>"
    "sr_ID s = stepID" "sr_Name s = name" "sr_Type s = ''invoke''" "record_matches s out"
proof -
  obtain r w1 where r: "fn stepID (reportIf (ec_stepReporter c)
      (StepStarted stepID name ''invoke'') w) = (r, w1)" by fastforce
  consider (failed) e where "\<not> (0 < resolveTimeout opts (ec_stepTimeout c) \<and> fr_timerFirst r)"
      "fr_err r = Some e"
    | (returned) "\<not> (0 < resolveTimeout opts (ec_stepTimeout c) \<and> fr_timerFirst r)" "fr_err r = None"
    | (timeout) "0 < resolveTimeout opts (ec_stepTimeout c)" "fr_timerFirst r"
    by (cases "fr_err r") auto
  then show thesis
  proof cases
    case failed
    with assms r show thesis
      by (intro that [of "failedStep stepID name ''invoke'' (w_now w) (w_now w1) (errorText e) (isRetryable e)"])
         (auto simp: runBody_def runWithTimeout_def Let_def record_step record_matches_def
           failedStep_def blank_result_def isRetryable_newStepError)
  next
    case returned
    with assms r show thesis
      by (intro that [of "completedStep stepID name ''invoke'' (w_now w) (w_now w1) (fr_value r)"])
         (auto simp: runBody_def runWithTimeout_def Let_def record_step record_matches_def
           completedStep_def blank_result_def)
  next
    case timeout
    let ?e = "newStepTimeoutError name (resolveTimeout opts (ec_stepTimeout c))"
    from timeout assms r show thesis
      by (intro that [of "failedStep stepID name ''invoke'' (w_now w) (w_now w1) (errorText ?e) (isRetryable ?e)"])
         (auto simp: runBody_def runWithTimeout_def recordAndReport_def Let_def record_step
           record_matches_def failedStep_def blank_result_def)
  qed
qed

text \<open>A memoized step returns its decoded output and touches nothing but the counters.\<close>

lemma runScoped_memoized:
  assumes "sc_generateStepID sc name c = (stepID, c1)"
    and "ec_completedSteps c1 stepID = Some cs" and "cs_Status cs = ''completed''"
  shows "runScoped sc T name fn opts c w = (memoizedOutput T stepID name (cs_Output cs), c1, w)"
  using assms by (simp add: runScoped_def get_completed)

lemma runScoped_executes:
  assumes "sc_generateStepID sc name c = (stepID, c1)"
    and "\<not> isCompleted (ec_completedSteps c1 stepID)"
  shows "runScoped sc T name fn opts c w = runBody sc stepID name fn opts c1 w"
  using assms by (auto simp: runScoped_def get_completed isCompleted_def split: option.splits)

text \<open>Either way at most one row is recorded, and only for a step without a completed row.\<close>

lemma runScoped_rows:
  assumes "runScoped sc T name fn opts c w = (out, c', w')"
  shows "ec_completedSteps c' = ec_completedSteps c"
    and "ec_executedSteps c' = ec_executedSteps c \<and> w' = w \<or>
         (\<exists>s. ec_executedSteps c' = ec_executedSteps c @ [s] \<and>
              \<not> isCompleted (ec_completedSteps c (sr_ID s)) \<and> record_matches s out)"
proof -
  obtain stepID c1 where g: "sc_generateStepID sc name c = (stepID, c1)" by fastforce
  have f: "ec_completedSteps c1 = ec_completedSteps c" "ec_executedSteps c1 = ec_executedSteps c"
    using gen_fields [of name c] g by simp_all
  show "ec_completedSteps c' = ec_completedSteps c"
    and "ec_executedSteps c' = ec_executedSteps c \<and> w' = w \<or>
         (\<exists>s. ec_executedSteps c' = ec_executedSteps c @ [s] \<and>
              \<not> isCompleted (ec_completedSteps c (sr_ID s)) \<and> record_matches s out)"
  proof (atomize (full), cases "isCompleted (ec_completedSteps c1 stepID)")
    case True
    then obtain cs where "ec_completedSteps c1 stepID = Some cs" "cs_Status cs = ''completed''"
      by (auto simp: isCompleted_def split: option.splits)
    with assms f runScoped_memoized [OF g] show
      "ec_completedSteps c' = ec_completedSteps c \<and>
       (ec_executedSteps c' = ec_executedSteps c \<and> w' = w \<or>
         (\<exists>s. ec_executedSteps c' = ec_executedSteps c @ [s] \<and>
              \<not> isCompleted (ec_completedSteps c (sr_ID s)) \<and> record_matches s out))" by simp
  next
    case False
    with assms have "runBody sc stepID name fn opts c1 w = (out, c', w')"
      by (simp add: runScoped_executes [OF g])
    then obtain s where "c' = c1 \<lparr> ec_executedSteps := ec_executedSteps c1 @ [s] \<rparr>"
        "sr_ID s = stepID" "record_matches s out" by (rule runBody_records)
    with f False show
      "ec_completedSteps c' = ec_completedSteps c \<and>
       (ec_executedSteps c' = ec_executedSteps c \<and> w' = w \<or>
         (\<exists>s. ec_executedSteps c' = ec_executedSteps c @ [s] \<and>
              \<not> isCompleted (ec_completedSteps c (sr_ID s)) \<and> record_matches s out))" by auto
  qed
qed

end

text \<open>A stored output that was encoded from a value of type \<open>T\<close> decodes to that value.\<close>

definition roundtrips :: "gotype \<Rightarrow> gval \<Rightarrow> bool" where
  "roundtrips T v \<longleftrightarrow> (\<exists>j. marshal v = Inr j \<and> gt_decode T j = Inr v)"

lemma memoizedOutput_roundtrip:
  "roundtrips T v \<Longrightarrow> memoizedOutput T stepID name v = Ret v None"
  by (auto simp: roundtrips_def memoizedOutput_def)

end
