(* ===== verification/Wait_Invoke.thy ===== *)
theory Wait_Invoke
  imports Steps
begin

text \<open>
  Waiting for events and invoking other functions (\<^verbatim>\<open>src/ironflow/step.go\<close>): the
  primitives whose answer comes from the engine as a completed row or as resume data.
  \<open>parseTime\<close> is the decoding of a JSON timestamp text and \<open>jt\<close> the JSON text codec;
  both are arguments.
\<close>

section \<open>WaitForEvent\<close>

definition emptyEvent :: event where
  "emptyEvent = \<lparr> ev_ID = [], ev_Name = [], ev_Version = 0, ev_RawData = RawNone,
     ev_Timestamp = None, ev_IdempotencyKey = [], ev_Source = [], ev_Metadata = None,
     ev_EmittedBy = [] \<rparr>"

fun assignTime :: "(string \<Rightarrow> int option) \<Rightarrow> json list \<Rightarrow> int option \<Rightarrow> bool \<times> int option" where
  "assignTime parseTime [] v = (True, v)"
| "assignTime parseTime (j # js) v =
     (case j of
        JNull \<Rightarrow> assignTime parseTime js v
      | JStr s \<Rightarrow> (case parseTime s of
                    Some t \<Rightarrow> assignTime parseTime js (Some t)
                  | None \<Rightarrow> (False, snd (assignTime parseTime js v)))
      | _ \<Rightarrow> (False, snd (assignTime parseTime js v)))"

text \<open>\<open>json.Unmarshal(raw, &event)\<close> into \<open>Event\<close>, which has no JSON tags.\<close>

definition unmarshalEvent :: "(string \<Rightarrow> int option) \<Rightarrow> json \<Rightarrow> event option" where
  "unmarshalEvent parseTime j =
     (case j of
        JNull \<Rightarrow> Some emptyEvent
      | JObj kvs \<Rightarrow>
          (let (ok1, i) = assignString (fieldValues kvs ''ID'') [];
               (ok2, n) = assignString (fieldValues kvs ''Name'') [];
               (ok3, v) = assignInt (fieldValues kvs ''Version'') 0;
               (ok4, t) = assignTime parseTime (fieldValues kvs ''Timestamp'') None;
               (ok5, k) = assignString (fieldValues kvs ''IdempotencyKey'') [];
               (ok6, s) = assignString (fieldValues kvs ''Source'') [];
               (ok7, m) = assignMap (fieldValues kvs ''Metadata'') None;
               (ok8, e) = assignString (fieldValues kvs ''EmittedBy'') []
           in if ok1 \<and> ok2 \<and> ok3 \<and> ok4 \<and> ok5 \<and> ok6 \<and> ok7 \<and> ok8
              then Some \<lparr> ev_ID = i, ev_Name = n, ev_Version = v,
                     ev_RawData = assignRaw (fieldValues kvs ''RawData''), ev_Timestamp = t,
                     ev_IdempotencyKey = k, ev_Source = s, ev_Metadata = m, ev_EmittedBy = e \<rparr>
              else None)
      | _ \<Rightarrow> None)"

text \<open>The inner \<open>envelope\<close> struct: the raw value of the \<open>data\<close> member.\<close>

definition envelopeData :: "json \<Rightarrow> raw" where
  "envelopeData j = (case j of JObj kvs \<Rightarrow> assignRaw (fieldValues kvs ''data'') | _ \<Rightarrow> RawNone)"

definition decodeWaitEvent :: "(string \<Rightarrow> int option) \<Rightarrow> json \<Rightarrow> goerr + event" where
  "decodeWaitEvent parseTime j =
     (case unmarshalEvent parseTime j of
        None \<Rightarrow> Inl (ENew ''json: cannot unmarshal event'')
      | Some ev0 \<Rightarrow>
          (let emittedBy = ev_EmittedBy ev0;
               ev = ev0 \<lparr> ev_EmittedBy := [] \<rparr>
           in if ev_RawData ev \<noteq> RawNone then Inr ev
              else if ev_ID ev \<noteq> [] \<and> ev_Name ev \<noteq> [] \<and> ev_Timestamp ev \<noteq> None
                      \<and> envelopeData j \<noteq> RawNone
              then Inr (ev \<lparr> ev_RawData := envelopeData j, ev_EmittedBy := emittedBy \<rparr>)
              else Inr (ev \<lparr> ev_RawData := Raw j \<rparr>)))"

definition waitNullError :: "string \<Rightarrow> string \<Rightarrow> goerr" where
  "waitNullError stepID name =
     newStepError ''wait result is null; use WaitForEventOptional for nullable waits''
       stepID name False None"

text \<open>The \<open>decode\<close> closure of \<open>waitForEventImpl\<close>.\<close>

definition decodeWaitResult ::
  "(string \<Rightarrow> int option) \<Rightarrow> string \<Rightarrow> string \<Rightarrow> bool \<Rightarrow> gval \<Rightarrow> event option outcome" where
  "decodeWaitResult parseTime stepID name optional data =
     (if data = GNil \<and> optional then Ret None None
      else if data = GNil then Ret None (Some (waitNullError stepID name))
      else case marshal data of
             Inl m \<Rightarrow> Ret None (Some (newStepError (''failed to marshal wait event: '' @ m)
                       stepID name False (Some (ENew m))))
           | Inr j \<Rightarrow>
               if j = JNull
               then (if optional then Ret None None
                     else Ret None (Some (waitNullError stepID name)))
               else (case decodeWaitEvent parseTime j of
                       Inl e \<Rightarrow> Ret None (Some (newStepError
                                 (''failed to unmarshal wait event: '' @ errorText e)
                                 stepID name False (Some e)))
                     | Inr ev \<Rightarrow> Ret (Some ev) None))"

definition week :: int where "week = 7 * 24 * hour"

text \<open>No completed row: answer from the resume data, else yield.\<close>

definition waitResume ::
  "(string \<Rightarrow> int option) \<Rightarrow> step_context \<Rightarrow> string \<Rightarrow> string \<Rightarrow> event_filter \<Rightarrow> bool
   \<Rightarrow> exec \<Rightarrow> event option outcome \<times> exec" where
  "waitResume parseTime sc stepID name flt optional c =
     (let resuming = sc_isResumingFrom sc stepID ''wait_for_event'' c;
          c1 = (if resuming then sc_markResumeHandled sc c else c);
          flt1 = (if ef_Timeout flt = 0 then flt \<lparr> ef_Timeout := week \<rparr> else flt);
          flt2 = (if optional then flt1 \<lparr> ef_onTimeout := ''return-null'' \<rparr> else flt1)
      in if resuming \<and> sc_getResumeData sc c1 \<noteq> GNil
         then (decodeWaitResult parseTime stepID name optional (sc_getResumeData sc c1), c1)
         else (Yield (newWaitEventYield stepID flt2), c1))"

definition waitScoped ::
  "(string \<Rightarrow> int option) \<Rightarrow> step_context \<Rightarrow> string \<Rightarrow> event_filter \<Rightarrow> bool \<Rightarrow> exec
   \<Rightarrow> event option outcome \<times> exec" where
  "waitScoped parseTime sc name flt optional c =
     (let (stepID, c1) = sc_generateStepID sc name c in
      case sc_getCompletedStep sc stepID c1 of
        Some cs \<Rightarrow>
          if cs_Status cs = ''completed''
          then (decodeWaitResult parseTime stepID name optional (cs_Output cs),
                if sc_isResumingFrom sc stepID ''wait_for_event'' c1
                then sc_markResumeHandled sc c1 else c1)
          else waitResume parseTime sc stepID name flt optional c1
      | None \<Rightarrow> waitResume parseTime sc stepID name flt optional c1)"

definition waitForEventImpl ::
  "(string \<Rightarrow> int option) \<Rightarrow> step_context \<Rightarrow> string \<Rightarrow> event_filter \<Rightarrow> bool \<Rightarrow> exec \<Rightarrow> world
   \<Rightarrow> event option outcome \<times> exec \<times> world" where
  "waitForEventImpl parseTime sc name flt optional c0 w =
     (let c = sc_markScopedUsed sc c0 in
      case cancellationErr c w of
        Some err \<Rightarrow> (Ret None (Some err), c, w)
      | None \<Rightarrow>
          (case ec_testInterceptor c of
             Some ti \<Rightarrow>
               (let ((ev, err), w1) = ti_WaitForEventStep ti name flt optional w;
                    w2 = ti_RecordWait ti name ev err w1
                in case err of
                     Some e \<Rightarrow> (Ret None (Some e), c, w2)
                   | None \<Rightarrow> (Ret ev None, c, w2))
           | None \<Rightarrow>
               (let (r, c1) = waitScoped parseTime sc name flt optional c in (r, c1, w))))"

text \<open>\<open>WaitForEvent\<close>: a nil event becomes the empty one.\<close>

definition WaitForEvent ::
  "(string \<Rightarrow> int option) \<Rightarrow> step_context \<Rightarrow> string \<Rightarrow> event_filter \<Rightarrow> exec \<Rightarrow> world
   \<Rightarrow> event outcome \<times> exec \<times> world" where
  "WaitForEvent parseTime sc name flt c w =
     (let (r, c1, w1) = waitForEventImpl parseTime sc name flt False c w
      in (case r of
            Yield y \<Rightarrow> Yield y
          | Ret None err \<Rightarrow> Ret emptyEvent err
          | Ret (Some ev) err \<Rightarrow> Ret ev err, c1, w1))"

definition WaitForEventOptional ::
  "(string \<Rightarrow> int option) \<Rightarrow> step_context \<Rightarrow> string \<Rightarrow> event_filter \<Rightarrow> exec \<Rightarrow> world
   \<Rightarrow> event option outcome \<times> exec \<times> world" where
  "WaitForEventOptional parseTime sc name flt c w =
     waitForEventImpl parseTime sc name flt True c w"

section \<open>Invoke\<close>

text \<open>
  \<open>parseInvokeError\<close>: the stored error is the object itself (pull) or its JSON text
  (push). Text that is not an object leaves the whole document as the cause; an error
  that cannot be marshalled has no document.
\<close>

definition invokeErrorDoc :: "json_text \<Rightarrow> gval \<Rightarrow> json option" where
  "invokeErrorDoc jt errRaw =
     (case errRaw of
        GJson (JStr s) \<Rightarrow> (case jt_parse jt s of Some j \<Rightarrow> Some j | None \<Rightarrow> Some (JStr s))
      | _ \<Rightarrow> (case marshal errRaw of Inl _ \<Rightarrow> None | Inr j \<Rightarrow> Some j))"

definition parseInvokeError :: "json_text \<Rightarrow> string \<Rightarrow> gval \<Rightarrow> goerr" where
  "parseInvokeError jt functionID errRaw =
     (let kvs = (case invokeErrorDoc jt errRaw of
                   Some (JObj kvs) \<Rightarrow> Some kvs | Some JNull \<Rightarrow> Some [] | _ \<Rightarrow> None)
      in case kvs of
           Some kvs \<Rightarrow>
             (let (ok1, message) = assignString (fieldValues kvs ''message'') [];
                  (ok2, fnID) = assignString (fieldValues kvs ''function_id'') [];
                  (ok3, child) = assignString (fieldValues kvs ''child_run_id'') [];
                  (ok4, cause) = assignString (fieldValues kvs ''cause'') []
              in if ok1 \<and> ok2 \<and> ok3 \<and> ok4
                 then EInvoke (if fnID = [] then functionID else fnID) child
                        (if cause = [] then message else cause)
                 else EInvoke functionID [] (jt_render jt (JObj kvs)))
         | None \<Rightarrow>
             EInvoke functionID []
               (case invokeErrorDoc jt errRaw of None \<Rightarrow> [] | Some j \<Rightarrow> jt_render jt j))"

definition memoizedInvoke :: "gotype \<Rightarrow> string \<Rightarrow> gval \<Rightarrow> gval outcome" where
  "memoizedInvoke T functionID output =
     (case marshal output of
        Inl m \<Rightarrow> Ret GNil (Some (EInvoke functionID [] (''failed to marshal memoized output: '' @ m)))
      | Inr j \<Rightarrow>
          (case gt_decode T j of
             Inl m \<Rightarrow> Ret GNil (Some (EInvoke functionID [] (''failed to unmarshal memoized output: '' @ m)))
           | Inr v \<Rightarrow> Ret v None))"

text \<open>The timeout of an invoke: 30 s unless the first option gives a positive one.\<close>

definition invokeTimeoutMs :: "int list \<Rightarrow> int" where
  "invokeTimeoutMs opts =
     (case opts of
        [] \<Rightarrow> 30000
      | t # _ \<Rightarrow> if t > 0 then milliseconds t else 30000)"

definition invokeYield :: "string \<Rightarrow> string \<Rightarrow> gval \<Rightarrow> int list \<Rightarrow> yield_info" where
  "invokeYield stepID functionID input opts =
     newInvokeYield (blank_yield \<lparr> yi_StepID := stepID, yi_Type := ''invoke_function'',
       yi_FunctionID := functionID, yi_Input := input,
       yi_InvokeTimeoutMs := invokeTimeoutMs opts \<rparr>)"

definition invokeScoped ::
  "json_text \<Rightarrow> step_context \<Rightarrow> gotype \<Rightarrow> string \<Rightarrow> gval \<Rightarrow> int list \<Rightarrow> exec
   \<Rightarrow> gval outcome \<times> exec" where
  "invokeScoped jt sc T functionID input opts c =
     (let (stepID, c1) = sc_generateStepID sc functionID c in
      (case sc_getCompletedStep sc stepID c1 of
         Some cs \<Rightarrow>
           if cs_Status cs = ''completed'' then memoizedInvoke T functionID (cs_Output cs)
           else if cs_Status cs = ''failed''
           then Ret GNil (Some (parseInvokeError jt functionID (cs_Error cs)))
           else if cs_Status cs = ''timed_out''
           then Ret GNil (Some (EInvoke functionID [] ''invoke timed out''))
           else Yield (invokeYield stepID functionID input opts)
       | None \<Rightarrow> Yield (invokeYield stepID functionID input opts), c1))"

definition testInvokeStep :: "interceptor \<Rightarrow> gotype \<Rightarrow> string \<Rightarrow> gval \<Rightarrow> world \<Rightarrow> gval outcome \<times> world" where
  "testInvokeStep ti T functionID input w =
     (let ((output, err), w1) = ti_InvokeStep ti functionID input w in
      case err of
        Some e \<Rightarrow> (Ret GNil (Some e), ti_RecordStep ti functionID ''invoke'' GNil (Some e) w1)
      | None \<Rightarrow> (testOutput T (''invoke '' @ quoted functionID) output,
                 ti_RecordStep ti functionID ''invoke'' output None w1))"

definition invokeImpl ::
  "json_text \<Rightarrow> step_context \<Rightarrow> gotype \<Rightarrow> string \<Rightarrow> gval \<Rightarrow> int list \<Rightarrow> exec \<Rightarrow> world
   \<Rightarrow> gval outcome \<times> exec \<times> world" where
  "invokeImpl jt sc T functionID input opts c0 w =
     (let c = sc_markScopedUsed sc c0 in
      case cancellationErr c w of
        Some err \<Rightarrow> (Ret GNil (Some err), c, w)
      | None \<Rightarrow>
          (case ec_testInterceptor c of
             Some ti \<Rightarrow> (let (r, w1) = testInvokeStep ti T functionID input w in (r, c, w1))
           | None \<Rightarrow>
               (let (r, c1) = invokeScoped jt sc T functionID input opts c in (r, c1, w))))"

section \<open>InvokeAsync\<close>

text \<open>The result is the child run id; \<open>InvokeAsyncResult\<close> has the JSON name \<open>run_id\<close>.\<close>

definition memoizedInvokeAsync :: "gval \<Rightarrow> string outcome" where
  "memoizedInvokeAsync output =
     (case marshal output of
        Inl m \<Rightarrow> Ret [] (Some (EWrap (''failed to marshal memoized output: '' @ m) [ENew m]))
      | Inr j \<Rightarrow>
          (let failed = Ret [] (Some (EWrap ''failed to unmarshal memoized output''
                          [ENew ''json: cannot unmarshal'']))
           in case j of
                JNull \<Rightarrow> Ret [] None
              | JObj kvs \<Rightarrow>
                  (let (ok, r) = assignString (fieldValues kvs ''run_id'') []
                   in if ok then Ret r None else failed)
              | _ \<Rightarrow> failed))"

definition invokeAsyncYield :: "string \<Rightarrow> string \<Rightarrow> gval \<Rightarrow> yield_info" where
  "invokeAsyncYield stepID functionID input =
     newInvokeYield (blank_yield \<lparr> yi_StepID := stepID, yi_Type := ''invoke_function_async'',
       yi_FunctionID := functionID, yi_Input := input \<rparr>)"

definition invokeAsyncScoped ::
  "json_text \<Rightarrow> step_context \<Rightarrow> string \<Rightarrow> gval \<Rightarrow> exec \<Rightarrow> string outcome \<times> exec" where
  "invokeAsyncScoped jt sc functionID input c =
     (let (stepID, c1) = sc_generateStepID sc functionID c in
      (case sc_getCompletedStep sc stepID c1 of
         Some cs \<Rightarrow>
           if cs_Status cs = ''completed'' then memoizedInvokeAsync (cs_Output cs)
           else if cs_Status cs = ''failed''
           then Ret [] (Some (parseInvokeError jt functionID (cs_Error cs)))
           else Yield (invokeAsyncYield stepID functionID input)
       | None \<Rightarrow> Yield (invokeAsyncYield stepID functionID input), c1))"

definition invokeAsyncImpl ::
  "json_text \<Rightarrow> step_context \<Rightarrow> string \<Rightarrow> gval \<Rightarrow> exec \<Rightarrow> world
   \<Rightarrow> string outcome \<times> exec \<times> world" where
  "invokeAsyncImpl jt sc functionID input c0 w =
     (let c = sc_markScopedUsed sc c0 in
      case cancellationErr c w of
        Some err \<Rightarrow> (Ret [] (Some err), c, w)
      | None \<Rightarrow>
          (case ec_testInterceptor c of
             Some ti \<Rightarrow>
               (let ((result, err), w1) = ti_InvokeAsyncStep ti functionID input w;
                    w2 = ti_RecordStep ti functionID ''invoke''
                           (GJson (JObj [(''run_id'', JStr result)])) err w1
                in case err of
                     Some e \<Rightarrow> (Ret [] (Some e), c, w2)
                   | None \<Rightarrow> (Ret result None, c, w2))
           | None \<Rightarrow>
               (let (r, c1) = invokeAsyncScoped jt sc functionID input c in (r, c1, w))))"

section \<open>The exported forms\<close>

definition WaitForEventWithBranch ::
  "(string \<Rightarrow> int option) \<Rightarrow> nat \<Rightarrow> string \<Rightarrow> event_filter \<Rightarrow> exec \<Rightarrow> world \<Rightarrow> event outcome \<times> exec \<times> world" where
  "WaitForEventWithBranch parseTime b = WaitForEvent parseTime (branchContext b)"

definition WaitForEventOptionalWithBranch ::
  "(string \<Rightarrow> int option) \<Rightarrow> nat \<Rightarrow> string \<Rightarrow> event_filter \<Rightarrow> exec \<Rightarrow> world
   \<Rightarrow> event option outcome \<times> exec \<times> world" where
  "WaitForEventOptionalWithBranch parseTime b = WaitForEventOptional parseTime (branchContext b)"

definition Invoke ::
  "json_text \<Rightarrow> gotype \<Rightarrow> string \<Rightarrow> gval \<Rightarrow> int list \<Rightarrow> exec \<Rightarrow> world \<Rightarrow> gval outcome \<times> exec \<times> world" where
  "Invoke jt = invokeImpl jt rootContext"

definition InvokeWithBranch ::
  "json_text \<Rightarrow> nat \<Rightarrow> gotype \<Rightarrow> string \<Rightarrow> gval \<Rightarrow> int list \<Rightarrow> exec \<Rightarrow> world \<Rightarrow> gval outcome \<times> exec \<times> world" where
  "InvokeWithBranch jt b = invokeImpl jt (branchContext b)"

definition InvokeAsync :: "json_text \<Rightarrow> string \<Rightarrow> gval \<Rightarrow> exec \<Rightarrow> world \<Rightarrow> string outcome \<times> exec \<times> world" where
  "InvokeAsync jt = invokeAsyncImpl jt rootContext"

definition InvokeAsyncWithBranch ::
  "json_text \<Rightarrow> nat \<Rightarrow> string \<Rightarrow> gval \<Rightarrow> exec \<Rightarrow> world \<Rightarrow> string outcome \<times> exec \<times> world" where
  "InvokeAsyncWithBranch jt b = invokeAsyncImpl jt (branchContext b)"

end
