(* ===== verification/Compensation.thy ===== *)
theory Compensation
  imports Steps Claims
begin

text \<open>
  Saga compensation (\<^verbatim>\<open>src/ironflow/step.go\<close>, \<^verbatim>\<open>parallel.go\<close>): registration
  order, and the run in reverse order as memoized steps.
\<close>

section \<open>Registration\<close>

definition Compensate :: "string \<Rightarrow> compfn \<Rightarrow> exec \<Rightarrow> world \<Rightarrow> exec \<times> world" where
  "Compensate stepName fn c w =
     (case ec_testInterceptor c of
        Some ti \<Rightarrow> (c, ti_CompensateStep ti stepName fn w)
      | None \<Rightarrow> (registerCompensation stepName fn c, w))"

definition CompensateInBranch :: "nat \<Rightarrow> string \<Rightarrow> compfn \<Rightarrow> exec \<Rightarrow> world \<Rightarrow> exec \<times> world" where
  "CompensateInBranch b stepName fn c0 w =
     (let c = branch_markScopedUsed b c0 in
      case ec_testInterceptor c of
        Some ti \<Rightarrow> (c, ti_CompensateStep ti stepName fn w)
      | None \<Rightarrow> (registerCompensation stepName fn c, w))"

section \<open>Execution\<close>

definition compensationName :: "string \<Rightarrow> string" where
  "compensationName stepName = ''compensate:'' @ stepName"

text \<open>One iteration of the loop body, after the cancellation check.\<close>

definition compensateOne :: "string \<Rightarrow> compfn \<Rightarrow> exec \<Rightarrow> world \<Rightarrow> exec \<times> world" where
  "compensateOne stepName fn c w =
     (let compName = compensationName stepName;
          (stepID, c1) = generateStepID compName c
      in if isCompleted (ec_completedSteps c1 stepID) then (c1, w)
         else
           let startedAt = w_now w;
               (err, w1) = fn w;
               endedAt = w_now w1
           in case err of
                Some e \<Rightarrow>
                  (recordStep ((failedStep stepID compName ''compensate'' startedAt endedAt
                      (errorText e) False) \<lparr> sr_CompensationFor := stepName \<rparr>) c1, w1)
              | None \<Rightarrow>
                  (recordStep ((completedStep stepID compName ''compensate'' startedAt endedAt GNil)
                      \<lparr> sr_CompensationFor := stepName \<rparr>) c1, w1))"

fun compensationLoop :: "(string \<times> compfn) list \<Rightarrow> exec \<Rightarrow> world \<Rightarrow> exec \<times> world" where
  "compensationLoop [] c w = (c, w)"
| "compensationLoop ((stepName, fn) # rest) c w =
     (if cancellationErr c w \<noteq> None then (c, w)
      else let (c1, w1) = compensateOne stepName fn c w in compensationLoop rest c1 w1)"

text \<open>The registered list is copied, then walked from its end (\<open>slices.Backward\<close>).\<close>

definition executeCompensations :: "exec \<Rightarrow> world \<Rightarrow> exec \<times> world" where
  "executeCompensations c w = compensationLoop (rev (ec_compensations c)) c w"

section \<open>Specification\<close>

text \<open>The ids a compensation run claims, one per entry in the order it visits them.\<close>

fun compClaims :: "claim_view \<Rightarrow> (string \<times> compfn) list \<Rightarrow> (string \<times> string \<times> compfn) list" where
  "compClaims v [] = []"
| "compClaims v ((n, fn) # rest) =
     (claimID v (compensationName n) (cv_count v (compensationName n)), n, fn)
     # compClaims (bump (compensationName n) v) rest"

text \<open>Running compensations one after the other, failures included: who ran and how it ended.\<close>

fun runComps :: "(string \<times> string \<times> compfn) list \<Rightarrow> world \<Rightarrow> (string \<times> string \<times> bool) list \<times> world" where
  "runComps [] w = ([], w)"
| "runComps ((i, n, fn) # rest) w =
     (let (err, w1) = fn w; (trace, w2) = runComps rest w1 in ((i, n, err = None) # trace, w2))"

text \<open>What a recorded row says of a compensation.\<close>

definition compOutcome :: "step_result \<Rightarrow> string \<times> string \<times> bool" where
  "compOutcome s = (sr_ID s, sr_CompensationFor s, sr_Status s = ''completed'')"

definition owed :: "(string \<rightharpoonup> completed_step) \<Rightarrow> claim_view \<Rightarrow> (string \<times> compfn) list
  \<Rightarrow> (string \<times> string \<times> compfn) list" where
  "owed C v comps = filter (\<lambda>(i, _). \<not> isCompleted (C i)) (compClaims v comps)"

lemma compensateOne_eq:
  assumes "noLegacyRows (rootView c) (ec_completedSteps c)"
    and "i = claimID (rootView c) (compensationName n) (cv_count (rootView c) (compensationName n))"
  shows "\<exists>c1 w1 rows. compensateOne n fn c w = (c1, w1) \<and> rootView c1 = bump (compensationName n) (rootView c)
    \<and> ec_completedSteps c1 = ec_completedSteps c \<and> ec_hasCtx c1 = ec_hasCtx c
    \<and> ec_executedSteps c1 = ec_executedSteps c @ rows
    \<and> (if isCompleted (ec_completedSteps c i) then rows = [] \<and> w1 = w
       else map compOutcome rows = [(i, n, fst (fn w) = None)] \<and> w1 = snd (fn w))"
proof -
  obtain x c1 where g: "generateStepID (compensationName n) c = (x, c1)" by fastforce
  note cl = rootClaim.claim [OF _ assms(1), of "compensationName n" x c1]
  have x: "x = i" "rootView c1 = bump (compensationName n) (rootView c)"
    using cl(1,2) g assms(2) by simp_all
  have f: "ec_completedSteps c1 = ec_completedSteps c" "ec_hasCtx c1 = ec_hasCtx c"
    "ec_executedSteps c1 = ec_executedSteps c"
    using root.gen_fields [of "compensationName n" c] g by simp_all
  show ?thesis
  proof (cases "isCompleted (ec_completedSteps c i)")
    case True
    with g x f show ?thesis by (simp add: compensateOne_def Let_def)
  next
    case False
    with g x f show ?thesis
      by (cases "fn w"; cases "fst (fn w)")
         (simp_all add: compensateOne_def Let_def recordStep_def rootView_def compOutcome_def
           failedStep_def completedStep_def blank_result_def)
  qed
qed

lemma compensationLoop_eq:
  assumes "noLegacyRows (rootView c) (ec_completedSteps c)" and "\<not> ec_hasCtx c"
  shows "\<exists>c' rows. compensationLoop comps c w = (c', snd (runComps (owed (ec_completedSteps c) (rootView c) comps) w))
    \<and> ec_executedSteps c' = ec_executedSteps c @ rows
    \<and> map compOutcome rows = fst (runComps (owed (ec_completedSteps c) (rootView c) comps) w)"
  using assms
proof (induction comps arbitrary: c w)
  case Nil
  then show ?case by (simp add: owed_def)
next
  case (Cons a comps)
  obtain n fn where a: "a = (n, fn)" by fastforce
  obtain c1 w1 rows where c1: "compensateOne n fn c w = (c1, w1)"
    "rootView c1 = bump (compensationName n) (rootView c)" "ec_completedSteps c1 = ec_completedSteps c"
    "\<not> ec_hasCtx c1" "ec_executedSteps c1 = ec_executedSteps c @ rows"
    "if isCompleted (ec_completedSteps c (claimID (rootView c) (compensationName n) (cv_count (rootView c) (compensationName n))))
     then rows = [] \<and> w1 = w
     else map compOutcome rows = [(claimID (rootView c) (compensationName n) (cv_count (rootView c) (compensationName n)), n, fst (fn w) = None)] \<and> w1 = snd (fn w)"
    using compensateOne_eq [OF Cons.prems(1) refl, of n fn w] Cons.prems(2) by metis
  obtain c' rows1 where IH: "compensationLoop comps c1 w1 = (c', snd (runComps (owed (ec_completedSteps c1) (rootView c1) comps) w1))"
    "ec_executedSteps c' = ec_executedSteps c1 @ rows1"
    "map compOutcome rows1 = fst (runComps (owed (ec_completedSteps c1) (rootView c1) comps) w1)"
    using Cons.IH [of c1 w1] Cons.prems(1) c1 by auto
  have "cancellationErr c w = None" using Cons.prems(2) by (simp add: cancellationErr_def)
  with a c1 IH show ?case
    by (cases "fn w") (auto simp: owed_def Let_def case_prod_unfold split: if_splits)
qed

lemma compClaims_fresh:
  "i \<in> fst ` set (compClaims v comps) \<Longrightarrow> \<exists>n k. i = claimID v n k \<and> cv_count v n \<le> k"
proof (induction comps arbitrary: v)
  case (Cons a comps)
  obtain n fn where a: "a = (n, fn)" by fastforce
  show ?case
  proof (cases "i \<in> fst ` set (compClaims (bump (compensationName n) v) comps)")
    case True
    then obtain m k where "i = claimID v m k" "cv_count (bump (compensationName n) v) m \<le> k"
      using Cons.IH [OF True] by (metis claimID_bump)
    then show ?thesis by (intro exI [of _ m] exI [of _ k]) (simp split: if_splits)
  next
    case False
    with Cons.prems a show ?thesis by auto
  qed
qed simp

lemma compClaims_distinct: "distinct (map fst (compClaims v comps))"
proof (induction comps arbitrary: v)
  case (Cons a comps)
  obtain n fn where a: "a = (n, fn)" by fastforce
  have "claimID v (compensationName n) (cv_count v (compensationName n))
      \<notin> fst ` set (compClaims (bump (compensationName n) v) comps)"
    using compClaims_fresh [of _ "bump (compensationName n) v" comps] by fastforce
  with a Cons.IH show ?case by simp
qed simp

lemma runComps_ids: "map fst (fst (runComps l w)) = map fst l"
  by (induction l arbitrary: w) (auto simp: Let_def case_prod_unfold)

text \<open>A retry owes exactly the compensations that failed.\<close>

lemma owed_retry:
  assumes "\<And>i. isCompleted (D i) \<longleftrightarrow> isCompleted (C i) \<or> (\<exists>n. (i, n, True) \<in> set (fst (runComps (owed C v comps) w)))"
  shows "map fst (owed D v comps) =
    map fst (filter (\<lambda>(_, _, ok). \<not> ok) (fst (runComps (owed C v comps) w)))"
proof -
  let ?t = "fst (runComps (owed C v comps) w)"
  have d: "distinct (map fst ?t)"
    unfolding runComps_ids owed_def by (rule distinct_map_filter, rule compClaims_distinct)
  have ids: "map fst ?t = filter (\<lambda>i. \<not> isCompleted (C i)) (map fst (compClaims v comps))"
    by (simp add: runComps_ids owed_def filter_map comp_def case_prod_unfold)
  have "map fst (filter (\<lambda>(_, _, ok). \<not> ok) ?t) =
      filter (\<lambda>i. \<not> (\<exists>n. (i, n, True) \<in> set ?t)) (map fst ?t)"
    using d by (auto simp: filter_map comp_def case_prod_unfold distinct_map inj_on_def
        intro!: arg_cong [where f = "map fst"] filter_cong) (metis fst_conv prod.collapse snd_conv)+
  then show ?thesis
    unfolding ids by (simp add: owed_def assms filter_map comp_def case_prod_unfold)
qed

section \<open>Properties\<close>


definition demoUndo :: "string \<Rightarrow> goerr option \<Rightarrow> compfn" where
  "demoUndo n e w = (e, w \<lparr> w_log := w_log w @ [n] \<rparr>)"

definition demoSaga :: exec where
  "demoSaga = (newExecutionContext ''r'' ''f'' 0 [] None)
     \<lparr> ec_compensations := [(''pay'', demoUndo ''refund'' (Some (ENew ''down''))),
                              (''ship'', demoUndo ''unship'' None)] \<rparr>"

abbreviation idleWorld :: world where
  "idleWorld \<equiv> \<lparr> w_now = 0, w_ctxErr = None, w_reports = [], w_log = [] \<rparr>"

lemma demoSaga_fields:
  "ec_completedSteps demoSaga = Map.empty" "\<not> ec_hasCtx demoSaga"
  "rootView demoSaga = \<lparr> cv_prefix = ''r'', cv_legacy = ''r'', cv_count = \<lambda>_. 0 \<rparr>"
  "ec_compensations demoSaga = [(''pay'', demoUndo ''refund'' (Some (ENew ''down''))),
     (''ship'', demoUndo ''unship'' None)]"
  "ec_executedSteps demoSaga = []"
  by (simp_all add: demoSaga_def newExecutionContext_def emptyExec_def rootView_def)


text \<open>Retrying after a partial failure: when the rows a compensation run completed are stored
  (and nothing else becomes completed), a second run of the same saga calls exactly the
  compensations that failed, in the same order.\<close>

theorem compensation_retry_runs_failed_only:
  assumes "noLegacyRows (rootView c) (ec_completedSteps c)" and "\<not> ec_hasCtx c"
    and "executeCompensations c w = (c1, w1)" and "ec_executedSteps c1 = ec_executedSteps c @ rows1"
    and "noLegacyRows (rootView d) (ec_completedSteps d)" and "\<not> ec_hasCtx d"
    and "rootView d = rootView c" and "ec_compensations d = ec_compensations c"
    and "\<forall>i. isCompleted (ec_completedSteps d i) \<longleftrightarrow> isCompleted (ec_completedSteps c i)
           \<or> (\<exists>s \<in> set rows1. sr_ID s = i \<and> sr_Status s = ''completed'')"
    and "executeCompensations d w' = (d1, w2)" and "ec_executedSteps d1 = ec_executedSteps d @ rows2"
  shows "map sr_ID rows2 = map sr_ID (filter (\<lambda>s. sr_Status s \<noteq> ''completed'') rows1)"
proof -
  let ?C = "ec_completedSteps c" and ?D = "ec_completedSteps d" and ?v = "rootView c"
    and ?l = "rev (ec_compensations c)"
  have t1: "map compOutcome rows1 = fst (runComps (owed ?C ?v ?l) w)"
    using compensationLoop_eq [OF assms(1,2), of ?l w] assms(3,4) by (auto simp: executeCompensations_def)
  have t2: "map compOutcome rows2 = fst (runComps (owed ?D ?v ?l) w')"
    using compensationLoop_eq [OF assms(5,6), of ?l w'] assms(7,8,10,11)
    by (auto simp: executeCompensations_def)
  have "isCompleted (?D i) \<longleftrightarrow> isCompleted (?C i)
      \<or> (\<exists>n. (i, n, True) \<in> set (fst (runComps (owed ?C ?v ?l) w)))" for i
    using assms(9) unfolding t1 [symmetric] by (auto simp: compOutcome_def)
  from owed_retry [OF this] have "map fst (map compOutcome rows2) =
      map fst (filter (\<lambda>(_, _, ok). \<not> ok) (map compOutcome rows1))"
    unfolding t1 t2 runComps_ids by simp
  then show ?thesis by (simp add: filter_map comp_def compOutcome_def case_prod_unfold)
qed

definition demoSagaRetry :: exec where
  "demoSagaRetry = demoSaga \<lparr> ec_completedSteps := [''r:compensate:ship:0'' \<mapsto>
     \<lparr> cs_ID = ''r:compensate:ship:0'', cs_Name = ''compensate:ship'', cs_Status = ''completed'',
       cs_Output = GNil, cs_Error = GNil \<rparr>] \<rparr>"

lemma demoSagaRetry_fields:
  "noLegacyRows (rootView demoSagaRetry) (ec_completedSteps demoSagaRetry)"
  "\<not> ec_hasCtx demoSagaRetry" "rootView demoSagaRetry = rootView demoSaga"
  "ec_compensations demoSagaRetry = ec_compensations demoSaga" "ec_executedSteps demoSagaRetry = []"
  "isCompleted (ec_completedSteps demoSagaRetry i) \<longleftrightarrow> i = ''r:compensate:ship:0''"
proof -
  have e: "escapeStepIDPart ''compensate:ship'' = ''compensate:ship''" by code_simp
  show "noLegacyRows (rootView demoSagaRetry) (ec_completedSteps demoSagaRetry)"
    by (rule noLegacyRows_plain)
       (auto simp: demoSagaRetry_def demoSaga_fields formatStepID_def rootView_def e
         newExecutionContext_def demoSaga_def emptyExec_def
         intro!: exI [of _ "''compensate:ship''"] exI [of _ "0::nat"])
qed (simp_all add: demoSagaRetry_def demoSaga_fields rootView_def isCompleted_def)

theorem compensation_retry_runs_failed_only_witness:
  "map sr_ID (ec_executedSteps (fst (executeCompensations demoSagaRetry idleWorld))) =
     map sr_ID (filter (\<lambda>s. sr_Status s \<noteq> ''completed'')
       (ec_executedSteps (fst (executeCompensations demoSaga idleWorld))))"
proof -
  obtain c1 w1 where r: "executeCompensations demoSaga idleWorld = (c1, w1)" by fastforce
  obtain d1 w2 where q: "executeCompensations demoSagaRetry idleWorld = (d1, w2)" by fastforce
  have id: "claimID \<lparr> cv_prefix = ''r'', cv_legacy = ''r'', cv_count = f \<rparr> (compensationName ''ship'') 0
      = ''r:compensate:ship:0''" for f
    by (simp add: claimID_def compensationName_def formatStepID_def) code_simp
  obtain rows where rows: "ec_executedSteps c1 = rows"
    and t: "map compOutcome rows = [(''r:compensate:ship:0'', ''ship'', True),
      (claimID (rootView demoSaga) (compensationName ''pay'') 0, ''pay'', False)]"
    using compensationLoop_eq [of demoSaga "rev (ec_compensations demoSaga)" idleWorld] r id
    by (auto simp: executeCompensations_def demoSaga_fields owed_def isCompleted_def demoUndo_def
        compensationName_def)
  have "\<forall>i. isCompleted (ec_completedSteps demoSagaRetry i) \<longleftrightarrow> isCompleted (ec_completedSteps demoSaga i)
           \<or> (\<exists>s \<in> set rows. sr_ID s = i \<and> sr_Status s = ''completed'')"
    using t by (auto simp: demoSagaRetry_fields demoSaga_fields compOutcome_def)
  from compensation_retry_runs_failed_only [OF _ _ r _ demoSagaRetry_fields(1-4) this q, of "ec_executedSteps d1"]
  show ?thesis by (simp add: demoSaga_fields demoSagaRetry_fields rows r q)
qed

end
