(* ===== verification/Workflow.thy ===== *)
theory Workflow
  imports Claims Wait_Invoke Compensation
begin

text \<open>
  Handlers as programs over the step primitives, and what re-invoking one does. A handler
  between two fan-outs is a sequence of step calls whose continuation depends only on the
  answers: the tree \<open>wf\<close>. \<open>runWf\<close> interprets it with the primitives of \<open>Steps\<close>,
  \<open>Wait_Invoke\<close> and \<open>Compensation\<close> on the root context or on a branch; the contract of
  claiming ids in a scope is the locale \<open>claim_scope\<close>.
\<close>

section \<open>Handlers\<close>

datatype op =
    ORun gotype string stepfn "int list"
  | OSleep string int
  | OSleepUntil string int
  | OWait string event_filter bool
  | OInvoke gotype string gval "int list"
  | OInvokeAsync string gval

datatype answer = AVal gval | AUnit | AEvent "event option" | AChild string

datatype wf =
    WReturn gval "goerr option"
  | WCall op "answer \<times> goerr option \<Rightarrow> wf"
  | WCompensate string compfn wf

definition op_name :: "op \<Rightarrow> string" where
  "op_name p = (case p of ORun _ n _ _ \<Rightarrow> n | OSleep n _ \<Rightarrow> n | OSleepUntil n _ \<Rightarrow> n
     | OWait n _ _ \<Rightarrow> n | OInvoke _ n _ _ \<Rightarrow> n | OInvokeAsync n _ \<Rightarrow> n)"

definition mapOutcome :: "('a \<Rightarrow> 'b) \<Rightarrow> 'a outcome \<Rightarrow> 'b outcome" where
  "mapOutcome f r = (case r of Ret v e \<Rightarrow> Ret (f v) e | Yield y \<Rightarrow> Yield y)"

text \<open>The common shape of \<open>runWithStepID\<close>/\<open>runBranchWithStepID\<close>, of
  \<open>Sleep\<close>/\<open>SleepWithBranch\<close> and of \<open>Compensate\<close>/\<open>CompensateInBranch\<close>; the lemmas below
  identify each instance with the function of the source.\<close>

definition runGuarded ::
  "step_context \<Rightarrow> gotype \<Rightarrow> string \<Rightarrow> stepfn \<Rightarrow> int list \<Rightarrow> exec \<Rightarrow> world
   \<Rightarrow> gval outcome \<times> exec \<times> world" where
  "runGuarded sc T name fn opts c0 w =
     (let c = sc_markScopedUsed sc c0 in
      case cancellationErr c w of
        Some err \<Rightarrow> (Ret GNil (Some err), c, w)
      | None \<Rightarrow>
          (case ec_testInterceptor c of
             Some ti \<Rightarrow> (let (r, w1) = testRunStep ti T name w in (r, c, w1))
           | None \<Rightarrow> runScoped sc T name fn opts c w))"

definition sleepFor ::
  "step_context \<Rightarrow> string \<Rightarrow> int \<Rightarrow> exec \<Rightarrow> world \<Rightarrow> unit outcome \<times> exec \<times> world" where
  "sleepFor sc name duration c w =
     (case cancellationErr c w of
        Some err \<Rightarrow> (Ret () (Some err), c, w)
      | None \<Rightarrow> sleepGuarded sc name (w_now w + duration) (sc_markScopedUsed sc c) w)"

definition compensateGuarded ::
  "step_context \<Rightarrow> string \<Rightarrow> compfn \<Rightarrow> exec \<Rightarrow> world \<Rightarrow> exec \<times> world" where
  "compensateGuarded sc stepName fn c0 w =
     (let c = sc_markScopedUsed sc c0 in
      case ec_testInterceptor c of
        Some ti \<Rightarrow> (c, ti_CompensateStep ti stepName fn w)
      | None \<Rightarrow> (registerCompensation stepName fn c, w))"

lemma guarded_root:
  "runGuarded rootContext = runWithStepID"
  "sleepFor rootContext = Sleep"
  "compensateGuarded rootContext = Compensate"
  by (intro ext; simp add: runGuarded_def runWithStepID_def sleepFor_def Sleep_def
      compensateGuarded_def Compensate_def Let_def split: option.split)+

lemma guarded_branch:
  "runGuarded (branchContext b) = runBranchWithStepID b"
  "sleepFor (branchContext b) = SleepWithBranch b"
  "compensateGuarded (branchContext b) = CompensateInBranch b"
  by (intro ext; simp add: runGuarded_def runBranchWithStepID_def sleepFor_def SleepWithBranch_def
      compensateGuarded_def CompensateInBranch_def Let_def split: option.split)+

record codec =
  cd_time :: "string \<Rightarrow> int option"
  cd_json :: json_text

definition perform ::
  "codec \<Rightarrow> step_context \<Rightarrow> op \<Rightarrow> exec \<Rightarrow> world \<Rightarrow> answer outcome \<times> exec \<times> world" where
  "perform cd sc p c w =
     (case p of
        ORun T name fn opts \<Rightarrow>
          apfst (mapOutcome AVal) (runGuarded sc T name fn opts c w)
      | OSleep name d \<Rightarrow> apfst (mapOutcome (\<lambda>_. AUnit)) (sleepFor sc name d c w)
      | OSleepUntil name u \<Rightarrow> apfst (mapOutcome (\<lambda>_. AUnit)) (sleepUntilImpl sc name u c w)
      | OWait name flt opt \<Rightarrow>
          apfst (mapOutcome AEvent) (waitForEventImpl (cd_time cd) sc name flt opt c w)
      | OInvoke T f input opts \<Rightarrow>
          apfst (mapOutcome AVal) (invokeImpl (cd_json cd) sc T f input opts c w)
      | OInvokeAsync f input \<Rightarrow>
          apfst (mapOutcome AChild) (invokeAsyncImpl (cd_json cd) sc f input c w))"

primrec runWf ::
  "codec \<Rightarrow> step_context \<Rightarrow> wf \<Rightarrow> exec \<Rightarrow> world \<Rightarrow> gval outcome \<times> exec \<times> world" where
  "runWf cd sc (WReturn v e) c w = (Ret v e, c, w)"
| "runWf cd sc (WCall p k) c w =
     (case perform cd sc p c w of
        (Ret a e, c1, w1) \<Rightarrow> runWf cd sc (k (a, e)) c1 w1
      | (Yield y, c1, w1) \<Rightarrow> (Yield y, c1, w1))"
| "runWf cd sc (WCompensate n fn t) c w =
     (case compensateGuarded sc n fn c w of (c1, w1) \<Rightarrow> runWf cd sc t c1 w1)"

text \<open>Where an invocation stops: the rest of the handler from the call that yields, or its
  return.\<close>

primrec haltAt ::
  "codec \<Rightarrow> step_context \<Rightarrow> wf \<Rightarrow> exec \<Rightarrow> world \<Rightarrow> wf \<times> exec \<times> world" where
  "haltAt cd sc (WReturn v e) c w = (WReturn v e, c, w)"
| "haltAt cd sc (WCall p k) c w =
     (case perform cd sc p c w of
        (Ret a e, c1, w1) \<Rightarrow> haltAt cd sc (k (a, e)) c1 w1
      | (Yield y, c1, w1) \<Rightarrow> (WCall p k, c, w))"
| "haltAt cd sc (WCompensate n fn t) c w =
     (case compensateGuarded sc n fn c w of (c1, w1) \<Rightarrow> haltAt cd sc t c1 w1)"

lemma runWf_haltAt:
  "haltAt cd sc t c w = (t', c', w') \<Longrightarrow> runWf cd sc t c w = runWf cd sc t' c' w'"
  by (induction t arbitrary: c w) (auto split: prod.splits outcome.splits)

text \<open>Bodies return values that survive storing and decoding at their type.\<close>

primrec wfTyped :: "wf \<Rightarrow> bool" where
  "wfTyped (WReturn v e) = True"
| "wfTyped (WCall p k) =
     ((case p of
         ORun T n fn opts \<Rightarrow>
           (\<forall>i w. fr_err (fst (fn i w)) = None \<longrightarrow> roundtrips T (fr_value (fst (fn i w))))
       | _ \<Rightarrow> True) \<and> (\<forall>a. wfTyped (k a)))"
| "wfTyped (WCompensate n fn t) = wfTyped t"

section \<open>What one call does\<close>

text \<open>A call outside test mode on a run that is not cancelled.\<close>

definition ready :: "exec \<Rightarrow> world \<Rightarrow> bool" where
  "ready c w \<longleftrightarrow> ec_testInterceptor c = None \<and> cancellationErr c w = None"

text \<open>The context a call leaves: the claim, possibly the resume flag, and \<open>rows\<close> appended.\<close>

definition afterCall :: "step_context \<Rightarrow> string \<Rightarrow> exec \<Rightarrow> bool \<Rightarrow> step_result list \<Rightarrow> exec" where
  "afterCall sc name c h rows =
     (snd (sc_generateStepID sc name (sc_markScopedUsed sc c)))
       \<lparr> ec_resumeHandled := h, ec_executedSteps := ec_executedSteps c @ rows \<rparr>"

definition callID :: "step_context \<Rightarrow> string \<Rightarrow> exec \<Rightarrow> string" where
  "callID sc name c = fst (sc_generateStepID sc name (sc_markScopedUsed sc c))"

context step_scope
begin

lemmas call_fields = mark_fields gen_fields

lemma ready_mark: "ready c w \<Longrightarrow> ready (sc_markScopedUsed sc c) w"
  by (simp add: ready_def cancellationErr_def mark_fields)

lemma afterCall_fields:
  "ec_completedSteps (afterCall sc name c h rows) = ec_completedSteps c"
  "ec_testInterceptor (afterCall sc name c h rows) = ec_testInterceptor c"
  "ec_hasCtx (afterCall sc name c h rows) = ec_hasCtx c"
  "ec_resumeContext (afterCall sc name c h rows) = ec_resumeContext c"
  "ec_compensations (afterCall sc name c h rows) = ec_compensations c"
  "ec_executedSteps (afterCall sc name c h rows) = ec_executedSteps c @ rows"
  "ec_resumeHandled (afterCall sc name c h rows) = h"
  by (simp_all add: afterCall_def call_fields)

lemma afterCall_claim:
  "sc_generateStepID sc name (sc_markScopedUsed sc c) = (i, c1) \<Longrightarrow>
     c1 = afterCall sc name c (ec_resumeHandled c) []"
  using call_fields(6,8) [of c] gen_fields(6,8) [of name "sc_markScopedUsed sc c"]
  by (simp add: afterCall_def)

lemma afterCall_handled:
  "(afterCall sc name c h rows) \<lparr> ec_resumeHandled := k \<rparr> = afterCall sc name c k rows"
  by (simp add: afterCall_def)

lemma afterCall_record:
  "(afterCall sc name c h rows) \<lparr> ec_executedSteps :=
      ec_executedSteps (afterCall sc name c h rows) @ [s] \<rparr> = afterCall sc name c h (rows @ [s])"
  by (simp add: afterCall_def)

lemma claim_eq:
  "sc_generateStepID sc name (sc_markScopedUsed sc c) =
     (callID sc name c, afterCall sc name c (ec_resumeHandled c) [])"
  using afterCall_claim [of name c] by (simp add: callID_def prod_eq_iff)

lemma resuming_afterCall [simp]:
  "isResumingFrom i t (afterCall sc name c h rows) = isResumingFrom i t c"
  "getResumeData (afterCall sc name c h rows) = getResumeData c"
  by (simp_all add: isResumingFrom_def getResumeData_def afterCall_fields)

lemma run_call:
  assumes "ready c w"
  shows "runGuarded sc T name fn opts c w =
    (if isCompleted (ec_completedSteps c (callID sc name c))
     then (memoizedOutput T (callID sc name c) name
             (cs_Output (the (ec_completedSteps c (callID sc name c)))),
           afterCall sc name c (ec_resumeHandled c) [], w)
     else runBody sc (callID sc name c) name fn opts
            (afterCall sc name c (ec_resumeHandled c) []) w)"
  using ready_mark [OF assms]
  by (auto simp: runGuarded_def ready_def Let_def runScoped_def claim_eq get_completed
      afterCall_fields isCompleted_def split: option.splits)

lemma sleep_call:
  assumes "ready c w"
  shows "sleepGuarded sc name until (sc_markScopedUsed sc c) w =
    (if isResumingFrom (callID sc name c) ''sleep'' c
     then (Ret () None, afterCall sc name c True [], w)
     else if isCompleted (ec_completedSteps c (callID sc name c))
     then (Ret () None, afterCall sc name c (ec_resumeHandled c) [], w)
     else (Yield (newSleepYield (callID sc name c) until),
           afterCall sc name c (ec_resumeHandled c) [], w))"
  using ready_mark [OF assms]
  by (auto simp: sleepGuarded_def sleepScoped_def ready_def claim_eq scope_simps
      afterCall_fields afterCall_handled)

lemma sleepFor_call:
  "ready c w \<Longrightarrow> sleepFor sc name d c w =
     sleepGuarded sc name (w_now w + d) (sc_markScopedUsed sc c) w"
  by (simp add: sleepFor_def ready_def)

lemma sleepUntil_call:
  "ready c w \<Longrightarrow> sleepUntilImpl sc name u c w = sleepGuarded sc name u (sc_markScopedUsed sc c) w"
  using ready_mark [of c w] by (simp add: sleepUntilImpl_def ready_def Let_def)

lemma wait_call:
  assumes "ready c w"
  shows "waitForEventImpl pt sc name flt opt c w =
    (if isCompleted (ec_completedSteps c (callID sc name c))
     then (decodeWaitResult pt (callID sc name c) name opt
             (cs_Output (the (ec_completedSteps c (callID sc name c)))),
           afterCall sc name c (isResumingFrom (callID sc name c) ''wait_for_event'' c
             \<or> ec_resumeHandled c) [], w)
     else (let (r, c1) = waitResume pt sc (callID sc name c) name flt opt
                 (afterCall sc name c (ec_resumeHandled c) []) in (r, c1, w)))"
  using ready_mark [OF assms]
  by (auto simp: waitForEventImpl_def waitScoped_def ready_def Let_def claim_eq scope_simps
      afterCall_fields afterCall_handled isCompleted_def split: option.splits)

lemma waitResume_call:
  "waitResume pt sc i name flt opt (afterCall sc name c (ec_resumeHandled c) []) =
    (if isResumingFrom i ''wait_for_event'' c \<and> getResumeData c \<noteq> GNil
     then (decodeWaitResult pt i name opt (getResumeData c), afterCall sc name c True [])
     else (Yield (newWaitEventYield i
             ((if ef_Timeout flt = 0 then flt \<lparr> ef_Timeout := week \<rparr> else flt)
                \<lparr> ef_onTimeout := if opt then ''return-null'' else ef_onTimeout flt \<rparr>)),
           afterCall sc name c (isResumingFrom i ''wait_for_event'' c \<or> ec_resumeHandled c) []))"
  by (auto simp: waitResume_def Let_def scope_simps afterCall_handled afterCall_fields)

lemma invoke_call:
  assumes "ready c w"
  shows "invokeImpl jt sc T f input opts c w =
    (case ec_completedSteps c (callID sc f c) of
       None \<Rightarrow> Yield (invokeYield (callID sc f c) f input opts)
     | Some cs \<Rightarrow>
         if cs_Status cs = ''completed'' then memoizedInvoke T f (cs_Output cs)
         else if cs_Status cs = ''failed'' then Ret GNil (Some (parseInvokeError jt f (cs_Error cs)))
         else if cs_Status cs = ''timed_out'' then Ret GNil (Some (EInvoke f [] ''invoke timed out''))
         else Yield (invokeYield (callID sc f c) f input opts),
     afterCall sc f c (ec_resumeHandled c) [], w)"
  using ready_mark [OF assms]
  by (auto simp: invokeImpl_def invokeScoped_def ready_def Let_def claim_eq scope_simps
      afterCall_fields split: option.splits)

lemma invokeAsync_call:
  assumes "ready c w"
  shows "invokeAsyncImpl jt sc f input c w =
    (case ec_completedSteps c (callID sc f c) of
       None \<Rightarrow> Yield (invokeAsyncYield (callID sc f c) f input)
     | Some cs \<Rightarrow>
         if cs_Status cs = ''completed'' then memoizedInvokeAsync (cs_Output cs)
         else if cs_Status cs = ''failed'' then Ret [] (Some (parseInvokeError jt f (cs_Error cs)))
         else Yield (invokeAsyncYield (callID sc f c) f input),
     afterCall sc f c (ec_resumeHandled c) [], w)"
  using ready_mark [OF assms]
  by (auto simp: invokeAsyncImpl_def invokeAsyncScoped_def ready_def Let_def claim_eq scope_simps
      afterCall_fields split: option.splits)

text \<open>One call appends at most one row, the row of the id it claims, and only when that id has
  no completed row; otherwise it leaves the world alone.\<close>

lemma perform_shape:
  assumes "ready c w" and "perform cd sc p c w = (out, c', w')"
  obtains h rows where "c' = afterCall sc (op_name p) c h rows"
    "rows = [] \<and> w' = w \<or> (\<exists>s. rows = [s] \<and> sr_ID s = callID sc (op_name p) c
        \<and> sr_Name s = op_name p \<and> \<not> isCompleted (ec_completedSteps c (callID sc (op_name p) c)))"
proof (cases p)
  case (ORun T name fn opts)
  show thesis
  proof (cases "isCompleted (ec_completedSteps c (callID sc name c))")
    case True
    with assms ORun that [of _ "[]"] show thesis
      by (auto simp: perform_def run_call [OF assms(1)] op_name_def)
  next
    case False
    with assms ORun obtain r where r: "runBody sc (callID sc name c) name fn opts
        (afterCall sc name c (ec_resumeHandled c) []) w = (r, c', w')"
      by (auto simp: perform_def run_call [OF assms(1)] apfst_def map_prod_def split: prod.splits)
    obtain s where "c' = afterCall sc name c (ec_resumeHandled c) [s]"
        "sr_ID s = callID sc name c" "sr_Name s = name"
      using runBody_records [OF r] afterCall_record [of name c "ec_resumeHandled c" "[]"]
      by (metis append_Nil)
    with that [of "ec_resumeHandled c" "[s]"] False ORun show thesis by (simp add: op_name_def)
  qed
next
  case (OWait name flt opt)
  with assms that [of _ "[]"] show thesis
    by (auto simp: perform_def wait_call [OF assms(1)] waitResume_call op_name_def Let_def
        split: if_splits)
qed (use assms that [of _ "[]"] in \<open>auto simp: perform_def op_name_def sleep_call [OF assms(1)]
        sleepFor_call [OF assms(1)] sleepUntil_call [OF assms(1)] invoke_call [OF assms(1)]
        invokeAsync_call [OF assms(1)] split: if_splits\<close>)

end

section \<open>Replay\<close>

text \<open>A row no primitive treats as absent.\<close>

definition settled :: "completed_step option \<Rightarrow> bool" where
  "settled r = (case r of None \<Rightarrow> False
     | Some cs \<Rightarrow> cs_Status cs \<in> {''completed'', ''failed'', ''timed_out''})"

definition completedWith :: "completed_step option \<Rightarrow> gval \<Rightarrow> bool" where
  "completedWith r v = (case r of None \<Rightarrow> False
     | Some cs \<Rightarrow> cs_Status cs = ''completed'' \<and> cs_Output cs = v)"

text \<open>
  The rows of a later invocation, \<open>D\<close>, keep what an invocation with the rows \<open>C\<close>, the resume
  context \<open>res\<close> and the executed steps \<open>rows\<close> produced: the executed steps as completed rows
  with their outputs, the settled rows it did not execute again (those with an id in \<open>A\<close>), and
  the step it was resumed from with the data it was resumed with.
\<close>

definition persistsOn ::
  "string set \<Rightarrow> (string \<rightharpoonup> completed_step) \<Rightarrow> resume_context option \<Rightarrow> step_result list
   \<Rightarrow> (string \<rightharpoonup> completed_step) \<Rightarrow> bool" where
  "persistsOn A C res rows D \<longleftrightarrow>
     (\<forall>s \<in> set rows. completedWith (D (sr_ID s)) (sr_Output s)) \<and>
     (\<forall>i \<in> A. settled (C i) \<and> i \<notin> sr_ID ` set rows \<longrightarrow> D i = C i) \<and>
     (\<forall>r. res = Some r \<and> rc_Type r \<in> {''sleep'', ''wait_for_event''} \<longrightarrow>
        isCompleted (C (rc_StepID r)) \<or>
        \<not> settled (C (rc_StepID r)) \<and> completedWith (D (rc_StepID r)) (rc_Data r))"

abbreviation "persists \<equiv> persistsOn UNIV"

lemma persistsOn_rowsD:
  assumes "persistsOn A C res rows D" "s \<in> set rows"
  shows "completedWith (D (sr_ID s)) (sr_Output s)"
  using assms unfolding persistsOn_def by blast

lemma persistsOn_keptD:
  assumes "persistsOn A C res rows D" "i \<in> A" "i \<notin> sr_ID ` set rows" "settled (C i)"
  shows "D i = C i"
  using assms unfolding persistsOn_def by blast

lemma persistsOn_resumedD:
  assumes "persistsOn A C (ec_resumeContext c) rows D" and "isResumingFrom i t c"
    and "t \<in> {''sleep'', ''wait_for_event''}" and "\<not> isCompleted (C i)"
  shows "\<not> settled (C i)" "completedWith (D i) (getResumeData c)"
  using assms unfolding persistsOn_def isResumingFrom_def getResumeData_def
  by (auto split: option.splits)

lemma isCompleted_settled: "isCompleted r \<Longrightarrow> settled r"
  by (auto simp: isCompleted_def settled_def split: option.splits)

lemma completedWithD:
  "completedWith r v \<Longrightarrow> isCompleted r" "completedWith r v \<Longrightarrow> cs_Output (the r) = v"
  by (auto simp: isCompleted_def completedWith_def split: option.splits)

text \<open>The two ways a call can answer, and what the later invocation then has in its row: the
  call executed the step, or it read a settled row or the resume data.\<close>

context step_scope
begin

lemma run_replay:
  assumes c: "ready c w" and d: "ready d w2" and i: "callID sc name d = callID sc name c"
    and run: "runGuarded sc T name fn opts c w = (Ret v e, c', w')"
    and rows: "c' = afterCall sc name c h rows" "\<forall>s \<in> set rows. sr_Status s = ''completed''"
    and typed: "\<And>x y. fr_err (fst (fn x y)) = None \<Longrightarrow> roundtrips T (fr_value (fst (fn x y)))"
    and keep: "persistsOn A (ec_completedSteps c) res rows (ec_completedSteps d)"
    and A: "callID sc name c \<in> A"
  shows "runGuarded sc T name fn opts d w2 = (Ret v e, afterCall sc name d (ec_resumeHandled d) [], w2)"
proof (cases "isCompleted (ec_completedSteps c (callID sc name c))")
  case True
  with run rows(1) have m: "Ret v e = memoizedOutput T (callID sc name c) name
      (cs_Output (the (ec_completedSteps c (callID sc name c))))" and "rows = []"
    using afterCall_fields(6) [of name c h rows] afterCall_fields(6) [of name c "ec_resumeHandled c" "[]"]
    by (auto simp: run_call [OF c])
  then have "ec_completedSteps d (callID sc name c) = ec_completedSteps c (callID sc name c)"
    using persistsOn_keptD [OF keep A] isCompleted_settled [OF True] by simp
  with True m i show ?thesis by (simp add: run_call [OF d])
next
  case False
  have b: "runBody sc (callID sc name c) name fn opts (afterCall sc name c (ec_resumeHandled c) []) w
      = (Ret v e, c', w')" using run False by (simp add: run_call [OF c])
  obtain s where s: "c' = afterCall sc name c (ec_resumeHandled c) [s]"
      "sr_ID s = callID sc name c" "record_matches s (Ret v e)"
    using runBody_records [OF b] afterCall_record [of name c "ec_resumeHandled c" "[]"]
    by (metis append_Nil)
  then have r: "rows = [s]" using rows(1) afterCall_fields(6) [of name c] by (metis same_append_eq)
  with rows(2) s(3) have ve: "v = sr_Output s" "e = None"
    by (auto simp: record_matches_def)
  have "roundtrips T v"
  proof -
    obtain fr w1 where "fn (callID sc name c) (reportIf (ec_stepReporter
        (afterCall sc name c (ec_resumeHandled c) [])) (StepStarted (callID sc name c) name ''invoke'') w)
        = (fr, w1)" by fastforce
    with b ve(2) typed [of "callID sc name c" "reportIf (ec_stepReporter
        (afterCall sc name c (ec_resumeHandled c) [])) (StepStarted (callID sc name c) name ''invoke'') w"]
    show ?thesis
      by (auto simp: runBody_def runWithTimeout_def Let_def split: if_splits option.splits prod.splits)
  qed
  with persistsOn_rowsD [OF keep, of s] r s(2) ve i show ?thesis
    by (auto simp: run_call [OF d] memoizedOutput_roundtrip dest: completedWithD)
qed

lemma afterCall_no_rows:
  "afterCall sc name c g [] = afterCall sc name c h rows \<Longrightarrow> rows = []"
  using afterCall_fields(6) [of name c] by (metis same_append_eq)

lemma sleep_replay:
  assumes c: "ready c w" and d: "ready d w2" and i: "callID sc name d = callID sc name c"
    and run: "sleepGuarded sc name until (sc_markScopedUsed sc c) w = (Ret x e, c', w')"
    and rows: "c' = afterCall sc name c h rows"
    and keep: "persistsOn A (ec_completedSteps c) (ec_resumeContext c) rows (ec_completedSteps d)"
    and A: "callID sc name c \<in> A"
  shows "\<exists>h'. sleepGuarded sc name until' (sc_markScopedUsed sc d) w2 =
    (Ret x e, afterCall sc name d h' [], w2)"
proof -
  have r: "rows = []" and e: "e = None"
    using run rows by (auto simp: sleep_call [OF c] split: if_splits dest: afterCall_no_rows)
  have "isCompleted (ec_completedSteps d (callID sc name c))"
  proof (cases "isCompleted (ec_completedSteps c (callID sc name c))")
    case True
    then show ?thesis
      using persistsOn_keptD [OF keep A] isCompleted_settled [OF True] r by simp
  next
    case False
    with run have "isResumingFrom (callID sc name c) ''sleep'' c"
      by (simp add: sleep_call [OF c] split: if_splits)
    from persistsOn_resumedD(2) [OF keep this _ False] show ?thesis by (auto dest: completedWithD)
  qed
  with i e show ?thesis by (auto simp: sleep_call [OF d])
qed

lemma perform_replay:
  assumes c: "ready c w" and d: "ready d w2"
    and i: "callID sc (op_name p) d = callID sc (op_name p) c"
    and run: "perform cd sc p c w = (Ret a e, c', w')"
    and rows: "c' = afterCall sc (op_name p) c h rows" "\<forall>s \<in> set rows. sr_Status s = ''completed''"
    and typed: "wfTyped (WCall p k)"
    and keep: "persistsOn A (ec_completedSteps c) (ec_resumeContext c) rows (ec_completedSteps d)"
    and A: "callID sc (op_name p) c \<in> A"
  obtains h' where "perform cd sc p d w2 = (Ret a e, afterCall sc (op_name p) d h' [], w2)"
proof -
  have kept: "ec_completedSteps d (callID sc (op_name p) c) = ec_completedSteps c (callID sc (op_name p) c)"
    if "settled (ec_completedSteps c (callID sc (op_name p) c))" "rows = []"
    using persistsOn_keptD [OF keep A] that by simp
  have norows: "c' = afterCall sc (op_name p) c g [] \<Longrightarrow> rows = []" for g
    using rows(1) afterCall_no_rows by metis
  show thesis
  proof (cases p)
    case (ORun T name fn opts)
    then obtain v where v: "runGuarded sc T name fn opts c w = (Ret v e, c', w')" "a = AVal v"
      using run by (auto simp: perform_def mapOutcome_def apfst_def map_prod_def
          split: prod.splits outcome.splits)
    show thesis
      by (rule that [of "ec_resumeHandled d"])
         (use run_replay [OF c d _ v(1) _ rows(2) _ keep] ORun i rows(1) typed A v(2)
          in \<open>simp add: perform_def mapOutcome_def op_name_def\<close>)
  next
    case (OSleep name dur)
    with run obtain x where "sleepGuarded sc name (w_now w + dur) (sc_markScopedUsed sc c) w = (Ret x e, c', w')"
        "a = AUnit"
      by (auto simp: perform_def mapOutcome_def sleepFor_call [OF c] apfst_def map_prod_def
          split: prod.splits outcome.splits)
    with sleep_replay [OF c d _ this(1) _ keep, of h "w_now w2 + dur"] OSleep i rows(1) A that
    show thesis by (auto simp: perform_def mapOutcome_def sleepFor_call [OF d] op_name_def)
  next
    case (OSleepUntil name u)
    with run obtain x where "sleepGuarded sc name u (sc_markScopedUsed sc c) w = (Ret x e, c', w')"
        "a = AUnit"
      by (auto simp: perform_def mapOutcome_def sleepUntil_call [OF c] apfst_def map_prod_def
          split: prod.splits outcome.splits)
    with sleep_replay [OF c d _ this(1) _ keep, of h u] OSleepUntil i rows(1) A that
    show thesis by (auto simp: perform_def mapOutcome_def sleepUntil_call [OF d] op_name_def)
  next
    case (OWait name flt opt)
    note [simp] = OWait op_name_def perform_def mapOutcome_def wait_call [OF c] wait_call [OF d]
      waitResume_call Let_def
    from run norows have "rows = []" by (auto split: if_splits)
    show thesis
    proof (cases "isCompleted (ec_completedSteps c (callID sc name c))")
      case True
      with kept \<open>rows = []\<close> isCompleted_settled [OF True] run i show thesis
        by (intro that) (auto split: if_splits outcome.splits)
    next
      case False
      with run have r: "isResumingFrom (callID sc name c) ''wait_for_event'' c"
        "decodeWaitResult (cd_time cd) (callID sc name c) name opt (getResumeData c) = Ret (case a of AEvent ev \<Rightarrow> ev) e"
        "\<exists>ev. a = AEvent ev"
        by (auto split: if_splits outcome.splits)
      with completedWithD [OF persistsOn_resumedD(2) [OF keep r(1) _ False]] i show thesis
        by (intro that [of "isResumingFrom (callID sc name c) ''wait_for_event'' d \<or> ec_resumeHandled d"])
           auto
    qed
  next
    case (OInvoke T f input opts)
    note [simp] = OInvoke op_name_def perform_def mapOutcome_def invoke_call [OF c] invoke_call [OF d]
    from run norows have "rows = []" by auto
    have "settled (ec_completedSteps c (callID sc f c))"
      using run by (auto simp: settled_def split: option.splits if_splits)
    with kept \<open>rows = []\<close> run i show thesis
      by (intro that) (auto cong: option.case_cong if_cong)
  next
    case (OInvokeAsync f input)
    note [simp] = OInvokeAsync op_name_def perform_def mapOutcome_def invokeAsync_call [OF c]
      invokeAsync_call [OF d]
    from run norows have "rows = []" by auto
    have "settled (ec_completedSteps c (callID sc f c))"
      using run by (auto simp: settled_def split: option.splits if_splits)
    with kept \<open>rows = []\<close> run i show thesis
      by (intro that) (auto cong: option.case_cong if_cong)
  qed
qed

end

section \<open>Whole invocations\<close>

text \<open>The ids a scope has not claimed yet.\<close>

definition pending :: "claim_view \<Rightarrow> string set" where
  "pending v = {claimID v n i |n i. cv_count v n \<le> i}"

lemma pending_bump: "pending (bump n v) \<subseteq> pending v - {claimID v n (cv_count v n)}"
  by (auto simp: pending_def split: if_splits)

lemma persistsOn_later:
  assumes "persistsOn A C res (rows0 @ rows1) D" and "B \<subseteq> A - sr_ID ` set rows0"
  shows "persistsOn B C res rows1 D"
  unfolding persistsOn_def
proof (intro conjI ballI impI)
  fix i assume "i \<in> B" "settled (C i) \<and> i \<notin> sr_ID ` set rows1"
  with assms(2) persistsOn_keptD [OF assms(1), of i] show "D i = C i" by auto
qed (use assms(1) in \<open>simp_all add: persistsOn_def\<close>)

lemma claimID_pending: "claimID v n (cv_count v n) \<in> pending v"
  by (auto simp: pending_def)

text \<open>The facts about a scope that every step of an invocation keeps.\<close>

definition steady :: "(exec \<Rightarrow> bool) \<Rightarrow> (exec \<Rightarrow> claim_view) \<Rightarrow> exec \<Rightarrow> bool" where
  "steady live view c \<longleftrightarrow> live c \<and> noLegacyRows (view c) (ec_completedSteps c)
     \<and> ec_testInterceptor c = None"

context claim_scope
begin

lemma steady_call:
  assumes "steady live view c"
  shows "callID sc n c = claimID (view c) n (cv_count (view c) n)"
    and "view (afterCall sc n c h rows) = bump n (view c)"
    and "steady live view (afterCall sc n c h rows)"
proof -
  let ?m = "sc_markScopedUsed sc c"
  have m: "live ?m" "view ?m = view c" "noLegacyRows (view ?m) (ec_completedSteps ?m)"
    using assms mark_view [of c] mark_fields(5) [of c] by (simp_all add: steady_def)
  obtain i c1 where g: "sc_generateStepID sc n ?m = (i, c1)" by fastforce
  note cl = claim [OF m(1,3) g]
  show "callID sc n c = claimID (view c) n (cv_count (view c) n)"
    using cl(1) g m(2) by (simp add: callID_def)
  show v: "view (afterCall sc n c h rows) = bump n (view c)"
    using cl(2) g m(2) by (simp add: afterCall_def view_unread)
  show "steady live view (afterCall sc n c h rows)"
    using assms v cl(3) g by (simp add: steady_def afterCall_fields) (simp add: afterCall_def view_unread)
qed

lemma compensate_shape:
  assumes "steady live view c"
  shows "\<exists>c1. compensateGuarded sc n fn c w = (c1, w) \<and> steady live view c1 \<and> view c1 = view c
    \<and> ec_completedSteps c1 = ec_completedSteps c \<and> ec_hasCtx c1 = ec_hasCtx c
    \<and> ec_resumeContext c1 = ec_resumeContext c \<and> ec_executedSteps c1 = ec_executedSteps c"
  using assms mark_view [of c]
  by (simp add: compensateGuarded_def Let_def mark_fields registerCompensation_def steady_def view_unread)

text \<open>What an invocation appends up to its halt: rows with distinct, so far unclaimed ids, none
  of which had a completed row.\<close>

lemma haltAt_rows:
  assumes "steady live view c" and "\<not> ec_hasCtx c" and "haltAt cd sc t c w = (t', c', w')"
  shows "\<exists>rows. ec_executedSteps c' = ec_executedSteps c @ rows \<and> distinct (map sr_ID rows)
    \<and> sr_ID ` set rows \<subseteq> pending (view c)
    \<and> (\<forall>s \<in> set rows. \<not> isCompleted (ec_completedSteps c (sr_ID s)))"
  using assms
proof (induction t arbitrary: c w)
  case (WReturn v e)
  then show ?case by (intro exI [of _ "[]"]) simp
next
  case (WCompensate n fn t)
  obtain c1 where c1: "compensateGuarded sc n fn c w = (c1, w)" "steady live view c1"
      "view c1 = view c" "ec_completedSteps c1 = ec_completedSteps c" "\<not> ec_hasCtx c1"
      "ec_executedSteps c1 = ec_executedSteps c"
    using compensate_shape [OF WCompensate.prems(1), of n fn w] WCompensate.prems(2) by auto
  then show ?case using WCompensate.IH [of c1 w] WCompensate.prems(3) by simp
next
  case (WCall p k)
  obtain out c1 w1 where p: "perform cd sc p c w = (out, c1, w1)" by (metis prod_cases3)
  show ?case
  proof (cases out)
    case (Yield y)
    with p WCall.prems show ?thesis by (intro exI [of _ "[]"]) simp
  next
    case (Ret a e)
    have "ready c w" using WCall.prems by (simp add: ready_def steady_def cancellationErr_def)
    from perform_shape [OF this p] obtain h rows0 where r0: "c1 = afterCall sc (op_name p) c h rows0"
      "rows0 = [] \<or> (\<exists>s. rows0 = [s] \<and> sr_ID s = callID sc (op_name p) c
         \<and> \<not> isCompleted (ec_completedSteps c (callID sc (op_name p) c)))" by metis
    note st = steady_call [OF WCall.prems(1), of "op_name p"]
    obtain rows1 where r1: "ec_executedSteps c' = ec_executedSteps c1 @ rows1"
      "distinct (map sr_ID rows1)" "sr_ID ` set rows1 \<subseteq> pending (view c1)"
      "\<forall>s \<in> set rows1. \<not> isCompleted (ec_completedSteps c1 (sr_ID s))"
      using WCall.IH [of "k (a, e)" c1 w1] WCall.prems p Ret r0(1) st(3) by (auto simp: afterCall_fields)
    have sub: "sr_ID ` set rows1 \<subseteq> pending (view c) - {callID sc (op_name p) c}"
      using r1(3) pending_bump [of "op_name p" "view c"] r0(1) st(1,2) by auto
    show ?thesis
      by (rule exI [of _ "rows0 @ rows1"])
         (use r0 r1 sub st(1) claimID_pending [of "view c" "op_name p"]
          in \<open>auto simp: afterCall_fields\<close>)
  qed
qed

text \<open>The replay theorem for one scope: with the rows persisted, the same handler runs up to
  the same point without executing any step body or touching the world.\<close>

lemma replay_to_halt:
  assumes "steady live view c" and "\<not> ec_hasCtx c" and "haltAt cd sc t c w = (t', c', w')"
    and "steady live view d" and "cancellationErr d w2 = None" and "view d = view c"
    and "wfTyped t" and "ec_executedSteps c' = ec_executedSteps c @ rows"
    and "\<forall>s \<in> set rows. sr_Status s = ''completed''"
    and "persistsOn (pending (view c)) (ec_completedSteps c) (ec_resumeContext c) rows (ec_completedSteps d)"
  shows "\<exists>d'. runWf cd sc t d w2 = runWf cd sc t' d' w2 \<and> view d' = view c'
    \<and> ec_executedSteps d' = ec_executedSteps d \<and> ec_completedSteps d' = ec_completedSteps d
    \<and> steady live view d'"
  using assms
proof (induction t arbitrary: c w d rows)
  case (WReturn v e)
  then show ?case by auto
next
  case (WCompensate n fn t)
  obtain c1 where c1: "compensateGuarded sc n fn c w = (c1, w)" "steady live view c1"
      "view c1 = view c" "ec_completedSteps c1 = ec_completedSteps c" "\<not> ec_hasCtx c1"
      "ec_executedSteps c1 = ec_executedSteps c" "ec_resumeContext c1 = ec_resumeContext c"
    using compensate_shape [OF WCompensate.prems(1), of n fn w] WCompensate.prems(2) by auto
  obtain d1 where d1: "compensateGuarded sc n fn d w2 = (d1, w2)" "steady live view d1"
      "view d1 = view d" "ec_completedSteps d1 = ec_completedSteps d" "ec_hasCtx d1 = ec_hasCtx d"
      "ec_executedSteps d1 = ec_executedSteps d"
    using compensate_shape [OF WCompensate.prems(4), of n fn w2] by auto
  then show ?case
    using WCompensate.IH [of c1 w d1 rows] WCompensate.prems c1 by (simp add: cancellationErr_def)
next
  case (WCall p k)
  obtain out c1 w1 where p: "perform cd sc p c w = (out, c1, w1)" by (metis prod_cases3)
  show ?case
  proof (cases out)
    case (Yield y)
    with p WCall.prems show ?thesis by auto
  next
    case (Ret a e)
    have rc: "ready c w" and rd: "ready d w2"
      using WCall.prems by (simp_all add: ready_def steady_def cancellationErr_def)
    from perform_shape [OF rc p] obtain h rows0 where r0: "c1 = afterCall sc (op_name p) c h rows0"
      "rows0 = [] \<or> (\<exists>s. rows0 = [s] \<and> sr_ID s = callID sc (op_name p) c)" by metis
    note stc = steady_call [OF WCall.prems(1), of "op_name p"]
    note std = steady_call [OF WCall.prems(4), of "op_name p"]
    have h1: "haltAt cd sc (k (a, e)) c1 w1 = (t', c', w')" using WCall.prems(3) p Ret by simp
    have sc1: "steady live view c1" "\<not> ec_hasCtx c1"
      using r0(1) stc(3) WCall.prems(2) by (simp_all add: afterCall_fields)
    obtain rows1 where r1: "ec_executedSteps c' = ec_executedSteps c1 @ rows1"
        "sr_ID ` set rows1 \<subseteq> pending (view c1)"
      using haltAt_rows [OF sc1 h1] by auto
    have rows: "rows = rows0 @ rows1"
      using WCall.prems(8) r0(1) r1(1) by (simp add: afterCall_fields)
    have i: "callID sc (op_name p) d = callID sc (op_name p) c"
      using stc(1) std(1) WCall.prems(6) by simp
    have fresh: "callID sc (op_name p) c \<notin> sr_ID ` set rows1"
      using r1(2) r0(1) stc(1,2) pending_bump [of "op_name p" "view c"] by auto
    have keep0: "persistsOn {callID sc (op_name p) c} (ec_completedSteps c) (ec_resumeContext c)
        rows0 (ec_completedSteps d)"
      using WCall.prems(10) fresh rows stc(1) claimID_pending [of "view c" "op_name p"]
      by (auto simp: persistsOn_def)
    obtain h' where pd: "perform cd sc p d w2 = (Ret a e, afterCall sc (op_name p) d h' [], w2)"
      using perform_replay [OF rc rd i p [unfolded Ret] r0(1) _ WCall.prems(7) keep0]
        WCall.prems(9) rows by auto
    have keep1: "persistsOn (pending (view c1)) (ec_completedSteps c1) (ec_resumeContext c1)
        rows1 (ec_completedSteps (afterCall sc (op_name p) d h' []))"
    proof -
      have "pending (view c1) \<subseteq> pending (view c) - sr_ID ` set rows0"
        using r0 stc(1,2) pending_bump [of "op_name p" "view c"] by auto
      from persistsOn_later [OF WCall.prems(10) [unfolded rows] this] show ?thesis
        by (simp add: r0(1) afterCall_fields)
    qed
    show ?thesis
      using WCall.IH [of "k (a, e)" c1 w1 "afterCall sc (op_name p) d h' []" rows1]
        sc1 h1 std WCall.prems stc(2) r0(1) r1(1) rows keep1 pd
      by (simp add: afterCall_fields cancellationErr_def)
  qed
qed

end

context step_scope
begin

text \<open>A call that yields has executed nothing.\<close>

lemma yield_no_rows:
  assumes "perform cd sc p c w = (Yield y, c1, w1)" and "ready c w"
  shows "ec_executedSteps c1 = ec_executedSteps c \<and> w1 = w"
proof -
  have body: "fst (runBody sc i n fn o' d w) \<noteq> Yield y" for i n fn o' d
    by (auto simp: runBody_def runWithTimeout_def Let_def split: prod.splits option.splits)
  have memo: "memoizedOutput T i n v \<noteq> Yield y" for T i n v
    by (auto simp: memoizedOutput_def split: sum.splits)
  obtain h rows where h: "c1 = afterCall sc (op_name p) c h rows"
      "rows = [] \<and> w1 = w \<or> (\<exists>s. rows = [s] \<and>
         \<not> isCompleted (ec_completedSteps c (callID sc (op_name p) c)))"
    using perform_shape [OF assms(2,1)] by metis
  have "rows = [] \<and> w1 = w"
  proof (cases p)
    case (ORun T n fn opts)
    with assms(1) obtain r where "runGuarded sc T n fn opts c w = (r, c1, w1)" "r = Yield y"
      by (auto simp: perform_def mapOutcome_def apfst_def map_prod_def split: prod.splits outcome.splits)
    then have False using body memo
      by (auto simp: run_call [OF assms(2)] split: if_splits) (metis fst_conv)
    then show ?thesis ..
  next
    case (OWait n flt opt)
    with assms h show ?thesis
      by (auto simp: perform_def op_name_def Let_def wait_call [OF assms(2)]
          waitResume_call split: if_splits
          dest: afterCall_no_rows)
  qed (use assms h in \<open>auto simp: perform_def op_name_def sleepFor_call [OF assms(2)]
      sleepUntil_call [OF assms(2)] sleep_call [OF assms(2)]
      invoke_call [OF assms(2)] invokeAsync_call [OF assms(2)]
      split: if_splits dest: afterCall_no_rows\<close>)
  with h(1) show ?thesis by (simp add: afterCall_fields)
qed

end

lemma haltAt_halted:
  assumes "haltAt cd sc t c w = (t', c', w')"
  shows "(\<exists>v e. t' = WReturn v e) \<or> (\<exists>p k y c1 w1. t' = WCall p k \<and> perform cd sc p c' w' = (Yield y, c1, w1))"
  using assms
  by (induction t arbitrary: c w) (auto split: prod.splits outcome.splits, metis rangeI)

context claim_scope
begin

lemma haltAt_ready:
  assumes "steady live view c" "\<not> ec_hasCtx c" "haltAt cd sc t c w = (t', c', w')"
  shows "ec_testInterceptor c' = None \<and> \<not> ec_hasCtx c'"
  using assms
proof (induction t arbitrary: c w)
  case (WReturn v e)
  then show ?case by (auto simp: steady_def)
next
  case (WCompensate n fn t)
  then show ?case using compensate_shape [of c n fn w] by auto
next
  case (WCall p k)
  obtain out c1 w1 where p: "perform cd sc p c w = (out, c1, w1)" by (metis prod_cases3)
  have r: "ready c w" using WCall.prems by (simp add: ready_def steady_def cancellationErr_def)
  obtain h rows where "c1 = afterCall sc (op_name p) c h rows" using perform_shape [OF r p] by metis
  with WCall.IH [of "k (a, e)" c1 w1 for a e] WCall.prems p steady_call(3) [OF WCall.prems(1)]
  show ?case by (cases out) (auto simp: afterCall_fields steady_def)
qed

lemma runWf_halt_rows:
  assumes "haltAt cd sc t c w = (t1, c1, w1)" and "steady live view c" and "\<not> ec_hasCtx c"
    and "runWf cd sc t c w = (out, c', w')"
  shows "ec_executedSteps c' = ec_executedSteps c1"
proof -
  have "ready c1 w1" using haltAt_ready [OF assms(2,3,1)] by (simp add: ready_def cancellationErr_def)
  then show ?thesis
    using haltAt_halted [OF assms(1)] runWf_haltAt [OF assms(1)] assms(4) yield_no_rows by fastforce
qed

lemma runWf_rows:
  assumes "steady live view c" and "\<not> ec_hasCtx c" and "runWf cd sc t c w = (out, c', w')"
  shows "\<exists>rows. ec_executedSteps c' = ec_executedSteps c @ rows \<and> distinct (map sr_ID rows)
    \<and> sr_ID ` set rows \<subseteq> pending (view c)
    \<and> (\<forall>s \<in> set rows. \<not> isCompleted (ec_completedSteps c (sr_ID s)))"
proof -
  obtain t1 c1 w1 where h: "haltAt cd sc t c w = (t1, c1, w1)" by (metis prod_cases3)
  have "ec_executedSteps c' = ec_executedSteps c1"
    using h assms by (rule runWf_halt_rows)
  with haltAt_rows [OF assms(1,2) h] show ?thesis by simp
qed

end

section \<open>Properties\<close>

abbreviation runRoot :: "string \<Rightarrow> claim_view" where
  "runRoot run \<equiv> \<lparr> cv_prefix = run, cv_legacy = run, cv_count = \<lambda>_. 0 \<rparr>"

lemma newExecutionContext_steady:
  "steady (\<lambda>_. True) rootView (newExecutionContext run f att steps res) \<longleftrightarrow>
     noLegacyRows (runRoot run) (indexCompleted steps Map.empty)"
  by (simp add: steady_def rootView_def newExecutionContext_def emptyExec_def)

lemma newExecutionContext_fields [simp]:
  "rootView (newExecutionContext run f att steps res) = runRoot run"
  "ec_hasCtx (newExecutionContext run f att steps res) = False"
  "ec_completedSteps (newExecutionContext run f att steps res) = indexCompleted steps Map.empty"
  "ec_resumeContext (newExecutionContext run f att steps res) = res"
  "ec_executedSteps (newExecutionContext run f att steps res) = []"
  "ec_compensations (newExecutionContext run f att steps res) = []"
  by (simp_all add: rootView_def newExecutionContext_def emptyExec_def)



text \<open>A handler for the witnesses: charge, sleep, return what was charged.\<close>

definition demoBody :: stepfn where
  "demoBody i w = (\<lparr> fr_value = GJson (JStr ''paid''), fr_err = None, fr_timerFirst = False \<rparr>,
     w \<lparr> w_log := w_log w @ [i] \<rparr>)"

definition demoRest :: "answer \<times> goerr option \<Rightarrow> wf" where
  "demoRest x = WCall (OSleep ''nap'' 5)
     (\<lambda>_. WReturn (case fst x of AVal v \<Rightarrow> v | _ \<Rightarrow> GNil) (snd x))"

definition demoWf :: wf where
  "demoWf = WCall (ORun anyType ''charge'' demoBody []) demoRest"

definition demoWorld :: world where
  "demoWorld = \<lparr> w_now = 0, w_ctxErr = None, w_reports = [], w_log = [] \<rparr>"

definition demoRows :: "completed_step list" where
  "demoRows = [\<lparr> cs_ID = ''r:charge:0'', cs_Name = ''charge'', cs_Status = ''completed'',
                 cs_Output = GJson (JStr ''paid''), cs_Error = GNil \<rparr>]"

abbreviation demoCodec :: codec where
  "demoCodec \<equiv> \<lparr> cd_time = \<lambda>_. None, cd_json = \<lparr> jt_parse = \<lambda>_. None, jt_render = \<lambda>_. [] \<rparr> \<rparr>"

lemma demo_charge:
  "\<exists>c1 w1. perform demoCodec rootContext (ORun anyType ''charge'' demoBody [])
       (newExecutionContext ''r'' ''f'' 0 [] None) demoWorld
     = (Ret (AVal (GJson (JStr ''paid''))) None, c1, w1) \<and>
     ec_executedSteps c1 = [completedStep ''r:charge:0'' ''charge'' ''invoke'' 0 0 (GJson (JStr ''paid''))]
     \<and> \<not> ec_hasCtx c1 \<and> ec_testInterceptor c1 = None \<and> ec_completedSteps c1 = Map.empty
     \<and> ec_resumeContext c1 = None"
  by (simp add: perform_def runGuarded_def runScoped_def runBody_def
      runWithTimeout_def cancellationErr_def newExecutionContext_def emptyExec_def demoBody_def
      demoWorld_def rootContext_def generateStepID_def preferLegacyStepID_def formatStepID_def
      escapeStepIDPart_def stepIDNamespaces_def stepIDPartEscaper_def esc_char_def
      getCompletedStep_def recordStep_def resolveTimeout_def reportIf_def mapOutcome_def
      milliseconds_def duration_units Let_def)

lemma demo_halt:
  "\<exists>c1 w1. haltAt demoCodec rootContext demoWf (newExecutionContext ''r'' ''f'' 0 [] None) demoWorld
     = (demoRest (AVal (GJson (JStr ''paid'')), None), c1, w1) \<and>
     ec_executedSteps c1 = [completedStep ''r:charge:0'' ''charge'' ''invoke'' 0 0 (GJson (JStr ''paid''))]"
proof -
  obtain c1 w1 where c1: "perform demoCodec rootContext (ORun anyType ''charge'' demoBody [])
       (newExecutionContext ''r'' ''f'' 0 [] None) demoWorld
     = (Ret (AVal (GJson (JStr ''paid''))) None, c1, w1)"
     "ec_executedSteps c1 = [completedStep ''r:charge:0'' ''charge'' ''invoke'' 0 0 (GJson (JStr ''paid''))]"
     "\<not> ec_hasCtx c1" "ec_testInterceptor c1 = None" "ec_completedSteps c1 = Map.empty"
     "ec_resumeContext c1 = None"
    using demo_charge by blast
  then have "ready c1 w1" by (simp add: ready_def cancellationErr_def)
  with c1 show ?thesis
    by (simp add: demoWf_def demoRest_def perform_def mapOutcome_def root.sleepFor_call
        root.sleep_call [simplified] isResumingFrom_def isCompleted_def)
qed

lemma demo_noLegacy: "noLegacyRows (runRoot ''r'') (indexCompleted demoRows Map.empty)"
  by (rule noLegacyRows_plain)
     (auto simp: demoRows_def formatStepID_def escapeStepIDPart_plain
       intro!: exI [of _ "''charge''"] exI [of _ "0::nat"])



text \<open>A cancelled run stops at its next step call: every primitive returns the context's error at
  once, without claiming an id, recording a row, yielding or touching the world.\<close>

theorem cancelled_calls_do_nothing:
  assumes "cancellationErr c w = Some e"
  shows "\<exists>a. perform cd rootContext p c w = (Ret a (Some e), c, w)"
  using assms
  by (cases p) (simp_all add: perform_def runGuarded_def sleepFor_def sleepUntilImpl_def
      waitForEventImpl_def invokeImpl_def invokeAsyncImpl_def mapOutcome_def Let_def)

theorem cancelled_calls_do_nothing_witness:
  "(let c = (newExecutionContext ''r'' ''f'' 0 [] None) \<lparr> ec_hasCtx := True \<rparr>;
        w = demoWorld \<lparr> w_ctxErr := Some (ENew ''cancelled'') \<rparr>
    in \<exists>a. perform demoCodec rootContext (OSleep ''nap'' 5) c w = (Ret a (Some (ENew ''cancelled'')), c, w))"
  unfolding Let_def by (rule cancelled_calls_do_nothing) (simp add: cancellationErr_def)

text \<open>Under a test interceptor no primitive yields and none changes the execution context: ids are
  not claimed and rows are not recorded.\<close>

theorem test_mode_leaves_context:
  assumes "ec_testInterceptor c = Some ti"
  shows "fst (snd (perform cd rootContext p c w)) = c \<and> (\<forall>y. fst (perform cd rootContext p c w) \<noteq> Yield y)"
proof (cases "cancellationErr c w")
  case None
  have o: "testOutput T m v \<noteq> Yield y" for T m v y
    by (auto simp: testOutput_def split: sum.splits)
  show ?thesis using assms None o
    by (cases p)
       (auto simp: perform_def runGuarded_def sleepFor_def sleepUntilImpl_def sleepGuarded_def
         waitForEventImpl_def invokeImpl_def invokeAsyncImpl_def testRunStep_def testInvokeStep_def
         mapOutcome_def Let_def case_prod_unfold split: option.splits outcome.splits)
next
  case (Some e)
  have "\<exists>a. perform cd rootContext p c w = (Ret a (Some e), c, w)"
    using Some
    by (cases p) (simp_all add: perform_def runGuarded_def sleepFor_def sleepUntilImpl_def
        waitForEventImpl_def invokeImpl_def invokeAsyncImpl_def mapOutcome_def Let_def)
  then show ?thesis by auto
qed

theorem test_mode_leaves_context_witness:
  "(let ti = \<lparr> ti_RunStep = \<lambda>n w. ((GNil, None), w), ti_SleepStep = \<lambda>n w. w,
               ti_WaitForEventStep = \<lambda>n f b w. ((None, None), w), ti_InvokeStep = \<lambda>n v w. ((GNil, None), w),
               ti_InvokeAsyncStep = \<lambda>n v w. (([], None), w), ti_CompensateStep = \<lambda>n f w. w,
               ti_RecordStep = \<lambda>n t v e w. w, ti_RecordWait = \<lambda>n v e w. w \<rparr>;
        c = (newExecutionContext ''r'' ''f'' 0 [] None) \<lparr> ec_testInterceptor := Some ti \<rparr>
    in fst (snd (perform demoCodec rootContext (OSleep ''nap'' 5) c demoWorld)) = c)"
  unfolding Let_def by (rule conjunct1 [OF test_mode_leaves_context]) simp

text \<open>The bridge for unescaped rows can answer for the wrong step. The row a step \<open>b\<close> inside branch
  0 of a fan-out \<open>a\<close> leaves has the id that the unescaped form of a root step \<open>a:0:b\<close> would
  have had, so on the next invocation that root step returns the branch step's output and its own
  body never runs, although both ids were written by an SDK that escapes names.\<close>

theorem legacy_bridge_answers_for_another_step:
  "(let branchID = fst (branch_generateStepID 0 ''b''
          (snd (createBranchContext ''a'' 0 (newExecutionContext ''r'' f 0 [] None))));
        row = \<lparr> cs_ID = branchID, cs_Name = ''b'', cs_Status = ''completed'', cs_Output = GJson (JStr v), cs_Error = GNil \<rparr>
    in \<exists>c'. runWithStepID anyType ''a:0:b'' body opts (newExecutionContext ''r'' f att [row] None) w
         = (Ret (GJson (JStr v)) None, c', w))"
proof -
  have id: "fst (branch_generateStepID 0 ''b''
      (snd (createBranchContext ''a'' 0 (newExecutionContext ''r'' f 0 [] None)))) = ''r:a:0:b:0''"
    by (simp add: branch_generateStepID_def createBranchContext_def newBranch_def newExecutionContext_def
        emptyExec_def preferLegacyStepID_def formatStepID_def escapeStepIDPart_plain Let_def)
  have esc: "escapeStepIDPart ''a:0:b'' = [CHR ''a'', CHR 0x5C, CHR '':'', CHR ''0'', CHR 0x5C, CHR '':'', CHR ''b'']"
    by code_simp
  show ?thesis
    unfolding Let_def id
    by (simp add: runWithStepID_def runScoped_def rootContext_def generateStepID_def preferLegacyStepID_def
        formatStepID_def esc getCompletedStep_def memoizedOutput_def anyType_def unmarshalAny_def
        cancellationErr_def newExecutionContext_def emptyExec_def Let_def)
qed

end
