(* ===== verification/Parallel.thy ===== *)
theory Parallel
  imports Workflow
begin

text \<open>
  Fan-out (\<^verbatim>\<open>src/ironflow/parallel.go\<close>): \<open>Parallel\<close>, \<open>Map\<close> and their
  branch-scoped forms. The goroutines of one fan-out are a step relation on the state they
  share: which branch moves next is the schedule. A branch's callback is a handler of
  \<open>Workflow\<close> run on its branch context; one call of a step primitive is one step, so calls of
  different branches interleave in any order. The semaphore, the \<open>cancelled\<close> flag and the
  per-index result slots are those of the source.
\<close>

section \<open>Data\<close>

record parallel_options =
  po_Concurrency :: int
  po_OnError :: string
  po_SkipScopedClientCheck :: bool

datatype phase = Queued | Running wf | Finished

record par_state =
  ps_phase :: "phase list"
  ps_cancelled :: bool
  ps_results :: "gval list"
  ps_errors :: "goerr option list"
  ps_yields :: "yield_info option list"
  ps_exec :: exec
  ps_world :: world

text \<open>One fan-out: \<open>Parallel\<close> looks at the cancellation of the run before each branch,
  \<open>ParallelWithBranch\<close> does not (\<open>fo_root\<close>); the branches and their contexts by index.\<close>

record fan_out =
  fo_root :: bool
  fo_options :: parallel_options
  fo_branches :: "wf list"
  fo_contexts :: "nat list"

definition limited :: "fan_out \<Rightarrow> bool" where
  "limited fo \<longleftrightarrow> po_Concurrency (fo_options fo) > 0"

definition failFast :: "fan_out \<Rightarrow> bool" where
  "failFast fo \<longleftrightarrow> po_OnError (fo_options fo) = ''failFast''"

definition isRunning :: "phase \<Rightarrow> bool" where
  "isRunning p = (case p of Running _ \<Rightarrow> True | _ \<Rightarrow> False)"

text \<open>The slots of the semaphore in use.\<close>

definition running :: "par_state \<Rightarrow> nat" where
  "running s = length (filter isRunning (ps_phase s))"

definition blocked :: "fan_out \<Rightarrow> par_state \<Rightarrow> bool" where
  "blocked fo s \<longleftrightarrow> limited fo \<and> int (running s) \<ge> po_Concurrency (fo_options fo)"

section \<open>A branch goroutine\<close>

definition setPhase :: "nat \<Rightarrow> phase \<Rightarrow> par_state \<Rightarrow> par_state" where
  "setPhase i p s = s \<lparr> ps_phase := (ps_phase s)[i := p] \<rparr>"

text \<open>The goroutine before it calls its branch.\<close>

definition startBranch :: "fan_out \<Rightarrow> nat \<Rightarrow> par_state \<Rightarrow> par_state" where
  "startBranch fo i s =
     (if limited fo \<and> ps_cancelled s \<and> failFast fo then setPhase i Finished s
      else case (if fo_root fo then cancellationErr (ps_exec s) (ps_world s) else None) of
             Some err \<Rightarrow> setPhase i Finished (s \<lparr> ps_errors := (ps_errors s)[i := Some err] \<rparr>)
           | None \<Rightarrow> setPhase i (Running (fo_branches fo ! i)) s)"

text \<open>The branch returned, or unwound with a yield signal that the goroutine recovers.\<close>

definition returnBranch :: "fan_out \<Rightarrow> nat \<Rightarrow> gval \<Rightarrow> goerr option \<Rightarrow> par_state \<Rightarrow> par_state" where
  "returnBranch fo i v err s =
     setPhase i Finished
       (case err of
          Some e \<Rightarrow> s \<lparr> ps_errors := (ps_errors s)[i := Some e],
                         ps_cancelled := ps_cancelled s \<or> failFast fo \<rparr>
        | None \<Rightarrow> s \<lparr> ps_results := (ps_results s)[i := v] \<rparr>)"

definition yieldBranch :: "nat \<Rightarrow> yield_info \<Rightarrow> par_state \<Rightarrow> par_state" where
  "yieldBranch i y s =
     setPhase i Finished (s \<lparr> ps_yields := (ps_yields s)[i := Some y], ps_cancelled := True \<rparr>)"

definition advanceBranch :: "codec \<Rightarrow> fan_out \<Rightarrow> nat \<Rightarrow> wf \<Rightarrow> par_state \<Rightarrow> par_state" where
  "advanceBranch cd fo i t s =
     (let sc = branchContext (fo_contexts fo ! i) in
      case t of
        WReturn v err \<Rightarrow> returnBranch fo i v err s
      | WCall p k \<Rightarrow>
          (case perform cd sc p (ps_exec s) (ps_world s) of
             (Ret a e, c1, w1) \<Rightarrow>
               setPhase i (Running (k (a, e))) (s \<lparr> ps_exec := c1, ps_world := w1 \<rparr>)
           | (Yield y, c1, w1) \<Rightarrow> yieldBranch i y (s \<lparr> ps_exec := c1, ps_world := w1 \<rparr>))
      | WCompensate n fn t' \<Rightarrow>
          (case compensateGuarded sc n fn (ps_exec s) (ps_world s) of
             (c1, w1) \<Rightarrow> setPhase i (Running t') (s \<lparr> ps_exec := c1, ps_world := w1 \<rparr>)))"

text \<open>What branch \<open>i\<close> does when it is scheduled; nothing when it waits for a slot or is done.\<close>

definition branchStep :: "codec \<Rightarrow> fan_out \<Rightarrow> nat \<Rightarrow> par_state \<Rightarrow> par_state option" where
  "branchStep cd fo i s =
     (if i < length (ps_phase s) then
        (case ps_phase s ! i of
           Queued \<Rightarrow> if blocked fo s then None else Some (startBranch fo i s)
         | Running t \<Rightarrow> Some (advanceBranch cd fo i t s)
         | Finished \<Rightarrow> None)
      else None)"

inductive pstep :: "codec \<Rightarrow> fan_out \<Rightarrow> par_state \<Rightarrow> par_state \<Rightarrow> bool" for cd fo where
  "branchStep cd fo i s = Some s' \<Longrightarrow> pstep cd fo s s'"

text \<open>All goroutines done: \<open>wg.Wait()\<close> returns.\<close>

definition settledAll :: "par_state \<Rightarrow> bool" where
  "settledAll s = list_all (\<lambda>p. p = Finished) (ps_phase s)"

section \<open>The unscoped-branch lint\<close>

text \<open>The two log lines with the values they print.\<close>

datatype warning =
    EnclosingClaims string int
  | UnscopedBranches string nat nat

definition enclosingClaimsFor :: "exec \<Rightarrow> int \<Rightarrow> int \<Rightarrow> int" where
  "enclosingClaimsFor c myDepth claimsBefore =
     (if myDepth \<noteq> 1 then 0 else ec_enclosingClaims c - claimsBefore)"

definition countUnscoped :: "exec \<Rightarrow> nat list \<Rightarrow> goerr option list \<Rightarrow> nat" where
  "countUnscoped c contexts errs =
     length (filter (\<lambda>(b, err). \<not> bc_scopedClientUsed (ec_branches c ! b) \<and> err = None)
       (zip contexts errs))"

definition warnUnscopedBranches ::
  "string \<Rightarrow> nat list \<Rightarrow> goerr option list \<Rightarrow> parallel_options \<Rightarrow> int \<Rightarrow> exec \<Rightarrow> warning option \<times> exec" where
  "warnUnscopedBranches name contexts errs options enclosing c =
     (if po_SkipScopedClientCheck options then (None, c)
      else
        let (first, c1) = (if enclosing > 0 then shouldWarnUnscoped name c else (False, c))
        in if first then (Some (EnclosingClaims name enclosing), c1)
           else
             let unscoped = countUnscoped c1 contexts errs
             in if unscoped = 0 \<or> unscoped \<noteq> length contexts then (None, c1)
                else let (fresh, c2) = shouldWarnUnscoped name c1
                     in (if fresh then Some (UnscopedBranches name unscoped (length contexts)) else None, c2))"

section \<open>The fan-out\<close>

definition resolveOptions :: "parallel_options list \<Rightarrow> parallel_options" where
  "resolveOptions opts =
     (let options = (case opts of [] \<Rightarrow> \<lparr> po_Concurrency = 0, po_OnError = [], po_SkipScopedClientCheck = False \<rparr>
                     | x # _ \<Rightarrow> x)
      in if po_OnError options = [] then options \<lparr> po_OnError := ''failFast'' \<rparr> else options)"

text \<open>\<open>createBranchContext(name, i)\<close> for \<open>i = k, k + 1, ...\<close>\<close>

fun createContexts :: "step_context \<Rightarrow> string \<Rightarrow> nat \<Rightarrow> nat \<Rightarrow> exec \<Rightarrow> nat list \<times> exec" where
  "createContexts sc name k 0 c = ([], c)"
| "createContexts sc name k (Suc n) c =
     (let (b, c1) = sc_createBranchContext sc name k c;
          (bs, c2) = createContexts sc name (k + 1) n c1 in (b # bs, c2))"

text \<open>Everything before the goroutines start: an early return, or the fan-out with the state it
  starts in.\<close>

definition parallelStart ::
  "bool \<Rightarrow> step_context \<Rightarrow> string \<Rightarrow> wf list \<Rightarrow> parallel_options list \<Rightarrow> exec \<Rightarrow> world
   \<Rightarrow> ((gval list \<times> goerr option) \<times> exec) + (fan_out \<times> par_state)" where
  "parallelStart root sc name branches opts c0 w =
     (case cancellationErr c0 w of
        Some err \<Rightarrow> Inl (([], Some err), c0)
      | None \<Rightarrow>
          (let c = sc_markScopedUsed sc c0; n = length branches in
           if n = 0 then Inl (([], None), c)
           else
             let c1 = c \<lparr> ec_fanOutDepth := ec_fanOutDepth c + 1 \<rparr>;
                 (contexts, c2) = createContexts sc name 0 n c1
             in Inr (\<lparr> fo_root = root, fo_options = resolveOptions opts, fo_branches = branches,
                       fo_contexts = contexts \<rparr>,
                     \<lparr> ps_phase = replicate n Queued, ps_cancelled = False,
                       ps_results = replicate n GNil, ps_errors = replicate n None,
                       ps_yields = replicate n None, ps_exec = c2, ps_world = w \<rparr>)))"

text \<open>Everything after \<open>wg.Wait()\<close>: the first yield by index, else (unless \<open>allSettled\<close>) the
  first error by index, else the results. \<open>before\<close> is \<open>enclosingClaims\<close> and \<open>depth\<close> the
  value of \<open>fanOutDepth.Add(1)\<close> at the start; the deferred \<open>Add(-1)\<close> runs on every exit.\<close>

definition parallelFinish ::
  "fan_out \<Rightarrow> string \<Rightarrow> int \<Rightarrow> int \<Rightarrow> par_state \<Rightarrow> gval list outcome \<times> warning option \<times> exec" where
  "parallelFinish fo name depth before s =
     (let c = ps_exec s; exit = (\<lambda>c. c \<lparr> ec_fanOutDepth := ec_fanOutDepth c - 1 \<rparr>) in
      case first_some id (ps_yields s) of
        Some y \<Rightarrow> (Yield y, None, exit c)
      | None \<Rightarrow>
          (case (if po_OnError (fo_options fo) \<noteq> ''allSettled'' then first_some id (ps_errors s) else None) of
             Some err \<Rightarrow> (Ret [] (Some err), None, exit c)
           | None \<Rightarrow>
               (let (wn, c1) = warnUnscopedBranches name (fo_contexts fo) (ps_errors s) (fo_options fo)
                      (enclosingClaimsFor c depth before) c
                in (Ret (ps_results s) None, wn, exit c1))))"

text \<open>\<open>Parallel(ctx, ...)\<close> and \<open>ParallelWithBranch(b, ...)\<close>, as what they can return: some
  schedule takes the goroutines from the start to the end.\<close>

definition parallelOutcome ::
  "codec \<Rightarrow> bool \<Rightarrow> step_context \<Rightarrow> string \<Rightarrow> wf list \<Rightarrow> parallel_options list \<Rightarrow> exec \<Rightarrow> world
   \<Rightarrow> gval list outcome \<times> warning option \<times> exec \<Rightarrow> world \<Rightarrow> bool" where
  "parallelOutcome cd root sc name branches opts c w r w' \<longleftrightarrow>
     (case parallelStart root sc name branches opts c w of
        Inl ((vs, err), c1) \<Rightarrow> r = (Ret vs err, None, c1) \<and> w' = w
      | Inr (fo, s0) \<Rightarrow>
          \<exists>s. (pstep cd fo)\<^sup>*\<^sup>* s0 s \<and> settledAll s \<and> w' = ps_world s \<and>
              r = parallelFinish fo name (ec_fanOutDepth c + 1) (ec_enclosingClaims c) s)"

abbreviation "Parallel cd \<equiv> parallelOutcome cd True rootContext"
abbreviation "ParallelWithBranch cd b \<equiv> parallelOutcome cd False (branchContext b)"

text \<open>\<open>mapBranches\<close>: the item callback at every index.\<close>

definition mapBranches :: "'a list \<Rightarrow> ('a \<Rightarrow> nat \<Rightarrow> wf) \<Rightarrow> wf list" where
  "mapBranches items fn = map (\<lambda>(i, x). fn x i) (enumerate 0 items)"

definition Map ::
  "codec \<Rightarrow> string \<Rightarrow> 'a list \<Rightarrow> ('a \<Rightarrow> nat \<Rightarrow> wf) \<Rightarrow> parallel_options list \<Rightarrow> exec \<Rightarrow> world
   \<Rightarrow> gval list outcome \<times> warning option \<times> exec \<Rightarrow> world \<Rightarrow> bool" where
  "Map cd name items fn = Parallel cd name (mapBranches items fn)"

definition MapWithBranch ::
  "codec \<Rightarrow> nat \<Rightarrow> string \<Rightarrow> 'a list \<Rightarrow> ('a \<Rightarrow> nat \<Rightarrow> wf) \<Rightarrow> parallel_options list \<Rightarrow> exec \<Rightarrow> world
   \<Rightarrow> gval list outcome \<times> warning option \<times> exec \<Rightarrow> world \<Rightarrow> bool" where
  "MapWithBranch cd b name items fn = ParallelWithBranch cd b name (mapBranches items fn)"

section \<open>Schedules, executably\<close>

fun runSchedule :: "codec \<Rightarrow> fan_out \<Rightarrow> nat list \<Rightarrow> par_state \<Rightarrow> par_state option" where
  "runSchedule cd fo [] s = Some s"
| "runSchedule cd fo (i # is) s =
     (case branchStep cd fo i s of None \<Rightarrow> None | Some s1 \<Rightarrow> runSchedule cd fo is s1)"

lemma runSchedule_reaches: "runSchedule cd fo is s = Some s' \<Longrightarrow> (pstep cd fo)\<^sup>*\<^sup>* s s'"
proof (induction "is" arbitrary: s)
  case (Cons i "is")
  then obtain s1 where "branchStep cd fo i s = Some s1" "runSchedule cd fo is s1 = Some s'"
    by (auto split: option.splits)
  with Cons.IH pstep.intros show ?case by (metis converse_rtranclp_into_rtranclp)
qed simp

inductive_cases pstepE: "pstep cd fo s s'"

section \<open>What a step changes\<close>

lemma isRunning_iff: "isRunning p \<longleftrightarrow> (\<exists>t. p = Running t)"
  by (cases p) (simp_all add: isRunning_def)

text \<open>The order in which a branch moves: queued, then ever smaller rests of its handler, then
  finished.\<close>

inductive_set rest :: "(wf \<times> wf) set" where
  "(k x, WCall p k) \<in> rest"
| "(t, WCompensate n fn t) \<in> rest"

lemma wf_rest: "Wellfounded.wf rest"
proof (rule wfI_min)
  fix t :: wf and Q assume "t \<in> Q"
  then show "\<exists>z \<in> Q. \<forall>y. (y, z) \<in> rest \<longrightarrow> y \<notin> Q"
  proof (induction t)
    case (WReturn v e)
    then show ?case by (auto elim: rest.cases)
  next
    case (WCall p k)
    show ?case
    proof (cases "\<exists>x. k x \<in> Q")
      case True
      with WCall.IH show ?thesis by blast
    next
      case False
      have "y \<notin> Q" if "(y, WCall p k) \<in> rest" for y using that False by cases auto
      with WCall.prems show ?thesis by blast
    qed
  next
    case (WCompensate n fn t)
    show ?case
    proof (cases "t \<in> Q")
      case True
      with WCompensate.IH show ?thesis by blast
    next
      case False
      have "y \<notin> Q" if "(y, WCompensate n fn t) \<in> rest" for y using that False by cases auto
      with WCompensate.prems show ?thesis by blast
    qed
  qed
qed

definition phase_less :: "(phase \<times> phase) set" where
  "phase_less = {(Finished, Queued)} \<union> {(Finished, Running t) |t. True} \<union> {(Running t, Queued) |t. True}
     \<union> {(Running t', Running t) |t' t. (t', t) \<in> rest}"

lemma wf_phase_less: "Wellfounded.wf phase_less"
proof -
  let ?rank = "\<lambda>p. (case p of Queued \<Rightarrow> 2 | Running _ \<Rightarrow> 1 | Finished \<Rightarrow> (0::nat),
     case p of Running t \<Rightarrow> t | _ \<Rightarrow> WReturn GNil None)"
  have "phase_less \<subseteq> inv_image (less_than <*lex*> rest) ?rank"
    by (auto simp: phase_less_def)
  moreover have "Wellfounded.wf (inv_image (less_than <*lex*> rest) ?rank)"
    by (intro wf_inv_image wf_lex_prod wf_less_than wf_rest)
  ultimately show ?thesis by (rule wf_subset [rotated])
qed

lemma startBranch_phase:
  "\<exists>p. ps_phase (startBranch fo i s) = (ps_phase s)[i := p] \<and> (p = Finished \<or> p = Running (fo_branches fo ! i))"
  by (auto simp: startBranch_def setPhase_def split: option.splits)

lemma advanceBranch_phase:
  "\<exists>p. ps_phase (advanceBranch cd fo i t s) = (ps_phase s)[i := p] \<and> (p, Running t) \<in> phase_less"
  by (auto simp: advanceBranch_def returnBranch_def yieldBranch_def setPhase_def phase_less_def
      Let_def rest.simps split: wf.splits outcome.splits option.splits prod.splits)

text \<open>Each step moves exactly one branch, and moves it forward.\<close>

lemma pstep_phase:
  assumes "pstep cd fo s s'"
  obtains i p where "i < length (ps_phase s)" "ps_phase s' = (ps_phase s)[i := p]"
    "(p, ps_phase s ! i) \<in> phase_less" "ps_phase s ! i = Queued \<longrightarrow> \<not> blocked fo s"
proof -
  from assms obtain i where b: "branchStep cd fo i s = Some s'" by (rule pstepE)
  then have i: "i < length (ps_phase s)" by (auto simp: branchStep_def split: if_splits)
  show thesis
  proof (cases "ps_phase s ! i")
    case Queued
    with b i have "s' = startBranch fo i s" "\<not> blocked fo s"
      by (auto simp: branchStep_def split: if_splits)
    with Queued i that startBranch_phase [of fo i s] show thesis by (auto simp: phase_less_def)
  next
    case (Running t)
    with b i have "s' = advanceBranch cd fo i t s" by (simp add: branchStep_def)
    with Running i that advanceBranch_phase [of cd fo i t s] show thesis by auto
  next
    case Finished
    with b i show thesis by (simp add: branchStep_def)
  qed
qed

lemma length_phase: "pstep cd fo s s' \<Longrightarrow> length (ps_phase s') = length (ps_phase s)"
  by (elim pstep_phase) simp

text \<open>Termination: no schedule is infinite.\<close>

lemma wf_pstep: "Wellfounded.wf {(s', s). pstep cd fo s s'}"
proof -
  have "{(s', s). pstep cd fo s s'} \<subseteq> inv_image (listrel1 phase_less) ps_phase"
  proof (clarsimp)
    fix s s' assume "pstep cd fo s s'"
    then obtain i p where "i < length (ps_phase s)" "ps_phase s' = (ps_phase s)[i := p]"
      "(p, ps_phase s ! i) \<in> phase_less" by (rule pstep_phase)
    then show "(ps_phase s', ps_phase s) \<in> listrel1 phase_less"
      by (auto simp: listrel1_iff_update intro!: exI [of _ i] exI [of _ "ps_phase s ! i"])
  qed
  moreover have "Wellfounded.wf (inv_image (listrel1 phase_less) ps_phase)"
    by (intro wf_inv_image) (simp add: wf_listrel1_iff wf_phase_less)
  ultimately show ?thesis by (rule wf_subset [rotated])
qed

text \<open>Progress: some goroutine can always move until all are done.\<close>

lemma pstep_progress:
  assumes "\<not> settledAll s"
  shows "\<exists>s'. pstep cd fo s s'"
proof (cases "\<exists>i < length (ps_phase s). isRunning (ps_phase s ! i)")
  case True
  then obtain i t where "i < length (ps_phase s)" "ps_phase s ! i = Running t"
    by (auto simp: isRunning_iff)
  then show ?thesis by (intro exI pstep.intros [of _ _ i]) (auto simp: branchStep_def)
next
  case False
  then have "running s = 0" by (auto simp: running_def filter_empty_conv in_set_conv_nth)
  then have "\<not> blocked fo s" by (auto simp: blocked_def limited_def)
  from assms obtain i where "i < length (ps_phase s)" "ps_phase s ! i \<noteq> Finished"
    by (auto simp: settledAll_def list_all_length)
  with False have "ps_phase s ! i = Queued" by (cases "ps_phase s ! i") (auto simp: isRunning_def)
  with \<open>\<not> blocked fo s\<close> \<open>i < _\<close> show ?thesis
    by (intro exI pstep.intros [of _ _ i]) (auto simp: branchStep_def)
qed

lemma pstep_settles: "\<exists>s'. (pstep cd fo)\<^sup>*\<^sup>* s s' \<and> settledAll s'"
proof (induction s rule: wf_induct [OF wf_pstep [of cd fo]])
  case (1 s)
  show ?case
  proof (cases "settledAll s")
    case False
    then obtain s1 where "pstep cd fo s s1" using pstep_progress by blast
    with 1 show ?thesis by (metis (mono_tags, lifting) case_prodI converse_rtranclp_into_rtranclp mem_Collect_eq)
  qed auto
qed

text \<open>The semaphore.\<close>

lemma running_bound:
  assumes "(pstep cd fo)\<^sup>*\<^sup>* s s'" and "limited fo" and "int (running s) \<le> po_Concurrency (fo_options fo)"
  shows "int (running s') \<le> po_Concurrency (fo_options fo)"
  using assms(1,3)
proof (induction rule: rtranclp_induct)
  case (step s1 s2)
  from step(2) obtain i p where i: "i < length (ps_phase s1)" "ps_phase s2 = (ps_phase s1)[i := p]"
    "(p, ps_phase s1 ! i) \<in> phase_less" "ps_phase s1 ! i = Queued \<longrightarrow> \<not> blocked fo s1"
    by (rule pstep_phase)
  have "running s2 + (if isRunning (ps_phase s1 ! i) then 1 else 0) = running s1 + (if isRunning p then 1 else 0)"
    unfolding running_def i(2) by (rule length_filter_update [OF i(1)])
  moreover have "isRunning p \<and> \<not> isRunning (ps_phase s1 ! i) \<longrightarrow> \<not> blocked fo s1"
    using i(3,4) by (auto simp: phase_less_def isRunning_def split: phase.splits)
  ultimately show ?case using step assms(2) by (auto simp: blocked_def split: if_splits)
qed

section \<open>Branches do not disturb each other\<close>

text \<open>Equal results, or yields of the same step (the wake-up time of a sleep depends on when it is
  reached).\<close>

fun sameOutcome :: "'a outcome \<Rightarrow> 'a outcome \<Rightarrow> bool" where
  "sameOutcome (Ret v e) (Ret v' e') \<longleftrightarrow> v = v' \<and> e = e'"
| "sameOutcome (Yield y) (Yield z) \<longleftrightarrow> yi_StepID y = yi_StepID z \<and> yi_Type y = yi_Type z"
| "sameOutcome _ _ \<longleftrightarrow> False"

lemma sameOutcome_refl [simp]: "sameOutcome r r"
  by (cases r) auto

lemma sameOutcome_map: "sameOutcome r r' \<Longrightarrow> sameOutcome (mapOutcome f r) (mapOutcome f r')"
  by (cases "(r, r')" rule: sameOutcome.cases) (auto simp: mapOutcome_def)

text \<open>Bodies whose result does not depend on the state of the world.\<close>

definition opSteady :: "op \<Rightarrow> bool" where
  "opSteady p = (case p of
     ORun T n fn opts \<Rightarrow> (\<forall>i w w'. fst (fn i w) = fst (fn i w')) | _ \<Rightarrow> True)"

primrec wfSteady :: "wf \<Rightarrow> bool" where
  "wfSteady (WReturn v e) = True"
| "wfSteady (WCall p k) = (opSteady p \<and> (\<forall>a. wfSteady (k a)))"
| "wfSteady (WCompensate n fn t) = wfSteady t"

definition agrees ::
  "(exec \<Rightarrow> bool) \<Rightarrow> (exec \<Rightarrow> claim_view) \<Rightarrow> exec \<Rightarrow> exec \<Rightarrow> bool" where
  "agrees live view c d \<longleftrightarrow> steady live view c \<and> steady live view d \<and> view d = view c
     \<and> ec_completedSteps d = ec_completedSteps c \<and> ec_resumeContext d = ec_resumeContext c
     \<and> ec_stepTimeout d = ec_stepTimeout c \<and> \<not> ec_hasCtx c \<and> \<not> ec_hasCtx d"

lemma runBody_agrees:
  assumes "\<forall>i w w'. fst (fn i w) = fst (fn i w')" and "ec_stepTimeout d = ec_stepTimeout c"
  shows "fst (runBody sc i n fn opts c w) = fst (runBody sc i n fn opts d w2)"
proof -
  obtain r x where r: "fn i (reportIf (ec_stepReporter c) (StepStarted i n ''invoke'') w) = (r, x)" by fastforce
  obtain y where y: "fn i (reportIf (ec_stepReporter d) (StepStarted i n ''invoke'') w2) = (r, y)"
    using assms(1) r by (metis fst_conv surj_pair)
  show ?thesis using r y assms(2)
    by (simp add: runBody_def runWithTimeout_def Let_def case_prod_unfold split: option.splits)
qed

context step_scope
begin

lemma afterCall_timeout: "ec_stepTimeout (afterCall sc n c h rows) = ec_stepTimeout c"
  by (simp add: afterCall_def call_fields)

lemma perform_same:
  assumes c: "ready c w" and d: "ready d w2" and i: "callID sc (op_name p) d = callID sc (op_name p) c"
    and C: "ec_completedSteps d = ec_completedSteps c" "ec_resumeContext d = ec_resumeContext c"
      "ec_stepTimeout d = ec_stepTimeout c" and "opSteady p"
  shows "sameOutcome (fst (perform cd sc p c w)) (fst (perform cd sc p d w2))"
proof -
  have r: "isResumingFrom x t d = isResumingFrom x t c" "getResumeData d = getResumeData c" for x t
    using C(2) by (simp_all add: isResumingFrom_def getResumeData_def)
  show ?thesis
  proof (cases p)
    case (ORun T n fn opts)
    have "fst (runBody sc x n fn opts (afterCall sc n c (ec_resumeHandled c) []) w) =
        fst (runBody sc x n fn opts (afterCall sc n d (ec_resumeHandled d) []) w2)" for x
      by (rule runBody_agrees) (use assms ORun in \<open>simp_all add: opSteady_def afterCall_timeout\<close>)
    from this [of "callID sc n c"] ORun i C(1) show ?thesis
      by (simp add: perform_def run_call [OF c] run_call [OF d] op_name_def)
  next
    case (OWait n flt opt)
    with i C(1) r show ?thesis
      by (simp add: perform_def wait_call [OF c] wait_call [OF d] op_name_def waitResume_call Let_def)
  qed (use i C(1) r in \<open>simp_all add: perform_def op_name_def sleepFor_call [OF c] sleepFor_call [OF d]
      sleepUntil_call [OF c] sleepUntil_call [OF d] sleep_call [OF c] sleep_call [OF d]
      invoke_call [OF c] invoke_call [OF d] invokeAsync_call [OF c] invokeAsync_call [OF d]
      mapOutcome_def newSleepYield_def cong: option.case_cong if_cong\<close>)
qed

end

context claim_scope
begin

lemma perform_agrees:
  assumes "agrees live view c d" and "opSteady p"
    and "perform cd sc p c w = (r1, c1, w1)" and "perform cd sc p d w2 = (r2, d1, w3)"
  shows "sameOutcome r1 r2" and "agrees live view c1 d1"
proof -
  have s: "steady live view c" "steady live view d" "view d = view c"
    "ec_completedSteps d = ec_completedSteps c" "ec_resumeContext d = ec_resumeContext c"
    "ec_stepTimeout d = ec_stepTimeout c" "\<not> ec_hasCtx c" "\<not> ec_hasCtx d"
    using assms(1) by (simp_all add: agrees_def)
  have rc: "ready c w" and rd: "ready d w2"
    using s by (simp_all add: ready_def steady_def cancellationErr_def)
  have i: "callID sc (op_name p) d = callID sc (op_name p) c"
    using steady_call(1) [OF s(1)] steady_call(1) [OF s(2)] s(3) by simp
  show "sameOutcome r1 r2" using perform_same [OF rc rd i s(4-6) assms(2), of cd] assms(3,4) by simp
  obtain h rows where c1: "c1 = afterCall sc (op_name p) c h rows" using perform_shape [OF rc assms(3)] by metis
  obtain g rows' where d1: "d1 = afterCall sc (op_name p) d g rows'" using perform_shape [OF rd assms(4)] by metis
  show "agrees live view c1 d1"
    using s steady_call(2,3) [OF s(1), of "op_name p"] steady_call(2,3) [OF s(2), of "op_name p"]
    by (simp add: agrees_def c1 d1 afterCall_fields afterCall_timeout)
qed

lemma compensate_agrees:
  assumes "agrees live view c d" and "compensateGuarded sc n fn c w = (c1, w1)"
    and "compensateGuarded sc n fn d w2 = (d1, w3)"
  shows "agrees live view c1 d1"
  using assms mark_view [of c] mark_view [of d]
  by (auto simp: agrees_def steady_def compensateGuarded_def Let_def mark_fields
      registerCompensation_def view_unread)

lemma agrees_sym: "agrees live view c d \<Longrightarrow> agrees live view d c"
  by (auto simp: agrees_def)

end

section \<open>The result does not depend on the schedule\<close>

text \<open>How branch \<open>i\<close> ends when it runs alone from the state the fan-out starts in.\<close>

definition alone :: "codec \<Rightarrow> fan_out \<Rightarrow> par_state \<Rightarrow> nat \<Rightarrow> gval outcome" where
  "alone cd fo s0 i =
     fst (runWf cd (branchContext (fo_contexts fo ! i)) (fo_branches fo ! i) (ps_exec s0) (ps_world s0))"

text \<open>The slots of a finished branch hold a given outcome; those of any other are empty.\<close>

definition slots :: "par_state \<Rightarrow> nat \<Rightarrow> gval outcome \<Rightarrow> bool" where
  "slots s i r = (case r of
     Ret v None \<Rightarrow> ps_results s ! i = v \<and> ps_errors s ! i = None \<and> ps_yields s ! i = None
   | Ret _ (Some e) \<Rightarrow> ps_results s ! i = GNil \<and> ps_errors s ! i = Some e \<and> ps_yields s ! i = None
   | Yield y \<Rightarrow> ps_results s ! i = GNil \<and> ps_errors s ! i = None \<and> (\<exists>z. ps_yields s ! i = Some z \<and> sameOutcome r (Yield z)))"

definition emptySlots :: "par_state \<Rightarrow> nat \<Rightarrow> bool" where
  "emptySlots s i \<longleftrightarrow> ps_results s ! i = GNil \<and> ps_errors s ! i = None \<and> ps_yields s ! i = None"

abbreviation bview :: "fan_out \<Rightarrow> nat \<Rightarrow> exec \<Rightarrow> exec \<Rightarrow> bool" where
  "bview fo i c d \<equiv> agrees (branchLive (fo_contexts fo ! i)) (branchView (fo_contexts fo ! i)) c d"

text \<open>What holds of branch \<open>i\<close> in every state the goroutines reach.\<close>

definition onTrack :: "codec \<Rightarrow> fan_out \<Rightarrow> par_state \<Rightarrow> par_state \<Rightarrow> nat \<Rightarrow> bool" where
  "onTrack cd fo s0 s i = (case ps_phase s ! i of
     Queued \<Rightarrow> emptySlots s i \<and> bview fo i (ps_exec s0) (ps_exec s)
   | Running t \<Rightarrow> emptySlots s i \<and> wfSteady t \<and>
       (\<exists>c w. bview fo i c (ps_exec s) \<and>
          sameOutcome (alone cd fo s0 i) (fst (runWf cd (branchContext (fo_contexts fo ! i)) t c w)))
   | Finished \<Rightarrow> slots s i (alone cd fo s0 i))"

definition shape :: "fan_out \<Rightarrow> par_state \<Rightarrow> bool" where
  "shape fo s \<longleftrightarrow> length (fo_branches fo) = length (ps_phase s) \<and> length (fo_contexts fo) = length (ps_phase s)
     \<and> length (ps_results s) = length (ps_phase s) \<and> length (ps_errors s) = length (ps_phase s)
     \<and> length (ps_yields s) = length (ps_phase s) \<and> distinct (fo_contexts fo)"

lemma sameOutcome_sym: "sameOutcome a b \<Longrightarrow> sameOutcome b a"
  by (cases "(a, b)" rule: sameOutcome.cases) auto

lemma sameOutcome_trans: "sameOutcome a b \<Longrightarrow> sameOutcome b c \<Longrightarrow> sameOutcome a c"
  by (cases a; cases b; cases c) auto

text \<open>A call on one branch's context is invisible to another branch.\<close>

lemma branch_call_other:
  assumes "b \<noteq> b'"
  shows "branchView b' (afterCall (branchContext b) n c h rows) = branchView b' c"
    and "branchLive b' (afterCall (branchContext b) n c h rows) = branchLive b' c"
  using assms
  by (simp_all add: afterCall_def branchView_def branchLive_def branch_generateStepID_def
      branch_markScopedUsed_def Let_def)

lemma branch_compensate_other:
  assumes "b \<noteq> b'" and "compensateGuarded (branchContext b) n fn c w = (c1, w1)" and "ec_testInterceptor c = None"
  shows "branchView b' c1 = branchView b' c" and "branchLive b' c1 = branchLive b' c"
  using assms
  by (auto simp: compensateGuarded_def Let_def branch_markScopedUsed_def registerCompensation_def
      branchView_def branchLive_def)

lemma agrees_other_call:
  assumes "agrees (branchLive b') (branchView b') c d" and "b \<noteq> b'"
  shows "agrees (branchLive b') (branchView b') c (afterCall (branchContext b) n d h rows)"
  using assms branch_call_other [OF assms(2)]
  by (simp add: agrees_def steady_def branch.afterCall_fields branch.afterCall_timeout)

lemma agrees_other_compensate:
  assumes "agrees (branchLive b') (branchView b') c d" and "b \<noteq> b'"
    and "compensateGuarded (branchContext b) n fn d w = (d1, w1)"
  shows "agrees (branchLive b') (branchView b') c d1"
proof -
  have t: "ec_testInterceptor d = None" using assms(1) by (simp add: agrees_def steady_def)
  show ?thesis using assms branch_compensate_other [OF assms(2,3) t] t
    by (auto simp: agrees_def steady_def compensateGuarded_def Let_def branch_markScopedUsed_def
        registerCompensation_def)
qed

lemma runWf_agrees:
  assumes "agrees (branchLive b) (branchView b) c d" and "wfSteady t"
  shows "sameOutcome (fst (runWf cd (branchContext b) t c w)) (fst (runWf cd (branchContext b) t d w2))"
  using assms
proof (induction t arbitrary: c d w w2)
  case (WCall p k)
  obtain r1 c1 w1 where c1: "perform cd (branchContext b) p c w = (r1, c1, w1)" by (metis prod_cases3)
  obtain r2 d1 w3 where d1: "perform cd (branchContext b) p d w2 = (r2, d1, w3)" by (metis prod_cases3)
  have st: "opSteady p" using WCall.prems(2) by simp
  note ag = branchClaim.perform_agrees [OF WCall.prems(1) st c1 d1]
  show ?case
  proof (cases r1)
    case (Ret a e)
    then have "r2 = Ret a e" using ag(1) by (cases r2) auto
    with Ret c1 d1 WCall.IH [of "k (a, e)", OF _ ag(2)] WCall.prems(2) show ?thesis by simp
  next
    case (Yield y)
    with ag(1) c1 d1 show ?thesis by (cases r2) auto
  qed
next
  case (WCompensate n fn t)
  then show ?case
    using branchClaim.compensate_agrees [OF WCompensate.prems(1)]
    by (auto split: prod.splits)
qed simp

lemma onTrack_other:
  assumes "onTrack cd fo s0 s j" and "ps_phase s' ! j = ps_phase s ! j"
    and "ps_results s' ! j = ps_results s ! j" "ps_errors s' ! j = ps_errors s ! j"
      "ps_yields s' ! j = ps_yields s ! j"
    and "\<And>c. bview fo j c (ps_exec s) \<Longrightarrow> bview fo j c (ps_exec s')"
  shows "onTrack cd fo s0 s' j"
  using assms by (auto simp: onTrack_def emptySlots_def slots_def split: phase.splits outcome.splits option.splits)

text \<open>The step of branch \<open>i\<close> itself, and what it leaves to the others.\<close>

lemma advance_self:
  assumes on: "onTrack cd fo s0 s i" and ph: "ps_phase s ! i = Running t" and i: "i < length (ps_phase s)"
    and sh: "shape fo s"
  shows "onTrack cd fo s0 (advanceBranch cd fo i t s) i"
proof -
  let ?sc = "branchContext (fo_contexts fo ! i)"
  obtain c w where e: "emptySlots s i" and st: "wfSteady t" and ag: "bview fo i c (ps_exec s)"
    and so: "sameOutcome (alone cd fo s0 i) (fst (runWf cd ?sc t c w))"
    using on ph by (auto simp: onTrack_def)
  have so': "sameOutcome (alone cd fo s0 i) (fst (runWf cd ?sc t (ps_exec s) (ps_world s)))"
    using so runWf_agrees [OF ag st] sameOutcome_trans by blast
  have ss: "bview fo i (ps_exec s) (ps_exec s)" using ag by (simp add: agrees_def)
  have len: "i < length (ps_results s)" "i < length (ps_errors s)" "i < length (ps_yields s)"
    using sh i by (simp_all add: shape_def)
  show ?thesis
  proof (cases t)
    case (WReturn v err)
    with so' have "alone cd fo s0 i = Ret v err" by (cases "alone cd fo s0 i") auto
    with WReturn e len i show ?thesis
      by (cases err) (auto simp: advanceBranch_def returnBranch_def setPhase_def onTrack_def slots_def emptySlots_def)
  next
    case (WCall p k)
    obtain r c1 w1 where p: "perform cd ?sc p (ps_exec s) (ps_world s) = (r, c1, w1)" by (metis prod_cases3)
    have op: "opSteady p" using st WCall by simp
    show ?thesis
    proof (cases r)
      case (Ret a err)
      have "bview fo i c1 c1" by (rule branchClaim.perform_agrees(2) [OF ss op p p])
      with WCall p Ret st so' e i len show ?thesis
        by (auto simp: advanceBranch_def setPhase_def onTrack_def emptySlots_def)
    next
      case (Yield y)
      with so' WCall p have "sameOutcome (alone cd fo s0 i) (Yield y)" by simp
      then show ?thesis using WCall p Yield e i len
        by (cases "alone cd fo s0 i")
           (auto simp: advanceBranch_def yieldBranch_def setPhase_def onTrack_def emptySlots_def slots_def)
    qed
  next
    case (WCompensate n fn t')
    obtain c1 w1 where p: "compensateGuarded ?sc n fn (ps_exec s) (ps_world s) = (c1, w1)" by fastforce
    have "bview fo i c1 c1" by (rule branchClaim.compensate_agrees [OF ss p p])
    with WCompensate p st so' e i len show ?thesis
      by (auto simp: advanceBranch_def setPhase_def onTrack_def emptySlots_def)
  qed
qed

lemma advance_others:
  assumes "j \<noteq> i" and "fo_contexts fo ! i \<noteq> fo_contexts fo ! j" and "onTrack cd fo s0 s j"
    and "bview fo i d (ps_exec s)"
  shows "onTrack cd fo s0 (advanceBranch cd fo i t s) j"
proof (rule onTrack_other [OF assms(3)])
  let ?sc = "branchContext (fo_contexts fo ! i)"
  fix c assume c: "bview fo j c (ps_exec s)"
  have rd: "ready (ps_exec s) (ps_world s)"
    using assms(4) by (simp add: agrees_def steady_def ready_def cancellationErr_def)
  show "bview fo j c (ps_exec (advanceBranch cd fo i t s))"
  proof (cases t)
    case (WReturn v err)
    with c show ?thesis
      by (cases err) (simp_all add: advanceBranch_def returnBranch_def setPhase_def)
  next
    case (WCall p k)
    obtain r c1 w1 where p: "perform cd ?sc p (ps_exec s) (ps_world s) = (r, c1, w1)" by (metis prod_cases3)
    obtain h rows where "c1 = afterCall ?sc (op_name p) (ps_exec s) h rows"
      using branch.perform_shape [OF rd p] by metis
    with agrees_other_call [OF c assms(2)] have "bview fo j c c1" by simp
    with WCall p show ?thesis
      by (cases r) (simp_all add: advanceBranch_def yieldBranch_def setPhase_def)
  next
    case (WCompensate n fn t')
    obtain c1 w1 where p: "compensateGuarded ?sc n fn (ps_exec s) (ps_world s) = (c1, w1)" by fastforce
    with agrees_other_compensate [OF c assms(2) p] WCompensate show ?thesis
      by (simp add: advanceBranch_def setPhase_def)
  qed
qed (use assms(1) in \<open>auto simp: advanceBranch_def returnBranch_def yieldBranch_def setPhase_def Let_def
      split: wf.splits outcome.splits option.splits prod.splits\<close>)

lemma shape_step:
  assumes "pstep cd fo s s'" and "shape fo s"
  shows "shape fo s'"
  using assms
  by (auto elim!: pstepE simp: shape_def branchStep_def startBranch_def advanceBranch_def returnBranch_def
      yieldBranch_def setPhase_def Let_def
      split: if_splits phase.splits wf.splits outcome.splits option.splits prod.splits)

lemma onTrack_step:
  assumes step: "pstep cd fo s s'" and sh: "shape fo s" and on: "\<forall>j < length (ps_phase s). onTrack cd fo s0 s j"
    and free: "\<not> (limited fo \<and> failFast fo)" and st: "\<forall>t \<in> set (fo_branches fo). wfSteady t"
  shows "\<forall>j < length (ps_phase s'). onTrack cd fo s0 s' j"
proof (intro allI impI)
  fix j assume "j < length (ps_phase s')"
  then have j: "j < length (ps_phase s)" using length_phase [OF step] by simp
  from step obtain i where b: "branchStep cd fo i s = Some s'" by (rule pstepE)
  then have i: "i < length (ps_phase s)" by (auto simp: branchStep_def split: if_splits)
  show "onTrack cd fo s0 s' j"
  proof (cases "ps_phase s ! i")
    case Queued
    have q: "emptySlots s i" "bview fo i (ps_exec s0) (ps_exec s)"
      using on i Queued by (auto simp: onTrack_def)
    then have s': "s' = setPhase i (Running (fo_branches fo ! i)) s"
      using b i Queued free
      by (auto simp: branchStep_def startBranch_def agrees_def cancellationErr_def split: if_splits)
    have "wfSteady (fo_branches fo ! i)" using st i sh by (simp add: shape_def)
    with q i have "onTrack cd fo s0 s' i"
      unfolding s' by (auto simp: onTrack_def setPhase_def emptySlots_def alone_def
          intro!: exI [of _ "ps_exec s0"] exI [of _ "ps_world s0"])
    moreover have "onTrack cd fo s0 s' j" if "j \<noteq> i"
      by (rule onTrack_other [of cd fo s0 s]) (use on j that in \<open>auto simp: s' setPhase_def\<close>)
    ultimately show ?thesis by blast
  next
    case (Running t)
    then have s': "s' = advanceBranch cd fo i t s" using b i by (simp add: branchStep_def)
    have "onTrack cd fo s0 s i" using on i by simp
    with Running obtain d where d: "bview fo i d (ps_exec s)" by (auto simp: onTrack_def)
    show ?thesis
    proof (cases "j = i")
      case True
      with advance_self [OF _ Running i sh] on i s' show ?thesis by simp
    next
      case False
      then have "fo_contexts fo ! i \<noteq> fo_contexts fo ! j"
        using sh i j by (simp add: shape_def nth_eq_iff_index_eq)
      with advance_others [OF False _ _ d] on j s' show ?thesis by simp
    qed
  next
    case Finished
    with b i show ?thesis by (simp add: branchStep_def)
  qed
qed

lemma onTrack_reach:
  assumes "(pstep cd fo)\<^sup>*\<^sup>* s0 s" and "shape fo s0" and "\<forall>j < length (ps_phase s0). onTrack cd fo s0 s0 j"
    and "\<not> (limited fo \<and> failFast fo)" and "\<forall>t \<in> set (fo_branches fo). wfSteady t"
  shows "shape fo s \<and> length (ps_phase s) = length (ps_phase s0) \<and>
    (\<forall>j < length (ps_phase s). onTrack cd fo s0 s j)"
  using assms(1)
proof (induction rule: rtranclp_induct)
  case base
  show ?case using assms by simp
next
  case (step s1 s2)
  then show ?case
    using shape_step [OF step(2)] length_phase [OF step(2)] onTrack_step [OF step(2) _ _ assms(4,5)] by simp
qed

section \<open>Start and finish\<close>

text \<open>What a scope promises of the branches it forks.\<close>

locale fork_scope = step_scope sc for sc :: step_context +
  assumes fork: "\<exists>p l. sc_createBranchContext sc name i c = newBranch p l c"
begin

lemma createContexts_eq:
  "\<exists>brs. length brs = n \<and> createContexts sc name k n c =
     ([length (ec_branches c)..<length (ec_branches c) + n], c \<lparr> ec_branches := ec_branches c @ brs \<rparr>)"
proof (induction n arbitrary: k c)
  case 0
  show ?case by simp
next
  case (Suc n)
  obtain p l where f: "sc_createBranchContext sc name k c = newBranch p l c" using fork by blast
  let ?c1 = "snd (newBranch p l c)"
  obtain brs where r: "length brs = n" "createContexts sc name (k + 1) n ?c1 =
      ([length (ec_branches ?c1)..<length (ec_branches ?c1) + n], ?c1 \<lparr> ec_branches := ec_branches ?c1 @ brs \<rparr>)"
    using Suc.IH by blast
  have "createContexts sc name k (Suc n) c =
      ([length (ec_branches c)..<length (ec_branches c) + Suc n],
       c \<lparr> ec_branches := ec_branches c @ (last (ec_branches ?c1) # brs) \<rparr>)"
    using r f by (simp add: newBranch_def upt_conv_Cons)
  with r(1) show ?case by (intro exI [of _ "last (ec_branches ?c1) # brs"]) simp
qed

end

interpretation rootFork: fork_scope rootContext
  by unfold_locales (auto simp: rootContext_def createBranchContext_def)

interpretation branchFork: fork_scope "branchContext b" for b
  by unfold_locales (auto simp: branchContext_def branch_createBranchContext_def Let_def)

text \<open>What a fan-out returns when its branches end as \<open>outs\<close>, in index order.\<close>

definition yieldOf :: "gval outcome \<Rightarrow> yield_info option" where
  "yieldOf r = (case r of Yield y \<Rightarrow> Some y | _ \<Rightarrow> None)"

definition errOf :: "gval outcome \<Rightarrow> goerr option" where
  "errOf r = (case r of Ret _ e \<Rightarrow> e | _ \<Rightarrow> None)"

definition valOf :: "gval outcome \<Rightarrow> gval" where
  "valOf r = (case r of Ret v None \<Rightarrow> v | _ \<Rightarrow> GNil)"

definition parallelSpec :: "string \<Rightarrow> gval outcome list \<Rightarrow> gval list outcome" where
  "parallelSpec onError outs =
     (case first_some yieldOf outs of
        Some y \<Rightarrow> Yield y
      | None \<Rightarrow>
          (case (if onError \<noteq> ''allSettled'' then first_some errOf outs else None) of
             Some e \<Rightarrow> Ret [] (Some e)
           | None \<Rightarrow> Ret (map valOf outs) None))"

lemma slots_errors: "slots s i r \<Longrightarrow> ps_errors s ! i = errOf r"
  by (auto simp: slots_def errOf_def split: outcome.splits option.splits)

lemma slots_results: "slots s i r \<Longrightarrow> ps_results s ! i = valOf r"
  by (auto simp: slots_def valOf_def split: outcome.splits option.splits)

lemma slots_yields: "slots s i r \<Longrightarrow> rel_option (\<lambda>z y. yi_StepID z = yi_StepID y \<and> yi_Type z = yi_Type y) (ps_yields s ! i) (yieldOf r)"
  by (auto simp: slots_def yieldOf_def split: outcome.splits option.splits)

lemma first_some_rel:
  "list_all2 (\<lambda>x y. rel_option R (f x) (g y)) xs ys \<Longrightarrow> rel_option R (first_some f xs) (first_some g ys)"
proof (induction rule: list_all2_induct)
  case (Cons x xs y ys)
  then show ?case by (cases "f x"; cases "g y") auto
qed simp

lemma parallelFinish_spec:
  assumes "shape fo s" and "length outs = length (ps_phase s)"
    and "\<forall>i < length outs. slots s i (outs ! i)"
  shows "sameOutcome (fst (parallelFinish fo name depth before s)) (parallelSpec (po_OnError (fo_options fo)) outs)"
proof -
  have len: "length (ps_errors s) = length outs" "length (ps_results s) = length outs"
    "length (ps_yields s) = length outs" using assms(1,2) by (simp_all add: shape_def)
  have e: "ps_errors s = map errOf outs" and r: "ps_results s = map valOf outs"
    using assms(3) len by (auto intro!: nth_equalityI simp: slots_errors slots_results)
  have fe: "first_some id (ps_errors s) = first_some errOf outs"
    unfolding e by (induction outs) (auto split: option.splits)
  have y: "rel_option (\<lambda>z y. yi_StepID z = yi_StepID y \<and> yi_Type z = yi_Type y)
      (first_some id (ps_yields s)) (first_some yieldOf outs)"
    by (rule first_some_rel) (use assms(3) len in \<open>auto simp: list_all2_conv_all_nth slots_yields\<close>)
  then show ?thesis
    by (cases "first_some id (ps_yields s)"; cases "first_some yieldOf outs")
       (auto simp: parallelFinish_def parallelSpec_def Let_def fe r case_prod_unfold split: option.splits)
qed

context fork_scope
begin

lemma parallelStart_state:
  assumes "parallelStart root sc name branches opts c w = Inr (fo, s0)"
  shows "fo_root fo = root" "fo_options fo = resolveOptions opts" "fo_branches fo = branches"
    and "shape fo s0" and "ps_phase s0 = replicate (length branches) Queued"
    and "\<forall>i < length branches. emptySlots s0 i"
    and "\<forall>b \<in> set (fo_contexts fo). branchLive b (ps_exec s0)"
    and "ec_completedSteps (ps_exec s0) = ec_completedSteps c"
    and "ec_testInterceptor (ps_exec s0) = ec_testInterceptor c" "ec_hasCtx (ps_exec s0) = ec_hasCtx c"
proof -
  let ?n = "length branches"
  let ?c1 = "(sc_markScopedUsed sc c) \<lparr> ec_fanOutDepth := ec_fanOutDepth (sc_markScopedUsed sc c) + 1 \<rparr>"
  obtain brs where k: "length brs = ?n" "createContexts sc name 0 ?n ?c1 =
      ([length (ec_branches ?c1)..<length (ec_branches ?c1) + ?n], ?c1 \<lparr> ec_branches := ec_branches ?c1 @ brs \<rparr>)"
    using createContexts_eq by blast
  have fo: "fo = \<lparr> fo_root = root, fo_options = resolveOptions opts, fo_branches = branches,
      fo_contexts = [length (ec_branches ?c1)..<length (ec_branches ?c1) + ?n] \<rparr>"
    and s0: "s0 = \<lparr> ps_phase = replicate ?n Queued, ps_cancelled = False, ps_results = replicate ?n GNil,
      ps_errors = replicate ?n None, ps_yields = replicate ?n None,
      ps_exec = ?c1 \<lparr> ec_branches := ec_branches ?c1 @ brs \<rparr>, ps_world = w \<rparr>"
    using assms unfolding parallelStart_def Let_def k(2) by (auto split: option.splits if_splits)
  show "fo_root fo = root" "fo_options fo = resolveOptions opts" "fo_branches fo = branches"
    "shape fo s0" "ps_phase s0 = replicate ?n Queued" "\<forall>i < ?n. emptySlots s0 i"
    "\<forall>b \<in> set (fo_contexts fo). branchLive b (ps_exec s0)"
    "ec_completedSteps (ps_exec s0) = ec_completedSteps c"
    "ec_testInterceptor (ps_exec s0) = ec_testInterceptor c" "ec_hasCtx (ps_exec s0) = ec_hasCtx c"
    using k(1) by (simp_all add: fo s0 shape_def emptySlots_def branchLive_def mark_fields)
qed

lemma schedule_independent:
  assumes start: "parallelStart root sc name branches opts c w = Inr (fo, s0)"
    and "ec_testInterceptor c = None" "\<not> ec_hasCtx c"
    and "\<forall>b \<in> set (fo_contexts fo). noLegacyRows (branchView b (ps_exec s0)) (ec_completedSteps c)"
    and "\<forall>t \<in> set branches. wfSteady t" and "\<not> (limited fo \<and> failFast fo)"
    and "(pstep cd fo)\<^sup>*\<^sup>* s0 s" and "settledAll s"
  shows "sameOutcome (fst (parallelFinish fo name depth before s))
    (parallelSpec (po_OnError (fo_options fo)) (map (alone cd fo s0) [0..<length branches]))"
proof -
  note st = parallelStart_state [OF start]
  have "onTrack cd fo s0 s0 j" if "j < length (ps_phase s0)" for j
  proof -
    have "fo_contexts fo ! j \<in> set (fo_contexts fo)" using that st(4) by (simp add: shape_def)
    then have "bview fo j (ps_exec s0) (ps_exec s0)"
      using st(7-10) assms(2-4) by (simp add: agrees_def steady_def)
    with that st(5,6) show ?thesis by (simp add: onTrack_def)
  qed
  then have tr: "shape fo s" "length (ps_phase s) = length branches"
      "\<forall>j < length (ps_phase s). onTrack cd fo s0 s j"
    using onTrack_reach [OF assms(7) st(4) _ assms(6)] assms(5) st(3,5) by simp_all
  then have "\<forall>i < length branches. slots s i (alone cd fo s0 i)"
    using assms(8) by (auto simp: onTrack_def settledAll_def list_all_length)
  then show ?thesis using parallelFinish_spec [OF tr(1), of "map (alone cd fo s0) [0..<length branches]"] tr(2)
    by simp
qed

end

section \<open>Properties\<close>


definition demoBranches :: "wf list" where
  "demoBranches = [WReturn (GJson (JStr ''a'')) None, WCall (OSleep ''nap'' 5) (\<lambda>_. WReturn GNil None)]"

definition demoFan :: "fan_out \<times> par_state" where
  "demoFan = (case parallelStart True rootContext ''fan'' demoBranches [] (newExecutionContext ''r'' ''f'' 0 [] None)
     demoWorld of Inr x \<Rightarrow> x)"

lemma demoFan_start:
  "parallelStart True rootContext ''fan'' demoBranches [] (newExecutionContext ''r'' ''f'' 0 [] None) demoWorld
     = Inr (fst demoFan, snd demoFan)"
  by (simp add: demoFan_def parallelStart_def cancellationErr_def demoBranches_def Let_def case_prod_unfold)

lemma demoFan_options: "fo_options (fst demoFan) = \<lparr> po_Concurrency = 0, po_OnError = ''failFast'', po_SkipScopedClientCheck = False \<rparr>"
  using rootFork.parallelStart_state(2) [OF demoFan_start] by (simp add: resolveOptions_def)


text \<open>C16. A fan-out always completes: no schedule is infinite, and as long as a branch is not done
  some goroutine can move (the semaphore never deadlocks).\<close>

theorem fan_out_completes:
  "(\<nexists>f. \<forall>i. pstep cd fo (f i) (f (Suc i))) \<and> (settledAll s \<or> (\<exists>s'. pstep cd fo s s'))"
  using wf_pstep [of cd fo] pstep_progress [of s cd fo] by (auto simp: wf_iff_no_infinite_down_chain)

text \<open>C17. With a concurrency limit never more branches run at once than the limit allows.\<close>

theorem concurrency_respected:
  assumes "parallelStart root rootContext name branches opts c w = Inr (fo, s0)
      \<or> parallelStart root (branchContext b) name branches opts c w = Inr (fo, s0)"
    and "po_Concurrency (fo_options fo) > 0" and "(pstep cd fo)\<^sup>*\<^sup>* s0 s"
  shows "int (running s) \<le> po_Concurrency (fo_options fo)"
proof -
  have "ps_phase s0 = replicate (length branches) Queued"
    using assms(1) rootFork.parallelStart_state(5) branchFork.parallelStart_state(5) by metis
  then have "running s0 = 0" by (simp add: running_def isRunning_def)
  with assms(2) running_bound [OF assms(3)] show ?thesis by (simp add: limited_def)
qed

theorem concurrency_respected_witness:
  "\<exists>fo s0. parallelStart True rootContext ''fan'' demoBranches
       [\<lparr> po_Concurrency = 1, po_OnError = [], po_SkipScopedClientCheck = False \<rparr>]
       (newExecutionContext ''r'' ''f'' 0 [] None) demoWorld = Inr (fo, s0) \<and>
     (\<forall>s. (pstep demoCodec fo)\<^sup>*\<^sup>* s0 s \<longrightarrow> running s \<le> 1)"
proof -
  obtain fo s0 where f: "parallelStart True rootContext ''fan'' demoBranches
       [\<lparr> po_Concurrency = 1, po_OnError = [], po_SkipScopedClientCheck = False \<rparr>]
       (newExecutionContext ''r'' ''f'' 0 [] None) demoWorld = Inr (fo, s0)"
    by (simp add: parallelStart_def cancellationErr_def demoBranches_def Let_def case_prod_unfold)
  then have o: "po_Concurrency (fo_options fo) = 1"
    using rootFork.parallelStart_state(2) [OF f] by (simp add: resolveOptions_def)
  from f concurrency_respected [OF disjI1 [OF f]] show ?thesis by (fastforce simp: o)
qed

text \<open>The unscoped-branch warning is logged at most once per fan-out name and run.\<close>

theorem unscoped_warning_once:
  assumes "warnUnscopedBranches name contexts errs options enclosing c = (Some wn, c1)"
    and "set (ec_warnedUnscoped c1) \<subseteq> set (ec_warnedUnscoped d)"
  shows "fst (warnUnscopedBranches name contexts' errs' options' enclosing' d) = None"
proof -
  have "name \<in> set (ec_warnedUnscoped c1)"
    using assms(1) by (auto simp: warnUnscopedBranches_def shouldWarnUnscoped_def Let_def split: if_splits)
  with assms(2) have "name \<in> set (ec_warnedUnscoped d)" by blast
  then show ?thesis by (simp add: warnUnscopedBranches_def shouldWarnUnscoped_def Let_def)
qed

theorem unscoped_warning_once_witness:
  "(let c = newExecutionContext ''r'' ''f'' 0 [] None;
        opt = \<lparr> po_Concurrency = 0, po_OnError = ''failFast'', po_SkipScopedClientCheck = False \<rparr>;
        c1 = snd (warnUnscopedBranches ''fan'' [] [] opt 1 c)
    in fst (warnUnscopedBranches ''fan'' [] [] opt 1 c1) = None)"
  unfolding Let_def
  by (rule unscoped_warning_once [where wn = "EnclosingClaims ''fan'' 1" and contexts = "[]" and errs = "[]"
        and c = "newExecutionContext ''r'' ''f'' 0 [] None" and enclosing = 1
        and options = "\<lparr> po_Concurrency = 0, po_OnError = ''failFast'', po_SkipScopedClientCheck = False \<rparr>"])
     (auto simp: warnUnscopedBranches_def shouldWarnUnscoped_def newExecutionContext_def emptyExec_def)

end
