(* ===== verification/Command_Dedup.thy ===== *)
theory Command_Dedup
  imports Steps
begin

text \<open>
  Command deduplication (\<^verbatim>\<open>src/ironflow/command_dedup.go\<close>): claim, finalize and release of a command
  id over a key-value bucket. A method is a program of single key-value requests, so that any number of
  callers can be interleaved request by request. The bucket itself is a service: what it may answer is
  an argument, and \<open>kv_lawful\<close> states its documented behaviour - an atomic create-if-absent whose reply
  can be lost.
\<close>

section \<open>Key-value requests\<close>

datatype kv_op =
    KCreateBucket string "int option"
  | KCreate string string raw
  | KGet string string
  | KPut string string raw
  | KDelete string string

text \<open>The value of a \<open>Get\<close>, or the error; the other requests answer with an empty value.\<close>

type_synonym kv_answer = "goerr + raw"

datatype 'r kvprog = KDone 'r | KCall kv_op "kv_answer \<Rightarrow> 'r kvprog"

section \<open>\<open>CommandDedup\<close>\<close>

definition claimAttempts :: nat where
  "claimAttempts = 3"

definition isHTTPStatus :: "goerr \<Rightarrow> int \<Rightarrow> bool" where
  "isHTTPStatus err status =
     (case asIronflow err of
        Some e \<Rightarrow> map_of (ie_Details e) ''http_status'' = Some (DInt status)
      | None \<Rightarrow> False)"

record command_dedup =
  dd_bucketName :: string
  dd_ttl :: int
  dd_initErr :: "goerr option"

text \<open>\<open>NewCommandDedup\<close> runs the \<open>sync.Once\<close> of \<open>ensureBucket\<close>; on an instance it returned
  \<open>ensureBucket\<close> only reads \<open>initErr\<close>.\<close>

definition NewCommandDedup :: "string \<Rightarrow> int \<Rightarrow> (goerr + command_dedup) kvprog" where
  "NewCommandDedup bucketName ttl =
     KCall (KCreateBucket bucketName (if ttl > 0 then Some ttl else None)) (\<lambda>a.
       KDone (case a of
         Inl err \<Rightarrow>
           if \<not> isHTTPStatus err 409 then Inl err
           else Inr \<lparr> dd_bucketName = bucketName, dd_ttl = ttl, dd_initErr = None \<rparr>
       | Inr _ \<Rightarrow> Inr \<lparr> dd_bucketName = bucketName, dd_ttl = ttl, dd_initErr = None \<rparr>))"

definition ensureBucket :: "command_dedup \<Rightarrow> goerr option" where
  "ensureBucket d = dd_initErr d"

text \<open>\<open>json.Unmarshal\<close> of an entry's bytes.\<close>

definition decodeEntry :: "gotype \<Rightarrow> raw \<Rightarrow> string + gval" where
  "decodeEntry T value =
     (case value of
        RawNone \<Rightarrow> Inl ''unexpected end of JSON input'' | RawBad m \<Rightarrow> Inl m | Raw j \<Rightarrow> gt_decode T j)"

definition dedupRace :: "string \<Rightarrow> goerr" where
  "dedupRace commandId = EIron (newError
     (''command dedup: claim for '' @ quoted commandId @ '' lost the race '' @ itoa claimAttempts @ '' times'')
     ''COMMAND_DEDUP_RACE'' False)"

text \<open>The loop of \<open>TryClaim\<close>; the result is the prior entry, if any.\<close>

primrec claimLoop ::
  "nat \<Rightarrow> command_dedup \<Rightarrow> gotype \<Rightarrow> (gval \<Rightarrow> bool) option \<Rightarrow> string \<Rightarrow> json \<Rightarrow> (goerr + gval option) kvprog" where
  "claimLoop 0 d T isOwner commandId b = KDone (Inl (dedupRace commandId))"
| "claimLoop (Suc n) d T isOwner commandId b =
     KCall (KCreate (dd_bucketName d) commandId (Raw b)) (\<lambda>a.
       case a of
         Inr _ \<Rightarrow> KDone (Inr None)
       | Inl err \<Rightarrow>
           if \<not> isHTTPStatus err 412 then KDone (Inl err)
           else KCall (KGet (dd_bucketName d) commandId) (\<lambda>a.
             case a of
               Inl err \<Rightarrow>
                 if isHTTPStatus err 404 then claimLoop n d T isOwner commandId b
                 else KDone (Inl err)
             | Inr value \<Rightarrow>
                 (case decodeEntry T value of
                    Inl m \<Rightarrow> KDone (Inl (ENew m))
                  | Inr prior \<Rightarrow>
                      if (case isOwner of Some own \<Rightarrow> own prior | None \<Rightarrow> False) then KDone (Inr None)
                      else KDone (Inr (Some prior)))))"

definition TryClaim ::
  "command_dedup \<Rightarrow> gotype \<Rightarrow> string \<Rightarrow> gval \<Rightarrow> (gval \<Rightarrow> bool) option list \<Rightarrow> (goerr + gval option) kvprog" where
  "TryClaim d T commandId claim opts =
     (case ensureBucket d of
        Some err \<Rightarrow> KDone (Inl err)
      | None \<Rightarrow>
          (case marshal claim of
             Inl m \<Rightarrow> KDone (Inl (ENew m))
           | Inr b \<Rightarrow>
               claimLoop claimAttempts d T (case opts of [] \<Rightarrow> None | x # _ \<Rightarrow> x) commandId b))"

definition Finalize :: "command_dedup \<Rightarrow> string \<Rightarrow> gval \<Rightarrow> goerr option kvprog" where
  "Finalize d commandId result =
     (case ensureBucket d of
        Some err \<Rightarrow> KDone (Some err)
      | None \<Rightarrow>
          (case marshal result of
             Inl m \<Rightarrow> KDone (Some (ENew m))
           | Inr b \<Rightarrow>
               KCall (KPut (dd_bucketName d) commandId (Raw b)) (\<lambda>a.
                 KDone (case a of Inl err \<Rightarrow> Some err | Inr _ \<Rightarrow> None))))"

definition Release :: "command_dedup \<Rightarrow> string \<Rightarrow> goerr option kvprog" where
  "Release d commandId =
     (case ensureBucket d of
        Some err \<Rightarrow> KDone (Some err)
      | None \<Rightarrow>
          KCall (KDelete (dd_bucketName d) commandId) (\<lambda>a.
            KDone (case a of
              Inl err \<Rightarrow> if isHTTPStatus err 404 then None else Some err
            | Inr _ \<Rightarrow> None)))"

section \<open>The service\<close>

text \<open>
  What the server may do with a request in a state: the answer and the next state. \<open>look\<close> reads the
  entries. An error other than the one that states the outcome leaves it open whether the write
  happened. Entries do not expire here: the bucket's TTL is to outlive the command.
\<close>

type_synonym 'st kv_server = "kv_op \<Rightarrow> 'st \<Rightarrow> kv_answer \<times> 'st \<Rightarrow> bool"

definition lawful_answer :: "kv_op \<Rightarrow> (string \<times> string \<rightharpoonup> raw) \<Rightarrow> kv_answer \<Rightarrow> (string \<times> string \<rightharpoonup> raw) \<Rightarrow> bool" where
  "lawful_answer p m a m' =
     (case p of
        KCreateBucket _ _ \<Rightarrow> m' = m
      | KCreate b k v \<Rightarrow>
          (case a of
             Inr _ \<Rightarrow> m (b, k) = None \<and> m' = m((b, k) \<mapsto> v)
           | Inl e \<Rightarrow> if isHTTPStatus e 412 then m (b, k) \<noteq> None \<and> m' = m
                      else m' = m \<or> m (b, k) = None \<and> m' = m((b, k) \<mapsto> v))
      | KGet b k \<Rightarrow> m' = m \<and>
          (case a of
             Inr v \<Rightarrow> m (b, k) = Some v
           | Inl e \<Rightarrow> isHTTPStatus e 404 \<longrightarrow> m (b, k) = None)
      | KPut b k v \<Rightarrow>
          m' = m((b, k) \<mapsto> v) \<or> (case a of Inr _ \<Rightarrow> False | Inl _ \<Rightarrow> m' = m)
      | KDelete b k \<Rightarrow>
          m' = m((b, k) := None) \<or> (case a of Inr _ \<Rightarrow> False | Inl _ \<Rightarrow> m' = m))"

definition kv_lawful :: "('st \<Rightarrow> string \<times> string \<rightharpoonup> raw) \<Rightarrow> 'st kv_server \<Rightarrow> bool" where
  "kv_lawful look serve \<longleftrightarrow>
     (\<forall>p s a s'. serve p s (a, s') \<longrightarrow> lawful_answer p (look s) a (look s'))"

section \<open>Callers of one command\<close>

text \<open>
  A caller claims; with the claim won it runs its handler (\<open>Claiming (KDone (Inr None))\<close>) and then
  finalizes the result or releases the claim. Any number of callers run interleaved.
\<close>

datatype caller =
    Claiming "(goerr + gval option) kvprog"
  | Finalizing gval "goerr option kvprog"
  | Releasing "goerr option kvprog"

inductive dedup_step ::
  "'st kv_server \<Rightarrow> command_dedup \<Rightarrow> string \<Rightarrow> 'st \<times> (nat \<Rightarrow> caller) \<Rightarrow> 'st \<times> (nat \<Rightarrow> caller) \<Rightarrow> bool"
  for serve d commandId where
  claim: "cs i = Claiming (KCall p k) \<Longrightarrow> serve p s (a, s') \<Longrightarrow>
    dedup_step serve d commandId (s, cs) (s', cs(i := Claiming (k a)))"
| succeed: "cs i = Claiming (KDone (Inr None)) \<Longrightarrow>
    dedup_step serve d commandId (s, cs) (s, cs(i := Finalizing v (Finalize d commandId v)))"
| giveUp: "cs i = Claiming (KDone (Inr None)) \<Longrightarrow>
    dedup_step serve d commandId (s, cs) (s, cs(i := Releasing (Release d commandId)))"
| finalize: "cs i = Finalizing v (KCall p k) \<Longrightarrow> serve p s (a, s') \<Longrightarrow>
    dedup_step serve d commandId (s, cs) (s', cs(i := Finalizing v (k a)))"
| release: "cs i = Releasing (KCall p k) \<Longrightarrow> serve p s (a, s') \<Longrightarrow>
    dedup_step serve d commandId (s, cs) (s', cs(i := Releasing (k a)))"

text \<open>A caller that has the claim: it runs its handler or is about to finalize or release.\<close>

definition holds :: "caller \<Rightarrow> bool" where
  "holds c =
     (case c of
        Claiming p \<Rightarrow> (case p of KDone r \<Rightarrow> r = Inr None | _ \<Rightarrow> False)
      | Finalizing _ p \<Rightarrow> (case p of KDone _ \<Rightarrow> False | _ \<Rightarrow> True)
      | Releasing p \<Rightarrow> (case p of KDone _ \<Rightarrow> False | _ \<Rightarrow> True))"

section \<open>Mutual exclusion\<close>

text \<open>The claim is won only by a successful create of the command's key.\<close>

primrec claimShape :: "string \<times> string \<Rightarrow> (goerr + gval option) kvprog \<Rightarrow> bool" where
  "claimShape key (KDone r) = (r \<noteq> Inr None)"
| "claimShape key (KCall p k) =
     (case p of
        KCreate b n _ \<Rightarrow> (b, n) = key \<and> (\<forall>v. k (Inr v) = KDone (Inr None)) \<and> (\<forall>e. claimShape key (k (Inl e)))
      | KGet _ _ \<Rightarrow> (\<forall>a. claimShape key (k a))
      | _ \<Rightarrow> False)"

lemma claimLoop_shape: "claimShape (dd_bucketName d, i) (claimLoop n d T None i b)"
  by (induction n) (auto split: sum.splits)

lemma TryClaim_shape: "claimShape (dd_bucketName d, i) (TryClaim d T i claim [])"
  by (auto simp: TryClaim_def claimLoop_shape split: option.splits sum.splits)

definition caller_ok :: "command_dedup \<Rightarrow> string \<Rightarrow> caller \<Rightarrow> bool" where
  "caller_ok d i c =
     (case c of
        Claiming p \<Rightarrow> p = KDone (Inr None) \<or> claimShape (dd_bucketName d, i) p
      | Finalizing v p \<Rightarrow> p = Finalize d i v \<or> (\<exists>r. p = KDone r)
      | Releasing p \<Rightarrow> p = Release d i \<or> (\<exists>r. p = KDone r))"

definition stored :: "gval \<Rightarrow> raw option \<Rightarrow> bool" where
  "stored v e \<longleftrightarrow> (\<exists>b. marshal v = Inr b \<and> e = Some (Raw b))"

text \<open>At most one holder, whose entry exists; after a successful \<open>Finalize\<close> the entry is the result and
  nobody holds the claim.\<close>

definition dedup_inv :: "command_dedup \<Rightarrow> string \<Rightarrow> (string \<times> string \<rightharpoonup> raw) \<Rightarrow> (nat \<Rightarrow> caller) \<Rightarrow> bool" where
  "dedup_inv d i m cs \<longleftrightarrow>
     (\<forall>x. caller_ok d i (cs x)) \<and> (\<forall>x y. holds (cs x) \<and> holds (cs y) \<longrightarrow> x = y) \<and>
     (\<forall>x. holds (cs x) \<longrightarrow> m (dd_bucketName d, i) \<noteq> None) \<and>
     (\<forall>x v. cs x = Finalizing v (KDone None) \<longrightarrow> stored v (m (dd_bucketName d, i)) \<and> (\<forall>y. \<not> holds (cs y)))"

lemma holds_simps [simp]:
  "holds (Claiming (KDone r)) \<longleftrightarrow> r = Inr None" "\<not> holds (Claiming (KCall p k))"
  "\<not> holds (Finalizing v (KDone e))" "holds (Finalizing v (KCall p k'))"
  "\<not> holds (Releasing (KDone e))" "holds (Releasing (KCall p k'))"
  by (simp_all add: holds_def)

text \<open>One caller moves from \<open>cs x\<close> to \<open>c\<close> while the entries change from \<open>m\<close> to \<open>m'\<close>.\<close>

lemma dedup_inv_move:
  assumes "dedup_inv d i m cs" and "key = (dd_bucketName d, i)" and "caller_ok d i c"
    and "holds c \<Longrightarrow> holds (cs x) \<and> m' key = m key \<or> m key = None \<and> m' key \<noteq> None"
    and "\<not> holds (cs x) \<Longrightarrow> m key \<noteq> None \<Longrightarrow> m' key = m key"
    and "\<And>v. c = Finalizing v (KDone None) \<Longrightarrow> holds (cs x) \<and> stored v (m' key)"
  shows "dedup_inv d i m' (cs(x := c))"
proof -
  have ok: "\<And>y. caller_ok d i (cs y)" and one: "\<And>y z. holds (cs y) \<Longrightarrow> holds (cs z) \<Longrightarrow> y = z"
    and entry: "\<And>y. holds (cs y) \<Longrightarrow> m key \<noteq> None"
    and fin: "\<And>y v. cs y = Finalizing v (KDone None) \<Longrightarrow> stored v (m key) \<and> (\<forall>z. \<not> holds (cs z))"
    using assms(1,2) unfolding dedup_inv_def by blast+
  have alone: "\<not> holds (cs y)" if "holds c" "y \<noteq> x" for y
    using assms(4) [OF that(1)] one [of y x] entry [of y] that(2) by blast
  have kept: "m' key \<noteq> None" if "holds ((cs(x := c)) y)" for y
  proof (cases "y = x")
    case True
    with that have "holds c" by simp
    from assms(4) [OF this] show ?thesis
    proof
      assume h: "holds (cs x) \<and> m' key = m key"
      then show ?thesis using entry [of x] by simp
    qed blast
  next
    case False
    with that have h: "holds (cs y)" by simp
    then have "\<not> holds (cs x)" using one [of y x] False by blast
    with entry [OF h] assms(5) show ?thesis by simp
  qed
  have final: "stored v (m' key) \<and> (\<forall>z. \<not> holds ((cs(x := c)) z))"
    if e: "(cs(x := c)) y = Finalizing v (KDone None)" for y v
  proof (cases "y = x")
    case True
    with e have c: "c = Finalizing v (KDone None)" by simp
    with assms(6) have "holds (cs x)" "stored v (m' key)" by blast+
    moreover have "\<not> holds ((cs(x := c)) z)" for z
      using one [of z x] \<open>holds (cs x)\<close> c by (cases "z = x") auto
    ultimately show ?thesis by blast
  next
    case False
    with e fin [of y v] have f: "stored v (m key)" "\<And>z. \<not> holds (cs z)" by auto
    then have "m key \<noteq> None" by (auto simp: stored_def)
    with f assms(5) have "m' key = m key" by blast
    moreover have "\<not> holds c" using assms(4) f(2) \<open>m key \<noteq> None\<close> by blast
    ultimately show ?thesis using f by simp
  qed
  show ?thesis
    unfolding dedup_inv_def assms(2) [symmetric]
  proof (intro conjI allI impI)
    show "caller_ok d i ((cs(x := c)) y)" for y using ok assms(3) by simp
    show "y = z" if "holds ((cs(x := c)) y) \<and> holds ((cs(x := c)) z)" for y z
      using that alone [of y] alone [of z] one [of y z] by (cases "y = x"; cases "z = x") auto
  qed (use kept final in blast)+
qed

lemma claim_answer:
  assumes "claimShape key (KCall p k)" and "lawful_answer p m a m'"
  shows "k a = KDone (Inr None) \<and> m key = None \<and> m' key \<noteq> None \<or>
    claimShape key (k a) \<and> (m key \<noteq> None \<longrightarrow> m' key = m key)"
  using assms by (cases p; cases a) (auto simp: lawful_answer_def split: if_splits)

lemma claimShape_not_winner: "claimShape key p \<Longrightarrow> p \<noteq> KDone (Inr None)"
  by auto

lemma claimShape_not_holds: "claimShape key p \<Longrightarrow> \<not> holds (Claiming p)"
  by (cases p) auto

lemma Finalize_answer:
  assumes "Finalize d i v = KCall p k" and "lawful_answer p m a m'"
  shows "\<exists>r. k a = KDone r" "k a = KDone None \<Longrightarrow> stored v (m' (dd_bucketName d, i))"
  using assms
  by (auto simp: Finalize_def stored_def lawful_answer_def split: option.splits sum.splits)

lemma Release_answer:
  assumes "Release d i = KCall p k"
  shows "\<exists>r. k a = KDone r"
  using assms by (auto simp: Release_def split: option.splits)

lemma finalize_start:
  "holds (Finalizing v (Finalize d i v)) \<or> (\<exists>e. Finalize d i v = KDone (Some e))"
  by (auto simp: Finalize_def split: option.splits sum.splits)

lemma dedup_inv_ok: "dedup_inv d i m cs \<Longrightarrow> cs n = c \<Longrightarrow> caller_ok d i c"
  by (auto simp: dedup_inv_def)

lemma dedup_step_inv:
  assumes "kv_lawful look serve" and "dedup_step serve d i x y" and "dedup_inv d i (look (fst x)) (snd x)"
  shows "dedup_inv d i (look (fst y)) (snd y)"
  using assms(2,3)
proof (cases rule: dedup_step.cases)
  case (claim cs n p k s a s')
  then have l: "lawful_answer p (look s) a (look s')" using assms(1) unfolding kv_lawful_def by blast
  have "claimShape (dd_bucketName d, i) (KCall p k)"
    using dedup_inv_ok [of d i "look s" cs n] claim assms(3) by (fastforce simp: caller_ok_def)
  from claim_answer [OF this l] claim assms(3) show ?thesis
    by (auto intro!: dedup_inv_move [OF _ refl] simp: caller_ok_def dest: claimShape_not_holds)
next
  case (succeed cs n s v)
  have "Finalize d i v \<noteq> KDone None" by (auto simp: Finalize_def split: option.splits sum.splits)
  with succeed assms(3) show ?thesis
    by (auto intro!: dedup_inv_move [OF _ refl] simp: caller_ok_def)
next
  case (giveUp cs n s)
  with assms(3) show ?thesis
    by (auto intro!: dedup_inv_move [OF _ refl] simp: caller_ok_def)
next
  case (finalize cs n v p k s a s')
  then have l: "lawful_answer p (look s) a (look s')" using assms(1) unfolding kv_lawful_def by blast
  have "Finalize d i v = KCall p k"
    using dedup_inv_ok [of d i "look s" cs n] finalize assms(3) by (fastforce simp: caller_ok_def)
  from Finalize_answer [OF this l] finalize assms(3) show ?thesis
    by (auto intro!: dedup_inv_move [OF _ refl] simp: caller_ok_def)
next
  case (release cs n p k s a s')
  have "Release d i = KCall p k"
    using dedup_inv_ok [of d i "look s" cs n] release assms(3) by (fastforce simp: caller_ok_def)
  from Release_answer [OF this, of a] release assms(3) show ?thesis
    by (auto intro!: dedup_inv_move [OF _ refl] simp: caller_ok_def)
qed

lemma dedup_reachable_inv:
  assumes "kv_lawful look serve" and "(dedup_step serve d i)\<^sup>*\<^sup>* x y" and "dedup_inv d i (look (fst x)) (snd x)"
  shows "dedup_inv d i (look (fst y)) (snd y)"
  using assms(2,3) by (induction rule: rtranclp_induct) (auto intro: dedup_step_inv [OF assms(1)])

definition fresh_callers :: "command_dedup \<Rightarrow> gotype \<Rightarrow> string \<Rightarrow> (nat \<Rightarrow> gval) \<Rightarrow> nat \<Rightarrow> caller" where
  "fresh_callers d T i claims x = Claiming (TryClaim d T i (claims x) [])"

lemma fresh_inv: "dedup_inv d i m (fresh_callers d T i claims)"
proof -
  have "TryClaim d T i v [] \<noteq> KDone (Inr None)" for v
    using claimShape_not_winner [OF TryClaim_shape] .
  then have "\<not> holds (fresh_callers d T i claims x)" for x
    by (auto simp: fresh_callers_def holds_def split: kvprog.splits)
  then show ?thesis by (simp add: dedup_inv_def caller_ok_def fresh_callers_def TryClaim_shape)
qed

text \<open>While the entry stays \<open>e\<close>, a claim answers nothing but what \<open>e\<close> decodes to, or an error.\<close>

primrec claimSees :: "gotype \<Rightarrow> string \<times> string \<Rightarrow> raw \<Rightarrow> (goerr + gval option) kvprog \<Rightarrow> bool" where
  "claimSees T key e (KDone r) = (case r of Inl _ \<Rightarrow> True | Inr None \<Rightarrow> False | Inr (Some x) \<Rightarrow> decodeEntry T e = Inr x)"
| "claimSees T key e (KCall p k) =
     (case p of
        KCreate b n _ \<Rightarrow> (b, n) = key \<and> (\<forall>err. claimSees T key e (k (Inl err)))
      | KGet b n \<Rightarrow> (b, n) = key \<and> claimSees T key e (k (Inr e)) \<and> (\<forall>err. claimSees T key e (k (Inl err)))
      | _ \<Rightarrow> False)"

lemma claimLoop_sees: "claimSees T (dd_bucketName d, i) e (claimLoop n d T None i b)"
  by (induction n) (auto split: sum.splits)

lemma TryClaim_sees: "claimSees T (dd_bucketName d, i) e (TryClaim d T i claim [])"
  by (auto simp: TryClaim_def claimLoop_sees split: option.splits sum.splits)

lemma claim_answer_sees:
  assumes "claimSees T key e (KCall p k)" and "lawful_answer p m a m'" and "m key = Some e"
  shows "claimSees T key e (k a)"
  using assms by (cases p; cases a) (auto simp: lawful_answer_def)

lemma stored_entry: "stored v e \<Longrightarrow> stored v e' \<Longrightarrow> e = e'"
  by (auto simp: stored_def)

text \<open>After a successful \<open>Finalize\<close>: it stays, the entry stays, and a caller that had not started sees it.\<close>

lemma dedup_step_final:
  assumes "kv_lawful look serve" and "dedup_step serve d i x y" and "dedup_inv d i (look (fst x)) (snd x)"
    and "snd x n = Finalizing v (KDone None)"
    and "snd x j = Claiming p" "claimSees T (dd_bucketName d, i) e p" and "look (fst x) (dd_bucketName d, i) = Some e"
  shows "snd y n = Finalizing v (KDone None) \<and> (\<exists>q. snd y j = Claiming q \<and> claimSees T (dd_bucketName d, i) e q)"
proof -
  have "\<not> holds (snd x z)" for z using assms(3,4) unfolding dedup_inv_def by blast
  then have h: "\<not> holds (snd x z)" for z by blast
  show ?thesis
    using assms(2)
  proof (cases rule: dedup_step.cases)
    case (claim cs z q k s a s')
    then have l: "lawful_answer q (look s) a (look s')" using assms(1) unfolding kv_lawful_def by blast
    show ?thesis
    proof (cases "z = j")
      case True
      with claim assms(5,6) have "claimSees T (dd_bucketName d, i) e (KCall q k)" by simp
      from claim_answer_sees [OF this l] assms(7) claim True show ?thesis using assms(4) by auto
    next
      case False
      with claim assms(4-6) show ?thesis by auto
    qed
  next
    case (succeed cs z s u)
    with h [of z] show ?thesis by simp
  next
    case (giveUp cs z s)
    with h [of z] show ?thesis by simp
  next
    case (finalize cs z u q k s a s')
    with h [of z] show ?thesis by simp
  next
    case (release cs z q k s a s')
    with h [of z] show ?thesis by simp
  qed
qed

lemma dedup_steps_final:
  assumes "kv_lawful look serve" and "(dedup_step serve d i)\<^sup>*\<^sup>* x y" and "dedup_inv d i (look (fst x)) (snd x)"
    and "snd x n = Finalizing v (KDone None)"
    and "snd x j = Claiming p" "claimSees T (dd_bucketName d, i) e p" and "stored v (Some e)"
  shows "snd y n = Finalizing v (KDone None) \<and> (\<exists>q. snd y j = Claiming q \<and> claimSees T (dd_bucketName d, i) e q)"
  using assms(2)
proof (induction rule: rtranclp_induct)
  case base
  with assms show ?case by blast
next
  case (step y z)
  note inv = dedup_reachable_inv [OF assms(1) step.hyps(1) assms(3)]
  have "stored v (look (fst y) (dd_bucketName d, i))"
    using inv step.IH unfolding dedup_inv_def by blast
  with assms(7) have "look (fst y) (dd_bucketName d, i) = Some e" by (metis stored_entry)
  with dedup_step_final [OF assms(1) step.hyps(2) inv] step.IH show ?case by blast
qed

section \<open>One caller on a faultless service\<close>

primrec runKV :: "(kv_op \<Rightarrow> 'st \<Rightarrow> kv_answer \<times> 'st) \<Rightarrow> 'r kvprog \<Rightarrow> 'st \<Rightarrow> 'r \<times> 'st" where
  "runKV f (KDone r) s = (r, s)"
| "runKV f (KCall p k) s = (let (a, s') = f p s in runKV f (k a) s')"

text \<open>Every request is answered, and refused only as the state of the bucket says.\<close>

definition faultless :: "('st \<Rightarrow> string \<times> string \<rightharpoonup> raw) \<Rightarrow> (kv_op \<Rightarrow> 'st \<Rightarrow> kv_answer \<times> 'st) \<Rightarrow> bool" where
  "faultless look f \<longleftrightarrow> kv_lawful look (\<lambda>p s r. r = f p s) \<and>
     (\<forall>s b k v. case fst (f (KCreate b k v) s) of Inl e \<Rightarrow> isHTTPStatus e 412 | Inr _ \<Rightarrow> True) \<and>
     (\<forall>s b k. case fst (f (KGet b k) s) of Inl e \<Rightarrow> isHTTPStatus e 404 | Inr _ \<Rightarrow> True) \<and>
     (\<forall>s b k v. case fst (f (KPut b k v) s) of Inl e \<Rightarrow> False | Inr _ \<Rightarrow> True)"

lemma faultless_create:
  assumes "faultless look f"
  shows "look s (b, k) = None \<Longrightarrow> \<exists>r s'. f (KCreate b k v) s = (Inr r, s') \<and> look s' = (look s)((b, k) \<mapsto> v)"
    and "look s (b, k) = Some x \<Longrightarrow> \<exists>e s'. f (KCreate b k v) s = (Inl e, s') \<and> isHTTPStatus e 412 \<and> look s' = look s"
proof -
  have l: "lawful_answer (KCreate b k v) (look s) (fst (f (KCreate b k v) s)) (look (snd (f (KCreate b k v) s)))"
    and c: "case fst (f (KCreate b k v) s) of Inl e \<Rightarrow> isHTTPStatus e 412 | Inr _ \<Rightarrow> True"
    using assms by (auto simp: faultless_def kv_lawful_def)
  show "\<exists>r s'. f (KCreate b k v) s = (Inr r, s') \<and> look s' = (look s)((b, k) \<mapsto> v)" if "look s (b, k) = None"
    using l c that by (cases "f (KCreate b k v) s") (auto simp: lawful_answer_def split: sum.splits)
  show "\<exists>e s'. f (KCreate b k v) s = (Inl e, s') \<and> isHTTPStatus e 412 \<and> look s' = look s" if "look s (b, k) = Some x"
    using l c that by (cases "f (KCreate b k v) s") (auto simp: lawful_answer_def split: sum.splits)
qed

lemma faultless_get:
  assumes "faultless look f" and "look s (b, k) = Some x"
  shows "\<exists>s'. f (KGet b k) s = (Inr x, s') \<and> look s' = look s"
proof -
  have l: "lawful_answer (KGet b k) (look s) (fst (f (KGet b k) s)) (look (snd (f (KGet b k) s)))"
    and c: "case fst (f (KGet b k) s) of Inl e \<Rightarrow> isHTTPStatus e 404 | Inr _ \<Rightarrow> True"
    using assms(1) by (auto simp: faultless_def kv_lawful_def)
  with assms(2) show ?thesis by (cases "f (KGet b k) s") (auto simp: lawful_answer_def split: sum.splits)
qed

lemma faultless_put:
  assumes "faultless look f"
  shows "\<exists>r s'. f (KPut b k v) s = (Inr r, s') \<and> look s' = (look s)((b, k) \<mapsto> v)"
proof -
  have l: "lawful_answer (KPut b k v) (look s) (fst (f (KPut b k v) s)) (look (snd (f (KPut b k v) s)))"
    and c: "case fst (f (KPut b k v) s) of Inl e \<Rightarrow> False | Inr _ \<Rightarrow> True"
    using assms(1) by (auto simp: faultless_def kv_lawful_def)
  then show ?thesis by (cases "f (KPut b k v) s") (auto simp: lawful_answer_def split: sum.splits)
qed

lemma TryClaim_free:
  assumes "faultless look f" and "dd_initErr d = None" and "marshal claim = Inr b"
    and "look s (dd_bucketName d, i) = None"
  shows "\<exists>s'. runKV f (TryClaim d T i claim opts) s = (Inr None, s') \<and> look s' = (look s)((dd_bucketName d, i) \<mapsto> Raw b)"
  using faultless_create(1) [OF assms(1,4), of "Raw b"] assms(2,3)
  by (auto simp: TryClaim_def ensureBucket_def claimAttempts_def numeral_3_eq_3)

lemma TryClaim_taken:
  assumes "faultless look f" and "dd_initErr d = None" and "marshal claim = Inr b"
    and "look s (dd_bucketName d, i) = Some e"
  shows "\<exists>s'. runKV f (TryClaim d T i claim []) s =
      (case decodeEntry T e of Inl m \<Rightarrow> Inl (ENew m) | Inr prior \<Rightarrow> Inr (Some prior), s') \<and> look s' = look s"
proof -
  obtain err s1 where 1: "f (KCreate (dd_bucketName d) i (Raw b)) s = (Inl err, s1)" "isHTTPStatus err 412" "look s1 = look s"
    using faultless_create(2) [OF assms(1,4), of "Raw b"] by blast
  obtain s2 where 2: "f (KGet (dd_bucketName d) i) s1 = (Inr e, s2)" "look s2 = look s1"
    using faultless_get [OF assms(1), of s1] 1(3) assms(4) by metis
  from 1 2 assms(2,3) show ?thesis
    by (auto simp: TryClaim_def ensureBucket_def claimAttempts_def numeral_3_eq_3 split: sum.splits)
qed

section \<open>Interleavings, executably\<close>

text \<open>What caller \<open>x\<close> does next: its next request, or the end of its handler.\<close>

datatype dedup_act = Request nat | Succeed nat gval | GiveUp nat

definition actStep ::
  "(kv_op \<Rightarrow> 'st \<Rightarrow> kv_answer \<times> 'st) \<Rightarrow> command_dedup \<Rightarrow> string \<Rightarrow> dedup_act \<Rightarrow> 'st \<times> (nat \<Rightarrow> caller)
   \<Rightarrow> ('st \<times> (nat \<Rightarrow> caller)) option" where
  "actStep f d i act st =
     (let (s, cs) = st in
      case act of
        Request x \<Rightarrow>
          (case cs x of
             Claiming (KCall p k) \<Rightarrow> (let (a, s') = f p s in Some (s', cs(x := Claiming (k a))))
           | Finalizing v (KCall p k) \<Rightarrow> (let (a, s') = f p s in Some (s', cs(x := Finalizing v (k a))))
           | Releasing (KCall p k) \<Rightarrow> (let (a, s') = f p s in Some (s', cs(x := Releasing (k a))))
           | _ \<Rightarrow> None)
      | Succeed x v \<Rightarrow>
          if holds (cs x) then
            (case cs x of Claiming _ \<Rightarrow> Some (s, cs(x := Finalizing v (Finalize d i v))) | _ \<Rightarrow> None)
          else None
      | GiveUp x \<Rightarrow>
          if holds (cs x) then
            (case cs x of Claiming _ \<Rightarrow> Some (s, cs(x := Releasing (Release d i))) | _ \<Rightarrow> None)
          else None)"

fun runActs ::
  "(kv_op \<Rightarrow> 'st \<Rightarrow> kv_answer \<times> 'st) \<Rightarrow> command_dedup \<Rightarrow> string \<Rightarrow> dedup_act list \<Rightarrow> 'st \<times> (nat \<Rightarrow> caller)
   \<Rightarrow> ('st \<times> (nat \<Rightarrow> caller)) option" where
  "runActs f d i [] st = Some st"
| "runActs f d i (a # acts) st =
     (case actStep f d i a st of None \<Rightarrow> None | Some st' \<Rightarrow> runActs f d i acts st')"

lemma holds_claiming: "holds (Claiming p) \<longleftrightarrow> p = KDone (Inr None)"
  by (cases p) auto

lemma actStep_sound:
  assumes "actStep f d i a x = Some y"
  shows "dedup_step (\<lambda>p s r. r = f p s) d i x y"
  using assms
  by (cases x; cases a)
     (auto simp: actStep_def holds_claiming intro: dedup_step.intros split: caller.splits kvprog.splits prod.splits if_splits)

lemma runActs_reaches: "runActs f d i acts x = Some y \<Longrightarrow> (dedup_step (\<lambda>p s r. r = f p s) d i)\<^sup>*\<^sup>* x y"
proof (induction acts arbitrary: x)
  case (Cons a acts)
  then obtain z where "actStep f d i a x = Some z" "runActs f d i acts z = Some y" by (auto split: option.splits)
  with Cons.IH actStep_sound show ?case by (metis converse_rtranclp_into_rtranclp)
qed simp

section \<open>Properties\<close>


text \<open>An instance for the witnesses: entries in a map, no faults.\<close>

definition refused :: "int \<Rightarrow> goerr" where
  "refused status = EIron (IronflowError [] [] False 0 [(''http_status'', DInt status)] None)"

fun mapServe :: "kv_op \<Rightarrow> (string \<times> string \<rightharpoonup> raw) \<Rightarrow> kv_answer \<times> (string \<times> string \<rightharpoonup> raw)" where
  "mapServe (KCreateBucket _ _) m = (Inr RawNone, m)"
| "mapServe (KCreate b k v) m =
     (case m (b, k) of None \<Rightarrow> (Inr RawNone, m((b, k) \<mapsto> v)) | Some _ \<Rightarrow> (Inl (refused 412), m))"
| "mapServe (KGet b k) m = (case m (b, k) of Some v \<Rightarrow> (Inr v, m) | None \<Rightarrow> (Inl (refused 404), m))"
| "mapServe (KPut b k v) m = (Inr RawNone, m((b, k) \<mapsto> v))"
| "mapServe (KDelete b k) m =
     (case m (b, k) of Some _ \<Rightarrow> (Inr RawNone, m((b, k) := None)) | None \<Rightarrow> (Inl (refused 404), m))"

lemma refused_status [simp]: "isHTTPStatus (refused n) k \<longleftrightarrow> n = k"
  by (auto simp: isHTTPStatus_def refused_def)

lemma mapServe_lawful: "kv_lawful (\<lambda>m. m) (\<lambda>p s r. r = mapServe p s)"
  unfolding kv_lawful_def
proof (intro allI impI)
  fix p s a s' assume "(a, s') = mapServe p s"
  then show "lawful_answer p s a s'"
    by (cases p) (auto simp: lawful_answer_def fun_eq_iff split: option.splits)
qed

lemma mapServe_faultless: "faultless (\<lambda>m. m) mapServe"
  using mapServe_lawful by (auto simp: faultless_def split: option.splits)

definition demoDedup :: command_dedup where
  "demoDedup = \<lparr> dd_bucketName = ''b'', dd_ttl = 0, dd_initErr = None \<rparr>"

abbreviation demoCallers :: "nat \<Rightarrow> caller" where
  "demoCallers \<equiv> fresh_callers demoDedup anyType ''c'' (\<lambda>_. GJson JNull)"

lemmas dedup_eval = actStep_def fresh_callers_def TryClaim_def Finalize_def ensureBucket_def demoDedup_def
  claimAttempts_def numeral_3_eq_3 decodeEntry_def anyType_def unmarshalAny_def

lemma demo_won:
  "runActs mapServe demoDedup ''c'' [Request 0] (Map.empty, demoCallers) =
     Some ([(''b'', ''c'') \<mapsto> Raw JNull], demoCallers(0 := Claiming (KDone (Inr None))))"
  by (simp add: dedup_eval)

lemma demo_finalized:
  "runActs mapServe demoDedup ''c'' [Request 0, Succeed 0 (GJson (JStr ''paid'')), Request 0] (Map.empty, demoCallers) =
     Some ([(''b'', ''c'') \<mapsto> Raw (JStr ''paid'')],
       demoCallers(0 := Finalizing (GJson (JStr ''paid'')) (KDone None)))"
  by (simp add: dedup_eval)


text \<open>Whoever asks after a command is finalized gets its result: from a reachable state in which a
  \<open>Finalize\<close> of \<open>v\<close> has returned nil, a caller that starts claiming then never wins, and whatever prior entry
  it is given is \<open>v\<close> (for a value that survives its JSON round trip).\<close>

theorem finalized_result_is_served:
  assumes "kv_lawful look serve"
    and "(dedup_step serve d i)\<^sup>*\<^sup>* (s0, fresh_callers d T i claims) (s1, cs1)"
    and "cs1 n = Finalizing v (KDone None)" and "cs1 j = Claiming (TryClaim d T i (claims j) [])" and "roundtrips T v"
    and "(dedup_step serve d i)\<^sup>*\<^sup>* (s1, cs1) (s2, cs2)"
  shows "\<exists>p. cs2 j = Claiming p \<and> (\<forall>r. p = KDone r \<longrightarrow> r = Inr (Some v) \<or> (\<exists>e. r = Inl e))"
proof -
  have inv: "dedup_inv d i (look s1) cs1"
    using dedup_reachable_inv [OF assms(1,2)] by (simp add: fresh_inv)
  have "stored v (look s1 (dd_bucketName d, i))" using inv assms(3) unfolding dedup_inv_def by blast
  then obtain b where b: "marshal v = Inr b" "look s1 (dd_bucketName d, i) = Some (Raw b)"
    by (auto simp: stored_def)
  then have dec: "decodeEntry T (Raw b) = Inr v" using assms(5) by (auto simp: roundtrips_def decodeEntry_def)
  obtain q where q: "cs2 j = Claiming q" "claimSees T (dd_bucketName d, i) (Raw b) q"
    using dedup_steps_final [OF assms(1,6), of n v j _ T "Raw b"] inv assms(3,4) TryClaim_sees b
    by (auto simp: stored_def)
  have "r = Inr (Some v) \<or> (\<exists>e. r = Inl e)" if "q = KDone r" for r
    using q(2) that dec by (auto split: sum.splits option.splits)
  with q(1) show ?thesis by blast
qed

theorem finalized_result_is_served_witness:
  "\<exists>s cs. runActs mapServe demoDedup ''c'' [Request 1, Request 1]
       ([(''b'', ''c'') \<mapsto> Raw (JStr ''paid'')], demoCallers(0 := Finalizing (GJson (JStr ''paid'')) (KDone None)))
     = Some (s, cs) \<and> cs 1 = Claiming (KDone (Inr (Some (GJson (JStr ''paid'')))))"
proof -
  let ?cs = "demoCallers(0 := Finalizing (GJson (JStr ''paid'')) (KDone None))"
  obtain s cs r where e: "runActs mapServe demoDedup ''c'' [Request 1, Request 1]
       ([(''b'', ''c'') \<mapsto> Raw (JStr ''paid'')], ?cs) = Some (s, cs)" "cs 1 = Claiming (KDone (Inr r))"
    by (simp add: dedup_eval)
  have "roundtrips anyType (GJson (JStr ''paid''))" by (simp add: roundtrips_def anyType_def unmarshalAny_def)
  from finalized_result_is_served [OF mapServe_lawful runActs_reaches [OF demo_finalized] _ _ this
      runActs_reaches [OF e(1)], of 0 1] e show ?thesis
    by (auto simp: fresh_callers_def)
qed

text \<open>Claiming, finalizing and asking again round trips on a faultless service: a free command is won
  and its claim stored; after \<open>Finalize\<close> the next \<open>TryClaim\<close> returns the finalized result.\<close>

theorem claim_finalize_claim:
  assumes "faultless look f" and "dd_initErr d = None" and "marshal claim = Inr b" "roundtrips T result"
    and "look s (dd_bucketName d, i) = None"
  shows "\<exists>s1 s2 s3. runKV f (TryClaim d T i claim []) s = (Inr None, s1) \<and> look s1 (dd_bucketName d, i) = Some (Raw b)
    \<and> runKV f (Finalize d i result) s1 = (None, s2)
    \<and> runKV f (TryClaim d T i claim []) s2 = (Inr (Some result), s3)"
proof -
  obtain j where j: "marshal result = Inr j" "gt_decode T j = Inr result" using assms(4) by (auto simp: roundtrips_def)
  obtain s1 where 1: "runKV f (TryClaim d T i claim []) s = (Inr None, s1)" "look s1 (dd_bucketName d, i) = Some (Raw b)"
    using TryClaim_free [OF assms(1-3,5)] by fastforce
  obtain r s2 where 2: "f (KPut (dd_bucketName d) i (Raw j)) s1 = (Inr r, s2)" "look s2 (dd_bucketName d, i) = Some (Raw j)"
    using faultless_put [OF assms(1), of "dd_bucketName d" i "Raw j" s1] by fastforce
  have "runKV f (Finalize d i result) s1 = (None, s2)"
    using 2(1) j(1) assms(2) by (simp add: Finalize_def ensureBucket_def)
  moreover obtain s3 where "runKV f (TryClaim d T i claim []) s2 = (Inr (Some result), s3)"
    using TryClaim_taken [OF assms(1-3) 2(2), of T] j(2) by (auto simp: decodeEntry_def)
  ultimately show ?thesis using 1 by blast
qed

theorem claim_finalize_claim_witness:
  "\<exists>s3. fst (runKV mapServe (TryClaim demoDedup anyType ''c'' (GJson JNull) []) s3) = Inr (Some (GJson (JStr ''paid'')))"
proof -
  have r: "roundtrips anyType (GJson (JStr ''paid''))" by (simp add: roundtrips_def anyType_def unmarshalAny_def)
  obtain s1 s2 s3 where "runKV mapServe (TryClaim demoDedup anyType ''c'' (GJson JNull) []) s2 =
      (Inr (Some (GJson (JStr ''paid''))), s3)"
    using claim_finalize_claim [OF mapServe_faultless _ _ r, of demoDedup "GJson JNull" JNull Map.empty "''c''"]
    by (auto simp: demoDedup_def)
  then show ?thesis by (metis fst_conv)
qed

end
