(* ===== verification/Functions.thy ===== *)
theory Functions
  imports Complex_Main Exec_Context
begin

text \<open>
  Function definitions (\<^verbatim>\<open>src/ironflow/function.go\<close>, \<^verbatim>\<open>types.go\<close>): the
  configuration, its validation, its defaults, and the check of the incoming event that every
  execution path makes before the handler. The identifier check is proved against what it is
  for: an accepted id is a literal part of a NATS subject.
\<close>

section \<open>Data\<close>

text \<open>A \<open>float64\<close> as far as the comparisons here look at it.\<close>

datatype f64 = F64 rat | PosInf | NegInf | NotANumber

definition f64_is_zero :: "f64 \<Rightarrow> bool" where
  "f64_is_zero x = (case x of F64 r \<Rightarrow> r = 0 | _ \<Rightarrow> False)"

definition f64_less_one :: "f64 \<Rightarrow> bool" where
  "f64_less_one x = (case x of F64 r \<Rightarrow> r < 1 | NegInf \<Rightarrow> True | _ \<Rightarrow> False)"

record trigger =
  tr_Event :: string
  tr_Expression :: string
  tr_Cron :: string

record retry_config =
  rt_MaxAttempts :: int
  rt_InitialDelay :: int
  rt_BackoffFactor :: f64
  rt_MaxDelay :: int
  rt_OnExhausted :: string

record concurrency_config =
  cn_Limit :: int
  cn_Key :: string

record debounce_config =
  db_Period :: int
  db_Key :: string
  db_MaxWait :: int

record cancel_on_config =
  co_Event :: string
  co_Match :: string

record circuit_breaker_config =
  cb_FailureThreshold :: int
  cb_OpenDuration :: int
  cb_MaxOpenDuration :: int

record throttle_config =
  th_Limit :: int
  th_Period :: int
  th_Key :: string

record function_config =
  fc_ID :: string
  fc_Name :: string
  fc_Description :: string
  fc_Triggers :: "trigger list"
  fc_Retry :: "retry_config option"
  fc_Timeout :: int
  fc_StepTimeout :: int
  fc_Concurrency :: "concurrency_config option"
  fc_Debounce :: "debounce_config option"
  fc_CircuitBreaker :: "circuit_breaker_config option"
  fc_Throttle :: "throttle_config option"
  fc_CancelOn :: "cancel_on_config list"
  fc_Mode :: string
  fc_ActorKey :: string
  fc_EndpointURL :: string
  fc_Validate :: "(raw \<Rightarrow> goerr option) option"
  fc_Secrets :: "string list"
  fc_Recording :: bool
  fc_RecordingProfile :: string
  fc_Metadata :: "(string \<times> json) list option"

section \<open>The function id\<close>

text \<open>
  \<open>unicode.IsControl(r) || unicode.IsSpace(r)\<close> for the rune the bytes start with: the
  control characters U+0000-001F and U+007F-009F, the ASCII spaces, and U+00A0, U+1680,
  U+2000-200A, U+2028, U+2029, U+202F, U+205F and U+3000 in their UTF-8 encoding.
\<close>

definition byteIn :: "nat \<Rightarrow> nat \<Rightarrow> char \<Rightarrow> bool" where
  "byteIn lo hi c = (lo \<le> (of_char c :: nat) \<and> (of_char c :: nat) \<le> hi)"

fun spaceOrControl :: "string \<Rightarrow> bool" where
  "spaceOrControl (a # b # c # s) =
     (byteIn 0 32 a \<or> byteIn 127 127 a
      \<or> byteIn 0xC2 0xC2 a \<and> byteIn 0x80 0xA0 b
      \<or> byteIn 0xE1 0xE1 a \<and> byteIn 0x9A 0x9A b \<and> byteIn 0x80 0x80 c
      \<or> byteIn 0xE2 0xE2 a \<and> byteIn 0x80 0x80 b
          \<and> (byteIn 0x80 0x8A c \<or> byteIn 0xA8 0xA9 c \<or> byteIn 0xAF 0xAF c)
      \<or> byteIn 0xE2 0xE2 a \<and> byteIn 0x81 0x81 b \<and> byteIn 0x9F 0x9F c
      \<or> byteIn 0xE3 0xE3 a \<and> byteIn 0x80 0x80 b \<and> byteIn 0x80 0x80 c)"
| "spaceOrControl [a, b] = (byteIn 0 32 a \<or> byteIn 127 127 a \<or> byteIn 0xC2 0xC2 a \<and> byteIn 0x80 0xA0 b)"
| "spaceOrControl [a] = (byteIn 0 32 a \<or> byteIn 127 127 a)"
| "spaceOrControl [] = False"

text \<open>The loop over the runes of a segment. UTF-8 lead bytes never occur inside a sequence, so
  looking at every byte position finds the same runes.\<close>

fun anySpaceOrControl :: "string \<Rightarrow> bool" where
  "anySpaceOrControl [] = False"
| "anySpaceOrControl (c # s) = (spaceOrControl (c # s) \<or> anySpaceOrControl s)"

definition invalidID :: "string \<Rightarrow> string \<Rightarrow> goerr" where
  "invalidID i why = ENew (''invalid function ID: '' @ quoted i @ '' ('' @ why @ '')'')"

fun validateSegments :: "string \<Rightarrow> string list \<Rightarrow> goerr option" where
  "validateSegments i [] = None"
| "validateSegments i (segment # rest) =
     (if segment = [] then Some (invalidID i ''has an empty segment'')
      else if anySpaceOrControl segment
      then Some (invalidID i ''has whitespace or a control character'')
      else validateSegments i rest)"

definition validateFunctionID :: "string \<Rightarrow> goerr option" where
  "validateFunctionID i =
     (if i = [] then Some (ENew ''function ID is required'')
      else if CHR ''*'' \<in> set i \<or> CHR ''>'' \<in> set i
      then Some (invalidID i ''may not contain the NATS wildcards * or >'')
      else validateSegments i (splitOn CHR ''.'' i))"

section \<open>The configuration\<close>

definition validateEventPath :: "string \<Rightarrow> goerr option" where
  "validateEventPath path0 =
     (let path = trimPrefix (CHR 0x24 # ''.'') path0
      in if path = [] then Some (ENew ''path is empty'')
         else if hasPrefix ''.'' path \<or> hasSuffix ''.'' path
         then Some (ENew (''path must not start or end with '' @ [CHR 0x27] @ ''.'' @ [CHR 0x27]))
         else if containsStr ''..'' path
         then Some (ENew (''path must not contain empty segments ('' @ [CHR 0x27] @ ''..'' @ [CHR 0x27] @ '')''))
         else None)"

fun validateTriggers :: "nat \<Rightarrow> trigger list \<Rightarrow> goerr option" where
  "validateTriggers i [] = None"
| "validateTriggers i (t # ts) =
     (if tr_Event t = [] \<and> tr_Cron t = []
      then Some (ENew (''trigger '' @ itoa i @ '': event or cron is required''))
      else validateTriggers (i + 1) ts)"

definition validateDebounce :: "debounce_config \<Rightarrow> goerr option" where
  "validateDebounce d =
     (if db_Period d < second
      then Some (ENew (''debounce period must be >= 1s (got '' @ durationString (db_Period d) @
             ''); scheduler tick floor is 1s''))
      else if db_MaxWait d \<noteq> 0 \<and> db_MaxWait d < db_Period d
      then Some (ENew (''debounce maxWait must be >= period (got maxWait='' @
             durationString (db_MaxWait d) @ '', period='' @ durationString (db_Period d) @ '') or 0 for no cap''))
      else None)"

text \<open>The loop over \<open>CancelOn\<close>; \<open>seen\<close> holds the keys \<open>event|match\<close>.\<close>

definition cancelKey :: "cancel_on_config \<Rightarrow> string" where
  "cancelKey s = co_Event s @ ''|'' @ co_Match s"

fun validateCancelOn :: "nat \<Rightarrow> string set \<Rightarrow> cancel_on_config list \<Rightarrow> goerr option" where
  "validateCancelOn i seen [] = None"
| "validateCancelOn i seen (s # ss) =
     (if co_Event s = [] then Some (ENew (''cancelOn['' @ itoa i @ ''].event must be non-empty''))
      else if co_Match s = [] then Some (ENew (''cancelOn['' @ itoa i @ ''].match must be non-empty''))
      else if cancelKey s \<in> seen
      then Some (ENew (''cancelOn['' @ itoa i @ '']: duplicate spec (event='' @ quoted (co_Event s) @
             '', match='' @ quoted (co_Match s) @ '')''))
      else validateCancelOn (i + 1) (insert (cancelKey s) seen) ss)"

definition validateRetry :: "retry_config \<Rightarrow> goerr option" where
  "validateRetry r =
     (if rt_MaxAttempts r < 0 then Some (ENew ''retry maxAttempts must be positive'')
      else if rt_InitialDelay r < 0 then Some (ENew ''retry initialDelay must be non-negative'')
      else if \<not> f64_is_zero (rt_BackoffFactor r) \<and> f64_less_one (rt_BackoffFactor r)
      then Some (ENew ''retry backoffFactor must be at least 1'')
      else if rt_MaxDelay r < 0 then Some (ENew ''retry maxDelay must be non-negative'')
      else if rt_OnExhausted r \<in> {[], ''pause'', ''fail''} then None
      else Some (ENew (''retry onExhausted must be '' @ quoted ''pause'' @ '' or '' @ quoted ''fail'' @
             '' (got '' @ quoted (rt_OnExhausted r) @ '')'')))"

definition validateCircuitBreaker :: "circuit_breaker_config \<Rightarrow> goerr option" where
  "validateCircuitBreaker cb =
     (if cb_FailureThreshold cb < 0 \<or> cb_OpenDuration cb < 0 \<or> cb_MaxOpenDuration cb < 0
      then Some (ENew ''circuitBreaker fields must not be negative'')
      else if cb_OpenDuration cb > 0 \<and> cb_MaxOpenDuration cb > 0 \<and> cb_MaxOpenDuration cb < cb_OpenDuration cb
      then Some (ENew (''circuitBreaker maxOpenDuration must be zero or at least openDuration (got maxOpenDuration='' @
             durationString (cb_MaxOpenDuration cb) @ '', openDuration='' @ durationString (cb_OpenDuration cb) @ '')''))
      else None)"

definition validateThrottle :: "throttle_config \<Rightarrow> goerr option" where
  "validateThrottle th =
     (if th_Limit th < 1
      then Some (ENew (''throttle limit must be >= 1 (got '' @ itoaInt (th_Limit th) @ '')''))
      else if th_Period th < second
      then Some (ENew (''throttle period must be >= 1s (got '' @ durationString (th_Period th) @ '')''))
      else if th_Key th \<noteq> []
      then (case validateEventPath (th_Key th) of
              Some err \<Rightarrow> Some (EWrap (''throttle key: '' @ errorText err) [err])
            | None \<Rightarrow> None)
      else None)"

text \<open>Run the checks in order, stopping at the first error.\<close>

definition firstError :: "goerr option list \<Rightarrow> goerr option" where
  "firstError = first_some id"

definition recordingProfiles :: "string list" where
  "recordingProfiles = [''all'', ''run_lifecycle'', ''steps'']"

definition validateFunctionConfig :: "function_config \<Rightarrow> goerr option" where
  "validateFunctionConfig config = firstError
     [validateFunctionID (fc_ID config),
      if fc_RecordingProfile config \<noteq> [] \<and> fc_RecordingProfile config \<notin> set recordingProfiles
      then Some (ENew (''recording profile must be one of '' @ quoted ''all'' @ '', '' @
             quoted ''run_lifecycle'' @ '', or '' @ quoted ''steps''))
      else None,
      validateTriggers 0 (fc_Triggers config),
      if fc_Timeout config < 0 then Some (ENew ''timeout must be non-negative'') else None,
      if fc_StepTimeout config < 0 then Some (ENew ''step timeout must be non-negative'') else None,
      (case fc_Concurrency config of
         Some cn \<Rightarrow> if cn_Limit cn \<le> 0 then Some (ENew ''concurrency limit must be positive'') else None
       | None \<Rightarrow> None),
      (case fc_Debounce config of Some d \<Rightarrow> validateDebounce d | None \<Rightarrow> None),
      validateCancelOn 0 {} (fc_CancelOn config),
      (case fc_Retry config of Some r \<Rightarrow> validateRetry r | None \<Rightarrow> None),
      (case fc_CircuitBreaker config of Some cb \<Rightarrow> validateCircuitBreaker cb | None \<Rightarrow> None),
      (case fc_Throttle config of Some th \<Rightarrow> validateThrottle th | None \<Rightarrow> None)]"

definition normalizeFunctionConfig :: "function_config \<Rightarrow> function_config" where
  "normalizeFunctionConfig config =
     (let n1 = (if fc_Name config = [] then config \<lparr> fc_Name := fc_ID config \<rparr> else config)
      in if fc_Mode n1 = [] then n1 \<lparr> fc_Mode := ''push'' \<rparr> else n1)"

text \<open>\<open>CreateFunction\<close> panics on an invalid configuration (\<open>Inl\<close> the panic message).\<close>

definition CreateFunction :: "function_config \<Rightarrow> string + function_config" where
  "CreateFunction config =
     (case validateFunctionConfig config of
        Some err \<Rightarrow> Inl (''invalid function config: '' @ errorText err)
      | None \<Rightarrow> Inr (normalizeFunctionConfig config))"

section \<open>The event input\<close>

definition validateEventInput :: "function_config \<Rightarrow> event \<Rightarrow> goerr option" where
  "validateEventInput config ev =
     (case fc_Validate config of
        None \<Rightarrow> None
      | Some validate \<Rightarrow>
          if ev_Source ev = ''cron'' then None
          else if isRedacted (ev_RawData ev)
          then Some (newNonRetryableError (''event '' @ quoted (ev_Name ev) @ '' for function '' @
                 quoted (fc_ID config) @
                 '' was redacted: its payload was irreversibly replaced with a placeholder and cannot satisfy Validate''))
          else (case validate (ev_RawData ev) of
                  Some err \<Rightarrow>
                    Some (wrapNonRetryable (EWrap (''validation failed in event '' @ quoted (ev_Name ev) @
                      '' for function '' @ quoted (fc_ID config) @ '': '' @ errorText err) [err]))
                | None \<Rightarrow> None))"

section \<open>Lemmas\<close>

lemma splitOn_join: "splitOn sep (a @ sep # b) = splitOn sep a @ splitOn sep b"
proof (induction a)
  case (Cons c a)
  then show ?case by (cases "splitOn sep a") auto
qed simp

lemma splitOn_chars: "seg \<in> set (splitOn sep s) \<Longrightarrow> set seg \<subseteq> set s"
proof (induction s arbitrary: seg)
  case (Cons c s)
  then show ?case by (cases "splitOn sep s") (fastforce split: if_splits)+
qed simp

lemma validateSegments_None:
  "validateSegments i segs = None \<longleftrightarrow> (\<forall>s \<in> set segs. s \<noteq> [] \<and> \<not> anySpaceOrControl s)"
  by (induction segs) auto

lemma validateFunctionID_None:
  "validateFunctionID i = None \<longleftrightarrow> i \<noteq> [] \<and> CHR ''*'' \<notin> set i \<and> CHR ''>'' \<notin> set i
     \<and> (\<forall>s \<in> set (splitOn CHR ''.'' i). s \<noteq> [] \<and> \<not> anySpaceOrControl s)"
  by (auto simp: validateFunctionID_def validateSegments_None)

lemma firstError_None: "firstError errs = None \<longleftrightarrow> (\<forall>e \<in> set errs. e = None)"
  by (simp add: firstError_def first_some_None_iff)

lemma if_Some_None: "(if b then Some x else None) = None \<longleftrightarrow> \<not> b"
  by simp

lemma valid_config_parts:
  assumes "validateFunctionConfig c = None"
  shows "validateFunctionID (fc_ID c) = None" and "fc_Timeout c \<ge> 0" and "fc_StepTimeout c \<ge> 0"
    and "\<And>cn. fc_Concurrency c = Some cn \<Longrightarrow> cn_Limit cn > 0"
    and "\<And>d. fc_Debounce c = Some d \<Longrightarrow> validateDebounce d = None"
    and "\<And>th. fc_Throttle c = Some th \<Longrightarrow> validateThrottle th = None"
  using assms unfolding validateFunctionConfig_def firstError_None list.set ball_simps if_Some_None
  by (simp_all only: not_less not_le option.case if_Some_None simp_thms)

lemma validateFunctionConfig_defaults:
  "validateFunctionConfig (config \<lparr> fc_Name := n \<rparr>) = validateFunctionConfig config"
  "validateFunctionConfig (config \<lparr> fc_Mode := m \<rparr>) = validateFunctionConfig config"
  by (simp_all add: validateFunctionConfig_def)

lemma normalize_fields:
  "fc_ID (normalizeFunctionConfig c) = fc_ID c"
  "fc_Name (normalizeFunctionConfig c) = (if fc_Name c = [] then fc_ID c else fc_Name c)"
  "fc_Mode (normalizeFunctionConfig c) = (if fc_Mode c = [] then ''push'' else fc_Mode c)"
  by (simp_all add: normalizeFunctionConfig_def)

lemma normalize_idem: "normalizeFunctionConfig (normalizeFunctionConfig c) = normalizeFunctionConfig c"
  by (auto simp: normalizeFunctionConfig_def Let_def)

section \<open>Properties\<close>

text \<open>An accepted function id stands literally in the NATS subject built from it: splitting
  \<open>system.function.{id}.{event}\<close> at the dots gives the two fixed tokens, then exactly the segments of
  the id, then those of the event, and every segment of the id is non-empty and free of wildcards,
  whitespace and control characters.\<close>

theorem function_id_is_subject_literal:
  assumes "validateFunctionID i = None"
  shows "splitOn CHR ''.'' (''system.function.'' @ i @ ''.'' @ ev) =
      [''system'', ''function''] @ splitOn CHR ''.'' i @ splitOn CHR ''.'' ev
    \<and> (\<forall>s \<in> set (splitOn CHR ''.'' i). s \<noteq> [] \<and> CHR ''*'' \<notin> set s \<and> CHR ''>'' \<notin> set s \<and> \<not> anySpaceOrControl s)"
proof -
  have "splitOn CHR ''.'' (''system.function.'' @ i @ ''.'' @ ev) =
      [''system'', ''function''] @ splitOn CHR ''.'' (i @ CHR ''.'' # ev)"
    using splitOn_join [of "CHR ''.''" "''system''" "''function'' @ CHR ''.'' # i @ CHR ''.'' # ev"]
      splitOn_join [of "CHR ''.''" "''function''" "i @ CHR ''.'' # ev"] by simp
  then show ?thesis
    using assms splitOn_chars [of _ "CHR ''.''" i]
    by (auto simp: validateFunctionID_None splitOn_join)
qed

theorem function_id_is_subject_literal_witness:
  "splitOn CHR ''.'' (''system.function.'' @ ''billing.charge'' @ ''.'' @ ''done'') =
     [''system'', ''function'', ''billing'', ''charge'', ''done'']"
proof -
  have "validateFunctionID ''billing.charge'' = None" by code_simp
  from function_id_is_subject_literal [OF this, of "''done''"] show ?thesis by simp
qed


definition demoConfig :: function_config where
  "demoConfig = \<lparr> fc_ID = ''charge'', fc_Name = [], fc_Description = [], fc_Triggers = [], fc_Retry = None,
     fc_Timeout = 0, fc_StepTimeout = 0, fc_Concurrency = None, fc_Debounce = None,
     fc_CircuitBreaker = None, fc_Throttle = None, fc_CancelOn = [], fc_Mode = [], fc_ActorKey = [],
     fc_EndpointURL = [], fc_Validate = None, fc_Secrets = [], fc_Recording = False,
     fc_RecordingProfile = [], fc_Metadata = None \<rparr>"

lemma demoConfig_create: "CreateFunction demoConfig = Inr (demoConfig \<lparr> fc_Name := ''charge'', fc_Mode := ''push'' \<rparr>)"
proof -
  have "validateFunctionID ''charge'' = None" by code_simp
  then show ?thesis
    by (simp add: CreateFunction_def validateFunctionConfig_def firstError_None demoConfig_def
        normalizeFunctionConfig_def firstError_def)
qed


text \<open>The duplicate check of \<open>CancelOn\<close> can reject two different specs: their keys join event and
  match with a bar, which either may contain.\<close>

theorem cancel_on_rejects_distinct_specs:
  assumes "a \<noteq> []" "b \<noteq> []" "m \<noteq> []"
  shows "(let s = \<lparr> co_Event = a @ ''|'' @ b, co_Match = m \<rparr>; t = \<lparr> co_Event = a, co_Match = b @ ''|'' @ m \<rparr>
     in s \<noteq> t \<and> validateCancelOn 0 {} [s, t] \<noteq> None)"
  using assms by (simp add: cancelKey_def Let_def)

theorem cancel_on_rejects_distinct_specs_witness:
  "validateCancelOn 0 {} [\<lparr> co_Event = ''a|b'', co_Match = ''m'' \<rparr>, \<lparr> co_Event = ''a'', co_Match = ''b|m'' \<rparr>] \<noteq> None"
  using cancel_on_rejects_distinct_specs [of "''a''" "''b''" "''m''"] by (simp add: Let_def)

text \<open>A payload that fails validation fails the run for good: every error of the input check is
  non-retryable, a redacted payload is refused without calling \<open>Validate\<close>, and a cron tick is
  never checked.\<close>

theorem invalid_input_is_final:
  "(\<forall>err. validateEventInput config ev = Some err \<longrightarrow> \<not> isRetryable err) \<and>
   (isRedacted (ev_RawData ev) \<and> ev_Source ev \<noteq> ''cron'' \<and> fc_Validate config \<noteq> None \<longrightarrow>
      (\<forall>f. validateEventInput (config \<lparr> fc_Validate := Some f \<rparr>) ev = validateEventInput config ev
         \<and> validateEventInput config ev \<noteq> None)) \<and>
   (ev_Source ev = ''cron'' \<longrightarrow> validateEventInput config ev = None)"
  by (auto simp: validateEventInput_def newNonRetryableError_def wrapNonRetryable_def isRetryable_def
      split: option.splits if_splits)

theorem invalid_input_is_final_witness:
  "\<not> isRetryable (the (validateEventInput (demoConfig \<lparr> fc_Validate := Some (\<lambda>_. Some (ENew ''bad'')) \<rparr>)
      \<lparr> ev_ID = [], ev_Name = ''ev'', ev_Version = 1, ev_RawData = Raw JNull, ev_Timestamp = None,
        ev_IdempotencyKey = [], ev_Source = [], ev_Metadata = None, ev_EmittedBy = [] \<rparr>))"
  using invalid_input_is_final [of "demoConfig \<lparr> fc_Validate := Some (\<lambda>_. Some (ENew ''bad'')) \<rparr>"
      "\<lparr> ev_ID = [], ev_Name = ''ev'', ev_Version = 1, ev_RawData = Raw JNull, ev_Timestamp = None,
        ev_IdempotencyKey = [], ev_Source = [], ev_Metadata = None, ev_EmittedBy = [] \<rparr>"]
  by (simp add: validateEventInput_def isRedacted_def)

end
