(* ===== verification/Upcaster.thy ===== *)
theory Upcaster
  imports Errors
begin

text \<open>
  Event schema migration (\<^verbatim>\<open>src/ironflow/upcaster.go\<close>): the registry of version
  transitions, the chain that applies them one version at a time, and what it promises: the
  chain is the composition of its steps, it succeeds exactly when every step exists and
  succeeds, and it never touches a redacted payload.
\<close>

type_synonym upcaster_func = "raw \<Rightarrow> goerr + raw"

text \<open>\<open>latestVersions\<close> reads 0 for an event without an entry.\<close>

record upcaster_registry =
  ur_upcasters :: "string \<Rightarrow> int \<Rightarrow> upcaster_func option"
  ur_latestVersions :: "string \<Rightarrow> int"

definition NewUpcasterRegistry :: upcaster_registry where
  "NewUpcasterRegistry = \<lparr> ur_upcasters = (\<lambda>_ _. None), ur_latestVersions = (\<lambda>_. 0) \<rparr>"

definition Register ::
  "string \<Rightarrow> int \<Rightarrow> int \<Rightarrow> upcaster_func \<Rightarrow> upcaster_registry \<Rightarrow> upcaster_registry" where
  "Register eventName fromVersion toVersion fn r =
     (let r1 = r \<lparr> ur_upcasters := (ur_upcasters r)
                     (eventName := (ur_upcasters r eventName)(fromVersion := Some fn)) \<rparr>
      in if toVersion > ur_latestVersions r1 eventName
         then r1 \<lparr> ur_latestVersions := (ur_latestVersions r1)(eventName := toVersion) \<rparr>
         else r1)"

text \<open>The two messages; the arrow is its three UTF-8 bytes.\<close>

definition brokenChain :: "string \<Rightarrow> int \<Rightarrow> int \<Rightarrow> int \<Rightarrow> goerr" where
  "brokenChain eventName fromVersion toVersion currentVersion =
     ENew (''incomplete upcaster chain for '' @ quoted eventName @ '': no upcaster from v'' @
       itoaInt fromVersion @ '' to v'' @ itoaInt toVersion @ '' (chain broken at v'' @
       itoaInt currentVersion @ '')'')"

definition upcasterFailed :: "string \<Rightarrow> int \<Rightarrow> goerr \<Rightarrow> goerr" where
  "upcasterFailed eventName currentVersion err =
     EWrap (''upcaster '' @ quoted eventName @ '' v'' @ itoaInt currentVersion @
       [CHR 0xE2, CHR 0x86, CHR 0x92] @ ''v'' @ itoaInt (currentVersion + 1) @ '' failed: '' @ errorText err) [err]"

text \<open>The loop of \<open>Upcast\<close>; \<open>fromVersion\<close> is only printed.\<close>

function upcastLoop ::
  "upcaster_registry \<Rightarrow> string \<Rightarrow> int \<Rightarrow> int \<Rightarrow> int \<Rightarrow> raw \<Rightarrow> goerr + raw" where
  "upcastLoop r eventName fromVersion toVersion currentVersion currentData =
     (if currentVersion < toVersion then
        (case ur_upcasters r eventName currentVersion of
           None \<Rightarrow> Inl (brokenChain eventName fromVersion toVersion currentVersion)
         | Some upcaster \<Rightarrow>
             (case upcaster currentData of
                Inl err \<Rightarrow> Inl (upcasterFailed eventName currentVersion err)
              | Inr d \<Rightarrow> upcastLoop r eventName fromVersion toVersion (currentVersion + 1) d))
      else Inr currentData)"
  by pat_completeness auto
termination
  by (relation "measure (\<lambda>(_, _, _, t, c, _). nat (t - c))") auto

declare upcastLoop.simps [simp del]

definition Upcast ::
  "upcaster_registry \<Rightarrow> string \<Rightarrow> raw \<Rightarrow> int \<Rightarrow> int \<Rightarrow> goerr + raw" where
  "Upcast r eventName data fromVersion toVersion =
     (if fromVersion \<ge> toVersion then Inr data
      else if isRedacted data then Inr data
      else upcastLoop r eventName fromVersion toVersion fromVersion data)"

definition LatestVersion :: "upcaster_registry \<Rightarrow> string \<Rightarrow> int" where
  "LatestVersion r eventName = ur_latestVersions r eventName"

definition UpcastToLatest :: "upcaster_registry \<Rightarrow> string \<Rightarrow> raw \<Rightarrow> int \<Rightarrow> goerr + raw" where
  "UpcastToLatest r eventName data fromVersion =
     (let latest = ur_latestVersions r eventName
      in if latest = 0 \<or> fromVersion \<ge> latest then Inr data
         else Upcast r eventName data fromVersion latest)"

section \<open>Chains\<close>

text \<open>The value a complete, failure-free chain of \<open>n\<close> steps gives.\<close>

fun chainValue :: "upcaster_registry \<Rightarrow> string \<Rightarrow> int \<Rightarrow> nat \<Rightarrow> raw \<Rightarrow> raw option" where
  "chainValue r eventName v 0 d = Some d"
| "chainValue r eventName v (Suc n) d =
     (case ur_upcasters r eventName v of
        None \<Rightarrow> None
      | Some f \<Rightarrow> (case f d of Inl _ \<Rightarrow> None | Inr d' \<Rightarrow> chainValue r eventName (v + 1) n d'))"

lemma upcastLoop_chain:
  "nat (t - c) = n \<Longrightarrow> c \<le> t \<Longrightarrow>
     (case upcastLoop r e f t c d of Inl _ \<Rightarrow> None | Inr x \<Rightarrow> Some x) = chainValue r e c n d"
proof (induction n arbitrary: c d)
  case 0
  then show ?case by (simp add: upcastLoop.simps)
next
  case (Suc n)
  then have "c < t" "nat (t - (c + 1)) = n" "c + 1 \<le> t" by auto
  then show ?case
    using Suc.IH [of "c + 1"] by (subst upcastLoop.simps) (auto split: option.splits sum.splits)
qed

lemma chainValue_add:
  "chainValue r e v (m + n) d =
     (case chainValue r e v m d of None \<Rightarrow> None | Some d' \<Rightarrow> chainValue r e (v + int m) n d')"
  by (induction m arbitrary: v d)
     (auto split: option.splits sum.splits simp: add.commute add.left_commute)

lemma Register_lookup:
  "ur_upcasters (Register e f t fn r) e' v =
     (if e' = e \<and> v = f then Some fn else ur_upcasters r e' v)"
  by (simp add: Register_def Let_def)

lemma Register_latest:
  "ur_latestVersions (Register e f t fn r) e' =
     (if e' = e then max t (ur_latestVersions r e') else ur_latestVersions r e')"
  by (simp add: Register_def Let_def)

section \<open>Properties\<close>

text \<open>C29. Upcasting an unredacted payload over \<open>n \<ge> 1\<close> versions succeeds exactly when every
  transition of the chain is registered and succeeds, and then returns their composition.\<close>

theorem upcast_is_chain_composition:
  assumes "0 < n" and "\<not> isRedacted d"
  shows "(case Upcast r e d v (v + int n) of Inl _ \<Rightarrow> None | Inr x \<Rightarrow> Some x) = chainValue r e v n d"
  using upcastLoop_chain [of "v + int n" v n] assms by (simp add: Upcast_def)

definition demoRegistry :: upcaster_registry where
  "demoRegistry = Register ''ev'' 2 3 (\<lambda>d. Inr (Raw (JStr ''v3''))) (Register ''ev'' 1 2 (\<lambda>d. Inr (Raw JNull)) NewUpcasterRegistry)"

theorem upcast_is_chain_composition_witness:
  "(case Upcast demoRegistry ''ev'' (Raw (JStr ''v1'')) 1 3 of Inl _ \<Rightarrow> None | Inr x \<Rightarrow> Some x)
     = Some (Raw (JStr ''v3''))"
  using upcast_is_chain_composition [of 2 "Raw (JStr ''v1'')" demoRegistry "''ev''" 1]
  by (simp add: isRedacted_def demoRegistry_def Register_lookup numeral_2_eq_2)

text \<open>Migrating in two hops is migrating in one: when the payload after the first hop is not
  redacted, going from version \<open>a\<close> to \<open>b\<close> and on to \<open>c\<close> gives what going from \<open>a\<close> to \<open>c\<close> gives.\<close>

theorem upcast_two_hops:
  assumes "a \<le> b" "b \<le> c" and "Upcast r e d a b = Inr d1" and "\<not> isRedacted d" "\<not> isRedacted d1"
    and "Upcast r e d1 b c = Inr d2"
  shows "Upcast r e d a c = Inr d2"
proof -
  let ?m = "nat (b - a)" and ?n = "nat (c - b)"
  have 1: "chainValue r e a ?m d = Some d1"
    using assms(1,3,4) upcastLoop_chain [of b a ?m r e a d]
    by (cases "a < b") (auto simp: Upcast_def)
  have 2: "chainValue r e b ?n d1 = Some d2"
    using assms(2,5,6) upcastLoop_chain [of c b ?n r e b d1]
    by (cases "b < c") (auto simp: Upcast_def)
  have "chainValue r e a (?m + ?n) d = Some d2" using 1 2 assms(1) by (simp add: chainValue_add)
  moreover have "nat (c - a) = ?m + ?n" using assms(1,2) by simp
  ultimately show ?thesis
    using assms(1,2,4) upcastLoop_chain [of c a "?m + ?n" r e a d]
    by (cases "a < c") (auto simp: Upcast_def split: sum.splits)
qed

theorem upcast_two_hops_witness:
  "Upcast demoRegistry ''ev'' (Raw (JStr ''v1'')) 1 3 = Inr (Raw (JStr ''v3''))"
  by (rule upcast_two_hops [of 1 2 3 _ _ _ "Raw JNull"])
     (simp_all add: isRedacted_def demoRegistry_def Register_lookup Upcast_def upcastLoop.simps)

text \<open>A redacted payload keeps its redaction marker: no chain is run over it, whatever is
  registered.\<close>

theorem redacted_payload_untouched:
  assumes "isRedacted d"
  shows "Upcast r e d v t = Inr d \<and> UpcastToLatest r e d v = Inr d"
  using assms by (simp add: Upcast_def UpcastToLatest_def Let_def)

theorem redacted_payload_untouched_witness:
  "UpcastToLatest demoRegistry ''ev'' (Raw (JObj [(redactedKey, JBool True)])) 1
     = Inr (Raw (JObj [(redactedKey, JBool True)]))"
  using redacted_payload_untouched [of "Raw (JObj [(redactedKey, JBool True)])" demoRegistry "''ev''" 1 3]
  by (simp add: isRedacted_def objLookup_def)

text \<open>Registering a transition that skips a version makes the latest version unreachable: after
  registering only \<open>v \<rightarrow> v + 2\<close>, upcasting an unredacted event of version \<open>v\<close> to the latest version
  fails at \<open>v + 1\<close> although the registered function took it there.\<close>

theorem skipping_transition_breaks_chain:
  assumes "0 \<le> v" and "\<not> isRedacted d" and "fn d = Inr d'"
  shows "UpcastToLatest (Register e v (v + 2) fn NewUpcasterRegistry) e d v =
    Inl (brokenChain e v (v + 2) (v + 1))"
  using assms
  by (simp add: UpcastToLatest_def Upcast_def Register_latest NewUpcasterRegistry_def upcastLoop.simps
      Register_lookup Let_def max_def)

theorem skipping_transition_breaks_chain_witness:
  "UpcastToLatest (Register ''ev'' 1 3 Inr NewUpcasterRegistry) ''ev'' (Raw JNull) 1
     = Inl (brokenChain ''ev'' 1 3 2)"
  using skipping_transition_breaks_chain [of 1 "Raw JNull" Inr "Raw JNull" "''ev''"]
  by (simp add: isRedacted_def)

end
