(* ===== verification/Signature.thy ===== *)
theory Signature
  imports Json_Value Errors "HOL-Library.Word"
begin

unbundle bit_operations_syntax

text \<open>
  Request signatures (\<^verbatim>\<open>src/ironflow/signature.go\<close>). The keyed hash
  (\<open>hmac.New(sha256.New, key)\<close>) is the argument \<open>mac\<close>: key and message to digest bytes. The
  timestamp is an \<open>int64\<close> and kept at that width, because the age computation wraps. Header
  values are ASCII.
\<close>

section \<open>Hexadecimal\<close>

definition hexDigit :: "nat \<Rightarrow> char" where
  "hexDigit n = (if n < 10 then char_of (48 + n) else char_of (87 + n))"

definition hexValue :: "char \<Rightarrow> nat option" where
  "hexValue c =
     (let n = of_char c :: nat in
      if 48 \<le> n \<and> n \<le> 57 then Some (n - 48)
      else if 97 \<le> n \<and> n \<le> 102 then Some (n - 87)
      else if 65 \<le> n \<and> n \<le> 70 then Some (n - 55)
      else None)"

fun hexEncode :: "string \<Rightarrow> string" where
  "hexEncode [] = []"
| "hexEncode (b # bs) =
     hexDigit (of_char b div 16) # hexDigit (of_char b mod 16) # hexEncode bs"

fun hexDecode :: "string \<Rightarrow> string option" where
  "hexDecode [] = Some []"
| "hexDecode [c] = None"
| "hexDecode (c # d # s) =
     (case (hexValue c, hexValue d, hexDecode s) of
        (Some h, Some l, Some bs) \<Rightarrow> Some (char_of (16 * h + l) # bs)
      | _ \<Rightarrow> None)"

lemma hexValue_hexDigit: "n < 16 \<Longrightarrow> hexValue (hexDigit n) = Some n"
  by (auto simp: hexValue_def hexDigit_def Let_def)

lemma of_char_lt: "(of_char c :: nat) < 256"
  using nat_of_char_less_256 [of c] by simp

lemma hexDecode_hexEncode [simp]: "hexDecode (hexEncode bs) = Some bs"
proof (induction bs)
  case (Cons b bs)
  have "(of_char b :: nat) div 16 < 16" using of_char_lt [of b] by (simp add: less_mult_imp_div_less)
  moreover have "16 * ((of_char b :: nat) div 16) + of_char b mod 16 = of_char b" by simp
  ultimately show ?case using Cons.IH by (simp add: hexValue_hexDigit)
qed simp

section \<open>Parsing the header\<close>

text \<open>\<open>strconv.ParseInt(value, 10, 64)\<close>: an optional sign, at least one digit, and the range of
  \<open>int64\<close>. Which of its two error texts it gives is not modelled.\<close>

definition parseInt64 :: "string \<Rightarrow> 64 word option" where
  "parseInt64 s =
     (let (neg, digits) = (case s of
             [] \<Rightarrow> (False, [])
           | c # r \<Rightarrow> if c = CHR ''-'' then (True, r) else if c = CHR ''+'' then (False, r) else (False, s))
      in if digits = [] then None
         else case digitsValue digits 0 of
                None \<Rightarrow> None
              | Some n \<Rightarrow>
                  let i = (if neg then - int n else int n)
                  in if - (2 ^ 63) \<le> i \<and> i < 2 ^ 63 then Some (word_of_int i) else None)"

text \<open>\<open>strings.SplitN(s, "=", 2)\<close> when it gives two parts.\<close>

fun cutEq :: "string \<Rightarrow> (string \<times> string) option" where
  "cutEq [] = None"
| "cutEq (c # s) =
     (if c = CHR ''='' then Some ([], s)
      else case cutEq s of None \<Rightarrow> None | Some (k, v) \<Rightarrow> Some (c # k, v))"

record signature_params =
  sp_Timestamp :: "64 word"
  sp_Signatures :: "string \<rightharpoonup> string"

fun parseParts :: "string list \<Rightarrow> signature_params \<Rightarrow> goerr + signature_params" where
  "parseParts [] p = Inr p"
| "parseParts (part # parts) p =
     (case cutEq (trimSpace part) of
        None \<Rightarrow> parseParts parts p
      | Some (key, value) \<Rightarrow>
          if key = ''t'' then
            (case parseInt64 value of
               None \<Rightarrow> Inl (EWrap ''invalid timestamp'' [ENew ''strconv.ParseInt''])
             | Some ts \<Rightarrow> parseParts parts (p \<lparr> sp_Timestamp := ts \<rparr>))
          else parseParts parts (p \<lparr> sp_Signatures := (sp_Signatures p)(key \<mapsto> value) \<rparr>))"

definition ParseSignature :: "string \<Rightarrow> goerr + signature_params" where
  "ParseSignature header =
     (if header = [] then Inl (ESentinel ErrMissingSignature)
      else case parseParts (splitOn CHR '','' header)
                  \<lparr> sp_Timestamp = 0, sp_Signatures = Map.empty \<rparr> of
             Inl e \<Rightarrow> Inl e
           | Inr params \<Rightarrow>
               if sp_Timestamp params = 0 then Inl (ENew ''missing timestamp in signature'')
               else Inr params)"

section \<open>Signing and verifying\<close>

definition ComputeSignature :: "(string \<Rightarrow> string \<Rightarrow> string) \<Rightarrow> string \<Rightarrow> string \<Rightarrow> 64 word \<Rightarrow> string" where
  "ComputeSignature mac payload secret timestamp =
     hexEncode (mac secret (itoaInt (sint timestamp) @ ''.'' @ payload))"

definition SignPayload :: "(string \<Rightarrow> string \<Rightarrow> string) \<Rightarrow> string \<Rightarrow> string \<Rightarrow> 64 word \<Rightarrow> string" where
  "SignPayload mac payload secret now =
     ''t='' @ itoaInt (sint now) @ '',v1='' @ ComputeSignature mac payload secret now"

text \<open>\<open>int64(tolerance.Seconds())\<close>.\<close>

definition toleranceSeconds :: "int \<Rightarrow> 64 word" where
  "toleranceSeconds tolerance = word_of_int (go_div tolerance second)"

text \<open>The age with its wrap-around: negated when negative.\<close>

definition signatureAge :: "64 word \<Rightarrow> 64 word \<Rightarrow> 64 word" where
  "signatureAge now ts = (let age = now - ts in if age <s 0 then - age else age)"

definition VerifySignature ::
  "(string \<Rightarrow> string \<Rightarrow> string) \<Rightarrow> 64 word \<Rightarrow> string \<Rightarrow> string \<Rightarrow> string \<Rightarrow> int \<Rightarrow> goerr option" where
  "VerifySignature mac now payload signature secret tolerance =
     (if signature = [] then Some (ESentinel ErrMissingSignature)
      else if secret = [] then Some (ENew ''missing signing secret'')
      else case ParseSignature signature of
             Inl err \<Rightarrow> Some err
           | Inr params \<Rightarrow>
               (let age = signatureAge now (sp_Timestamp params); limit = toleranceSeconds tolerance in
                if limit <s age
                then Some (EWrap (sentinelString ErrSignatureExpired @ '': signature is '' @
                       itoaInt (sint age) @ ''s old (max '' @ itoaInt (sint limit) @ ''s)'')
                       [ESentinel ErrSignatureExpired])
                else case sp_Signatures params ''v1'' of
                       None \<Rightarrow> Some (ENew ''missing v1 signature'')
                     | Some providedSig \<Rightarrow>
                         (case (hexDecode providedSig,
                                hexDecode (ComputeSignature mac payload secret (sp_Timestamp params))) of
                            (Some provided, Some expected) \<Rightarrow>
                              if provided \<noteq> expected then Some (ESentinel ErrInvalidSignature) else None
                          | _ \<Rightarrow> Some (ESentinel ErrInvalidSignature))))"

definition IsValidSignature ::
  "(string \<Rightarrow> string \<Rightarrow> string) \<Rightarrow> 64 word \<Rightarrow> string \<Rightarrow> string \<Rightarrow> string \<Rightarrow> int \<Rightarrow> bool" where
  "IsValidSignature mac now payload signature secret tolerance \<longleftrightarrow>
     VerifySignature mac now payload signature secret tolerance = None"

definition DefaultSignatureTolerance :: int where
  "DefaultSignatureTolerance = 5 * minute"

section \<open>Lemmas\<close>

lemma digitsValue_append:
  "digitsValue (xs @ ys) acc = (case digitsValue xs acc of None \<Rightarrow> None | Some a \<Rightarrow> digitsValue ys a)"
  by (induction xs arbitrary: acc) auto

lemma digitsValue_digit: "d < 10 \<Longrightarrow> digitsValue [digit_char d] acc = Some (10 * acc + d)"
  by (simp add: isDigit_digit_char) (simp add: digit_char_def)

lemma digitsValue_itoa: "digitsValue (itoa n) 0 = Some n"
proof (induction n rule: itoa.induct)
  case (1 n)
  show ?case
  proof (cases "n < 10")
    case True
    then show ?thesis by (subst itoa.simps) (simp add: digitsValue_digit del: digitsValue.simps)
  next
    case False
    with 1 show ?thesis
      by (subst itoa.simps) (simp add: digitsValue_append digitsValue_digit del: digitsValue.simps)
  qed
qed

lemma itoa_first: "itoa n = c # r \<Longrightarrow> c \<noteq> CHR ''-'' \<and> c \<noteq> CHR ''+''"
  using itoa_digits [of c n] by (auto simp: isDigit_def)

lemma parseInt64_itoaInt: "parseInt64 (itoaInt (sint (w :: 64 word))) = Some w"
proof -
  have r: "- (2 ^ 63) \<le> sint w" "sint w < 2 ^ 63" using sint_range_size [of w] by (simp_all add: word_size)
  show ?thesis
  proof (cases "sint w < 0")
    case True
    with r show ?thesis by (simp add: parseInt64_def itoaInt_def digitsValue_itoa Let_def)
  next
    case False
    obtain c s where cs: "itoa (nat (sint w)) = c # s" by (cases "itoa (nat (sint w))") auto
    have "parseInt64 (itoa (nat (sint w))) = Some (word_of_int (int (nat (sint w))))"
      using itoa_first [OF cs] r False digitsValue_itoa [of "nat (sint w)"]
      by (simp add: parseInt64_def cs Let_def del: digitsValue.simps)
    with False show ?thesis by (simp add: itoaInt_def)
  qed
qed

lemma trimSpace_id: "\<forall>c \<in> set s. \<not> isSpace c \<Longrightarrow> trimSpace s = s"
proof -
  assume a: "\<forall>c \<in> set s. \<not> isSpace c"
  then have "dropWhile isSpace s = s" by (cases s) auto
  moreover have "dropWhile isSpace (rev s) = rev s" using a by (cases s rule: rev_cases) auto
  ultimately show ?thesis by (simp add: trimSpace_def)
qed

lemma hexEncode_chars: "c \<in> set (hexEncode bs) \<Longrightarrow> \<exists>n < 16. c = hexDigit n"
proof (induction bs)
  case (Cons b bs)
  have "(of_char b :: nat) div 16 < 16" using of_char_lt [of b] by (simp add: less_mult_imp_div_less)
  moreover have "(of_char b :: nat) mod 16 < 16" by simp
  moreover from Cons.prems consider "c = hexDigit (of_char b div 16)" | "c = hexDigit (of_char b mod 16)"
    | "c \<in> set (hexEncode bs)" by auto
  ultimately show ?case using Cons.IH by cases blast+
qed simp

lemma hexDigit_plain: "n < 16 \<Longrightarrow> hexDigit n \<noteq> CHR '','' \<and> \<not> isSpace (hexDigit n)"
proof -
  assume "n < 16"
  then have "n \<in> set [0..<16]" by simp
  moreover have "\<forall>n \<in> set [0..<16]. hexDigit n \<noteq> CHR '','' \<and> \<not> isSpace (hexDigit n)" by code_simp
  ultimately show ?thesis by blast
qed

lemma hexEncode_plain:
  assumes "c \<in> set (hexEncode bs)"
  shows "c \<noteq> CHR '','' \<and> \<not> isSpace c"
proof -
  obtain n where "n < 16" "c = hexDigit n" using hexEncode_chars [OF assms] by blast
  then show ?thesis using hexDigit_plain [of n] by simp
qed

lemma itoaInt_plain: "c \<in> set (itoaInt i) \<Longrightarrow> c \<noteq> CHR '','' \<and> \<not> isSpace c"
  by (auto simp: itoaInt_def isDigit_def isSpace_def Let_def dest!: itoa_digits split: if_splits)

lemma ParseSignature_signed:
  assumes "now \<noteq> 0" and "sig = hexEncode bs"
  shows "ParseSignature (''t='' @ itoaInt (sint now) @ '',v1='' @ sig) =
    Inr \<lparr> sp_Timestamp = now, sp_Signatures = [''v1'' \<mapsto> sig] \<rparr>"
proof -
  have p: "\<forall>c \<in> set sig. c \<noteq> CHR '','' \<and> \<not> isSpace c"
    unfolding assms(2) by (intro ballI hexEncode_plain)
  have "splitOn CHR '','' ((''t='' @ itoaInt (sint now)) @ CHR '','' # (''v1='' @ sig)) =
      (''t='' @ itoaInt (sint now)) # splitOn CHR '','' (''v1='' @ sig)"
    by (rule splitOn_append) (auto dest: itoaInt_plain)
  also have "splitOn CHR '','' (''v1='' @ sig) = [''v1='' @ sig]"
    by (rule splitOn_no_sep) (use p in auto)
  finally have s: "splitOn CHR '','' (''t='' @ itoaInt (sint now) @ '',v1='' @ sig) =
      [''t='' @ itoaInt (sint now), ''v1='' @ sig]" by simp
  have t1: "trimSpace (''t='' @ itoaInt (sint now)) = ''t='' @ itoaInt (sint now)"
    by (rule trimSpace_id) (auto dest: itoaInt_plain simp: isSpace_def)
  have t2: "trimSpace (''v1='' @ sig) = ''v1='' @ sig"
    by (rule trimSpace_id) (use p in \<open>auto simp: isSpace_def\<close>)
  show ?thesis unfolding ParseSignature_def s
    using assms(1) t1 t2 by (simp add: parseInt64_itoaInt)
qed

lemma signed_header_verifies:
  assumes "secret \<noteq> []" and "t \<noteq> 0" and "\<not> toleranceSeconds tolerance <s signatureAge now t"
  shows "VerifySignature mac now payload (SignPayload mac payload secret t) secret tolerance = None"
proof -
  have "ParseSignature (SignPayload mac payload secret t) =
      Inr \<lparr> sp_Timestamp = t, sp_Signatures = [''v1'' \<mapsto> ComputeSignature mac payload secret t] \<rparr>"
    unfolding SignPayload_def by (rule ParseSignature_signed [OF assms(2)]) (rule ComputeSignature_def)
  moreover have "SignPayload mac payload secret t \<noteq> []" by (simp add: SignPayload_def)
  ultimately show ?thesis
    using assms(1,3) by (simp add: VerifySignature_def Let_def ComputeSignature_def)
qed

section \<open>Properties\<close>

text \<open>C27. Sign and verify round trip: a header produced by \<open>SignPayload\<close> at time \<open>t\<close> with a non-empty
  secret verifies for the same payload and secret at every time whose distance from \<open>t\<close> is within
  the tolerance.\<close>

theorem sign_verify_roundtrip:
  assumes "secret \<noteq> []" and "t \<noteq> 0" and "\<not> toleranceSeconds tolerance <s signatureAge now t"
  shows "VerifySignature mac now payload (SignPayload mac payload secret t) secret tolerance = None"
  by (rule signed_header_verifies [OF assms])

theorem sign_verify_roundtrip_witness:
  "VerifySignature (\<lambda>k m. rev m @ k) 1010 ''{}'' (SignPayload (\<lambda>k m. rev m @ k) ''{}'' ''key'' 1000) ''key''
     DefaultSignatureTolerance = None"
  by (rule sign_verify_roundtrip)
     (simp_all add: toleranceSeconds_def DefaultSignatureTolerance_def signatureAge_def duration_units
       go_div_nonneg word_sless_alt Let_def)

text \<open>C26. No forgery without the digest: an accepted header carries a \<open>v1\<close> value that decodes to the
  keyed hash of its own timestamp and the payload under a non-empty secret, and that timestamp
  passed the age check.\<close>

theorem accepted_signature_is_authentic:
  assumes "VerifySignature mac now payload header secret tolerance = None"
  shows "secret \<noteq> [] \<and> (\<exists>params sig. ParseSignature header = Inr params \<and> sp_Signatures params ''v1'' = Some sig
    \<and> hexDecode sig = Some (mac secret (itoaInt (sint (sp_Timestamp params)) @ ''.'' @ payload))
    \<and> \<not> toleranceSeconds tolerance <s signatureAge now (sp_Timestamp params))"
  using assms
  by (auto simp: VerifySignature_def Let_def ComputeSignature_def split: if_splits sum.splits option.splits)

theorem accepted_signature_is_authentic_witness:
  "\<exists>params. ParseSignature (SignPayload (\<lambda>k m. rev m @ k) ''{}'' ''key'' 1000) = Inr params"
proof -
  have "VerifySignature (\<lambda>k m. rev m @ k) 1000 ''{}'' (SignPayload (\<lambda>k m. rev m @ k) ''{}'' ''key'' 1000) ''key''
      DefaultSignatureTolerance = None"
    by (rule signed_header_verifies)
       (simp_all add: toleranceSeconds_def DefaultSignatureTolerance_def signatureAge_def duration_units
         go_div_nonneg word_sless_alt Let_def)
  from accepted_signature_is_authentic [OF this] show ?thesis by blast
qed

text \<open>The age check wraps: for a timestamp exactly \<open>2^63\<close> seconds before now the computed age is the
  smallest \<open>int64\<close>, negating it leaves it negative, and the check passes for every non-negative
  tolerance.\<close>

theorem signature_age_wraps:
  assumes "0 \<le>s limit"
  shows "signatureAge now (now - (push_bit 63 1 :: 64 word)) = push_bit 63 1 \<and>
    \<not> limit <s signatureAge now (now - (push_bit 63 1 :: 64 word))"
proof -
  have a: "signatureAge now (now - (push_bit 63 1 :: 64 word)) = push_bit 63 1"
    by (simp add: signatureAge_def Let_def)
  have "sint (push_bit 63 1 :: 64 word) = - (2 ^ 63)" by simp
  with a assms show ?thesis by (simp add: word_sless_alt word_sle_eq)
qed

theorem signature_age_wraps_witness:
  "\<not> (300 :: 64 word) <s signatureAge 1700000000 (1700000000 - push_bit 63 1)"
  using signature_age_wraps [of 300 1700000000] by (simp add: word_sle_eq)

end
