(* ===== verification/Encode_Guard.thy ===== *)
theory Encode_Guard
  imports Steps
begin

text \<open>
  The guard against values JSON cannot encode (\<^verbatim>\<open>src/ironflow/encode_guard.go\<close>), shared by the
  push handler and the job executor.
\<close>

record push_error =
  pe_Message :: string
  pe_Code :: string
  pe_StepID :: string
  pe_Retryable :: bool
  pe_RetryAfterMs :: int

definition codeSerializationError :: string where
  "codeSerializationError = ''SERIALIZATION_ERROR''"

text \<open>\<open>json.Marshal\<close> of a \<open>*StepResult\<close> runs its \<open>MarshalJSON\<close>; only the output can fail.\<close>

definition marshalStep :: "step_result \<Rightarrow> string + unit" where
  "marshalStep s =
     (case marshal (sr_Output s) of
        Inl m \<Rightarrow> Inl (''json: error calling MarshalJSON for type *ironflow.StepResult: '' @ m)
      | Inr _ \<Rightarrow> Inr ())"

fun encodableSteps :: "step_result list \<Rightarrow> step_result list \<times> push_error option" where
  "encodableSteps [] = ([], None)"
| "encodableSteps (s # steps) =
     (case marshalStep s of
        Inl m \<Rightarrow>
          ([], Some \<lparr> pe_Message = ''step '' @ quoted (sr_Name s) @ '' output is not JSON-encodable: '' @ m,
                      pe_Code = codeSerializationError, pe_StepID = sr_ID s, pe_Retryable = False,
                      pe_RetryAfterMs = 0 \<rparr>)
      | Inr _ \<Rightarrow> (let (kept, err) = encodableSteps steps in (s # kept, err)))"

definition encodeFailure :: "gval \<Rightarrow> step_result list \<Rightarrow> push_error option \<times> step_result list" where
  "encodeFailure result steps =
     (let (kept, stepErr) = encodableSteps steps in
      case stepErr of
        Some e \<Rightarrow> (Some e, kept)
      | None \<Rightarrow>
          (case marshal result of
             Inl m \<Rightarrow>
               (Some \<lparr> pe_Message = ''function result is not JSON-encodable: '' @ m,
                       pe_Code = codeSerializationError, pe_StepID = [], pe_Retryable = False,
                       pe_RetryAfterMs = 0 \<rparr>, steps)
           | Inr _ \<Rightarrow> (None, steps)))"

section \<open>What the guard guarantees\<close>

definition stepEncodable :: "step_result \<Rightarrow> bool" where
  "stepEncodable s = encodable (sr_Output s)"

lemma marshalStep_encodable: "marshalStep s = Inr () \<longleftrightarrow> stepEncodable s"
  by (cases "sr_Output s") (auto simp: marshalStep_def stepEncodable_def)

lemma encodableSteps_takeWhile: "fst (encodableSteps steps) = takeWhile stepEncodable steps"
proof (induction steps)
  case (Cons s steps)
  show ?case
  proof (cases "marshalStep s")
    case (Inl m)
    then have "\<not> stepEncodable s" using marshalStep_encodable [of s] by auto
    with Inl show ?thesis by simp
  next
    case (Inr u)
    then have "stepEncodable s" using marshalStep_encodable [of s] by auto
    with Inr Cons.IH show ?thesis by (simp add: case_prod_unfold Let_def)
  qed
qed simp

lemma encodableSteps_None: "snd (encodableSteps steps) = None \<longleftrightarrow> (\<forall>s \<in> set steps. stepEncodable s)"
proof (induction steps)
  case (Cons s steps)
  show ?case
  proof (cases "marshalStep s")
    case (Inl m)
    then show ?thesis using marshalStep_encodable [of s] by auto
  next
    case (Inr u)
    then show ?thesis using marshalStep_encodable [of s] Cons.IH by (simp add: case_prod_unfold Let_def)
  qed
qed simp

lemma encodableSteps_error:
  "snd (encodableSteps steps) = Some e \<Longrightarrow> pe_Code e = codeSerializationError \<and> \<not> pe_Retryable e"
  by (induction steps) (auto simp: case_prod_unfold Let_def split: sum.splits)

lemma encodeFailure_None:
  "fst (encodeFailure result steps) = None \<longleftrightarrow> encodable result \<and> (\<forall>s \<in> set steps. stepEncodable s)"
  using encodableSteps_None [of steps]
  by (cases result) (auto simp: encodeFailure_def case_prod_unfold Let_def split: option.splits)

lemma encodeFailure_Some:
  assumes "encodeFailure result steps = (Some e, kept)"
  shows "pe_Code e = codeSerializationError" "\<not> pe_Retryable e" "takeWhile stepEncodable steps = kept"
proof -
  have t: "snd (encodableSteps steps) = None \<Longrightarrow> takeWhile stepEncodable steps = steps"
    unfolding encodableSteps_None by (simp add: takeWhile_eq_all_conv)
  show "pe_Code e = codeSerializationError" "\<not> pe_Retryable e" "takeWhile stepEncodable steps = kept"
    using assms encodableSteps_error [of steps] encodableSteps_takeWhile [of steps] t
    by (auto simp: encodeFailure_def case_prod_unfold Let_def split: option.splits sum.splits)
qed

end
