(* ===== verification/Push_Handler.thy ===== *)
theory Push_Handler
  imports Workflow Functions Upcaster Signature Encode_Guard
begin

text \<open>
  The push-mode HTTP handler (\<^verbatim>\<open>src/ironflow/serve.go\<close>): routing, signature check, one
  invocation of a function, webhooks. A handler function is a total function of its context, the
  execution context and the world that returns or unwinds with a yield; panics other than yields
  propagate in the source and are outside the model. Decoding the request body, the environment
  variables and the HTTP call that emits a webhook's event are arguments.
\<close>

section \<open>Data\<close>

record run_info =
  ri_ID :: string
  ri_FunctionID :: string
  ri_Attempt :: int
  ri_MaxAttempts :: int
  ri_OnExhausted :: string
  ri_StartedAt :: int
  ri_Environment :: string

record fn_context =
  cx_Event :: event
  cx_Run :: run_info
  cx_Secrets :: "string \<rightharpoonup> string"

type_synonym handler = "fn_context \<Rightarrow> exec \<Rightarrow> world \<Rightarrow> gval outcome \<times> exec \<times> world"

record gofunction =
  gf_Config :: function_config
  gf_Handler :: handler

record push_event =
  pv_ID :: string
  pv_Name :: string
  pv_Version :: int
  pv_Data :: raw
  pv_Timestamp :: string
  pv_IdempotencyKey :: string
  pv_Source :: string
  pv_Metadata :: "(string \<times> json) list option"

record push_request =
  pq_RunID :: string
  pq_FunctionID :: string
  pq_Attempt :: int
  pq_MaxAttempts :: int
  pq_OnExhausted :: string
  pq_Event :: push_event
  pq_Steps :: "completed_step list"
  pq_Resume :: "resume_context option"
  pq_Secrets :: "string \<rightharpoonup> string"

record push_response =
  pp_Status :: string
  pp_Steps :: "step_result list"
  pp_Result :: gval
  pp_Error :: "push_error option"
  pp_Yield :: "yield_info option"

text \<open>What the process environment gives: \<open>GetAPIKey()\<close>, the variable \<open>IRONFLOW_ENV\<close> and the parsing
  of a timestamp.\<close>

record push_env =
  en_apiKey :: string
  en_environment :: string
  en_time :: "string \<Rightarrow> int option"

record webhook_event =
  we_Name :: string
  we_Data :: raw
  we_IdempotencyKey :: string

record http_request =
  hr_Method :: string
  hr_Path :: string
  hr_Body :: "goerr + string"
  hr_Signature :: string

text \<open>The body of the \<open>Emit\<close> request: \<open>data\<close> or \<open>dataValue\<close>, and the key when there is one; and what
  comes of sending it.\<close>

record emit_request =
  em_event :: string
  em_data :: "raw option"
  em_dataValue :: "raw option"
  em_idempotencyKey :: "string option"

datatype emit_answer =
    EmitNotBuilt goerr
  | EmitNotSent goerr
  | EmitStatus int string

record webhook =
  wh_ID :: string
  wh_Verify :: "(http_request \<Rightarrow> goerr option) option"
  wh_Transform :: "string \<Rightarrow> goerr + webhook_event"

record serve_handler =
  sh_functions :: "string \<rightharpoonup> gofunction"
  sh_webhooks :: "string \<rightharpoonup> webhook"
  sh_serverURL :: string
  sh_environment :: string
  sh_signingKey :: string
  sh_skipVerification :: bool
  sh_upcasters :: "upcaster_registry option"

record serve_config =
  sc_Functions :: "gofunction list"
  sc_Webhooks :: "webhook list"
  sc_ServerURL :: string
  sc_Environment :: string
  sc_SigningKey :: string
  sc_SkipVerification :: bool
  sc_Upcasters :: "upcaster_registry option"

text \<open>The maps \<open>Serve\<close> builds: a later entry with the same id replaces an earlier one.\<close>

definition functionMap :: "gofunction list \<Rightarrow> (string \<rightharpoonup> gofunction)" where
  "functionMap fns = fold (\<lambda>fn m. m(fc_ID (gf_Config fn) \<mapsto> fn)) fns Map.empty"

definition webhookMap :: "webhook list \<Rightarrow> (string \<rightharpoonup> webhook)" where
  "webhookMap whs = fold (\<lambda>wh m. m(wh_ID wh \<mapsto> wh)) whs Map.empty"

definition resolveEnvironment :: "push_env \<Rightarrow> string \<Rightarrow> string" where
  "resolveEnvironment env configured = (if configured \<noteq> [] then configured else en_environment env)"

definition Serve :: "push_env \<Rightarrow> serve_config \<Rightarrow> serve_handler" where
  "Serve env config =
     \<lparr> sh_functions = functionMap (sc_Functions config), sh_webhooks = webhookMap (sc_Webhooks config),
       sh_serverURL = sc_ServerURL config, sh_environment = resolveEnvironment env (sc_Environment config),
       sh_signingKey = sc_SigningKey config, sh_skipVerification = sc_SkipVerification config,
       sh_upcasters = sc_Upcasters config \<rparr>"

section \<open>One invocation\<close>

text \<open>The event the handler sees: upcast to the latest version when that works, else as sent. The
  zero time stands for a timestamp that does not parse.\<close>

definition upcastData :: "upcaster_registry option \<Rightarrow> string \<Rightarrow> raw \<Rightarrow> int \<Rightarrow> raw" where
  "upcastData upcasters name data version =
     (case upcasters of
        None \<Rightarrow> data
      | Some r \<Rightarrow> (case UpcastToLatest r name data version of Inl _ \<Rightarrow> data | Inr d \<Rightarrow> d))"

definition buildEvent :: "push_env \<Rightarrow> upcaster_registry option \<Rightarrow> push_event \<Rightarrow> event" where
  "buildEvent env upcasters e =
     \<lparr> ev_ID = pv_ID e, ev_Name = pv_Name e, ev_Version = pv_Version e,
       ev_RawData = upcastData upcasters (pv_Name e) (pv_Data e) (pv_Version e),
       ev_Timestamp = en_time env (pv_Timestamp e), ev_IdempotencyKey = pv_IdempotencyKey e,
       ev_Source = pv_Source e, ev_Metadata = pv_Metadata e, ev_EmittedBy = [] \<rparr>"

definition pushExec :: "push_env \<Rightarrow> serve_handler \<Rightarrow> gofunction \<Rightarrow> push_request \<Rightarrow> exec" where
  "pushExec env h fn req =
     (newExecutionContext (pq_RunID req) (pq_FunctionID req) (pq_Attempt req) (pq_Steps req) (pq_Resume req))
       \<lparr> ec_stepTimeout := fc_StepTimeout (gf_Config fn), ec_serverURL := sh_serverURL h,
         ec_environment := sh_environment h, ec_apiKey := en_apiKey env \<rparr>"

definition pushContext :: "push_env \<Rightarrow> serve_handler \<Rightarrow> push_request \<Rightarrow> world \<Rightarrow> fn_context" where
  "pushContext env h req w =
     \<lparr> cx_Event = buildEvent env (sh_upcasters h) (pq_Event req),
       cx_Run = \<lparr> ri_ID = pq_RunID req, ri_FunctionID = pq_FunctionID req, ri_Attempt = pq_Attempt req,
                  ri_MaxAttempts = pq_MaxAttempts req, ri_OnExhausted = pq_OnExhausted req,
                  ri_StartedAt = w_now w, ri_Environment = sh_environment h \<rparr>,
       cx_Secrets = pq_Secrets req \<rparr>"

text \<open>The handler under \<open>recover\<close>: a yield becomes an error, the input check goes first.\<close>

definition invokeHandler ::
  "gofunction \<Rightarrow> fn_context \<Rightarrow> exec \<Rightarrow> world \<Rightarrow> (gval \<times> goerr option) \<times> exec \<times> world" where
  "invokeHandler fn cx c w =
     (case validateEventInput (gf_Config fn) (cx_Event cx) of
        Some err \<Rightarrow> ((GNil, Some err), c, w)
      | None \<Rightarrow>
          (let (r, c1, w1) = gf_Handler fn cx c w in
           ((case r of Ret v err \<Rightarrow> (v, err) | Yield y \<Rightarrow> (GNil, Some (EYield y))), c1, w1)))"

text \<open>A result or step that JSON cannot encode turns success and yield into a failure.\<close>

definition guardEncoding :: "gval \<Rightarrow> goerr option \<Rightarrow> step_result list \<Rightarrow> goerr option" where
  "guardEncoding result execErr steps =
     (if (case execErr of None \<Rightarrow> True | Some e \<Rightarrow> isYieldSignal e \<noteq> None)
      then (case fst (encodeFailure result steps) of
              Some pe \<Rightarrow> Some (EIron (newError (pe_Message pe) (pe_Code pe) False))
            | None \<Rightarrow> execErr)
      else execErr)"

definition codeInvokeFailed :: string where
  "codeInvokeFailed = ''INVOKE_FAILED''"

definition pushErrorCode :: "goerr \<Rightarrow> string" where
  "pushErrorCode e =
     (case asIronflow e of
        Some i \<Rightarrow> ie_Code i
      | None \<Rightarrow> (case asInvoke e of Some _ \<Rightarrow> codeInvokeFailed | None \<Rightarrow> ''ERROR''))"

text \<open>Compensations run when some are registered and the failure is terminal.\<close>

definition compensateOnFailure :: "bool \<Rightarrow> int \<Rightarrow> int \<Rightarrow> string \<Rightarrow> exec \<Rightarrow> world \<Rightarrow> exec \<times> world" where
  "compensateOnFailure retryable attempt maxAttempts onExhausted c w =
     (if hasCompensations c \<and> isTerminalFailure retryable attempt maxAttempts onExhausted
      then executeCompensations c w else (c, w))"

definition executeHandler ::
  "push_env \<Rightarrow> serve_handler \<Rightarrow> gofunction \<Rightarrow> push_request \<Rightarrow> world \<Rightarrow> push_response \<times> world" where
  "executeHandler env h fn req w =
     (let ((result, err0), c1, w1) =
            invokeHandler fn (pushContext env h req w) (pushExec env h fn req) w;
          execErr = guardEncoding result err0 (ec_executedSteps c1)
      in case execErr of
           None \<Rightarrow>
             (\<lparr> pp_Status = ''completed'', pp_Steps = ec_executedSteps c1, pp_Result = result,
                pp_Error = None, pp_Yield = None \<rparr>, w1)
         | Some e \<Rightarrow>
             (case isYieldSignal e of
                Some y \<Rightarrow>
                  (\<lparr> pp_Status = ''yielded'', pp_Steps = ec_executedSteps c1, pp_Result = GNil,
                     pp_Error = None, pp_Yield = Some y \<rparr>, w1)
              | None \<Rightarrow>
                  (let retryable = isRetryable e;
                       (c2, w2) = compensateOnFailure retryable (pq_Attempt req) (pq_MaxAttempts req)
                                    (pq_OnExhausted req) c1 w1
                   in (\<lparr> pp_Status = ''failed'', pp_Steps = ec_executedSteps c2, pp_Result = GNil,
                         pp_Error = Some \<lparr> pe_Message = errorText e, pe_Code = pushErrorCode e,
                           pe_StepID = [], pe_Retryable = retryable,
                           pe_RetryAfterMs = retryAfterMs e retryable \<rparr>,
                         pp_Yield = None \<rparr>, w2))))"

section \<open>HTTP\<close>

text \<open>What is written: an error document, a push response or an accepted webhook event.\<close>

datatype http_body =
    ErrorBody string string
  | ResponseBody push_response
  | AcceptedBody webhook_event
  | NotEncodable

definition yieldEncodable :: "yield_info \<Rightarrow> bool" where
  "yieldEncodable y = (encodable (yi_Input y) \<and>
     (case yi_EventFilter y of None \<Rightarrow> True | Some f \<Rightarrow> encodable (ef_Payload f)))"

text \<open>\<open>sendJSON\<close>: a body that does not encode is replaced by a 500.\<close>

definition bodyEncodable :: "http_body \<Rightarrow> bool" where
  "bodyEncodable b =
     (case b of
        ResponseBody r \<Rightarrow> encodable (pp_Result r) \<and> list_all stepEncodable (pp_Steps r) \<and>
          (case pp_Yield r of None \<Rightarrow> True | Some y \<Rightarrow> yieldEncodable y)
      | AcceptedBody e \<Rightarrow> (case we_Data e of RawBad _ \<Rightarrow> False | _ \<Rightarrow> True)
      | _ \<Rightarrow> True)"

definition sendJSON :: "int \<Rightarrow> http_body \<Rightarrow> int \<times> http_body" where
  "sendJSON status body = (if bodyEncodable body then (status, body) else (500, NotEncodable))"

definition sendError :: "int \<Rightarrow> string \<Rightarrow> string \<Rightarrow> int \<times> http_body" where
  "sendError status code message = sendJSON status (ErrorBody code message)"

text \<open>\<open>handleWebhook\<close>; \<open>emit\<close> is the POST to the server. An object goes as \<open>data\<close>, any other value as
  \<open>dataValue\<close>; an event whose data is not a JSON document is not sent.\<close>

definition emitRequest :: "webhook_event \<Rightarrow> emit_request" where
  "emitRequest ev =
     (let object = (case we_Data ev of Raw (JObj _) \<Rightarrow> True | _ \<Rightarrow> False) in
      \<lparr> em_event = we_Name ev, em_data = (if object then Some (we_Data ev) else None),
        em_dataValue = (if object then None else Some (we_Data ev)),
        em_idempotencyKey = (if we_IdempotencyKey ev \<noteq> [] then Some (we_IdempotencyKey ev) else None) \<rparr>)"

definition handleWebhook ::
  "(emit_request \<Rightarrow> world \<Rightarrow> emit_answer \<times> world) \<Rightarrow> serve_handler \<Rightarrow> http_request
   \<Rightarrow> string \<Rightarrow> string \<Rightarrow> world \<Rightarrow> (int \<times> http_body) \<times> world" where
  "handleWebhook emit h r provider body w =
     (case sh_webhooks h provider of
        None \<Rightarrow> (sendError 404 ''WEBHOOK_NOT_FOUND'' (''webhook source not found: '' @ provider), w)
      | Some wh \<Rightarrow>
          (case (case wh_Verify wh of None \<Rightarrow> None | Some v \<Rightarrow> v r) of
             Some err \<Rightarrow> (sendError 401 ''VERIFY_FAILED'' (errorText err), w)
           | None \<Rightarrow>
               (case wh_Transform wh body of
                  Inl err \<Rightarrow> (sendError 400 ''TRANSFORM_FAILED'' (errorText err), w)
                | Inr ev \<Rightarrow>
                    if sh_serverURL h = [] then (sendJSON 200 (AcceptedBody ev), w)
                    else (case we_Data ev of
                            RawBad m \<Rightarrow> (sendError 500 ''EMIT_FAILED'' (''failed to marshal event: '' @ m), w)
                          | _ \<Rightarrow>
                              (let (answer, w1) = emit (emitRequest ev) w in
                               (case answer of
                                  EmitNotBuilt err \<Rightarrow>
                                    (sendError 500 ''EMIT_FAILED'' (''failed to build emit request: '' @ errorText err), w1)
                                | EmitNotSent err \<Rightarrow>
                                    (sendError 502 ''EMIT_FAILED'' (''failed to emit event: '' @ errorText err), w1)
                                | EmitStatus status respBody \<Rightarrow>
                                    if status \<ge> 400
                                    then (sendError 502 ''EMIT_FAILED'' (''server rejected event: '' @ respBody), w1)
                                    else (sendJSON 200 (AcceptedBody ev), w1)))))))"

text \<open>\<open>ServeHTTP\<close>. \<open>decode\<close> is \<open>json.Unmarshal\<close> into \<open>PushRequest\<close>, \<open>mac\<close> the keyed hash and \<open>now\<close>
  the time in seconds.\<close>

definition ServeHTTP ::
  "push_env \<Rightarrow> (string \<Rightarrow> string \<Rightarrow> string) \<Rightarrow> 64 word \<Rightarrow> (string \<Rightarrow> string + push_request)
   \<Rightarrow> (emit_request \<Rightarrow> world \<Rightarrow> emit_answer \<times> world) \<Rightarrow> serve_handler
   \<Rightarrow> http_request \<Rightarrow> world \<Rightarrow> (int \<times> http_body) \<times> world" where
  "ServeHTTP env mac now decode emit h r w =
     (if hr_Method r \<noteq> ''POST'' then (sendError 405 ''METHOD_NOT_ALLOWED'' ''only POST is allowed'', w)
      else case hr_Body r of
        Inl err \<Rightarrow> (sendError 400 ''BODY_READ_ERROR'' (''failed to read body: '' @ errorText err), w)
      | Inr body \<Rightarrow>
          (case cutPrefix ''/webhooks/'' (hr_Path r) of
             Some (p # provider) \<Rightarrow> handleWebhook emit h r (p # provider) body w
           | _ \<Rightarrow>
               (case (if sh_signingKey h \<noteq> [] \<and> \<not> sh_skipVerification h
                      then VerifySignature mac now body (hr_Signature r) (sh_signingKey h) DefaultSignatureTolerance
                      else None) of
                  Some err \<Rightarrow> (sendError 401 ''SIGNATURE_INVALID'' (errorText err), w)
                | None \<Rightarrow>
                    (case decode body of
                       Inl m \<Rightarrow> (sendError 400 ''INVALID_JSON'' (''failed to parse request: '' @ m), w)
                     | Inr req \<Rightarrow>
                         (case sh_functions h (pq_FunctionID req) of
                            None \<Rightarrow> (sendError 404 ''FUNCTION_NOT_FOUND''
                                      (''function not found: '' @ pq_FunctionID req), w)
                          | Some fn \<Rightarrow>
                              (let (response, w1) = executeHandler env h fn req w in
                               (case encodeFailure (pp_Result response) (pp_Steps response) of
                                  (Some pe, kept) \<Rightarrow>
                                    (sendJSON 200 (ResponseBody \<lparr> pp_Status = ''failed'', pp_Steps = kept,
                                       pp_Result = GNil, pp_Error = Some pe, pp_Yield = None \<rparr>), w1)
                                | (None, _) \<Rightarrow> (sendJSON 200 (ResponseBody response), w1))))))))"

section \<open>Lemmas\<close>

lemma guardEncoding_None:
  "guardEncoding result err steps = None \<Longrightarrow> err = None \<and> encodable result \<and> (\<forall>s \<in> set steps. stepEncodable s)"
  using encodeFailure_None [of result steps]
  by (auto simp: guardEncoding_def split: option.splits if_splits)

lemma guardEncoding_yield:
  assumes "guardEncoding result err steps = Some e" and "isYieldSignal e = Some y"
  shows "err = Some e \<and> encodable result \<and> (\<forall>s \<in> set steps. stepEncodable s)"
proof -
  have "isYieldSignal (EIron (newError m c r)) = None" for m c r
    by (simp add: isYieldSignal_def newError_def)
  with assms encodeFailure_None [of result steps] show ?thesis
    by (auto simp: guardEncoding_def split: option.splits if_splits)
qed

section \<open>Properties\<close>

text \<open>C25. Every push invocation answers with a consistent response: completed with an encodable result
  and steps and neither error nor yield, or yielded with a yield and encodable steps, or failed
  with an error and neither result nor yield.\<close>

theorem push_response_consistent:
  "(let r = fst (executeHandler env h fn req w) in
     (pp_Status r = ''completed'' \<and> pp_Error r = None \<and> pp_Yield r = None \<and> encodable (pp_Result r)
        \<and> list_all stepEncodable (pp_Steps r)) \<or>
     (pp_Status r = ''yielded'' \<and> pp_Error r = None \<and> pp_Yield r \<noteq> None \<and> pp_Result r = GNil
        \<and> list_all stepEncodable (pp_Steps r)) \<or>
     (pp_Status r = ''failed'' \<and> pp_Error r \<noteq> None \<and> pp_Yield r = None \<and> pp_Result r = GNil))"
proof -
  obtain result err0 c1 w1 where i: "invokeHandler fn (pushContext env h req w) (pushExec env h fn req) w
      = ((result, err0), c1, w1)" by (metis surj_pair)
  show ?thesis
  proof (cases "guardEncoding result err0 (ec_executedSteps c1)")
    case None
    with i guardEncoding_None [OF None] show ?thesis by (simp add: executeHandler_def list_all_iff Let_def)
  next
    case (Some e)
    show ?thesis
    proof (cases "isYieldSignal e")
      case None
      with Some i show ?thesis by (simp add: executeHandler_def list_all_iff Let_def case_prod_unfold)
    next
      case (Some y)
      with \<open>guardEncoding result err0 (ec_executedSteps c1) = Some e\<close> i guardEncoding_yield [OF _ Some]
      show ?thesis by (auto simp: executeHandler_def list_all_iff Let_def)
    qed
  qed
qed


definition demoHandler :: serve_handler where
  "demoHandler = \<lparr> sh_functions = Map.empty, sh_webhooks = Map.empty, sh_serverURL = [], sh_environment = [],
     sh_signingKey = ''key'', sh_skipVerification = False, sh_upcasters = None \<rparr>"

definition demoRequest :: push_request where
  "demoRequest = \<lparr> pq_RunID = ''r'', pq_FunctionID = ''charge'', pq_Attempt = 1, pq_MaxAttempts = 3,
     pq_OnExhausted = ''fail'',
     pq_Event = \<lparr> pv_ID = ''e'', pv_Name = ''ev'', pv_Version = 1, pv_Data = Raw JNull, pv_Timestamp = [],
       pv_IdempotencyKey = [], pv_Source = [], pv_Metadata = None \<rparr>,
     pq_Steps = [], pq_Resume = None, pq_Secrets = Map.empty \<rparr>"

abbreviation demoEnv :: push_env where
  "demoEnv \<equiv> \<lparr> en_apiKey = [], en_environment = [], en_time = \<lambda>_. None \<rparr>"

definition failingFn :: gofunction where
  "failingFn = \<lparr> gf_Config = demoConfig,
     gf_Handler = (\<lambda>cx c w. (Ret GNil (Some (newNonRetryableError ''no'')),
        registerCompensation ''pay'' (demoUndo ''refund'' None) c, w)) \<rparr>"




text \<open>The encode guard covers the result and the steps: unless the invocation yields a value that
  JSON cannot encode, every answer of a push request is written with the status it was given, and a
  200 for a push request carries only encodable parts.\<close>

theorem push_answer_is_encodable:
  assumes "hr_Method r = ''POST''" "hr_Body r = Inr body" and "cutPrefix ''/webhooks/'' (hr_Path r) = None"
    and "sh_signingKey h = []" and "decode body = Inr req" and "sh_functions h (pq_FunctionID req) = Some fn"
    and "\<forall>y. pp_Yield (fst (executeHandler env h fn req w)) = Some y \<longrightarrow> yieldEncodable y"
  shows "\<exists>resp. fst (ServeHTTP env mac now decode emit h r w) = (200, ResponseBody resp)
    \<and> bodyEncodable (ResponseBody resp)"
proof -
  obtain resp w1 where e: "executeHandler env h fn req w = (resp, w1)" by fastforce
  obtain pe kept where f: "encodeFailure (pp_Result resp) (pp_Steps resp) = (pe, kept)" by fastforce
  show ?thesis
  proof (cases pe)
    case None
    then have "encodable (pp_Result resp)" "\<forall>s \<in> set (pp_Steps resp). stepEncodable s"
      using encodeFailure_None [of "pp_Result resp" "pp_Steps resp"] f by auto
    then have "bodyEncodable (ResponseBody resp)"
      using assms(7) e by (auto simp: bodyEncodable_def list_all_iff split: option.splits)
    with None assms e f show ?thesis by (auto simp: ServeHTTP_def sendJSON_def)
  next
    case (Some x)
    have "\<forall>s \<in> set kept. stepEncodable s"
      using encodeFailure_Some(3) [of "pp_Result resp" "pp_Steps resp" x kept] f Some by (auto dest: set_takeWhileD)
    then have "bodyEncodable (ResponseBody \<lparr> pp_Status = ''failed'', pp_Steps = kept, pp_Result = GNil,
        pp_Error = Some x, pp_Yield = None \<rparr>)" by (simp add: bodyEncodable_def list_all_iff)
    with Some assms e f show ?thesis by (auto simp: ServeHTTP_def sendJSON_def)
  qed
qed

definition openHandler :: serve_handler where
  "openHandler = demoHandler \<lparr> sh_signingKey := [], sh_functions := [''charge'' \<mapsto> failingFn] \<rparr>"

abbreviation demoHTTP :: http_request where
  "demoHTTP \<equiv> \<lparr> hr_Method = ''POST'', hr_Path = ''/api'', hr_Body = Inr ''{}'', hr_Signature = [] \<rparr>"

lemma failing_no_yield: "pp_Yield (fst (executeHandler demoEnv openHandler failingFn demoRequest idleWorld)) = None"
proof -
  have n: "isYieldSignal (newNonRetryableError ''no'') = None"
    by (simp add: isYieldSignal_def newNonRetryableError_def)
  show ?thesis
    by (simp add: executeHandler_def invokeHandler_def failingFn_def validateEventInput_def demoConfig_def
        guardEncoding_def n Let_def case_prod_unfold)
qed

theorem push_answer_is_encodable_witness:
  "fst (fst (ServeHTTP demoEnv (\<lambda>k m. m) 0 (\<lambda>_. Inr demoRequest) (\<lambda>e w. (EmitNotSent ECanceled, w)) openHandler
     demoHTTP idleWorld)) = 200"
proof -
  have "\<exists>resp. fst (ServeHTTP demoEnv (\<lambda>k m. m) 0 (\<lambda>_. Inr demoRequest) (\<lambda>e w. (EmitNotSent ECanceled, w)) openHandler
     demoHTTP idleWorld) = (200, ResponseBody resp) \<and> bodyEncodable (ResponseBody resp)"
    by (rule push_answer_is_encodable [where req = demoRequest and fn = failingFn and body = "''{}''"])
       (simp_all add: openHandler_def demoRequest_def failing_no_yield [unfolded openHandler_def demoRequest_def])
  then show ?thesis by auto
qed

text \<open>The guard does not look at what a yield carries: a handler that invokes another function with
  an input JSON cannot encode yields, and the push request is answered with a 500 instead of a
  failure the engine can record.\<close>

theorem unencodable_invoke_input_is_500:
  assumes "hr_Method r = ''POST''" "hr_Body r = Inr body" and "cutPrefix ''/webhooks/'' (hr_Path r) = None"
    and "sh_signingKey h = []" and "decode body = Inr req" and "sh_functions h (pq_FunctionID req) = Some fn"
    and "fc_Validate (gf_Config fn) = None" and "pq_Steps req = []" "pq_Resume req = None"
    and "gf_Handler fn = (\<lambda>cx c w.
        (let (x, c1, w1) = invokeImpl jt rootContext T f (GBad m) [] c w in (x, c1, w1)))"
  shows "fst (ServeHTTP env mac now decode emit h r w) = (500, NotEncodable)"
proof -
  let ?c = "pushExec env h fn req"
  have rd: "ready ?c w"
    by (simp add: ready_def cancellationErr_def pushExec_def newExecutionContext_def emptyExec_def)
  have C: "ec_completedSteps ?c = Map.empty"
    using assms(8) by (simp add: pushExec_def newExecutionContext_def emptyExec_def)
  have E: "ec_executedSteps (afterCall rootContext f ?c hd' []) = []" for hd'
    by (simp add: root.afterCall_fields pushExec_def newExecutionContext_def emptyExec_def)
  define y where "y = invokeYield (callID rootContext f ?c) f (GBad m) []"
  have y: "\<not> yieldEncodable y"
    by (simp add: y_def invokeYield_def yieldEncodable_def newInvokeYield_def)
  have i: "invokeImpl jt rootContext T f (GBad m) [] ?c w =
      (Yield y, afterCall rootContext f ?c (ec_resumeHandled ?c) [], w)"
    by (simp add: root.invoke_call [OF rd] C y_def)
  have "executeHandler env h fn req w =
      (\<lparr> pp_Status = ''yielded'', pp_Steps = [], pp_Result = GNil, pp_Error = None, pp_Yield = Some y \<rparr>, w)"
    using assms(7,10)
    by (simp add: executeHandler_def invokeHandler_def validateEventInput_def i guardEncoding_def
        isYieldSignal_def encodeFailure_def E Let_def)
  with assms y show ?thesis
    by (simp add: ServeHTTP_def encodeFailure_def sendJSON_def bodyEncodable_def)
qed

definition chanFn :: gofunction where
  "chanFn = \<lparr> gf_Config = demoConfig, gf_Handler = (\<lambda>cx c w.
        (let (x, c1, w1) = invokeImpl \<lparr> jt_parse = \<lambda>_. None, jt_render = \<lambda>_. [] \<rparr> rootContext anyType ''child''
             (GBad ''json: unsupported type: chan int'') [] c w in (x, c1, w1))) \<rparr>"

theorem unencodable_invoke_input_is_500_witness:
  "fst (ServeHTTP demoEnv (\<lambda>k m. m) 0 (\<lambda>_. Inr demoRequest) (\<lambda>e w. (EmitNotSent ECanceled, w))
     (openHandler \<lparr> sh_functions := [''charge'' \<mapsto> chanFn] \<rparr>) demoHTTP idleWorld) = (500, NotEncodable)"
  by (rule unencodable_invoke_input_is_500 [where req = demoRequest and fn = chanFn and body = "''{}''"
        and jt = "\<lparr> jt_parse = \<lambda>_. None, jt_render = \<lambda>_. [] \<rparr>" and T = anyType and f = "''child''"
        and m = "''json: unsupported type: chan int''"])
     (simp_all add: openHandler_def demoHandler_def demoRequest_def chanFn_def demoConfig_def)

end
