(* ===== verification/Job_Executor.thy ===== *)
theory Job_Executor
  imports Push_Handler
begin

text \<open>
  Pull-mode execution (\<^verbatim>\<open>src/ironflow/job_executor.go\<close>), shared by the polling and the streaming
  worker: the step checkpointer, and one job from its assignment to its terminal report.
\<close>

section \<open>The step checkpointer\<close>

definition maxCheckpointSteps :: nat where
  "maxCheckpointSteps = 500"

text \<open>The executed steps as the handler appends them, the cursor, and every progress report sent with
  its offset and whether \<open>ReportProgress\<close> returned nil.\<close>

record ck_state =
  ck_rows :: "step_result list"
  ck_cursor :: nat
  ck_sent :: "(step_result list \<times> int \<times> bool) list"

text \<open>\<open>flush\<close>: \<open>live\<close> says that the context is not done, \<open>ack\<close> that the report returned nil. The slice is
  copied before the report goes out and the steps only ever grow at the end, so steps appended while
  it is under way change neither the report nor the cursor; they are appended after it here.\<close>

definition flush :: "int \<Rightarrow> bool \<Rightarrow> bool \<Rightarrow> ck_state \<Rightarrow> ck_state" where
  "flush base live ack s =
     (if \<not> live then s else
      let steps = take maxCheckpointSteps (drop (ck_cursor s) (ck_rows s));
          steps = fst (encodableSteps steps)
      in if steps = [] then s
         else s \<lparr> ck_sent := ck_sent s @ [(steps, base + int (ck_cursor s), ack)],
                  ck_cursor := (if ack then ck_cursor s + length steps else ck_cursor s) \<rparr>)"

definition ck_tail :: "int \<Rightarrow> ck_state \<Rightarrow> step_result list \<times> int" where
  "ck_tail base s = (drop (ck_cursor s) (ck_rows s), base + int (ck_cursor s))"

text \<open>The handler's goroutines and the checkpointer's ticker, in any interleaving, from an empty
  context until \<open>finish\<close> stops the ticker.\<close>

inductive checkpointed :: "int \<Rightarrow> ck_state \<Rightarrow> bool" for base where
  start: "checkpointed base \<lparr> ck_rows = [], ck_cursor = 0, ck_sent = [] \<rparr>"
| executed: "checkpointed base s \<Longrightarrow> checkpointed base (s \<lparr> ck_rows := ck_rows s @ [row] \<rparr>)"
| ticked: "checkpointed base s \<Longrightarrow> checkpointed base (flush base live ack s)"

definition acked :: "ck_state \<Rightarrow> step_result list" where
  "acked s = concat (map fst (filter (\<lambda>(_, _, ok). ok) (ck_sent s)))"

text \<open>A report is the slice of the executed steps its offset says.\<close>

definition slice :: "int \<Rightarrow> step_result list \<Rightarrow> step_result list \<times> int \<times> bool \<Rightarrow> bool" where
  "slice base rows r \<longleftrightarrow> (\<exists>k. fst (snd r) = base + int k \<and> k + length (fst r) \<le> length rows
     \<and> fst r = take (length (fst r)) (drop k rows) \<and> fst r \<noteq> [] \<and> length (fst r) \<le> maxCheckpointSteps
     \<and> (\<forall>s \<in> set (fst r). stepEncodable s))"

lemma slice_append: "slice base rows r \<Longrightarrow> slice base (rows @ ys) r"
proof -
  assume "slice base rows r"
  then obtain k where "fst (snd r) = base + int k" "k + length (fst r) \<le> length rows"
    "fst r = take (length (fst r)) (drop k rows)" "fst r \<noteq> []" "length (fst r) \<le> maxCheckpointSteps"
    "\<forall>s \<in> set (fst r). stepEncodable s"
    unfolding slice_def by blast
  then show ?thesis unfolding slice_def by (intro exI [of _ k]) simp
qed

lemma flush_slice:
  assumes "ck_cursor s \<le> length (ck_rows s)"
    and "steps = fst (encodableSteps (take maxCheckpointSteps (drop (ck_cursor s) (ck_rows s))))" "steps \<noteq> []"
  shows "slice base (ck_rows s) (steps, base + int (ck_cursor s), ack)"
    and "take (ck_cursor s + length steps) (ck_rows s) = take (ck_cursor s) (ck_rows s) @ steps"
    and "ck_cursor s + length steps \<le> length (ck_rows s)"
proof -
  let ?d = "drop (ck_cursor s) (ck_rows s)"
  have tw: "steps = takeWhile stepEncodable (take maxCheckpointSteps ?d)"
    using assms(2) by (simp add: encodableSteps_takeWhile)
  have t: "steps = take (length steps) ?d"
    using takeWhile_eq_take [of stepEncodable "take maxCheckpointSteps ?d"] tw
      length_takeWhile_le [of stepEncodable "take maxCheckpointSteps ?d"]
    by (metis length_take min.bounded_iff min.absorb1 take_take)
  have l: "length steps \<le> maxCheckpointSteps" "length steps \<le> length ?d"
    using tw length_takeWhile_le [of stepEncodable "take maxCheckpointSteps ?d"] by simp_all
  have e: "\<forall>x \<in> set steps. stepEncodable x" using tw by (auto dest: set_takeWhileD)
  show "ck_cursor s + length steps \<le> length (ck_rows s)" using l(2) assms(1) by simp
  then show "slice base (ck_rows s) (steps, base + int (ck_cursor s), ack)"
    using t l(1) e assms(3) by (auto simp: slice_def)
  show "take (ck_cursor s + length steps) (ck_rows s) = take (ck_cursor s) (ck_rows s) @ steps"
    using t by (metis take_add)
qed

lemma checkpointed_invariant:
  "checkpointed base s \<Longrightarrow> ck_cursor s \<le> length (ck_rows s) \<and> acked s = take (ck_cursor s) (ck_rows s)
     \<and> (\<forall>r \<in> set (ck_sent s). slice base (ck_rows s) r)"
proof (induction rule: checkpointed.induct)
  case (ticked s live ack)
  define steps where "steps = fst (encodableSteps (take maxCheckpointSteps (drop (ck_cursor s) (ck_rows s))))"
  show ?case
  proof (cases "steps = []")
    case True
    with ticked.IH show ?thesis by (auto simp: flush_def steps_def Let_def)
  next
    case False
    from ticked.IH have c: "ck_cursor s \<le> length (ck_rows s)" by simp
    note f = flush_slice [OF c steps_def False]
    show ?thesis
      using ticked.IH f False by (auto simp: flush_def steps_def [symmetric] acked_def Let_def)
  qed
qed (auto simp: acked_def slice_append)

section \<open>Jobs\<close>

record job_step =
  js_StepID :: string
  js_Name :: string
  js_Output :: raw
  js_Status :: string
  js_Error :: gval

record job_assignment =
  ja_JobID :: string
  ja_RunID :: string
  ja_FunctionID :: string
  ja_Attempt :: int
  ja_MaxAttempts :: int
  ja_OnExhausted :: string
  ja_Event :: push_event
  ja_MetadataRaw :: raw
  ja_CompletedSteps :: "job_step list"
  ja_StepSequenceBase :: int
  ja_Secrets :: "string \<rightharpoonup> string"
  ja_ExecutionSeq :: int
  ja_LeaseToken :: string

record error_context =
  er_FunctionID :: string
  er_JobID :: string
  er_RunID :: string
  er_Attempt :: int
  er_EventName :: string

record job_executor =
  je_functions :: "string \<rightharpoonup> gofunction"
  je_upcasters :: "upcaster_registry option"
  je_serverURL :: string
  je_apiKey :: string
  je_environment :: string
  je_onError :: "(goerr \<Rightarrow> error_context \<Rightarrow> world \<Rightarrow> world) option"

text \<open>The terminal report of a job: its steps and their offset.\<close>

datatype job_report =
    JobCompleted gval "step_result list" int
  | JobFailed push_error "step_result list" int
  | JobYielded yield_info "step_result list" int

text \<open>A stored output is raw bytes: none, a document, or bytes that are not JSON.\<close>

definition rawValue :: "raw \<Rightarrow> gval" where
  "rawValue r = (case r of
     RawNone \<Rightarrow> GNil | Raw j \<Rightarrow> GJson j
   | RawBad m \<Rightarrow> GBad (''json: error calling MarshalJSON for type json.RawMessage: '' @ m))"

definition jobCompletedStep :: "job_step \<Rightarrow> completed_step" where
  "jobCompletedStep s =
     \<lparr> cs_ID = js_StepID s, cs_Name = js_Name s,
       cs_Status = (if js_Status s = [] then ''completed'' else js_Status s),
       cs_Output = rawValue (js_Output s), cs_Error = js_Error s \<rparr>"

text \<open>The execution context of a job; the API key falls back to the environment's.\<close>

definition jobExec :: "push_env \<Rightarrow> job_executor \<Rightarrow> gofunction \<Rightarrow> job_assignment \<Rightarrow> bool \<Rightarrow> exec" where
  "jobExec env e fn job streaming =
     emptyExec \<lparr> ec_hasCtx := True, ec_runID := ja_RunID job, ec_functionID := ja_FunctionID job,
       ec_attempt := ja_Attempt job, ec_stepReporter := streaming,
       ec_completedSteps := indexCompleted (map jobCompletedStep (ja_CompletedSteps job)) Map.empty,
       ec_stepTimeout := fc_StepTimeout (gf_Config fn), ec_serverURL := je_serverURL e,
       ec_environment := resolveEnvironment env (je_environment e),
       ec_apiKey := (if je_apiKey e \<noteq> [] then je_apiKey e else en_apiKey env) \<rparr>"

text \<open>The event's metadata is decoded from raw bytes; anything but an object leaves it nil.\<close>

definition jobMetadata :: "raw \<Rightarrow> (string \<times> json) list option" where
  "jobMetadata r = (case r of Raw (JObj kvs) \<Rightarrow> Some kvs | _ \<Rightarrow> None)"

definition jobContext :: "push_env \<Rightarrow> job_executor \<Rightarrow> job_assignment \<Rightarrow> world \<Rightarrow> fn_context" where
  "jobContext env e job w =
     \<lparr> cx_Event = (buildEvent env (je_upcasters e) (ja_Event job)) \<lparr> ev_Metadata := jobMetadata (ja_MetadataRaw job) \<rparr>,
       cx_Run = \<lparr> ri_ID = ja_RunID job, ri_FunctionID = ja_FunctionID job, ri_Attempt = ja_Attempt job,
                  ri_MaxAttempts = ja_MaxAttempts job, ri_OnExhausted = ja_OnExhausted job,
                  ri_StartedAt = w_now w, ri_Environment = resolveEnvironment env (je_environment e) \<rparr>,
       cx_Secrets = ja_Secrets job \<rparr>"

definition callOnError :: "job_executor \<Rightarrow> goerr \<Rightarrow> job_assignment \<Rightarrow> world \<Rightarrow> world" where
  "callOnError e err job w =
     (case je_onError e of
        None \<Rightarrow> w
      | Some f \<Rightarrow> f err \<lparr> er_FunctionID = ja_FunctionID job, er_JobID = ja_JobID job, er_RunID = ja_RunID job,
                         er_Attempt = ja_Attempt job, er_EventName = pv_Name (ja_Event job) \<rparr> w)"

text \<open>\<open>finish\<close>: without a checkpointer no steps and offset 0; with one, its tail. \<open>cursor\<close> is how far
  the ticker got, \<open>wait\<close> the time it takes to stop.\<close>

definition finish :: "bool \<Rightarrow> int \<Rightarrow> nat \<Rightarrow> exec \<Rightarrow> step_result list \<times> int" where
  "finish streaming base cursor c =
     (if streaming then ([], 0)
      else ck_tail base \<lparr> ck_rows = ec_executedSteps c, ck_cursor = cursor, ck_sent = [] \<rparr>)"

text \<open>The error of a failed job, and the steps that go with it.\<close>

definition jobFailure :: "goerr \<Rightarrow> bool \<Rightarrow> step_result list \<Rightarrow> push_error \<times> step_result list" where
  "jobFailure execErr retryable steps =
     (let pe0 = \<lparr> pe_Message = errorText execErr, pe_Code = [], pe_StepID = [], pe_Retryable = retryable,
                  pe_RetryAfterMs = retryAfterMs execErr retryable \<rparr>;
          pe1 = (case asIronflow execErr of
                   Some i \<Rightarrow> if ie_Code i = codeSerializationError
                             then pe0 \<lparr> pe_Code := codeSerializationError \<rparr> else pe0
                 | None \<Rightarrow> pe0);
          (kept, stepErr) = encodableSteps steps;
          (pe2, steps2) = (case stepErr of
                             None \<Rightarrow> (pe1, steps)
                           | Some se \<Rightarrow> (if pe_Code pe1 = [] then se else pe1, kept))
      in (if pe_Code pe2 = [] \<and> asInvoke execErr \<noteq> None then pe2 \<lparr> pe_Code := codeInvokeFailed \<rparr> else pe2,
          steps2))"

text \<open>The handler call: nothing runs on a cancelled job.\<close>

definition jobInvoke ::
  "push_env \<Rightarrow> job_executor \<Rightarrow> gofunction \<Rightarrow> job_assignment \<Rightarrow> bool \<Rightarrow> world
   \<Rightarrow> (gval \<times> goerr option) \<times> exec \<times> world" where
  "jobInvoke env e fn job streaming w =
     (let c = jobExec env e fn job streaming in
      case cancellationErr c w of
        Some err \<Rightarrow> ((GNil, Some err), c, w)
      | None \<Rightarrow> invokeHandler fn (jobContext env e job w) c w)"

text \<open>The failure branch of \<open>execute\<close>.\<close>

definition failJob ::
  "job_executor \<Rightarrow> job_assignment \<Rightarrow> bool \<Rightarrow> (exec \<Rightarrow> nat) \<Rightarrow> (world \<Rightarrow> world) \<Rightarrow> goerr \<Rightarrow> exec \<Rightarrow> world
   \<Rightarrow> job_report option \<times> world" where
  "failJob e job streaming cursor wait err c1 w1 =
     (let retryable = isRetryable err;
          (c2, w2) = compensateOnFailure retryable (ja_Attempt job) (ja_MaxAttempts job)
                       (ja_OnExhausted job) c1 w1
      in if cancellationErr c2 w2 \<noteq> None then (None, w2)
         else
           let w3 = callOnError e err job w2;
               w4 = wait w3;
               (steps0, offset) = finish streaming (ja_StepSequenceBase job) (cursor c2) c2
           in if cancellationErr c2 w4 \<noteq> None then (None, w4)
              else
                let steps = (if streaming
                             then filter (\<lambda>s. sr_Type s = ''compensate'') (ec_executedSteps c2)
                             else steps0);
                    (pe, kept) = jobFailure err retryable steps
                in (Some (JobFailed pe kept offset), w4))"

text \<open>\<open>execute\<close>: the report it sends, if any, and the world it leaves.\<close>

definition execute ::
  "push_env \<Rightarrow> job_executor \<Rightarrow> bool \<Rightarrow> (exec \<Rightarrow> nat) \<Rightarrow> (world \<Rightarrow> world) \<Rightarrow> job_assignment \<Rightarrow> world
   \<Rightarrow> job_report option \<times> world" where
  "execute env e streaming cursor wait job w =
     (case je_functions e (ja_FunctionID job) of
        None \<Rightarrow>
          (let fnErr = ENew (''function not found: '' @ ja_FunctionID job) in
           (Some (JobFailed \<lparr> pe_Message = errorText fnErr, pe_Code = ''FUNCTION_NOT_FOUND'', pe_StepID = [],
                   pe_Retryable = False, pe_RetryAfterMs = 0 \<rparr> [] (ja_StepSequenceBase job)),
            callOnError e fnErr job w))
      | Some fn \<Rightarrow>
          (let ((result, err0), c1, w1) = jobInvoke env e fn job streaming w in
           if cancellationErr c1 w1 \<noteq> None then (None, w1)
           else
             (case guardEncoding result err0 (ec_executedSteps c1) of
                None \<Rightarrow>
                  (let w2 = wait w1;
                       (steps, offset) = finish streaming (ja_StepSequenceBase job) (cursor c1) c1
                   in if cancellationErr c1 w2 \<noteq> None then (None, w2)
                      else (Some (JobCompleted result steps offset), w2))
              | Some err \<Rightarrow>
                  (case isYieldSignal err of
                     Some y \<Rightarrow>
                       (let w2 = wait w1;
                            (steps, offset) = finish streaming (ja_StepSequenceBase job) (cursor c1) c1
                        in if cancellationErr c1 w2 \<noteq> None then (None, w2)
                           else (Some (JobYielded y steps offset), w2))
                   | None \<Rightarrow> failJob e job streaming cursor wait err c1 w1))))"

section \<open>Lemmas\<close>

lemma compensateOne_hasCtx: "ec_hasCtx (fst (compensateOne n fn c w)) = ec_hasCtx c"
  using root.gen_fields(1) [of "compensationName n" c]
  by (auto simp: compensateOne_def recordStep_def Let_def case_prod_unfold split: option.splits)

lemma compensationLoop_hasCtx: "ec_hasCtx (fst (compensationLoop comps c w)) = ec_hasCtx c"
proof (induction comps c w rule: compensationLoop.induct)
  case (2 n fn rest c w)
  then show ?case
    using compensateOne_hasCtx [of n fn c w] by (cases "compensateOne n fn c w") simp
qed simp

lemma compensateOnFailure_hasCtx: "ec_hasCtx (fst (compensateOnFailure r a m x c w)) = ec_hasCtx c"
  by (simp add: compensateOnFailure_def executeCompensations_def compensationLoop_hasCtx)

lemma jobInvoke_hasCtx:
  assumes "\<forall>cx c w. ec_hasCtx (fst (snd (gf_Handler fn cx c w))) = ec_hasCtx c"
  shows "ec_hasCtx (fst (snd (jobInvoke env e fn job streaming w)))"
proof -
  have "ec_hasCtx (jobExec env e fn job streaming)" by (simp add: jobExec_def)
  with assms show ?thesis
    by (auto simp: jobInvoke_def invokeHandler_def Let_def case_prod_unfold split: option.splits)
qed

lemma failJob_report:
  assumes "ec_hasCtx c1"
  shows "fst (failJob e job streaming cursor wait err c1 w1) = None \<longleftrightarrow>
    w_ctxErr (snd (failJob e job streaming cursor wait err c1 w1)) \<noteq> None"
proof -
  obtain c2 w2 where c2: "compensateOnFailure (isRetryable err) (ja_Attempt job) (ja_MaxAttempts job)
      (ja_OnExhausted job) c1 w1 = (c2, w2)" by fastforce
  then have h: "ec_hasCtx c2"
    using compensateOnFailure_hasCtx [of "isRetryable err" "ja_Attempt job" "ja_MaxAttempts job" "ja_OnExhausted job" c1 w1]
      assms by simp
  show ?thesis by (simp add: failJob_def c2 h cancellationErr_def case_prod_unfold Let_def)
qed

lemma finish_rows: "set (fst (finish streaming base k c)) \<subseteq> set (ec_executedSteps c)"
  by (auto simp: finish_def ck_tail_def dest: in_set_dropD)

lemma jobFailure_encodable: "s \<in> set (snd (jobFailure err r steps)) \<Longrightarrow> stepEncodable s"
  using encodableSteps_None [of steps] encodableSteps_takeWhile [of steps]
  by (auto simp: jobFailure_def Let_def case_prod_unfold split: option.splits dest: set_takeWhileD)

section \<open>Properties\<close>

text \<open>C7. Whatever the interleaving of the handler and the ticker, the acknowledged checkpoints followed by
  the tail of the terminal report are the executed steps in order, nothing lost and nothing twice; the
  tail's offset counts the acknowledged steps; and every progress report, acknowledged or not, is a
  non-empty run of at most 500 encodable steps at the offset it names.\<close>

theorem checkpoints_and_tail_are_the_steps:
  assumes "checkpointed base s"
  shows "acked s @ fst (ck_tail base s) = ck_rows s \<and> snd (ck_tail base s) = base + int (length (acked s))
    \<and> (\<forall>r \<in> set (ck_sent s). slice base (ck_rows s) r)"
  using checkpointed_invariant [OF assms] by (simp add: ck_tail_def)

theorem checkpoints_and_tail_are_the_steps_witness:
  "(let row = completedStep ''r:a:0'' ''a'' ''invoke'' 0 0 (GJson JNull);
        s0 = \<lparr> ck_rows = [], ck_cursor = 0, ck_sent = [] \<rparr>;
        s1 = flush 7 True False (s0 \<lparr> ck_rows := [row] \<rparr>);
        s2 = flush 7 True True s1;
        s3 = s2 \<lparr> ck_rows := ck_rows s2 @ [row] \<rparr>
    in ck_sent s3 = [([row], 7, False), ([row], 7, True)] \<and> acked s3 @ fst (ck_tail 7 s3) = [row, row]
       \<and> ck_tail 7 s3 = ([row], 8))"
proof -
  define row where "row = completedStep ''r:a:0'' ''a'' ''invoke'' 0 0 (GJson JNull)"
  define s0 where "s0 = \<lparr> ck_rows = [], ck_cursor = 0, ck_sent = [] \<rparr>"
  define s1 where "s1 = flush 7 True False (s0 \<lparr> ck_rows := [row] \<rparr>)"
  define s2 where "s2 = flush 7 True True s1"
  define s3 where "s3 = s2 \<lparr> ck_rows := ck_rows s2 @ [row] \<rparr>"
  have e: "marshalStep row = Inr ()"
    by (simp add: row_def completedStep_def marshalStep_def)
  have s1: "s1 = \<lparr> ck_rows = [row], ck_cursor = 0, ck_sent = [([row], 7, False)] \<rparr>"
    by (simp add: s1_def s0_def flush_def maxCheckpointSteps_def e Let_def)
  have s2: "s2 = \<lparr> ck_rows = [row], ck_cursor = 1, ck_sent = [([row], 7, False), ([row], 7, True)] \<rparr>"
    by (simp add: s2_def s1 flush_def maxCheckpointSteps_def e Let_def)
  have "checkpointed 7 (s0 \<lparr> ck_rows := ck_rows s0 @ [row] \<rparr>)"
    unfolding s0_def by (rule checkpointed.executed [OF checkpointed.start])
  then have "checkpointed 7 (s0 \<lparr> ck_rows := [row] \<rparr>)" by (simp add: s0_def)
  then have c: "checkpointed 7 s3"
    unfolding s3_def s2_def s1_def by (intro checkpointed.executed checkpointed.ticked)
  have "ck_rows s3 = [row, row]" "ck_tail 7 s3 = ([row], 8)" "ck_sent s3 = [([row], 7, False), ([row], 7, True)]"
    by (simp_all add: s3_def s2 ck_tail_def)
  with checkpoints_and_tail_are_the_steps [OF c] show ?thesis
    unfolding Let_def row_def [symmetric] s0_def [symmetric] s1_def [symmetric] s2_def [symmetric] s3_def [symmetric]
    by simp
qed

text \<open>C18. A job whose function is registered is reported exactly when it is not cancelled: \<open>execute\<close> sends
  one terminal report if and only if the context is still live when it ends, so a run taken away from
  this worker is never reported by it.\<close>

theorem job_reported_unless_cancelled:
  assumes "je_functions e (ja_FunctionID job) = Some fn"
    and "\<forall>cx c w. ec_hasCtx (fst (snd (gf_Handler fn cx c w))) = ec_hasCtx c"
  shows "fst (execute env e streaming cursor wait job w) = None \<longleftrightarrow>
    w_ctxErr (snd (execute env e streaming cursor wait job w)) \<noteq> None"
proof -
  obtain result err0 c1 w1 where i: "jobInvoke env e fn job streaming w = ((result, err0), c1, w1)"
    by (metis surj_pair)
  then have h: "ec_hasCtx c1" using jobInvoke_hasCtx [OF assms(2), of env e job streaming w] by simp
  show ?thesis
    using assms(1) i h failJob_report [OF h]
    by (auto simp: execute_def cancellationErr_def case_prod_unfold Let_def split: option.splits)
qed

definition demoJob :: job_assignment where
  "demoJob = \<lparr> ja_JobID = ''j'', ja_RunID = ''r'', ja_FunctionID = ''charge'', ja_Attempt = 1, ja_MaxAttempts = 3,
     ja_OnExhausted = ''fail'', ja_Event = pq_Event demoRequest, ja_MetadataRaw = RawNone,
     ja_CompletedSteps = [], ja_StepSequenceBase = 0, ja_Secrets = Map.empty, ja_ExecutionSeq = 0, ja_LeaseToken = [] \<rparr>"

definition demoExecutor :: "handler \<Rightarrow> job_executor" where
  "demoExecutor h = \<lparr> je_functions = [''charge'' \<mapsto> \<lparr> gf_Config = demoConfig, gf_Handler = h \<rparr>], je_upcasters = None,
     je_serverURL = [], je_apiKey = [], je_environment = [], je_onError = None \<rparr>"

definition cancelHandler :: handler where
  "cancelHandler cx c w = (Ret GNil None, c, w \<lparr> w_ctxErr := Some ECanceled \<rparr>)"

theorem job_reported_unless_cancelled_witness:
  "fst (execute demoEnv (demoExecutor cancelHandler) False (\<lambda>_. 0) (\<lambda>w. w) demoJob idleWorld) = None"
proof -
  let ?fn = "\<lparr> gf_Config = demoConfig, gf_Handler = cancelHandler \<rparr>"
  have f: "je_functions (demoExecutor cancelHandler) (ja_FunctionID demoJob) = Some ?fn"
    by (simp add: demoExecutor_def demoJob_def)
  have k: "\<forall>cx c w. ec_hasCtx (fst (snd (gf_Handler ?fn cx c w))) = ec_hasCtx c" by (simp add: cancelHandler_def)
  have "w_ctxErr (snd (execute demoEnv (demoExecutor cancelHandler) False (\<lambda>_. 0) (\<lambda>w. w) demoJob idleWorld)) \<noteq> None"
    by (simp add: execute_def f jobInvoke_def jobExec_def cancellationErr_def invokeHandler_def validateEventInput_def
        demoConfig_def cancelHandler_def)
  with job_reported_unless_cancelled [OF f k] show ?thesis by blast
qed

text \<open>The terminal report of a job always encodes, but for what a yield carries: the output and every
  step of a completed or yielded job, and every step of a failed one, are values JSON can encode.\<close>

theorem job_report_is_encodable:
  "case fst (execute env e streaming cursor wait job w) of
     None \<Rightarrow> True
   | Some (JobCompleted v steps _) \<Rightarrow> encodable v \<and> list_all stepEncodable steps
   | Some (JobFailed _ steps _) \<Rightarrow> list_all stepEncodable steps
   | Some (JobYielded _ steps _) \<Rightarrow> list_all stepEncodable steps"
proof (cases "je_functions e (ja_FunctionID job)")
  case None
  then show ?thesis by (simp add: list_all_iff execute_def)
next
  case (Some fn)
  obtain result err0 c1 w1 where i: "jobInvoke env e fn job streaming w = ((result, err0), c1, w1)"
    by (metis surj_pair)
  note fin = finish_rows [of streaming "ja_StepSequenceBase job" "cursor c1" c1]
  show ?thesis
  proof (cases "guardEncoding result err0 (ec_executedSteps c1)")
    case None
    with Some i fin guardEncoding_None [OF None] show ?thesis
      by (auto simp: list_all_iff execute_def case_prod_unfold Let_def)
  next
    case g: (Some err)
    show ?thesis
    proof (cases "isYieldSignal err")
      case None
      with Some i g show ?thesis
        by (auto simp: list_all_iff execute_def failJob_def case_prod_unfold Let_def dest: jobFailure_encodable)
    next
      case (Some y)
      with \<open>je_functions e (ja_FunctionID job) = Some fn\<close> i g fin guardEncoding_yield [OF g Some] show ?thesis
        by (auto simp: list_all_iff execute_def case_prod_unfold Let_def)
    qed
  qed
qed

text \<open>A retryable failure can be reported as a final one without its compensations. When the handler
  fails with a retryable error while attempts are left and one of its steps has an output JSON cannot
  encode, no compensation runs - the failure looked retryable - but the report says non-retryable
  \<open>SERIALIZATION_ERROR\<close>.\<close>

theorem retryable_failure_reported_final:
  assumes "je_functions e (ja_FunctionID job) = Some fn" and "je_onError e = None"
    and "jobInvoke env e fn job False w = ((v, Some err), c1, w1)" and "w_ctxErr w1 = None"
    and "isYieldSignal err = None" "isRetryable err" "asIronflow err = None"
    and "\<not> isTerminalFailure True (ja_Attempt job) (ja_MaxAttempts job) (ja_OnExhausted job)"
    and "\<exists>s \<in> set (drop (cursor c1) (ec_executedSteps c1)). \<not> stepEncodable s"
  shows "\<exists>pe kept offset. execute env e False cursor (\<lambda>w. w) job w = (Some (JobFailed pe kept offset), w1)
    \<and> \<not> pe_Retryable pe \<and> pe_Code pe = codeSerializationError"
proof -
  let ?tail = "drop (cursor c1) (ec_executedSteps c1)"
  have canc: "cancellationErr c1 w1 = None" using assms(4) by (simp add: cancellationErr_def)
  have g: "guardEncoding v (Some err) (ec_executedSteps c1) = Some err" using assms(5) by (simp add: guardEncoding_def)
  have "snd (encodableSteps ?tail) \<noteq> None" using assms(9) encodableSteps_None [of ?tail] by blast
  then obtain se where se: "snd (encodableSteps ?tail) = Some se" by blast
  note s = encodableSteps_error [OF se]
  have f: "jobFailure err True ?tail = (se, fst (encodableSteps ?tail))"
    using assms(7) se s by (simp add: jobFailure_def case_prod_unfold Let_def codeSerializationError_def)
  have k: "compensateOnFailure True (ja_Attempt job) (ja_MaxAttempts job) (ja_OnExhausted job) c1 w1 = (c1, w1)"
    using assms(8) by (simp add: compensateOnFailure_def)
  have "failJob e job False cursor (\<lambda>w. w) err c1 w1 =
      (Some (JobFailed se (fst (encodableSteps ?tail)) (ja_StepSequenceBase job + int (cursor c1))), w1)"
    using f assms(2,6)
    by (simp add: failJob_def k canc callOnError_def finish_def ck_tail_def)
  with assms(1,3,5) canc g s show ?thesis by (simp add: execute_def)
qed

definition lossyHandler :: handler where
  "lossyHandler cx c w = (Ret GNil (Some (ENew ''flaky'')),
     recordStep (completedStep ''r:a:0'' ''a'' ''invoke'' 0 0 (GBad ''json: unsupported type: chan int''))
       (registerCompensation ''pay'' (demoUndo ''refund'' None) c), w)"

theorem retryable_failure_reported_final_witness:
  "\<exists>pe kept offset. execute demoEnv (demoExecutor lossyHandler) False (\<lambda>_. 0) (\<lambda>w. w) demoJob idleWorld =
      (Some (JobFailed pe kept offset), idleWorld) \<and> \<not> pe_Retryable pe"
proof -
  let ?fn = "\<lparr> gf_Config = demoConfig, gf_Handler = lossyHandler \<rparr>"
  let ?e = "demoExecutor lossyHandler"
  let ?c = "fst (snd (lossyHandler undefined (jobExec demoEnv ?e ?fn demoJob False) idleWorld))"
  have f: "je_functions ?e (ja_FunctionID demoJob) = Some ?fn" "je_onError ?e = None"
    by (simp_all add: demoExecutor_def demoJob_def)
  have i: "jobInvoke demoEnv ?e ?fn demoJob False idleWorld = ((GNil, Some (ENew ''flaky'')), ?c, idleWorld)"
    by (simp add: jobInvoke_def cancellationErr_def invokeHandler_def validateEventInput_def demoConfig_def lossyHandler_def Let_def)
  have err: "isYieldSignal (ENew ''flaky'') = None" "isRetryable (ENew ''flaky'')" "asIronflow (ENew ''flaky'') = None"
    by (simp_all add: isYieldSignal_def isRetryable_def)
  have t: "\<not> isTerminalFailure True (ja_Attempt demoJob) (ja_MaxAttempts demoJob) (ja_OnExhausted demoJob)"
    by (simp add: isTerminalFailure_def demoJob_def)
  have s: "\<exists>s \<in> set (drop ((\<lambda>_. 0) ?c) (ec_executedSteps ?c)). \<not> stepEncodable s"
    by (simp add: lossyHandler_def recordStep_def registerCompensation_def stepEncodable_def completedStep_def)
  show ?thesis using retryable_failure_reported_final [OF f i _ err t s] by auto
qed

end
