(* ===== verification/Http_Client.thy ===== *)
theory Http_Client
  imports Complex_Main Errors
begin

text \<open>
  The HTTP side of the API client (\<^verbatim>\<open>src/ironflow/client.go\<close>, \<^verbatim>\<open>connect_errors.go\<close>, parts of
  \<^verbatim>\<open>errors.go\<close> and \<^verbatim>\<open>kv.go\<close>): how a failed response becomes an error on either transport, and the
  retry loop around a request. The request itself is a function of a state of any type.
\<close>

section \<open>Responses\<close>

text \<open>A response: status, headers by canonical name, the body's text and what JSON makes of it.\<close>

record http_response =
  rp_StatusCode :: int
  rp_Header :: "(string \<times> string) list"
  rp_Text :: string
  rp_Body :: raw

definition headerGet :: "(string \<times> string) list \<Rightarrow> string \<Rightarrow> string" where
  "headerGet hs k = (case map_of hs k of Some v \<Rightarrow> v | None \<Rightarrow> [])"

text \<open>Best-effort decoding of a string member: a body that is no object, or a member of another type,
  leaves the field empty.\<close>

definition bodyString :: "raw \<Rightarrow> string \<Rightarrow> string" where
  "bodyString body name =
     (case body of Raw (JObj kvs) \<Rightarrow> snd (assignString (fieldValues kvs name) []) | _ \<Rightarrow> [])"

fun assignBoolPtr :: "json list \<Rightarrow> bool option \<Rightarrow> bool option" where
  "assignBoolPtr [] v = v"
| "assignBoolPtr (j # js) v =
     assignBoolPtr js (case j of JNull \<Rightarrow> None | JBool b \<Rightarrow> Some b | _ \<Rightarrow> v)"

fun assignNumPtr :: "json list \<Rightarrow> string option \<Rightarrow> string option" where
  "assignNumPtr [] v = v"
| "assignNumPtr (j # js) v =
     assignNumPtr js (case j of JNull \<Rightarrow> None | JNum s \<Rightarrow> Some s | _ \<Rightarrow> v)"

text \<open>The standard library's readings of times: \<open>time.ParseDuration\<close>, \<open>http.ParseTime\<close> relative to now,
  and a floating-point number of seconds as a duration.\<close>

record time_readers =
  tm_duration :: "string \<Rightarrow> int option"
  tm_until :: "string \<Rightarrow> int option"
  tm_seconds :: "string \<Rightarrow> int"

definition parseRetryAfter :: "time_readers \<Rightarrow> string \<Rightarrow> int" where
  "parseRetryAfter tm value =
     (case tm_duration tm (value @ ''s'') of
        Some d \<Rightarrow> max d 0
      | None \<Rightarrow> (case tm_until tm value of Some d \<Rightarrow> max d 0 | None \<Rightarrow> 0))"

definition restRetrySignal :: "time_readers \<Rightarrow> int \<Rightarrow> (string \<times> string) list \<Rightarrow> raw \<Rightarrow> bool \<times> int" where
  "restRetrySignal tm status header body =
     (let kvs = (case body of Raw (JObj kvs) \<Rightarrow> kvs | _ \<Rightarrow> []);
          sigRetryable = assignBoolPtr (fieldValues kvs ''retryable'') None;
          sigAfter = assignNumPtr (fieldValues kvs ''retry_after'') None;
          byStatus = (status = 408 \<or> status = 429 \<or> (status \<ge> 500 \<and> status \<noteq> 501 \<and> status \<noteq> 507));
          retryable = (case sigRetryable of Some b \<Rightarrow> b | None \<Rightarrow> byStatus);
          h = headerGet header ''Retry-After'';
          retryAfter = (if h \<noteq> [] then parseRetryAfter tm h
                        else case sigAfter of
                               Some s \<Rightarrow> if tm_seconds tm s > 0 then tm_seconds tm s else 0
                             | None \<Rightarrow> 0)
      in (retryable, retryAfter))"

section \<open>Errors from responses\<close>

definition authHelp :: string where
  "authHelp = ''Set IRONFLOW_API_KEY (or the APIKey config field). ''
     @ ''The server writes a first-boot admin key to <db-dir>/.ironflow_bootstrap_key.json ''
     @ ''(dev default: .ironflow/.ironflow_bootstrap_key.json) and prints the exact path in its ''
     @ ''startup banner. Read it with: cat <path> | jq -r .key''"

text \<open>The UTF-8 bytes of an em dash between blanks.\<close>

definition emDash :: string where
  "emDash = [CHR '' '', CHR 0xE2, CHR 0x80, CHR 0x94, CHR '' '']"

definition serverMessage :: "http_response \<Rightarrow> string" where
  "serverMessage resp =
     (case rp_Body resp of
        Raw (JObj kvs) \<Rightarrow>
          (let (ok, m) = assignString (fieldValues kvs ''message'') [] in
           if \<not> ok \<or> m = [] then [] else '': '' @ m)
      | _ \<Rightarrow> [])"

definition environmentHintFor :: "string \<Rightarrow> string" where
  "environmentHintFor env =
     (if env = [] then []
      else ''The request used environment '' @ quoted env @ '' (from WorkerConfig.Environment or IRONFLOW_ENV); ''
        @ ''if the API key is correct, that environment may not match the key'' @ [CHR 0x27] @ ''s scope. '')"

text \<open>\<open>authError\<close>; \<open>env\<close> is the environment header of the request.\<close>

definition authError :: "string \<Rightarrow> http_response \<Rightarrow> string \<Rightarrow> goerr option" where
  "authError env resp what =
     (let details = [(''http_status'', DInt (rp_StatusCode resp))] in
      if rp_StatusCode resp = 401 then
        Some (EIron (IronflowError (what @ '': 401 unauthenticated. '' @ authHelp) ''unauthenticated'' False 0
          details (Some (ESentinel ErrUnauthorized))))
      else if rp_StatusCode resp = 403 then
        Some (EIron (IronflowError (what @ '': 403 forbidden'' @ serverMessage resp @ ''. '' @ environmentHintFor env @ authHelp)
          ''permission_denied'' False 0 details (Some (ESentinel ErrForbidden))))
      else None)"

definition errorReasonHeader :: string where
  "errorReasonHeader = ''Ironflow-Error-Reason''"

definition reasonInjectionUnverified :: string where
  "reasonInjectionUnverified = ''injection_unverified''"

definition abortedCause :: "string \<Rightarrow> sentinel" where
  "abortedCause reason = (if reason = reasonInjectionUnverified then ErrInjectionUnverified else ErrContended)"

definition errorFromResponse :: "time_readers \<Rightarrow> http_response \<Rightarrow> ironflow_error" where
  "errorFromResponse tm resp =
     (let status = rp_StatusCode resp;
          bodyCode = bodyString (rp_Body resp) ''code'';
          message = bodyString (rp_Body resp) ''message'';
          err = bodyString (rp_Body resp) ''error'';
          (retryable, retryAfter) = restRetrySignal tm status (rp_Header resp) (rp_Body resp);
          code = restErrorCode bodyCode status;
          msg0 = (if message \<noteq> [] then message else if err \<noteq> [] then err else ''HTTP '' @ itoaInt status);
          msg1 = (if bodyCode \<noteq> [] then code @ '': '' @ msg0 else msg0);
          (msg, cause) =
            (if status = 401 then (msg1 @ emDash @ authHelp, Some ErrUnauthorized)
             else if status = 402 then (msg1, Some ErrEnterpriseLicenseRequired)
             else if status = 403 then
               (if bodyCode \<noteq> ''SIGNED_URLS_DISABLED'' then msg1 @ emDash @ authHelp else msg1, Some ErrForbidden)
             else if status = 409 then
               (msg1, Some (if bodyCode = connectCodeString CodeAborted
                            then abortedCause (headerGet (rp_Header resp) errorReasonHeader) else ErrConflict))
             else if status = 412 then (msg1, Some ErrPreconditionFailed)
             else if status = 428 then (msg1, Some ErrPreconditionRequired)
             else if status = 413 then (msg1, Some ErrPayloadTooLarge)
             else if status = 415 then (msg1, Some ErrUnsupportedMediaType)
             else (msg1, None))
      in IronflowError msg code retryable retryAfter [(''http_status'', DInt status)] (map_option ESentinel cause))"

definition kvErrorFromResponse :: "time_readers \<Rightarrow> http_response \<Rightarrow> ironflow_error" where
  "kvErrorFromResponse tm resp =
     (let err = bodyString (rp_Body resp) ''error'';
          msg = (if err = [] then ''request failed with status '' @ itoaInt (rp_StatusCode resp) else err);
          (retryable, retryAfter) = restRetrySignal tm (rp_StatusCode resp) (rp_Header resp) (rp_Body resp);
          code = restErrorCode (bodyString (rp_Body resp) ''code'') (rp_StatusCode resp)
      in IronflowError msg code retryable retryAfter [(''http_status'', DInt (rp_StatusCode resp))]
           (if code = ''aborted'' then Some (ESentinel ErrContended) else None))"

text \<open>\<open>errors.As\<close> with target \<open>*connect.Error\<close>.\<close>

fun asConnect :: "goerr \<Rightarrow> (connect_code \<times> string \<times> (string \<times> string) list) option"
  and asConnect_iron :: "ironflow_error \<Rightarrow> (connect_code \<times> string \<times> (string \<times> string) list) option" where
  "asConnect (EConnect c m h) = Some (c, m, h)"
| "asConnect (EIron e) = asConnect_iron e"
| "asConnect (EStep e _ _) = asConnect_iron e"
| "asConnect (EStepTimeout e _ _) = asConnect_iron e"
| "asConnect (ENonRetryable e) = asConnect_iron e"
| "asConnect (EWrap _ es) = first_some asConnect es"
| "asConnect _ = None"
| "asConnect_iron (IronflowError _ _ _ _ _ c) = (case c of None \<Rightarrow> None | Some e \<Rightarrow> asConnect e)"

definition connectError :: "time_readers \<Rightarrow> goerr option \<Rightarrow> goerr option" where
  "connectError tm err0 =
     (case err0 of
        None \<Rightarrow> None
      | Some err \<Rightarrow>
          (case asConnect err of
             None \<Rightarrow> Some (EIron (wrapError err ''request failed'' ''REQUEST_FAILED'' True))
           | Some (code, m, meta) \<Rightarrow>
               (let name = connectCodeString code;
                    msg0 = name @ '': '' @ m;
                    (msg, cause) =
                      (case code of
                         CodeUnauthenticated \<Rightarrow> (msg0 @ emDash @ authHelp, ESentinel ErrUnauthorized)
                       | CodePermissionDenied \<Rightarrow> (msg0 @ emDash @ authHelp, ESentinel ErrForbidden)
                       | CodeAborted \<Rightarrow> (msg0, ESentinel (abortedCause (headerGet meta errorReasonHeader)))
                       | CodeAlreadyExists \<Rightarrow> (msg0, ESentinel ErrConflict)
                       | _ \<Rightarrow> (msg0, EConnect code m meta))
                in Some (EIron (IronflowError msg name (isRetryableConnectCode code)
                     (parseRetryAfter tm (headerGet meta ''Retry-After''))
                     [(''connect_code'', DStr name)] (Some cause))))))"

text \<open>\<open>newServerTooOld\<close>: the server lacks an RPC; not retryable.\<close>

definition newServerTooOld :: "string \<Rightarrow> string \<Rightarrow> string \<Rightarrow> goerr option \<Rightarrow> goerr" where
  "newServerTooOld rpc minVersion remedy cause =
     EIron (IronflowError (rpc @ '' needs Ironflow server >= '' @ minVersion @ ''; '' @ remedy) ''SERVER_TOO_OLD'' False 0 [] cause)"

section \<open>The retry policy\<close>

record retry_event =
  re_Attempt :: int
  re_MaxAttempts :: int
  re_Error :: goerr
  re_Delay :: int

text \<open>\<open>BackoffMultiplier\<close> is a finite \<open>float64\<close>, seen as the rational number it is.\<close>

record 'w client_retry_config =
  cr_MaxAttempts :: int
  cr_InitialDelay :: int
  cr_MaxDelay :: int
  cr_BackoffMultiplier :: rat
  cr_ConnectionRetryDelay :: int
  cr_OnRetry :: "(retry_event \<Rightarrow> 'w \<Rightarrow> 'w) option"

text \<open>The part of \<open>NewClient\<close> that sets up the retry configuration.\<close>

definition defaultRetryConfig :: "'w client_retry_config" where
  "defaultRetryConfig = \<lparr> cr_MaxAttempts = 3, cr_InitialDelay = 100 * millisecond, cr_MaxDelay = 10 * second,
     cr_BackoffMultiplier = 2, cr_ConnectionRetryDelay = 2 * second, cr_OnRetry = None \<rparr>"

definition newRetryConfig :: "'w client_retry_config option \<Rightarrow> 'w client_retry_config option" where
  "newRetryConfig cfg =
     (case cfg of
        None \<Rightarrow> Some defaultRetryConfig
      | Some r \<Rightarrow>
          if cr_MaxAttempts r = 0 then None
          else Some \<lparr> cr_MaxAttempts = cr_MaxAttempts r,
                 cr_InitialDelay = (if cr_InitialDelay r = 0 then 100 * millisecond else cr_InitialDelay r),
                 cr_MaxDelay = (if cr_MaxDelay r = 0 then 10 * second else cr_MaxDelay r),
                 cr_BackoffMultiplier = (if cr_BackoffMultiplier r = 0 then 2 else cr_BackoffMultiplier r),
                 cr_ConnectionRetryDelay =
                   (if cr_ConnectionRetryDelay r = 0 then 2 * second else cr_ConnectionRetryDelay r),
                 cr_OnRetry = cr_OnRetry r \<rparr>)"

definition isRateLimited :: "ironflow_error \<Rightarrow> bool" where
  "isRateLimited e =
     (map_of (ie_Details e) ''http_status'' = Some (DInt 429)
      \<or> map_of (ie_Details e) ''connect_code'' = Some (DStr (connectCodeString CodeResourceExhausted)))"

definition isNetworkError :: "goerr \<Rightarrow> bool" where
  "isNetworkError err =
     (let m = errorText err in
      containsStr ''connection refused'' m \<or> containsStr ''no such host'' m
      \<or> containsStr ''network is unreachable'' m \<or> containsStr ''dial tcp'' m)"

text \<open>\<open>time.Duration\<close> of a \<open>float64\<close> cuts off the fraction; \<open>rnd\<close> rounds to a \<open>float64\<close>.\<close>

definition truncRat :: "rat \<Rightarrow> int" where
  "truncRat x = (if x \<ge> 0 then \<lfloor>x\<rfloor> else \<lceil>x\<rceil>)"

definition backoffDelay :: "(rat \<Rightarrow> rat) \<Rightarrow> 'w client_retry_config \<Rightarrow> nat \<Rightarrow> int" where
  "backoffDelay rnd cfg attempt =
     (let d = ((\<lambda>x. rnd (x * cr_BackoffMultiplier cfg)) ^^ (attempt - 1)) (rnd (of_int (cr_InitialDelay cfg)));
          d = (if d > rnd (of_int (cr_MaxDelay cfg)) then rnd (of_int (cr_MaxDelay cfg)) else d)
      in truncRat d)"

definition retryDelay :: "(rat \<Rightarrow> rat) \<Rightarrow> 'w client_retry_config \<Rightarrow> nat \<Rightarrow> ironflow_error \<Rightarrow> int" where
  "retryDelay rnd cfg attempt e =
     (let isConnectionError = (ie_Code e = ''CONNECTION_REFUSED'' \<or> isNetworkError (EIron e));
          delay = (if isConnectionError then cr_ConnectionRetryDelay cfg else backoffDelay rnd cfg attempt)
      in if ie_RetryAfter e > delay then min (ie_RetryAfter e) (cr_MaxDelay cfg) else delay)"

definition onRetry :: "'w client_retry_config \<Rightarrow> retry_event \<Rightarrow> 'w \<Rightarrow> 'w" where
  "onRetry cfg ev w = (case cr_OnRetry cfg of Some f \<Rightarrow> f ev w | None \<Rightarrow> w)"

text \<open>The loop of \<open>withRetry\<close> from attempt \<open>attempt\<close> on. \<open>sleep\<close> waits for the delay or the end of the
  context, whose error it then gives.\<close>

function retryLoop ::
  "(rat \<Rightarrow> rat) \<Rightarrow> 'w client_retry_config \<Rightarrow> bool \<Rightarrow> ('w \<Rightarrow> goerr option \<times> 'w) \<Rightarrow> (int \<Rightarrow> 'w \<Rightarrow> goerr option \<times> 'w)
   \<Rightarrow> nat \<Rightarrow> goerr option \<Rightarrow> 'w \<Rightarrow> goerr option \<times> 'w" where
  "retryLoop rnd cfg write exec sleep attempt lastErr w =
     (if \<not> int attempt \<le> cr_MaxAttempts cfg then (lastErr, w)
      else
        case exec w of
          (None, w1) \<Rightarrow> (None, w1)
        | (Some err, w1) \<Rightarrow>
            (case err of
               EIron e \<Rightarrow>
                 if \<not> ie_Retryable e \<or> write \<and> \<not> isRateLimited e then (Some err, w1)
                 else if int attempt = cr_MaxAttempts cfg then (Some err, w1)
                 else
                   let delay = retryDelay rnd cfg attempt e;
                       w2 = onRetry cfg \<lparr> re_Attempt = int attempt, re_MaxAttempts = cr_MaxAttempts cfg,
                              re_Error = err, re_Delay = delay \<rparr> w1
                   in (case sleep delay w2 of
                         (Some ctxErr, w3) \<Rightarrow> (Some ctxErr, w3)
                       | (None, w3) \<Rightarrow> retryLoop rnd cfg write exec sleep (attempt + 1) (Some err) w3)
             | _ \<Rightarrow> (Some err, w1)))"
  by pat_completeness auto
termination
  by (relation "measure (\<lambda>(rnd, cfg, write, exec, sleep, attempt, lastErr, w). nat (cr_MaxAttempts cfg + 1) - attempt)") auto

declare retryLoop.simps [simp del]

definition withRetry ::
  "(rat \<Rightarrow> rat) \<Rightarrow> 'w client_retry_config option \<Rightarrow> bool \<Rightarrow> ('w \<Rightarrow> goerr option \<times> 'w)
   \<Rightarrow> (int \<Rightarrow> 'w \<Rightarrow> goerr option \<times> 'w) \<Rightarrow> 'w \<Rightarrow> goerr option \<times> 'w" where
  "withRetry rnd retryConfig write exec sleep w =
     (case retryConfig of
        None \<Rightarrow> exec w
      | Some cfg \<Rightarrow> retryLoop rnd cfg write exec sleep 1 None w)"

section \<open>Requests\<close>

record http_call =
  hc_Method :: string
  hc_URL :: string
  hc_Header :: "string \<rightharpoonup> string"
  hc_Body :: "json option"

text \<open>What comes of sending a request.\<close>

datatype transport =
    NotCreated goerr
  | NotSent goerr
  | NotRead goerr
  | Answered http_response

record 'w client =
  cl_serverURL :: string
  cl_apiKey :: string
  cl_environment :: string
  cl_retryConfig :: "'w client_retry_config option"

definition requestHeader :: "'w client \<Rightarrow> string \<Rightarrow> bool \<Rightarrow> (string \<times> string) list \<Rightarrow> (string \<rightharpoonup> string)" where
  "requestHeader c runID hasBody headers =
     Map.empty ++ (if hasBody then [''Content-Type'' \<mapsto> ''application/json''] else Map.empty)
       ++ (if cl_apiKey c \<noteq> [] then [''Authorization'' \<mapsto> ''Bearer '' @ cl_apiKey c] else Map.empty)
       ++ (if cl_environment c \<noteq> [] then [''X-Ironflow-Environment-ID'' \<mapsto> cl_environment c] else Map.empty)
       ++ (if runID \<noteq> [] then [''X-Ironflow-Run-ID'' \<mapsto> runID] else Map.empty)
       ++ map_of headers"

text \<open>\<open>executeRequest\<close>; \<open>decode\<close> is \<open>json.Unmarshal\<close> into the result, when there is one.\<close>

definition executeRequest ::
  "time_readers \<Rightarrow> (http_call \<Rightarrow> 'w \<Rightarrow> transport \<times> 'w) \<Rightarrow> (raw \<Rightarrow> goerr option) option \<Rightarrow> http_call \<Rightarrow> 'w
   \<Rightarrow> goerr option \<times> 'w" where
  "executeRequest tm send decode call w =
     (case send call w of
        (NotCreated err, w1) \<Rightarrow> (Some (EIron (wrapError err ''failed to create request'' ''REQUEST_ERROR'' True)), w1)
      | (NotSent err, w1) \<Rightarrow> (Some (EIron (wrapError err ''request failed'' ''REQUEST_FAILED'' True)), w1)
      | (NotRead err, w1) \<Rightarrow> (Some (EIron (wrapError err ''failed to read response'' ''RESPONSE_ERROR'' True)), w1)
      | (Answered resp, w1) \<Rightarrow>
          if rp_StatusCode resp \<ge> 400 then (Some (EIron (errorFromResponse tm resp)), w1)
          else (case decode of
                  None \<Rightarrow> (None, w1)
                | Some f \<Rightarrow>
                    (case f (rp_Body resp) of
                       Some err \<Rightarrow> (Some (EIron (wrapError err ''failed to unmarshal response'' ''UNMARSHAL_ERROR'' False)), w1)
                     | None \<Rightarrow> (None, w1))))"

definition requestAsWithHeaders ::
  "time_readers \<Rightarrow> (rat \<Rightarrow> rat) \<Rightarrow> (int \<Rightarrow> 'w \<Rightarrow> goerr option \<times> 'w) \<Rightarrow> (http_call \<Rightarrow> 'w \<Rightarrow> transport \<times> 'w)
   \<Rightarrow> (raw \<Rightarrow> goerr option) option \<Rightarrow> 'w client \<Rightarrow> string \<Rightarrow> bool \<Rightarrow> string \<Rightarrow> string \<Rightarrow> (string \<times> string) list
   \<Rightarrow> gval \<Rightarrow> 'w \<Rightarrow> goerr option \<times> 'w" where
  "requestAsWithHeaders tm rnd sleep send decode c runID write method path headers body w =
     (let call = (\<lambda>b. \<lparr> hc_Method = method, hc_URL = cl_serverURL c @ path,
                       hc_Header = requestHeader c runID (b \<noteq> None) headers, hc_Body = b \<rparr>);
          go = (\<lambda>b. withRetry rnd (cl_retryConfig c) write (executeRequest tm send decode (call b)) sleep w)
      in if body = GNil then go None
         else (case marshal body of
                 Inl m \<Rightarrow> (Some (EIron (wrapError (ENew m) ''failed to marshal request body'' ''MARSHAL_ERROR'' False)), w)
               | Inr b \<Rightarrow> go (Some b)))"

text \<open>Which requests count as writes: \<open>requestWith\<close> and \<open>requestWithHeaders\<close>. \<open>noSideEffectRPCs\<close> are the
  paths the protocol definitions mark as reads.\<close>

definition requestIsWrite :: "string set \<Rightarrow> string \<Rightarrow> string \<Rightarrow> bool" where
  "requestIsWrite noSideEffectRPCs method path =
     ((method = ''POST'' \<or> method = ''PATCH'') \<and> path \<notin> noSideEffectRPCs)"

definition requestWith ::
  "time_readers \<Rightarrow> (rat \<Rightarrow> rat) \<Rightarrow> (int \<Rightarrow> 'w \<Rightarrow> goerr option \<times> 'w) \<Rightarrow> (http_call \<Rightarrow> 'w \<Rightarrow> transport \<times> 'w)
   \<Rightarrow> (raw \<Rightarrow> goerr option) option \<Rightarrow> string set \<Rightarrow> 'w client \<Rightarrow> string \<Rightarrow> string \<Rightarrow> string
   \<Rightarrow> gval \<Rightarrow> 'w \<Rightarrow> goerr option \<times> 'w" where
  "requestWith tm rnd sleep send decode noSideEffectRPCs c runID method path body w =
     requestAsWithHeaders tm rnd sleep send decode c runID (requestIsWrite noSideEffectRPCs method path)
       method path [] body w"

definition requestWithHeaders ::
  "time_readers \<Rightarrow> (rat \<Rightarrow> rat) \<Rightarrow> (int \<Rightarrow> 'w \<Rightarrow> goerr option \<times> 'w) \<Rightarrow> (http_call \<Rightarrow> 'w \<Rightarrow> transport \<times> 'w)
   \<Rightarrow> (raw \<Rightarrow> goerr option) option \<Rightarrow> 'w client \<Rightarrow> string \<Rightarrow> string \<Rightarrow> string \<Rightarrow> (string \<times> string) list
   \<Rightarrow> gval \<Rightarrow> 'w \<Rightarrow> goerr option \<times> 'w" where
  "requestWithHeaders tm rnd sleep send decode c runID method path headers body w =
     requestAsWithHeaders tm rnd sleep send decode c runID (method \<noteq> ''GET'') method path headers body w"

section \<open>Lemmas\<close>

text \<open>Recording the answers of the attempts, for requests, waits and callbacks that do not look at the
  record.\<close>

definition logged :: "('w \<Rightarrow> 'a \<times> 'w) \<Rightarrow> 'w \<times> 'a list \<Rightarrow> 'a \<times> 'w \<times> 'a list" where
  "logged f s = (let (a, w) = f (fst s) in (a, w, snd s @ [a]))"

definition unlogged :: "('w \<Rightarrow> 'a \<times> 'w) \<Rightarrow> 'w \<times> 'l \<Rightarrow> 'a \<times> 'w \<times> 'l" where
  "unlogged f s = (let (a, w) = f (fst s) in (a, w, snd s))"

definition overLog :: "'w client_retry_config \<Rightarrow> ('w \<times> 'l) client_retry_config" where
  "overLog cfg = \<lparr> cr_MaxAttempts = cr_MaxAttempts cfg, cr_InitialDelay = cr_InitialDelay cfg,
     cr_MaxDelay = cr_MaxDelay cfg, cr_BackoffMultiplier = cr_BackoffMultiplier cfg,
     cr_ConnectionRetryDelay = cr_ConnectionRetryDelay cfg,
     cr_OnRetry = map_option (\<lambda>f ev s. (f ev (fst s), snd s)) (cr_OnRetry cfg) \<rparr>"

lemma overLog_simps [simp]:
  "cr_MaxAttempts (overLog cfg) = cr_MaxAttempts cfg" "retryDelay rnd (overLog cfg) n e = retryDelay rnd cfg n e"
  by (simp_all add: overLog_def retryDelay_def backoffDelay_def Let_def)

lemma overLog_onRetry [simp]: "onRetry (overLog cfg) ev (w, l) = (onRetry cfg ev w, l)"
  by (simp add: overLog_def onRetry_def split: option.splits)

text \<open>An answer after which a request may be sent again.\<close>

definition resendable :: "bool \<Rightarrow> goerr option \<Rightarrow> bool" where
  "resendable write a \<longleftrightarrow> (\<exists>e. a = Some (EIron e) \<and> ie_Retryable e \<and> (write \<longrightarrow> isRateLimited e))"

lemma retryLoop_log:
  assumes "retryLoop rnd (overLog cfg) write (logged f) (\<lambda>d. unlogged (sleep d)) attempt lastErr (w, l) = (r, w', l')"
    and "int attempt \<le> cr_MaxAttempts cfg"
  shows "\<exists>answers. l' = l @ answers \<and> answers \<noteq> [] \<and> list_all (resendable write) (butlast answers)
    \<and> int attempt + int (length answers) \<le> cr_MaxAttempts cfg + 1
    \<and> (r = last answers \<or> resendable write (last answers))"
  using assms
proof (induction "nat (cr_MaxAttempts cfg) - attempt" arbitrary: attempt lastErr w l rule: less_induct)
  case less
  obtain a w1 where f: "f w = (a, w1)" by fastforce
  note loop = less.prems(1) [unfolded retryLoop.simps [where attempt = attempt]]
  show ?case
  proof (cases "resendable write a \<and> int attempt \<noteq> cr_MaxAttempts cfg")
    case False
    have "r = a \<and> l' = l @ [a]"
      using loop f False less.prems(2)
      by (auto simp: logged_def resendable_def split: option.splits goerr.splits if_splits)
    with less.prems(2) show ?thesis by auto
  next
    case True
    then obtain e where e: "a = Some (EIron e)" "ie_Retryable e" "write \<longrightarrow> isRateLimited e" by (auto simp: resendable_def)
    define delay where "delay = retryDelay rnd cfg attempt e"
    define w2 where "w2 = onRetry cfg \<lparr> re_Attempt = int attempt, re_MaxAttempts = cr_MaxAttempts cfg,
        re_Error = EIron e, re_Delay = delay \<rparr> w1"
    obtain d w3 where s: "sleep delay w2 = (d, w3)" by fastforce
    have nw: "\<not> (write \<and> \<not> isRateLimited e)" using e(3) by blast
    have step: "(case d of Some c \<Rightarrow> (Some c, w3, l @ [Some (EIron e)])
        | None \<Rightarrow> retryLoop rnd (overLog cfg) write (logged f) (\<lambda>d. unlogged (sleep d)) (attempt + 1) (Some (EIron e)) (w3, l @ [Some (EIron e)]))
        = (r, w', l')"
      using loop f e(1,2) nw True less.prems(2) s
      by (simp add: logged_def unlogged_def delay_def w2_def Let_def)
    show ?thesis
    proof (cases d)
      case (Some c)
      with step True less.prems(2) e(1) show ?thesis by auto
    next
      case None
      have m: "nat (cr_MaxAttempts cfg) - (attempt + 1) < nat (cr_MaxAttempts cfg) - attempt"
        "int (attempt + 1) \<le> cr_MaxAttempts cfg" using True less.prems(2) by auto
      from None step have "retryLoop rnd (overLog cfg) write (logged f) (\<lambda>d. unlogged (sleep d)) (attempt + 1)
          (Some (EIron e)) (w3, l @ [a]) = (r, w', l')" using e(1) by simp
      from less.hyps [OF m(1) this m(2)] obtain answers where
        i: "l' = (l @ [a]) @ answers" "answers \<noteq> []" "list_all (resendable write) (butlast answers)"
          "int (attempt + 1) + int (length answers) \<le> cr_MaxAttempts cfg + 1"
          "r = last answers \<or> resendable write (last answers)" by blast
      show ?thesis by (rule exI [of _ "a # answers"]) (use i True in auto)
    qed
  qed
qed

lemma truncRat_le: "x \<le> of_int n \<Longrightarrow> truncRat x \<le> n"
  by (auto simp: truncRat_def floor_le_iff ceiling_le_iff)

lemma backoffDelay_le:
  assumes "rnd (of_int (cr_MaxDelay cfg)) = of_int (cr_MaxDelay cfg)"
  shows "backoffDelay rnd cfg attempt \<le> cr_MaxDelay cfg"
  using assms by (auto simp: backoffDelay_def Let_def intro: truncRat_le)

text \<open>What the two constructions of an error give for its code, its retry flag and its sentinels.\<close>

definition restCause :: "string \<Rightarrow> int \<Rightarrow> string \<Rightarrow> sentinel option" where
  "restCause bodyCode status reason =
     map_of [(401, ErrUnauthorized), (402, ErrEnterpriseLicenseRequired), (403, ErrForbidden),
       (409, if bodyCode = connectCodeString CodeAborted then abortedCause reason else ErrConflict),
       (412, ErrPreconditionFailed), (428, ErrPreconditionRequired), (413, ErrPayloadTooLarge),
       (415, ErrUnsupportedMediaType)] status"

lemma errorFromResponse_fields:
  "ie_Code (errorFromResponse tm resp) = restErrorCode (bodyString (rp_Body resp) ''code'') (rp_StatusCode resp)"
  "ie_Retryable (errorFromResponse tm resp) =
     fst (restRetrySignal tm (rp_StatusCode resp) (rp_Header resp) (rp_Body resp))"
  "ie_Cause (errorFromResponse tm resp) = map_option ESentinel
     (restCause (bodyString (rp_Body resp) ''code'') (rp_StatusCode resp) (headerGet (rp_Header resp) errorReasonHeader))"
  by (simp_all add: errorFromResponse_def restCause_def Let_def case_prod_beta)

fun connectCause :: "connect_code \<Rightarrow> string \<Rightarrow> sentinel option" where
  "connectCause CodeUnauthenticated r = Some ErrUnauthorized"
| "connectCause CodePermissionDenied r = Some ErrForbidden"
| "connectCause CodeAborted r = Some (abortedCause r)"
| "connectCause CodeAlreadyExists r = Some ErrConflict"
| "connectCause _ r = None"

lemma errorsIs_cause: "errorsIs s (EIron e) = (case ie_Cause e of None \<Rightarrow> False | Some c \<Rightarrow> errorsIs s c)"
  by (cases e) (simp split: option.splits)

lemma connectError_fields:
  assumes "connectError tm (Some (EConnect code m meta)) = Some (EIron c)"
  shows "ie_Code c = connectCodeString code" "ie_Retryable c = isRetryableConnectCode code"
    "errorsIs s (EIron c) \<longleftrightarrow> connectCause code (headerGet meta errorReasonHeader) = Some s"
  using assms by (cases code; auto simp: connectError_def Let_def)+

section \<open>Properties\<close>

text \<open>C14. A request is resent only after an answer that shows it may be: every attempt but the last ended in a
  retryable error, and for a write in a rate-limit refusal, so no write is sent again after a failure
  that may have applied it. There is at least one attempt and there are at most \<open>MaxAttempts\<close>, and the
  result is that of the last attempt unless the context ended during the wait after it.\<close>

theorem write_resent_only_when_rate_limited:
  assumes "cr_MaxAttempts cfg \<ge> 1"
    and "withRetry rnd (Some (overLog cfg)) write (logged exec) (\<lambda>d. unlogged (sleep d)) (w, []) = (r, w', answers)"
  shows "answers \<noteq> [] \<and> int (length answers) \<le> cr_MaxAttempts cfg \<and>
    list_all (\<lambda>a. \<exists>e. a = Some (EIron e) \<and> ie_Retryable e \<and> (write \<longrightarrow> isRateLimited e)) (butlast answers) \<and>
    (r = last answers \<or> (\<exists>e. last answers = Some (EIron e) \<and> ie_Retryable e \<and> (write \<longrightarrow> isRateLimited e)))"
  using retryLoop_log [of rnd cfg "write" exec sleep 1 None w "[]" r w' answers] assms
  by (auto simp: withRetry_def resendable_def [abs_def])

definition rateLimited :: goerr where
  "rateLimited = EIron (IronflowError [] ''resource_exhausted'' True 0 [(''http_status'', DInt 429)] None)"

definition demoServer :: "nat \<Rightarrow> goerr option \<times> nat" where
  "demoServer n = (if n = 0 then Some rateLimited else None, n + 1)"

lemma demoServer_run:
  "withRetry (\<lambda>x. x) (Some (overLog defaultRetryConfig)) True (logged demoServer) (\<lambda>d. unlogged (\<lambda>w. (None, w))) (0, []) =
     (None, 2, [Some rateLimited, None])"
  by (simp add: withRetry_def retryLoop.simps logged_def unlogged_def demoServer_def defaultRetryConfig_def
      rateLimited_def isRateLimited_def overLog_def onRetry_def Let_def)

theorem write_resent_only_when_rate_limited_witness:
  "list_all (\<lambda>a. \<exists>e. a = Some (EIron e) \<and> isRateLimited e) (butlast [Some rateLimited, None])"
  using write_resent_only_when_rate_limited [OF _ demoServer_run] by (auto simp: defaultRetryConfig_def)

text \<open>The delay before a retry is bounded and honours the server: with a representable \<open>MaxDelay\<close> it
  exceeds neither it nor the fixed delay for connection errors, and it is at least the server's
  \<open>Retry-After\<close> unless it has reached \<open>MaxDelay\<close>.\<close>

theorem retry_delay_bounds:
  assumes "rnd (of_int (cr_MaxDelay cfg)) = of_int (cr_MaxDelay cfg)"
  shows "retryDelay rnd cfg attempt e \<le> max (cr_MaxDelay cfg) (cr_ConnectionRetryDelay cfg) \<and>
    (ie_RetryAfter e \<le> retryDelay rnd cfg attempt e \<or> cr_MaxDelay cfg \<le> retryDelay rnd cfg attempt e)"
proof -
  have "backoffDelay rnd cfg attempt \<le> cr_MaxDelay cfg" by (rule backoffDelay_le) (rule assms)
  then show ?thesis by (auto simp: retryDelay_def Let_def)
qed

theorem retry_delay_bounds_witness:
  "retryDelay (\<lambda>x. x) defaultRetryConfig 20 (IronflowError [] [] True 0 [] None) \<le> 10 * second"
  using retry_delay_bounds [of "\<lambda>x. x" defaultRetryConfig 20 "IronflowError [] [] True 0 [] None"]
  by (auto simp: defaultRetryConfig_def second_def)

text \<open>A negative \<open>MaxAttempts\<close> passes \<open>NewClient\<close> unchanged, and every request then reports success
  without being sent.\<close>

theorem negative_attempts_send_nothing:
  assumes "cr_MaxAttempts cfg < 0"
  shows "\<exists>c. newRetryConfig (Some cfg) = Some c \<and> withRetry rnd (Some c) write exec sleep w = (None, w)"
  using assms by (auto simp: newRetryConfig_def withRetry_def retryLoop.simps)

theorem negative_attempts_send_nothing_witness:
  "\<exists>c. newRetryConfig (Some (defaultRetryConfig \<lparr> cr_MaxAttempts := -1 \<rparr>)) = Some c \<and>
     withRetry (\<lambda>x. x) (Some c) True (\<lambda>w. (Some rateLimited, Suc w)) (\<lambda>d w. (None, w)) 0 = (None, 0)"
  by (rule negative_attempts_send_nothing) (simp add: defaultRetryConfig_def)

text \<open>The codes with the HTTP status that stands for each on the REST side.\<close>

definition pairedStatus :: "(connect_code \<times> int) list" where
  "pairedStatus = [(CodeUnknown, 500), (CodeDeadlineExceeded, 504), (CodeInternal, 500), (CodeUnavailable, 503),
     (CodeDataLoss, 500), (CodeResourceExhausted, 429), (CodeUnauthenticated, 401), (CodePermissionDenied, 403),
     (CodeAborted, 409), (CodeAlreadyExists, 409), (CodeUnimplemented, 501)]"

text \<open>A failure classifies the same on either transport. For the codes and the statuses the source
  pairs, an error response whose body names the code, without a retry flag, and the Connect error of
  that code give errors with the same code, the same retry classification and the same sentinels.\<close>

theorem transports_classify_alike:
  assumes "(code, rp_StatusCode resp) \<in> set pairedStatus"
    and "rp_Body resp = Raw (JObj [(''code'', JStr (connectCodeString code)), (''message'', JStr m)])"
    and "headerGet (rp_Header resp) errorReasonHeader = headerGet meta errorReasonHeader"
    and "connectError tm (Some (EConnect code m meta)) = Some (EIron c)"
  shows "ie_Code (errorFromResponse tm resp) = ie_Code c \<and> ie_Retryable (errorFromResponse tm resp) = ie_Retryable c
    \<and> (\<forall>s. errorsIs s (EIron (errorFromResponse tm resp)) = errorsIs s (EIron c))"
proof -
  let ?st = "rp_StatusCode resp" let ?r = "headerGet meta errorReasonHeader"
  have b: "bodyString (rp_Body resp) ''code'' = connectCodeString code"
    "fst (restRetrySignal tm ?st (rp_Header resp) (rp_Body resp)) =
       (?st = 408 \<or> ?st = 429 \<or> (?st \<ge> 500 \<and> ?st \<noteq> 501 \<and> ?st \<noteq> 507))"
    using assms(2) by (simp_all add: bodyString_def fieldValues_def foldEq_def toLower_def restRetrySignal_def Let_def)
  have "list_all (\<lambda>(code, st). restErrorCode (connectCodeString code) st = connectCodeString code
      \<and> (st = 408 \<or> st = 429 \<or> (st \<ge> 500 \<and> st \<noteq> 501 \<and> st \<noteq> 507)) = isRetryableConnectCode code
      \<and> restCause (connectCodeString code) st ?r = connectCause code ?r) pairedStatus"
    by (simp add: pairedStatus_def restErrorCode_def legacyGenericCodes_def isRetryableConnectCode_def restCause_def)
  with assms(1) have p: "restErrorCode (connectCodeString code) ?st = connectCodeString code"
    "(?st = 408 \<or> ?st = 429 \<or> (?st \<ge> 500 \<and> ?st \<noteq> 501 \<and> ?st \<noteq> 507)) = isRetryableConnectCode code"
    "restCause (connectCodeString code) ?st ?r = connectCause code ?r"
    by (auto simp: list_all_iff)
  show ?thesis
    by (simp add: connectError_fields [OF assms(4)] errorFromResponse_fields b assms(3) p errorsIs_cause
        [of _ "errorFromResponse tm resp"] del: errorsIs.simps split: option.splits) auto
qed

theorem transports_classify_alike_witness:
  "\<exists>c. connectError \<lparr> tm_duration = \<lambda>_. None, tm_until = \<lambda>_. None, tm_seconds = \<lambda>_. 0 \<rparr>
      (Some (EConnect CodeAborted ''moved'' [])) = Some (EIron c)
    \<and> errorsIs ErrContended (EIron (errorFromResponse \<lparr> tm_duration = \<lambda>_. None, tm_until = \<lambda>_. None, tm_seconds = \<lambda>_. 0 \<rparr>
        \<lparr> rp_StatusCode = 409, rp_Header = [], rp_Text = [],
          rp_Body = Raw (JObj [(''code'', JStr ''aborted''), (''message'', JStr ''moved'')]) \<rparr>)) = errorsIs ErrContended (EIron c)"
proof -
  let ?tm = "\<lparr> tm_duration = \<lambda>_. None, tm_until = \<lambda>_. None, tm_seconds = \<lambda>_. 0 \<rparr>"
  let ?resp = "\<lparr> rp_StatusCode = 409, rp_Header = [], rp_Text = [],
      rp_Body = Raw (JObj [(''code'', JStr ''aborted''), (''message'', JStr ''moved'')]) \<rparr>"
  obtain c where c: "connectError ?tm (Some (EConnect CodeAborted ''moved'' [])) = Some (EIron c)"
    by (simp add: connectError_def Let_def)
  have "\<forall>s. errorsIs s (EIron (errorFromResponse ?tm ?resp)) = errorsIs s (EIron c)"
    using transports_classify_alike [OF _ _ _ c, of ?resp] by (simp add: pairedStatus_def)
  with c show ?thesis by blast
qed

end
