(* ===== verification/Worker_Protocol.thy ===== *)
theory Worker_Protocol
  imports Job_Executor Http_Client
begin

text \<open>
  What the polling worker says to the server (\<^verbatim>\<open>src/ironflow/worker.go\<close>, \<^verbatim>\<open>shared_helpers.go\<close>): the
  registration of its functions and of itself, the job poll, the acknowledgement of a fenced job and
  the updates a job's reporter sends, each stamped with the fence. The goroutines that send them are
  in the theory of the worker.
\<close>

section \<open>Configuration\<close>

record worker_config =
  wc_ServerURL :: string
  wc_Functions :: "gofunction list"
  wc_Projections :: nat
  wc_MaxConcurrentJobs :: int
  wc_Labels :: "string \<rightharpoonup> string"
  wc_HeartbeatInterval :: int
  wc_ReconnectDelay :: int
  wc_PollWait :: int
  wc_APIKey :: string
  wc_Environment :: string
  wc_DrainTimeout :: int

text \<open>The defaults \<open>NewWorker\<close> fills in; \<open>serverURL\<close> is \<open>GetServerURL()\<close>.\<close>

definition NewWorker :: "string \<Rightarrow> worker_config \<Rightarrow> worker_config" where
  "NewWorker serverURL config =
     config \<lparr> wc_ServerURL := (if wc_ServerURL config = [] then serverURL else wc_ServerURL config),
       wc_MaxConcurrentJobs := (if wc_MaxConcurrentJobs config = 0 then 10 else wc_MaxConcurrentJobs config),
       wc_HeartbeatInterval := (if wc_HeartbeatInterval config = 0 then 30 * second else wc_HeartbeatInterval config),
       wc_ReconnectDelay := (if wc_ReconnectDelay config = 0 then 5 * second else wc_ReconnectDelay config),
       wc_PollWait := (if wc_PollWait config = 0 then 20 * second else wc_PollWait config) \<rparr>"

definition drainTimeout :: "int \<Rightarrow> int" where
  "drainTimeout d = (if d > 0 then d else 30 * second)"

definition buildAuthHeaders :: "push_env \<Rightarrow> string \<Rightarrow> (string \<rightharpoonup> string)" where
  "buildAuthHeaders env apiKey =
     (let apiKey = (if apiKey = [] then en_apiKey env else apiKey)
      in if apiKey \<noteq> [] then [''Authorization'' \<mapsto> ''Bearer '' @ apiKey] else Map.empty)"

definition buildWorkerHeaders :: "push_env \<Rightarrow> string \<Rightarrow> string \<Rightarrow> (string \<rightharpoonup> string)" where
  "buildWorkerHeaders env apiKey environment =
     (let headers = buildAuthHeaders env apiKey;
          environment = resolveEnvironment env environment
      in if environment \<noteq> [] then headers(''X-Ironflow-Environment-ID'' \<mapsto> environment) else headers)"

text \<open>What comes of a request sent without the retry policy.\<close>

datatype req_answer =
    ReqNotBuilt goerr
  | ReqNotSent goerr
  | ReqAnswered http_response

section \<open>Registering functions\<close>

text \<open>A Go map of values, encoded as an object unless one of the values cannot be.\<close>

fun marshalObj :: "(string \<times> gval) list \<Rightarrow> string + (string \<times> json) list" where
  "marshalObj [] = Inr []"
| "marshalObj ((k, v) # kvs) =
     (case marshal v of
        Inl m \<Rightarrow> Inl m
      | Inr j \<Rightarrow> (case marshalObj kvs of Inl m \<Rightarrow> Inl m | Inr js \<Rightarrow> Inr ((k, j) # js)))"

definition gobj :: "(string \<times> gval) list \<Rightarrow> gval" where
  "gobj kvs = (case marshalObj kvs of Inl m \<Rightarrow> GBad m | Inr js \<Rightarrow> GJson (JObj js))"

definition gstr :: "string \<Rightarrow> gval" where
  "gstr s = GJson (JStr s)"

definition gint :: "int \<Rightarrow> gval" where
  "gint i = GJson (JNum (itoaInt i))"

text \<open>A \<open>float64\<close> as a JSON number, in the spelling \<open>num\<close>; infinities and NaN are refused.\<close>

definition gfloat :: "(rat \<Rightarrow> string) \<Rightarrow> f64 \<Rightarrow> gval" where
  "gfloat num x = (case x of F64 r \<Rightarrow> GJson (JNum (num r))
     | PosInf \<Rightarrow> GBad ''json: unsupported value: +Inf'' | NegInf \<Rightarrow> GBad ''json: unsupported value: -Inf''
     | NotANumber \<Rightarrow> GBad ''json: unsupported value: NaN'')"

definition f64_pos :: "f64 \<Rightarrow> bool" where
  "f64_pos x = (case x of F64 r \<Rightarrow> r > 0 | PosInf \<Rightarrow> True | _ \<Rightarrow> False)"

definition retryRegisterBody :: "(rat \<Rightarrow> string) \<Rightarrow> retry_config option \<Rightarrow> (string \<times> gval) list" where
  "retryRegisterBody num r =
     (case r of
        None \<Rightarrow> []
      | Some r \<Rightarrow>
          (if rt_MaxAttempts r > 0 then [(''maxAttempts'', gint (rt_MaxAttempts r))] else []) @
          (if rt_InitialDelay r > 0 then [(''initialDelayMs'', gint (milliseconds (rt_InitialDelay r)))] else []) @
          (if f64_pos (rt_BackoffFactor r) then [(''backoffFactor'', gfloat num (rt_BackoffFactor r))] else []) @
          (if rt_MaxDelay r > 0 then [(''maxDelayMs'', gint (milliseconds (rt_MaxDelay r)))] else []) @
          (if rt_OnExhausted r \<noteq> [] then [(''onExhausted'', gstr (rt_OnExhausted r))] else []))"

definition codeHashMetaKey :: string where
  "codeHashMetaKey = ''__ironflow_code_hash''"

definition triggerBody :: "trigger \<Rightarrow> json" where
  "triggerBody t = JObj [(''event'', JStr (tr_Event t)), (''expression'', JStr (tr_Expression t)), (''cron'', JStr (tr_Cron t))]"

text \<open>The metadata member: the hash of the binary, when it can be read, with the user's keys over it.\<close>

definition metadataBody :: "string \<Rightarrow> (string \<times> json) list option \<Rightarrow> (string \<times> gval) list" where
  "metadataBody hash meta =
     (if hash \<noteq> []
      then [(''metadata'', GJson (JObj ((if map_of (case meta of None \<Rightarrow> [] | Some m \<Rightarrow> m) codeHashMetaKey = None
               then [(codeHashMetaKey, JStr hash)] else []) @ (case meta of None \<Rightarrow> [] | Some m \<Rightarrow> m))))]
      else [])"

definition registerBody :: "(rat \<Rightarrow> string) \<Rightarrow> string \<Rightarrow> function_config \<Rightarrow> (string \<times> gval) list" where
  "registerBody num hash fc =
     [(''id'', gstr (fc_ID fc)), (''name'', gstr (fc_Name fc)),
      (''triggers'', GJson (JArr (map triggerBody (fc_Triggers fc)))),
      (''preferredMode'', gstr ''EXECUTION_MODE_PULL'')] @
     (if fc_Description fc \<noteq> [] then [(''description'', gstr (fc_Description fc))] else []) @
     (if retryRegisterBody num (fc_Retry fc) \<noteq> [] then [(''retry'', gobj (retryRegisterBody num (fc_Retry fc)))] else []) @
     (if fc_Timeout fc > 0 then [(''timeoutMs'', gint (milliseconds (fc_Timeout fc)))] else []) @
     (case fc_Concurrency fc of None \<Rightarrow> []
      | Some cn \<Rightarrow> [(''concurrency'', gobj [(''limit'', gint (cn_Limit cn)), (''key'', gstr (cn_Key cn))])]) @
     (case fc_Debounce fc of None \<Rightarrow> []
      | Some db \<Rightarrow> [(''debounce'', gobj ([(''period_ms'', gint (milliseconds (db_Period db))), (''key'', gstr (db_Key db))] @
          (if db_MaxWait db > 0 then [(''max_wait_ms'', gint (milliseconds (db_MaxWait db)))] else [])))]) @
     (case fc_CircuitBreaker fc of None \<Rightarrow> []
      | Some cb \<Rightarrow> [(''circuitBreaker'', gobj [(''failureThreshold'', gint (cb_FailureThreshold cb)),
          (''openDurationMs'', gint (milliseconds (cb_OpenDuration cb))),
          (''maxOpenDurationMs'', gint (milliseconds (cb_MaxOpenDuration cb)))])]) @
     (case fc_Throttle fc of None \<Rightarrow> []
      | Some th \<Rightarrow> [(''throttle'', gobj [(''limit'', gint (th_Limit th)),
          (''periodMs'', gint (milliseconds (th_Period th))), (''key'', gstr (th_Key th))])]) @
     (if fc_ActorKey fc \<noteq> [] then [(''actorKey'', gstr (fc_ActorKey fc))] else []) @
     (if fc_Recording fc then [(''recording'', GJson (JBool True))] else []) @
     (if fc_RecordingProfile fc \<noteq> [] then [(''recordingProfile'', gstr (fc_RecordingProfile fc))] else []) @
     (if fc_Secrets fc \<noteq> [] then [(''secrets'', GJson (JArr (map JStr (fc_Secrets fc))))] else []) @
     (if fc_CancelOn fc \<noteq> [] then [(''cancelOn'', GJson (JArr (map (\<lambda>s.
          JObj [(''event'', JStr (co_Event s)), (''match'', JStr (co_Match s))]) (fc_CancelOn fc))))] else []) @
     metadataBody hash (fc_Metadata fc)"

text \<open>\<open>registerFunctions\<close> over the functions in the order the map is ranged over. \<open>post\<close> sends a body to
  \<open>RegisterFunction\<close>, \<open>parse\<close> is JSON decoding, \<open>env\<close> the environment of the request.\<close>

definition registrationError ::
  "time_readers \<Rightarrow> (string \<Rightarrow> json option) \<Rightarrow> string \<Rightarrow> string \<Rightarrow> http_response \<Rightarrow> goerr" where
  "registrationError tm parse env i resp =
     (case authError env resp (''failed to register function '' @ i) of
        Some e \<Rightarrow> e
      | None \<Rightarrow>
          (let respBody = take 4096 (rp_Text resp);
               body = (case parse respBody of Some j \<Rightarrow> Raw j | None \<Rightarrow> RawBad []);
               (retryable, retryAfter) = restRetrySignal tm (rp_StatusCode resp) (rp_Header resp) body;
               detail = take 200 (trimSpace respBody)
           in EIron (IronflowError (''failed to register function '' @ i @ '': status '' @ itoaInt (rp_StatusCode resp)
                @ '': '' @ detail) ''FUNCTION_REGISTRATION_FAILED'' retryable retryAfter [] None)))"

fun registerFunctions ::
  "time_readers \<Rightarrow> (string \<Rightarrow> json option) \<Rightarrow> (rat \<Rightarrow> string) \<Rightarrow> string \<Rightarrow> string
   \<Rightarrow> ((string \<times> json) list \<Rightarrow> 'w \<Rightarrow> req_answer \<times> 'w) \<Rightarrow> (string \<times> function_config) list \<Rightarrow> 'w
   \<Rightarrow> goerr option \<times> 'w" where
  "registerFunctions tm parse num hash env post [] w = (None, w)"
| "registerFunctions tm parse num hash env post ((i, fc) # fns) w =
     (case marshalObj (registerBody num hash fc) of
        Inl m \<Rightarrow> (Some (EWrap (''failed to marshal function '' @ i @ '': '' @ m) [ENew m]), w)
      | Inr body \<Rightarrow>
          (case post body w of
             (ReqNotBuilt e, w1) \<Rightarrow>
               (Some (EWrap (''failed to create request for function '' @ i @ '': '' @ errorText e) [e]), w1)
           | (ReqNotSent e, w1) \<Rightarrow>
               (Some (EWrap (''failed to register function '' @ i @ '': '' @ errorText e) [e]), w1)
           | (ReqAnswered resp, w1) \<Rightarrow>
               if rp_StatusCode resp \<ge> 400 then (Some (registrationError tm parse env i resp), w1)
               else registerFunctions tm parse num hash env post fns w1))"

section \<open>Requests of the worker\<close>

text \<open>The bodies the worker puts. A member that is \<open>None\<close> is not in the object.\<close>

record update_body =
  ub_status :: string
  ub_output :: "gval option"
  ub_error :: "push_error option"
  ub_yield :: "yield_info option"
  ub_steps :: "step_result list option"
  ub_step_offset :: int
  ub_fence :: "(int \<times> string) option"

datatype put_body =
    RegisterBody "string list" int "string \<rightharpoonup> string"
  | HeartbeatBody "(string \<times> int) list"
  | AckBody string int string
  | UpdateBody update_body

fun firstBad :: "gval list \<Rightarrow> string option" where
  "firstBad [] = None"
| "firstBad (v # vs) = (case v of GBad m \<Rightarrow> Some m | _ \<Rightarrow> firstBad vs)"

text \<open>What makes \<open>json.Marshal\<close> refuse a body, in the order of its keys.\<close>

definition marshalFails :: "put_body \<Rightarrow> string option" where
  "marshalFails b =
     (case b of
        UpdateBody u \<Rightarrow>
          firstBad ((case ub_output u of None \<Rightarrow> [] | Some v \<Rightarrow> [v]) @
            (case ub_steps u of None \<Rightarrow> [] | Some ss \<Rightarrow> map sr_Output ss) @
            (case ub_yield u of None \<Rightarrow> []
             | Some y \<Rightarrow> (case yi_EventFilter y of None \<Rightarrow> [] | Some f \<Rightarrow> [ef_Payload f]) @ [yi_Input y]))
      | _ \<Rightarrow> None)"

record put_call =
  pc_URL :: string
  pc_Header :: "string \<rightharpoonup> string"
  pc_Body :: put_body

text \<open>\<open>httpPut\<close>; its result argument is always nil. \<open>send\<close> makes the request.\<close>

definition putError :: "string \<Rightarrow> string \<Rightarrow> http_response \<Rightarrow> goerr option" where
  "putError env path resp =
     (if rp_StatusCode resp < 400 then None
      else case authError env resp (''request to '' @ path @ '' failed'') of
        Some e \<Rightarrow> Some e
      | None \<Rightarrow>
          (let stale = rp_StatusCode resp = 409 \<and>
                 (case rp_Body resp of
                    Raw (JObj kvs) \<Rightarrow> assignString (fieldValues kvs ''error'') [] = (True, ''STALE_EXECUTION'')
                  | _ \<Rightarrow> False)
           in if stale then Some (EIron (newError ''execution is stale'' ''STALE_EXECUTION'' False))
              else if rp_StatusCode resp = 404
              then Some (EWrap (''not found: '' @ rp_Text resp) [ESentinel errNotFound])
              else Some (ENew (''request failed: '' @ rp_Text resp))))"

definition httpPut ::
  "push_env \<Rightarrow> worker_config \<Rightarrow> (put_call \<Rightarrow> 'w \<Rightarrow> req_answer \<times> 'w) \<Rightarrow> string \<Rightarrow> put_body \<Rightarrow> 'w \<Rightarrow> goerr option \<times> 'w" where
  "httpPut env cfg send path body w =
     (case marshalFails body of
        Some m \<Rightarrow> (Some (ENew m), w)
      | None \<Rightarrow>
          (case send \<lparr> pc_URL = wc_ServerURL cfg @ path,
                  pc_Header = [''Content-Type'' \<mapsto> ''application/json''] ++
                    buildWorkerHeaders env (wc_APIKey cfg) (wc_Environment cfg),
                  pc_Body = body \<rparr> w of
             (ReqNotBuilt e, w1) \<Rightarrow> (Some e, w1)
           | (ReqNotSent e, w1) \<Rightarrow> (Some e, w1)
           | (ReqAnswered resp, w1) \<Rightarrow> (putError (resolveEnvironment env (wc_Environment cfg)) path resp, w1)))"

definition registerWorker ::
  "push_env \<Rightarrow> worker_config \<Rightarrow> (put_call \<Rightarrow> 'w \<Rightarrow> req_answer \<times> 'w) \<Rightarrow> string \<Rightarrow> string list \<Rightarrow> 'w \<Rightarrow> goerr option \<times> 'w" where
  "registerWorker env cfg send workerID functionIDs w =
     httpPut env cfg send (''/api/v1/workers/'' @ workerID @ ''/register'')
       (RegisterBody functionIDs (wc_MaxConcurrentJobs cfg) (wc_Labels cfg)) w"

definition ackJob ::
  "push_env \<Rightarrow> worker_config \<Rightarrow> (put_call \<Rightarrow> 'w \<Rightarrow> req_answer \<times> 'w) \<Rightarrow> string \<Rightarrow> job_assignment \<Rightarrow> 'w \<Rightarrow> goerr option \<times> 'w" where
  "ackJob env cfg send workerID job w =
     httpPut env cfg send (''/api/v1/workers/'' @ workerID @ ''/jobs/'' @ ja_JobID job @ ''/ack'')
       (AckBody (ja_RunID job) (ja_ExecutionSeq job) (ja_LeaseToken job)) w"

section \<open>Polling\<close>

definition pollWaitSeconds :: "worker_config \<Rightarrow> int" where
  "pollWaitSeconds cfg =
     (let d = min (wc_PollWait cfg) (25 * second) in
      if d < 0 then 0 else max (go_div d second) 1)"

record poll_call =
  pl_URL :: string
  pl_Header :: "string \<rightharpoonup> string"

text \<open>A decoded answer: the top-level assignment and the batch.\<close>

record job_poll_response =
  jp_single :: job_assignment
  jp_Jobs :: "job_assignment list"

text \<open>\<open>strconv.Atoi\<close> as far as a positive answer goes: an optional sign and digits within 64 bits.\<close>

definition atoiPositive :: "string \<Rightarrow> bool" where
  "atoiPositive s =
     (let ds = (case s of CHR ''+'' # t \<Rightarrow> t | _ \<Rightarrow> s) in
      case (if ds = [] then None else digitsValue ds 0) of Some n \<Rightarrow> 0 < n \<and> n < 2 ^ 63 | None \<Rightarrow> False)"

definition pollURL :: "worker_config \<Rightarrow> string \<Rightarrow> int \<Rightarrow> string" where
  "pollURL cfg workerID available =
     wc_ServerURL cfg @ ''/api/v1/workers/'' @ workerID @ ''/jobs?available='' @ itoaInt available @
       (if pollWaitSeconds cfg > 0 then ''&wait='' @ itoaInt (pollWaitSeconds cfg) else [])"

text \<open>\<open>requestJobs\<close>: the jobs, and whether the server held the poll; \<open>decode\<close> reads the body.\<close>

definition requestJobs ::
  "push_env \<Rightarrow> worker_config \<Rightarrow> (poll_call \<Rightarrow> 'w \<Rightarrow> req_answer \<times> 'w) \<Rightarrow> (raw \<Rightarrow> goerr + job_poll_response) \<Rightarrow> string
   \<Rightarrow> int \<Rightarrow> 'w \<Rightarrow> (goerr + job_assignment list \<times> bool) \<times> 'w" where
  "requestJobs env cfg send decode workerID available w =
     (case send \<lparr> pl_URL = pollURL cfg workerID available,
             pl_Header = buildWorkerHeaders env (wc_APIKey cfg) (wc_Environment cfg) \<rparr> w of
        (ReqNotBuilt e, w1) \<Rightarrow> (Inl e, w1)
      | (ReqNotSent e, w1) \<Rightarrow> (Inl e, w1)
      | (ReqAnswered resp, w1) \<Rightarrow>
          (if rp_StatusCode resp = 204
           then Inr ([], atoiPositive (headerGet (rp_Header resp) ''Ironflow-Poll-Wait''))
           else if rp_StatusCode resp \<noteq> 200 then
             (case authError (resolveEnvironment env (wc_Environment cfg)) resp ''failed to get job'' of
                Some e \<Rightarrow> Inl e
              | None \<Rightarrow>
                  if rp_StatusCode resp = 404
                  then Inl (EWrap ''not found: worker not registered'' [ESentinel errNotFound])
                  else Inl (ENew (''unexpected status: '' @ itoaInt (rp_StatusCode resp))))
           else
             (case decode (rp_Body resp) of
                Inl e \<Rightarrow> Inl e
              | Inr pr \<Rightarrow>
                  if jp_Jobs pr \<noteq> [] then Inr (jp_Jobs pr, False)
                  else if ja_JobID (jp_single pr) \<noteq> [] then Inr ([jp_single pr], False)
                  else Inr ([], False)), w1))"

section \<open>Reporting\<close>

record http_job_reporter =
  hj_workerID :: string
  hj_executionSeq :: int
  hj_leaseToken :: string

definition stampFence :: "http_job_reporter \<Rightarrow> update_body \<Rightarrow> update_body" where
  "stampFence r body =
     (if hj_leaseToken r = [] then body
      else body \<lparr> ub_fence := Some (hj_executionSeq r, hj_leaseToken r) \<rparr>)"

text \<open>\<open>putUpdate\<close>: its error, and whether it cancelled the job.\<close>

definition putUpdate ::
  "push_env \<Rightarrow> worker_config \<Rightarrow> (put_call \<Rightarrow> 'w \<Rightarrow> req_answer \<times> 'w) \<Rightarrow> http_job_reporter \<Rightarrow> string \<Rightarrow> update_body \<Rightarrow> 'w
   \<Rightarrow> goerr option \<times> bool \<times> 'w" where
  "putUpdate env cfg send r jobID body w =
     (let (err, w1) = httpPut env cfg send (''/api/v1/workers/'' @ hj_workerID r @ ''/jobs/'' @ jobID)
                        (UpdateBody (stampFence r body)) w
      in case err of
           None \<Rightarrow> (None, False, w1)
         | Some e \<Rightarrow>
             (case asIronflow e of
                Some i \<Rightarrow> if ie_Code i = ''STALE_EXECUTION'' then (None, True, w1) else (Some e, False, w1)
              | None \<Rightarrow> (Some e, False, w1)))"

definition updateOf :: "string \<Rightarrow> int \<Rightarrow> update_body" where
  "updateOf status offset = \<lparr> ub_status = status, ub_output = None, ub_error = None, ub_yield = None,
     ub_steps = None, ub_step_offset = offset, ub_fence = None \<rparr>"

definition someSteps :: "step_result list \<Rightarrow> step_result list option" where
  "someSteps steps = (if steps \<noteq> [] then Some steps else None)"

fun reportBody :: "job_report \<Rightarrow> update_body" where
  "reportBody (JobCompleted output steps offset) =
     (updateOf ''completed'' offset) \<lparr> ub_output := Some output, ub_steps := Some steps \<rparr>"
| "reportBody (JobFailed err steps offset) =
     (updateOf ''failed'' offset) \<lparr> ub_error := Some err, ub_steps := someSteps steps \<rparr>"
| "reportBody (JobYielded yield steps offset) =
     (updateOf ''yielded'' offset) \<lparr> ub_yield := Some yield, ub_steps := someSteps steps \<rparr>"

definition ReportProgress ::
  "push_env \<Rightarrow> worker_config \<Rightarrow> (put_call \<Rightarrow> 'w \<Rightarrow> req_answer \<times> 'w) \<Rightarrow> http_job_reporter \<Rightarrow> string \<Rightarrow> step_result list \<Rightarrow> int
   \<Rightarrow> 'w \<Rightarrow> goerr option \<times> bool \<times> 'w" where
  "ReportProgress env cfg send r jobID steps offset w =
     (if steps = [] then (None, False, w)
      else putUpdate env cfg send r jobID ((updateOf ''progress'' offset) \<lparr> ub_steps := Some steps \<rparr>) w)"

text \<open>The goroutine of one job: the acknowledgement of a fenced assignment, the execution, the report.
  The result is the report, when one is sent, and the error that is logged.\<close>

definition runAssigned ::
  "push_env \<Rightarrow> worker_config \<Rightarrow> (put_call \<Rightarrow> world \<Rightarrow> req_answer \<times> world) \<Rightarrow> string \<Rightarrow> job_executor \<Rightarrow> (exec \<Rightarrow> nat)
   \<Rightarrow> (world \<Rightarrow> world) \<Rightarrow> job_assignment \<Rightarrow> world \<Rightarrow> (job_report option \<times> goerr option) \<times> world" where
  "runAssigned env cfg send workerID e cursor wait job w =
     (let reporter = \<lparr> hj_workerID = workerID, hj_executionSeq = ja_ExecutionSeq job, hj_leaseToken = ja_LeaseToken job \<rparr>;
          (ackErr, w1) = (if ja_LeaseToken job \<noteq> [] then ackJob env cfg send workerID job w else (None, w))
      in case ackErr of
           Some err \<Rightarrow> ((None, Some err), w1)
         | None \<Rightarrow>
             (case execute env e False cursor wait job w1 of
                (None, w2) \<Rightarrow> ((None, None), w2)
              | (Some rep, w2) \<Rightarrow>
                  (let (err, _, w3) = putUpdate env cfg send reporter (ja_JobID job) (reportBody rep) w2
                   in ((Some rep, err), w3))))"

section \<open>Lemmas\<close>

lemma authError_cases: "authError env resp what = None \<longleftrightarrow> rp_StatusCode resp \<noteq> 401 \<and> rp_StatusCode resp \<noteq> 403"
  by (simp add: authError_def Let_def)

lemma putError_None: "putError env path resp = None \<longleftrightarrow> rp_StatusCode resp < 400"
  by (simp add: putError_def Let_def split: option.splits)

lemma firstBad_None: "firstBad vs = None \<longleftrightarrow> list_all encodable vs"
  by (induction vs) (auto split: gval.splits)

text \<open>The calls of a fenced job: its acknowledgement, and updates that carry its fence.\<close>

definition fenced :: "job_assignment \<Rightarrow> put_call \<Rightarrow> bool" where
  "fenced job call =
     (case pc_Body call of
        AckBody run seq lease \<Rightarrow> run = ja_RunID job \<and> seq = ja_ExecutionSeq job \<and> lease = ja_LeaseToken job
      | UpdateBody u \<Rightarrow> ub_fence u = Some (ja_ExecutionSeq job, ja_LeaseToken job)
      | _ \<Rightarrow> False)"

lemma httpPut_cong:
  assumes "\<And>call w. pc_Body call = body \<Longrightarrow> send call w = send' call w"
  shows "httpPut env cfg send path body w = httpPut env cfg send' path body w"
  using assms by (simp add: httpPut_def split: option.splits)

text \<open>Recording the bodies a function posts.\<close>

definition recordBody :: "('b \<Rightarrow> 'w \<Rightarrow> 'a \<times> 'w) \<Rightarrow> 'b \<Rightarrow> 'w \<times> 'b list \<Rightarrow> 'a \<times> 'w \<times> 'b list" where
  "recordBody f b s = (let (a, w) = f b (fst s) in (a, w, snd s @ [b]))"

lemma recordBody_apply: "f b w = (a, w1) \<Longrightarrow> recordBody f b (w, l) = (a, w1, l @ [b])"
  by (simp add: recordBody_def)

text \<open>The job of the sample run, with a fence, and a server that accepts every update.\<close>

definition fencedJob :: job_assignment where
  "fencedJob = demoJob \<lparr> ja_ExecutionSeq := 4, ja_LeaseToken := ''t'' \<rparr>"

definition demoPut :: "put_call \<Rightarrow> world \<Rightarrow> req_answer \<times> world" where
  "demoPut call w = (ReqAnswered \<lparr> rp_StatusCode = 200, rp_Header = [], rp_Text = [], rp_Body = RawNone \<rparr>, w)"

section \<open>Properties\<close>

text \<open>A fenced assignment is acknowledged before anything else: unless the server accepts the
  acknowledgement, no handler runs, nothing is reported, and the state is the one the acknowledgement
  left.\<close>

theorem unacknowledged_job_is_dropped:
  assumes "ja_LeaseToken job \<noteq> []"
    and "send \<lparr> pc_URL = wc_ServerURL cfg @ ''/api/v1/workers/'' @ workerID @ ''/jobs/'' @ ja_JobID job @ ''/ack'',
           pc_Header = [''Content-Type'' \<mapsto> ''application/json''] ++ buildWorkerHeaders env (wc_APIKey cfg) (wc_Environment cfg),
           pc_Body = AckBody (ja_RunID job) (ja_ExecutionSeq job) (ja_LeaseToken job) \<rparr> w = (a, w1)"
    and "case a of ReqAnswered resp \<Rightarrow> rp_StatusCode resp \<ge> 400 | _ \<Rightarrow> True"
  shows "\<exists>err. runAssigned env cfg send workerID e cursor wait job w = ((None, Some err), w1)"
proof -
  have "\<exists>err. ackJob env cfg send workerID job w = (Some err, w1)"
  proof (cases a)
    case (ReqAnswered resp)
    with assms(3) obtain err where "putError (resolveEnvironment env (wc_Environment cfg))
        (''/api/v1/workers/'' @ workerID @ ''/jobs/'' @ ja_JobID job @ ''/ack'') resp = Some err"
      using putError_None [of "resolveEnvironment env (wc_Environment cfg)" _ resp] by fastforce
    with ReqAnswered assms(2) show ?thesis by (simp add: ackJob_def httpPut_def marshalFails_def)
  qed (use assms(2) in \<open>simp_all add: ackJob_def httpPut_def marshalFails_def\<close>)
  then obtain err where "ackJob env cfg send workerID job w = (Some err, w1)" ..
  with assms(1) show ?thesis by (simp add: runAssigned_def)
qed



text \<open>Registration is complete or reported: without an error every function was posted, in order, with the
  document of its configuration.\<close>

theorem registration_posts_every_function:
  assumes "registerFunctions tm parse num hash env (recordBody post) fns (w, []) = (None, w', bodies)"
  shows "map Inr bodies = map (\<lambda>(i, fc). marshalObj (registerBody num hash fc)) fns"
proof -
  have "registerFunctions tm parse num hash env (recordBody post) fns (w, l) = (None, w', bodies) \<Longrightarrow>
      \<exists>new. bodies = l @ new \<and> map Inr new = map (\<lambda>(i, fc). marshalObj (registerBody num hash fc)) fns" for l
  proof (induction fns arbitrary: w l)
    case (Cons f fns)
    obtain i fc where f: "f = (i, fc)" by fastforce
    from Cons.prems f obtain body where body: "marshalObj (registerBody num hash fc) = Inr body"
      by (auto split: sum.splits)
    obtain a w1 where p: "post body w = (a, w1)" by fastforce
    have "registerFunctions tm parse num hash env (recordBody post) fns (w1, l @ [body]) = (None, w', bodies)"
      using Cons.prems f body p by (cases a) (simp_all add: recordBody_apply [of post, OF p] split: if_splits)
    from Cons.IH [OF this] f body show ?case by auto
  qed simp
  from this [OF assms] show ?thesis by auto
qed

text \<open>The wait the worker asks the server for: at least a second and at most 25, so that a held poll ends
  before the 30 s timeout of the HTTP client; none when long polling is off.\<close>

theorem poll_wait_bounds:
  "pollWaitSeconds cfg = 0 \<and> wc_PollWait cfg < 0 \<or> 1 \<le> pollWaitSeconds cfg \<and> pollWaitSeconds cfg \<le> 25"
proof (cases "wc_PollWait cfg < 0")
  case False
  then have "go_div (min (wc_PollWait cfg) (25 * second)) second = min (wc_PollWait cfg) (25 * second) div second"
    by (intro go_div_nonneg) (auto simp: second_def)
  moreover have "min (wc_PollWait cfg) (25 * second) div second \<le> 25"
    by (simp add: second_def)
  ultimately show ?thesis using False by (auto simp: pollWaitSeconds_def Let_def second_def)
qed (simp add: pollWaitSeconds_def second_def)

end
