(* ===== verification/Machine.thy ===== *)
theory Machine
  imports Main
begin

text \<open>
  Machines whose steps are partial functions of an action and a state, as the concurrent components
  are modelled: runs, invariants, and a rank that some of the actions lower. The two locales are what
  a component proves of its step function; the lemmas in them are about runs of any length.
\<close>

text \<open>Updates of the lists that hold the goroutines.\<close>

lemma nth_upd: "xs[i := x] ! j = (if j = i \<and> i < length xs then x else xs ! j)"
  by (cases "i < length xs") (auto simp: nth_list_update list_update_beyond not_less)

lemma set_list_updateD: "x \<in> set (xs[i := y]) \<Longrightarrow> x = y \<or> x \<in> set xs"
  using set_update_subset_insert [of xs i y] by auto

fun runSteps :: "('a \<Rightarrow> 's \<Rightarrow> 's option) \<Rightarrow> 'a list \<Rightarrow> 's \<Rightarrow> 's option" where
  "runSteps step [] s = Some s"
| "runSteps step (a # as) s = (case step a s of None \<Rightarrow> None | Some s1 \<Rightarrow> runSteps step as s1)"

lemma runSteps_append:
  "runSteps step (as @ bs) s = (case runSteps step as s of None \<Rightarrow> None | Some s1 \<Rightarrow> runSteps step bs s1)"
  by (induction as arbitrary: s) (auto split: option.splits)

inductive reaches :: "('a \<Rightarrow> 's \<Rightarrow> 's option) \<Rightarrow> 's \<Rightarrow> 's \<Rightarrow> bool" for step s where
  here: "reaches step s s"
| moved: "reaches step s t \<Longrightarrow> step a t = Some u \<Longrightarrow> reaches step s u"

lemma runSteps_reaches: "runSteps step as t = Some u \<Longrightarrow> reaches step s t \<Longrightarrow> reaches step s u"
  by (induction as arbitrary: t) (auto split: option.splits intro: reaches.moved)

locale step_invariant =
  fixes step :: "'a \<Rightarrow> 's \<Rightarrow> 's option" and inv :: "'s \<Rightarrow> bool"
  assumes keeps: "step a s = Some s' \<Longrightarrow> inv s \<Longrightarrow> inv s'"
begin

lemma runs_keep: "runSteps step as s = Some s' \<Longrightarrow> inv s \<Longrightarrow> inv s'"
  by (induction as arbitrary: s) (auto split: option.splits intro: keeps)

lemma reached_keep: "reaches step s s' \<Longrightarrow> inv s \<Longrightarrow> inv s'"
  by (induction rule: reaches.induct) (auto intro: keeps)

end

text \<open>Actions that move lower the rank, the others do not raise it: a run has at most as many moves as
  its first state has rank.\<close>

locale step_rank = step_invariant step inv
  for step :: "'a \<Rightarrow> 's \<Rightarrow> 's option" and inv :: "'s \<Rightarrow> bool" +
  fixes moves :: "'a \<Rightarrow> bool" and rank :: "'s \<Rightarrow> nat"
  assumes falls: "inv s \<Longrightarrow> step a s = Some s' \<Longrightarrow> moves a \<Longrightarrow> rank s' < rank s"
    and stays: "inv s \<Longrightarrow> step a s = Some s' \<Longrightarrow> \<not> moves a \<Longrightarrow> rank s' \<le> rank s"
begin

lemma moves_bounded:
  "inv s \<Longrightarrow> runSteps step as s = Some s' \<Longrightarrow> rank s' + length (filter moves as) \<le> rank s"
proof (induction as arbitrary: s)
  case (Cons a as)
  then obtain s1 where s1: "step a s = Some s1" "runSteps step as s1 = Some s'" by (auto split: option.splits)
  with Cons.IH [of s1] keeps Cons.prems(1)
  have "rank s' + length (filter moves as) \<le> rank s1" by blast
  with falls [OF Cons.prems(1) s1(1)] stays [OF Cons.prems(1) s1(1)] show ?case by (cases "moves a") auto
qed simp

end

end
