(* ===== verification/Polling_Worker.thy ===== *)
theory Polling_Worker
  imports Worker_Protocol Machine "HOL-Library.AList" "HOL-Library.Multiset"
begin

text \<open>
  The polling worker (\<^verbatim>\<open>src/ironflow/worker.go\<close>) as a machine of its goroutines: \<open>Run\<close>, any number of
  callers of \<open>Drain\<close> and \<open>Stop\<close>, the heartbeat loops and the job goroutines. A step is one access to
  the state they share: an atomic load, store or compare-and-swap, a critical section, a channel
  operation or the reply of a request. The compare-and-swap loops are the one step they take effect in.
\<close>

section \<open>State\<close>

datatype worker_state = stateIdle | stateConnecting | stateConnected | stateDraining | stateStopped

definition storeStateUnlessStopped :: "worker_state \<Rightarrow> worker_state \<Rightarrow> worker_state" where
  "storeStateUnlessStopped cur next' = (if cur = stateStopped then cur else next')"

definition storeStateUnlessDraining :: "worker_state \<Rightarrow> worker_state \<Rightarrow> worker_state" where
  "storeStateUnlessDraining cur next' = (if cur = stateStopped \<or> cur = stateDraining then cur else next')"

text \<open>Where a call of \<open>Drain\<close> or \<open>Stop\<close> stands. \<open>StopRunners\<close> holds the projection runners it took,
  \<open>StopRange\<close> the keys its \<open>Range\<close> has visited.\<close>

type_synonym active_job_key = "string \<times> int"

datatype call_pc =
    DrainLock | DrainCancel | DrainLoop
  | StopLock | StopCancel | StopOnce | StopClose | StopTake | StopRunners "nat list"
  | StopRange "active_job_key list"
  | CallDone

datatype once = OnceFree | OnceRunning | OnceDone

text \<open>Where \<open>Run\<close> stands: its own loop, \<open>connect\<close>, \<open>pollForJobs\<close>, the handling of the error \<open>connect\<close>
  returned, a nested call of \<open>Drain\<close> or \<open>Stop\<close>, and the deferred function.\<close>

datatype run_pc =
    NotRun | RunSetCancel | RunTop | RunCtxDone | RunStateCheck | AwaitStop
  | ConnStart | ConnRegFns | ConnRegWorker | ConnStore | ConnLoad | ConnTake | ConnStopRunners "nat list"
  | ConnStartRunners | ConnHeartbeat
  | PollTop | PollState | PollDraining | PollFree | PollRequest int | PollErr goerr | PollPause bool
  | PollJobs "job_assignment list" | PollProcess job_assignment "job_assignment list"
  | FailStopped goerr | FailDraining goerr | FailCtx goerr | FailKind goerr | ReconnectWait
  | RunCall call_pc "goerr option" | RunExit "goerr option" | Returned "goerr option"

text \<open>A job goroutine: the acknowledgement of a fenced job, its execution, and the three steps of the
  deferred function.\<close>

datatype job_phase = Acking | Executing | Deleting | Uncounting | Releasing | Gone

record job_goroutine =
  jg_job :: job_assignment
  jg_startedAt :: int
  jg_phase :: job_phase
  jg_cancelled :: bool

datatype beat_phase = Ticking | BeatGen | Sending | BeatGone

record heartbeat =
  hb_gen :: nat
  hb_phase :: beat_phase

text \<open>The worker. \<open>wk_runErr\<close> is the error of the run context, \<open>wk_cancelSet\<close> says that \<open>cancelRun\<close> is not
  nil, \<open>wk_active\<close> maps a key to the goroutine that runs it; \<open>wk_live\<close> are the projection runners that
  were started and not stopped.\<close>

record worker =
  wk_state :: worker_state
  wk_once :: once
  wk_stopClosed :: bool
  wk_runErr :: "goerr option"
  wk_cancelSet :: bool
  wk_active :: "(active_job_key \<times> nat) list"
  wk_jobCount :: int
  wk_jobs :: "job_goroutine list"
  wk_gen :: nat
  wk_beats :: "heartbeat list"
  wk_runners :: "nat list"
  wk_live :: "nat list"
  wk_nextRunner :: nat
  wk_run :: run_pc
  wk_calls :: "call_pc list"

definition newWorkerState :: worker where
  "newWorkerState = \<lparr> wk_state = stateIdle, wk_once = OnceFree, wk_stopClosed = False, wk_runErr = None,
     wk_cancelSet = False, wk_active = [], wk_jobCount = 0, wk_jobs = [], wk_gen = 0, wk_beats = [],
     wk_runners = [], wk_live = [], wk_nextRunner = 0, wk_run = NotRun, wk_calls = [] \<rparr>"

section \<open>Drain and Stop\<close>

definition cancelRunContext :: "worker \<Rightarrow> worker" where
  "cancelRunContext w =
     (if wk_cancelSet w \<and> wk_runErr w = None then w \<lparr> wk_runErr := Some ECanceled \<rparr> else w)"

definition cancelJob :: "nat \<Rightarrow> worker \<Rightarrow> worker" where
  "cancelJob i w =
     (if i < length (wk_jobs w) then w \<lparr> wk_jobs := (wk_jobs w)[i := (wk_jobs w ! i) \<lparr> jg_cancelled := True \<rparr>] \<rparr> else w)"

definition stopRunners :: "nat list \<Rightarrow> worker \<Rightarrow> worker" where
  "stopRunners rs w = w \<lparr> wk_live := filter (\<lambda>r. r \<notin> set rs) (wk_live w) \<rparr>"

text \<open>What the select of \<open>Drain\<close> takes, and the key \<open>Range\<close> visits.\<close>

datatype call_choice = Proceed | Deadline | DrainTick | Visit active_job_key

text \<open>One step of a call; \<open>None\<close> when the call cannot take it now. \<open>sync.Once\<close> blocks a caller while
  another one runs the function. The deadline of \<open>Drain\<close> may fire right after the last job left.\<close>

fun callStep :: "call_choice \<Rightarrow> call_pc \<Rightarrow> worker \<Rightarrow> (call_pc \<times> worker) option" where
  "callStep ch DrainLock w =
     (if ch \<noteq> Proceed then None
      else if wk_state w = stateStopped then Some (CallDone, w)
      else Some (DrainCancel, w \<lparr> wk_state := storeStateUnlessDraining (wk_state w) stateDraining \<rparr>))"
| "callStep ch DrainCancel w = (if ch \<noteq> Proceed then None else Some (DrainLoop, cancelRunContext w))"
| "callStep ch DrainLoop w =
     (case ch of
        Proceed \<Rightarrow> if wk_jobCount w > 0 then None else Some (StopLock, w)
      | Deadline \<Rightarrow> Some (StopLock, w)
      | DrainTick \<Rightarrow> if wk_jobCount w > 0 then Some (DrainLoop, w) else None
      | Visit _ \<Rightarrow> None)"
| "callStep ch StopLock w = (if ch \<noteq> Proceed then None else Some (StopCancel, w \<lparr> wk_state := stateStopped \<rparr>))"
| "callStep ch StopCancel w = (if ch \<noteq> Proceed then None else Some (StopOnce, cancelRunContext w))"
| "callStep ch StopOnce w =
     (if ch \<noteq> Proceed then None
      else (case wk_once w of
              OnceFree \<Rightarrow> Some (StopClose, w \<lparr> wk_once := OnceRunning \<rparr>)
            | OnceRunning \<Rightarrow> None
            | OnceDone \<Rightarrow> Some (CallDone, w)))"
| "callStep ch StopClose w = (if ch \<noteq> Proceed then None else Some (StopTake, w \<lparr> wk_stopClosed := True \<rparr>))"
| "callStep ch StopTake w =
     (if ch \<noteq> Proceed then None else Some (StopRunners (wk_runners w), w \<lparr> wk_runners := [] \<rparr>))"
| "callStep ch (StopRunners rs) w = (if ch \<noteq> Proceed then None else Some (StopRange [], stopRunners rs w))"
| "callStep ch (StopRange ks) w =
     (case ch of
        Visit k \<Rightarrow>
          (if k \<in> set ks then None
           else case map_of (wk_active w) k of
                  None \<Rightarrow> None
                | Some i \<Rightarrow> Some (StopRange (k # ks), cancelJob i w))
      | Proceed \<Rightarrow>
          if list_all (\<lambda>(k, _). k \<in> set ks) (wk_active w) then Some (CallDone, w \<lparr> wk_once := OnceDone \<rparr>) else None
      | _ \<Rightarrow> None)"
| "callStep ch CallDone w = None"

section \<open>Jobs\<close>

definition jobKey :: "job_assignment \<Rightarrow> active_job_key" where
  "jobKey job = (ja_JobID job, ja_ExecutionSeq job)"

text \<open>\<open>processJob\<close> up to the start of the goroutine.\<close>

definition processJob :: "int \<Rightarrow> job_assignment \<Rightarrow> worker \<Rightarrow> worker" where
  "processJob now job w =
     (if wk_state w = stateDraining \<or> wk_state w = stateStopped then w
      else if map_of (wk_active w) (jobKey job) \<noteq> None then w
      else w \<lparr> wk_active := AList.update (jobKey job) (length (wk_jobs w)) (wk_active w),
               wk_jobCount := wk_jobCount w + 1,
               wk_jobs := wk_jobs w @ [\<lparr> jg_job = job, jg_startedAt = now,
                 jg_phase = (if ja_LeaseToken job \<noteq> [] then Acking else Executing), jg_cancelled = False \<rparr>] \<rparr>)"

text \<open>What a job goroutine does next: its acknowledgement was accepted or not, an update was answered with
  a stale execution and cancelled the job, the execution ended, or the deferred function goes on.\<close>

datatype job_choice = AckAccepted | AckRefused | StaleUpdate | Finished | Deferred

definition setJobPhase :: "nat \<Rightarrow> job_phase \<Rightarrow> worker \<Rightarrow> worker" where
  "setJobPhase i p w = w \<lparr> wk_jobs := (wk_jobs w)[i := (wk_jobs w ! i) \<lparr> jg_phase := p \<rparr>] \<rparr>"

definition jobStep :: "job_choice \<Rightarrow> nat \<Rightarrow> worker \<Rightarrow> worker option" where
  "jobStep ch i w =
     (if \<not> i < length (wk_jobs w) then None
      else
        let g = wk_jobs w ! i; key = jobKey (jg_job g) in
        case (jg_phase g, ch) of
          (Acking, AckAccepted) \<Rightarrow> Some (setJobPhase i Executing w)
        | (Acking, AckRefused) \<Rightarrow> Some (setJobPhase i Deleting w)
        | (Executing, StaleUpdate) \<Rightarrow> Some (cancelJob i w)
        | (Executing, Finished) \<Rightarrow> Some (setJobPhase i Deleting w)
        | (Deleting, Deferred) \<Rightarrow>
            Some (setJobPhase i Uncounting
              (if map_of (wk_active w) key = Some i then w \<lparr> wk_active := AList.delete key (wk_active w) \<rparr> else w))
        | (Uncounting, Deferred) \<Rightarrow> Some (setJobPhase i Releasing (w \<lparr> wk_jobCount := wk_jobCount w - 1 \<rparr>))
        | (Releasing, Deferred) \<Rightarrow> Some (setJobPhase i Gone (cancelJob i w))
        | _ \<Rightarrow> None)"

section \<open>Heartbeats\<close>

definition lostRegistration :: "worker \<Rightarrow> worker" where
  "lostRegistration w = (if wk_state w = stateConnected then w \<lparr> wk_state := stateConnecting \<rparr> else w)"

text \<open>The jobs a heartbeat lists: the active ones whose context is not done.\<close>

definition heartbeatJobs :: "worker \<Rightarrow> (string \<times> int) list" where
  "heartbeatJobs w =
     map (\<lambda>g. (ja_JobID (jg_job g), jg_startedAt g))
       (filter (\<lambda>g. \<not> jg_cancelled g) (map (\<lambda>(_, i). wk_jobs w ! i) (AList.clearjunk (wk_active w))))"

definition startHeartbeat :: "worker \<Rightarrow> worker" where
  "startHeartbeat w =
     w \<lparr> wk_gen := wk_gen w + 1, wk_beats := wk_beats w @ [\<lparr> hb_gen = wk_gen w + 1, hb_phase = Ticking \<rparr>] \<rparr>"

datatype beat_choice = BeatStop | BeatTick | BeatCheck | BeatReply "goerr option"

definition setBeat :: "nat \<Rightarrow> beat_phase \<Rightarrow> worker \<Rightarrow> worker" where
  "setBeat i p w = w \<lparr> wk_beats := (wk_beats w)[i := (wk_beats w ! i) \<lparr> hb_phase := p \<rparr>] \<rparr>"

definition beatStep :: "beat_choice \<Rightarrow> nat \<Rightarrow> worker \<Rightarrow> worker option" where
  "beatStep ch i w =
     (if \<not> i < length (wk_beats w) then None
      else case (hb_phase (wk_beats w ! i), ch) of
          (Ticking, BeatStop) \<Rightarrow> if wk_stopClosed w then Some (setBeat i BeatGone w) else None
        | (Ticking, BeatTick) \<Rightarrow>
            Some (setBeat i (if wk_state w \<noteq> stateConnected \<and> wk_state w \<noteq> stateDraining then BeatGone else BeatGen) w)
        | (BeatGen, BeatCheck) \<Rightarrow>
            Some (setBeat i (if wk_gen w \<noteq> hb_gen (wk_beats w ! i) then BeatGone else Sending) w)
        | (Sending, BeatReply err) \<Rightarrow>
            Some (setBeat i Ticking
              (case err of
                 Some e \<Rightarrow> if errorsIs errNotFound e then lostRegistration w else w
               | None \<Rightarrow> w))
        | _ \<Rightarrow> None)"

section \<open>Run\<close>

text \<open>What a step of \<open>Run\<close> depends on besides the state: the branch a select takes, the reply of a
  request, which projection runners started, the time, and the choices of a nested call.\<close>

datatype run_choice =
    OnCtx | OnStop | OnDefault | OnTimer | Next
  | Reply "goerr option"
  | Polled "goerr + job_assignment list \<times> bool"
  | Started "bool list"
  | Now int
  | InCall call_choice

definition runAt :: "run_pc \<Rightarrow> worker \<Rightarrow> worker option" where
  "runAt pc w = Some (w \<lparr> wk_run := pc \<rparr>)"

text \<open>The switch after \<open>runCtx.Done()\<close>, which the loop and the wait before a reconnect share.\<close>

definition runCtxDone :: "worker \<Rightarrow> worker option" where
  "runCtxDone w =
     (case wk_state w of
        stateStopped \<Rightarrow> runAt (RunExit None) w
      | stateDraining \<Rightarrow> runAt AwaitStop w
      | _ \<Rightarrow> runAt (RunCall DrainLock (wk_runErr w)) w)"

definition startProjectionRunners :: "worker_config \<Rightarrow> bool list \<Rightarrow> worker \<Rightarrow> worker" where
  "startProjectionRunners cfg started w =
     (let new = map (\<lambda>n. wk_nextRunner w + n) [0..<wc_Projections cfg] in
      w \<lparr> wk_runners := wk_runners w @ new,
          wk_live := wk_live w @ map snd (filter fst (zip started new)),
          wk_nextRunner := wk_nextRunner w + wc_Projections cfg \<rparr>)"

definition connectStep :: "worker_config \<Rightarrow> run_choice \<Rightarrow> run_pc \<Rightarrow> worker \<Rightarrow> worker option" where
  "connectStep cfg ch pc w =
     (case (pc, ch) of
        (ConnStart, Next) \<Rightarrow> runAt ConnRegFns (w \<lparr> wk_state := storeStateUnlessDraining (wk_state w) stateConnecting \<rparr>)
      | (ConnRegFns, Reply r) \<Rightarrow> runAt (case r of Some e \<Rightarrow> FailStopped e | None \<Rightarrow> ConnRegWorker) w
      | (ConnRegWorker, Reply r) \<Rightarrow> runAt (case r of Some e \<Rightarrow> FailStopped e | None \<Rightarrow> ConnStore) w
      | (ConnStore, Next) \<Rightarrow> runAt ConnLoad (w \<lparr> wk_state := storeStateUnlessDraining (wk_state w) stateConnected \<rparr>)
      | (ConnLoad, Next) \<Rightarrow> runAt (if wk_state w \<noteq> stateConnected then RunTop else ConnTake) w
      | (ConnTake, Next) \<Rightarrow> runAt (ConnStopRunners (wk_runners w)) (w \<lparr> wk_runners := [] \<rparr>)
      | (ConnStopRunners rs, Next) \<Rightarrow> runAt ConnStartRunners (stopRunners rs w)
      | (ConnStartRunners, Started started) \<Rightarrow>
          runAt ConnHeartbeat (if wc_Projections cfg = 0 then w else startProjectionRunners cfg started w)
      | (ConnHeartbeat, Next) \<Rightarrow> runAt PollTop (startHeartbeat w)
      | _ \<Rightarrow> None)"

definition pollStep :: "worker_config \<Rightarrow> run_choice \<Rightarrow> run_pc \<Rightarrow> worker \<Rightarrow> worker option" where
  "pollStep cfg ch pc w =
     (case (pc, ch) of
        (PollTop, OnCtx) \<Rightarrow> (case wk_runErr w of Some e \<Rightarrow> runAt (FailStopped e) w | None \<Rightarrow> None)
      | (PollTop, OnStop) \<Rightarrow> if wk_stopClosed w then runAt RunTop w else None
      | (PollTop, OnDefault) \<Rightarrow> if wk_runErr w = None \<and> \<not> wk_stopClosed w then runAt PollState w else None
      | (PollState, Next) \<Rightarrow> runAt (if wk_state w \<noteq> stateConnected then RunTop else PollDraining) w
      | (PollDraining, Next) \<Rightarrow> runAt (if wk_state w = stateDraining then RunTop else PollFree) w
      | (PollFree, Next) \<Rightarrow>
          (let free = wc_MaxConcurrentJobs cfg - wk_jobCount w
           in runAt (if free \<le> 0 then PollPause True else PollRequest free) w)
      | (PollRequest n, Polled (Inl err)) \<Rightarrow>
          if errorsIs errNotFound err then runAt (PollPause False) (lostRegistration w) else runAt (PollErr err) w
      | (PollRequest n, Polled (Inr (jobs, held))) \<Rightarrow>
          runAt (if jobs = [] then (if held then PollTop else PollPause True) else PollJobs jobs) w
      | (PollErr err, Next) \<Rightarrow>
          (case wk_runErr w of
             Some e \<Rightarrow> runAt (FailStopped e) w
           | None \<Rightarrow> if errorsIs ErrUnauthorized err \<or> errorsIs ErrForbidden err then runAt (FailStopped err) w
                     else runAt (PollPause True) w)
      | (PollPause again, OnCtx) \<Rightarrow> (case wk_runErr w of Some e \<Rightarrow> runAt (FailStopped e) w | None \<Rightarrow> None)
      | (PollPause again, OnStop) \<Rightarrow> if wk_stopClosed w then runAt (if again then PollTop else RunTop) w else None
      | (PollPause again, OnTimer) \<Rightarrow> runAt (if again then PollTop else RunTop) w
      | (PollJobs jobs, Next) \<Rightarrow>
          (case jobs of
             [] \<Rightarrow> runAt PollTop w
           | j # js \<Rightarrow> runAt (if wk_state w \<noteq> stateConnected then PollTop else PollProcess j js) w)
      | (PollProcess j js, Now t) \<Rightarrow> runAt (PollJobs js) (processJob t j w)
      | _ \<Rightarrow> None)"

text \<open>What \<open>Run\<close> does with an error of \<open>connect\<close>.\<close>

definition failStep :: "run_choice \<Rightarrow> run_pc \<Rightarrow> worker \<Rightarrow> worker option" where
  "failStep ch pc w =
     (case (pc, ch) of
        (FailStopped e, Next) \<Rightarrow> runAt (if wk_state w = stateStopped then RunExit None else FailDraining e) w
      | (FailDraining e, Next) \<Rightarrow> runAt (if wk_state w = stateDraining then AwaitStop else FailCtx e) w
      | (FailCtx e, Next) \<Rightarrow> runAt (if wk_runErr w \<noteq> None then RunCall DrainLock (wk_runErr w) else FailKind e) w
      | (FailKind e, Next) \<Rightarrow> runAt (if \<not> isRetryable e then RunCall StopLock (Some e) else ReconnectWait) w
      | (ReconnectWait, OnCtx) \<Rightarrow> if wk_runErr w \<noteq> None then runAt RunCtxDone w else None
      | (ReconnectWait, OnTimer) \<Rightarrow> runAt RunTop w
      | _ \<Rightarrow> None)"

definition loopStep :: "run_choice \<Rightarrow> run_pc \<Rightarrow> worker \<Rightarrow> worker option" where
  "loopStep ch pc w =
     (case (pc, ch) of
        (RunSetCancel, Next) \<Rightarrow> runAt RunTop (w \<lparr> wk_cancelSet := True \<rparr>)
      | (RunTop, OnCtx) \<Rightarrow> if wk_runErr w \<noteq> None then runAt RunCtxDone w else None
      | (RunTop, OnStop) \<Rightarrow> if wk_stopClosed w then runAt (RunExit None) w else None
      | (RunTop, OnDefault) \<Rightarrow> if wk_runErr w = None \<and> \<not> wk_stopClosed w then runAt RunStateCheck w else None
      | (RunCtxDone, Next) \<Rightarrow> runCtxDone w
      | (RunStateCheck, Next) \<Rightarrow> runAt (if wk_state w = stateDraining then AwaitStop else ConnStart) w
      | (AwaitStop, OnStop) \<Rightarrow> if wk_stopClosed w then runAt (RunExit None) w else None
      | (RunCall cp ret, InCall c) \<Rightarrow>
          (case callStep c cp w of
             None \<Rightarrow> None
           | Some (cp', w') \<Rightarrow> runAt (if cp' = CallDone then RunExit ret else RunCall cp' ret) w')
      | (RunExit ret, Next) \<Rightarrow>
          runAt (Returned ret) (w \<lparr> wk_cancelSet := False,
            wk_runErr := (if wk_runErr w = None then Some ECanceled else wk_runErr w) \<rparr>)
      | _ \<Rightarrow> None)"

definition runStep :: "worker_config \<Rightarrow> run_choice \<Rightarrow> worker \<Rightarrow> worker option" where
  "runStep cfg ch w =
     first_some id [loopStep ch (wk_run w) w, connectStep cfg ch (wk_run w) w, pollStep cfg ch (wk_run w) w,
       failStep ch (wk_run w) w]"

section \<open>The machine\<close>

datatype action =
    CtxEnds goerr
  | StartRun
  | CallDrain
  | CallStop
  | RunStep run_choice
  | CallStep nat call_choice
  | JobStep nat job_choice
  | BeatStep nat beat_choice

text \<open>\<open>StartRun\<close> is the compare-and-swap at the head of \<open>Run\<close>; a second call of \<open>Run\<close> fails there and
  changes nothing.\<close>

fun act :: "worker_config \<Rightarrow> action \<Rightarrow> worker \<Rightarrow> worker option" where
  "act cfg (CtxEnds e) w = Some (if wk_runErr w = None then w \<lparr> wk_runErr := Some e \<rparr> else w)"
| "act cfg StartRun w =
     Some (if wk_state w = stateIdle then w \<lparr> wk_state := stateConnecting, wk_run := RunSetCancel \<rparr> else w)"
| "act cfg CallDrain w = Some (w \<lparr> wk_calls := wk_calls w @ [DrainLock] \<rparr>)"
| "act cfg CallStop w = Some (w \<lparr> wk_calls := wk_calls w @ [StopLock] \<rparr>)"
| "act cfg (RunStep ch) w = runStep cfg ch w"
| "act cfg (CallStep i ch) w =
     (if \<not> i < length (wk_calls w) then None
      else case callStep ch (wk_calls w ! i) w of
             None \<Rightarrow> None
           | Some (pc, w') \<Rightarrow> Some (w' \<lparr> wk_calls := (wk_calls w')[i := pc] \<rparr>))"
| "act cfg (JobStep i ch) w = jobStep ch i w"
| "act cfg (BeatStep i ch) w = beatStep ch i w"

abbreviation runWorker :: "worker_config \<Rightarrow> action list \<Rightarrow> worker \<Rightarrow> worker option" where
  "runWorker cfg \<equiv> runSteps (act cfg)"

abbreviation reachable :: "worker_config \<Rightarrow> worker \<Rightarrow> bool" where
  "reachable cfg \<equiv> reaches (act cfg) newWorkerState"

section \<open>How the steps act on the shared state\<close>

text \<open>The calls in progress, the one nested in \<open>Run\<close> included.\<close>

definition nestedCall :: "run_pc \<Rightarrow> call_pc multiset" where
  "nestedCall pc = (case pc of RunCall cp _ \<Rightarrow> {#cp#} | _ \<Rightarrow> {#})"

definition pcs :: "worker \<Rightarrow> call_pc multiset" where
  "pcs w = mset (wk_calls w) + nestedCall (wk_run w)"

lemma nestedCall_simps [simp]: "nestedCall (RunCall cp ret) = {#cp#}" "nestedCall (RunExit r) = {#}"
  by (simp_all add: nestedCall_def)

definition jobsView :: "worker \<Rightarrow> (active_job_key \<times> nat) list \<times> int \<times> job_goroutine list" where
  "jobsView w = (wk_active w, wk_jobCount w, wk_jobs w)"

definition stopView :: "worker \<Rightarrow> worker_state \<times> once \<times> bool" where
  "stopView w = (wk_state w, wk_once w, wk_stopClosed w)"

definition ending :: "worker \<Rightarrow> bool" where
  "ending w \<longleftrightarrow> wk_state w = stateDraining \<or> wk_state w = stateStopped"

text \<open>Steps that touch neither the jobs nor the machinery of \<open>Stop\<close>; they may move a worker that is not
  ending among its other states, and start a call.\<close>

definition quiet :: "worker \<Rightarrow> worker \<Rightarrow> bool" where
  "quiet w w' \<longleftrightarrow> jobsView w' = jobsView w \<and> snd (stopView w') = snd (stopView w) \<and>
     (wk_state w' = wk_state w \<or> \<not> ending w \<and> \<not> ending w' \<and> wk_state w' \<noteq> stateIdle) \<and>
     (pcs w' = pcs w \<or> pcs w' = pcs w + {#DrainLock#} \<or> pcs w' = pcs w + {#StopLock#})"

definition callMove :: "worker \<Rightarrow> worker \<Rightarrow> bool" where
  "callMove w w' \<longleftrightarrow> (\<exists>ch pc pc' w1. pc \<in># pcs w \<and> callStep ch pc w = Some (pc', w1) \<and>
     jobsView w' = jobsView w1 \<and> stopView w' = stopView w1 \<and>
     (pcs w' = pcs w - {#pc#} + {#pc'#} \<or> pc' = CallDone \<and> pcs w' = pcs w - {#pc#}))"

definition jobStarts :: "worker \<Rightarrow> worker \<Rightarrow> bool" where
  "jobStarts w w' \<longleftrightarrow> (\<exists>t j js. wk_run w = PollProcess j js \<and> w' = (processJob t j w) \<lparr> wk_run := PollJobs js \<rparr>)"

lemma callMoveI:
  "pc \<in># pcs w \<Longrightarrow> callStep ch pc w = Some (pc', w1) \<Longrightarrow> jobsView w' = jobsView w1 \<Longrightarrow> stopView w' = stopView w1 \<Longrightarrow>
   pcs w' = pcs w - {#pc#} + {#pc'#} \<or> pc' = CallDone \<and> pcs w' = pcs w - {#pc#} \<Longrightarrow> callMove w w'"
  unfolding callMove_def by blast

lemmas view_defs = jobsView_def stopView_def ending_def

lemma callStep_frame:
  assumes "callStep ch pc w = Some (pc', w1)"
  shows "wk_calls w1 = wk_calls w" "wk_run w1 = wk_run w" "wk_active w1 = wk_active w" "wk_jobCount w1 = wk_jobCount w"
    "wk_beats w1 = wk_beats w"
  using assms
  by (cases pc; auto simp: cancelRunContext_def cancelJob_def stopRunners_def
      split: if_splits call_choice.splits once.splits option.splits)+

lemma quiet_connect: "connectStep cfg ch (wk_run w) w = Some w' \<Longrightarrow> quiet w w'"
  by (cases "wk_run w"; cases ch)
     (auto simp: connectStep_def runAt_def quiet_def view_defs pcs_def nestedCall_def stopRunners_def startHeartbeat_def
       startProjectionRunners_def storeStateUnlessDraining_def Let_def split: option.splits if_splits)

lemma quiet_fail: "failStep ch (wk_run w) w = Some w' \<Longrightarrow> quiet w w'"
  by (cases "wk_run w"; cases ch)
     (auto simp: failStep_def runAt_def quiet_def view_defs pcs_def nestedCall_def split: option.splits if_splits)

lemma quiet_poll: "pollStep cfg ch (wk_run w) w = Some w' \<Longrightarrow> quiet w w' \<or> jobStarts w w'"
  by (cases "wk_run w"; cases ch)
     (auto simp: pollStep_def runAt_def quiet_def jobStarts_def view_defs pcs_def nestedCall_def lostRegistration_def Let_def
       split: option.splits if_splits sum.splits list.splits)

lemma quiet_loop: "loopStep ch (wk_run w) w = Some w' \<Longrightarrow> quiet w w' \<or> callMove w w'"
proof (cases "\<exists>cp ret c. wk_run w = RunCall cp ret \<and> ch = InCall c")
  case True
  assume s: "loopStep ch (wk_run w) w = Some w'"
  from True obtain cp ret c where r: "wk_run w = RunCall cp ret" "ch = InCall c" by blast
  from s r obtain cp' w1 where c: "callStep c cp w = Some (cp', w1)"
    "w' = w1 \<lparr> wk_run := (if cp' = CallDone then RunExit ret else RunCall cp' ret) \<rparr>"
    by (auto simp: loopStep_def runAt_def split: option.splits)
  have "pcs w' = pcs w - {#cp#} + {#cp'#} \<or> cp' = CallDone \<and> pcs w' = pcs w - {#cp#}"
    using c(2) r(1) callStep_frame [OF c(1)] by (auto simp: pcs_def)
  moreover have "cp \<in># pcs w" using r(1) by (simp add: pcs_def)
  moreover have "jobsView w' = jobsView w1" "stopView w' = stopView w1" using c(2) by (auto simp: view_defs)
  ultimately show ?thesis using callMoveI [OF _ c(1)] by blast
next
  case False
  assume "loopStep ch (wk_run w) w = Some w'"
  with False show ?thesis
    by (cases "wk_run w"; cases ch)
       (auto simp: loopStep_def runCtxDone_def runAt_def quiet_def view_defs pcs_def nestedCall_def
         split: option.splits if_splits worker_state.splits)
qed

lemma quiet_beat: "beatStep ch i w = Some w' \<Longrightarrow> quiet w w'"
  by (auto simp: beatStep_def setBeat_def lostRegistration_def quiet_def view_defs pcs_def
      split: if_splits beat_phase.splits beat_choice.splits option.splits)

lemma runStep_cases:
  "runStep cfg ch w = Some w' \<Longrightarrow> quiet w w' \<or> callMove w w' \<or> jobStarts w w'"
  using quiet_loop [of ch w w'] quiet_connect [of cfg ch w w'] quiet_poll [of cfg ch w w'] quiet_fail [of ch w w']
  by (auto simp: runStep_def split: option.splits)

lemma runStep_NotRun: "wk_run w = NotRun \<Longrightarrow> runStep cfg ch w = None"
  by (simp add: runStep_def loopStep_def connectStep_def pollStep_def failStep_def)

text \<open>A worker is idle only until \<open>Run\<close> is called.\<close>

definition idleOK :: "worker \<Rightarrow> bool" where
  "idleOK w \<longleftrightarrow> (wk_state w = stateIdle \<longrightarrow> wk_run w = NotRun)"

lemma pcs_cong: "wk_calls w' = wk_calls w \<Longrightarrow> wk_run w' = wk_run w \<Longrightarrow> pcs w' = pcs w"
  by (simp add: pcs_def)

lemma act_cases:
  assumes "act cfg a w = Some w'" and "idleOK w"
  shows "quiet w w' \<or> callMove w w' \<or> jobStarts w w' \<or> (\<exists>ch i. jobStep ch i w = Some w')"
proof (cases a)
  case (CallStep i ch)
  with assms obtain pc w1 where i: "i < length (wk_calls w)"
    and c: "callStep ch (wk_calls w ! i) w = Some (pc, w1)" and w': "w' = w1 \<lparr> wk_calls := (wk_calls w1)[i := pc] \<rparr>"
    by (auto split: if_splits option.splits)
  have "pcs w' = pcs w - {#wk_calls w ! i#} + {#pc#}"
    using i w' callStep_frame [OF c] by (simp add: pcs_def mset_update)
  moreover have "wk_calls w ! i \<in># pcs w" using i by (simp add: pcs_def)
  moreover have "jobsView w' = jobsView w1" "stopView w' = stopView w1" using w' by (simp_all add: view_defs)
  ultimately show ?thesis using callMoveI [OF _ c] by blast
next
  case (BeatStep i ch)
  with assms show ?thesis using quiet_beat [of ch i w w'] by simp
next
  case (RunStep ch)
  with assms show ?thesis using runStep_cases [of cfg ch w w'] by auto
next
  case (JobStep i ch)
  with assms show ?thesis by auto
next
  case StartRun
  with assms have "quiet w w'"
    by (cases "wk_state w = stateIdle") (auto simp: quiet_def view_defs pcs_def nestedCall_def idleOK_def)
  then show ?thesis ..
next
  case (CtxEnds e)
  with assms have "quiet w w'" by (cases "wk_runErr w = None") (auto simp: quiet_def view_defs pcs_def)
  then show ?thesis ..
qed (use assms in \<open>auto simp: quiet_def view_defs pcs_def\<close>)

lemma callStep_state:
  "callStep ch pc w = Some (pc', w1) \<Longrightarrow> wk_state w1 = stateIdle \<Longrightarrow> wk_state w = stateIdle"
  by (cases pc)
     (auto simp: cancelRunContext_def cancelJob_def stopRunners_def storeStateUnlessDraining_def
       split: if_splits call_choice.splits once.splits option.splits)

lemma processJob_frame:
  "wk_state (processJob t j w) = wk_state w" "wk_once (processJob t j w) = wk_once w"
  "wk_stopClosed (processJob t j w) = wk_stopClosed w" "wk_calls (processJob t j w) = wk_calls w"
  "wk_runErr (processJob t j w) = wk_runErr w"
  by (simp_all add: processJob_def)

lemma jobStep_frame:
  assumes "jobStep ch i w = Some w'"
  shows "stopView w' = stopView w" "pcs w' = pcs w" "wk_run w' = wk_run w" "wk_calls w' = wk_calls w"
  using assms
  by (auto simp: jobStep_def setJobPhase_def cancelJob_def stopView_def pcs_def Let_def
      split: if_splits job_phase.splits job_choice.splits)

lemma act_idle:
  assumes "act cfg a w = Some w'" "idleOK w"
  shows "idleOK w'"
proof (cases "wk_state w' = stateIdle")
  case True
  from act_cases [OF assms] have i: "wk_state w = stateIdle"
  proof (elim disjE exE)
    assume "callMove w w'"
    with True show ?thesis using callStep_state by (fastforce simp: callMove_def stopView_def)
  next
    fix ch j assume "jobStep ch j w = Some w'"
    with True jobStep_frame(1) [of ch j w w'] show ?thesis by (simp add: stopView_def)
  next
    assume "quiet w w'"
    with True show ?thesis unfolding quiet_def by metis
  next
    assume "jobStarts w w'"
    with True show ?thesis by (auto simp: jobStarts_def processJob_frame)
  qed
  with assms(2) have n: "wk_run w = NotRun" by (simp add: idleOK_def)
  have "wk_run w' = NotRun"
  proof (cases a)
    case (RunStep ch)
    with assms(1) n show ?thesis by (simp add: runStep_NotRun)
  next
    case StartRun
    with assms(1) i True show ?thesis by auto
  next
    case (JobStep j ch)
    with assms(1) n jobStep_frame(3) [of ch j w w'] show ?thesis by simp
  next
    case (CallStep j ch)
    with assms(1) n callStep_frame(2) show ?thesis by (fastforce split: if_splits option.splits)
  next
    case (BeatStep j ch)
    with assms(1) n show ?thesis
      by (auto simp: beatStep_def setBeat_def lostRegistration_def
          split: if_splits beat_phase.splits beat_choice.splits option.splits)
  qed (use assms(1) n in auto)
  then show ?thesis by (simp add: idleOK_def)
qed (simp add: idleOK_def)

section \<open>The invariant of the jobs\<close>

definition inMap :: "job_phase \<Rightarrow> bool" where
  "inMap p \<longleftrightarrow> p = Acking \<or> p = Executing \<or> p = Deleting"

definition counted :: "job_phase \<Rightarrow> bool" where
  "counted p \<longleftrightarrow> inMap p \<or> p = Uncounting"

lemma phase_simps [simp]:
  "inMap Acking" "inMap Executing" "inMap Deleting" "\<not> inMap Uncounting" "\<not> inMap Releasing" "\<not> inMap Gone"
  "counted Acking" "counted Executing" "counted Deleting" "counted Uncounting" "\<not> counted Releasing" "\<not> counted Gone"
  by (simp_all add: inMap_def counted_def)

text \<open>The map of active jobs holds exactly the goroutines that have not left it, each under its key, and the
  job count is the number of those that have not counted themselves out.\<close>

definition jobsOK :: "(active_job_key \<times> nat) list \<times> int \<times> job_goroutine list \<Rightarrow> bool" where
  "jobsOK v \<longleftrightarrow> (case v of (m, n, js) \<Rightarrow>
     (\<forall>i < length js. inMap (jg_phase (js ! i)) \<longrightarrow> map_of m (jobKey (jg_job (js ! i))) = Some i) \<and>
     (\<forall>k i. map_of m k = Some i \<longrightarrow> i < length js \<and> inMap (jg_phase (js ! i)) \<and> jobKey (jg_job (js ! i)) = k) \<and>
     n = int (length (filter (\<lambda>g. counted (jg_phase g)) js)))"

lemma jobsOK_same:
  assumes "jobsOK (m, n, js)" and "i < length js" and "jg_job g = jg_job (js ! i)"
    and "inMap (jg_phase g) = inMap (jg_phase (js ! i))" and "counted (jg_phase g) = counted (jg_phase (js ! i))"
  shows "jobsOK (m, n, js[i := g])"
  using assms length_filter_update [OF assms(2), of "\<lambda>g. counted (jg_phase g)" g]
  by (auto simp: jobsOK_def nth_list_update)

lemma jobsOK_delete:
  assumes "jobsOK (m, n, js)" and "i < length js" and "jg_phase (js ! i) = Deleting"
  shows "map_of m (jobKey (jg_job (js ! i))) = Some i"
    and "jobsOK (AList.delete (jobKey (jg_job (js ! i))) m, n, js[i := (js ! i) \<lparr> jg_phase := Uncounting \<rparr>])"
proof -
  let ?k = "jobKey (jg_job (js ! i))"
  from assms show m: "map_of m ?k = Some i" by (auto simp: jobsOK_def)
  have "inMap (jg_phase (js ! j)) \<and> j < length js \<and> j \<noteq> i \<longrightarrow> jobKey (jg_job (js ! j)) \<noteq> ?k" for j
    using assms(1) m by (auto simp: jobsOK_def)
  with assms m length_filter_update [OF assms(2), of "\<lambda>g. counted (jg_phase g)" "(js ! i) \<lparr> jg_phase := Uncounting \<rparr>"]
  show "jobsOK (AList.delete ?k m, n, js[i := (js ! i) \<lparr> jg_phase := Uncounting \<rparr>])"
    by (auto simp: jobsOK_def nth_list_update delete_conv' split: if_splits)
qed

lemma jobsOK_uncount:
  assumes "jobsOK (m, n, js)" and "i < length js" and "jg_phase (js ! i) = Uncounting"
  shows "jobsOK (m, n - 1, js[i := (js ! i) \<lparr> jg_phase := Releasing \<rparr>])"
  using assms length_filter_update [OF assms(2), of "\<lambda>g. counted (jg_phase g)" "(js ! i) \<lparr> jg_phase := Releasing \<rparr>"]
  by (fastforce simp: jobsOK_def nth_list_update)

lemma jobsOK_start:
  assumes "jobsOK (m, n, js)" and "map_of m (jobKey (jg_job g)) = None" and "inMap (jg_phase g)"
  shows "jobsOK (AList.update (jobKey (jg_job g)) (length js) m, n + 1, js @ [g])"
  using assms by (fastforce simp: jobsOK_def nth_append update_conv' counted_def split: if_splits)

lemma jobsOK_cancelJob: "jobsOK (jobsView w) \<Longrightarrow> jobsOK (jobsView (cancelJob i w))"
  by (auto simp: cancelJob_def jobsView_def intro!: jobsOK_same)

lemma jobsOK_jobStep:
  assumes "jobStep ch i w = Some w'" and "jobsOK (jobsView w)"
  shows "jobsOK (jobsView w')"
proof -
  from assms(1) have i: "i < length (wk_jobs w)" by (auto simp: jobStep_def split: if_splits)
  note ok = assms(2) [unfolded jobsView_def]
  show ?thesis
  proof (cases "jg_phase (wk_jobs w ! i)")
    case Deleting
    with assms(1) i jobsOK_delete [OF ok i Deleting] show ?thesis
      by (auto simp: jobStep_def setJobPhase_def jobsView_def Let_def split: job_choice.splits)
  next
    case Uncounting
    with assms(1) i jobsOK_uncount [OF ok i Uncounting] show ?thesis
      by (auto simp: jobStep_def setJobPhase_def jobsView_def Let_def split: job_choice.splits)
  qed (use assms(1) i ok in \<open>auto simp: jobStep_def setJobPhase_def cancelJob_def jobsView_def Let_def
      split: job_choice.splits intro!: jobsOK_same\<close>)
qed

lemma jobsOK_callStep:
  "callStep ch pc w = Some (pc', w1) \<Longrightarrow> jobsOK (jobsView w) \<Longrightarrow> jobsOK (jobsView w1)"
  using jobsOK_cancelJob [of w]
  by (cases pc)
     (auto simp: cancelRunContext_def stopRunners_def jobsView_def
       split: if_splits call_choice.splits once.splits option.splits)

lemma jobsOK_processJob: "jobsOK (jobsView w) \<Longrightarrow> jobsOK (jobsView (processJob t j w))"
  using jobsOK_start [of "wk_active w" "wk_jobCount w" "wk_jobs w" "\<lparr> jg_job = j, jg_startedAt = t,
      jg_phase = (if ja_LeaseToken j \<noteq> [] then Acking else Executing), jg_cancelled = False \<rparr>"]
  by (auto simp: processJob_def jobsView_def)

interpretation jobs: step_invariant "act cfg" "\<lambda>w. idleOK w \<and> jobsOK (jobsView w)" for cfg
proof
  fix a w w'
  assume s: "act cfg a w = Some w'" and i: "idleOK w \<and> jobsOK (jobsView w)"
  have "jobsOK (jobsView w')"
    using act_cases [OF s] i jobsOK_callStep jobsOK_jobStep jobsOK_processJob [of w]
    by (fastforce simp: quiet_def callMove_def jobStarts_def jobsView_def)
  with act_idle [OF s] i show "idleOK w' \<and> jobsOK (jobsView w')" by blast
qed

lemma fresh_jobs: "idleOK newWorkerState \<and> jobsOK (jobsView newWorkerState)"
  by (simp add: idleOK_def jobsOK_def jobsView_def newWorkerState_def)

end
