(* ===== verification/Worker_Lifecycle.thy ===== *)
theory Worker_Lifecycle
  imports Polling_Worker
begin

text \<open>
  What the goroutines of the polling worker guarantee together: no job starts once a drain began, a
  returned \<open>Stop\<close> leaves no job uncancelled, the capacity is respected, \<open>Run\<close> returns after \<open>Stop\<close>, and
  the calls of \<open>Drain\<close> and \<open>Stop\<close> never block each other for good. Also a run in which \<open>Stop\<close> leaves a
  projection runner behind.
\<close>

section \<open>The invariant of Drain and Stop\<close>

text \<open>Calls after the state was set to stopped, calls inside the \<open>sync.Once\<close>, and calls after the stop
  channel was closed.\<close>

fun stopping :: "call_pc \<Rightarrow> bool" where
  "stopping DrainLock = False" | "stopping DrainCancel = False" | "stopping DrainLoop = False"
| "stopping StopLock = False" | "stopping CallDone = False" | "stopping _ = True"

fun inOnce :: "call_pc \<Rightarrow> bool" where
  "inOnce StopClose = True" | "inOnce StopTake = True" | "inOnce (StopRunners _) = True"
| "inOnce (StopRange _) = True" | "inOnce _ = False"

fun afterClose :: "call_pc \<Rightarrow> bool" where
  "afterClose StopTake = True" | "afterClose (StopRunners _) = True" | "afterClose (StopRange _) = True"
| "afterClose _ = False"

fun drainingPc :: "call_pc \<Rightarrow> bool" where
  "drainingPc DrainCancel = True" | "drainingPc DrainLoop = True" | "drainingPc StopLock = True" | "drainingPc _ = False"

fun inDrain :: "call_pc \<Rightarrow> bool" where
  "inDrain DrainCancel = True" | "inDrain DrainLoop = True" | "inDrain _ = False"

text \<open>A live job that is not cancelled.\<close>

definition liveJob :: "job_goroutine \<Rightarrow> bool" where
  "liveJob g \<longleftrightarrow> inMap (jg_phase g) \<and> \<not> jg_cancelled g"

definition flowInv :: "worker_state \<times> once \<times> bool \<Rightarrow> call_pc multiset \<Rightarrow> bool" where
  "flowInv v P \<longleftrightarrow> (case v of (st, once, cl) \<Rightarrow>
     ((\<exists>pc \<in># P. stopping pc) \<longrightarrow> st = stateStopped) \<and>
     ((\<exists>pc \<in># P. inDrain pc) \<longrightarrow> st = stateDraining \<or> st = stateStopped) \<and>
     (once \<noteq> OnceFree \<longrightarrow> st = stateStopped) \<and>
     (st = stateStopped \<longrightarrow> once = OnceDone \<or> (\<exists>pc \<in># P. stopping pc)) \<and>
     (st = stateDraining \<longrightarrow> (\<exists>pc \<in># P. drainingPc pc)) \<and>
     size (filter_mset inOnce P) = of_bool (once = OnceRunning) \<and>
     (once = OnceDone \<or> (\<exists>pc \<in># P. afterClose pc) \<longrightarrow> cl) \<and>
     (cl \<longrightarrow> once \<noteq> OnceFree))"

definition rangeInv :: "once \<Rightarrow> job_goroutine list \<Rightarrow> call_pc multiset \<Rightarrow> bool" where
  "rangeInv once js P \<longleftrightarrow>
     (\<forall>ks. StopRange ks \<in># P \<longrightarrow> (\<forall>g \<in> set js. liveJob g \<longrightarrow> jobKey (jg_job g) \<notin> set ks)) \<and>
     (once = OnceDone \<longrightarrow> (\<forall>g \<in> set js. \<not> liveJob g))"

definition stopInv ::
  "worker_state \<times> once \<times> bool \<Rightarrow> job_goroutine list \<Rightarrow> call_pc multiset \<Rightarrow> bool" where
  "stopInv v js P \<longleftrightarrow> flowInv v P \<and> rangeInv (fst (snd v)) js P"

lemma stopInv_CallDone: "stopInv v js (add_mset CallDone P) = stopInv v js P"
  by (simp add: stopInv_def flowInv_def rangeInv_def split: prod.splits)

lemma stopInv_call: "stopInv v js P \<Longrightarrow> pc = DrainLock \<or> pc = StopLock \<Longrightarrow> stopInv v js (add_mset pc P)"
  by (cases v; elim disjE) (simp_all add: stopInv_def flowInv_def rangeInv_def)

lemma flowInv_range: "flowInv v (add_mset (StopRange ks) P) = flowInv v (add_mset (StopRange ks') P)"
  by (simp add: flowInv_def)

lemma stopInv_jobs:
  assumes "stopInv v js P"
    and "\<And>g'. g' \<in> set js' \<Longrightarrow> liveJob g' \<Longrightarrow> \<exists>g \<in> set js. liveJob g \<and> jg_job g = jg_job g'"
  shows "stopInv v js' P"
  using assms unfolding stopInv_def rangeInv_def by metis

lemma stopInv_state:
  assumes "stopInv (st, once, cl) js P" and "st \<noteq> stateDraining" "st \<noteq> stateStopped"
    and "st' \<noteq> stateDraining" "st' \<noteq> stateStopped"
  shows "stopInv (st', once, cl) js' P"
proof -
  from assms(1-3) have n: "\<not> (\<exists>pc \<in># P. stopping pc)" "once = OnceFree" by (auto simp: stopInv_def flowInv_def)
  then have "StopRange ks \<notin># P" for ks by auto
  then have "rangeInv once js' P" using n(2) by (simp add: rangeInv_def)
  with assms show ?thesis by (auto simp: stopInv_def flowInv_def)
qed

lemma jobStep_live:
  assumes "jobStep ch i w = Some w'" and "g' \<in> set (wk_jobs w')" and "liveJob g'"
  shows "\<exists>g \<in> set (wk_jobs w). liveJob g \<and> jg_job g = jg_job g'"
proof -
  from assms(1) obtain h where i: "i < length (wk_jobs w)" and h: "wk_jobs w' = (wk_jobs w)[i := h]"
    "jg_job h = jg_job (wk_jobs w ! i)" "liveJob h \<longrightarrow> liveJob (wk_jobs w ! i)"
    by (auto simp: jobStep_def setJobPhase_def cancelJob_def liveJob_def Let_def split: if_splits job_phase.splits job_choice.splits)
  from assms(2) h(1) have "g' \<in> set (wk_jobs w) \<or> g' = h" using set_update_subset_insert by fastforce
  with assms(3) i h(2,3) show ?thesis using nth_mem by metis
qed

lemma cancelRunContext_frame:
  "stopView (cancelRunContext w) = stopView w" "wk_jobs (cancelRunContext w) = wk_jobs w"
  by (simp_all add: cancelRunContext_def stopView_def)

lemma stopInv_callStep:
  assumes "callStep ch pc w = Some (pc', w1)" and "jobsOK (jobsView w)"
    and "stopInv (stopView w) (wk_jobs w) (add_mset pc P)"
  shows "stopInv (stopView w1) (wk_jobs w1) (add_mset pc' P)"
proof (cases pc)
  case (StopRange ks)
  show ?thesis
  proof (cases ch)
    case (Visit k)
    with assms(1) StopRange obtain i where i: "k \<notin> set ks" "map_of (wk_active w) k = Some i" "pc' = StopRange (k # ks)" "w1 = cancelJob i w"
      by (auto split: if_splits option.splits)
    with assms(2) have j: "i < length (wk_jobs w)" "jobKey (jg_job (wk_jobs w ! i)) = k"
      by (cases k; auto simp: jobsOK_def jobsView_def)+
    have only: "j = i" if "j < length (wk_jobs w)" "liveJob (wk_jobs w ! j)" "jobKey (jg_job (wk_jobs w ! j)) = k" for j
      using assms(2) that i(2) by (auto simp: jobsOK_def jobsView_def liveJob_def)
    have live: "liveJob g \<and> g \<in> set (wk_jobs w) \<and> jobKey (jg_job g) \<noteq> k"
      if "g \<in> set (wk_jobs w1)" "liveJob g" for g
    proof -
      from that(1) obtain l where l: "l < length (wk_jobs w)" "g = wk_jobs w1 ! l"
        using i(4) j(1) by (auto simp: cancelJob_def in_set_conv_nth)
      have "g = (if l = i then (wk_jobs w ! i) \<lparr> jg_cancelled := True \<rparr> else wk_jobs w ! l)"
        using l i(4) j(1) by (simp add: cancelJob_def nth_list_update)
      with that(2) have g: "l \<noteq> i" "g = wk_jobs w ! l" by (auto simp: liveJob_def split: if_splits)
      with that(2) l(1) only [of l] show ?thesis by auto
    qed
    have s: "stopInv (stopView w) (wk_jobs w1) (add_mset (StopRange ks) P)"
      by (rule stopInv_jobs [OF assms(3) [unfolded StopRange]]) (use live in blast)
    then have "\<forall>g \<in> set (wk_jobs w1). liveJob g \<longrightarrow> jobKey (jg_job g) \<notin> set (k # ks)"
      using live by (simp add: stopInv_def rangeInv_def)
    with s have "rangeInv (fst (snd (stopView w))) (wk_jobs w1) (add_mset (StopRange (k # ks)) P)"
      by (simp add: stopInv_def rangeInv_def)
    with s have "stopInv (stopView w) (wk_jobs w1) (add_mset (StopRange (k # ks)) P)"
      using flowInv_range [of "stopView w" ks P "k # ks"] by (simp add: stopInv_def)
    with i(3,4) show ?thesis by (simp add: cancelJob_def stopView_def split: if_splits)
  next
    case Proceed
    with assms(1) StopRange have p: "\<forall>(k, i) \<in> set (wk_active w). k \<in> set ks" "pc' = CallDone" "w1 = w \<lparr> wk_once := OnceDone \<rparr>"
      by (auto simp: list_all_iff split: if_splits)
    have "\<not> liveJob g" if "g \<in> set (wk_jobs w)" for g
    proof
      assume l: "liveJob g"
      with that assms(2) have "map_of (wk_active w) (jobKey (jg_job g)) \<noteq> None"
        by (auto simp: jobsOK_def jobsView_def liveJob_def in_set_conv_nth)
      then have "jobKey (jg_job g) \<in> set ks" using p(1) map_of_SomeD by fastforce
      with assms(3) StopRange that l show False by (auto simp: stopInv_def rangeInv_def)
    qed
    moreover have e: "filter_mset inOnce P = {#}"
      using assms(3) StopRange by (cases "wk_once w") (simp_all add: stopInv_def flowInv_def stopView_def)
    moreover have "StopRange ls \<notin># P" for ls using e by auto
    ultimately show ?thesis using assms(3) StopRange p(2,3)
      by (simp add: stopInv_def flowInv_def rangeInv_def stopView_def)
  qed (use assms(1) StopRange in auto)
next
  case DrainLock
  show ?thesis
  proof (cases "wk_state w = stateStopped")
    case True
    with assms(1) DrainLock have "pc' = CallDone" "w1 = w" by (simp_all split: if_splits)
    with assms(3) DrainLock show ?thesis by (cases "stopView w") (simp add: stopInv_def flowInv_def rangeInv_def)
  next
    case False
    with assms(1) DrainLock have "pc' = DrainCancel" "w1 = w \<lparr> wk_state := stateDraining \<rparr>"
      by (auto simp: storeStateUnlessDraining_def split: if_splits)
    with assms(3) DrainLock False show ?thesis by (auto simp: stopInv_def flowInv_def rangeInv_def stopView_def)
  qed
next
  case DrainCancel
  with assms(1) have "pc' = DrainLoop" "w1 = cancelRunContext w" by (simp_all split: if_splits)
  with assms(3) DrainCancel show ?thesis
    by (cases "stopView w") (simp add: stopInv_def flowInv_def rangeInv_def cancelRunContext_frame)
next
  case DrainLoop
  with assms(1) have "pc' = StopLock \<or> pc' = DrainLoop" "w1 = w" by (auto split: if_splits call_choice.splits)
  with assms(3) DrainLoop show ?thesis
    by (cases "stopView w"; elim disjE) (simp_all add: stopInv_def flowInv_def rangeInv_def)
next
  case StopLock
  with assms(1) have "pc' = StopCancel" "w1 = w \<lparr> wk_state := stateStopped \<rparr>" by (simp_all split: if_splits)
  with assms(3) StopLock show ?thesis by (simp add: stopInv_def flowInv_def rangeInv_def stopView_def)
next
  case StopCancel
  with assms(1) have "pc' = StopOnce" "w1 = cancelRunContext w" by (simp_all split: if_splits)
  with assms(3) StopCancel show ?thesis
    by (cases "stopView w") (simp add: stopInv_def flowInv_def rangeInv_def cancelRunContext_frame)
next
  case StopOnce
  show ?thesis
  proof (cases "wk_once w")
    case OnceFree
    with assms(1) StopOnce have "pc' = StopClose" "w1 = w \<lparr> wk_once := OnceRunning \<rparr>" by (simp_all split: if_splits)
    with assms(3) StopOnce OnceFree show ?thesis by (simp add: stopInv_def flowInv_def rangeInv_def stopView_def) blast
  next
    case OnceDone
    with assms(1) StopOnce have "pc' = CallDone" "w1 = w" by (simp_all split: if_splits)
    with assms(3) StopOnce OnceDone show ?thesis by (simp add: stopInv_def flowInv_def rangeInv_def stopView_def)
  qed (use assms(1) StopOnce in \<open>simp split: if_splits\<close>)
next
  case StopClose
  with assms(1) have "pc' = StopTake" "w1 = w \<lparr> wk_stopClosed := True \<rparr>" by (simp_all split: if_splits)
  with assms(3) StopClose show ?thesis by (cases "wk_once w") (simp_all add: stopInv_def flowInv_def rangeInv_def stopView_def)
next
  case StopTake
  with assms(1) have "pc' = StopRunners (wk_runners w)" "w1 = w \<lparr> wk_runners := [] \<rparr>" by (simp_all split: if_splits)
  with assms(3) StopTake show ?thesis by (simp add: stopInv_def flowInv_def rangeInv_def stopView_def)
next
  case (StopRunners rs)
  with assms(1) have "pc' = StopRange []" "w1 = stopRunners rs w" by (simp_all split: if_splits)
  with assms(3) StopRunners show ?thesis by (simp add: stopInv_def flowInv_def rangeInv_def stopView_def stopRunners_def)
qed (use assms in simp)

lemma pcs_PollProcess: "wk_run w = PollProcess j js \<Longrightarrow> pcs ((processJob t j w) \<lparr> wk_run := PollJobs js \<rparr>) = pcs w"
  by (simp add: pcs_def nestedCall_def processJob_frame)

lemma processJob_ending: "ending w \<Longrightarrow> processJob t j w = w"
  by (auto simp: processJob_def ending_def)

lemma stopInv_act:
  assumes "act cfg a w = Some w'" "idleOK w" "jobsOK (jobsView w)" and inv: "stopInv (stopView w) (wk_jobs w) (pcs w)"
  shows "stopInv (stopView w') (wk_jobs w') (pcs w')"
  using act_cases [OF assms(1,2)]
proof (elim disjE exE)
  assume q: "quiet w w'"
  then have v: "snd (stopView w') = snd (stopView w)" and js: "wk_jobs w' = wk_jobs w"
    and st: "wk_state w' = wk_state w \<or> \<not> ending w \<and> \<not> ending w'"
    by (auto simp: quiet_def jobsView_def)
  have "stopInv (stopView w') (wk_jobs w) (pcs w)"
  proof (cases "wk_state w' = wk_state w")
    case True
    with v have "stopView w' = stopView w" by (simp add: stopView_def)
    with inv show ?thesis by simp
  next
    case False
    with st have "\<not> ending w" "\<not> ending w'" by auto
    with inv v show ?thesis
      by (auto simp: stopView_def ending_def intro: stopInv_state)
  qed
  with q js show ?thesis by (auto simp: quiet_def intro: stopInv_call)
next
  assume "callMove w w'"
  then obtain ch pc pc' w1 where c: "pc \<in># pcs w" "callStep ch pc w = Some (pc', w1)" "jobsView w' = jobsView w1"
    "stopView w' = stopView w1" "pcs w' = pcs w - {#pc#} + {#pc'#} \<or> pc' = CallDone \<and> pcs w' = pcs w - {#pc#}"
    by (auto simp: callMove_def)
  have "stopInv (stopView w) (wk_jobs w) (add_mset pc (pcs w - {#pc#}))" using inv c(1) by simp
  from stopInv_callStep [OF c(2) assms(3) this] c(3-5) show ?thesis
    by (auto simp: jobsView_def stopInv_CallDone)
next
  assume "jobStarts w w'"
  then obtain t j js where r: "wk_run w = PollProcess j js" "w' = (processJob t j w) \<lparr> wk_run := PollJobs js \<rparr>"
    by (auto simp: jobStarts_def)
  have p: "pcs w' = pcs w" and v: "stopView w' = stopView w"
    using r pcs_PollProcess by (simp_all add: stopView_def processJob_frame)
  show ?thesis
  proof (cases "ending w")
    case True
    then show ?thesis using inv p v r(2) by (simp add: processJob_ending)
  next
    case False
    with inv p v show ?thesis
      by (auto simp: stopView_def ending_def intro: stopInv_state)
  qed
next
  fix ch i assume s: "jobStep ch i w = Some w'"
  then show ?thesis using stopInv_jobs [OF inv jobStep_live [OF s]] jobStep_frame [OF s] by simp
qed

text \<open>The invariant of the worker.\<close>

definition workerInv :: "worker \<Rightarrow> bool" where
  "workerInv w \<longleftrightarrow> idleOK w \<and> jobsOK (jobsView w) \<and> stopInv (stopView w) (wk_jobs w) (pcs w)"

interpretation worker: step_invariant "act cfg" workerInv for cfg
  by unfold_locales (metis workerInv_def jobs.keeps stopInv_act)

lemma reachable_workerInv: "reachable cfg w \<Longrightarrow> workerInv w"
proof (rule worker.reached_keep)
  show "workerInv newWorkerState"
    using fresh_jobs
    by (simp add: workerInv_def stopInv_def flowInv_def rangeInv_def stopView_def newWorkerState_def pcs_def nestedCall_def)
qed

lemma reachable_inv:
  assumes "reachable cfg w"
  shows "idleOK w" "jobsOK (jobsView w)" "stopInv (stopView w) (wk_jobs w) (pcs w)"
  using reachable_workerInv [OF assms] by (simp_all add: workerInv_def)

lemma map_jobs_update: "jg_job g = jg_job (js ! i) \<Longrightarrow> map jg_job (js[i := g]) = map jg_job js"
  by (cases "i < length js") (simp_all add: map_update list_update_same_conv list_update_beyond)

text \<open>A worker that is ending stays so and starts no job.\<close>

lemma callStep_ending:
  assumes "callStep ch pc w = Some (pc', w1)" "ending w"
  shows "ending w1 \<and> (wk_state w = stateStopped \<longrightarrow> wk_state w1 = stateStopped) \<and> map jg_job (wk_jobs w1) = map jg_job (wk_jobs w)"
proof (cases pc)
  case DrainLock
  with assms show ?thesis by (auto simp: ending_def storeStateUnlessDraining_def split: if_splits)
next
  case (StopRange ks)
  with assms show ?thesis
    by (auto simp: ending_def cancelJob_def map_jobs_update split: if_splits call_choice.splits option.splits)
qed (use assms in \<open>auto simp: ending_def cancelRunContext_def stopRunners_def split: if_splits call_choice.splits once.splits\<close>)

lemma jobStep_jobs: "jobStep ch i w = Some w' \<Longrightarrow> map jg_job (wk_jobs w') = map jg_job (wk_jobs w)"
  by (auto simp: jobStep_def setJobPhase_def cancelJob_def map_jobs_update Let_def split: if_splits job_phase.splits job_choice.splits)

lemma act_ending:
  assumes "act cfg a w = Some w'" "idleOK w" "ending w"
  shows "ending w' \<and> (wk_state w = stateStopped \<longrightarrow> wk_state w' = stateStopped) \<and> map jg_job (wk_jobs w') = map jg_job (wk_jobs w)"
  using act_cases [OF assms(1,2)]
proof (elim disjE exE)
  assume "quiet w w'"
  with assms(3) show ?thesis by (auto simp: quiet_def jobsView_def ending_def)
next
  assume "callMove w w'"
  then obtain ch pc pc' w1 where c: "callStep ch pc w = Some (pc', w1)" "jobsView w' = jobsView w1" "stopView w' = stopView w1"
    by (auto simp: callMove_def)
  with callStep_ending [OF c(1) assms(3)] show ?thesis by (auto simp: view_defs)
next
  assume "jobStarts w w'"
  with assms(3) show ?thesis by (auto simp: jobStarts_def processJob_ending ending_def)
next
  fix ch i assume "jobStep ch i w = Some w'"
  with assms(3) jobStep_frame(1) jobStep_jobs show ?thesis by (fastforce simp: view_defs)
qed

interpretation ending: step_invariant "act cfg" "\<lambda>w. idleOK w \<and> ending w \<and>
    (st = stateStopped \<longrightarrow> wk_state w = stateStopped) \<and> map jg_job (wk_jobs w) = js" for cfg st js
  by unfold_locales (metis act_ending act_idle)

section \<open>Capacity\<close>

text \<open>How many jobs \<open>Run\<close> may still start before it asks again.\<close>

definition pollPending :: "run_pc \<Rightarrow> int" where
  "pollPending pc = (case pc of PollRequest n \<Rightarrow> n | PollJobs js \<Rightarrow> int (length js) | PollProcess j js \<Rightarrow> 1 + int (length js) | _ \<Rightarrow> 0)"

text \<open>The server answers a poll with no more jobs than the worker has free slots.\<close>

definition honest :: "action \<Rightarrow> worker \<Rightarrow> bool" where
  "honest a w = (case (a, wk_run w) of
     (RunStep (Polled (Inr (jobs, _))), PollRequest n) \<Rightarrow> int (length jobs) \<le> n | _ \<Rightarrow> True)"

fun honestRun :: "worker_config \<Rightarrow> action list \<Rightarrow> worker \<Rightarrow> bool" where
  "honestRun cfg [] w = True"
| "honestRun cfg (a # as) w =
     (honest a w \<and> (case act cfg a w of None \<Rightarrow> True | Some w1 \<Rightarrow> honestRun cfg as w1))"

definition capInv :: "worker_config \<Rightarrow> worker \<Rightarrow> bool" where
  "capInv cfg w \<longleftrightarrow> wk_jobCount w + pollPending (wk_run w) \<le> max 0 (wc_MaxConcurrentJobs cfg) \<and> 0 \<le> pollPending (wk_run w)"

lemma capInv_pollStep:
  assumes "pollStep cfg ch (wk_run w) w = Some w'" "honest (RunStep ch) w" "capInv cfg w"
  shows "capInv cfg w'"
  using assms
  by (cases "wk_run w"; cases ch)
     (auto simp: pollStep_def runAt_def honest_def capInv_def pollPending_def lostRegistration_def processJob_def Let_def
       split: option.splits if_splits sum.splits list.splits)

lemma capInv_quietRun:
  assumes "wk_jobCount w' \<le> wk_jobCount w" "pollPending (wk_run w') = 0 \<or> wk_run w' = wk_run w" "capInv cfg w"
  shows "capInv cfg w'"
  using assms by (auto simp: capInv_def)

lemma connectStep_pending: "connectStep cfg ch pc w = Some w' \<Longrightarrow> pollPending (wk_run w') = 0"
  by (cases pc; cases ch) (auto simp: connectStep_def runAt_def pollPending_def split: option.splits if_splits)

lemma failStep_pending: "failStep ch pc w = Some w' \<Longrightarrow> pollPending (wk_run w') = 0"
  by (cases pc; cases ch) (auto simp: failStep_def runAt_def pollPending_def split: option.splits if_splits)

lemma loopStep_pending: "loopStep ch pc w = Some w' \<Longrightarrow> pollPending (wk_run w') = 0"
  by (cases pc; cases ch)
     (auto simp: loopStep_def runCtxDone_def runAt_def pollPending_def split: option.splits if_splits worker_state.splits)

lemma callMove_jobCount: "callMove w w' \<Longrightarrow> wk_jobCount w' = wk_jobCount w"
  using callStep_frame(4) by (fastforce simp: callMove_def jobsView_def)

lemma loopStep_jobCount: "loopStep ch (wk_run w) w = Some w' \<Longrightarrow> wk_jobCount w' = wk_jobCount w"
  using quiet_loop [of ch w w'] callMove_jobCount [of w w'] by (auto simp: quiet_def jobsView_def)

lemma capInv_runStep:
  assumes "runStep cfg ch w = Some w'" "honest (RunStep ch) w" "capInv cfg w"
  shows "capInv cfg w'"
proof -
  have "wk_jobCount w' = wk_jobCount w \<and> pollPending (wk_run w') = 0 \<or> pollStep cfg ch (wk_run w) w = Some w'"
    using assms(1) loopStep_jobCount loopStep_pending connectStep_pending failStep_pending
      quiet_connect quiet_fail
    by (fastforce simp: runStep_def quiet_def jobsView_def split: option.splits)
  then show ?thesis using capInv_pollStep [OF _ assms(2,3)] capInv_quietRun [OF _ _ assms(3)] by auto
qed

lemma jobStep_jobCount: "jobStep ch i w = Some w' \<Longrightarrow> wk_jobCount w' \<le> wk_jobCount w"
  by (auto simp: jobStep_def setJobPhase_def cancelJob_def Let_def split: if_splits job_phase.splits job_choice.splits)

lemma capInv_act:
  assumes "act cfg a w = Some w'" "honest a w" "capInv cfg w"
  shows "capInv cfg w'"
proof (cases a)
  case (RunStep ch)
  with assms capInv_runStep show ?thesis by simp
next
  case (JobStep i ch)
  with assms(1) have "jobStep ch i w = Some w'" by simp
  then show ?thesis using jobStep_frame(3) jobStep_jobCount capInv_quietRun [OF _ _ assms(3)] by simp
next
  case (CallStep i ch)
  with assms(1) callStep_frame(2,4) have "wk_jobCount w' = wk_jobCount w" "wk_run w' = wk_run w"
    by (fastforce split: if_splits option.splits)+
  with capInv_quietRun [OF _ _ assms(3)] show ?thesis by simp
next
  case (BeatStep i ch)
  with assms(1) have "wk_jobCount w' = wk_jobCount w" "wk_run w' = wk_run w"
    by (auto simp: beatStep_def setBeat_def lostRegistration_def split: if_splits beat_phase.splits beat_choice.splits option.splits)
  with capInv_quietRun [OF _ _ assms(3)] show ?thesis by simp
next
  case StartRun
  with assms(1) have "wk_jobCount w' \<le> wk_jobCount w" "pollPending (wk_run w') = 0 \<or> wk_run w' = wk_run w"
    by (cases "wk_state w = stateIdle"; force simp: pollPending_def)+
  with capInv_quietRun [OF _ _ assms(3)] show ?thesis by blast
next
  case (CtxEnds e)
  with assms show ?thesis by (cases "wk_runErr w = None") (auto simp: capInv_def)
qed (use assms in \<open>auto simp: capInv_def\<close>)

lemma honestRun_capInv:
  "honestRun cfg as w \<Longrightarrow> runWorker cfg as w = Some w' \<Longrightarrow> capInv cfg w \<Longrightarrow> capInv cfg w'"
  by (induction as arbitrary: w) (auto split: option.splits dest: capInv_act)

section \<open>Progress\<close>

lemma callStep_enabled:
  assumes "pc \<noteq> CallDone" "wk_once w = OnceRunning \<longrightarrow> pc \<noteq> StopOnce"
  shows "\<exists>ch. ch \<noteq> DrainTick \<and> callStep ch pc w \<noteq> None"
proof (cases pc)
  case DrainLoop
  then show ?thesis by (intro exI [of _ Deadline]) simp
next
  case (StopRange ks)
  show ?thesis
  proof (cases "list_all (\<lambda>(k, _). k \<in> set ks) (wk_active w)")
    case True
    with StopRange show ?thesis by (intro exI [of _ Proceed]) simp
  next
    case False
    then obtain k i where k: "(k, i) \<in> set (wk_active w)" "k \<notin> set ks" by (auto simp: list_all_iff)
    then have "map_of (wk_active w) k \<noteq> None" unfolding map_of_eq_None_iff by (metis fst_conv imageI)
    with StopRange k(2) show ?thesis by (intro exI [of _ "Visit k"]) auto
  qed
qed (use assms in \<open>auto intro!: exI [of _ Proceed] split: once.splits\<close>)

text \<open>A step of a call in progress, other than the tick of a waiting drain.\<close>

definition callAction :: "action \<Rightarrow> bool" where
  "callAction a = (case a of CallStep _ ch \<Rightarrow> ch \<noteq> DrainTick | RunStep (InCall ch) \<Rightarrow> ch \<noteq> DrainTick | _ \<Rightarrow> False)"

lemma pcs_action:
  assumes "pc \<in># pcs w" "callStep ch pc w \<noteq> None" "ch \<noteq> DrainTick"
  shows "\<exists>a. callAction a \<and> act cfg a w \<noteq> None"
proof (cases "pc \<in> set (wk_calls w)")
  case True
  then obtain i where "i < length (wk_calls w)" "wk_calls w ! i = pc" by (auto simp: in_set_conv_nth)
  with assms(2,3) show ?thesis by (intro exI [of _ "CallStep i ch"]) (auto simp: callAction_def)
next
  case False
  with assms(1) obtain ret where "wk_run w = RunCall pc ret" by (auto simp: pcs_def nestedCall_def split: run_pc.splits)
  with assms(2,3) show ?thesis
    by (intro exI [of _ "RunStep (InCall ch)"])
       (auto simp: callAction_def runStep_def loopStep_def runAt_def connectStep_def pollStep_def failStep_def split: option.splits)
qed

lemma flowInv_once: "flowInv v P \<Longrightarrow> fst (snd v) = OnceRunning \<Longrightarrow> \<exists>pc \<in># P. inOnce pc"
proof (rule ccontr)
  assume f: "flowInv v P" "fst (snd v) = OnceRunning" "\<not> (\<exists>pc \<in># P. inOnce pc)"
  then have "filter_mset inOnce P = {#}" by auto
  with f(1,2) show False by (cases v) (simp add: flowInv_def)
qed

lemma flowInv_done: "flowInv v P \<Longrightarrow> fst (snd v) = OnceDone \<Longrightarrow> pc \<in># P \<Longrightarrow> \<not> inOnce pc"
  by (cases v) (auto simp: flowInv_def)

section \<open>Run returns\<close>

fun callRank :: "call_pc \<Rightarrow> nat" where
  "callRank DrainLock = 7" | "callRank DrainCancel = 6" | "callRank DrainLoop = 5" | "callRank StopLock = 4"
| "callRank StopCancel = 3" | "callRank StopOnce = 2" | "callRank _ = 1"

fun runRank :: "run_pc \<Rightarrow> nat" where
  "runRank (Returned _) = 0" | "runRank (RunExit _) = 1" | "runRank AwaitStop = 2" | "runRank RunCtxDone = 3"
| "runRank RunTop = 4" | "runRank ReconnectWait = 5" | "runRank (RunCall pc _) = 2 + callRank pc"
| "runRank (FailKind _) = 10" | "runRank (FailCtx _) = 11" | "runRank (FailDraining _) = 12" | "runRank (FailStopped _) = 13"
| "runRank PollTop = 14" | "runRank (PollPause _) = 15" | "runRank (PollJobs _) = 15" | "runRank (PollErr _) = 16"
| "runRank (PollProcess _ _) = 16" | "runRank (PollRequest _) = 17" | "runRank PollFree = 18" | "runRank PollDraining = 19"
| "runRank PollState = 20" | "runRank ConnHeartbeat = 15" | "runRank ConnStartRunners = 16"
| "runRank (ConnStopRunners _) = 17" | "runRank ConnTake = 18" | "runRank ConnLoad = 19" | "runRank ConnStore = 20"
| "runRank ConnRegWorker = 21" | "runRank ConnRegFns = 22" | "runRank ConnStart = 23" | "runRank RunStateCheck = 24"
| "runRank RunSetCancel = 5" | "runRank NotRun = 0"

definition halted :: "worker \<Rightarrow> bool" where
  "halted w \<longleftrightarrow> wk_state w = stateStopped \<and> wk_once w = OnceDone \<and> wk_stopClosed w \<and>
     (\<forall>pc ret. wk_run w = RunCall pc ret \<longrightarrow> \<not> inOnce pc)"

lemma runRank_connect: "connectStep cfg ch (wk_run w) w = Some w' \<Longrightarrow> halted w \<Longrightarrow> runRank (wk_run w') < runRank (wk_run w)"
  by (cases "wk_run w"; cases ch) (auto simp: connectStep_def runAt_def halted_def split: option.splits if_splits)

lemma runRank_fail: "failStep ch (wk_run w) w = Some w' \<Longrightarrow> halted w \<Longrightarrow> runRank (wk_run w') < runRank (wk_run w)"
  by (cases "wk_run w"; cases ch) (auto simp: failStep_def runAt_def halted_def split: option.splits if_splits)

lemma runRank_poll: "pollStep cfg ch (wk_run w) w = Some w' \<Longrightarrow> halted w \<Longrightarrow> runRank (wk_run w') < runRank (wk_run w)"
  by (cases "wk_run w"; cases ch)
     (auto simp: pollStep_def runAt_def halted_def Let_def split: option.splits if_splits sum.splits list.splits)

lemma callRank_step:
  "callStep ch pc w = Some (pc', w') \<Longrightarrow> ch \<noteq> DrainTick \<Longrightarrow> \<not> inOnce pc \<Longrightarrow> wk_once w = OnceDone \<Longrightarrow> wk_state w = stateStopped \<Longrightarrow>
   callRank pc' < callRank pc"
  by (cases pc) (auto split: if_splits call_choice.splits)

lemma runRank_loop:
  assumes "loopStep ch (wk_run w) w = Some w'" "halted w" "ch \<noteq> InCall DrainTick"
  shows "runRank (wk_run w') < runRank (wk_run w)"
proof (cases "\<exists>cp ret c. wk_run w = RunCall cp ret \<and> ch = InCall c")
  case True
  then obtain cp ret c where r: "wk_run w = RunCall cp ret" "ch = InCall c" by blast
  with assms(1) obtain cp' w1 where c: "callStep c cp w = Some (cp', w1)"
    "w' = w1 \<lparr> wk_run := (if cp' = CallDone then RunExit ret else RunCall cp' ret) \<rparr>"
    by (auto simp: loopStep_def runAt_def split: option.splits)
  with callRank_step [OF c(1)] assms(2,3) r show ?thesis by (auto simp: halted_def)
next
  case False
  with assms show ?thesis
    by (cases "wk_run w"; cases ch)
       (auto simp: loopStep_def runCtxDone_def runAt_def halted_def split: option.splits if_splits worker_state.splits)
qed

lemma runRank_step:
  assumes "runStep cfg ch w = Some w'" "halted w" "ch \<noteq> InCall DrainTick"
  shows "runRank (wk_run w') < runRank (wk_run w)"
  using assms runRank_loop [of ch w w'] runRank_connect [of cfg ch w w'] runRank_poll [of cfg ch w w'] runRank_fail [of ch w w']
  by (auto simp: runStep_def split: option.splits)

lemma callStep_tick: "callStep DrainTick pc w = Some (pc', w') \<Longrightarrow> pc = DrainLoop \<and> pc' = DrainLoop \<and> w' = w"
  by (cases pc) (auto split: if_splits)

lemma runRank_tick: "runStep cfg (InCall DrainTick) w = Some w' \<Longrightarrow> wk_run w' = wk_run w"
  by (cases "wk_run w")
     (auto simp: runStep_def loopStep_def connectStep_def pollStep_def failStep_def runAt_def
       split: option.splits dest!: callStep_tick)

lemma halted_iff:
  assumes "workerInv w"
  shows "halted w \<longleftrightarrow> wk_once w = OnceDone"
proof
  assume d: "wk_once w = OnceDone"
  have f: "flowInv (stopView w) (pcs w)" using assms by (simp add: workerInv_def stopInv_def)
  from f d have "wk_state w = stateStopped" "wk_stopClosed w" by (auto simp: flowInv_def stopView_def)
  moreover have "\<not> inOnce pc" if "wk_run w = RunCall pc ret" for pc ret
    using flowInv_done [OF f] d that by (simp add: stopView_def pcs_def)
  ultimately show "halted w" using d by (simp add: halted_def)
qed (simp add: halted_def)

lemma callStep_once: "callStep ch pc w = Some (pc', w1) \<Longrightarrow> wk_once w = OnceDone \<Longrightarrow> wk_once w1 = OnceDone"
  by (cases pc)
     (auto simp: cancelRunContext_def cancelJob_def stopRunners_def split: if_splits call_choice.splits once.splits option.splits)

lemma act_once:
  assumes "act cfg a w = Some w'" "idleOK w" "wk_once w = OnceDone"
  shows "wk_once w' = OnceDone"
  using act_cases [OF assms(1,2)]
proof (elim disjE exE)
  assume "quiet w w'"
  with assms(3) show ?thesis by (simp add: quiet_def stopView_def)
next
  assume "callMove w w'"
  with assms(3) callStep_once show ?thesis by (fastforce simp: callMove_def stopView_def)
next
  assume "jobStarts w w'"
  with assms(3) show ?thesis by (auto simp: jobStarts_def processJob_frame)
next
  fix ch i assume "jobStep ch i w = Some w'"
  with assms(3) jobStep_frame(1) [of ch i w w'] show ?thesis by (simp add: stopView_def)
qed

text \<open>A step of \<open>Run\<close> itself, other than the tick of a drain it waits in.\<close>

definition runAction :: "action \<Rightarrow> bool" where
  "runAction a = (case a of RunStep ch \<Rightarrow> ch \<noteq> InCall DrainTick | _ \<Rightarrow> False)"

lemma act_run:
  assumes "act cfg a w = Some w'" "\<not> runAction a" "wk_state w \<noteq> stateIdle"
  shows "wk_run w' = wk_run w"
proof (cases a)
  case (RunStep ch)
  with assms runRank_tick show ?thesis by (auto simp: runAction_def)
next
  case (JobStep i ch)
  with assms(1) jobStep_frame(3) show ?thesis by simp
next
  case (CallStep i ch)
  with assms(1) callStep_frame(2) show ?thesis by (fastforce split: if_splits option.splits)
next
  case (BeatStep i ch)
  with assms(1) show ?thesis
    by (auto simp: beatStep_def setBeat_def lostRegistration_def split: if_splits beat_phase.splits beat_choice.splits option.splits)
qed (use assms(1,3) in auto)

interpretation halting: step_rank "act cfg" "\<lambda>w. workerInv w \<and> wk_once w = OnceDone" runAction "\<lambda>w. runRank (wk_run w)" for cfg
proof
  fix a w w'
  assume s: "act cfg a w = Some w'" and i: "workerInv w \<and> wk_once w = OnceDone"
  then show "workerInv w' \<and> wk_once w' = OnceDone" using worker.keeps act_once by (metis workerInv_def)
next
  fix a w w'
  assume i: "workerInv w \<and> wk_once w = OnceDone" and s: "act cfg a w = Some w'" and m: "runAction a"
  from m obtain ch where "a = RunStep ch" "ch \<noteq> InCall DrainTick" by (auto simp: runAction_def split: action.splits)
  with s runRank_step halted_iff i show "runRank (wk_run w') < runRank (wk_run w)" by auto
next
  fix a w w'
  assume i: "workerInv w \<and> wk_once w = OnceDone" and s: "act cfg a w = Some w'" and m: "\<not> runAction a"
  have "wk_state w \<noteq> stateIdle" using halted_iff [of w] i by (simp add: halted_def)
  with act_run [OF s m] show "runRank (wk_run w') \<le> runRank (wk_run w)" by simp
qed

text \<open>Where a step of \<open>Run\<close> never leads; a nested call is left when it is done.\<close>

lemma runStep_target:
  assumes "runStep cfg ch w = Some w'"
  shows "wk_run w' \<noteq> RunCall CallDone ret" "wk_run w' \<noteq> NotRun"
proof -
  have "loopStep ch (wk_run w) w \<noteq> Some w'" if "wk_run w' = RunCall CallDone ret \<or> wk_run w' = NotRun"
    using that by (cases "wk_run w"; cases ch)
      (auto simp: loopStep_def runCtxDone_def runAt_def split: option.splits if_splits worker_state.splits)
  moreover have "connectStep cfg ch (wk_run w) w \<noteq> Some w'" if "wk_run w' = RunCall CallDone ret \<or> wk_run w' = NotRun"
    using that by (cases "wk_run w"; cases ch) (auto simp: connectStep_def runAt_def split: option.splits if_splits)
  moreover have "pollStep cfg ch (wk_run w) w \<noteq> Some w'" if "wk_run w' = RunCall CallDone ret \<or> wk_run w' = NotRun"
    using that by (cases "wk_run w"; cases ch)
      (auto simp: pollStep_def runAt_def Let_def split: option.splits if_splits sum.splits list.splits)
  moreover have "failStep ch (wk_run w) w \<noteq> Some w'" if "wk_run w' = RunCall CallDone ret \<or> wk_run w' = NotRun"
    using that by (cases "wk_run w"; cases ch) (auto simp: failStep_def runAt_def split: option.splits if_splits)
  ultimately show "wk_run w' \<noteq> RunCall CallDone ret" "wk_run w' \<noteq> NotRun" using assms by (auto simp: runStep_def split: option.splits)
qed

lemma act_nested:
  assumes "act cfg a w = Some w'" "wk_run w \<noteq> RunCall CallDone ret"
  shows "wk_run w' \<noteq> RunCall CallDone ret"
proof (cases "runAction a \<or> wk_state w = stateIdle")
  case True
  show ?thesis
  proof (cases a)
    case (RunStep ch)
    with assms runStep_target(1) show ?thesis by simp
  next
    case (JobStep i ch)
    with assms jobStep_frame(3) show ?thesis by simp
  next
    case (CallStep i ch)
    with assms callStep_frame(2) show ?thesis by (fastforce split: if_splits option.splits)
  next
    case (BeatStep i ch)
    with assms show ?thesis
      by (auto simp: beatStep_def setBeat_def lostRegistration_def split: if_splits beat_phase.splits beat_choice.splits option.splits)
  qed (use assms in \<open>auto split: if_splits\<close>)
next
  case False
  with act_run [OF assms(1)] assms(2) show ?thesis by simp
qed

interpretation nested: step_invariant "act cfg" "\<lambda>w. \<forall>ret. wk_run w \<noteq> RunCall CallDone ret" for cfg
  by unfold_locales (use act_nested in blast)

lemma reachable_nested: "reachable cfg w \<Longrightarrow> wk_run w \<noteq> RunCall CallDone ret"
  using nested.reached_keep [of cfg newWorkerState w] by (simp add: newWorkerState_def)

lemma run_enabled:
  assumes "reachable cfg w" "wk_once w = OnceDone" "wk_run w \<noteq> NotRun" "\<nexists>r. wk_run w = Returned r"
  shows "\<exists>a. runAction a \<and> act cfg a w \<noteq> None"
proof -
  have h: "wk_stopClosed w" using halted_iff [OF reachable_workerInv [OF assms(1)]] assms(2) by (simp add: halted_def)
  have "\<exists>ch. ch \<noteq> InCall DrainTick \<and> runStep cfg ch w \<noteq> None"
  proof (cases "wk_run w")
    case (RunCall pc ret)
    with reachable_nested [OF assms(1)] have "pc \<noteq> CallDone" by auto
    with callStep_enabled [of pc w] assms(2) obtain c where "c \<noteq> DrainTick" "callStep c pc w \<noteq> None" by auto
    with RunCall show ?thesis
      by (intro exI [of _ "InCall c"]) (auto simp: runStep_def loopStep_def runAt_def split: option.splits)
  next
    case RunTop
    with h show ?thesis by (intro exI [of _ OnStop]) (simp add: runStep_def loopStep_def runAt_def)
  next
    case AwaitStop
    with h show ?thesis by (intro exI [of _ OnStop]) (simp add: runStep_def loopStep_def runAt_def)
  next
    case PollTop
    with h show ?thesis by (intro exI [of _ OnStop]) (simp add: runStep_def loopStep_def connectStep_def pollStep_def runAt_def)
  next
    case (PollPause again)
    with h show ?thesis by (intro exI [of _ OnStop]) (simp add: runStep_def loopStep_def connectStep_def pollStep_def runAt_def)
  next
    case (PollRequest n)
    then show ?thesis
      by (intro exI [of _ "Polled (Inr ([], False))"]) (simp add: runStep_def loopStep_def connectStep_def pollStep_def runAt_def)
  next
    case (PollProcess j js)
    then show ?thesis by (intro exI [of _ "Now 0"]) (simp add: runStep_def loopStep_def connectStep_def pollStep_def runAt_def)
  next
    case ConnRegFns
    then show ?thesis by (intro exI [of _ "Reply None"]) (simp add: runStep_def loopStep_def connectStep_def runAt_def)
  next
    case ConnRegWorker
    then show ?thesis by (intro exI [of _ "Reply None"]) (simp add: runStep_def loopStep_def connectStep_def runAt_def)
  next
    case ConnStartRunners
    then show ?thesis by (intro exI [of _ "Started []"]) (simp add: runStep_def loopStep_def connectStep_def runAt_def)
  next
    case ReconnectWait
    then show ?thesis
      by (intro exI [of _ OnTimer]) (simp add: runStep_def loopStep_def connectStep_def pollStep_def failStep_def runAt_def)
  qed (use assms(3,4) in \<open>auto intro!: exI [of _ Next] simp: runStep_def loopStep_def connectStep_def pollStep_def failStep_def
      runCtxDone_def runAt_def Let_def split: worker_state.splits list.splits option.splits\<close>)
  then obtain ch where "ch \<noteq> InCall DrainTick" "runStep cfg ch w \<noteq> None" by blast
  then show ?thesis by (intro exI [of _ "RunStep ch"]) (simp add: runAction_def)
qed

section \<open>A sample run\<close>

definition demoWorker :: worker_config where
  "demoWorker = \<lparr> wc_ServerURL = ''http://localhost:9123'', wc_Functions = [], wc_Projections = 1, wc_MaxConcurrentJobs = 2,
     wc_Labels = Map.empty, wc_HeartbeatInterval = 30 * second, wc_ReconnectDelay = 5 * second, wc_PollWait = 20 * second,
     wc_APIKey = [], wc_Environment = [], wc_DrainTimeout = 0 \<rparr>"

text \<open>Connecting, up to the check that the worker is still connected; and polling until a job runs.\<close>

definition connectActs :: "action list" where
  "connectActs = [StartRun, RunStep Next, RunStep OnDefault, RunStep Next, RunStep Next, RunStep (Reply None),
     RunStep (Reply None), RunStep Next, RunStep Next]"

definition pollActs :: "action list" where
  "pollActs = [RunStep Next, RunStep Next, RunStep (Started [True]), RunStep Next, RunStep OnDefault, RunStep Next,
     RunStep Next, RunStep Next, RunStep (Polled (Inr ([demoJob], False))), RunStep Next, RunStep (Now 0)]"

definition stopActs :: "action list" where
  "stopActs = CallStop # replicate 7 (CallStep 0 Proceed)"

definition stopJobActs :: "action list" where
  "stopJobActs = CallStop # replicate 6 (CallStep 0 Proceed) @ [CallStep 0 (Visit (jobKey demoJob)), CallStep 0 Proceed]"

lemmas demo_defs = demoWorker_def connectActs_def pollActs_def stopActs_def stopJobActs_def newWorkerState_def
lemmas step_defs = runStep_def loopStep_def connectStep_def pollStep_def failStep_def runCtxDone_def runAt_def
  startProjectionRunners_def stopRunners_def startHeartbeat_def cancelRunContext_def processJob_def cancelJob_def
  storeStateUnlessDraining_def lostRegistration_def

definition demoRunning :: worker where
  "demoRunning = the (runWorker demoWorker (connectActs @ pollActs) newWorkerState)"

definition demoStopped :: worker where
  "demoStopped = the (runWorker demoWorker (connectActs @ pollActs @ stopJobActs) newWorkerState)"

lemma demo_running: "runWorker demoWorker (connectActs @ pollActs) newWorkerState = Some demoRunning"
  by (simp add: demoRunning_def demo_defs step_defs Let_def)

lemma demo_stopped:
  "runWorker demoWorker (connectActs @ pollActs @ stopJobActs) newWorkerState = Some demoStopped"
  "wk_once demoStopped = OnceDone" "wk_run demoStopped = PollJobs []" "map jg_job (wk_jobs demoStopped) = [demoJob]"
  by (simp_all add: demoStopped_def demo_defs step_defs Let_def numeral_eq_Suc)

lemma demo_finishes: "\<exists>w'. runWorker demoWorker [CallDrain, JobStep 0 Finished] demoStopped = Some w'"
  by (simp add: demoStopped_def demo_defs step_defs jobStep_def setJobPhase_def demoJob_def Let_def numeral_eq_Suc)

text \<open>The job ends, and a drain begins to wait.\<close>

definition drainActs :: "action list" where
  "drainActs = [JobStep 0 Finished, JobStep 0 Deferred, JobStep 0 Deferred, CallDrain, CallStep 0 Proceed, CallStep 0 Proceed]"

definition demoDrained :: worker where
  "demoDrained = the (runWorker demoWorker (connectActs @ pollActs @ drainActs) newWorkerState)"

lemma demo_drained:
  "runWorker demoWorker (connectActs @ pollActs @ drainActs) newWorkerState = Some demoDrained"
  "wk_jobCount demoDrained = 0" "map jg_job (wk_jobs demoDrained) = [demoJob]"
  by (simp_all add: demoDrained_def drainActs_def demo_defs step_defs jobStep_def setJobPhase_def demoJob_def Let_def)

definition leakActs :: "action list" where
  "leakActs = connectActs @ stopActs @
     [RunStep Next, RunStep Next, RunStep (Started [True]), RunStep Next, RunStep OnStop, RunStep OnStop, RunStep Next]"

lemma demo_leak:
  "\<exists>w. runWorker demoWorker leakActs newWorkerState = Some w \<and> wk_run w = Returned None \<and> wk_calls w = [CallDone] \<and> wk_live w = [0]"
  by (simp add: leakActs_def demo_defs step_defs Let_def numeral_eq_Suc)

lemma demo_reachable: "runWorker cfg as newWorkerState = Some w \<Longrightarrow> reachable cfg w"
  using runSteps_reaches reaches.here by fastforce

interpretation started: step_invariant "act cfg" "\<lambda>w. idleOK w \<and> wk_run w \<noteq> NotRun" for cfg
proof
  fix a w w'
  assume s: "act cfg a w = Some w'" and i: "idleOK w \<and> wk_run w \<noteq> NotRun"
  then have "wk_state w \<noteq> stateIdle" by (auto simp: idleOK_def)
  with act_run [OF s] runStep_target(2) s i have "wk_run w' \<noteq> NotRun"
    by (cases a; cases "runAction a") (auto simp: runAction_def)
  with act_idle [OF s] i show "idleOK w' \<and> wk_run w' \<noteq> NotRun" by blast
qed

lemma callRank_le: "callRank pc \<le> 7"
  by (cases pc) auto

lemma runRank_le: "runRank pc \<le> 24"
  using callRank_le by (cases pc) (auto intro: le_trans [OF callRank_le])

section \<open>Properties\<close>

text \<open>C19. Once a drain or a stop has set the state, the worker stays so, a stopped worker stays stopped, and no job
  is started any more, whatever the goroutines do.\<close>

theorem draining_starts_no_job:
  assumes "reachable cfg w" and "wk_state w = stateDraining \<or> wk_state w = stateStopped"
    and "runWorker cfg as w = Some w'"
  shows "(wk_state w' = stateDraining \<or> wk_state w' = stateStopped) \<and>
    (wk_state w = stateStopped \<longrightarrow> wk_state w' = stateStopped) \<and>
    map jg_job (wk_jobs w') = map jg_job (wk_jobs w)"
  using ending.runs_keep [OF assms(3), of "wk_state w" "map jg_job (wk_jobs w)"] reachable_inv(1) [OF assms(1)] assms(2)
  by (simp add: ending_def)

theorem draining_starts_no_job_witness:
  "\<exists>w'. runWorker demoWorker [CallDrain, JobStep 0 Finished] demoStopped = Some w' \<and> map jg_job (wk_jobs w') = [demoJob]"
proof -
  note r = demo_reachable [OF demo_stopped(1)]
  obtain w' where w': "runWorker demoWorker [CallDrain, JobStep 0 Finished] demoStopped = Some w'" using demo_finishes ..
  have "wk_state demoStopped = stateStopped" using halted_iff [OF reachable_workerInv [OF r]] demo_stopped(2) by (simp add: halted_def)
  with draining_starts_no_job [OF r _ w'] demo_stopped(4) w' show ?thesis by simp
qed

text \<open>C20. When a call of \<open>Stop\<close> has run to its end, the worker is stopped, the stop channel is closed, and every
  job that is still acknowledged or executed has a cancelled context.\<close>

theorem stop_cancels_every_job:
  assumes "reachable cfg w" and "wk_once w = OnceDone"
  shows "wk_state w = stateStopped \<and> wk_stopClosed w \<and>
    list_all (\<lambda>g. jg_cancelled g \<or> jg_phase g \<notin> {Acking, Executing}) (wk_jobs w)"
proof -
  have "halted w" using halted_iff [OF reachable_workerInv [OF assms(1)]] assms(2) by simp
  moreover have "\<forall>g \<in> set (wk_jobs w). \<not> liveJob g"
    using reachable_inv(3) [OF assms(1)] assms(2) by (simp add: stopInv_def rangeInv_def stopView_def)
  ultimately show ?thesis by (auto simp: halted_def list_all_iff liveJob_def)
qed

theorem stop_cancels_every_job_witness:
  "list_all (\<lambda>g. jg_cancelled g \<or> jg_phase g \<notin> {Acking, Executing}) (wk_jobs demoStopped) \<and>
     map jg_job (wk_jobs demoStopped) = [demoJob]"
  using stop_cancels_every_job [OF demo_reachable [OF demo_stopped(1)] demo_stopped(2)] demo_stopped(4) by simp

text \<open>A worker never executes more jobs at a time than \<open>MaxConcurrentJobs\<close>, if the server never hands out
  more than the free slots a poll asked for. The job count it compares with is the number of goroutines
  that have not counted themselves out.\<close>

theorem capacity_respected:
  assumes "honestRun cfg as newWorkerState" and "runWorker cfg as newWorkerState = Some w"
  shows "int (length (filter (\<lambda>g. jg_phase g \<in> {Acking, Executing}) (wk_jobs w))) \<le> wk_jobCount w \<and>
    wk_jobCount w \<le> max 0 (wc_MaxConcurrentJobs cfg)"
proof -
  have "capInv cfg newWorkerState" by (simp add: capInv_def newWorkerState_def pollPending_def)
  with honestRun_capInv [OF assms] have "wk_jobCount w \<le> max 0 (wc_MaxConcurrentJobs cfg)" by (simp add: capInv_def)
  moreover have "wk_jobCount w = int (length (filter (\<lambda>g. counted (jg_phase g)) (wk_jobs w)))"
    using reachable_inv(2) [OF demo_reachable [OF assms(2)]] by (simp add: jobsOK_def jobsView_def)
  moreover have "length (filter (\<lambda>g. jg_phase g \<in> {Acking, Executing}) js) \<le> length (filter (\<lambda>g. counted (jg_phase g)) js)" for js
    by (induction js) auto
  ultimately show ?thesis by simp
qed

theorem capacity_respected_witness: "wk_jobCount demoRunning \<le> 2"
proof -
  have "honestRun demoWorker (connectActs @ pollActs) newWorkerState"
    by (simp add: demo_defs step_defs honest_def Let_def)
  from capacity_respected [OF this demo_running] show ?thesis by (simp add: demoWorker_def)
qed

text \<open>C21. \<open>Run\<close> returns after \<open>Stop\<close>: from then on it takes at most 24 steps of its own, ticks of a drain it
  waits in apart, and until it has returned it can always take one.\<close>

theorem run_returns_after_stop:
  assumes "reachable cfg w" and "wk_once w = OnceDone" and "wk_run w \<noteq> NotRun" and "runWorker cfg as w = Some w'"
  shows "length (filter runAction as) \<le> 24 \<and>
    ((\<exists>r. wk_run w' = Returned r) \<or> (\<exists>a. runAction a \<and> act cfg a w' \<noteq> None))"
proof -
  note i = reachable_workerInv [OF assms(1)]
  have r: "reachable cfg w'" by (rule runSteps_reaches [OF assms(4,1)])
  have "wk_once w' = OnceDone" using halting.runs_keep [OF assms(4)] i assms(2) by simp
  moreover have "wk_run w' \<noteq> NotRun"
    using started.runs_keep [OF assms(4)] i assms(3) by (simp add: workerInv_def)
  moreover have "runRank (wk_run w) \<le> 24" by (rule runRank_le)
  ultimately show ?thesis using halting.moves_bounded [OF _ assms(4)] i assms(2) run_enabled [OF r] by force
qed

theorem run_returns_after_stop_witness:
  "\<exists>a. runAction a \<and> act demoWorker a demoStopped \<noteq> None"
  using run_returns_after_stop [OF demo_reachable [OF demo_stopped(1)] demo_stopped(2), of "[]" demoStopped]
  by (simp add: demo_stopped(3))

text \<open>Calls of \<open>Drain\<close> and \<open>Stop\<close> do not block each other: while one is in progress, one of them can go on.
  A worker that is draining, or stopped with its stop channel still open, has such a call, so \<open>Run\<close>
  never waits for a stop that nobody makes.\<close>

theorem drain_and_stop_go_on:
  assumes "reachable cfg w"
    and "(\<exists>pc \<in># pcs w. pc \<noteq> CallDone) \<or> wk_state w = stateDraining \<or> wk_state w = stateStopped \<and> \<not> wk_stopClosed w"
  shows "\<exists>a. callAction a \<and> act cfg a w \<noteq> None"
proof -
  have f: "flowInv (stopView w) (pcs w)" using reachable_inv(3) [OF assms(1)] by (simp add: stopInv_def)
  then have "wk_state w = stateDraining \<Longrightarrow> \<exists>pc \<in># pcs w. drainingPc pc"
    "wk_state w = stateStopped \<and> \<not> wk_stopClosed w \<Longrightarrow> \<exists>pc \<in># pcs w. stopping pc"
    by (simp_all add: flowInv_def stopView_def) blast
  moreover have "drainingPc pc \<Longrightarrow> pc \<noteq> CallDone" "stopping pc \<Longrightarrow> pc \<noteq> CallDone" for pc by auto
  ultimately have p: "\<exists>pc \<in># pcs w. pc \<noteq> CallDone" using assms(2) by metis
  have "\<exists>pc \<in># pcs w. pc \<noteq> CallDone \<and> (wk_once w = OnceRunning \<longrightarrow> pc \<noteq> StopOnce)"
  proof (cases "wk_once w = OnceRunning")
    case True
    with flowInv_once [OF f] obtain pc where "pc \<in># pcs w" "inOnce pc" by (auto simp: stopView_def)
    then show ?thesis by (intro bexI [of _ pc]) auto
  qed (use p in auto)
  then obtain pc where pc: "pc \<in># pcs w" "pc \<noteq> CallDone" "wk_once w = OnceRunning \<longrightarrow> pc \<noteq> StopOnce" by blast
  from callStep_enabled [OF pc(2,3)] pcs_action [OF pc(1)] show ?thesis by blast
qed

theorem drain_and_stop_go_on_witness:
  "\<exists>a. callAction a \<and> act demoWorker a (demoStopped \<lparr> wk_calls := wk_calls demoStopped @ [StopLock] \<rparr>) \<noteq> None"
proof (rule drain_and_stop_go_on)
  show "reachable demoWorker (demoStopped \<lparr> wk_calls := wk_calls demoStopped @ [StopLock] \<rparr>)"
    by (rule reaches.moved [OF demo_reachable [OF demo_stopped(1)], of CallStop]) simp
  show "(\<exists>pc \<in># pcs (demoStopped \<lparr> wk_calls := wk_calls demoStopped @ [StopLock] \<rparr>). pc \<noteq> CallDone) \<or>
      wk_state (demoStopped \<lparr> wk_calls := wk_calls demoStopped @ [StopLock] \<rparr>) = stateDraining \<or>
      wk_state (demoStopped \<lparr> wk_calls := wk_calls demoStopped @ [StopLock] \<rparr>) = stateStopped \<and>
      \<not> wk_stopClosed (demoStopped \<lparr> wk_calls := wk_calls demoStopped @ [StopLock] \<rparr>)"
    by (simp add: pcs_def)
qed

text \<open>A drain that leaves its wait because the count is down to zero leaves no job behind: none is
  acknowledged or executed, and the map of active jobs is empty.\<close>

theorem graceful_drain_has_no_jobs:
  assumes "reachable cfg w" and "callStep Proceed DrainLoop w = Some (pc, w1)"
  shows "pc = StopLock \<and> wk_active w1 = [] \<and> list_all (\<lambda>g. jg_phase g \<in> {Releasing, Gone}) (wk_jobs w1)"
proof -
  from assms(2) have z: "wk_jobCount w \<le> 0" "pc = StopLock" "w1 = w" by (auto split: if_splits)
  have ok: "jobsOK (jobsView w)" using reachable_inv(2) [OF assms(1)] .
  with z(1) have c: "\<forall>g \<in> set (wk_jobs w). \<not> counted (jg_phase g)" by (simp add: jobsOK_def jobsView_def filter_empty_conv)
  have "map_of (wk_active w) k = None" for k
  proof (cases "map_of (wk_active w) k")
    case (Some i)
    with ok have "i < length (wk_jobs w)" "inMap (jg_phase (wk_jobs w ! i))" by (cases k; auto simp: jobsOK_def jobsView_def)+
    with c show ?thesis by (auto simp: counted_def)
  qed
  then have "wk_active w = []" by (cases "wk_active w") (auto split: if_splits, metis option.distinct(1))
  moreover have "list_all (\<lambda>g. jg_phase g \<in> {Releasing, Gone}) (wk_jobs w)"
    using c by (auto simp: list_all_iff counted_def inMap_def) (metis job_phase.exhaust)
  ultimately show ?thesis using z by simp
qed

theorem graceful_drain_has_no_jobs_witness:
  "list_all (\<lambda>g. jg_phase g \<in> {Releasing, Gone}) (wk_jobs demoDrained) \<and> map jg_job (wk_jobs demoDrained) = [demoJob]"
  using graceful_drain_has_no_jobs [OF demo_reachable [OF demo_drained(1)], of StopLock demoDrained]
  by (simp add: demo_drained(2,3))

text \<open>\<open>Stop\<close> can leave a projection runner behind. When it runs between the last look \<open>connect\<close> takes at the
  state and the start of the runners, they are started after \<open>Stop\<close> has collected the runners to stop:
  \<open>Run\<close> returns nil, no call is in progress, and the runner goes on.\<close>

theorem stop_leaves_runner_behind:
  "\<exists>w. runWorker demoWorker leakActs newWorkerState = Some w \<and> wk_run w = Returned None \<and> wk_calls w = [CallDone] \<and> wk_live w = [0]"
  by (rule demo_leak)

end
