(* ===== verification/Projection_Batch.thy ===== *)
theory Projection_Batch
  imports Http_Client
begin

text \<open>
  Projections (\<^verbatim>\<open>src/ironflow/projection.go\<close>, \<^verbatim>\<open>projection_runner.go\<close>): the configuration, the events, and what
  the runner does with a batch of them. A batch is a program of requests to the server, so that
  runners can be interleaved request by request and any request may fail.
\<close>

section \<open>Configuration and events\<close>

text \<open>The state of a managed projection as the handler returns it: nil, an object, or a map with a value JSON
  cannot encode.\<close>

datatype pstate = StNil | StObj "(string \<times> json) list" | StBad string

record poll_event =
  pe_EntityID :: string
  pe_EntityType :: string
  pe_EntityVersion :: int
  pe_ID :: string
  pe_Name :: string
  pe_Data :: "(string \<times> json) list option"
  pe_DataValue :: gval
  pe_Seq :: int
  pe_Timestamp :: string
  pe_Source :: string
  pe_Metadata :: "(string \<times> json) list option"

record projection_event =
  pj_EntityID :: string
  pj_EntityType :: string
  pj_EntityVersion :: int
  pj_ID :: string
  pj_Name :: string
  pj_Data :: "(string \<times> json) list option"
  pj_DataValue :: gval
  pj_Seq :: int
  pj_Timestamp :: string
  pj_Source :: string
  pj_Metadata :: "(string \<times> json) list option"

record projection_context =
  px_ID :: string
  px_Name :: string
  px_Seq :: int
  px_Timestamp :: string
  px_Projection :: string
  px_Version :: int

text \<open>A handler of a managed projection is documented as a function of its arguments. \<open>InitialState\<close> is
  called anew each time.\<close>

record projection_config =
  pr_Name :: string
  pr_Events :: "string list"
  pr_Mode :: string
  pr_Handler :: "pstate \<Rightarrow> projection_event \<Rightarrow> projection_context \<Rightarrow> goerr + pstate"
  pr_InitialState :: "pstate option"
  pr_PartitionKey :: string
  pr_MaxRetries :: int
  pr_BatchSize :: int

text \<open>\<open>CreateProjection\<close>; \<open>Inl\<close> is the text of its panic.\<close>

definition CreateProjection :: "projection_config \<Rightarrow> string + projection_config" where
  "CreateProjection config =
     (if pr_Name config = [] then Inl ''invalid projection config: projection name is required''
      else if pr_Events config = [] then Inl ''invalid projection config: projection must subscribe to at least one event''
      else Inr (config \<lparr>
        pr_Mode := (if pr_Mode config = [] then (if pr_InitialState config \<noteq> None then ''managed'' else ''external'')
                    else pr_Mode config),
        pr_MaxRetries := (if pr_MaxRetries config = 0 then 3 else pr_MaxRetries config),
        pr_BatchSize := (if pr_BatchSize config = 0 then 100 else pr_BatchSize config) \<rparr>))"

text \<open>The body of \<open>register\<close>, and \<open>GetProjectionMetadata\<close>, which the runner does not send.\<close>

definition registerProjectionBody :: "projection_config \<Rightarrow> (string \<times> json) list" where
  "registerProjectionBody config =
     [(''name'', JStr (pr_Name config)), (''events'', JArr (map JStr (pr_Events config))),
      (''mode'', JStr (pr_Mode config)), (''version'', JNum ''1'')] @
     (if pr_PartitionKey config \<noteq> [] then [(''partitionKey'', JStr (pr_PartitionKey config))] else [])"

definition GetProjectionMetadata :: "projection_config \<Rightarrow> (string \<times> json) list" where
  "GetProjectionMetadata config =
     [(''name'', JStr (pr_Name config)), (''events'', JArr (map JStr (pr_Events config))),
      (''mode'', JStr (pr_Mode config)), (''max_retries'', JNum (itoaInt (pr_MaxRetries config))),
      (''batch_size'', JNum (itoaInt (pr_BatchSize config)))] @
     (if pr_PartitionKey config \<noteq> [] then [(''partition_key'', JStr (pr_PartitionKey config))] else [])"

definition batchSize :: "projection_config \<Rightarrow> int" where
  "batchSize config = (if pr_BatchSize config = 0 then 100 else pr_BatchSize config)"

definition globalKey :: string where
  "globalKey = ''__global__''"

definition partitionOf :: "poll_event \<Rightarrow> string" where
  "partitionOf evt =
     (case pe_Metadata evt of
        None \<Rightarrow> globalKey
      | Some m \<Rightarrow> (case objLookup m ''__partition'' of Some (JStr p) \<Rightarrow> if p \<noteq> [] then p else globalKey | _ \<Rightarrow> globalKey))"

definition toProjectionEvent :: "poll_event \<Rightarrow> projection_event" where
  "toProjectionEvent evt =
     (let (d, v) = (case pe_DataValue evt of GJson (JObj m) \<Rightarrow> (Some m, GNil) | value \<Rightarrow> (pe_Data evt, value)) in
      \<lparr> pj_EntityID = pe_EntityID evt, pj_EntityType = pe_EntityType evt, pj_EntityVersion = pe_EntityVersion evt,
        pj_ID = pe_ID evt, pj_Name = pe_Name evt, pj_Data = d, pj_DataValue = v, pj_Seq = pe_Seq evt,
        pj_Timestamp = pe_Timestamp evt, pj_Source = pe_Source evt, pj_Metadata = pe_Metadata evt \<rparr>)"

definition buildContext :: "projection_config \<Rightarrow> poll_event \<Rightarrow> projection_context" where
  "buildContext config evt =
     \<lparr> px_ID = pe_ID evt, px_Name = pe_Name evt, px_Seq = pe_Seq evt, px_Timestamp = pe_Timestamp evt,
       px_Projection = pr_Name config, px_Version = 1 \<rparr>"

text \<open>A frame of the event stream; \<open>fmt\<close> renders its time.\<close>

record 't stream_msg =
  sm_Heartbeat :: bool
  sm_EntityID :: string
  sm_EntityType :: string
  sm_EntityVersion :: int
  sm_ID :: string
  sm_Name :: string
  sm_Data :: "(string \<times> json) list option"
  sm_DataValue :: "gval option"
  sm_Seq :: int
  sm_Timestamp :: "'t option"
  sm_Source :: string
  sm_Metadata :: "(string \<times> json) list option"

definition toPollEvent :: "('t \<Rightarrow> string) \<Rightarrow> 't stream_msg \<Rightarrow> poll_event" where
  "toPollEvent fmt msg =
     \<lparr> pe_EntityID = sm_EntityID msg, pe_EntityType = sm_EntityType msg, pe_EntityVersion = sm_EntityVersion msg,
       pe_ID = sm_ID msg, pe_Name = sm_Name msg, pe_Data = sm_Data msg,
       pe_DataValue = (case sm_DataValue msg of None \<Rightarrow> GNil | Some v \<Rightarrow> v), pe_Seq = sm_Seq msg,
       pe_Timestamp = (case sm_Timestamp msg of None \<Rightarrow> [] | Some t \<Rightarrow> fmt t), pe_Source = sm_Source msg,
       pe_Metadata = sm_Metadata msg \<rparr>"

section \<open>Errors\<close>

text \<open>\<open>projectionStatusError\<close>: the Connect code of a JSON error body. \<open>codeOfName\<close> reads a code by its name.\<close>

definition codeOfName :: "string \<Rightarrow> connect_code option" where
  "codeOfName s = map_of (map (\<lambda>c. (connectCodeString c, c))
     [CodeCanceled, CodeUnknown, CodeInvalidArgument, CodeDeadlineExceeded, CodeNotFound, CodeAlreadyExists,
      CodePermissionDenied, CodeResourceExhausted, CodeFailedPrecondition, CodeAborted, CodeOutOfRange,
      CodeUnimplemented, CodeInternal, CodeUnavailable, CodeDataLoss, CodeUnauthenticated]) s"

definition wrap2 :: "sentinel \<Rightarrow> goerr \<Rightarrow> goerr" where
  "wrap2 s e = EWrap (sentinelString s @ '': '' @ errorText e) [ESentinel s, e]"

definition projectionStatusError :: "http_response \<Rightarrow> goerr" where
  "projectionStatusError resp =
     (let err = ENew (''HTTP '' @ itoaInt (rp_StatusCode resp) @ '': '' @ rp_Text resp);
          code0 = codeOfName (bodyString (rp_Body resp) ''code'');
          code = (if code0 = None \<and> rp_StatusCode resp = 404 then Some CodeUnimplemented else code0)
      in if code = Some CodeAborted then wrap2 ErrProjectionLeaseLost err
         else if code = Some CodeUnimplemented then wrap2 ErrProjectionUnimplemented err
         else if code = Some CodeInvalidArgument then wrap2 ErrProjectionInvalidArgument err
         else err)"

text \<open>The error of \<open>post\<close> for an answer; \<open>decode\<close> is the error of decoding the result.\<close>

definition postError :: "string \<Rightarrow> string \<Rightarrow> string \<Rightarrow> (raw \<Rightarrow> goerr option) \<Rightarrow> http_response \<Rightarrow> goerr option" where
  "postError env name method decode resp =
     (if rp_StatusCode resp \<noteq> 200 then
        (case authError env resp (''projection '' @ name @ '' '' @ method) of
           Some e \<Rightarrow> Some e
         | None \<Rightarrow> Some (projectionStatusError resp))
      else decode (rp_Body resp))"

definition streamError :: "time_readers \<Rightarrow> goerr option \<Rightarrow> goerr option" where
  "streamError tm err0 =
     (case err0 of
        None \<Rightarrow> None
      | Some err \<Rightarrow>
          (case asConnect err of
             Some (CodeUnimplemented, _, _) \<Rightarrow> Some (wrap2 ErrStreamingUnsupported err)
           | Some (CodeNotFound, _, _) \<Rightarrow> Some (wrap2 ErrStreamingUnsupported err)
           | Some (CodeAborted, _, _) \<Rightarrow> Some (wrap2 ErrProjectionLeaseLost err)
           | _ \<Rightarrow> connectError tm (Some err)))"

definition registerFatal :: "goerr option \<Rightarrow> bool" where
  "registerFatal err =
     (case err of
        None \<Rightarrow> False
      | Some e \<Rightarrow> errorsIs ErrUnauthorized e \<or> errorsIs ErrForbidden e \<or> errorsIs ErrProjectionInvalidArgument e)"

text \<open>The reconnect ladder, for \<open>failures\<close> at least 1.\<close>

definition reconnectDelay :: "int \<Rightarrow> int" where
  "reconnectDelay failures = min (2 * second * 2 ^ nat (min (failures - 1) 4)) (30 * second)"

section \<open>Batches as programs\<close>

text \<open>What \<open>GetProjection\<close> returns of a saved state: the object, or the raw value of one that is none and
  its text.\<close>

record saved_state =
  sv_State :: "(string \<times> json) list option"
  sv_StateValue :: raw
  sv_StateText :: string

record save_body =
  sb_partitionKey :: string
  sb_state :: "(string \<times> json) list option"
  sb_lastEventId :: string
  sb_lastEventSeq :: int
  sb_lastEventTime :: string

text \<open>\<open>PLost\<close> looks at the channel that \<open>Renew\<close> closes when the lease is lost, \<open>PWork\<close> at the context of the
  batch, \<open>PCall\<close> calls an external handler.\<close>

datatype 'a pprog =
    PRet 'a
  | PGet string "goerr + saved_state \<Rightarrow> 'a pprog"
  | PSave save_body "goerr option \<Rightarrow> 'a pprog"
  | PAck string int "goerr option \<Rightarrow> 'a pprog"
  | PLost "bool \<Rightarrow> 'a pprog"
  | PWork "goerr option \<Rightarrow> 'a pprog"
  | PCall projection_event projection_context "goerr option \<Rightarrow> 'a pprog"

definition nonObjectState :: "saved_state \<Rightarrow> goerr option" where
  "nonObjectState sv =
     (if sv_State sv \<noteq> None then None
      else case sv_StateValue sv of
        RawNone \<Rightarrow> None
      | Raw JNull \<Rightarrow> None
      | _ \<Rightarrow> Some (ENew (''saved state is not a JSON object: '' @ sv_StateText sv)))"

text \<open>A saved \<open>{}\<close> counts as no state.\<close>

definition savedValue :: "saved_state \<Rightarrow> pstate" where
  "savedValue sv = (case sv_State sv of Some (kv # kvs) \<Rightarrow> StObj (kv # kvs) | _ \<Rightarrow> StNil)"

text \<open>\<open>loadPartitionStates\<close>: the loads run concurrently, each reads once; a failed one does not stop the
  others.\<close>

fun loadPartitionStates ::
  "string list \<Rightarrow> (string \<Rightarrow> pstate) \<Rightarrow> goerr list \<Rightarrow> (goerr + (string \<Rightarrow> pstate) \<Rightarrow> 'a pprog) \<Rightarrow> 'a pprog" where
  "loadPartitionStates [] states errs k =
     k (if errs = [] then Inr states else Inl (EWrap (tl (concat (map (\<lambda>e. CHR 0x0A # errorText e) errs))) errs))"
| "loadPartitionStates (pk # pks) states errs k =
     (if pk = globalKey then loadPartitionStates pks states errs k
      else PGet pk (\<lambda>a.
        let fail = (\<lambda>e. EWrap (''load state for partition '' @ quoted pk @ '': '' @ errorText e) [e]) in
        case a of
          Inl e \<Rightarrow> loadPartitionStates pks states (errs @ [fail e]) k
        | Inr sv \<Rightarrow>
            (case nonObjectState sv of
               Some e \<Rightarrow> loadPartitionStates pks states (errs @ [fail e]) k
             | None \<Rightarrow> loadPartitionStates pks (states(pk := savedValue sv)) errs k)))"

text \<open>The runs of consecutive events of one partition.\<close>

definition addRun :: "(string \<times> poll_event list) list \<Rightarrow> poll_event \<Rightarrow> (string \<times> poll_event list) list" where
  "addRun runs evt =
     (let pk = partitionOf evt in
      if runs \<noteq> [] \<and> fst (last runs) = pk then butlast runs @ [(pk, snd (last runs) @ [evt])]
      else runs @ [(pk, [evt])])"

definition partitionRuns :: "poll_event list \<Rightarrow> (string \<times> poll_event list) list" where
  "partitionRuns events = foldl addRun [] events"

text \<open>\<open>cloneState\<close>: a document survives the round trip through JSON; nil becomes an empty map; a map that cannot
  be encoded is copied as it is.\<close>

definition cloneState :: "pstate \<Rightarrow> pstate" where
  "cloneState st = (case st of StNil \<Rightarrow> StObj [] | _ \<Rightarrow> st)"

definition startState :: "projection_config \<Rightarrow> pstate \<Rightarrow> pstate" where
  "startState config st =
     (let st1 = (if st = StNil then (case pr_InitialState config of Some s \<Rightarrow> s | None \<Rightarrow> StNil) else st)
      in if st1 = StNil then StObj [] else st1)"

fun reduceEvents :: "projection_config \<Rightarrow> pstate \<Rightarrow> poll_event list \<Rightarrow> goerr + pstate" where
  "reduceEvents config st [] = Inr st"
| "reduceEvents config st (evt # evts) =
     (case pr_Handler config (cloneState st) (toProjectionEvent evt) (buildContext config evt) of
        Inl e \<Rightarrow> Inl (EWrap (''handler error on event '' @ pe_ID evt @ '': '' @ errorText e) [e])
      | Inr st' \<Rightarrow> reduceEvents config st' evts)"

definition saveBody :: "string \<Rightarrow> (string \<times> json) list option \<Rightarrow> poll_event list \<Rightarrow> save_body" where
  "saveBody pk st evts =
     \<lparr> sb_partitionKey = pk, sb_state = st, sb_lastEventId = pe_ID (last evts), sb_lastEventSeq = pe_Seq (last evts),
       sb_lastEventTime = pe_Timestamp (last evts) \<rparr>"

text \<open>The loop over the runs: reduce, look at the lease, save.\<close>

fun saveRuns ::
  "projection_config \<Rightarrow> (string \<times> poll_event list) list \<Rightarrow> (string \<Rightarrow> pstate) \<Rightarrow> (goerr option \<Rightarrow> 'a pprog) \<Rightarrow> 'a pprog" where
  "saveRuns config [] states k = k None"
| "saveRuns config ((pk, evts) # runs) states k =
     (case reduceEvents config (startState config (states pk)) evts of
        Inl e \<Rightarrow> k (Some e)
      | Inr st \<Rightarrow>
          PLost (\<lambda>lost.
            if lost then k (Some (ESentinel ErrProjectionLeaseLost))
            else
              let fail = (\<lambda>e. EWrap (''save state for partition '' @ quoted pk @ '': '' @ errorText e) [e]);
                  save = (\<lambda>v. PSave (saveBody pk v evts) (\<lambda>r.
                           case r of
                             Some e \<Rightarrow> k (Some (fail e))
                           | None \<Rightarrow> saveRuns config runs (states(pk := st)) k))
              in case st of
                   StNil \<Rightarrow> save None
                 | StObj kvs \<Rightarrow> save (Some kvs)
                 | StBad m \<Rightarrow> k (Some (fail (EWrap (''marshal request: '' @ m) [ENew m])))))"

text \<open>\<open>processManaged\<close>; the answer of a poll carries the global state.\<close>

definition processManaged ::
  "projection_config \<Rightarrow> poll_event list \<Rightarrow> saved_state \<Rightarrow> (goerr option \<Rightarrow> 'a pprog) \<Rightarrow> 'a pprog" where
  "processManaged config respEvents current k =
     (let events = sort_key pe_Seq respEvents;
          runs = partitionRuns events;
          partitions = remdups (map partitionOf events);
          bad = (if globalKey \<in> set partitions then nonObjectState current else None)
      in case bad of
           Some e \<Rightarrow> k (Some (EWrap (''load global state: '' @ errorText e) [e]))
         | None \<Rightarrow>
             loadPartitionStates partitions (\<lambda>_. StNil) [] (\<lambda>r.
               case r of
                 Inl e \<Rightarrow> k (Some e)
               | Inr states \<Rightarrow>
                   saveRuns config runs
                     (if savedValue current \<noteq> StNil then states(globalKey := savedValue current) else states) k))"

fun processExternal ::
  "projection_config \<Rightarrow> poll_event list \<Rightarrow> string \<Rightarrow> int \<Rightarrow> (goerr option \<Rightarrow> 'a pprog) \<Rightarrow> 'a pprog" where
  "processExternal config [] lastID lastSeq k =
     PLost (\<lambda>lost.
       if lost then k (Some (ESentinel ErrProjectionLeaseLost))
       else PAck lastID lastSeq (\<lambda>r.
         case r of Some e \<Rightarrow> k (Some (EWrap (''ack events: '' @ errorText e) [e])) | None \<Rightarrow> k None))"
| "processExternal config (evt # evts) lastID lastSeq k =
     PLost (\<lambda>lost.
       if lost then k (Some (ESentinel ErrProjectionLeaseLost))
       else PWork (\<lambda>dead.
         case dead of
           Some e \<Rightarrow> k (Some e)
         | None \<Rightarrow>
             PCall (toProjectionEvent evt) (buildContext config evt) (\<lambda>r.
               case r of
                 Some e \<Rightarrow> k (Some (EWrap (''handler error on event '' @ pe_ID evt @ '': '' @ errorText e) [e]))
               | None \<Rightarrow> processExternal config evts (pe_ID evt) (pe_Seq evt) k)))"

text \<open>\<open>processBatch\<close>, for the frames of a stream: they carry no state, so the global one is loaded when a
  frame needs it. Its errors are marked as errors of the batch.\<close>

definition processBatch :: "projection_config \<Rightarrow> poll_event list \<Rightarrow> (goerr option \<Rightarrow> 'a pprog) \<Rightarrow> 'a pprog" where
  "processBatch config events k0 =
     (let k = (\<lambda>r. k0 (map_option (wrap2 ErrProjectionBatch) r));
          none = \<lparr> sv_State = None, sv_StateValue = RawNone, sv_StateText = [] \<rparr>
      in if events = [] then k0 None
         else if pr_Mode config \<noteq> ''managed'' then processExternal config events [] 0 k
         else if \<not> list_ex (\<lambda>e. partitionOf e = globalKey) events then processManaged config events none k
         else PGet globalKey (\<lambda>a.
                case a of
                  Inl e \<Rightarrow> k (Some (EWrap (''load global state: '' @ errorText e) [e]))
                | Inr sv \<Rightarrow> processManaged config events sv k))"

text \<open>What \<open>poll\<close> does with an answer.\<close>

definition pollBatch :: "projection_config \<Rightarrow> poll_event list \<Rightarrow> saved_state \<Rightarrow> (goerr option \<Rightarrow> 'a pprog) \<Rightarrow> 'a pprog" where
  "pollBatch config events current k =
     (if events = [] then k None
      else if pr_Mode config = ''managed'' then processManaged config events current k
      else processExternal config events [] 0 k)"

text \<open>\<open>readStream\<close>: what its loop selects, in order. A frame comes with its event (the reader drops heartbeats),
  \<open>SelEnd\<close> is the end of the stream with its error, \<open>SelFlush\<close> the timer of the pending frames, \<open>SelLost\<close> the
  channel that a failed renewal closes, \<open>SelDone\<close> the end of the runner's context with what \<open>leaseLost\<close> then reports.
  Where the list ends the loop still waits. The answer is \<open>progressed\<close> and the error.\<close>

datatype sel = SelFrame poll_event | SelEnd "goerr option" | SelFlush | SelLost | SelDone bool

fun readStream ::
  "time_readers \<Rightarrow> projection_config \<Rightarrow> sel list \<Rightarrow> poll_event list \<Rightarrow> bool \<Rightarrow> (bool \<times> goerr option) option pprog" where
  "readStream tm config [] pending progressed = PRet None"
| "readStream tm config (SelFrame evt # sels) pending progressed =
     (if int (length (pending @ [evt])) < batchSize config then readStream tm config sels (pending @ [evt]) progressed
      else processBatch config (pending @ [evt]) (\<lambda>r.
        case r of Some e \<Rightarrow> PRet (Some (progressed, Some e)) | None \<Rightarrow> readStream tm config sels [] True))"
| "readStream tm config (SelFlush # sels) pending progressed =
     processBatch config pending (\<lambda>r.
       case r of
         Some e \<Rightarrow> PRet (Some (progressed, Some e))
       | None \<Rightarrow> readStream tm config sels [] (progressed \<or> pending \<noteq> []))"
| "readStream tm config (SelEnd err # sels) pending progressed =
     (let streamErr = streamError tm err in
      if (case streamErr of None \<Rightarrow> False | Some e \<Rightarrow> errorsIs ErrProjectionLeaseLost e)
      then PRet (Some (progressed, streamErr))
      else processBatch config pending (\<lambda>r.
        case r of
          Some e \<Rightarrow> PRet (Some (progressed, Some e))
        | None \<Rightarrow> PRet (Some (progressed \<or> pending \<noteq> [], streamErr))))"
| "readStream tm config (SelLost # sels) pending progressed =
     PRet (Some (progressed, Some (ESentinel ErrProjectionLeaseLost)))"
| "readStream tm config (SelDone lost # sels) pending progressed =
     (if lost then PRet (Some (progressed, Some (ESentinel ErrProjectionLeaseLost)))
      else processBatch config pending (\<lambda>r. PRet (Some (progressed, r))))"

section \<open>Runs and reductions\<close>

lemma addRun_events: "concat (map snd (addRun runs evt)) = concat (map snd runs) @ [evt]"
proof (cases runs rule: rev_cases)
  case (snoc rs r)
  then show ?thesis by (cases r) (simp add: addRun_def Let_def)
qed (simp add: addRun_def Let_def)

definition runOK :: "string \<times> poll_event list \<Rightarrow> bool" where
  "runOK r \<longleftrightarrow> snd r \<noteq> [] \<and> list_all (\<lambda>e. partitionOf e = fst r) (snd r)"

lemma addRun_OK: "list_all runOK runs \<Longrightarrow> list_all runOK (addRun runs evt)"
proof (cases runs rule: rev_cases)
  case (snoc rs r)
  then show "list_all runOK runs \<Longrightarrow> ?thesis" by (cases r) (auto simp: addRun_def runOK_def Let_def)
qed (simp add: addRun_def runOK_def Let_def)

lemma partitionRuns_facts:
  "concat (map snd (partitionRuns events)) = events" "list_all runOK (partitionRuns events)"
proof -
  have "concat (map snd (foldl addRun runs es)) = concat (map snd runs) @ es" for runs es
    by (induction es arbitrary: runs) (simp_all add: addRun_events)
  then show "concat (map snd (partitionRuns events)) = events" by (simp add: partitionRuns_def)
  have "list_all runOK runs \<Longrightarrow> list_all runOK (foldl addRun runs es)" for runs es
    by (induction es arbitrary: runs) (simp_all add: addRun_OK)
  then show "list_all runOK (partitionRuns events)" by (simp add: partitionRuns_def)
qed

lemma reduceEvents_append:
  "reduceEvents config st (xs @ ys) =
     (case reduceEvents config st xs of Inl e \<Rightarrow> Inl e | Inr st' \<Rightarrow> reduceEvents config st' ys)"
  by (induction xs arbitrary: st) (auto split: sum.splits)

text \<open>A handler that never empties the state: the saved \<open>{}\<close>, which counts as no state, does not arise.\<close>

definition keepsState :: "projection_config \<Rightarrow> bool" where
  "keepsState config \<longleftrightarrow> (\<forall>st ev cx st'. pr_Handler config st ev cx = Inr st' \<longrightarrow> (\<exists>kv kvs. st' = StObj (kv # kvs)))"

lemma reduceEvents_keeps:
  assumes "keepsState config" "reduceEvents config st xs = Inr st'" "xs \<noteq> []"
  shows "\<exists>kv kvs. st' = StObj (kv # kvs)"
  using assms(2,3)
proof (induction xs arbitrary: st)
  case (Cons x xs)
  then show ?case using assms(1) by (cases "xs = []") (auto simp: keepsState_def split: sum.splits)
qed simp

text \<open>The state of a partition after all of its events.\<close>

definition projected :: "projection_config \<Rightarrow> poll_event list \<Rightarrow> goerr + pstate" where
  "projected config es = (if es = [] then Inr StNil else reduceEvents config (startState config StNil) es)"

lemma projected_append:
  assumes "keepsState config" "projected config xs = Inr st" "ys \<noteq> []"
  shows "projected config (xs @ ys) = reduceEvents config (startState config st) ys"
proof (cases "xs = []")
  case False
  with assms(2) have r: "reduceEvents config (startState config StNil) xs = Inr st" by (simp add: projected_def)
  from reduceEvents_keeps [OF assms(1) r False] obtain kv kvs where "st = StObj (kv # kvs)" by blast
  with r False assms(3) show ?thesis by (simp add: projected_def reduceEvents_append startState_def)
qed (use assms in \<open>simp add: projected_def\<close>)


end
