(* ===== verification/Projection_Delivery.thy ===== *)
theory Projection_Delivery
  imports Projection_Batch
begin

text \<open>
  What a projection runner delivers (\<^verbatim>\<open>src/ironflow/projection_runner.go\<close>): runs of its batches against a
  server, in which any request may be refused, may be served with its reply lost, or may never be sent because
  the process dies. A managed projection stays exact, an external one delivers at least once.
\<close>

section \<open>Runs of a batch\<close>

text \<open>What the server has accepted, and the events that external handlers took without an error. A request of a
  runner whose lease has passed to another is refused, so the requests of several runners are accepted in the
  order of their leases.\<close>

datatype accepted = ASaved save_body | AAcked int

record pworld =
  pw_accepted :: "accepted list"
  pw_handled :: "projection_event list"

definition accept :: "accepted \<Rightarrow> pworld \<Rightarrow> pworld" where
  "accept a s = s \<lparr> pw_accepted := pw_accepted s @ [a] \<rparr>"

definition handle :: "projection_event \<Rightarrow> pworld \<Rightarrow> pworld" where
  "handle ev s = s \<lparr> pw_handled := pw_handled s @ [ev] \<rparr>"

text \<open>The server is a parameter: its answers to \<open>GetProjection\<close>, \<open>PollProjectionEvents\<close> and
  \<open>StreamProjectionEvents\<close> after the requests it accepted; a poll and a stream are numbered.\<close>

record pserver =
  ps_get :: "accepted list \<Rightarrow> string \<Rightarrow> saved_state"
  ps_poll :: "accepted list \<Rightarrow> nat \<Rightarrow> poll_event list \<times> saved_state"
  ps_frames :: "accepted list \<Rightarrow> nat \<Rightarrow> poll_event list"

text \<open>The fate of the runner's n-th action.\<close>

datatype fate = Served | Refused goerr | ReplyLost goerr | Dies

record fates =
  fa_request :: "nat \<Rightarrow> fate"
  fa_lost :: "nat \<Rightarrow> bool"
  fa_work :: "nat \<Rightarrow> goerr option"
  fa_handler :: "nat \<Rightarrow> goerr option"

primrec execBatch :: "pserver \<Rightarrow> fates \<Rightarrow> 'a pprog \<Rightarrow> nat \<Rightarrow> pworld \<Rightarrow> pworld \<times> 'a option" where
  "execBatch srv f (PRet a) = (\<lambda>n s. (s, Some a))"
| "execBatch srv f (PGet pk k) = (\<lambda>n s.
     case fa_request f n of
       Served \<Rightarrow> execBatch srv f (k (Inr (ps_get srv (pw_accepted s) pk))) (Suc n) s
     | Refused e \<Rightarrow> execBatch srv f (k (Inl e)) (Suc n) s
     | ReplyLost e \<Rightarrow> execBatch srv f (k (Inl e)) (Suc n) s
     | Dies \<Rightarrow> (s, None))"
| "execBatch srv f (PSave b k) = (\<lambda>n s.
     case fa_request f n of
       Served \<Rightarrow> execBatch srv f (k None) (Suc n) (accept (ASaved b) s)
     | Refused e \<Rightarrow> execBatch srv f (k (Some e)) (Suc n) s
     | ReplyLost e \<Rightarrow> execBatch srv f (k (Some e)) (Suc n) (accept (ASaved b) s)
     | Dies \<Rightarrow> (s, None))"
| "execBatch srv f (PAck i seq k) = (\<lambda>n s.
     case fa_request f n of
       Served \<Rightarrow> execBatch srv f (k None) (Suc n) (accept (AAcked seq) s)
     | Refused e \<Rightarrow> execBatch srv f (k (Some e)) (Suc n) s
     | ReplyLost e \<Rightarrow> execBatch srv f (k (Some e)) (Suc n) (accept (AAcked seq) s)
     | Dies \<Rightarrow> (s, None))"
| "execBatch srv f (PLost k) = (\<lambda>n s. execBatch srv f (k (fa_lost f n)) (Suc n) s)"
| "execBatch srv f (PWork k) = (\<lambda>n s. execBatch srv f (k (fa_work f n)) (Suc n) s)"
| "execBatch srv f (PCall ev cx k) = (\<lambda>n s.
     case fa_handler f n of
       None \<Rightarrow> execBatch srv f (k None) (Suc n) (handle ev s)
     | Some e \<Rightarrow> execBatch srv f (k (Some e)) (Suc n) s)"

text \<open>A round is a poll or a stream; a stream's frames are the server's, what else its loop selects is free.\<close>

datatype pick = PickFrame | PickOther sel
datatype round = Poll | Stream "pick list"

fun feed :: "pick list \<Rightarrow> poll_event list \<Rightarrow> sel list" where
  "feed [] frames = []"
| "feed (PickFrame # picks) frames =
     (case frames of [] \<Rightarrow> feed picks [] | evt # rest \<Rightarrow> SelFrame evt # feed picks rest)"
| "feed (PickOther (SelFrame e) # picks) frames = feed picks frames"
| "feed (PickOther x # picks) frames = x # feed picks frames"

definition runRound ::
  "time_readers \<Rightarrow> projection_config \<Rightarrow> pserver \<Rightarrow> nat \<Rightarrow> round \<times> fates \<Rightarrow> pworld \<Rightarrow> pworld" where
  "runRound tm config srv i rf s =
     (case rf of
        (Poll, f) \<Rightarrow>
          (case ps_poll srv (pw_accepted s) i of
             (events, current) \<Rightarrow> fst (execBatch srv f (pollBatch config events current PRet) 0 s))
      | (Stream picks, f) \<Rightarrow>
          fst (execBatch srv f (readStream tm config (feed picks (ps_frames srv (pw_accepted s) i)) [] False) 0 s))"

fun runRounds ::
  "time_readers \<Rightarrow> projection_config \<Rightarrow> pserver \<Rightarrow> nat \<Rightarrow> (round \<times> fates) list \<Rightarrow> pworld \<Rightarrow> pworld" where
  "runRounds tm config srv i [] s = s"
| "runRounds tm config srv i (r # rs) s = runRounds tm config srv (Suc i) rs (runRound tm config srv i r s)"

text \<open>The cursor and the states that accepted requests leave: a save moves the cursor to its last event.\<close>

definition cursorOf :: "accepted list \<Rightarrow> int" where
  "cursorOf h = (if h = [] then 0 else case last h of ASaved b \<Rightarrow> sb_lastEventSeq b | AAcked seq \<Rightarrow> seq)"

definition savedOf :: "accepted list \<Rightarrow> string \<Rightarrow> (string \<times> json) list option" where
  "savedOf h = foldl (\<lambda>m a. case a of ASaved b \<Rightarrow> m(sb_partitionKey b := sb_state b) | AAcked _ \<Rightarrow> m) (\<lambda>_. None) h"

definition savedState :: "accepted list \<Rightarrow> string \<Rightarrow> pstate" where
  "savedState h pk = (case savedOf h pk of None \<Rightarrow> StNil | Some kvs \<Rightarrow> StObj kvs)"

text \<open>What the runner relies on of the server: a state it serves is the last one saved; a poll and a stream go
  on after the cursor without gaps, the events of a poll in any order.\<close>

definition servesStates :: "pserver \<Rightarrow> bool" where
  "servesStates srv \<longleftrightarrow>
     (\<forall>h pk. sv_State (ps_get srv h pk) = savedOf h pk) \<and> (\<forall>h i. sv_State (snd (ps_poll srv h i)) = savedOf h globalKey)"

definition servesNext :: "pserver \<Rightarrow> poll_event list \<Rightarrow> bool" where
  "servesNext srv events \<longleftrightarrow>
     (\<forall>h i. \<exists>m. sort_key pe_Seq (fst (ps_poll srv h i)) = take m (filter (\<lambda>e. cursorOf h < pe_Seq e) events)) \<and>
     (\<forall>h i. \<exists>m. ps_frames srv h i = take m (filter (\<lambda>e. cursorOf h < pe_Seq e) events))"

definition pollsInOrder :: "pserver \<Rightarrow> bool" where
  "pollsInOrder srv \<longleftrightarrow> (\<forall>h i. sorted (map pe_Seq (fst (ps_poll srv h i))))"

definition orderedLog :: "poll_event list \<Rightarrow> bool" where
  "orderedLog events \<longleftrightarrow> sorted_wrt (<) (map pe_Seq events) \<and> list_all (\<lambda>e. 0 < pe_Seq e) events"

section \<open>Safety of programs\<close>

text \<open>A program is safe when, however its actions fare, \<open>Q\<close> holds before and after each of them.\<close>

primrec safe :: "pserver \<Rightarrow> (pworld \<Rightarrow> bool) \<Rightarrow> 'a pprog \<Rightarrow> pworld \<Rightarrow> bool" where
  "safe srv Q (PRet r) = Q"
| "safe srv Q (PGet pk k) = (\<lambda>s. Q s \<and> (\<forall>e. safe srv Q (k (Inl e)) s) \<and>
     safe srv Q (k (Inr (ps_get srv (pw_accepted s) pk))) s)"
| "safe srv Q (PSave b k) = (\<lambda>s. Q s \<and> (\<forall>e. safe srv Q (k (Some e)) s) \<and>
     (\<forall>r. safe srv Q (k r) (accept (ASaved b) s)))"
| "safe srv Q (PAck i seq k) = (\<lambda>s. Q s \<and> (\<forall>e. safe srv Q (k (Some e)) s) \<and>
     (\<forall>r. safe srv Q (k r) (accept (AAcked seq) s)))"
| "safe srv Q (PLost k) = (\<lambda>s. \<forall>b. safe srv Q (k b) s)"
| "safe srv Q (PWork k) = (\<lambda>s. \<forall>e. safe srv Q (k e) s)"
| "safe srv Q (PCall ev cx k) = (\<lambda>s. (\<forall>e. safe srv Q (k (Some e)) s) \<and> safe srv Q (k None) (handle ev s))"

lemma execBatch_safe: "safe srv Q p s \<Longrightarrow> Q (fst (execBatch srv f p n s))"
proof (induction p arbitrary: s n)
  case (PGet pk k)
  then show ?case by (cases "fa_request f n") (simp_all add: range_eqI)
next
  case (PSave b k)
  then show ?case by (cases "fa_request f n") (simp_all add: range_eqI)
next
  case (PAck i seq k)
  then show ?case by (cases "fa_request f n") (simp_all add: range_eqI)
next
  case (PCall ev cx k)
  then show ?case by (cases "fa_handler f n") (simp_all add: range_eqI)
qed (simp_all add: range_eqI)


lemma cursorOf_snoc [simp]: "cursorOf (h @ [a]) = (case a of ASaved b \<Rightarrow> sb_lastEventSeq b | AAcked seq \<Rightarrow> seq)"
  by (simp add: cursorOf_def)

lemma savedOf_snoc [simp]:
  "savedOf (h @ [ASaved b]) = (savedOf h)(sb_partitionKey b := sb_state b)" "savedOf (h @ [AAcked seq]) = savedOf h"
  by (simp_all add: savedOf_def)

lemma accept_simps [simp]:
  "pw_accepted (accept a s) = pw_accepted s @ [a]" "pw_handled (accept a s) = pw_handled s"
  "pw_accepted (handle ev s) = pw_accepted s" "pw_handled (handle ev s) = pw_handled s @ [ev]"
  by (simp_all add: accept_def handle_def)

section \<open>Positions\<close>

text \<open>A cursor that stands at the end of a prefix splits the events there.\<close>

definition lastSeq :: "poll_event list \<Rightarrow> int" where
  "lastSeq es = (if es = [] then 0 else pe_Seq (last es))"

lemma lastSeq_append [simp]: "ys \<noteq> [] \<Longrightarrow> lastSeq (xs @ ys) = pe_Seq (last ys)"
  by (simp add: lastSeq_def)

lemma cursor_splits:
  assumes "orderedLog (pre @ rest)"
  shows "filter (\<lambda>e. pe_Seq e \<le> lastSeq pre) (pre @ rest) = pre" "filter (\<lambda>e. lastSeq pre < pe_Seq e) (pre @ rest) = rest"
proof -
  have le: "pe_Seq e \<le> lastSeq pre" if e: "e \<in> set pre" for e
  proof (cases pre rule: rev_cases)
    case (snoc es l)
    with e assms show ?thesis by (auto simp: orderedLog_def lastSeq_def sorted_wrt_append less_imp_le)
  qed (use e in simp)
  have gt: "lastSeq pre < pe_Seq e" if e: "e \<in> set rest" for e
    using e assms by (cases pre rule: rev_cases) (auto simp: orderedLog_def lastSeq_def sorted_wrt_append list_all_iff)
  have g: "e \<in> set rest \<Longrightarrow> \<not> pe_Seq e \<le> lastSeq pre" for e using gt by force
  have l: "e \<in> set pre \<Longrightarrow> \<not> lastSeq pre < pe_Seq e" for e using le by force
  show "filter (\<lambda>e. pe_Seq e \<le> lastSeq pre) (pre @ rest) = pre" using le g by (simp add: filter_empty_conv)
  show "filter (\<lambda>e. lastSeq pre < pe_Seq e) (pre @ rest) = rest" using gt l by (simp add: filter_empty_conv)
qed

section \<open>Managed batches\<close>

text \<open>The saved states are the projections of the events up to the cursor.\<close>

definition exactAt :: "projection_config \<Rightarrow> poll_event list \<Rightarrow> pworld \<Rightarrow> bool" where
  "exactAt config pre s \<longleftrightarrow>
     cursorOf (pw_accepted s) = lastSeq pre \<and>
     (\<forall>pk. projected config (filter (\<lambda>e. partitionOf e = pk) pre) = Inr (savedState (pw_accepted s) pk))"

definition standing :: "poll_event list \<Rightarrow> (poll_event list \<Rightarrow> pworld \<Rightarrow> bool) \<Rightarrow> pworld \<Rightarrow> bool" where
  "standing events good s \<longleftrightarrow> (\<exists>pre rest. events = pre @ rest \<and> good pre s)"

lemma standingI: "events = pre @ rest \<Longrightarrow> good pre s \<Longrightarrow> standing events good s"
  unfolding standing_def by blast

lemma projected_keeps:
  assumes "keepsState config" "projected config es = Inr st"
  shows "st = StNil \<or> (\<exists>kv kvs. st = StObj (kv # kvs))"
  using assms reduceEvents_keeps by (cases "es = []") (auto simp: projected_def)

lemma exact_nonempty:
  assumes "keepsState config" "exactAt config pre s"
  shows "savedState (pw_accepted s) pk = StNil \<or> (\<exists>kv kvs. savedState (pw_accepted s) pk = StObj (kv # kvs))"
  using assms projected_keeps unfolding exactAt_def by blast

lemma exact_savedValue:
  assumes "keepsState config" "exactAt config pre s" "sv_State sv = savedOf (pw_accepted s) pk"
  shows "savedValue sv = savedState (pw_accepted s) pk"
  using exact_nonempty [OF assms(1,2), of pk] assms(3)
  by (auto simp: savedState_def savedValue_def split: option.splits list.splits)

text \<open>Saving one run moves the projection on by its events.\<close>

lemma exact_save:
  assumes "keepsState config" "exactAt config pre s" "runOK (pk, evts)"
    and r: "reduceEvents config (startState config (savedState (pw_accepted s) pk)) evts = Inr (StObj kvs)"
  shows "exactAt config (pre @ evts) (accept (ASaved (saveBody pk (Some kvs) evts)) s)"
proof -
  let ?h = "pw_accepted s @ [ASaved (saveBody pk (Some kvs) evts)]"
  from assms(3) have evts: "evts \<noteq> []" "\<forall>e \<in> set evts. partitionOf e = pk" by (auto simp: runOK_def list_all_iff)
  have "projected config (filter (\<lambda>e. partitionOf e = q) (pre @ evts)) = Inr (savedState ?h q)" for q
  proof (cases "q = pk")
    case True
    with evts have "filter (\<lambda>e. partitionOf e = q) (pre @ evts) = filter (\<lambda>e. partitionOf e = pk) pre @ evts" by simp
    moreover from assms(2) have "projected config (filter (\<lambda>e. partitionOf e = pk) pre) = Inr (savedState (pw_accepted s) pk)"
      by (simp add: exactAt_def)
    ultimately show ?thesis
      using projected_append [OF assms(1) _ evts(1)] r True by (simp add: savedState_def saveBody_def)
  next
    case False
    with evts(2) have "filter (\<lambda>e. partitionOf e = q) evts = []" by (auto simp: filter_empty_conv)
    with False assms(2) show ?thesis by (simp add: exactAt_def savedState_def saveBody_def)
  qed
  with evts(1) show ?thesis by (simp add: exactAt_def saveBody_def)
qed

lemma saveRuns_safe:
  assumes keeps: "keepsState config"
    and good: "\<And>p t. good p t \<longleftrightarrow> H \<and> exactAt config p t"
    and fails: "\<And>e t. standing events good t \<Longrightarrow> safe srv (standing events good) (k (Some e)) t"
  shows "events = pre @ concat (map snd runs) @ rest \<Longrightarrow> good pre s \<Longrightarrow> list_all runOK runs \<Longrightarrow>
    (\<And>r. r \<in> set runs \<Longrightarrow> startState config (states (fst r)) = startState config (savedState (pw_accepted s) (fst r))) \<Longrightarrow>
    (\<And>t. good (pre @ concat (map snd runs)) t \<Longrightarrow> safe srv (standing events good) (k None) t) \<Longrightarrow>
    safe srv (standing events good) (saveRuns config runs states k) s"
proof (induction runs arbitrary: pre s states)
  case Nil
  then show ?case by simp
next
  case (Cons run runs)
  obtain pk evts where run: "run = (pk, evts)" by fastforce
  from Cons.prems(1,2) have here: "standing events good s" by (rule standingI)
  show ?case
  proof (cases "reduceEvents config (startState config (states pk)) evts")
    case (Inl e)
    with here fails show ?thesis by (simp add: run)
  next
    case (Inr st)
    from Cons.prems(3) have runs: "runOK (pk, evts)" "list_all runOK runs" by (simp_all add: run)
    with Inr reduceEvents_keeps [OF keeps] obtain kv kvs where st: "st = StObj (kv # kvs)" by (force simp: runOK_def)
    let ?t = "accept (ASaved (saveBody pk (Some (kv # kvs)) evts)) s"
    from Cons.prems(4) [of run] Inr st
    have r: "reduceEvents config (startState config (savedState (pw_accepted s) pk)) evts = Inr (StObj (kv # kvs))"
      by (simp add: run)
    have good': "good (pre @ evts) ?t" using exact_save [OF keeps _ runs(1) r] Cons.prems(2) good by blast
    have split: "events = (pre @ evts) @ concat (map snd runs) @ rest" using Cons.prems(1) by (simp add: run)
    then have there: "standing events good ?t" using good' by (rule standingI)
    have "safe srv (standing events good) (saveRuns config runs (states(pk := st)) k) ?t"
    proof (rule Cons.IH)
      show "events = (pre @ evts) @ concat (map snd runs) @ rest" by (rule split)
      show "startState config ((states(pk := st)) (fst q)) = startState config (savedState (pw_accepted ?t) (fst q))"
        if "q \<in> set runs" for q
        using Cons.prems(4) [of q] that st by (auto simp: savedState_def saveBody_def)
      show "safe srv (standing events good) (k None) t" if "good ((pre @ evts) @ concat (map snd runs)) t" for t
        using Cons.prems(5) [of t] that by (simp add: run)
    qed (use good' runs(2) in simp_all)
    then show ?thesis using here there fails Inr st by (auto simp: run split: option.splits)
  qed
qed

lemma loadPartitionStates_safe:
  assumes here: "Q s" and fails: "\<And>e. safe srv Q (k (Inl e)) s"
  shows "(\<And>st. (\<And>pk. st pk = (if pk \<in> set pks \<and> pk \<noteq> globalKey then savedValue (ps_get srv (pw_accepted s) pk)
                                else states pk)) \<Longrightarrow> safe srv Q (k (Inr st)) s) \<Longrightarrow>
    safe srv Q (loadPartitionStates pks states errs k) s"
proof (induction pks arbitrary: states errs)
  case Nil
  then show ?case using fails by simp
next
  case (Cons pk pks)
  show ?case
  proof (cases "pk = globalKey")
    case True
    have "safe srv Q (loadPartitionStates pks states errs k) s"
      by (rule Cons.IH, rule Cons.prems) (auto simp: True)
    with True show ?thesis by simp
  next
    case False
    let ?sv = "ps_get srv (pw_accepted s) pk"
    have bad: "safe srv Q (loadPartitionStates pks states (errs @ [e]) k) s" for e
    proof (cases "errs @ [e] = []")
      case False
      have "safe srv Q (loadPartitionStates qs m (d # ds) k) s" for qs m d ds
        using fails here by (induction qs arbitrary: m d ds) (auto simp: Let_def split: option.splits)
      then show ?thesis by (cases errs) simp_all
    qed simp
    have "safe srv Q (loadPartitionStates pks (states(pk := savedValue ?sv)) errs k) s"
      by (rule Cons.IH, rule Cons.prems) (auto simp: False)
    with False bad here show ?thesis by (auto simp: Let_def split: option.splits)
  qed
qed

text \<open>The contract of a managed projection: what is assumed of its handler, the server and the events, and that
  the saved states are exact.\<close>

definition managedContract :: "projection_config \<Rightarrow> pserver \<Rightarrow> poll_event list \<Rightarrow> bool" where
  "managedContract config srv events \<longleftrightarrow>
     pr_Mode config = ''managed'' \<and> keepsState config \<and> servesStates srv \<and> servesNext srv events \<and> orderedLog events"

definition managedGood :: "projection_config \<Rightarrow> pserver \<Rightarrow> poll_event list \<Rightarrow> poll_event list \<Rightarrow> pworld \<Rightarrow> bool" where
  "managedGood config srv events pre s \<longleftrightarrow> managedContract config srv events \<and> exactAt config pre s"

lemma processManaged_safe:
  fixes config srv events
  defines "good \<equiv> managedGood config srv events"
  assumes split: "events = pre @ sort_key pe_Seq batch @ rest" and now: "good pre s"
    and cur: "globalKey \<in> partitionOf ` set batch \<Longrightarrow> sv_State cur = savedOf (pw_accepted s) globalKey"
    and fails: "\<And>e t. standing events good t \<Longrightarrow> safe srv (standing events good) (k (Some e)) t"
    and works: "\<And>t. good (pre @ sort_key pe_Seq batch) t \<Longrightarrow> safe srv (standing events good) (k None) t"
  shows "safe srv (standing events good) (processManaged config batch cur k) s"
proof -
  let ?es = "sort_key pe_Seq batch"
  from split now have here: "standing events good s" by (rule standingI)
  from now have keeps: "keepsState config" and exact: "exactAt config pre s"
    and gets: "sv_State (ps_get srv (pw_accepted s) pk) = savedOf (pw_accepted s) pk" for pk
    by (auto simp: good_def managedGood_def managedContract_def servesStates_def)
  have got: "savedValue (ps_get srv (pw_accepted s) pk) = savedState (pw_accepted s) pk" for pk
    using exact_savedValue [OF keeps exact] gets by blast
  have runs: "concat (map snd (partitionRuns ?es)) = ?es" "list_all runOK (partitionRuns ?es)"
    by (rule partitionRuns_facts)+
  have key: "fst r \<in> partitionOf ` set batch" if r: "r \<in> set (partitionRuns ?es)" for r
  proof -
    from r runs(2) have "snd r \<noteq> []" "\<forall>e \<in> set (snd r). partitionOf e = fst r" by (auto simp: list_all_iff runOK_def)
    moreover have "set (snd r) \<subseteq> set ?es" using r runs(1) by (metis UN_upper set_concat set_map image_eqI)
    ultimately show ?thesis by (cases "snd r") force+
  qed
  have saves: "safe srv (standing events good)
      (saveRuns config (partitionRuns ?es) (if savedValue cur \<noteq> StNil then st(globalKey := savedValue cur) else st) k) s"
    if st: "\<And>pk. st pk = (if pk \<in> partitionOf ` set batch \<and> pk \<noteq> globalKey
                          then savedValue (ps_get srv (pw_accepted s) pk) else StNil)" for st
  proof (rule saveRuns_safe [where good = good and events = events])
    show "good p t \<longleftrightarrow> managedContract config srv events \<and> exactAt config p t" for p t
      by (simp add: good_def managedGood_def)
    show "startState config ((if savedValue cur \<noteq> StNil then st(globalKey := savedValue cur) else st) (fst r)) =
          startState config (savedState (pw_accepted s) (fst r))" if "r \<in> set (partitionRuns ?es)" for r
      using key [OF that] st [of "fst r"] got exact_savedValue [OF keeps exact cur] by auto
  qed (use keeps fails split now runs works in simp_all)
  have "safe srv (standing events good) (loadPartitionStates (remdups (map partitionOf ?es)) (\<lambda>_. StNil) []
      (\<lambda>r. case r of Inl e \<Rightarrow> k (Some e)
        | Inr st \<Rightarrow> saveRuns config (partitionRuns ?es)
            (if savedValue cur \<noteq> StNil then st(globalKey := savedValue cur) else st) k)) s"
    by (rule loadPartitionStates_safe) (use here fails saves in simp_all)
  then show ?thesis using here fails by (auto simp: processManaged_def Let_def split: option.splits)
qed

lemma ordered_part:
  assumes "orderedLog (pre @ batch @ rest)"
  shows "sort_key pe_Seq batch = batch"
proof -
  from assms have "sorted_wrt (<) (map pe_Seq batch)" by (simp add: orderedLog_def sorted_wrt_append)
  then have "sorted (map pe_Seq batch)" by (rule strict_sorted_imp_sorted)
  then show ?thesis by (rule sort_key_id_if_sorted)
qed

lemma managed_batch_safe:
  fixes config srv events
  defines "good \<equiv> managedGood config srv events"
  assumes split: "events = pre @ batch @ rest" and now: "good pre s"
    and fails: "\<And>e t. standing events good t \<Longrightarrow> safe srv (standing events good) (k (Some e)) t"
    and works: "\<And>t. good (pre @ batch) t \<Longrightarrow> safe srv (standing events good) (k None) t"
  shows "safe srv (standing events good) (processBatch config batch k) s"
proof -
  let ?k = "\<lambda>r. k (map_option (wrap2 ErrProjectionBatch) r)"
  from split now have here: "standing events good s" by (rule standingI)
  from now have mode: "pr_Mode config = ''managed''" and ord: "orderedLog (pre @ batch @ rest)"
    and gets: "sv_State (ps_get srv (pw_accepted s) globalKey) = savedOf (pw_accepted s) globalKey"
    using split by (auto simp: good_def managedGood_def managedContract_def servesStates_def)
  have sorted: "sort_key pe_Seq batch = batch" by (rule ordered_part [OF ord])
  have body: "safe srv (standing events good) (processManaged config batch cur ?k) s"
    if "globalKey \<in> partitionOf ` set batch \<Longrightarrow> sv_State cur = savedOf (pw_accepted s) globalKey" for cur
    using processManaged_safe [where k = ?k and pre = pre and rest = rest and batch = batch and config = config
        and events = events and srv = srv and s = s and cur = cur] split now fails works that sorted
    by (simp add: good_def)
  show ?thesis
  proof (cases "list_ex (\<lambda>e. partitionOf e = globalKey) batch")
    case True
    then show ?thesis
      using mode here fails body [of "ps_get srv (pw_accepted s) globalKey"] gets by (auto simp: processBatch_def Let_def)
  next
    case False
    then have "globalKey \<notin> partitionOf ` set batch" by (auto simp: list_ex_iff)
    with False show ?thesis using mode works now body by (cases "batch = []") (simp_all add: processBatch_def Let_def)
  qed
qed

section \<open>External batches\<close>

text \<open>Every event up to the cursor has been handled.\<close>

definition deliveredAt :: "poll_event list \<Rightarrow> pworld \<Rightarrow> bool" where
  "deliveredAt pre s \<longleftrightarrow>
     cursorOf (pw_accepted s) = lastSeq pre \<and> list_all (\<lambda>e. toProjectionEvent e \<in> set (pw_handled s)) pre"

definition externalContract :: "projection_config \<Rightarrow> pserver \<Rightarrow> poll_event list \<Rightarrow> bool" where
  "externalContract config srv events \<longleftrightarrow>
     pr_Mode config \<noteq> ''managed'' \<and> pollsInOrder srv \<and> servesNext srv events \<and> orderedLog events"

definition externalGood :: "projection_config \<Rightarrow> pserver \<Rightarrow> poll_event list \<Rightarrow> poll_event list \<Rightarrow> pworld \<Rightarrow> bool" where
  "externalGood config srv events pre s \<longleftrightarrow> externalContract config srv events \<and> deliveredAt pre s"

lemma processExternal_safe:
  fixes config srv events
  defines "good \<equiv> externalGood config srv events"
  assumes fails: "\<And>e t. standing events good t \<Longrightarrow> safe srv (standing events good) (k (Some e)) t"
    and works: "\<And>t. good (pre @ batch) t \<Longrightarrow> safe srv (standing events good) (k None) t"
  shows "events = pre @ batch @ rest \<Longrightarrow> batch = took @ todo \<Longrightarrow> batch \<noteq> [] \<Longrightarrow> good pre s \<Longrightarrow>
    list_all (\<lambda>e. toProjectionEvent e \<in> set (pw_handled s)) took \<Longrightarrow> (took \<noteq> [] \<Longrightarrow> seq = pe_Seq (last took)) \<Longrightarrow>
    safe srv (standing events good) (processExternal config todo lastID seq k) s"
proof (induction todo arbitrary: took s lastID seq)
  case Nil
  from Nil.prems(1,4) have here: "standing events good s" by (rule standingI)
  have "good (pre @ batch) (accept (AAcked seq) s)"
    using Nil.prems by (auto simp: good_def externalGood_def deliveredAt_def)
  moreover from this Nil.prems(1) have "standing events good (accept (AAcked seq) s)"
    by (auto intro!: standingI [of _ "pre @ batch" rest])
  ultimately show ?case using here fails works by (auto split: option.splits)
next
  case (Cons evt todo)
  from Cons.prems(1,4) have here: "standing events good s" by (rule standingI)
  have "safe srv (standing events good) (processExternal config todo (pe_ID evt) (pe_Seq evt) k)
      (handle (toProjectionEvent evt) s)"
  proof (rule Cons.IH [of "took @ [evt]"])
    show "good pre (handle (toProjectionEvent evt) s)"
      using Cons.prems(4) by (auto simp: good_def externalGood_def deliveredAt_def list_all_iff)
  qed (use Cons.prems in \<open>auto simp: list_all_iff\<close>)
  then show ?case using here fails by (auto split: option.splits)
qed

lemma external_batch_safe:
  fixes config srv events
  defines "good \<equiv> externalGood config srv events"
  assumes split: "events = pre @ batch @ rest" and now: "good pre s"
    and fails: "\<And>e t. standing events good t \<Longrightarrow> safe srv (standing events good) (k (Some e)) t"
    and works: "\<And>t. good (pre @ batch) t \<Longrightarrow> safe srv (standing events good) (k None) t"
  shows "safe srv (standing events good) (processBatch config batch k) s"
    and "safe srv (standing events good) (pollBatch config batch cur k) s"
proof -
  from now have mode: "pr_Mode config \<noteq> ''managed''" by (simp add: good_def externalGood_def externalContract_def)
  have body: "safe srv (standing events good) (processExternal config batch [] 0 h) s"
    if "batch \<noteq> []" and "\<And>e t. standing events good t \<Longrightarrow> safe srv (standing events good) (h (Some e)) t"
      and "\<And>t. good (pre @ batch) t \<Longrightarrow> safe srv (standing events good) (h None) t" for h
    unfolding good_def
    by (rule processExternal_safe [where took = "[]" and todo = batch and batch = batch and pre = pre and rest = rest])
      (use that split now in \<open>simp_all add: good_def\<close>)
  show "safe srv (standing events good) (processBatch config batch k) s"
    using mode works now body [of "\<lambda>r. k (map_option (wrap2 ErrProjectionBatch) r)"] fails
    by (cases "batch = []") (simp_all add: processBatch_def Let_def)
  show "safe srv (standing events good) (pollBatch config batch cur k) s"
    using mode works now body [of k] fails by (cases "batch = []") (simp_all add: pollBatch_def)
qed

section \<open>Rounds\<close>

abbreviation framesOf :: "sel list \<Rightarrow> poll_event list" where
  "framesOf sels \<equiv> List.map_filter (\<lambda>x. case x of SelFrame e \<Rightarrow> Some e | _ \<Rightarrow> None) sels"

text \<open>What a runner needs of its batches: each is safe for \<open>good\<close>, and a success moves it on by the whole batch.\<close>

locale delivery =
  fixes config :: projection_config and srv :: pserver and events :: "poll_event list"
    and good :: "poll_event list \<Rightarrow> pworld \<Rightarrow> bool"
  assumes contract: "good pre s \<Longrightarrow> orderedLog events \<and> servesNext srv events \<and> cursorOf (pw_accepted s) = lastSeq pre"
    and batch_safe: "events = pre @ batch @ rest \<Longrightarrow> good pre s \<Longrightarrow>
      (\<And>e t. standing events good t \<Longrightarrow> safe srv (standing events good) (k (Some e)) t) \<Longrightarrow>
      (\<And>t. good (pre @ batch) t \<Longrightarrow> safe srv (standing events good) (k None) t) \<Longrightarrow>
      safe srv (standing events good)
        (processBatch config batch (k :: goerr option \<Rightarrow> (bool \<times> goerr option) option pprog)) s"
    and poll_safe: "events = pre @ sort_key pe_Seq batch @ rest \<Longrightarrow> good pre s \<Longrightarrow>
      ps_poll srv (pw_accepted s) i = (batch, cur) \<Longrightarrow>
      safe srv (standing events good) (pollBatch config batch cur PRet) s"
begin

lemma readStream_safe:
  assumes "events = pre @ pending @ framesOf sels @ rest" "good pre s"
  shows "safe srv (standing events good) (readStream tm config sels pending progressed) s"
  using assms
proof (induction sels arbitrary: pre pending progressed s rest)
  case Nil
  then show ?case by (auto intro: standingI)
next
  case (Cons x sels)
  from Cons.prems have here: "standing events good s" by (rule standingI)
  have batch: "safe srv (standing events good) (processBatch config b (\<lambda>r.
      case r of Some e \<Rightarrow> PRet (Some (progressed, Some e)) | None \<Rightarrow> h)) s"
    if b: "events = pre @ b @ tail" and h: "\<And>t. good (pre @ b) t \<Longrightarrow> safe srv (standing events good) h t" for b tail h
    by (rule batch_safe [OF b Cons.prems(2)]) (use h in simp_all)
  show ?case
  proof (cases x)
    case (SelFrame evt)
    with Cons.prems(1) have e: "events = pre @ (pending @ [evt]) @ framesOf sels @ rest" by (simp add: List.map_filter_simps)
    have "safe srv (standing events good) (readStream tm config sels [] True) t" if "good (pre @ (pending @ [evt])) t" for t
      by (rule Cons.IH [where pre = "pre @ pending @ [evt]" and rest = rest]) (use e that in simp_all)
    then show ?thesis using Cons.IH [OF e Cons.prems(2)] batch [OF e] SelFrame by simp
  next
    case (SelEnd err)
    have "safe srv (standing events good) (PRet r) t" if "good (pre @ pending) t" for r t
      using Cons.prems(1) that by (auto intro: standingI [of _ "pre @ pending"])
    then show ?thesis using here batch [OF Cons.prems(1)] SelEnd by (simp add: Let_def split: option.splits)
  next
    case SelFlush
    with Cons.prems(1) have e: "events = pre @ pending @ framesOf sels @ rest" by (simp add: List.map_filter_simps)
    have "safe srv (standing events good) (readStream tm config sels [] p) t" if "good (pre @ pending) t" for t p
      by (rule Cons.IH [where pre = "pre @ pending" and rest = rest]) (use e that in simp_all)
    then show ?thesis using batch [OF e] SelFlush by simp
  next
    case (SelDone lost)
    have "safe srv (standing events good) (processBatch config pending (\<lambda>r. PRet (Some (progressed, r)))) s"
      by (rule batch_safe [OF Cons.prems]) (use Cons.prems(1) in \<open>auto intro: standingI [of _ "pre @ pending"]\<close>)
    then show ?thesis using here SelDone by simp
  qed (use here in simp)
qed

lemma feed_frames: "\<exists>n. framesOf (feed picks frames) = take n frames"
proof (induction picks frames rule: feed.induct)
  case (2 picks frames)
  then show ?case by (cases frames) (auto simp: List.map_filter_simps intro: exI [of _ "Suc _"])
qed (auto simp: List.map_filter_simps intro: exI [of _ 0])

lemma next_events:
  assumes "events = pre @ rest" "good pre s"
  shows "\<exists>m. sort_key pe_Seq (fst (ps_poll srv (pw_accepted s) i)) = take m rest"
    and "\<exists>m. ps_frames srv (pw_accepted s) i = take m rest"
proof -
  have "filter (\<lambda>e. cursorOf (pw_accepted s) < pe_Seq e) events = rest"
    using contract [OF assms(2)] cursor_splits(2) [of pre rest] unfolding assms(1) by metis
  then show "\<exists>m. sort_key pe_Seq (fst (ps_poll srv (pw_accepted s) i)) = take m rest"
    and "\<exists>m. ps_frames srv (pw_accepted s) i = take m rest"
    using contract [OF assms(2)] unfolding servesNext_def by metis+
qed

lemma round_standing: "standing events good s \<Longrightarrow> standing events good (runRound tm config srv i rf s)"
proof -
  assume "standing events good s"
  then obtain pre rest where at: "events = pre @ rest" "good pre s" unfolding standing_def by blast
  obtain r f where rf: "rf = (r, f)" by fastforce
  show ?thesis
  proof (cases r)
    case Poll
    obtain es cur where poll: "ps_poll srv (pw_accepted s) i = (es, cur)" by fastforce
    from next_events(1) [OF at, of i] poll obtain m where "sort_key pe_Seq es = take m rest" by auto
    with at(1) have "events = pre @ sort_key pe_Seq es @ drop m rest" by simp
    from execBatch_safe [OF poll_safe [OF this at(2) poll]] show ?thesis by (simp add: runRound_def rf Poll poll)
  next
    case (Stream picks)
    from next_events(2) [OF at, of i] obtain m where m: "ps_frames srv (pw_accepted s) i = take m rest" by blast
    from feed_frames obtain n where "framesOf (feed picks (take m rest)) = take n (take m rest)" by blast
    with at(1) have "events = pre @ [] @ framesOf (feed picks (take m rest)) @ drop (min n m) rest" by simp
    from execBatch_safe [OF readStream_safe [OF this at(2)]] show ?thesis by (simp add: runRound_def rf Stream m)
  qed
qed

lemma rounds_standing: "standing events good s \<Longrightarrow> standing events good (runRounds tm config srv i rs s)"
  by (induction rs arbitrary: i s) (simp_all add: round_standing)

end

section \<open>Managed and external projections\<close>

interpretation managed: delivery config srv events "managedGood config srv events" for config srv events
proof
  fix pre s
  assume "managedGood config srv events pre s"
  then show "orderedLog events \<and> servesNext srv events \<and> cursorOf (pw_accepted s) = lastSeq pre"
    by (simp add: managedGood_def managedContract_def exactAt_def)
next
  fix pre batch rest s i cur
  assume split: "events = pre @ sort_key pe_Seq batch @ rest" and now: "managedGood config srv events pre s"
    and poll: "ps_poll srv (pw_accepted s) i = (batch, cur)"
  from now poll have "pr_Mode config = ''managed''" "sv_State cur = savedOf (pw_accepted s) globalKey"
    unfolding managedGood_def managedContract_def servesStates_def by (metis snd_conv)+
  moreover from split now have "standing events (managedGood config srv events) s" by (rule standingI)
  moreover have "standing events (managedGood config srv events) t"
    if "managedGood config srv events (pre @ sort_key pe_Seq batch) t" for t
    using split that by (auto intro: standingI [of _ "pre @ sort_key pe_Seq batch"])
  ultimately show "safe srv (standing events (managedGood config srv events)) (pollBatch config batch cur PRet) s"
    using processManaged_safe [OF split now, of cur PRet] by (simp add: pollBatch_def)
qed (rule managed_batch_safe)

interpretation external: delivery config srv events "externalGood config srv events" for config srv events
proof
  fix pre s
  assume "externalGood config srv events pre s"
  then show "orderedLog events \<and> servesNext srv events \<and> cursorOf (pw_accepted s) = lastSeq pre"
    by (simp add: externalGood_def externalContract_def deliveredAt_def)
next
  fix pre batch rest s i cur
  assume split: "events = pre @ sort_key pe_Seq batch @ rest" and now: "externalGood config srv events pre s"
    and poll: "ps_poll srv (pw_accepted s) i = (batch, cur)"
  from now poll have "sorted (map pe_Seq batch)"
    unfolding externalGood_def externalContract_def pollsInOrder_def by (metis fst_conv)
  with split have split': "events = pre @ batch @ rest" by (simp add: sort_key_id_if_sorted)
  then have "standing events (externalGood config srv events) t" if "externalGood config srv events (pre @ batch) t" for t
    using that by (auto intro: standingI [of _ "pre @ batch"])
  then show "safe srv (standing events (externalGood config srv events)) (pollBatch config batch cur PRet) s"
    using external_batch_safe(2) [OF split' now, of PRet cur] by simp
qed (rule external_batch_safe(1))

abbreviation freshWorld :: pworld where
  "freshWorld \<equiv> \<lparr> pw_accepted = [], pw_handled = [] \<rparr>"

definition deliver :: "time_readers \<Rightarrow> projection_config \<Rightarrow> pserver \<Rightarrow> (round \<times> fates) list \<Rightarrow> pworld" where
  "deliver tm config srv rounds = runRounds tm config srv 0 rounds freshWorld"

lemma fresh_standing:
  "managedContract config srv events \<Longrightarrow> standing events (managedGood config srv events) freshWorld"
  "externalContract config srv events \<Longrightarrow> standing events (externalGood config srv events) freshWorld"
  by (auto intro!: standingI [of _ "[]"] simp: managedGood_def externalGood_def exactAt_def deliveredAt_def cursorOf_def
      lastSeq_def projected_def savedState_def savedOf_def)


text \<open>C12. An external projection delivers at least once: whatever fails, every event up to the server's cursor has been
  taken by the handler without an error.\<close>

theorem external_projection_delivers:
  assumes "externalContract config srv events"
  shows "list_all (\<lambda>e. toProjectionEvent e \<in> set (pw_handled (deliver tm config srv rounds)))
    (filter (\<lambda>e. pe_Seq e \<le> cursorOf (pw_accepted (deliver tm config srv rounds))) events)"
proof -
  let ?s = "deliver tm config srv rounds"
  from external.rounds_standing [OF fresh_standing(2) [OF assms(1)], of tm 0 rounds]
  obtain pre rest where at: "events = pre @ rest" "deliveredAt pre ?s"
    unfolding standing_def externalGood_def deliver_def by blast
  with cursor_splits(1) [of pre rest] assms(1) have "filter (\<lambda>e. pe_Seq e \<le> cursorOf (pw_accepted ?s)) events = pre"
    by (simp only: deliveredAt_def externalContract_def)
  with at(2) show ?thesis by (simp add: deliveredAt_def)
qed

section \<open>Progress\<close>

text \<open>A stretch without failures, a handler that takes every event, and a server that has only objects saved and
  always has more events while some are left.\<close>

definition smooth :: "fates \<Rightarrow> bool" where
  "smooth f \<longleftrightarrow> (\<forall>n. fa_request f n = Served \<and> \<not> fa_lost f n \<and> fa_work f n = None \<and> fa_handler f n = None)"

definition reducesAll :: "projection_config \<Rightarrow> bool" where
  "reducesAll config \<longleftrightarrow> (\<forall>st ev cx. \<exists>st'. pr_Handler config st ev cx = Inr st')"

definition servesObjects :: "pserver \<Rightarrow> bool" where
  "servesObjects srv \<longleftrightarrow>
     (\<forall>h pk. nonObjectState (ps_get srv h pk) = None) \<and> (\<forall>h i. nonObjectState (snd (ps_poll srv h i)) = None)"

definition servesSome :: "pserver \<Rightarrow> poll_event list \<Rightarrow> bool" where
  "servesSome srv events \<longleftrightarrow>
     (\<forall>h i. filter (\<lambda>e. cursorOf h < pe_Seq e) events \<noteq> [] \<longrightarrow> fst (ps_poll srv h i) \<noteq> [])"

lemma reduceEvents_total: "reducesAll config \<Longrightarrow> \<exists>st'. reduceEvents config st evts = Inr st'"
proof (induction evts arbitrary: st)
  case (Cons evt evts)
  then obtain st1 where "pr_Handler config (cloneState st) (toProjectionEvent evt) (buildContext config evt) = Inr st1"
    unfolding reducesAll_def by metis
  with Cons show ?case by simp
qed simp

lemma saveRuns_served:
  assumes "smooth f" "reducesAll config" "keepsState config" "list_all runOK runs"
  shows "\<exists>n' s'. execBatch srv f (saveRuns config runs states k) n s = execBatch srv f (k None) n' s' \<and>
    (runs \<noteq> [] \<longrightarrow> cursorOf (pw_accepted s') = pe_Seq (last (snd (last runs))))"
  using assms(4)
proof (induction runs arbitrary: states n s)
  case Nil
  then show ?case by auto
next
  case (Cons run runs)
  obtain pk evts where run: "run = (pk, evts)" by fastforce
  from reduceEvents_total [OF assms(2)] obtain st
    where st: "reduceEvents config (startState config (states pk)) evts = Inr st" by blast
  moreover from Cons.prems have "evts \<noteq> []" by (simp add: run runOK_def)
  ultimately obtain kv kvs where obj: "st = StObj (kv # kvs)" using reduceEvents_keeps [OF assms(3)] by blast
  let ?t = "accept (ASaved (saveBody pk (Some (kv # kvs)) evts)) s"
  have now: "execBatch srv f (saveRuns config (run # runs) states k) n s =
      execBatch srv f (saveRuns config runs (states(pk := st)) k) (n + 2) ?t"
    using assms(1) st obj by (simp add: run smooth_def)
  show ?case
  proof (cases "runs = []")
    case True
    with now show ?thesis by (auto simp: run saveBody_def intro!: exI [of _ ?t])
  next
    case False
    from Cons.prems have "list_all runOK runs" by simp
    from Cons.IH [OF this, of "states(pk := st)" "n + 2" ?t] False now show ?thesis by (metis last_ConsR)
  qed
qed

lemma loadPartitionStates_served:
  assumes "smooth f" "servesObjects srv"
  shows "\<exists>n' st. execBatch srv f (loadPartitionStates pks states [] k) n s = execBatch srv f (k (Inr st)) n' s"
proof (induction pks arbitrary: states n)
  case (Cons pk pks)
  show ?case
  proof (cases "pk = globalKey")
    case False
    from assms have "fa_request f n = Served" "nonObjectState (ps_get srv (pw_accepted s) pk) = None"
      by (auto simp: smooth_def servesObjects_def)
    moreover from Cons.IH [of "states(pk := savedValue (ps_get srv (pw_accepted s) pk))" "Suc n"] obtain n' st where
      "execBatch srv f (loadPartitionStates pks (states(pk := savedValue (ps_get srv (pw_accepted s) pk))) [] k) (Suc n) s =
       execBatch srv f (k (Inr st)) n' s" by blast
    ultimately show ?thesis using False by auto
  qed (use Cons.IH in simp)
qed auto

lemma last_concat_runs: "runs \<noteq> [] \<Longrightarrow> list_all runOK runs \<Longrightarrow> last (concat (map snd runs)) = last (snd (last runs))"
  by (cases runs rule: rev_cases) (auto simp: runOK_def)

lemma poll_advances:
  assumes f: "smooth f" and all: "reducesAll config" and keeps: "keepsState config" and objs: "servesObjects srv"
    and mode: "pr_Mode config = ''managed''" and poll: "ps_poll srv (pw_accepted s) i = (es, cur)" "es \<noteq> []"
  shows "cursorOf (pw_accepted (runRound tm config srv i (Poll, f) s)) = pe_Seq (last (sort_key pe_Seq es))"
proof -
  let ?es = "sort_key pe_Seq es"
  let ?runs = "partitionRuns ?es"
  let ?k = "\<lambda>r. case r of Inl e \<Rightarrow> PRet (Some e)
    | Inr st \<Rightarrow> saveRuns config ?runs (if savedValue cur \<noteq> StNil then st(globalKey := savedValue cur) else st) PRet"
  have runs: "concat (map snd ?runs) = ?es" "list_all runOK ?runs" by (rule partitionRuns_facts)+
  with poll(2) have ne: "?runs \<noteq> []" by (metis concat.simps(1) list.simps(8) set_empty set_sort)
  from objs poll(1) have "nonObjectState cur = None" unfolding servesObjects_def by (metis snd_conv)
  then have start: "execBatch srv f (pollBatch config es cur PRet) 0 s =
      execBatch srv f (loadPartitionStates (remdups (map partitionOf ?es)) (\<lambda>_. StNil) [] ?k) 0 s"
    using mode poll(2) by (simp add: pollBatch_def processManaged_def Let_def)
  from loadPartitionStates_served [OF f objs] obtain n' st where
    load: "execBatch srv f (loadPartitionStates (remdups (map partitionOf ?es)) (\<lambda>_. StNil) [] ?k) 0 s = execBatch srv f (?k (Inr st)) n' s"
    by blast
  let ?st = "if savedValue cur \<noteq> StNil then st(globalKey := savedValue cur) else st"
  from saveRuns_served [OF f all keeps runs(2), of srv ?st PRet n' s] ne obtain n'' s' where
    "execBatch srv f (?k (Inr st)) n' s = execBatch srv f (PRet None) n'' s'"
    "cursorOf (pw_accepted s') = pe_Seq (last (snd (last ?runs)))" by auto
  with start load poll(1) last_concat_runs [OF ne runs(2)] runs(1) show ?thesis by (simp add: runRound_def)
qed

lemma runRounds_append:
  "runRounds tm config srv i (rs @ rs') s = runRounds tm config srv (i + length rs) rs' (runRounds tm config srv i rs s)"
  by (induction rs arbitrary: i s) simp_all

abbreviation unread :: "poll_event list \<Rightarrow> pworld \<Rightarrow> poll_event list" where
  "unread events s \<equiv> filter (\<lambda>e. cursorOf (pw_accepted s) < pe_Seq e) events"

lemma standing_unread:
  assumes "standing events (managedGood config srv events) s"
  obtains pre where "events = pre @ unread events s" "managedGood config srv events pre s"
proof -
  from assms obtain pre rest where at: "events = pre @ rest" "managedGood config srv events pre s"
    unfolding standing_def by blast
  then have "unread events s = rest"
    using cursor_splits(2) [of pre rest] by (simp only: managedGood_def managedContract_def exactAt_def)
  with at show ?thesis by (intro that) simp_all
qed

lemma round_reads:
  assumes at: "standing events (managedGood config srv events) s" and f: "smooth f" and all: "reducesAll config"
    and objs: "servesObjects srv" and more: "servesSome srv events" "unread events s \<noteq> []"
  shows "length (unread events (runRound tm config srv i (Poll, f) s)) < length (unread events s)"
proof -
  let ?t = "runRound tm config srv i (Poll, f) s"
  from at obtain pre where pre: "events = pre @ unread events s" "managedGood config srv events pre s"
    by (rule standing_unread)
  from pre(2) have c: "managedContract config srv events" by (simp add: managedGood_def)
  obtain es cur where poll: "ps_poll srv (pw_accepted s) i = (es, cur)" by fastforce
  with more have ne: "es \<noteq> []" unfolding servesSome_def by (metis fst_conv)
  from c poll obtain m where m: "sort_key pe_Seq es = take m (unread events s)"
    unfolding managedContract_def servesNext_def by (metis fst_conv)
  with ne have tk: "take m (unread events s) \<noteq> []" by (metis set_empty set_sort)
  have cur: "cursorOf (pw_accepted ?t) = pe_Seq (last (sort_key pe_Seq es))"
    using poll_advances [OF f all _ objs _ poll ne] c by (simp add: managedContract_def)
  have split: "events = (pre @ take m (unread events s)) @ drop m (unread events s)" using pre(1) by simp
  have "cursorOf (pw_accepted ?t) = lastSeq (pre @ take m (unread events s))" using cur m tk by simp
  moreover have "orderedLog ((pre @ take m (unread events s)) @ drop m (unread events s))"
    using c split by (simp add: managedContract_def)
  ultimately have "unread events ?t = drop m (unread events s)" using cursor_splits(2) split by metis
  with tk show ?thesis by (cases m) auto
qed

lemma rounds_read:
  assumes f: "smooth f" and all: "reducesAll config" and objs: "servesObjects srv" and more: "servesSome srv events"
  shows "standing events (managedGood config srv events) s \<Longrightarrow> length (unread events s) \<le> n \<Longrightarrow>
    unread events (runRounds tm config srv i (replicate n (Poll, f)) s) = []"
proof (induction n arbitrary: i s)
  case (Suc n)
  let ?t = "runRound tm config srv i (Poll, f) s"
  have t: "standing events (managedGood config srv events) ?t" by (rule managed.round_standing [OF Suc.prems(1)])
  have "length (unread events ?t) \<le> n"
  proof (cases "unread events s = []")
    case False
    have "length (unread events ?t) < length (unread events s)"
      by (rule round_reads [OF Suc.prems(1) f all objs more False])
    with Suc.prems(2) show ?thesis by linarith
  next
    case True
    from Suc.prems(1) obtain pre where pre: "events = pre @ unread events s" "managedGood config srv events pre s"
      by (rule standing_unread)
    have "fst (ps_poll srv (pw_accepted s) i) = []"
      using pre(2) True unfolding managedGood_def managedContract_def servesNext_def
      by (metis set_empty set_sort take_Nil)
    then have "?t = s" by (auto simp: runRound_def pollBatch_def split: prod.splits)
    with True show ?thesis by simp
  qed
  with Suc.IH [OF t] show ?case by simp
qed simp


section \<open>A lost lease\<close>

lemma saveRuns_lost:
  assumes "\<And>n. fa_lost f n" "\<And>r n. fst (execBatch srv f (k r) n s) = s"
  shows "fst (execBatch srv f (saveRuns config runs states k) n s) = s"
proof (cases runs)
  case (Cons run rest)
  then show ?thesis using assms by (cases run) (simp split: sum.splits)
qed (use assms in simp)

lemma loadPartitionStates_lost:
  assumes "\<And>r n. fst (execBatch srv f (k r) n s) = s"
  shows "fst (execBatch srv f (loadPartitionStates pks states errs k) n s) = s"
  by (induction pks arbitrary: states errs n) (use assms in \<open>auto simp: Let_def split: fate.splits option.splits\<close>)

lemma processManaged_lost:
  assumes "\<And>n. fa_lost f n" "\<And>r n. fst (execBatch srv f (k r) n s) = s"
  shows "fst (execBatch srv f (processManaged config batch cur k) n s) = s"
  using assms
  by (auto simp: processManaged_def Let_def saveRuns_lost intro!: loadPartitionStates_lost split: option.splits sum.splits)

lemma processExternal_lost:
  assumes "\<And>n. fa_lost f n" "\<And>r n. fst (execBatch srv f (k r) n s) = s"
  shows "fst (execBatch srv f (processExternal config batch i q k) n s) = s"
  using assms by (cases batch) simp_all

text \<open>Once the runner has seen that its lease is lost, a batch saves nothing, acknowledges nothing and calls no
  external handler, in either mode and on either transport.\<close>

theorem lost_lease_changes_nothing:
  assumes "\<And>n. fa_lost f n"
  shows "fst (execBatch srv f (pollBatch config batch cur PRet) n s) = s \<and>
    fst (execBatch srv f (processBatch config batch PRet) n s) = s"
proof
  show "fst (execBatch srv f (pollBatch config batch cur PRet) n s) = s"
    using assms by (simp add: pollBatch_def processManaged_lost processExternal_lost)
  have k: "fst (execBatch srv f (PRet (map_option (wrap2 ErrProjectionBatch) r)) n s) = s" for r n by simp
  show "fst (execBatch srv f (processBatch config batch PRet) n s) = s"
    using assms
    by (auto simp: processBatch_def Let_def intro!: processManaged_lost processExternal_lost split: fate.splits)
qed

section \<open>An example\<close>

definition sampleEvent :: "string \<Rightarrow> int \<Rightarrow> string \<Rightarrow> poll_event" where
  "sampleEvent name seq part =
     \<lparr> pe_EntityID = ''o'', pe_EntityType = ''order'', pe_EntityVersion = seq, pe_ID = name, pe_Name = name,
       pe_Data = Some [], pe_DataValue = GNil, pe_Seq = seq, pe_Timestamp = [], pe_Source = [],
       pe_Metadata = (if part = [] then None else Some [(''__partition'', JStr part)]) \<rparr>"

definition sampleServer :: "nat \<Rightarrow> poll_event list \<Rightarrow> pserver" where
  "sampleServer m events =
     \<lparr> ps_get = (\<lambda>h pk. \<lparr> sv_State = savedOf h pk, sv_StateValue = RawNone, sv_StateText = [] \<rparr>),
       ps_poll = (\<lambda>h i. (take m (filter (\<lambda>e. cursorOf h < pe_Seq e) events),
                         \<lparr> sv_State = savedOf h globalKey, sv_StateValue = RawNone, sv_StateText = [] \<rparr>)),
       ps_frames = (\<lambda>h i. filter (\<lambda>e. cursorOf h < pe_Seq e) events) \<rparr>"

lemma sampleServer_serves:
  assumes "orderedLog events"
  shows "servesStates (sampleServer m events)" "servesNext (sampleServer m events) events"
    "pollsInOrder (sampleServer m events)" "servesObjects (sampleServer m events)"
    "0 < m \<Longrightarrow> servesSome (sampleServer m events) events"
proof -
  have s: "sorted (map pe_Seq (take m (filter P events)))" for P
  proof -
    from assms have "sorted (map pe_Seq events)" by (simp add: orderedLog_def strict_sorted_imp_sorted)
    then have "sorted (map pe_Seq (filter P events))" by (rule sorted_filter)
    then show ?thesis by (simp add: sorted_wrt_take flip: take_map)
  qed
  then have k: "sort_key pe_Seq (take m (filter P events)) = take m (filter P events)" for P
    by (rule sort_key_id_if_sorted)
  show "servesStates (sampleServer m events)" by (simp add: servesStates_def sampleServer_def)
  show "servesObjects (sampleServer m events)" by (simp add: servesObjects_def sampleServer_def nonObjectState_def)
  show "pollsInOrder (sampleServer m events)" using s by (simp add: pollsInOrder_def sampleServer_def)
  show "servesNext (sampleServer m events) events"
    using k by (auto simp: servesNext_def sampleServer_def intro: exI [of _ "length events"] exI [of _ m])
  show "0 < m \<Longrightarrow> servesSome (sampleServer m events) events" by (auto simp: servesSome_def sampleServer_def)
qed

text \<open>A handler that adds the name of the event to the state.\<close>

definition sampleConfig :: "string \<Rightarrow> projection_config" where
  "sampleConfig mode =
     \<lparr> pr_Name = ''orders'', pr_Events = [''order.*''], pr_Mode = mode,
       pr_Handler = (\<lambda>st ev cx. Inr (StObj ((pj_Name ev, JNull) # (case st of StObj kvs \<Rightarrow> kvs | _ \<Rightarrow> [])))),
       pr_InitialState = None, pr_PartitionKey = [], pr_MaxRetries = 3, pr_BatchSize = 2 \<rparr>"

definition sampleEvents :: "poll_event list" where
  "sampleEvents = [sampleEvent ''a'' 1 ''x'', sampleEvent ''b'' 2 [], sampleEvent ''c'' 3 ''x'']"

definition calm :: fates where
  "calm = \<lparr> fa_request = (\<lambda>_. Served), fa_lost = (\<lambda>_. False), fa_work = (\<lambda>_. None), fa_handler = (\<lambda>_. None) \<rparr>"

definition sampleTime :: time_readers where
  "sampleTime = \<lparr> tm_duration = (\<lambda>_. None), tm_until = (\<lambda>_. None), tm_seconds = (\<lambda>_. 0) \<rparr>"

text \<open>The first save takes effect and its reply is lost; a stream reads the rest.\<close>

definition sampleRounds :: "(round \<times> fates) list" where
  "sampleRounds = [(Poll, calm \<lparr> fa_request := (\<lambda>n. if n = 2 then ReplyLost (ENew ''EOF'') else Served) \<rparr>),
     (Stream [PickFrame, PickOther SelFlush], calm), (Stream [PickFrame, PickFrame], calm \<lparr> fa_request := (\<lambda>_. Dies) \<rparr>)]"

lemma sample_ok:
  "orderedLog sampleEvents" "keepsState (sampleConfig m)" "reducesAll (sampleConfig m)" "smooth calm"
  "managedContract (sampleConfig ''managed'') (sampleServer 2 sampleEvents) sampleEvents"
  "externalContract (sampleConfig ''external'') (sampleServer 2 sampleEvents) sampleEvents"
proof -
  show o: "orderedLog sampleEvents" by (simp add: orderedLog_def sampleEvents_def sampleEvent_def)
  show "keepsState (sampleConfig m)" for m by (simp add: keepsState_def sampleConfig_def)
  then show "managedContract (sampleConfig ''managed'') (sampleServer 2 sampleEvents) sampleEvents"
    using o sampleServer_serves [OF o] by (simp add: managedContract_def) (simp add: sampleConfig_def)
  show "externalContract (sampleConfig ''external'') (sampleServer 2 sampleEvents) sampleEvents"
    using o sampleServer_serves [OF o] by (simp add: externalContract_def) (simp add: sampleConfig_def)
qed (simp_all add: reducesAll_def sampleConfig_def smooth_def calm_def)



theorem external_projection_delivers_witness:
  "list_all (\<lambda>e. toProjectionEvent e \<in> set (pw_handled (deliver sampleTime (sampleConfig ''external'')
      (sampleServer 2 sampleEvents) [(Poll, calm)])))
    (filter (\<lambda>e. pe_Seq e \<le> cursorOf (pw_accepted (deliver sampleTime (sampleConfig ''external'')
      (sampleServer 2 sampleEvents) [(Poll, calm)]))) sampleEvents) \<and>
   cursorOf (pw_accepted (deliver sampleTime (sampleConfig ''external'') (sampleServer 2 sampleEvents) [(Poll, calm)])) = 2"
  using external_projection_delivers [OF sample_ok(6), where tm = sampleTime and rounds = "[(Poll, calm)]"]
  by (rule conjI) code_simp


theorem lost_lease_changes_nothing_witness:
  "fst (execBatch (sampleServer 2 sampleEvents) (calm \<lparr> fa_lost := (\<lambda>_. True) \<rparr>)
      (pollBatch (sampleConfig ''external'') sampleEvents (ps_get (sampleServer 2 sampleEvents) [] globalKey) PRet) 0 freshWorld) =
    freshWorld"
  using lost_lease_changes_nothing [of "calm \<lparr> fa_lost := (\<lambda>_. True) \<rparr>"] by simp

section \<open>A state that is emptied\<close>

text \<open>A saved \<open>{}\<close> counts as no state, but within a batch it is kept. So a handler that empties the state ends in a
  different state when its events come in one batch than when they come in two.\<close>

definition resetConfig :: projection_config where
  "resetConfig = sampleConfig ''managed'' \<lparr>
     pr_Handler := (\<lambda>st ev cx. Inr (if pj_Name ev = ''reset'' then StObj [] else st)),
     pr_InitialState := Some (StObj [(''n'', JNum ''1'')]) \<rparr>"

definition resetEvents :: "poll_event list" where
  "resetEvents = [sampleEvent ''reset'' 1 [], sampleEvent ''touch'' 2 []]"

theorem emptied_state_depends_on_batches:
  "savedState (pw_accepted (deliver sampleTime resetConfig (sampleServer 2 resetEvents) [(Poll, calm)])) globalKey
     = StObj [] \<and>
   savedState (pw_accepted (deliver sampleTime resetConfig (sampleServer 1 resetEvents) [(Poll, calm), (Poll, calm)])) globalKey
     = StObj [(''n'', JNum ''1'')]"
  by code_simp

end
