(* ===== verification/Projection_Runner.thy ===== *)
theory Projection_Runner
  imports Projection_Delivery Machine
begin

text \<open>
  The goroutines of a projection runner (\<^verbatim>\<open>src/ironflow/projection_runner.go\<close>): \<open>run\<close> with its register loop,
  the wait for the lease, the stream and poll loops, and the renewal beside them, as a machine whose actions are
  the answers of the server, the timers and \<open>Stop\<close>. What a read does with its events is in \<open>Projection_Batch\<close>.
\<close>

section \<open>Decisions of the loops\<close>

abbreviation authFailure :: "goerr \<Rightarrow> bool" where
  "authFailure e \<equiv> errorsIs ErrUnauthorized e \<or> errorsIs ErrForbidden e"

text \<open>Either a loop returns, or it goes on with its counter (failures, or the backoff) and sleeps first.\<close>

datatype loop_next = Return "goerr option" | Again int int

definition streamNext :: "bool \<Rightarrow> int \<Rightarrow> bool \<Rightarrow> bool \<Rightarrow> goerr option \<Rightarrow> loop_next" where
  "streamNext stopped failures received progressed err =
     (if stopped then Return None
      else case err of
        None \<Rightarrow> Again 0 second
      | Some e \<Rightarrow>
          (if errorsIs ErrProjectionLeaseLost e then Return err
           else if errorsIs ErrStreamingUnsupported e \<or> authFailure e then Return err
           else
             let failures0 = (if progressed \<or> received \<and> \<not> errorsIs ErrProjectionBatch e then 0 else failures)
             in Again (failures0 + 1) (reconnectDelay (failures0 + 1))))"

definition projectionMinBackoff :: int where "projectionMinBackoff = second"
definition projectionMaxBackoff :: int where "projectionMaxBackoff = 10 * second"

definition minDuration :: "int \<Rightarrow> int \<Rightarrow> int" where
  "minDuration a b = (if a < b then a else b)"

definition pollNext :: "bool \<Rightarrow> int \<Rightarrow> goerr + int \<Rightarrow> loop_next" where
  "pollNext stopped backoff r =
     (if stopped then Return None
      else case r of
        Inl e \<Rightarrow>
          (if authFailure e \<or> errorsIs ErrProjectionLeaseLost e then Return (Some e)
           else Again (minDuration (backoff * 2) projectionMaxBackoff) backoff)
      | Inr processed \<Rightarrow>
          (if processed > 0 then Again projectionMinBackoff 0
           else Again (minDuration (backoff * 2) projectionMaxBackoff) backoff))"

type_synonym lease = "string \<times> int"

text \<open>An answer of \<open>AcquireProjectionLease\<close>: granted, the lease, the TTL.\<close>

record acquire_resp =
  aq_Granted :: bool
  aq_Lease :: lease
  aq_TTL :: string

datatype acquire_next = AcquireFailed goerr | AcquireGranted lease int | AcquireAgain

definition leaseTTL :: "time_readers \<Rightarrow> string \<Rightarrow> int" where
  "leaseTTL tm s = (case tm_duration tm s of Some d \<Rightarrow> if d \<le> 0 then 30 * second else d | None \<Rightarrow> 30 * second)"

definition acquireNext :: "time_readers \<Rightarrow> goerr + acquire_resp \<Rightarrow> acquire_next" where
  "acquireNext tm r =
     (case r of
        Inl e \<Rightarrow>
          (if errorsIs ErrProjectionUnimplemented e
           then AcquireFailed (newServerTooOld ''AcquireProjectionLease'' ''0.44.0'' ''upgrade the server'' (Some e))
           else if authFailure e then AcquireFailed e
           else AcquireAgain)
      | Inr resp \<Rightarrow> if aq_Granted resp then AcquireGranted (aq_Lease resp) (leaseTTL tm (aq_TTL resp)) else AcquireAgain)"

section \<open>The machine\<close>

text \<open>The renewal goroutine: not started, waiting with the TTL, the wait and the failures, in a call, or ended.\<close>

datatype renewal = RenewNone | RenewWait int int int | RenewCall int int | RenewDone

text \<open>Where \<open>run\<close> is. \<open>Top\<close> phases are at a loop's head, \<open>Call\<close> phases wait for an answer, \<open>Sleep\<close> phases for a
  timer.\<close>

datatype runner_phase =
    RegisterTop int goerr
  | RegisterSleep int int
  | RegisterCall int
  | AcquireTop
  | AcquireCall
  | AcquireSleep
  | Acquired int
  | StreamTop int
  | StreamCall int
  | StreamSleep int int
  | PollTop int
  | PollCall int
  | PollSleep int int
  | RenewStop "goerr option"
  | ReleaseCall
  | Exited

datatype prequest =
    RqRegister
  | RqAcquire
  | RqRenew lease
  | RqRelease lease
  | RqStream "lease option" int
  | RqPoll "lease option" int

record runner =
  rn_phase :: runner_phase
  rn_lease :: "lease option"
  rn_lost :: bool
  rn_stopped :: bool
  rn_polling :: bool
  rn_renewal :: renewal
  rn_cancelled :: bool
  rn_sent :: "prequest list"

datatype raction =
    StopRunner
  | Advance
  | Wake
  | RegisterAnswer "goerr option"
  | AcquireAnswer "goerr + acquire_resp"
  | StreamAnswer bool bool "goerr option"
  | PollAnswer "goerr + int"
  | ReleaseAnswer
  | RenewTimer
  | RenewAnswer "goerr option" string
  | RenewCancelled

definition send :: "prequest \<Rightarrow> runner_phase \<Rightarrow> runner \<Rightarrow> runner" where
  "send rq ph r = r \<lparr> rn_sent := rn_sent r @ [rq], rn_phase := ph \<rparr>"

text \<open>\<open>releaseLease\<close> and the return of \<open>run\<close>.\<close>

definition releaseLease :: "runner \<Rightarrow> runner" where
  "releaseLease r = (case rn_lease r of None \<Rightarrow> r \<lparr> rn_phase := Exited \<rparr> | Some l \<Rightarrow> send (RqRelease l) ReleaseCall r)"

text \<open>\<open>startRenew\<close>.\<close>

definition startRenew :: "int \<Rightarrow> runner \<Rightarrow> runner" where
  "startRenew ttl r =
     (if rn_lease r = None then r
      else r \<lparr> rn_lost := False, rn_cancelled := False, rn_renewal := RenewWait ttl (ttl div 3) 0 \<rparr>)"

text \<open>The head of the loop that reads, and what \<open>run\<close> does when it returned: the fall back to polling, the end of the renewal.\<close>

definition enterRead :: "runner \<Rightarrow> runner" where
  "enterRead r = r \<lparr> rn_phase := (if rn_polling r then PollTop projectionMinBackoff else StreamTop 0) \<rparr>"

definition stopRenewal :: "goerr option \<Rightarrow> runner \<Rightarrow> runner" where
  "stopRenewal err r = r \<lparr> rn_cancelled := True, rn_phase := RenewStop err \<rparr>"

definition streamReturned :: "goerr option \<Rightarrow> runner \<Rightarrow> runner" where
  "streamReturned err r =
     (if (case err of None \<Rightarrow> False | Some e \<Rightarrow> errorsIs ErrStreamingUnsupported e)
      then enterRead (r \<lparr> rn_polling := True \<rparr>)
      else stopRenewal err r)"

text \<open>After the renewal has ended: stand by when the lease is lost and nobody stopped the runner, else release.\<close>

definition afterRead :: "goerr option \<Rightarrow> runner \<Rightarrow> runner" where
  "afterRead err r =
     (if (case err of None \<Rightarrow> False | Some e \<Rightarrow> errorsIs ErrProjectionLeaseLost e) \<and> rn_lease r \<noteq> None \<and> \<not> rn_stopped r
      then r \<lparr> rn_phase := AcquireTop, rn_lease := None, rn_lost := False \<rparr>
      else releaseLease r)"

fun advance :: "projection_config \<Rightarrow> runner \<Rightarrow> runner option" where
  "advance config r =
     (case rn_phase r of
        RegisterTop failures err \<Rightarrow>
          Some (if rn_stopped r \<or> registerFatal (Some err) then r \<lparr> rn_phase := Exited \<rparr>
                else r \<lparr> rn_phase := RegisterSleep failures (reconnectDelay failures) \<rparr>)
      | AcquireTop \<Rightarrow>
          Some (if rn_stopped r then r \<lparr> rn_phase := Acquired 0 \<rparr> else send RqAcquire AcquireCall r)
      | Acquired ttl \<Rightarrow> Some (if rn_stopped r then releaseLease r else enterRead (startRenew ttl r))
      | StreamTop failures \<Rightarrow>
          Some (if rn_lost r then streamReturned (Some (ESentinel ErrProjectionLeaseLost)) r
                else send (RqStream (rn_lease r) (batchSize config)) (StreamCall failures) r)
      | PollTop backoff \<Rightarrow>
          Some (if rn_stopped r then stopRenewal None r
                else if rn_lost r then stopRenewal (Some (ESentinel ErrProjectionLeaseLost)) r
                else send (RqPoll (rn_lease r) (batchSize config)) (PollCall backoff) r)
      | RenewStop err \<Rightarrow> (case rn_renewal r of RenewWait _ _ _ \<Rightarrow> None | RenewCall _ _ \<Rightarrow> None | _ \<Rightarrow> Some (afterRead err r))
      | _ \<Rightarrow> None)"

fun wake :: "runner \<Rightarrow> runner option" where
  "wake r =
     (case rn_phase r of
        RegisterSleep failures delay \<Rightarrow> Some (send RqRegister (RegisterCall failures) r)
      | AcquireSleep \<Rightarrow> Some (r \<lparr> rn_phase := AcquireTop \<rparr>)
      | StreamSleep failures delay \<Rightarrow> Some (r \<lparr> rn_phase := StreamTop failures \<rparr>)
      | PollSleep backoff delay \<Rightarrow> Some (r \<lparr> rn_phase := PollTop backoff \<rparr>)
      | _ \<Rightarrow> None)"

fun registerAnswer :: "goerr option \<Rightarrow> runner \<Rightarrow> runner option" where
  "registerAnswer err r =
     (case rn_phase r of
        RegisterCall failures \<Rightarrow>
          Some (r \<lparr> rn_phase := (case err of None \<Rightarrow> AcquireTop | Some e \<Rightarrow> RegisterTop (failures + 1) e) \<rparr>)
      | _ \<Rightarrow> None)"

fun acquireAnswer :: "time_readers \<Rightarrow> goerr + acquire_resp \<Rightarrow> runner \<Rightarrow> runner option" where
  "acquireAnswer tm a r =
     (case rn_phase r of
        AcquireCall \<Rightarrow>
          (case acquireNext tm a of
             AcquireFailed e \<Rightarrow> Some (r \<lparr> rn_phase := Exited \<rparr>)
           | AcquireGranted l ttl \<Rightarrow> Some (r \<lparr> rn_lease := Some l, rn_phase := Acquired ttl \<rparr>)
           | AcquireAgain \<Rightarrow> Some (r \<lparr> rn_phase := AcquireSleep \<rparr>))
      | _ \<Rightarrow> None)"

fun streamAnswer :: "bool \<Rightarrow> bool \<Rightarrow> goerr option \<Rightarrow> runner \<Rightarrow> runner option" where
  "streamAnswer received progressed err r =
     (case rn_phase r of
        StreamCall failures \<Rightarrow>
          (case streamNext (rn_stopped r) failures received progressed err of
             Return e \<Rightarrow> Some (streamReturned e r)
           | Again failures' delay \<Rightarrow> Some (r \<lparr> rn_phase := StreamSleep failures' delay \<rparr>))
      | _ \<Rightarrow> None)"

fun pollAnswer :: "goerr + int \<Rightarrow> runner \<Rightarrow> runner option" where
  "pollAnswer a r =
     (case rn_phase r of
        PollCall backoff \<Rightarrow>
          (case pollNext (rn_stopped r) backoff a of
             Return e \<Rightarrow> Some (stopRenewal e r)
           | Again backoff' delay \<Rightarrow>
               Some (r \<lparr> rn_phase := (if delay = 0 then PollTop backoff' else PollSleep backoff' delay) \<rparr>))
      | _ \<Rightarrow> None)"

text \<open>The goroutine of \<open>startRenew\<close>: its timer, the answer of a renewal, and its end by \<open>stopRenew\<close>.\<close>

fun renewTimer :: "runner \<Rightarrow> runner option" where
  "renewTimer r =
     (case (rn_renewal r, rn_lease r) of
        (RenewWait ttl wait failed, Some l) \<Rightarrow>
          Some (r \<lparr> rn_sent := rn_sent r @ [RqRenew l], rn_renewal := RenewCall ttl failed \<rparr>)
      | _ \<Rightarrow> None)"

fun renewAnswer :: "time_readers \<Rightarrow> goerr option \<Rightarrow> string \<Rightarrow> runner \<Rightarrow> runner option" where
  "renewAnswer tm err t r =
     (case rn_renewal r of
        RenewCall ttl failed \<Rightarrow>
          (case err of
             None \<Rightarrow>
               let ttl' = (case tm_duration tm t of Some d \<Rightarrow> if d > 0 then d else ttl | None \<Rightarrow> ttl)
               in Some (r \<lparr> rn_renewal := RenewWait ttl' (ttl' div 3) 0 \<rparr>)
           | Some e \<Rightarrow>
               (if errorsIs ErrProjectionLeaseLost e then Some (r \<lparr> rn_lost := True, rn_renewal := RenewDone \<rparr>)
                else if rn_cancelled r then Some (r \<lparr> rn_renewal := RenewDone \<rparr>)
                else Some (r \<lparr> rn_renewal := RenewWait ttl second (failed + 1) \<rparr>)))
      | _ \<Rightarrow> None)"

fun renewCancelled :: "runner \<Rightarrow> runner option" where
  "renewCancelled r =
     (case rn_renewal r of
        RenewWait _ _ _ \<Rightarrow> if rn_cancelled r then Some (r \<lparr> rn_renewal := RenewDone \<rparr>) else None
      | _ \<Rightarrow> None)"

fun ract :: "time_readers \<Rightarrow> projection_config \<Rightarrow> raction \<Rightarrow> runner \<Rightarrow> runner option" where
  "ract tm config StopRunner r = Some (r \<lparr> rn_stopped := True \<rparr>)"
| "ract tm config Advance r = advance config r"
| "ract tm config Wake r = wake r"
| "ract tm config (RegisterAnswer err) r = registerAnswer err r"
| "ract tm config (AcquireAnswer a) r = acquireAnswer tm a r"
| "ract tm config (StreamAnswer rc pg err) r = streamAnswer rc pg err r"
| "ract tm config (PollAnswer a) r = pollAnswer a r"
| "ract tm config ReleaseAnswer r = (if rn_phase r = ReleaseCall then Some (r \<lparr> rn_phase := Exited \<rparr>) else None)"
| "ract tm config RenewTimer r = renewTimer r"
| "ract tm config (RenewAnswer err t) r = renewAnswer tm err t r"
| "ract tm config RenewCancelled r = renewCancelled r"

text \<open>\<open>Start\<close>: the first register is its own; an error that a retry cannot fix is returned and nothing runs.\<close>

definition StartRunner :: "projection_config \<Rightarrow> goerr option \<Rightarrow> goerr + runner" where
  "StartRunner config err =
     (if registerFatal err
      then Inl (case err of Some e \<Rightarrow> EWrap (''register projection '' @ quoted (pr_Name config) @ '': '' @ errorText e) [e]
                          | None \<Rightarrow> ENew [])
      else Inr \<lparr> rn_phase = (case err of None \<Rightarrow> AcquireTop | Some e \<Rightarrow> RegisterTop 1 e), rn_lease = None, rn_lost = False,
                 rn_stopped = False, rn_polling = False, rn_renewal = RenewNone, rn_cancelled = False,
                 rn_sent = [RqRegister] \<rparr>)"
section \<open>The lease\<close>

fun isReading :: "runner_phase \<Rightarrow> bool" where
  "isReading (StreamTop _) = True" | "isReading (StreamCall _) = True" | "isReading (StreamSleep _ _) = True"
| "isReading (PollTop _) = True" | "isReading (PollCall _) = True" | "isReading (PollSleep _ _) = True"
| "isReading _ = False"

fun isStreaming :: "runner_phase \<Rightarrow> bool" where
  "isStreaming (StreamTop _) = True" | "isStreaming (StreamCall _) = True" | "isStreaming (StreamSleep _ _) = True"
| "isStreaming _ = False"

fun isRenewing :: "renewal \<Rightarrow> bool" where
  "isRenewing (RenewWait _ _ _) = True" | "isRenewing (RenewCall _ _) = True" | "isRenewing _ = False"

fun isRelease :: "prequest \<Rightarrow> bool" where
  "isRelease (RqRelease _) = True" | "isRelease _ = False"

fun isStream :: "prequest \<Rightarrow> bool" where
  "isStream (RqStream _ _) = True" | "isStream _ = False"

fun isPoll :: "prequest \<Rightarrow> bool" where
  "isPoll (RqPoll _ _) = True" | "isPoll _ = False"

text \<open>A read carries a lease.\<close>

fun leased :: "prequest \<Rightarrow> bool" where
  "leased (RqStream l _) = (l \<noteq> None)" | "leased (RqPoll l _) = (l \<noteq> None)" | "leased _ = True"

text \<open>What holds in each phase of the lease, the renewal and the requests sent.\<close>

definition phaseOK :: "runner \<Rightarrow> bool" where
  "phaseOK r \<longleftrightarrow>
     (case rn_phase r of
        RenewStop _ \<Rightarrow> rn_lease r \<noteq> None \<and> rn_cancelled r
      | Acquired _ \<Rightarrow> (rn_lease r = None \<longrightarrow> rn_stopped r) \<and> \<not> isRenewing (rn_renewal r)
      | ReleaseCall \<Rightarrow> \<not> isRenewing (rn_renewal r) \<and> rn_sent r \<noteq> [] \<and> (\<exists>l. rn_lease r = Some l \<and> last (rn_sent r) = RqRelease l)
      | Exited \<Rightarrow> \<not> isRenewing (rn_renewal r) \<and>
          (rn_lease r = None \<or> rn_sent r \<noteq> [] \<and> (\<exists>l. rn_lease r = Some l \<and> last (rn_sent r) = RqRelease l))
      | ph \<Rightarrow> if isReading ph then rn_lease r \<noteq> None \<and> \<not> rn_cancelled r
             else rn_lease r = None \<and> \<not> isRenewing (rn_renewal r))"

definition sentOK :: "runner \<Rightarrow> bool" where
  "sentOK r \<longleftrightarrow>
     list_all leased (rn_sent r) \<and>
     list_all (\<lambda>q. \<not> isRelease q) (if rn_phase r = ReleaseCall \<or> rn_phase r = Exited then butlast (rn_sent r) else rn_sent r)"

definition modeOK :: "runner \<Rightarrow> bool" where
  "modeOK r \<longleftrightarrow>
     (rn_polling r \<longrightarrow> \<not> isStreaming (rn_phase r)) \<and> (\<not> rn_polling r \<longrightarrow> list_all (\<lambda>q. \<not> isPoll q) (rn_sent r)) \<and>
     (\<not> rn_polling r \<longrightarrow> isReading (rn_phase r) \<longrightarrow> isStreaming (rn_phase r)) \<and>
     list_all (\<lambda>q. \<not> isStream q) (dropWhile (\<lambda>q. \<not> isPoll q) (rn_sent r))"

lemmas move_defs = send_def releaseLease_def startRenew_def enterRead_def stopRenewal_def streamReturned_def afterRead_def

lemma butlast_all: "list_all P xs \<Longrightarrow> list_all P (butlast xs)"
  by (meson in_set_butlastD list_all_iff)

lemma phaseOK_step: "ract tm config a r = Some r' \<Longrightarrow> phaseOK r \<Longrightarrow> phaseOK r'"
  by (cases a; cases "rn_phase r")
    (auto simp: phaseOK_def move_defs Let_def
      split: if_splits option.splits renewal.splits acquire_next.splits loop_next.splits)

abbreviation ended :: "runner \<Rightarrow> bool" where
  "ended r \<equiv> rn_phase r = ReleaseCall \<or> rn_phase r = Exited"

text \<open>What a step sends.\<close>

lemma step_sends:
  assumes "ract tm config a r = Some r'" "phaseOK r"
  shows "rn_sent r' = rn_sent r \<and> (ended r \<longrightarrow> ended r') \<or>
    (\<exists>q. rn_sent r' = rn_sent r @ [q] \<and> leased q \<and> \<not> ended r \<and> (isRelease q \<longleftrightarrow> ended r'))"
  using assms
  by (cases a; cases "rn_phase r")
    (auto simp: phaseOK_def move_defs Let_def
      split: if_splits option.splits renewal.splits acquire_next.splits loop_next.splits)

lemma sentOK_step:
  assumes "ract tm config a r = Some r'" "phaseOK r" "sentOK r"
  shows "sentOK r'"
  using step_sends [OF assms(1,2)] assms(3)
  by (elim disjE exE) (auto simp: sentOK_def butlast_all split: if_splits)

lemma modeOK_send: "list_all (\<lambda>q. \<not> isStream q) (dropWhile (\<lambda>q. \<not> isPoll q) xs) \<Longrightarrow>
    \<not> isStream q \<or> list_all (\<lambda>q. \<not> isPoll q) xs \<Longrightarrow>
    list_all (\<lambda>q. \<not> isStream q) (dropWhile (\<lambda>q. \<not> isPoll q) (xs @ [q]))"
  by (cases q; induction xs) auto

abbreviation modePhase :: "runner \<Rightarrow> bool" where
  "modePhase r \<equiv> (if rn_polling r then \<not> isStreaming (rn_phase r) else isReading (rn_phase r) \<longrightarrow> isStreaming (rn_phase r))"

lemma step_modePhase: "ract tm config a r = Some r' \<Longrightarrow> modePhase r \<Longrightarrow> modePhase r' \<and> (rn_polling r \<longrightarrow> rn_polling r')"
  by (cases a; cases "rn_phase r")
    (auto simp: move_defs Let_def split: if_splits option.splits renewal.splits acquire_next.splits loop_next.splits)

lemma step_read:
  assumes "ract tm config a r = Some r'" "modePhase r"
  shows "rn_sent r' = rn_sent r \<or>
    (\<exists>q. rn_sent r' = rn_sent r @ [q] \<and> (isStream q \<longrightarrow> \<not> rn_polling r) \<and> (isPoll q \<longrightarrow> rn_polling r'))"
  using assms
  by (cases a; cases "rn_phase r")
    (auto simp: move_defs Let_def split: if_splits option.splits renewal.splits acquire_next.splits loop_next.splits)

lemma modeOK_step:
  assumes "ract tm config a r = Some r'" "modeOK r"
  shows "modeOK r'"
proof -
  from assms(2) have m: "modePhase r" by (simp add: modeOK_def)
  have m': "modePhase r'" "rn_polling r \<Longrightarrow> rn_polling r'" using step_modePhase [OF assms(1) m] by blast+
  have p: "(\<not> rn_polling r' \<longrightarrow> list_all (\<lambda>q. \<not> isPoll q) (rn_sent r')) \<and>
      list_all (\<lambda>q. \<not> isStream q) (dropWhile (\<lambda>q. \<not> isPoll q) (rn_sent r'))"
    using step_read [OF assms(1) m]
  proof (elim disjE exE conjE)
    assume "rn_sent r' = rn_sent r"
    with assms(2) m'(2) show ?thesis by (auto simp: modeOK_def)
  next
    fix q
    assume q: "rn_sent r' = rn_sent r @ [q]" "isStream q \<longrightarrow> \<not> rn_polling r" "isPoll q \<longrightarrow> rn_polling r'"
    have "list_all (\<lambda>q. \<not> isStream q) (dropWhile (\<lambda>q. \<not> isPoll q) (rn_sent r @ [q]))"
      by (rule modeOK_send) (use assms(2) q(2) in \<open>auto simp: modeOK_def\<close>)
    with assms(2) m'(2) q show ?thesis by (auto simp: modeOK_def)
  qed
  with m'(1) show ?thesis by (simp add: modeOK_def split: if_splits)
qed

interpretation lease_held: step_invariant "ract tm config" "\<lambda>r. phaseOK r \<and> sentOK r \<and> modeOK r" for tm config
  by unfold_locales (auto intro: phaseOK_step sentOK_step modeOK_step)

text \<open>The states of a runner that \<open>Start\<close> started.\<close>

definition runnerReaches :: "time_readers \<Rightarrow> projection_config \<Rightarrow> runner \<Rightarrow> bool" where
  "runnerReaches tm config r \<longleftrightarrow> (\<exists>err r0. StartRunner config err = Inr r0 \<and> reaches (ract tm config) r0 r)"

lemma started_ok: "StartRunner config err = Inr r0 \<Longrightarrow> phaseOK r0 \<and> sentOK r0 \<and> modeOK r0"
  by (auto simp: StartRunner_def phaseOK_def sentOK_def modeOK_def split: if_splits option.splits)

lemma runner_ok: "runnerReaches tm config r \<Longrightarrow> phaseOK r \<and> sentOK r \<and> modeOK r"
  unfolding runnerReaches_def using started_ok lease_held.reached_keep by blast

text \<open>C13. The runner reads only under its lease, and gives the lease back: every stream and poll it sends carries a lease,
  it holds one whenever it reads, no request follows a release, and when it has ended with a lease its last request
  released that lease and no renewal is left.\<close>

theorem reads_under_lease:
  assumes "runnerReaches tm config r"
  shows "list_all leased (rn_sent r) \<and> list_all (\<lambda>q. \<not> isRelease q) (butlast (rn_sent r)) \<and>
    (isReading (rn_phase r) \<longrightarrow> rn_lease r \<noteq> None) \<and>
    (rn_phase r = Exited \<longrightarrow> \<not> isRenewing (rn_renewal r) \<and>
       (rn_lease r = None \<or> (\<exists>l. rn_lease r = Some l \<and> last (rn_sent r) = RqRelease l)))"
proof -
  from runner_ok [OF assms] have ok: "phaseOK r" "sentOK r" by simp_all
  from ok(2) have "list_all leased (rn_sent r) \<and> list_all (\<lambda>q. \<not> isRelease q) (butlast (rn_sent r))"
    by (auto simp: sentOK_def butlast_all split: if_splits)
  moreover from ok(1) have "isReading (rn_phase r) \<longrightarrow> rn_lease r \<noteq> None"
    by (cases "rn_phase r") (simp_all add: phaseOK_def)
  moreover from ok(1) have "rn_phase r = Exited \<longrightarrow> \<not> isRenewing (rn_renewal r) \<and>
      (rn_lease r = None \<or> (\<exists>l. rn_lease r = Some l \<and> last (rn_sent r) = RqRelease l))"
    by (auto simp: phaseOK_def)
  ultimately show ?thesis by blast
qed

text \<open>The fall back to polling is final: after its first poll the runner never opens a stream again, also not under a
  later lease.\<close>

theorem polling_is_final:
  assumes "runnerReaches tm config r"
  shows "list_all (\<lambda>q. \<not> isStream q) (dropWhile (\<lambda>q. \<not> isPoll q) (rn_sent r))"
  using runner_ok [OF assms] by (simp add: modeOK_def)

section \<open>Stop\<close>

fun exitRank :: "runner_phase \<Rightarrow> nat" where
  "exitRank Exited = 0" | "exitRank ReleaseCall = 1" | "exitRank (RenewStop _) = 2" | "exitRank (PollTop _) = 3"
| "exitRank (PollCall _) = 3" | "exitRank (PollSleep _ _) = 4" | "exitRank (StreamCall _) = 3"
| "exitRank (StreamTop _) = 4" | "exitRank (StreamSleep _ _) = 5" | "exitRank (Acquired _) = 2"
| "exitRank AcquireTop = 3" | "exitRank AcquireSleep = 4" | "exitRank AcquireCall = 5"
| "exitRank (RegisterTop _ _) = 1" | "exitRank (RegisterCall _) = 4" | "exitRank (RegisterSleep _ _) = 5"

text \<open>The actions of \<open>run\<close> itself, and those it waits for in the renewal.\<close>

fun runnerMoves :: "raction \<Rightarrow> bool" where
  "runnerMoves StopRunner = False" | "runnerMoves RenewTimer = False" | "runnerMoves (RenewAnswer _ _) = False"
| "runnerMoves RenewCancelled = False" | "runnerMoves _ = True"

interpretation stopping_runner: step_rank "ract tm config" "\<lambda>r. phaseOK r \<and> rn_stopped r" runnerMoves "\<lambda>r. exitRank (rn_phase r)"
  for tm config
proof
  fix a r r'
  assume step: "ract tm config a r = Some r'"
  have stays: "rn_stopped r'" if "rn_stopped r"
    using step that
    by (cases a; cases "rn_phase r")
      (auto simp: move_defs Let_def split: if_splits option.splits renewal.splits acquire_next.splits loop_next.splits)
  show "phaseOK r \<and> rn_stopped r \<Longrightarrow> phaseOK r' \<and> rn_stopped r'" using step stays phaseOK_step by blast
  show "exitRank (rn_phase r') < exitRank (rn_phase r)" if "phaseOK r \<and> rn_stopped r" "runnerMoves a"
    using step that
    by (cases a; cases "rn_phase r")
      (auto simp: move_defs Let_def streamNext_def pollNext_def
        split: if_splits option.splits renewal.splits acquire_next.splits loop_next.splits)
  show "exitRank (rn_phase r') \<le> exitRank (rn_phase r)" if "phaseOK r \<and> rn_stopped r" "\<not> runnerMoves a"
    using step that
    by (cases a) (auto simp: Let_def split: if_splits option.splits renewal.splits prod.splits)
qed

lemma exitRank_le: "exitRank ph \<le> 5"
  by (cases ph) simp_all

lemma runner_enabled:
  assumes "phaseOK r" "rn_phase r \<noteq> Exited"
  shows "\<exists>a. a \<noteq> StopRunner \<and> ract tm config a r \<noteq> None"
proof (cases "rn_phase r")
  case (RenewStop err)
  with assms(1) have c: "rn_cancelled r" by (simp add: phaseOK_def)
  show ?thesis
  proof (cases "rn_renewal r")
    case (RenewWait t w f)
    with c show ?thesis by (intro exI [of _ RenewCancelled]) simp
  next
    case (RenewCall t f)
    then show ?thesis by (intro exI [of _ "RenewAnswer None []"]) (simp add: Let_def)
  qed (use RenewStop in \<open>auto intro!: exI [of _ Advance]\<close>)
next
  case (RegisterCall f)
  then show ?thesis by (intro exI [of _ "RegisterAnswer None"]) simp
next
  case AcquireCall
  then show ?thesis by (intro exI [of _ "AcquireAnswer (Inl ECanceled)"]) (simp split: acquire_next.splits)
next
  case (StreamCall f)
  then show ?thesis by (intro exI [of _ "StreamAnswer False False None"]) (simp split: loop_next.splits)
next
  case (PollCall b)
  then show ?thesis by (intro exI [of _ "PollAnswer (Inr 0)"]) (simp split: loop_next.splits)
next
  case ReleaseCall
  then show ?thesis by (intro exI [of _ ReleaseAnswer]) simp
next
  case (RegisterSleep f d)
  then show ?thesis by (intro exI [of _ Wake]) simp
next
  case AcquireSleep
  then show ?thesis by (intro exI [of _ Wake]) simp
next
  case (StreamSleep f d)
  then show ?thesis by (intro exI [of _ Wake]) simp
next
  case (PollSleep b d)
  then show ?thesis by (intro exI [of _ Wake]) simp
qed (use assms(2) in \<open>auto intro!: exI [of _ Advance]\<close>)

text \<open>\<open>run\<close> ends after \<open>Stop\<close>: from then on it takes at most five steps of its own, and until it has ended, it or the
  renewal it waits for can take one.\<close>

theorem runner_ends_after_stop:
  assumes "runnerReaches tm config r" "rn_stopped r" "runSteps (ract tm config) as r = Some r'"
  shows "length (filter runnerMoves as) \<le> 5 \<and>
    (rn_phase r' = Exited \<or> (\<exists>a. a \<noteq> StopRunner \<and> ract tm config a r' \<noteq> None))"
proof -
  from runner_ok [OF assms(1)] assms(2) have i: "phaseOK r \<and> rn_stopped r" by simp
  have "exitRank (rn_phase r') + length (filter runnerMoves as) \<le> exitRank (rn_phase r)"
    by (rule stopping_runner.moves_bounded [OF i assms(3)])
  with exitRank_le [of "rn_phase r"] have "length (filter runnerMoves as) \<le> 5" by linarith
  moreover have "phaseOK r'" using stopping_runner.runs_keep [OF assms(3) i] by simp
  ultimately show ?thesis using runner_enabled by blast
qed

section \<open>Waits\<close>

lemma reconnectDelay_bounds: "1 \<le> failures \<Longrightarrow> 2 * second \<le> reconnectDelay failures \<and> reconnectDelay failures \<le> 30 * second"
proof -
  assume "1 \<le> failures"
  have "(1::int) \<le> 2 ^ nat (min (failures - 1) 4)" by simp
  then show ?thesis by (simp add: reconnectDelay_def second_def)
qed

lemma reconnectDelay_ladder:
  "map reconnectDelay [1, 2, 3, 4, 5, 6] = map (\<lambda>n. n * second) [2, 4, 8, 16, 30, 30]"
  by (simp add: reconnectDelay_def second_def)

text \<open>The sleeps and counters of a phase.\<close>

fun waitsOK :: "runner_phase \<Rightarrow> bool" where
  "waitsOK (RegisterTop failures _) = (1 \<le> failures)"
| "waitsOK (RegisterSleep failures delay) = (1 \<le> failures \<and> 2 * second \<le> delay \<and> delay \<le> 30 * second)"
| "waitsOK (RegisterCall failures) = (1 \<le> failures)"
| "waitsOK (StreamTop failures) = (0 \<le> failures)"
| "waitsOK (StreamCall failures) = (0 \<le> failures)"
| "waitsOK (StreamSleep failures delay) = (0 \<le> failures \<and> second \<le> delay \<and> delay \<le> 30 * second)"
| "waitsOK (PollTop backoff) = (second \<le> backoff \<and> backoff \<le> 10 * second)"
| "waitsOK (PollCall backoff) = (second \<le> backoff \<and> backoff \<le> 10 * second)"
| "waitsOK (PollSleep backoff delay) =
     (second \<le> backoff \<and> backoff \<le> 10 * second \<and> second \<le> delay \<and> delay \<le> 10 * second)"
| "waitsOK _ = True"

lemma streamNext_waits:
  "0 \<le> failures \<Longrightarrow> streamNext st failures rc pg err = Again f d \<Longrightarrow> waitsOK (StreamSleep f d)"
  using reconnectDelay_bounds [of 1] reconnectDelay_bounds [of "failures + 1"]
  by (auto simp: streamNext_def Let_def second_def split: if_splits option.splits)

lemma pollNext_waits:
  "second \<le> b \<Longrightarrow> b \<le> 10 * second \<Longrightarrow> pollNext st b a = Again b' d \<Longrightarrow>
    waitsOK (PollTop b') \<and> (d \<noteq> 0 \<longrightarrow> waitsOK (PollSleep b' d))"
  by (auto simp: pollNext_def minDuration_def projectionMaxBackoff_def projectionMinBackoff_def second_def
      split: if_splits sum.splits)

lemma waitsOK_step: "ract tm config a r = Some r' \<Longrightarrow> waitsOK (rn_phase r) \<Longrightarrow> waitsOK (rn_phase r')"
proof -
  assume step: "ract tm config a r = Some r'" and ok: "waitsOK (rn_phase r)"
  have entry: "waitsOK (rn_phase (enterRead t))" for t
    by (simp add: enterRead_def projectionMinBackoff_def second_def)
  have leave: "waitsOK (rn_phase (stopRenewal e t))" "waitsOK (rn_phase (releaseLease t))" "waitsOK (rn_phase (afterRead e t))"
    "waitsOK (rn_phase (streamReturned e t))" for e t
    using entry by (simp_all add: stopRenewal_def releaseLease_def afterRead_def streamReturned_def send_def split: option.splits)
  show ?thesis
  proof (cases a)
    case Advance
    with step ok reconnectDelay_bounds show ?thesis
      by (cases "rn_phase r") (auto simp: entry leave send_def split: if_splits renewal.splits)
  next
    case (StreamAnswer rc pg err)
    with step obtain f where f: "rn_phase r = StreamCall f" by (auto split: runner_phase.splits)
    show ?thesis
    proof (cases "streamNext (rn_stopped r) f rc pg err")
      case (Again f' d)
      with streamNext_waits ok f have "waitsOK (StreamSleep f' d)" by (metis waitsOK.simps(5))
      with Again step StreamAnswer f show ?thesis by auto
    qed (use step StreamAnswer f leave in auto)
  next
    case (PollAnswer b)
    with step obtain w where w: "rn_phase r = PollCall w" by (auto split: runner_phase.splits)
    show ?thesis
    proof (cases "pollNext (rn_stopped r) w b")
      case (Again w' d)
      with pollNext_waits ok w have "waitsOK (PollTop w') \<and> (d \<noteq> 0 \<longrightarrow> waitsOK (PollSleep w' d))"
        by (metis waitsOK.simps(8))
      with Again step PollAnswer w show ?thesis by auto
    qed (use step PollAnswer w leave in auto)
  next
    case Wake
    with step ok show ?thesis by (cases "rn_phase r") (auto simp: send_def)
  next
    case (RegisterAnswer err)
    with step ok show ?thesis by (cases "rn_phase r") (auto split: option.splits)
  next
    case (AcquireAnswer b)
    with step ok show ?thesis by (cases "rn_phase r") (auto split: acquire_next.splits)
  qed (use step ok in \<open>auto simp: Let_def split: if_splits renewal.splits option.splits prod.splits\<close>)
qed

interpretation waits: step_invariant "ract tm config" "\<lambda>r. waitsOK (rn_phase r)" for tm config
  by unfold_locales (rule waitsOK_step)

text \<open>Every sleep of the runner is bounded: 2 to 30 seconds after a failed register, 1 to 30 after a stream, 1 to 10
  between polls.\<close>

theorem runner_waits_bounded:
  assumes "runnerReaches tm config r"
  shows "waitsOK (rn_phase r)"
proof -
  from assms obtain err r0 where r0: "StartRunner config err = Inr r0" "reaches (ract tm config) r0 r"
    unfolding runnerReaches_def by blast
  have "waitsOK (rn_phase r0)" using r0(1) by (auto simp: StartRunner_def split: if_splits option.splits)
  with r0(2) show ?thesis by (rule waits.reached_keep)
qed

section \<open>An example\<close>

text \<open>A runner that takes the lease, falls back to polling, loses the lease, takes it again and is stopped.\<close>

definition sampleActs :: "raction list" where
  "sampleActs =
     [Advance, AcquireAnswer (Inr \<lparr> aq_Granted = True, aq_Lease = (''t'', 1), aq_TTL = [] \<rparr>), Advance,
      Advance, StreamAnswer False False (Some (ESentinel ErrStreamingUnsupported)), Advance, RenewTimer, PollAnswer (Inr 0),
      RenewAnswer (Some (ESentinel ErrProjectionLeaseLost)) [], Wake, Advance, Advance, Advance,
      AcquireAnswer (Inr \<lparr> aq_Granted = True, aq_Lease = (''t'', 2), aq_TTL = [] \<rparr>), Advance, Advance, StopRunner]"

definition sampleStart :: runner where
  "sampleStart = \<lparr> rn_phase = AcquireTop, rn_lease = None, rn_lost = False, rn_stopped = False, rn_polling = False,
     rn_renewal = RenewNone, rn_cancelled = False, rn_sent = [RqRegister] \<rparr>"

abbreviation sampleRun :: "raction list \<Rightarrow> runner" where
  "sampleRun as \<equiv> the (runSteps (ract sampleTime (sampleConfig ''managed'')) as sampleStart)"

abbreviation sampleExit :: "raction list" where
  "sampleExit \<equiv> [PollAnswer (Inl ECanceled), RenewCancelled, Advance, ReleaseAnswer]"

lemma sample_start: "StartRunner (sampleConfig ''managed'') None = Inr sampleStart"
  by (simp add: StartRunner_def registerFatal_def sampleStart_def)

lemma sample_runs:
  "runSteps (ract sampleTime (sampleConfig ''managed'')) (sampleActs @ sampleExit) sampleStart \<noteq> None"
  "runSteps (ract sampleTime (sampleConfig ''managed'')) sampleActs sampleStart \<noteq> None"
  "runSteps (ract sampleTime (sampleConfig ''managed'')) sampleExit (sampleRun sampleActs) \<noteq> None"
  by code_simp+

lemma sample_reaches:
  assumes "runSteps (ract sampleTime (sampleConfig ''managed'')) as sampleStart \<noteq> None"
  shows "runnerReaches sampleTime (sampleConfig ''managed'') (sampleRun as)"
proof -
  from assms obtain r where r: "runSteps (ract sampleTime (sampleConfig ''managed'')) as sampleStart = Some r" by blast
  from runSteps_reaches [OF r reaches.here] sample_start show ?thesis by (auto simp: runnerReaches_def r)
qed

lemma sample_reached:
  "runnerReaches sampleTime (sampleConfig ''managed'') (sampleRun (sampleActs @ sampleExit))"
  "runnerReaches sampleTime (sampleConfig ''managed'') (sampleRun sampleActs)"
  by (rule sample_reaches, rule sample_runs)+

theorem reads_under_lease_witness:
  "list_all leased (rn_sent (sampleRun (sampleActs @ sampleExit))) \<and>
   rn_sent (sampleRun (sampleActs @ sampleExit)) =
     [RqRegister, RqAcquire, RqStream (Some (''t'', 1)) 2, RqPoll (Some (''t'', 1)) 2, RqRenew (''t'', 1), RqAcquire,
      RqPoll (Some (''t'', 2)) 2, RqRelease (''t'', 2)]"
proof
  show "list_all leased (rn_sent (sampleRun (sampleActs @ sampleExit)))"
    using reads_under_lease [OF sample_reached(1)] by blast
qed code_simp

theorem polling_is_final_witness:
  "list_all (\<lambda>q. \<not> isStream q) (dropWhile (\<lambda>q. \<not> isPoll q) (rn_sent (sampleRun (sampleActs @ sampleExit))))"
  by (rule polling_is_final [OF sample_reached(1)])

theorem runner_ends_after_stop_witness:
  "length (filter runnerMoves sampleExit) \<le> 5 \<and> rn_stopped (sampleRun sampleActs)"
proof -
  have s: "rn_stopped (sampleRun sampleActs)" by code_simp
  obtain r' where "runSteps (ract sampleTime (sampleConfig ''managed'')) sampleExit (sampleRun sampleActs) = Some r'"
    using sample_runs(3) by blast
  with runner_ends_after_stop [OF sample_reached(2) s] s show ?thesis by blast
qed

theorem runner_waits_bounded_witness: "waitsOK (rn_phase (sampleRun (take 8 sampleActs)))"
  by (rule runner_waits_bounded, rule sample_reaches) code_simp

end
