(* ===== verification/Streaming_Reporter.thy ===== *)
theory Streaming_Reporter
  imports Worker_Protocol
begin

text \<open>
  The messages of the streaming worker (\<^verbatim>\<open>src/ironflow/worker_streaming.go\<close>): what a job assignment becomes, what a
  report of the executor becomes, and the execution fence on both.
\<close>

section \<open>Payloads\<close>

text \<open>An output travels in a \<open>Struct\<close> field when it is an object and in a \<open>Value\<close> field otherwise. \<open>structErr\<close> is the
  error of \<open>structpb.NewStruct\<close> on a value whose type is \<open>map[string]any\<close>: it takes no elements but JSON's own Go types.
  \<open>isMap\<close> says that the type is that map.\<close>

record payload_env =
  py_isMap :: "gval \<Rightarrow> bool"
  py_structErr :: "gval \<Rightarrow> goerr option"

type_synonym payload = "(string \<times> json) list option \<times> json option"

definition anyToPayload :: "payload_env \<Rightarrow> gval \<Rightarrow> payload \<times> goerr option" where
  "anyToPayload py v =
     (if v = GNil then ((None, None), None)
      else if py_isMap py v then
        (case py_structErr py v of
           Some e \<Rightarrow> ((None, None), Some e)
         | None \<Rightarrow> (case v of GJson (JObj m) \<Rightarrow> ((Some m, None), None) | _ \<Rightarrow> ((None, None), None)))
      else
        (case marshal v of
           Inl m \<Rightarrow> ((None, None), Some (EWrap (''marshal to JSON: '' @ m) [ENew m]))
         | Inr (JObj m) \<Rightarrow> ((Some m, None), None)
         | Inr j \<Rightarrow> ((None, Some j), None)))"

definition payloadAny :: "payload \<Rightarrow> gval" where
  "payloadAny p = (case p of (_, Some j) \<Rightarrow> GJson j | (Some m, None) \<Rightarrow> GJson (JObj m) | (None, None) \<Rightarrow> GNil)"

lemma payload_roundtrip:
  assumes "anyToPayload py v = (p, None)" and "py_isMap py v \<Longrightarrow> \<exists>m. v = GJson (JObj m)"
  shows "payloadAny p = v"
  using assms
  by (cases v) (auto simp: anyToPayload_def payloadAny_def split: if_splits option.splits json.splits)

section \<open>Messages\<close>

datatype step_type_proto =
    STEP_TYPE_INVOKE | STEP_TYPE_SLEEP | STEP_TYPE_WAIT_FOR_EVENT | STEP_TYPE_COMPENSATE | STEP_TYPE_INVOKE_FUNCTION
  | STEP_TYPE_UNSPECIFIED

definition sdkStepTypeToProto :: "string \<Rightarrow> step_type_proto" where
  "sdkStepTypeToProto t =
     (if t = ''invoke'' then STEP_TYPE_INVOKE
      else if t = ''sleep'' then STEP_TYPE_SLEEP
      else if t = ''wait_for_event'' then STEP_TYPE_WAIT_FOR_EVENT
      else if t = ''compensate'' then STEP_TYPE_COMPENSATE
      else if t = ''invoke_function'' then STEP_TYPE_INVOKE_FUNCTION
      else STEP_TYPE_UNSPECIFIED)"

type_synonym fence = "int \<times> string"

datatype nack_reason = JOB_NACK_REASON_DRAINING | JOB_NACK_REASON_AT_CAPACITY

record executed_step =
  xs_Id :: string
  xs_Name :: string
  xs_Type :: string
  xs_Status :: string
  xs_CompensationFor :: string
  xs_DurationMs :: int
  xs_Output :: payload
  xs_Error :: "(string \<times> bool) option"

datatype yield_msg =
    SleepYield int
  | WaitEventYield string string "json option" string string "int option"
  | InvokeFunctionYield string "json option" int
  | InvokeFunctionAsyncYield string "json option"

text \<open>The error of a failed job: message, code, retryable, the delay in milliseconds.\<close>

type_synonym proto_error = "string \<times> string \<times> bool \<times> int"

datatype worker_msg =
    MRegister string "string list" int
  | MHeartbeat string int "(string \<times> int) list"
  | MJobAck string fence
  | MJobNack string string fence nack_reason
  | MJobCompleted string payload fence
  | MJobFailed string proto_error "executed_step list" fence
  | MStepYielded string string yield_msg fence
  | MStepStarted string string string step_type_proto fence
  | MStepCompleted string string payload int fence
  | MStepFailed string string string int fence

text \<open>An \<open>int32\<close> conversion keeps the low 32 bits.\<close>

definition int32 :: "int \<Rightarrow> int" where
  "int32 n = sint (word_of_int n :: 32 word)"

text \<open>\<open>stampFence\<close> of the stream reporter.\<close>

fun stampMessage :: "fence \<Rightarrow> worker_msg \<Rightarrow> worker_msg" where
  "stampMessage f (MJobCompleted j p _) = MJobCompleted j p f"
| "stampMessage f (MJobFailed j e s _) = MJobFailed j e s f"
| "stampMessage f (MStepYielded j s y _) = MStepYielded j s y f"
| "stampMessage f m = m"

abbreviation unfenced :: fence where
  "unfenced \<equiv> (0, [])"

definition executedStep :: "payload_env \<Rightarrow> step_result \<Rightarrow> executed_step" where
  "executedStep py s =
     \<lparr> xs_Id = sr_ID s, xs_Name = sr_Name s, xs_Type = sr_Type s, xs_Status = sr_Status s,
       xs_CompensationFor = sr_CompensationFor s, xs_DurationMs = int32 (milliseconds (sr_Duration s)),
       xs_Output = (case anyToPayload py (sr_Output s) of (p, None) \<Rightarrow> p | _ \<Rightarrow> (None, None)),
       xs_Error = map_option (\<lambda>e. (sei_Message e, sei_Retryable e)) (sr_Error s) \<rparr>"

section \<open>Reports\<close>

text \<open>What a report sends before the fence is stamped, and the error it returns besides the one of the queue.\<close>

definition completedMessage :: "payload_env \<Rightarrow> string \<Rightarrow> gval \<Rightarrow> worker_msg" where
  "completedMessage py jobID output = MJobCompleted jobID (fst (anyToPayload py output)) unfenced"

definition failedMessage :: "payload_env \<Rightarrow> string \<Rightarrow> push_error \<Rightarrow> step_result list \<Rightarrow> worker_msg" where
  "failedMessage py jobID pushErr steps =
     MJobFailed jobID (pe_Message pushErr, pe_Code pushErr, pe_Retryable pushErr, pe_RetryAfterMs pushErr)
       (map (executedStep py) steps) unfenced"

definition terminalFailure :: "string \<Rightarrow> string \<Rightarrow> goerr \<Rightarrow> worker_msg" where
  "terminalFailure jobID code err = MJobFailed jobID (errorText err, code, False, 0) [] unfenced"

definition optJson :: "gval \<Rightarrow> string + json option" where
  "optJson v = (if v = GNil then Inr None else case marshal v of Inl m \<Rightarrow> Inl m | Inr j \<Rightarrow> Inr (Some j))"

definition yieldMessage :: "int \<Rightarrow> string \<Rightarrow> yield_info \<Rightarrow> worker_msg option \<times> goerr option" where
  "yieldMessage now jobID y =
     (if yi_Type y = ''sleep'' then
        (case yi_Until y of
           None \<Rightarrow> (Some (MJobFailed jobID (''yield (sleep until )'', ''YIELD_SLEEP'', False, 0) [] unfenced), None)
         | Some t \<Rightarrow> (Some (MStepYielded jobID (yi_StepID y) (SleepYield t) unfenced), None))
      else if yi_Type y = ''wait_for_event'' then
        (case yi_EventFilter y of
           None \<Rightarrow> (Some (MStepYielded jobID (yi_StepID y) (WaitEventYield [] [] None [] [] None) unfenced), None)
         | Some f \<Rightarrow>
             (case optJson (ef_Payload f) of
                Inl m \<Rightarrow> (None, Some (EWrap (''marshal wait request payload: '' @ m) [ENew m]))
              | Inr payload \<Rightarrow>
                  (Some (MStepYielded jobID (yi_StepID y)
                     (WaitEventYield (ef_Event f) (ef_onTimeout f) payload (ef_Match f) (ef_MatchValue f)
                        (if ef_Timeout f > 0 then Some (now + ef_Timeout f) else None)) unfenced), None)))
      else if yi_Type y = ''invoke_function'' \<or> yi_Type y = ''invoke_function_async'' then
        (case optJson (yi_Input y) of
           Inl m \<Rightarrow>
             (let err = EWrap (''marshal invoke input: '' @ m) [ENew m]
              in (Some (terminalFailure jobID ''SERIALIZATION_ERROR'' err), Some err))
         | Inr input \<Rightarrow>
             (Some (MStepYielded jobID (yi_StepID y)
                (if yi_Type y = ''invoke_function'' then InvokeFunctionYield (yi_FunctionID y) input (yi_InvokeTimeoutMs y)
                 else InvokeFunctionAsyncYield (yi_FunctionID y) input) unfenced), None))
      else
        (let err = ENew (''unsupported yield type '' @ quoted (yi_Type y))
         in (Some (terminalFailure jobID ''UNSUPPORTED_YIELD_TYPE'' err), Some err)))"

definition reportMessage :: "payload_env \<Rightarrow> int \<Rightarrow> job_assignment \<Rightarrow> job_report \<Rightarrow> worker_msg option" where
  "reportMessage py now job rep =
     map_option (stampMessage (ja_ExecutionSeq job, ja_LeaseToken job))
       (case rep of
          JobCompleted output _ _ \<Rightarrow> Some (completedMessage py (ja_JobID job) output)
        | JobFailed pushErr steps _ \<Rightarrow> Some (failedMessage py (ja_JobID job) pushErr steps)
        | JobYielded y _ _ \<Rightarrow> fst (yieldMessage now (ja_JobID job) y))"

text \<open>The step reporter of a job.\<close>

definition stepMessage :: "payload_env \<Rightarrow> job_assignment \<Rightarrow> step_report \<Rightarrow> worker_msg" where
  "stepMessage py job rep =
     (let f = (ja_ExecutionSeq job, ja_LeaseToken job) in
      case rep of
        StepStarted stepID name stepType \<Rightarrow> MStepStarted (ja_JobID job) stepID name (sdkStepTypeToProto stepType) f
      | StepCompleted stepID _ _ output ms \<Rightarrow>
          MStepCompleted (ja_JobID job) stepID (fst (anyToPayload py output)) (int32 ms) f
      | StepFailed stepID _ _ msg ms \<Rightarrow> MStepFailed (ja_JobID job) stepID msg (int32 ms) f)"

section \<open>Assignments\<close>

text \<open>A job as it arrives; \<open>pb_Data\<close> and \<open>pb_Metadata\<close> are what \<open>protojson.Marshal\<close> makes of the fields, when they are set.\<close>

record proto_event =
  pb_Id :: string
  pb_Name :: string
  pb_Version :: int
  pb_Data :: "(goerr + json) option"
  pb_Timestamp :: "int option"
  pb_IdempotencyKey :: string
  pb_Source :: string
  pb_Metadata :: "(goerr + json) option"

record proto_step =
  pt_StepId :: string
  pt_Name :: string
  pt_Status :: string
  pt_OutputJson :: raw
  pt_Output :: payload
  pt_ErrorJson :: raw
  pt_ErrorText :: string

record proto_job =
  pb_JobId :: string
  pb_RunId :: string
  pb_FunctionId :: string
  pb_Attempt :: int
  pb_MaxAttempts :: int
  pb_OnExhausted :: string
  pb_Event :: "proto_event option"
  pb_Steps :: "proto_step list"
  pb_Secrets :: "string \<rightharpoonup> string"
  pb_ExecutionSeq :: int
  pb_LeaseToken :: string

definition protoStep :: "proto_step \<Rightarrow> job_step" where
  "protoStep s =
     \<lparr> js_StepID = pt_StepId s, js_Name = pt_Name s,
       js_Output = (if pt_OutputJson s \<noteq> RawNone then pt_OutputJson s
                    else case payloadAny (pt_Output s) of GJson j \<Rightarrow> Raw j | _ \<Rightarrow> RawNone),
       js_Status = pt_Status s,
       js_Error = (case pt_ErrorJson s of RawNone \<Rightarrow> GNil | RawBad _ \<Rightarrow> GJson (JStr (pt_ErrorText s))
                   | Raw JNull \<Rightarrow> GNil | Raw j \<Rightarrow> GJson j) \<rparr>"

text \<open>\<open>protoToJobAssignment\<close>; \<open>fmt\<close> renders a time.\<close>

definition protoToJobAssignment :: "(int \<Rightarrow> string) \<Rightarrow> proto_job \<Rightarrow> goerr + job_assignment" where
  "protoToJobAssignment fmt pa =
     (let ev = pb_Event pa;
          wrap = (\<lambda>what e. EWrap (what @ '': '' @ errorText e) [e]);
          text = (\<lambda>f. case ev of None \<Rightarrow> [] | Some e \<Rightarrow> f e)
      in case (case ev of None \<Rightarrow> Inr (JObj []) | Some e \<Rightarrow> (case pb_Data e of None \<Rightarrow> Inr (JObj []) | Some d \<Rightarrow> d)) of
           Inl e \<Rightarrow> Inl (wrap ''marshal event data'' e)
         | Inr eventData \<Rightarrow>
             (case (case ev of None \<Rightarrow> Inr RawNone
                    | Some e \<Rightarrow> (case pb_Metadata e of None \<Rightarrow> Inr RawNone | Some (Inl er) \<Rightarrow> Inl er | Some (Inr j) \<Rightarrow> Inr (Raw j))) of
                Inl e \<Rightarrow> Inl (wrap ''marshal event metadata'' e)
              | Inr metadata \<Rightarrow>
                  Inr \<lparr> ja_JobID = pb_JobId pa, ja_RunID = pb_RunId pa, ja_FunctionID = pb_FunctionId pa,
                        ja_Attempt = pb_Attempt pa, ja_MaxAttempts = pb_MaxAttempts pa, ja_OnExhausted = pb_OnExhausted pa,
                        ja_Event = \<lparr> pv_ID = text pb_Id, pv_Name = text pb_Name,
                          pv_Version = (case ev of Some e \<Rightarrow> if pb_Version e > 0 then pb_Version e else 1 | None \<Rightarrow> 1),
                          pv_Data = Raw eventData,
                          pv_Timestamp = text (\<lambda>e. case pb_Timestamp e of None \<Rightarrow> [] | Some t \<Rightarrow> fmt t),
                          pv_IdempotencyKey = text pb_IdempotencyKey, pv_Source = text pb_Source, pv_Metadata = None \<rparr>,
                        ja_MetadataRaw = metadata, ja_CompletedSteps = map protoStep (pb_Steps pa),
                        ja_StepSequenceBase = 0, ja_Secrets = pb_Secrets pa,
                        ja_ExecutionSeq = pb_ExecutionSeq pa, ja_LeaseToken = pb_LeaseToken pa \<rparr>))"

section \<open>What is reported\<close>

fun messageFence :: "worker_msg \<Rightarrow> fence option" where
  "messageFence (MJobAck _ f) = Some f" | "messageFence (MJobNack _ _ f _) = Some f"
| "messageFence (MJobCompleted _ _ f) = Some f" | "messageFence (MJobFailed _ _ _ f) = Some f"
| "messageFence (MStepYielded _ _ _ f) = Some f" | "messageFence (MStepStarted _ _ _ _ f) = Some f"
| "messageFence (MStepCompleted _ _ _ _ f) = Some f" | "messageFence (MStepFailed _ _ _ _ f) = Some f"
| "messageFence _ = None"

fun messageJob :: "worker_msg \<Rightarrow> string option" where
  "messageJob (MJobAck j _) = Some j" | "messageJob (MJobNack j _ _ _) = Some j"
| "messageJob (MJobCompleted j _ _) = Some j" | "messageJob (MJobFailed j _ _ _) = Some j"
| "messageJob (MStepYielded j _ _ _) = Some j" | "messageJob (MStepStarted j _ _ _ _) = Some j"
| "messageJob (MStepCompleted j _ _ _ _) = Some j" | "messageJob (MStepFailed j _ _ _ _) = Some j"
| "messageJob _ = None"

text \<open>A message that ends the execution of a job.\<close>

fun isTerminal :: "worker_msg \<Rightarrow> bool" where
  "isTerminal (MJobCompleted _ _ _) = True" | "isTerminal (MJobFailed _ _ _ _) = True"
| "isTerminal (MStepYielded _ _ _ _) = True" | "isTerminal _ = False"

lemma yieldMessage_kind:
  "fst (yieldMessage now j y) = Some m \<Longrightarrow> isTerminal m \<and> messageJob m = Some j"
  by (auto simp: yieldMessage_def terminalFailure_def Let_def split: if_splits option.splits sum.splits)

lemma stampMessage_terminal:
  "isTerminal m \<Longrightarrow> isTerminal (stampMessage f m) \<and> messageFence (stampMessage f m) = Some f \<and>
     messageJob (stampMessage f m) = messageJob m"
  by (cases m) simp_all

lemma reportMessage_fenced:
  assumes "reportMessage py now job rep = Some m"
  shows "isTerminal m \<and> messageFence m = Some (ja_ExecutionSeq job, ja_LeaseToken job) \<and> messageJob m = Some (ja_JobID job)"
proof (cases rep)
  case (JobYielded y steps n)
  with assms obtain m0 where m0: "m = stampMessage (ja_ExecutionSeq job, ja_LeaseToken job) m0"
    "fst (yieldMessage now (ja_JobID job) y) = Some m0" by (auto simp: reportMessage_def)
  with yieldMessage_kind [OF m0(2)] stampMessage_terminal show ?thesis by simp
qed (use assms in \<open>auto simp: reportMessage_def completedMessage_def failedMessage_def\<close>)

lemma stepMessage_fenced:
  "\<not> isTerminal (stepMessage py job rep)"
  "messageFence (stepMessage py job rep) = Some (ja_ExecutionSeq job, ja_LeaseToken job)"
  "messageJob (stepMessage py job rep) = Some (ja_JobID job)"
  by (cases rep; simp add: stepMessage_def Let_def)+

lemma assignment_fields:
  "protoToJobAssignment fmt pa = Inr job \<Longrightarrow>
     ja_JobID job = pb_JobId pa \<and> ja_ExecutionSeq job = pb_ExecutionSeq pa \<and> ja_LeaseToken job = pb_LeaseToken pa"
  by (auto simp: protoToJobAssignment_def Let_def split: sum.splits option.splits)

text \<open>A report sends exactly one message, with one exception: a yield that waits for an event with a payload that
  cannot be encoded sends nothing.\<close>

definition badWaitPayload :: "job_report \<Rightarrow> bool" where
  "badWaitPayload rep =
     (case rep of
        JobYielded y _ _ \<Rightarrow>
          yi_Type y = ''wait_for_event'' \<and> (case yi_EventFilter y of Some f \<Rightarrow> \<not> encodable (ef_Payload f) | None \<Rightarrow> False)
      | _ \<Rightarrow> False)"

lemma optJson_Inl: "(\<exists>m. optJson v = Inl m) \<longleftrightarrow> \<not> encodable v"
  by (cases v) (simp_all add: optJson_def encodable_def)

theorem report_sent_unless_wait_unencodable:
  "reportMessage py now job rep = None \<longleftrightarrow> badWaitPayload rep"
proof (cases rep)
  case (JobYielded y steps n)
  have o: "optJson v = Inl m \<Longrightarrow> \<not> encodable v" "optJson v = Inr j \<Longrightarrow> encodable v" for v m j
    using optJson_Inl [of v] by auto
  show ?thesis
  proof (cases "yi_Type y = ''wait_for_event''")
    case True
    then show ?thesis using o
      by (cases "yi_EventFilter y") (auto simp: JobYielded reportMessage_def badWaitPayload_def yieldMessage_def split: sum.splits)
  next
    case False
    then show ?thesis
      by (auto simp: JobYielded reportMessage_def badWaitPayload_def yieldMessage_def Let_def
          split: if_splits option.splits sum.splits)
  qed
qed (simp_all add: reportMessage_def badWaitPayload_def)

text \<open>An output that JSON can encode is sent empty when it is a map that \<open>structpb.NewStruct\<close> refuses, for a slice of
  strings in it, say.\<close>

theorem refused_map_is_sent_empty:
  assumes "v = GJson (JObj m)" "py_isMap py v" "py_structErr py v = Some e"
  shows "reportMessage py now job (JobCompleted v steps n) =
    Some (MJobCompleted (ja_JobID job) (None, None) (ja_ExecutionSeq job, ja_LeaseToken job)) \<and> encodable v"
  using assms by (simp add: reportMessage_def completedMessage_def anyToPayload_def encodable_def)

end
