(* ===== verification/Streaming_Worker.thy ===== *)
theory Streaming_Worker
  imports Streaming_Reporter Polling_Worker
begin

text \<open>
  The streaming worker (\<^verbatim>\<open>src/ironflow/worker_streaming.go\<close>) as a machine: \<open>Run\<close> with its connections, the send and
  receive loops of a connection, the job goroutines, and calls of \<open>Drain\<close> and \<open>Stop\<close>, on their shared state.
  One action is one step of one goroutine between two accesses to that state.
\<close>

section \<open>The goroutines\<close>

text \<open>\<open>drain\<close> and \<open>Stop\<close>; a drain that ends in \<open>Stop\<close> goes on in its phases.\<close>

datatype scall =
    DLoad | DStore | DCount | DFlush | DAwait
  | SStore | SClose | SRunners | SRange
  | CReturned

text \<open>\<open>Run\<close>: its loop, \<open>connectStream\<close>, what it does with the error of a connection, and a call of \<open>Stop\<close> with the error
  it will return.\<close>

datatype srun =
    NotStarted
  | LoopTop | LoopDraining
  | CStart | CRegister | CCheck | CHandshake | CConnected | CTake | CStartRunners | CDiscard | CLoops
  | CEnding "goerr option" | CJobs "goerr option" | CJoin "goerr option"
  | FStopped goerr | FDraining goerr | FKind goerr | Reconnecting
  | InStop scall "goerr option"
  | RunReturned "goerr option"

text \<open>The receive loop, inside \<open>handleJobAssignment\<close> the job it handles.\<close>

datatype srecv =
    RecvOff | RecvTop
  | RecvAdd proto_job | RecvCheck proto_job int | RecvNack proto_job nack_reason
  | RecvAck proto_job | RecvConvert proto_job | RecvStore job_assignment
  | RecvDone "goerr option"

datatype ssend = SendOff | SendTop | SendFlushing | SendDone

text \<open>A job goroutine; \<open>SDelete\<close> and what follows are its deferred function.\<close>

datatype sphase = SExecuting | SReporting worker_msg | SDelete | SUncount | SGone

record sjob =
  sj_job :: job_assignment
  sj_conn :: nat
  sj_phase :: sphase
  sj_cancelled :: bool

text \<open>\<open>sw_conn\<close> numbers the connections, \<open>sw_connDone\<close> says that the current one's context has ended, \<open>sw_wire\<close> is what
  it sent. \<open>sw_reported\<close> are the reports queued on it and \<open>sw_assigned\<close> the jobs received; the code does not keep
  these two.\<close>

record sworker =
  sw_state :: worker_state
  sw_stopClosed :: bool
  sw_flushClosed :: bool
  sw_jobCount :: int
  sw_active :: "active_job_key \<rightharpoonup> nat"
  sw_jobs :: "sjob list"
  sw_out :: "worker_msg list"
  sw_waiters :: "(nat \<times> worker_msg) list"
  sw_calls :: "scall list"
  sw_run :: srun
  sw_recv :: srecv
  sw_send :: ssend
  sw_conn :: nat
  sw_connDone :: bool
  sw_halfClosed :: bool
  sw_sendFailed :: bool
  sw_wire :: "worker_msg list"
  sw_reported :: "worker_msg list"
  sw_assigned :: "proto_job list"

definition newStreamingWorker :: sworker where
  "newStreamingWorker =
     \<lparr> sw_state = stateIdle, sw_stopClosed = False, sw_flushClosed = False, sw_jobCount = 0, sw_active = Map.empty,
       sw_jobs = [], sw_out = [], sw_waiters = [], sw_calls = [], sw_run = NotStarted, sw_recv = RecvOff, sw_send = SendOff,
       sw_conn = 0, sw_connDone = True, sw_halfClosed = False, sw_sendFailed = False, sw_wire = [], sw_reported = [],
       sw_assigned = [] \<rparr>"

abbreviation outCap :: nat where "outCap \<equiv> 256"

definition protoKey :: "proto_job \<Rightarrow> active_job_key" where
  "protoKey pj = (pb_JobId pj, pb_ExecutionSeq pj)"

definition sjobKey :: "job_assignment \<Rightarrow> active_job_key" where
  "sjobKey job = (ja_JobID job, ja_ExecutionSeq job)"

text \<open>\<open>enqueue\<close>: a full queue leaves the message with a goroutine of its own.\<close>

definition enqueue :: "worker_msg \<Rightarrow> sworker \<Rightarrow> sworker" where
  "enqueue msg w =
     (if length (sw_out w) < outCap then w \<lparr> sw_out := sw_out w @ [msg] \<rparr>
      else w \<lparr> sw_waiters := sw_waiters w @ [(sw_conn w, msg)] \<rparr>)"

text \<open>The context of a job or of a waiting message ends with its connection.\<close>

definition connEnded :: "nat \<Rightarrow> sworker \<Rightarrow> bool" where
  "connEnded c w \<longleftrightarrow> c \<noteq> sw_conn w \<or> sw_connDone w"

definition jobEnded :: "sjob \<Rightarrow> sworker \<Rightarrow> bool" where
  "jobEnded g w \<longleftrightarrow> sj_cancelled g \<or> connEnded (sj_conn g) w"

definition cancelWhere :: "(sjob \<Rightarrow> bool) \<Rightarrow> sworker \<Rightarrow> sworker" where
  "cancelWhere P w =
     w \<lparr> sw_jobs := map (\<lambda>g. if sw_active w (sjobKey (sj_job g)) \<noteq> None \<and> P g then g \<lparr> sj_cancelled := True \<rparr> else g) (sw_jobs w) \<rparr>"

section \<open>Calls of Drain and Stop\<close>

datatype tick = TGo | TDeadline | TStop

fun scallStep :: "tick \<Rightarrow> scall \<Rightarrow> sworker \<Rightarrow> (scall \<times> sworker) option" where
  "scallStep t DLoad w =
     (if t \<noteq> TGo then None
      else Some (if sw_state w = stateStopped then CReturned else if sw_state w = stateIdle then SStore else DStore, w))"
| "scallStep t DStore w =
     (if t \<noteq> TGo then None else Some (DCount, w \<lparr> sw_state := storeStateUnlessStopped (sw_state w) stateDraining \<rparr>))"
| "scallStep t DCount w =
     (case t of
        TGo \<Rightarrow> if sw_jobCount w > 0 then None else Some (DFlush, w)
      | TDeadline \<Rightarrow> if sw_jobCount w > 0 then Some (SStore, w) else None
      | TStop \<Rightarrow> if sw_jobCount w > 0 \<and> sw_stopClosed w then Some (CReturned, w) else None)"
| "scallStep t DFlush w = (if t \<noteq> TGo then None else Some (DAwait, w \<lparr> sw_flushClosed := True \<rparr>))"
| "scallStep t DAwait w =
     (case t of
        TGo \<Rightarrow> None
      | TDeadline \<Rightarrow> Some (SStore, w)
      | TStop \<Rightarrow> if sw_stopClosed w then Some (CReturned, w) else None)"
| "scallStep t SStore w = (if t \<noteq> TGo then None else Some (SClose, w \<lparr> sw_state := stateStopped \<rparr>))"
| "scallStep t SClose w = (if t \<noteq> TGo then None else Some (SRunners, w \<lparr> sw_stopClosed := True \<rparr>))"
| "scallStep t SRunners w = (if t \<noteq> TGo then None else Some (SRange, w))"
| "scallStep t SRange w = (if t \<noteq> TGo then None else Some (CReturned, cancelWhere (\<lambda>_. True) w))"
| "scallStep t CReturned w = None"

section \<open>The receive loop\<close>

datatype engine_msg = EJob proto_job | ECancel string | EShutdown int | EStepAck | EResume | EUnknown

text \<open>\<open>recvLoop\<close> and \<open>handleJobAssignment\<close>. \<open>RecvFail\<close> is an error of \<open>Receive\<close>, \<open>RecvGo\<close> a step that needs no message.\<close>

datatype recv_act = RecvMsg engine_msg | RecvFail goerr | RecvGo

definition uncount :: "sworker \<Rightarrow> sworker" where
  "uncount w = w \<lparr> sw_jobCount := sw_jobCount w - 1 \<rparr>"

definition startJob :: "job_assignment \<Rightarrow> sworker \<Rightarrow> sworker" where
  "startJob job w =
     (if sw_active w (sjobKey job) \<noteq> None then uncount w
      else w \<lparr> sw_active := (sw_active w)(sjobKey job \<mapsto> length (sw_jobs w)),
               sw_jobs := sw_jobs w @ [\<lparr> sj_job = job, sj_conn = sw_conn w, sj_phase = SExecuting, sj_cancelled = False \<rparr>] \<rparr>)"

fun recvStep :: "(int \<Rightarrow> string) \<Rightarrow> int \<Rightarrow> recv_act \<Rightarrow> sworker \<Rightarrow> sworker option" where
  "recvStep fmt maxJobs a w =
     (case (sw_recv w, a) of
        (RecvTop, RecvMsg (EJob pj)) \<Rightarrow>
          Some (w \<lparr> sw_assigned := sw_assigned w @ [pj],
                    sw_recv := (if sw_active w (protoKey pj) \<noteq> None then RecvTop else RecvAdd pj) \<rparr>)
      | (RecvTop, RecvMsg (ECancel jobID)) \<Rightarrow> Some (cancelWhere (\<lambda>g. ja_JobID (sj_job g) = jobID) w)
      | (RecvTop, RecvMsg (EShutdown ms)) \<Rightarrow>
          Some (w \<lparr> sw_state := storeStateUnlessStopped (sw_state w) stateDraining, sw_calls := sw_calls w @ [DLoad] \<rparr>)
      | (RecvTop, RecvMsg _) \<Rightarrow> Some w
      | (RecvTop, RecvFail e) \<Rightarrow> Some (w \<lparr> sw_recv := RecvDone (Some (EWrap (''receive: '' @ errorText e) [e])) \<rparr>)
      | (RecvTop, RecvGo) \<Rightarrow> if sw_connDone w then Some (w \<lparr> sw_recv := RecvDone (Some ECanceled) \<rparr>) else None
      | (RecvAdd pj, RecvGo) \<Rightarrow>
          Some (w \<lparr> sw_jobCount := sw_jobCount w + 1, sw_recv := RecvCheck pj (sw_jobCount w + 1) \<rparr>)
      | (RecvCheck pj n, RecvGo) \<Rightarrow>
          Some (if sw_state w = stateDraining then (uncount w) \<lparr> sw_recv := RecvNack pj JOB_NACK_REASON_DRAINING \<rparr>
                else if n > maxJobs then (uncount w) \<lparr> sw_recv := RecvNack pj JOB_NACK_REASON_AT_CAPACITY \<rparr>
                else w \<lparr> sw_recv := RecvAck pj \<rparr>)
      | (RecvNack pj reason, RecvGo) \<Rightarrow>
          Some ((enqueue (MJobNack (pb_JobId pj) (pb_RunId pj) (pb_ExecutionSeq pj, pb_LeaseToken pj) reason) w) \<lparr> sw_recv := RecvTop \<rparr>)
      | (RecvAck pj, RecvGo) \<Rightarrow>
          Some ((enqueue (MJobAck (pb_JobId pj) (pb_ExecutionSeq pj, pb_LeaseToken pj)) w) \<lparr> sw_recv := RecvConvert pj \<rparr>)
      | (RecvConvert pj, RecvGo) \<Rightarrow>
          (case protoToJobAssignment fmt pj of
             Inl e \<Rightarrow> Some ((uncount w) \<lparr> sw_recv := RecvTop \<rparr>)
           | Inr job \<Rightarrow> Some (w \<lparr> sw_recv := RecvStore job \<rparr>))
      | (RecvStore job, RecvGo) \<Rightarrow> Some ((startJob job w) \<lparr> sw_recv := RecvTop \<rparr>)
      | _ \<Rightarrow> None)"

section \<open>The send loop\<close>

text \<open>An action carries whether \<open>Send\<close> succeeded. \<open>SendBeat\<close> is the heartbeat with the jobs' start times, \<open>SendEnd\<close> sees the end of the connection or of the worker.\<close>

datatype send_act = SendMsg bool | SendBeat bool "(string \<times> int) list" | SendSeeFlush | SendClose | SendEnd

definition sendFirst :: "bool \<Rightarrow> sworker \<Rightarrow> sworker option" where
  "sendFirst ok w =
     (case sw_out w of
        [] \<Rightarrow> None
      | m # ms \<Rightarrow>
          Some (if ok then w \<lparr> sw_out := ms, sw_wire := sw_wire w @ [m] \<rparr>
                else w \<lparr> sw_out := ms, sw_send := SendDone, sw_sendFailed := True \<rparr>))"

fun sendStep :: "string \<Rightarrow> send_act \<Rightarrow> sworker \<Rightarrow> sworker option" where
  "sendStep workerID a w =
     (case (sw_send w, a) of
        (SendTop, SendEnd) \<Rightarrow> if sw_connDone w \<or> sw_stopClosed w then Some (w \<lparr> sw_send := SendDone \<rparr>) else None
      | (SendTop, SendSeeFlush) \<Rightarrow> if sw_flushClosed w then Some (w \<lparr> sw_send := SendFlushing \<rparr>) else None
      | (SendTop, SendMsg ok) \<Rightarrow> sendFirst ok w
      | (SendTop, SendBeat ok jobs) \<Rightarrow>
          Some (if ok then w \<lparr> sw_wire := sw_wire w @ [MHeartbeat workerID (sw_jobCount w) jobs] \<rparr>
                else w \<lparr> sw_send := SendDone \<rparr>)
      | (SendFlushing, SendMsg ok) \<Rightarrow> sendFirst ok w
      | (SendFlushing, SendClose) \<Rightarrow>
          if sw_out w = [] then Some (w \<lparr> sw_halfClosed := True, sw_send := SendDone \<rparr>) else None
      | _ \<Rightarrow> None)"

section \<open>Jobs and waiting messages\<close>

text \<open>\<open>JobReport\<close> is the report \<open>execute\<close> makes, \<open>JobQuiet\<close> its return without one, \<open>JobSent\<close> and \<open>JobUnsent\<close> the two ends of
  \<open>send\<close>, \<open>JobStep\<close> a step message, dropped when the queue is full.\<close>

datatype job_act = JobReport int job_report | JobQuiet | JobSent | JobUnsent | JobStep step_report | JobGo

definition setJobPhase :: "nat \<Rightarrow> sphase \<Rightarrow> sworker \<Rightarrow> sworker" where
  "setJobPhase i ph w = w \<lparr> sw_jobs := (sw_jobs w)[i := (sw_jobs w ! i) \<lparr> sj_phase := ph \<rparr>] \<rparr>"

fun sjobStep :: "payload_env \<Rightarrow> nat \<Rightarrow> job_act \<Rightarrow> sworker \<Rightarrow> sworker option" where
  "sjobStep py i a w =
     (if i \<ge> length (sw_jobs w) then None
      else let g = sw_jobs w ! i in
        case (sj_phase g, a) of
          (SExecuting, JobReport now rep) \<Rightarrow>
            (case reportMessage py now (sj_job g) rep of
               None \<Rightarrow> Some (setJobPhase i SDelete w)
             | Some m \<Rightarrow> Some (setJobPhase i (SReporting m) w))
        | (SExecuting, JobQuiet) \<Rightarrow> if jobEnded g w then Some (setJobPhase i SDelete w) else None
        | (SExecuting, JobStep rep) \<Rightarrow>
            Some (if length (sw_out w) < outCap then w \<lparr> sw_out := sw_out w @ [stepMessage py (sj_job g) rep] \<rparr> else w)
        | (SReporting m, JobSent) \<Rightarrow>
            if length (sw_out w) < outCap
            then Some (setJobPhase i SDelete (w \<lparr> sw_out := sw_out w @ [m], sw_reported := sw_reported w @ [m] \<rparr>))
            else None
        | (SReporting m, JobUnsent) \<Rightarrow>
            if length (sw_out w) \<ge> outCap \<and> jobEnded g w then Some (setJobPhase i SDelete w) else None
        | (SDelete, JobGo) \<Rightarrow>
            Some (setJobPhase i SUncount
              (if sw_active w (sjobKey (sj_job g)) = Some i then w \<lparr> sw_active := (sw_active w)(sjobKey (sj_job g) := None) \<rparr> else w))
        | (SUncount, JobGo) \<Rightarrow> Some (setJobPhase i SGone (uncount w))
        | _ \<Rightarrow> None)"

definition waiterStep :: "nat \<Rightarrow> bool \<Rightarrow> sworker \<Rightarrow> sworker option" where
  "waiterStep i sends w =
     (if i \<ge> length (sw_waiters w) then None
      else case sw_waiters w ! i of
        (c, m) \<Rightarrow>
          (let w' = w \<lparr> sw_waiters := take i (sw_waiters w) @ drop (Suc i) (sw_waiters w) \<rparr> in
           if sends then (if length (sw_out w) < outCap then Some (w' \<lparr> sw_out := sw_out w @ [m] \<rparr>) else None)
           else (if connEnded c w then Some w' else None)))"

section \<open>Run\<close>

text \<open>\<open>RunGo\<close> is a step that needs no answer, \<open>RunReply\<close> the answer of the registration or of the handshake, \<open>RunWake\<close> the end
  of the reconnect delay.\<close>

datatype srun_act = RunGo | RunReply "goerr option" | RunWake | RunCallTick tick

text \<open>\<open>connectStream\<close>; it returns to the loop with an error in \<open>FStopped\<close>, without one in \<open>LoopTop\<close>.\<close>

fun connStep :: "srun_act \<Rightarrow> sworker \<Rightarrow> sworker option" where
  "connStep a w =
     (case (sw_run w, a) of
        (CStart, RunGo) \<Rightarrow> Some (w \<lparr> sw_state := storeStateUnlessDraining (sw_state w) stateConnecting, sw_run := CRegister \<rparr>)
      | (CRegister, RunReply err) \<Rightarrow>
          Some (w \<lparr> sw_run := (case err of None \<Rightarrow> CCheck
                  | Some e \<Rightarrow> FStopped (EWrap (''register functions: '' @ errorText e) [e])) \<rparr>)
      | (CCheck, RunGo) \<Rightarrow>
          Some (if sw_state w = stateDraining \<or> sw_state w = stateStopped then w \<lparr> sw_run := LoopTop \<rparr>
                else w \<lparr> sw_run := CHandshake, sw_conn := sw_conn w + 1, sw_connDone := False \<rparr>)
      | (CHandshake, RunReply err) \<Rightarrow>
          Some (case err of None \<Rightarrow> w \<lparr> sw_run := CConnected \<rparr> | Some e \<Rightarrow> w \<lparr> sw_run := FStopped e, sw_connDone := True \<rparr>)
      | (CConnected, RunGo) \<Rightarrow> Some (w \<lparr> sw_state := storeStateUnlessDraining (sw_state w) stateConnected, sw_run := CTake \<rparr>)
      | (CTake, RunGo) \<Rightarrow> Some (w \<lparr> sw_run := CStartRunners \<rparr>)
      | (CStartRunners, RunGo) \<Rightarrow> Some (w \<lparr> sw_run := CDiscard \<rparr>)
      | (CDiscard, RunGo) \<Rightarrow>
          Some (w \<lparr> sw_out := [], sw_wire := [], sw_reported := [], sw_halfClosed := False, sw_sendFailed := False,
                    sw_recv := RecvTop, sw_send := SendTop, sw_run := CLoops \<rparr>)
      | (CLoops, RunGo) \<Rightarrow>
          (case sw_recv w of RecvDone err \<Rightarrow> Some (w \<lparr> sw_recv := RecvOff, sw_run := CEnding err \<rparr>) | _ \<Rightarrow> None)
      | (CEnding err, RunGo) \<Rightarrow> Some (w \<lparr> sw_connDone := True, sw_run := CJobs err \<rparr>)
      | (CJobs err, RunGo) \<Rightarrow> Some ((cancelWhere (\<lambda>_. True) w) \<lparr> sw_run := CJoin err \<rparr>)
      | (CJoin err, RunGo) \<Rightarrow>
          if sw_send w = SendDone
          then Some (w \<lparr> sw_send := SendOff, sw_run := (case err of None \<Rightarrow> LoopTop | Some e \<Rightarrow> FStopped e) \<rparr>)
          else None
      | _ \<Rightarrow> None)"

definition streamAuthFailure :: "goerr \<Rightarrow> bool" where
  "streamAuthFailure e \<longleftrightarrow> errorsIs ErrUnauthorized e \<or> errorsIs ErrForbidden e \<or>
     (case asConnect e of Some (CodeUnauthenticated, _, _) \<Rightarrow> True | Some (CodePermissionDenied, _, _) \<Rightarrow> True | _ \<Rightarrow> False)"

text \<open>\<open>ctxErr\<close> is \<open>ctx.Err()\<close>.\<close>

fun srunStep :: "goerr option \<Rightarrow> srun_act \<Rightarrow> sworker \<Rightarrow> sworker option" where
  "srunStep ctxErr a w =
     (case (sw_run w, a) of
        (NotStarted, RunGo) \<Rightarrow>
          if sw_state w = stateIdle then Some (w \<lparr> sw_state := stateConnecting, sw_run := LoopTop \<rparr>)
          else Some (w \<lparr> sw_run := RunReturned (Some (EIron (IronflowError ''worker is already running'' ''WORKER_ALREADY_RUNNING'' False 0 [] None))) \<rparr>)
      | (LoopTop, RunGo) \<Rightarrow> Some (w \<lparr> sw_run := (if sw_stopClosed w then RunReturned ctxErr else LoopDraining) \<rparr>)
      | (LoopDraining, RunGo) \<Rightarrow> Some (w \<lparr> sw_run := (if sw_state w = stateDraining then InStop SStore ctxErr else CStart) \<rparr>)
      | (FStopped e, RunGo) \<Rightarrow> Some (w \<lparr> sw_run := (if sw_state w = stateStopped then RunReturned ctxErr else FDraining e) \<rparr>)
      | (FDraining e, RunGo) \<Rightarrow> Some (w \<lparr> sw_run := (if sw_state w = stateDraining then LoopTop else FKind e) \<rparr>)
      | (FKind e, RunGo) \<Rightarrow>
          Some (w \<lparr> sw_run := (if streamAuthFailure e \<or> \<not> isRetryable e then InStop SStore (Some e) else Reconnecting) \<rparr>)
      | (Reconnecting, RunWake) \<Rightarrow> Some (w \<lparr> sw_run := LoopTop \<rparr>)
      | (InStop c err, RunCallTick t) \<Rightarrow>
          (case scallStep t c w of None \<Rightarrow> None | Some (c', w') \<Rightarrow> Some (w' \<lparr> sw_run := InStop c' err \<rparr>))
      | (InStop CReturned err, RunGo) \<Rightarrow> Some (w \<lparr> sw_run := RunReturned err \<rparr>)
      | _ \<Rightarrow> connStep a w)"

section \<open>The machine\<close>

text \<open>\<open>Called\<close> is a new call of \<open>Drain\<close> (by the user, or by \<open>Run\<close>'s goroutine when its context ends) or of \<open>Stop\<close>;
  \<open>ConnCancel\<close> is the goroutine that ends the connection's context when the worker stops.\<close>

datatype stream_act =
    Called bool
  | CallStep nat tick
  | RunStep "goerr option" srun_act
  | RecvStep recv_act
  | SendStep send_act
  | SJobStep nat job_act
  | WaiterStep nat bool
  | ConnCancel

record sconfig =
  sc_workerID :: string
  sc_maxJobs :: int
  sc_fmt :: "int \<Rightarrow> string"
  sc_py :: payload_env

fun sact :: "sconfig \<Rightarrow> stream_act \<Rightarrow> sworker \<Rightarrow> sworker option" where
  "sact cfg (Called drains) w = Some (w \<lparr> sw_calls := sw_calls w @ [if drains then DLoad else SStore] \<rparr>)"
| "sact cfg (CallStep i t) w =
     (if i \<ge> length (sw_calls w) then None
      else case scallStep t (sw_calls w ! i) w of
        None \<Rightarrow> None
      | Some (c, w') \<Rightarrow> Some (w' \<lparr> sw_calls := (sw_calls w')[i := c] \<rparr>))"
| "sact cfg (RunStep ctxErr a) w = srunStep ctxErr a w"
| "sact cfg (RecvStep a) w = recvStep (sc_fmt cfg) (sc_maxJobs cfg) a w"
| "sact cfg (SendStep a) w = sendStep (sc_workerID cfg) a w"
| "sact cfg (SJobStep i a) w = sjobStep (sc_py cfg) i a w"
| "sact cfg (WaiterStep i s) w = waiterStep i s w"
| "sact cfg ConnCancel w = (if sw_stopClosed w then Some (w \<lparr> sw_connDone := True \<rparr>) else None)"
end
