(* ===== verification/Streaming_Lifecycle.thy ===== *)
theory Streaming_Lifecycle
  imports Streaming_Worker
begin

text \<open>
  What the goroutines of the streaming worker guarantee together: jobs stay within the limit, a drain that closes
  the stream has no job left and has sent every report, and what is sent of a job carries its fence.
\<close>

section \<open>Counting\<close>

abbreviation live :: "sjob \<Rightarrow> bool" where
  "live g \<equiv> sj_phase g \<noteq> SGone"

definition liveJobs :: "sworker \<Rightarrow> nat" where
  "liveJobs w = length (filter live (sw_jobs w))"

fun countedIn :: "srecv \<Rightarrow> int" where
  "countedIn (RecvCheck _ _) = 1" | "countedIn (RecvAck _) = 1" | "countedIn (RecvConvert _) = 1" | "countedIn (RecvStore _) = 1"
| "countedIn _ = 0"

fun admitted :: "srecv \<Rightarrow> bool" where
  "admitted (RecvAck _) = True" | "admitted (RecvConvert _) = True" | "admitted (RecvStore _) = True" | "admitted _ = False"

lemma liveJobs_simps [simp]:
  "liveJobs (w \<lparr> sw_state := a \<rparr>) = liveJobs w" "liveJobs (w \<lparr> sw_stopClosed := b \<rparr>) = liveJobs w"
  "liveJobs (w \<lparr> sw_flushClosed := b \<rparr>) = liveJobs w" "liveJobs (w \<lparr> sw_jobCount := n \<rparr>) = liveJobs w"
  "liveJobs (w \<lparr> sw_active := m \<rparr>) = liveJobs w" "liveJobs (w \<lparr> sw_out := q \<rparr>) = liveJobs w"
  "liveJobs (w \<lparr> sw_waiters := ws \<rparr>) = liveJobs w" "liveJobs (w \<lparr> sw_calls := cs \<rparr>) = liveJobs w"
  "liveJobs (w \<lparr> sw_run := r \<rparr>) = liveJobs w" "liveJobs (w \<lparr> sw_recv := rv \<rparr>) = liveJobs w"
  "liveJobs (w \<lparr> sw_send := sd \<rparr>) = liveJobs w" "liveJobs (w \<lparr> sw_conn := c \<rparr>) = liveJobs w"
  "liveJobs (w \<lparr> sw_connDone := b \<rparr>) = liveJobs w" "liveJobs (w \<lparr> sw_halfClosed := b \<rparr>) = liveJobs w"
  "liveJobs (w \<lparr> sw_sendFailed := b \<rparr>) = liveJobs w" "liveJobs (w \<lparr> sw_wire := q \<rparr>) = liveJobs w"
  "liveJobs (w \<lparr> sw_reported := q \<rparr>) = liveJobs w" "liveJobs (w \<lparr> sw_assigned := ps \<rparr>) = liveJobs w"
  by (simp_all add: liveJobs_def)

lemma cancelWhere_live [simp]: "liveJobs (cancelWhere P w) = liveJobs w"
  by (simp add: liveJobs_def cancelWhere_def filter_map o_def if_distrib [of sj_phase] cong: if_cong)

lemma cancelWhere_fields [simp]:
  "sw_state (cancelWhere P w) = sw_state w" "sw_stopClosed (cancelWhere P w) = sw_stopClosed w"
  "sw_flushClosed (cancelWhere P w) = sw_flushClosed w" "sw_jobCount (cancelWhere P w) = sw_jobCount w"
  "sw_active (cancelWhere P w) = sw_active w" "sw_out (cancelWhere P w) = sw_out w" "sw_waiters (cancelWhere P w) = sw_waiters w"
  "sw_calls (cancelWhere P w) = sw_calls w" "sw_run (cancelWhere P w) = sw_run w" "sw_recv (cancelWhere P w) = sw_recv w"
  "sw_send (cancelWhere P w) = sw_send w" "sw_conn (cancelWhere P w) = sw_conn w" "sw_connDone (cancelWhere P w) = sw_connDone w"
  "sw_halfClosed (cancelWhere P w) = sw_halfClosed w" "sw_sendFailed (cancelWhere P w) = sw_sendFailed w"
  "sw_wire (cancelWhere P w) = sw_wire w" "sw_reported (cancelWhere P w) = sw_reported w" "sw_assigned (cancelWhere P w) = sw_assigned w"
  by (simp_all add: cancelWhere_def)

lemma setJobPhase_fields [simp]:
  "sw_state (setJobPhase i ph w) = sw_state w" "sw_stopClosed (setJobPhase i ph w) = sw_stopClosed w"
  "sw_flushClosed (setJobPhase i ph w) = sw_flushClosed w" "sw_jobCount (setJobPhase i ph w) = sw_jobCount w"
  "sw_active (setJobPhase i ph w) = sw_active w" "sw_out (setJobPhase i ph w) = sw_out w" "sw_waiters (setJobPhase i ph w) = sw_waiters w"
  "sw_calls (setJobPhase i ph w) = sw_calls w" "sw_run (setJobPhase i ph w) = sw_run w" "sw_recv (setJobPhase i ph w) = sw_recv w"
  "sw_send (setJobPhase i ph w) = sw_send w" "sw_conn (setJobPhase i ph w) = sw_conn w" "sw_connDone (setJobPhase i ph w) = sw_connDone w"
  "sw_halfClosed (setJobPhase i ph w) = sw_halfClosed w" "sw_sendFailed (setJobPhase i ph w) = sw_sendFailed w"
  "sw_wire (setJobPhase i ph w) = sw_wire w" "sw_reported (setJobPhase i ph w) = sw_reported w" "sw_assigned (setJobPhase i ph w) = sw_assigned w"
  by (simp_all add: setJobPhase_def)

lemma setJobPhase_live:
  assumes "i < length (sw_jobs w)" "live (sw_jobs w ! i)"
  shows "liveJobs (setJobPhase i ph w) = (if ph = SGone then liveJobs w - 1 else liveJobs w)" "0 < liveJobs w"
proof -
  have e: "liveJobs (setJobPhase i ph w) + of_bool (live (sw_jobs w ! i)) = liveJobs w + of_bool (ph \<noteq> SGone)"
    using length_filter_update [OF assms(1), of live "(sw_jobs w ! i) \<lparr> sj_phase := ph \<rparr>"] assms
    by (simp add: liveJobs_def setJobPhase_def)
  have "sw_jobs w ! i \<in> set (filter live (sw_jobs w))" using assms by simp
  then show "0 < liveJobs w" unfolding liveJobs_def by (simp only: length_pos_if_in_set)
  with e assms(2) show "liveJobs (setJobPhase i ph w) = (if ph = SGone then liveJobs w - 1 else liveJobs w)" by auto
qed

lemma enqueue_fields [simp]:
  "sw_state (enqueue m w) = sw_state w" "sw_stopClosed (enqueue m w) = sw_stopClosed w"
  "sw_flushClosed (enqueue m w) = sw_flushClosed w" "sw_jobCount (enqueue m w) = sw_jobCount w"
  "sw_jobs (enqueue m w) = sw_jobs w" "sw_calls (enqueue m w) = sw_calls w" "sw_run (enqueue m w) = sw_run w"
  "sw_recv (enqueue m w) = sw_recv w" "sw_send (enqueue m w) = sw_send w" "sw_halfClosed (enqueue m w) = sw_halfClosed w"
  "sw_sendFailed (enqueue m w) = sw_sendFailed w" "sw_wire (enqueue m w) = sw_wire w" "sw_reported (enqueue m w) = sw_reported w"
  "sw_assigned (enqueue m w) = sw_assigned w" "liveJobs (enqueue m w) = liveJobs w"
  by (simp_all add: enqueue_def)

lemma startJob_new:
  "sw_active w (sjobKey job) = None \<Longrightarrow> liveJobs (startJob job w) = liveJobs w + 1"
  by (simp add: startJob_def liveJobs_def)

section \<open>The invariant of the count\<close>

text \<open>The count is the live jobs and the one the receive loop is admitting; that one fits the limit.\<close>

definition countInv :: "int \<Rightarrow> sworker \<Rightarrow> bool" where
  "countInv maxJobs w \<longleftrightarrow>
     (sw_run w \<noteq> CLoops \<longrightarrow> sw_recv w = RecvOff) \<and>
     sw_jobCount w = int (liveJobs w) + countedIn (sw_recv w) \<and>
     (\<forall>pj n. sw_recv w = RecvCheck pj n \<longrightarrow> sw_jobCount w \<le> n) \<and>
     int (liveJobs w) + of_bool (admitted (sw_recv w)) \<le> max 0 maxJobs"

lemma scallStep_frame:
  assumes "scallStep t c w = Some (c', w')"
  shows "sw_jobCount w' = sw_jobCount w" "liveJobs w' = liveJobs w" "sw_recv w' = sw_recv w" "sw_run w' = sw_run w"
    "sw_out w' = sw_out w" "sw_wire w' = sw_wire w" "sw_reported w' = sw_reported w" "sw_waiters w' = sw_waiters w"
    "sw_send w' = sw_send w" "sw_halfClosed w' = sw_halfClosed w" "sw_sendFailed w' = sw_sendFailed w"
    "sw_assigned w' = sw_assigned w" "sw_calls w' = sw_calls w"
  using assms by (cases c; cases t; auto split: if_splits)+

lemma countInv_frame:
  "sw_jobCount w' = sw_jobCount w \<Longrightarrow> liveJobs w' = liveJobs w \<Longrightarrow> sw_recv w' = sw_recv w \<Longrightarrow> sw_run w' = sw_run w \<Longrightarrow>
     countInv k w' = countInv k w"
  by (simp add: countInv_def)

lemma srunStep_call:
  assumes "srunStep ctxErr (RunCallTick t) w = Some w'"
  obtains c err c' w1 where "sw_run w = InStop c err" "scallStep t c w = Some (c', w1)" "w' = w1 \<lparr> sw_run := InStop c' err \<rparr>"
proof (cases "sw_run w")
  case (InStop c err)
  with assms that show ?thesis by (cases c) (auto split: option.splits simp del: scallStep.simps)
qed (use assms in auto)

lemma countInv_run: "srunStep ctxErr a w = Some w' \<Longrightarrow> countInv k w \<Longrightarrow> countInv k w'"
proof (cases "\<exists>t. a = RunCallTick t")
  case True
  assume s: "srunStep ctxErr a w = Some w'" and i: "countInv k w"
  from True s obtain c err t c' w1 where c: "sw_run w = InStop c err" "scallStep t c w = Some (c', w1)"
    "w' = w1 \<lparr> sw_run := InStop c' err \<rparr>" by (metis srunStep_call)
  from scallStep_frame(1-3) [OF c(2)] c(1,3) i show ?thesis by (auto simp: countInv_def)
next
  case False
  assume "srunStep ctxErr a w = Some w'" "countInv k w"
  with False show ?thesis
    by (cases "sw_run w"; cases a) (auto simp: countInv_def split: if_splits option.splits scall.splits srecv.splits)
qed

lemma countInv_recv: "recvStep fmt k a w = Some w' \<Longrightarrow> countInv k w \<Longrightarrow> countInv k w'"
proof -
  assume s: "recvStep fmt k a w = Some w'" and i: "countInv k w"
  show ?thesis
  proof (cases "sw_recv w")
    case (RecvStore job)
    with s have w': "w' = startJob job w \<lparr> sw_recv := RecvTop \<rparr>" by (cases a) auto
    show ?thesis
    proof (cases "sw_active w (sjobKey job)")
      case None
      with i RecvStore show ?thesis
        by (simp add: w' countInv_def startJob_new) (simp add: startJob_def)
    next
      case (Some j)
      with i RecvStore show ?thesis by (auto simp: w' countInv_def startJob_def uncount_def)
    qed
  next
    case RecvTop
    with s i show ?thesis by (cases a) (auto simp: countInv_def split: engine_msg.splits if_splits)
  qed (use s i in \<open>cases a; auto simp: countInv_def uncount_def split: if_splits sum.splits\<close>)+
qed

lemma sendStep_frame:
  assumes "sendStep wid a w = Some w'"
  shows "sw_jobCount w' = sw_jobCount w" "liveJobs w' = liveJobs w" "sw_jobs w' = sw_jobs w" "sw_recv w' = sw_recv w"
    "sw_run w' = sw_run w" "sw_state w' = sw_state w" "sw_flushClosed w' = sw_flushClosed w" "sw_calls w' = sw_calls w"
    "sw_reported w' = sw_reported w" "sw_waiters w' = sw_waiters w" "sw_assigned w' = sw_assigned w"
  using assms by (cases "sw_send w"; cases a; auto simp: sendFirst_def split: if_splits list.splits)+

lemma waiterStep_frame:
  assumes "waiterStep i s w = Some w'"
  shows "sw_jobCount w' = sw_jobCount w" "liveJobs w' = liveJobs w" "sw_jobs w' = sw_jobs w" "sw_recv w' = sw_recv w"
    "sw_run w' = sw_run w" "sw_state w' = sw_state w" "sw_flushClosed w' = sw_flushClosed w" "sw_calls w' = sw_calls w"
    "sw_reported w' = sw_reported w" "sw_assigned w' = sw_assigned w" "sw_wire w' = sw_wire w" "sw_send w' = sw_send w"
    "sw_halfClosed w' = sw_halfClosed w" "sw_sendFailed w' = sw_sendFailed w"
  using assms by (auto simp: waiterStep_def Let_def split: if_splits prod.splits)

lemma sjobStep_frame:
  assumes "sjobStep py i a w = Some w'"
  shows "sw_recv w' = sw_recv w" "sw_run w' = sw_run w" "sw_state w' = sw_state w" "sw_flushClosed w' = sw_flushClosed w"
    "sw_calls w' = sw_calls w" "sw_waiters w' = sw_waiters w" "sw_assigned w' = sw_assigned w" "sw_wire w' = sw_wire w"
    "sw_send w' = sw_send w" "sw_halfClosed w' = sw_halfClosed w" "sw_sendFailed w' = sw_sendFailed w"
  using assms
  by (cases "sj_phase (sw_jobs w ! i)"; cases a; auto simp: Let_def uncount_def split: if_splits option.splits)+

text \<open>A job is counted until the last step of its deferred function.\<close>

lemma sjobStep_count:
  assumes "sjobStep py i a w = Some w'"
  shows "sw_jobCount w' - int (liveJobs w') = sw_jobCount w - int (liveJobs w)" "liveJobs w' \<le> liveJobs w" "0 < liveJobs w"
proof -
  from assms have i: "i < length (sw_jobs w)" by (auto split: if_splits)
  have l: "live (sw_jobs w ! i)" using assms by (cases a) (auto simp: Let_def split: if_splits)
  note p = setJobPhase_live [OF i l]
  show "0 < liveJobs w" by (rule p(2))
  have q: "liveJobs (setJobPhase i ph v) = (if ph = SGone then liveJobs w - 1 else liveJobs w)"
    if "sw_jobs v = sw_jobs w" for v ph
    using p(1) that by (simp add: liveJobs_def setJobPhase_def)
  show "sw_jobCount w' - int (liveJobs w') = sw_jobCount w - int (liveJobs w)" "liveJobs w' \<le> liveJobs w"
    using assms p(2)
    by (cases "sj_phase (sw_jobs w ! i)"; cases a; auto simp: Let_def q uncount_def split: if_splits option.splits)+
qed

lemma sact_call:
  assumes "sact cfg (CallStep i t) w = Some w'"
  obtains c w1 where "i < length (sw_calls w)" "scallStep t (sw_calls w ! i) w = Some (c, w1)"
    "w' = w1 \<lparr> sw_calls := (sw_calls w)[i := c] \<rparr>"
proof -
  from assms obtain c w1 where c: "i < length (sw_calls w)" "scallStep t (sw_calls w ! i) w = Some (c, w1)"
    "w' = w1 \<lparr> sw_calls := (sw_calls w1)[i := c] \<rparr>"
    by (auto split: if_splits option.splits simp del: scallStep.simps)
  with scallStep_frame(13) [OF c(2)] that show ?thesis by simp
qed

lemma countInv_step:
  assumes "sact cfg a w = Some w'" "countInv (sc_maxJobs cfg) w"
  shows "countInv (sc_maxJobs cfg) w'"
proof (cases a)
  case (CallStep i t)
  with assms(1) obtain c w1 where c: "scallStep t (sw_calls w ! i) w = Some (c, w1)"
    and w': "w' = w1 \<lparr> sw_calls := (sw_calls w)[i := c] \<rparr>" by (metis sact_call)
  have "countInv (sc_maxJobs cfg) w' = countInv (sc_maxJobs cfg) w1" by (simp add: countInv_def w')
  with countInv_frame [OF scallStep_frame(1-4) [OF c]] assms(2) show ?thesis by simp
next
  case (SJobStep i b)
  with assms(1) have j: "sjobStep (sc_py cfg) i b w = Some w'" by simp
  from sjobStep_count [OF j] sjobStep_frame(1,2) [OF j] assms(2) show ?thesis by (auto simp: countInv_def)
next
  case (SendStep b)
  with assms(1) have j: "sendStep (sc_workerID cfg) b w = Some w'" by simp
  from countInv_frame [OF sendStep_frame(1,2,4,5) [OF j]] assms(2) show ?thesis by simp
next
  case (WaiterStep i b)
  with assms(1) have j: "waiterStep i b w = Some w'" by simp
  from countInv_frame [OF waiterStep_frame(1,2,4,5) [OF j]] assms(2) show ?thesis by simp
next
  case (RunStep e b)
  with assms countInv_run show ?thesis by simp
next
  case (RecvStep b)
  with assms countInv_recv show ?thesis by simp
qed (use assms in \<open>auto simp: countInv_def split: if_splits\<close>)

section \<open>The invariant of the drain\<close>

text \<open>From the moment a drain has read a count of zero, and as long as nobody stops the worker, there is no job and none
  is admitted.\<close>

fun inDrainCall :: "scall \<Rightarrow> bool" where
  "inDrainCall DCount = True" | "inDrainCall DFlush = True" | "inDrainCall DAwait = True" | "inDrainCall _ = False"

fun pastCount :: "scall \<Rightarrow> bool" where
  "pastCount DFlush = True" | "pastCount DAwait = True" | "pastCount _ = False"

definition drained :: "sworker \<Rightarrow> bool" where
  "drained w \<longleftrightarrow> sw_flushClosed w \<or> list_ex pastCount (sw_calls w)"

definition drainInv :: "sworker \<Rightarrow> bool" where
  "drainInv w \<longleftrightarrow>
     (\<forall>c err. sw_run w = InStop c err \<longrightarrow> \<not> inDrainCall c \<and> c \<noteq> DLoad \<and> c \<noteq> DStore) \<and>
     (drained w \<or> list_ex inDrainCall (sw_calls w) \<longrightarrow> sw_state w = stateDraining \<or> sw_state w = stateStopped) \<and>
     (drained w \<and> sw_state w = stateDraining \<longrightarrow> liveJobs w = 0 \<and> \<not> admitted (sw_recv w))"

text \<open>Once draining or stopped, a worker stays so.\<close>

lemma scallStep_state:
  assumes "scallStep t c w = Some (c', w')"
  shows "sw_state w = stateStopped \<Longrightarrow> sw_state w' = stateStopped"
    "sw_state w = stateDraining \<Longrightarrow> sw_state w' = stateDraining \<or> sw_state w' = stateStopped"
    "sw_state w' = stateDraining \<Longrightarrow> sw_state w = stateDraining \<or> c = DStore"
  using assms by (cases c; cases t; auto simp: storeStateUnlessStopped_def split: if_splits)+

lemma scallStep_pc:
  assumes "scallStep t c w = Some (c', w')"
  shows "pastCount c' \<Longrightarrow> pastCount c \<or> c = DCount \<and> sw_jobCount w \<le> 0"
    "inDrainCall c' \<Longrightarrow> inDrainCall c \<or> c = DStore"
    "c = DStore \<Longrightarrow> sw_state w' = stateDraining \<or> sw_state w' = stateStopped"
    "sw_flushClosed w' \<Longrightarrow> sw_flushClosed w \<or> c = DFlush"
    "c' = DLoad \<or> c' = DStore \<Longrightarrow> c = DLoad"
  using assms by (cases c; cases t; auto simp: storeStateUnlessStopped_def split: if_splits)+

lemma list_ex_update: "list_ex P (xs[i := y]) \<Longrightarrow> P y \<or> list_ex P xs"
  using set_update_subset_insert by (fastforce simp: list_ex_iff)

lemma drainInv_call:
  assumes s: "scallStep t c w = Some (c', w1)" and i: "i < length (sw_calls w)" "c = sw_calls w ! i"
    and inv: "drainInv w" "countInv k w"
  shows "drainInv (w1 \<lparr> sw_calls := (sw_calls w)[i := c'] \<rparr>)"
proof -
  let ?w = "w1 \<lparr> sw_calls := (sw_calls w)[i := c'] \<rparr>"
  from i have mem: "P c \<Longrightarrow> list_ex P (sw_calls w)" for P by (auto simp: list_ex_iff)
  have dr: "drained w \<or> c = DCount \<and> sw_jobCount w \<le> 0" if d: "drained ?w"
  proof -
    from d have "sw_flushClosed w1 \<or> list_ex pastCount ((sw_calls w)[i := c'])" by (simp add: drained_def)
    then show ?thesis
      using scallStep_pc(1,4) [OF s] mem [of pastCount] list_ex_update [of pastCount "sw_calls w" i c'] by (auto simp: drained_def)
  qed
  have st: "sw_state ?w = stateDraining \<or> sw_state ?w = stateStopped" if "drained ?w \<or> list_ex inDrainCall (sw_calls ?w)"
  proof -
    have "c = DStore \<or> drained w \<or> list_ex inDrainCall (sw_calls w)"
      using that dr mem [of inDrainCall] scallStep_pc(2) [OF s] list_ex_update [of inDrainCall "sw_calls w" i c'] by auto
    with inv(1) scallStep_state(1,2) [OF s] scallStep_pc(3) [OF s] show ?thesis by (auto simp: drainInv_def)
  qed
  have empty: "liveJobs ?w = 0 \<and> \<not> admitted (sw_recv ?w)" if d: "drained ?w" and e: "sw_state ?w = stateDraining"
  proof -
    have f: "liveJobs ?w = liveJobs w" "sw_recv ?w = sw_recv w" using scallStep_frame(2,3) [OF s] by simp_all
    from dr [OF d] show ?thesis
    proof
      assume dw: "drained w"
      with inv(1) e scallStep_state(1) [OF s] have "sw_state w = stateDraining" by (auto simp: drainInv_def)
      with dw inv(1) f show ?thesis by (simp add: drainInv_def)
    next
      assume "c = DCount \<and> sw_jobCount w \<le> 0"
      with inv(2) f show ?thesis by (cases "sw_recv w") (auto simp: countInv_def)
    qed
  qed
  from inv(1) scallStep_frame(4) [OF s] st empty show ?thesis unfolding drainInv_def by auto
qed

lemma drainInv_move:
  assumes inv: "drainInv w"
    and run: "\<And>c err. sw_run w' = InStop c err \<Longrightarrow> \<not> inDrainCall c \<and> c \<noteq> DLoad \<and> c \<noteq> DStore"
    and dr: "drained w' = drained w" and cs: "list_ex inDrainCall (sw_calls w') \<Longrightarrow> list_ex inDrainCall (sw_calls w)"
    and st: "sw_state w = stateDraining \<Longrightarrow> sw_state w' = stateDraining \<or> sw_state w' = stateStopped"
      "sw_state w = stateStopped \<Longrightarrow> sw_state w' = stateStopped"
    and lv: "sw_state w = stateDraining \<Longrightarrow> liveJobs w = 0 \<Longrightarrow> \<not> admitted (sw_recv w) \<Longrightarrow> liveJobs w' = 0 \<and> \<not> admitted (sw_recv w')"
  shows "drainInv w'"
proof -
  have s: "drained w \<or> list_ex inDrainCall (sw_calls w) \<Longrightarrow> sw_state w = stateDraining \<or> sw_state w = stateStopped"
    and l: "drained w \<Longrightarrow> sw_state w = stateDraining \<Longrightarrow> liveJobs w = 0 \<and> \<not> admitted (sw_recv w)"
    using inv by (simp_all add: drainInv_def)
  have a: "sw_state w' = stateDraining \<or> sw_state w' = stateStopped" if "drained w' \<or> list_ex inDrainCall (sw_calls w')"
    using that s dr cs st by blast
  have b: "liveJobs w' = 0 \<and> \<not> admitted (sw_recv w')" if d: "drained w'" and e: "sw_state w' = stateDraining"
  proof -
    from d dr s have "sw_state w = stateDraining \<or> sw_state w = stateStopped" by blast
    with e st(2) have "sw_state w = stateDraining" by auto
    with d dr l lv show ?thesis by blast
  qed
  from run a b show ?thesis unfolding drainInv_def by blast
qed

text \<open>The steps of \<open>Run\<close> that are not steps of its call of \<open>Stop\<close>.\<close>

lemma srunStep_other:
  assumes "srunStep ctxErr a w = Some w'" "\<nexists>t. a = RunCallTick t"
  shows "sw_flushClosed w' = sw_flushClosed w" "sw_calls w' = sw_calls w" "liveJobs w' = liveJobs w"
    "sw_state w = stateDraining \<Longrightarrow> sw_state w' = stateDraining" "sw_state w = stateStopped \<Longrightarrow> sw_state w' = stateStopped"
    "sw_run w' = InStop c err \<Longrightarrow> c = SStore" "sw_recv w' = sw_recv w \<or> sw_recv w' = RecvTop \<or> sw_recv w' = RecvOff"
    "sw_waiters w' = sw_waiters w" "sw_assigned w' = sw_assigned w"
  using assms
  by (cases "sw_run w"; cases a; auto simp: storeStateUnlessDraining_def split: if_splits option.splits scall.splits srecv.splits)+

lemma drainInv_run:
  assumes s: "srunStep ctxErr a w = Some w'" and inv: "drainInv w"
  shows "drainInv w'"
proof (cases "\<exists>t. a = RunCallTick t")
  case True
  with s obtain c err t c' w1 where c: "sw_run w = InStop c err" "scallStep t c w = Some (c', w1)"
    and w': "w' = w1 \<lparr> sw_run := InStop c' err \<rparr>" by (metis srunStep_call)
  from inv c(1) have n: "\<not> inDrainCall c" "c \<noteq> DLoad" "c \<noteq> DStore" by (auto simp: drainInv_def)
  have n': "\<not> inDrainCall c'" "c' \<noteq> DLoad" "c' \<noteq> DStore" using scallStep_pc(2,5) [OF c(2)] n by auto
  have f: "sw_calls w' = sw_calls w" "liveJobs w' = liveJobs w" "sw_recv w' = sw_recv w"
    using scallStep_frame(2,3,13) [OF c(2)] by (simp_all add: w')
  have "sw_flushClosed w' = sw_flushClosed w" using c(2) n by (cases c; cases t) (auto simp: w' split: if_splits)
  with f have d: "drained w' = drained w" by (simp add: drained_def)
  show ?thesis
    by (rule drainInv_move [OF inv _ d]) (use n' f scallStep_state(1,2) [OF c(2)] in \<open>simp_all add: w'\<close>)
next
  case False
  note f = srunStep_other [OF s False]
  have d: "drained w' = drained w" by (simp add: drained_def f(1,2))
  show ?thesis
  proof (rule drainInv_move [OF inv _ d])
    show "\<not> inDrainCall c \<and> c \<noteq> DLoad \<and> c \<noteq> DStore" if "sw_run w' = InStop c err" for c err
      using f(6) [OF that] by simp
  qed (use f(2-5,7) in auto)
qed

lemma recvStep_frame:
  assumes "recvStep fmt k a w = Some w'"
  shows "sw_run w' = sw_run w" "sw_flushClosed w' = sw_flushClosed w" "sw_wire w' = sw_wire w" "sw_reported w' = sw_reported w"
    "sw_send w' = sw_send w" "sw_halfClosed w' = sw_halfClosed w" "sw_sendFailed w' = sw_sendFailed w"
    "list_ex pastCount (sw_calls w') = list_ex pastCount (sw_calls w)"
    "list_ex inDrainCall (sw_calls w') = list_ex inDrainCall (sw_calls w)"
    "sw_state w = stateDraining \<Longrightarrow> sw_state w' = stateDraining" "sw_state w = stateStopped \<Longrightarrow> sw_state w' = stateStopped"
  using assms
  by (cases "sw_recv w"; cases a; auto simp: uncount_def startJob_def storeStateUnlessStopped_def
      split: engine_msg.splits if_splits sum.splits)+

lemma recvStep_admits:
  assumes "recvStep fmt k a w = Some w'" "sw_state w = stateDraining" "\<not> admitted (sw_recv w)"
  shows "liveJobs w' = liveJobs w \<and> \<not> admitted (sw_recv w')"
  using assms
  by (cases "sw_recv w"; cases a; auto simp: uncount_def split: engine_msg.splits if_splits sum.splits)

lemma drainInv_recv:
  assumes s: "recvStep fmt k a w = Some w'" and inv: "drainInv w"
  shows "drainInv w'"
proof (rule drainInv_move [OF inv])
  note f = recvStep_frame [OF s]
  show "drained w' = drained w" by (simp add: drained_def f(2,8))
  show "\<not> inDrainCall c \<and> c \<noteq> DLoad \<and> c \<noteq> DStore" if "sw_run w' = InStop c err" for c err
    using inv that f(1) by (simp add: drainInv_def)
  show "liveJobs w' = 0 \<and> \<not> admitted (sw_recv w')"
    if "sw_state w = stateDraining" "liveJobs w = 0" "\<not> admitted (sw_recv w)" using recvStep_admits [OF s that(1,3)] that(2) by simp
qed (use recvStep_frame [OF s] in simp_all)

lemma drainInv_frame:
  assumes "liveJobs w' \<le> liveJobs w" and f: "sw_recv w' = sw_recv w" "sw_run w' = sw_run w" "sw_state w' = sw_state w"
    "sw_flushClosed w' = sw_flushClosed w" "sw_calls w' = sw_calls w" and inv: "drainInv w"
  shows "drainInv w'"
proof (rule drainInv_move [OF inv])
  show "\<not> inDrainCall c \<and> c \<noteq> DLoad \<and> c \<noteq> DStore" if "sw_run w' = InStop c err" for c err
    using inv that f(2) by (simp add: drainInv_def)
qed (use assms(1) f in \<open>simp_all add: drained_def\<close>)

lemma drainInv_step:
  assumes "sact cfg a w = Some w'" "drainInv w" "countInv (sc_maxJobs cfg) w"
  shows "drainInv w'"
proof (cases a)
  case (CallStep i t)
  with assms(1) obtain c w1 where c: "i < length (sw_calls w)" "scallStep t (sw_calls w ! i) w = Some (c, w1)"
    and w': "w' = w1 \<lparr> sw_calls := (sw_calls w)[i := c] \<rparr>" by (metis sact_call)
  from drainInv_call [OF c(2,1) _ assms(2,3)] show ?thesis by (simp add: w')
next
  case (SJobStep i b)
  with assms(1) have j: "sjobStep (sc_py cfg) i b w = Some w'" by simp
  from drainInv_frame [OF sjobStep_count(2) [OF j] sjobStep_frame(1-5) [OF j] assms(2)] show ?thesis .
next
  case (SendStep b)
  with assms(1) have j: "sendStep (sc_workerID cfg) b w = Some w'" by simp
  from drainInv_frame [OF _ sendStep_frame(4-8) [OF j] assms(2)] sendStep_frame(2) [OF j] show ?thesis by simp
next
  case (WaiterStep i b)
  with assms(1) have j: "waiterStep i b w = Some w'" by simp
  from drainInv_frame [OF _ waiterStep_frame(4-8) [OF j] assms(2)] waiterStep_frame(2) [OF j] show ?thesis by simp
next
  case (RunStep e b)
  with assms drainInv_run show ?thesis by simp
next
  case (RecvStep b)
  with assms drainInv_recv show ?thesis by simp
next
  case (Called d)
  with assms(1) have w': "w' = w \<lparr> sw_calls := sw_calls w @ [if d then DLoad else SStore] \<rparr>" by simp
  from assms(2) show ?thesis unfolding w' drainInv_def drained_def by (cases d) simp_all
next
  case ConnCancel
  with assms(1) have w': "w' = w \<lparr> sw_connDone := True \<rparr>" by (simp split: if_splits)
  from assms(2) show ?thesis unfolding w' drainInv_def drained_def by simp
qed

section \<open>The invariant of the reports\<close>

text \<open>Until a send fails, what is on the wire and in the queue holds exactly the reports that were queued, in their order.\<close>

definition reportInv :: "sworker \<Rightarrow> bool" where
  "reportInv w \<longleftrightarrow>
     (\<not> sw_sendFailed w \<longrightarrow> filter isTerminal (sw_wire w @ sw_out w) = sw_reported w) \<and>
     list_all (\<lambda>cm. \<not> isTerminal (snd cm)) (sw_waiters w) \<and>
     (sw_send w = SendTop \<or> sw_send w = SendFlushing \<or> sw_halfClosed w \<longrightarrow> \<not> sw_sendFailed w) \<and>
     (sw_send w = SendFlushing \<or> sw_halfClosed w \<longrightarrow> sw_flushClosed w) \<and>
     (sw_halfClosed w \<longrightarrow> sw_send w = SendDone \<or> sw_send w = SendOff) \<and>
     (sw_halfClosed w \<and> sw_state w = stateDraining \<longrightarrow> filter isTerminal (sw_out w) = []) \<and>
     list_all (\<lambda>g. case sj_phase g of SReporting m \<Rightarrow> isTerminal m | _ \<Rightarrow> True) (sw_jobs w)"

lemma reportInv_frame:
  assumes "sw_wire w' = sw_wire w" "sw_out w' = sw_out w" "sw_reported w' = sw_reported w" "sw_waiters w' = sw_waiters w"
    "sw_send w' = sw_send w" "sw_halfClosed w' = sw_halfClosed w" "sw_sendFailed w' = sw_sendFailed w"
    and "sw_flushClosed w \<Longrightarrow> sw_flushClosed w'"
    and "sw_state w' = stateDraining \<Longrightarrow> sw_halfClosed w \<Longrightarrow> sw_state w = stateDraining"
    and "map sj_phase (sw_jobs w') = map sj_phase (sw_jobs w)" and "reportInv w"
  shows "reportInv w'"
proof -
  have "list_all P (map sj_phase (sw_jobs w')) = list_all P (map sj_phase (sw_jobs w))" for P using assms(10) by simp
  then have "list_all (\<lambda>g. P (sj_phase g)) (sw_jobs w') = list_all (\<lambda>g. P (sj_phase g)) (sw_jobs w)" for P
    by (simp add: list.pred_map o_def)
  with assms(1-9,11) show ?thesis unfolding reportInv_def by auto
qed

lemma cancelWhere_phases [simp]: "map sj_phase (sw_jobs (cancelWhere P w)) = map sj_phase (sw_jobs w)"
  by (simp add: cancelWhere_def)

lemma scallStep_phases: "scallStep t c w = Some (c', w') \<Longrightarrow> map sj_phase (sw_jobs w') = map sj_phase (sw_jobs w)"
  by (cases c; cases t) (auto split: if_splits)

lemma scallStep_flush: "scallStep t c w = Some (c', w') \<Longrightarrow> sw_flushClosed w \<Longrightarrow> sw_flushClosed w'"
  by (cases c; cases t) (auto split: if_splits)

lemma halfClosed_state:
  assumes "drainInv w" "reportInv w" "sw_halfClosed w"
  shows "sw_state w = stateDraining \<or> sw_state w = stateStopped"
  using assms by (simp add: drainInv_def reportInv_def drained_def)

lemma reportInv_call:
  assumes s: "scallStep t c w = Some (c', w1)" and inv: "reportInv w" "drainInv w"
  shows "reportInv w1"
proof (rule reportInv_frame [OF scallStep_frame(6,5,7,8,9,10,11) [OF s] _ _ scallStep_phases [OF s] inv(1)])
  show "sw_state w = stateDraining" if "sw_state w1 = stateDraining" "sw_halfClosed w"
    using halfClosed_state [OF inv(2,1) that(2)] scallStep_state(1) [OF s] that(1) by auto
qed (rule scallStep_flush [OF s])

lemma srunStep_messages:
  assumes "srunStep ctxErr a w = Some w'" "\<nexists>t. a = RunCallTick t"
  shows "sw_wire w' = [] \<and> sw_out w' = [] \<and> sw_reported w' = [] \<and> \<not> sw_halfClosed w' \<and> \<not> sw_sendFailed w' \<and> sw_send w' = SendTop \<or>
    sw_wire w' = sw_wire w \<and> sw_out w' = sw_out w \<and> sw_reported w' = sw_reported w \<and> sw_halfClosed w' = sw_halfClosed w \<and>
      sw_sendFailed w' = sw_sendFailed w \<and> (sw_send w' = sw_send w \<or> sw_send w' = SendOff)"
    "map sj_phase (sw_jobs w') = map sj_phase (sw_jobs w)"
    "sw_state w' = stateDraining \<Longrightarrow> sw_state w = stateDraining"
  using assms
  by (cases "sw_run w"; cases a; auto simp: storeStateUnlessDraining_def split: if_splits option.splits scall.splits srecv.splits)+

lemma phases_all: "map sj_phase js' = map sj_phase js \<Longrightarrow> list_all (\<lambda>g. P (sj_phase g)) js' = list_all (\<lambda>g. P (sj_phase g)) js"
  by (metis (no_types) list.pred_map o_def list.pred_cong)

lemma reportInv_run:
  assumes s: "srunStep ctxErr a w = Some w'" and inv: "reportInv w" "drainInv w"
  shows "reportInv w'"
proof (cases "\<exists>t. a = RunCallTick t")
  case True
  with s obtain c err t c' w1 where c: "scallStep t c w = Some (c', w1)" and w': "w' = w1 \<lparr> sw_run := InStop c' err \<rparr>"
    by (metis srunStep_call)
  from reportInv_call [OF c inv] show ?thesis unfolding w' reportInv_def by simp
next
  case False
  note f = srunStep_other [OF s False] and m = srunStep_messages [OF s False]
  from m(1) show ?thesis
  proof
    assume "sw_wire w' = [] \<and> sw_out w' = [] \<and> sw_reported w' = [] \<and> \<not> sw_halfClosed w' \<and> \<not> sw_sendFailed w' \<and> sw_send w' = SendTop"
    with inv(1) f(8) phases_all [OF m(2)] show ?thesis by (simp add: reportInv_def)
  next
    assume "sw_wire w' = sw_wire w \<and> sw_out w' = sw_out w \<and> sw_reported w' = sw_reported w \<and> sw_halfClosed w' = sw_halfClosed w \<and>
      sw_sendFailed w' = sw_sendFailed w \<and> (sw_send w' = sw_send w \<or> sw_send w' = SendOff)"
    with inv(1) f(1,8) phases_all [OF m(2)] m(3) show ?thesis by (elim conjE disjE) (simp_all add: reportInv_def)
  qed
qed

lemma enqueue_report:
  assumes "\<not> isTerminal m"
  shows "filter isTerminal (sw_out (enqueue m w)) = filter isTerminal (sw_out w)"
    "list_all (\<lambda>cm. \<not> isTerminal (snd cm)) (sw_waiters (enqueue m w)) = list_all (\<lambda>cm. \<not> isTerminal (snd cm)) (sw_waiters w)"
  using assms by (auto simp: enqueue_def)

abbreviation reportingOK :: "sjob list \<Rightarrow> bool" where
  "reportingOK js \<equiv> list_all (\<lambda>g. case sj_phase g of SReporting m \<Rightarrow> isTerminal m | _ \<Rightarrow> True) js"

lemma cancelWhere_reporting [simp]: "reportingOK (sw_jobs (cancelWhere P w)) = reportingOK (sw_jobs w)"
  by (rule phases_all) simp

lemma startJob_reporting [simp]: "reportingOK (sw_jobs (startJob job w)) = reportingOK (sw_jobs w)"
  by (simp add: startJob_def uncount_def)

lemma startJob_messages [simp]: "sw_out (startJob job w) = sw_out w" "sw_waiters (startJob job w) = sw_waiters w"
  by (simp_all add: startJob_def uncount_def)

lemma recvStep_report:
  assumes "recvStep fmt k a w = Some w'"
  shows "filter isTerminal (sw_out w') = filter isTerminal (sw_out w)"
    "list_all (\<lambda>cm. \<not> isTerminal (snd cm)) (sw_waiters w') = list_all (\<lambda>cm. \<not> isTerminal (snd cm)) (sw_waiters w)"
    "reportingOK (sw_jobs w') = reportingOK (sw_jobs w)"
  using assms
  by (cases "sw_recv w"; cases a; auto simp: uncount_def enqueue_report split: engine_msg.splits if_splits sum.splits)+

lemma reportInv_recv:
  assumes s: "recvStep fmt k a w = Some w'" and inv: "reportInv w" "drainInv w"
  shows "reportInv w'"
proof -
  have "sw_state w = stateDraining" if "sw_halfClosed w" "sw_state w' = stateDraining"
    using halfClosed_state [OF inv(2,1) that(1)] recvStep_frame(11) [OF s] that(2) by auto
  with inv(1) recvStep_frame(2-7) [OF s] recvStep_report [OF s] show ?thesis
    unfolding reportInv_def filter_append by simp
qed

lemma reportInv_sendFirst:
  assumes "sendFirst ok w = Some w'" "sw_send w = SendTop \<or> sw_send w = SendFlushing" "reportInv w"
  shows "reportInv w'"
proof -
  from assms(1) obtain m ms where m: "sw_out w = m # ms"
    "w' = (if ok then w \<lparr> sw_out := ms, sw_wire := sw_wire w @ [m] \<rparr>
           else w \<lparr> sw_out := ms, sw_send := SendDone, sw_sendFailed := True \<rparr>)"
    by (auto simp: sendFirst_def split: list.splits)
  have "\<not> sw_halfClosed w" "\<not> sw_sendFailed w" using assms(2,3) by (auto simp: reportInv_def)
  with assms(2,3) m(1) show ?thesis unfolding m(2) reportInv_def by (cases ok) (auto split: if_splits)
qed

lemma reportInv_send:
  assumes s: "sendStep wid a w = Some w'" and inv: "reportInv w"
  shows "reportInv w'"
proof (cases "sw_send w")
  case SendTop
  show ?thesis
  proof (cases a)
    case (SendMsg ok)
    with s SendTop have "sendFirst ok w = Some w'" by simp
    from reportInv_sendFirst [OF this _ inv] SendTop show ?thesis by simp
  next
    case (SendBeat ok jobs)
    with s SendTop have w': "w' = (if ok then w \<lparr> sw_wire := sw_wire w @ [MHeartbeat wid (sw_jobCount w) jobs] \<rparr>
        else w \<lparr> sw_send := SendDone \<rparr>)" by simp
    from inv SendTop show ?thesis unfolding w' reportInv_def by (cases ok) auto
  next
    case SendSeeFlush
    with s SendTop have w': "w' = w \<lparr> sw_send := SendFlushing \<rparr>" "sw_flushClosed w" by (auto split: if_splits)
    from inv SendTop w'(2) show ?thesis unfolding w'(1) reportInv_def by auto
  next
    case SendEnd
    with s SendTop have w': "w' = w \<lparr> sw_send := SendDone \<rparr>" by (auto split: if_splits)
    from inv SendTop show ?thesis unfolding w' reportInv_def by auto
  qed (use s SendTop in simp)
next
  case SendFlushing
  show ?thesis
  proof (cases a)
    case (SendMsg ok)
    with s SendFlushing have "sendFirst ok w = Some w'" by simp
    from reportInv_sendFirst [OF this _ inv] SendFlushing show ?thesis by simp
  next
    case SendClose
    with s SendFlushing have w': "w' = w \<lparr> sw_halfClosed := True, sw_send := SendDone \<rparr>" "sw_out w = []" by (auto split: if_splits)
    from inv SendFlushing w'(2) show ?thesis unfolding w'(1) reportInv_def by auto
  qed (use s SendFlushing in simp_all)
qed (use s in simp_all)

lemma list_all_remove: "list_all P xs \<Longrightarrow> list_all P (take i xs @ drop (Suc i) xs)"
  by (auto simp: list_all_iff dest: in_set_takeD in_set_dropD)

lemma reportInv_waiter:
  assumes s: "waiterStep i b w = Some w'" and inv: "reportInv w"
  shows "reportInv w'"
proof -
  from s have i: "i < length (sw_waiters w)" by (auto simp: waiterStep_def split: if_splits)
  obtain c m where cm: "sw_waiters w ! i = (c, m)" by fastforce
  have all: "list_all (\<lambda>cm. \<not> isTerminal (snd cm)) (sw_waiters w)" using inv by (simp add: reportInv_def)
  with i cm have m: "\<not> isTerminal m" by (metis list_all_length snd_conv)
  let ?ws = "take i (sw_waiters w) @ drop (Suc i) (sw_waiters w)"
  from s i cm have "w' = w \<lparr> sw_waiters := ?ws \<rparr> \<or> w' = w \<lparr> sw_waiters := ?ws, sw_out := sw_out w @ [m] \<rparr>"
    by (auto simp: waiterStep_def Let_def split: if_splits)
  then show ?thesis
  proof
    assume w': "w' = w \<lparr> sw_waiters := ?ws \<rparr>"
    show ?thesis using inv list_all_remove [OF all, of i] unfolding w' reportInv_def by simp
  next
    assume w': "w' = w \<lparr> sw_waiters := ?ws, sw_out := sw_out w @ [m] \<rparr>"
    show ?thesis using inv list_all_remove [OF all, of i] m unfolding w' reportInv_def by simp
  qed
qed

lemma setJobPhase_all:
  assumes "list_all (\<lambda>g. P (sj_phase g)) (sw_jobs w)" "P ph" "i < length (sw_jobs w)"
  shows "list_all (\<lambda>g. P (sj_phase g)) (sw_jobs (setJobPhase i ph w))"
  using assms unfolding setJobPhase_def list_all_length by (auto simp: nth_list_update)

lemma reportInv_job:
  assumes s: "sjobStep py i a w = Some w'" and inv: "reportInv w" "drainInv w"
  shows "reportInv w'"
proof -
  from s have i: "i < length (sw_jobs w)" by (auto split: if_splits)
  let ?P = "\<lambda>ph. case ph of SReporting m \<Rightarrow> isTerminal m | _ \<Rightarrow> True"
  have "0 < liveJobs w" by (rule sjobStep_count(3) [OF s])
  with inv(2) have nd: "\<not> (sw_flushClosed w \<and> sw_state w = stateDraining)" by (auto simp: drainInv_def drained_def)
  have all: "list_all (\<lambda>g. ?P (sj_phase g)) (sw_jobs w)" using inv(1) by (simp add: reportInv_def)
  then have g: "?P (sj_phase (sw_jobs w ! i))" using i by (simp add: list_all_length)
  have ph: "list_all (\<lambda>g. ?P (sj_phase g)) (sw_jobs (setJobPhase i p v))" if "?P p" "sw_jobs v = sw_jobs w" for p v
    using setJobPhase_all [of ?P v p i] all i that by simp
  have out: "sw_reported w' = sw_reported w \<and> filter isTerminal (sw_out w') = filter isTerminal (sw_out w) \<or>
      (\<exists>m. sw_reported w' = sw_reported w @ [m] \<and> sw_out w' = sw_out w @ [m] \<and> isTerminal m)"
    using s g by (cases "sj_phase (sw_jobs w ! i)"; cases a)
      (auto simp: Let_def uncount_def stepMessage_fenced(1) split: if_splits option.splits)
  have jobs: "list_all (\<lambda>g. ?P (sj_phase g)) (sw_jobs w')"
    using s g all by (cases "sj_phase (sw_jobs w ! i)"; cases a)
      (auto simp: Let_def uncount_def reportMessage_fenced intro!: ph split: if_splits option.splits)
  from out show ?thesis
    using inv(1) jobs nd sjobStep_frame(3,4,6,8-11) [OF s] unfolding reportInv_def filter_append by (elim disjE exE conjE) auto
qed

lemma reportInv_step:
  assumes "sact cfg a w = Some w'" "reportInv w" "drainInv w"
  shows "reportInv w'"
proof (cases a)
  case (CallStep i t)
  with assms(1) obtain c w1 where c: "scallStep t (sw_calls w ! i) w = Some (c, w1)"
    and w': "w' = w1 \<lparr> sw_calls := (sw_calls w)[i := c] \<rparr>" by (metis sact_call)
  from reportInv_call [OF c assms(2,3)] show ?thesis unfolding w' reportInv_def by simp
next
  case (SJobStep i b)
  with assms(1) have j: "sjobStep (sc_py cfg) i b w = Some w'" by simp
  from reportInv_job [OF j assms(2,3)] show ?thesis .
next
  case (RunStep e b)
  with assms(1) have j: "srunStep e b w = Some w'" by simp
  from reportInv_run [OF j assms(2,3)] show ?thesis .
next
  case (RecvStep b)
  with assms(1) have j: "recvStep (sc_fmt cfg) (sc_maxJobs cfg) b w = Some w'" by simp
  from reportInv_recv [OF j assms(2,3)] show ?thesis .
next
  case (SendStep b)
  with assms(1) have j: "sendStep (sc_workerID cfg) b w = Some w'" by simp
  from reportInv_send [OF j assms(2)] show ?thesis .
next
  case (WaiterStep i b)
  with assms(1) have j: "waiterStep i b w = Some w'" by simp
  from reportInv_waiter [OF j assms(2)] show ?thesis .
next
  case (Called d)
  with assms(1) have w': "w' = w \<lparr> sw_calls := sw_calls w @ [if d then DLoad else SStore] \<rparr>" by simp
  from assms(2) show ?thesis unfolding w' reportInv_def by simp
next
  case ConnCancel
  with assms(1) have w': "w' = w \<lparr> sw_connDone := True \<rparr>" by (simp split: if_splits)
  from assms(2) show ?thesis unfolding w' reportInv_def by simp
qed

section \<open>The invariant of the fences\<close>

type_synonym ident = "string \<times> fence"

definition jobIdent :: "job_assignment \<Rightarrow> ident" where
  "jobIdent job = (ja_JobID job, ja_ExecutionSeq job, ja_LeaseToken job)"

definition protoIdent :: "proto_job \<Rightarrow> ident" where
  "protoIdent pj = (pb_JobId pj, pb_ExecutionSeq pj, pb_LeaseToken pj)"

text \<open>A message about a job names a job and its fence.\<close>

definition identOK :: "ident set \<Rightarrow> worker_msg \<Rightarrow> bool" where
  "identOK I m \<longleftrightarrow> (\<forall>j f. messageJob m = Some j \<longrightarrow> messageFence m = Some f \<longrightarrow> (j, f) \<in> I)"

fun recvIdent :: "srecv \<Rightarrow> ident option" where
  "recvIdent (RecvAdd pj) = Some (protoIdent pj)" | "recvIdent (RecvCheck pj _) = Some (protoIdent pj)"
| "recvIdent (RecvNack pj _) = Some (protoIdent pj)" | "recvIdent (RecvAck pj) = Some (protoIdent pj)"
| "recvIdent (RecvConvert pj) = Some (protoIdent pj)" | "recvIdent (RecvStore job) = Some (jobIdent job)"
| "recvIdent _ = None"

definition sjobOK :: "ident set \<Rightarrow> sjob \<Rightarrow> bool" where
  "sjobOK I g \<longleftrightarrow> jobIdent (sj_job g) \<in> I \<and> (case sj_phase g of SReporting m \<Rightarrow> identOK I m | _ \<Rightarrow> True)"

definition idents :: "sworker \<Rightarrow> ident set" where
  "idents w = protoIdent ` set (sw_assigned w)"

definition fencedBy :: "ident set \<Rightarrow> sworker \<Rightarrow> bool" where
  "fencedBy I w \<longleftrightarrow>
     list_all (identOK I) (sw_wire w) \<and> list_all (identOK I) (sw_out w) \<and> list_all (\<lambda>cm. identOK I (snd cm)) (sw_waiters w) \<and>
     list_all (sjobOK I) (sw_jobs w) \<and> (\<forall>x. recvIdent (sw_recv w) = Some x \<longrightarrow> x \<in> I)"

lemma identOK_mono: "I \<subseteq> J \<Longrightarrow> identOK I m \<Longrightarrow> identOK J m"
  by (auto simp: identOK_def)

lemma sjobOK_mono: "I \<subseteq> J \<Longrightarrow> sjobOK I g \<Longrightarrow> sjobOK J g"
  using identOK_mono by (auto simp: sjobOK_def split: sphase.splits)

lemma fencedBy_mono: "I \<subseteq> J \<Longrightarrow> fencedBy I w \<Longrightarrow> fencedBy J w"
  unfolding fencedBy_def list_all_iff using identOK_mono sjobOK_mono by blast

lemma cancelWhere_sjobOK [simp]: "list_all (sjobOK I) (sw_jobs (cancelWhere P w)) = list_all (sjobOK I) (sw_jobs w)"
proof -
  have "sjobOK I (if b then g \<lparr> sj_cancelled := True \<rparr> else g) = sjobOK I g" for b g by (simp add: sjobOK_def)
  then show ?thesis by (simp add: cancelWhere_def list.pred_map o_def)
qed

lemma fencedBy_call:
  assumes "scallStep t c w = Some (c', w1)"
  shows "fencedBy I w1 = fencedBy I w"
proof -
  have "list_all (sjobOK I) (sw_jobs w1) = list_all (sjobOK I) (sw_jobs w)"
    using assms by (cases c; cases t) (auto split: if_splits)
  with scallStep_frame(3,5,6,8) [OF assms] show ?thesis by (simp add: fencedBy_def)
qed

lemma fencedBy_run:
  assumes s: "srunStep ctxErr a w = Some w'" and inv: "fencedBy I w"
  shows "fencedBy I w'"
proof (cases "\<exists>t. a = RunCallTick t")
  case True
  with s obtain c err t c' w1 where c: "scallStep t c w = Some (c', w1)" and w': "w' = w1 \<lparr> sw_run := InStop c' err \<rparr>"
    by (metis srunStep_call)
  from fencedBy_call [OF c, of I] inv show ?thesis unfolding w' fencedBy_def by simp
next
  case False
  have "list_all (sjobOK I) (sw_jobs w') = list_all (sjobOK I) (sw_jobs w)"
    using s False by (cases "sw_run w"; cases a) (auto split: if_splits option.splits scall.splits srecv.splits)
  with srunStep_other(7,8) [OF s False] srunStep_messages(1) [OF s False] inv show ?thesis
    by (auto simp: fencedBy_def)
qed

lemma enqueue_idents:
  "identOK I m \<Longrightarrow> list_all (identOK I) (sw_out w) \<Longrightarrow> list_all (identOK I) (sw_out (enqueue m w))"
  "identOK I m \<Longrightarrow> list_all (\<lambda>cm. identOK I (snd cm)) (sw_waiters w) \<Longrightarrow> list_all (\<lambda>cm. identOK I (snd cm)) (sw_waiters (enqueue m w))"
  by (simp_all add: enqueue_def)

lemma fencedBy_enqueue: "identOK I m \<Longrightarrow> fencedBy I w \<Longrightarrow> fencedBy I (enqueue m w)"
  by (simp add: fencedBy_def enqueue_idents)

lemma fencedBy_startJob: "jobIdent job \<in> I \<Longrightarrow> fencedBy I w \<Longrightarrow> fencedBy I (startJob job w)"
  by (simp add: fencedBy_def startJob_def uncount_def sjobOK_def)

lemma fencedBy_recvAt: "fencedBy I w \<Longrightarrow> (\<And>x. recvIdent r = Some x \<Longrightarrow> x \<in> I) \<Longrightarrow> fencedBy I (w \<lparr> sw_recv := r \<rparr>)"
  by (simp add: fencedBy_def)

lemma fencedBy_same [simp]:
  "fencedBy I (uncount w) = fencedBy I w" "fencedBy I (w \<lparr> sw_jobCount := n \<rparr>) = fencedBy I w"
  "fencedBy I (w \<lparr> sw_assigned := ps \<rparr>) = fencedBy I w" "fencedBy I (w \<lparr> sw_state := st \<rparr>) = fencedBy I w"
  "fencedBy I (w \<lparr> sw_calls := cs \<rparr>) = fencedBy I w" "fencedBy I (cancelWhere P w) = fencedBy I w"
  by (simp_all add: fencedBy_def uncount_def)

lemma assignment_ident: "protoToJobAssignment fmt pj = Inr job \<Longrightarrow> jobIdent job = protoIdent pj"
  using assignment_fields by (simp add: jobIdent_def protoIdent_def)

lemma fencedBy_recv:
  assumes s: "recvStep fmt k a w = Some w'" and inv: "fencedBy (idents w) w"
  shows "fencedBy (idents w') w'"
proof -
  have sub: "idents w \<subseteq> idents w'"
    using s by (cases "sw_recv w"; cases a)
      (auto simp: idents_def startJob_def uncount_def split: engine_msg.splits if_splits sum.splits)
  have r: "recvIdent (sw_recv w) = Some x \<Longrightarrow> x \<in> idents w'" for x using inv sub by (auto simp: fencedBy_def)
  have i: "fencedBy (idents w') w" by (rule fencedBy_mono [OF sub inv])
  show ?thesis
  proof (cases "sw_recv w")
    case RecvTop
    show ?thesis
    proof (cases a)
      case (RecvMsg em)
      show ?thesis
      proof (cases em)
        case (EJob pj)
        with s RecvTop RecvMsg have w': "w' = w \<lparr> sw_assigned := sw_assigned w @ [pj],
            sw_recv := (if sw_active w (protoKey pj) \<noteq> None then RecvTop else RecvAdd pj) \<rparr>" by simp
        have p: "protoIdent pj \<in> idents w'" by (simp add: w' idents_def)
        have "fencedBy (idents w') (w \<lparr> sw_assigned := sw_assigned w @ [pj],
            sw_recv := (if sw_active w (protoKey pj) \<noteq> None then RecvTop else RecvAdd pj) \<rparr>)"
          by (rule fencedBy_recvAt) (use i p in \<open>auto split: if_splits\<close>)
        then show ?thesis by (simp only: w' [symmetric])
      qed (use s RecvTop RecvMsg i in auto)
    qed (use s RecvTop i in \<open>auto intro!: fencedBy_recvAt split: if_splits\<close>)
  next
    case (RecvNack pj reason)
    with s i r show ?thesis by (cases a) (auto intro!: fencedBy_recvAt fencedBy_enqueue simp: identOK_def protoIdent_def)
  next
    case (RecvAck pj)
    with s i r show ?thesis by (cases a) (auto intro!: fencedBy_recvAt fencedBy_enqueue simp: identOK_def protoIdent_def)
  next
    case (RecvConvert pj)
    with s i r assignment_ident show ?thesis by (cases a) (auto intro!: fencedBy_recvAt split: sum.splits)
  next
    case (RecvStore job)
    with s i r show ?thesis by (cases a) (auto intro!: fencedBy_recvAt fencedBy_startJob)
  qed (use s i r in \<open>cases a; auto intro!: fencedBy_recvAt split: if_splits\<close>)+
qed

lemma fencedBy_job:
  assumes s: "sjobStep py i a w = Some w'" and inv: "fencedBy I w"
  shows "fencedBy I w'"
proof -
  from s have i: "i < length (sw_jobs w)" by (auto split: if_splits)
  let ?g = "sw_jobs w ! i"
  have all: "list_all (sjobOK I) (sw_jobs w)" using inv by (simp add: fencedBy_def)
  with i have g: "sjobOK I ?g" by (simp add: list_all_length)
  have rep: "identOK I m" if "reportMessage py now (sj_job ?g) rep = Some m" for now rep m
    using reportMessage_fenced [OF that] g by (auto simp: identOK_def sjobOK_def jobIdent_def)
  have stp: "identOK I (stepMessage py (sj_job ?g) rep)" for rep
    using stepMessage_fenced(2,3) [of py "sj_job ?g" rep] g by (auto simp: identOK_def sjobOK_def jobIdent_def)
  have ph: "fencedBy I (setJobPhase i p v)" if "fencedBy I v" "sw_jobs v = sw_jobs w" "sjobOK I (?g \<lparr> sj_phase := p \<rparr>)" for p v
  proof -
    have "list_all (sjobOK I) ((sw_jobs w)[i := ?g \<lparr> sj_phase := p \<rparr>])"
      using all i that(3) by (auto simp: list_all_length nth_list_update)
    with that show ?thesis by (simp add: fencedBy_def setJobPhase_def)
  qed
  have quiet: "sjobOK I (?g \<lparr> sj_phase := p \<rparr>)" if "\<And>m. p \<noteq> SReporting m" for p
    using g that by (cases p) (auto simp: sjobOK_def)
  show ?thesis
  proof (cases "sj_phase ?g")
    case SExecuting
    show ?thesis
    proof (cases a)
      case (JobReport now rp)
      show ?thesis
      proof (cases "reportMessage py now (sj_job ?g) rp")
        case None
        with s i SExecuting JobReport inv quiet show ?thesis by (auto simp: Let_def intro!: ph)
      next
        case (Some m)
        have "sjobOK I (?g \<lparr> sj_phase := SReporting m \<rparr>)" using g rep [OF Some] by (simp add: sjobOK_def)
        with s i SExecuting JobReport Some inv show ?thesis by (auto simp: Let_def intro!: ph)
      qed
    next
      case JobQuiet
      with s i SExecuting inv quiet show ?thesis by (auto simp: Let_def intro!: ph split: if_splits)
    next
      case (JobStep rp)
      with s i SExecuting inv stp show ?thesis by (cases "length (sw_out w) < outCap") (auto simp: Let_def fencedBy_def)
    qed (use s i SExecuting in \<open>auto simp: Let_def\<close>)
  next
    case (SReporting m)
    with g have m: "identOK I m" by (simp add: sjobOK_def)
    with inv have "fencedBy I (w \<lparr> sw_out := sw_out w @ [m], sw_reported := sw_reported w @ [m] \<rparr>)" by (simp add: fencedBy_def)
    with s i SReporting inv quiet show ?thesis by (cases a) (auto simp: Let_def intro!: ph split: if_splits)
  next
    case SDelete
    have "fencedBy I (w \<lparr> sw_active := f \<rparr>)" for f using inv by (simp add: fencedBy_def)
    with s i SDelete inv quiet show ?thesis by (cases a) (auto simp: Let_def intro!: ph split: if_splits)
  next
    case SUncount
    with s i inv quiet show ?thesis by (cases a) (auto simp: Let_def uncount_def intro!: ph)
  next
    case SGone
    with s i show ?thesis by (cases a) (auto simp: Let_def)
  qed
qed

lemma fencedBy_send: "sendStep wid a w = Some w' \<Longrightarrow> fencedBy I w \<Longrightarrow> fencedBy I w'"
  by (cases "sw_send w"; cases a) (auto simp: fencedBy_def sendFirst_def identOK_def split: if_splits list.splits)

lemma fencedBy_waiter:
  assumes s: "waiterStep i b w = Some w'" and inv: "fencedBy I w"
  shows "fencedBy I w'"
proof -
  from s have i: "i < length (sw_waiters w)" by (auto simp: waiterStep_def split: if_splits)
  obtain c m where cm: "sw_waiters w ! i = (c, m)" by fastforce
  have all: "list_all (\<lambda>cm. identOK I (snd cm)) (sw_waiters w)" using inv by (simp add: fencedBy_def)
  with i cm have m: "identOK I m" by (metis list_all_length snd_conv)
  from s i cm have "w' = w \<lparr> sw_waiters := take i (sw_waiters w) @ drop (Suc i) (sw_waiters w) \<rparr> \<or>
      w' = w \<lparr> sw_waiters := take i (sw_waiters w) @ drop (Suc i) (sw_waiters w), sw_out := sw_out w @ [m] \<rparr>"
    by (auto simp: waiterStep_def Let_def split: if_splits)
  then show ?thesis using inv list_all_remove [OF all, of i] m by (elim disjE) (simp_all add: fencedBy_def)
qed

lemma fenced_step:
  assumes "sact cfg a w = Some w'" "fencedBy (idents w) w"
  shows "fencedBy (idents w') w'"
proof (cases a)
  case (CallStep i t)
  with assms(1) obtain c w1 where c: "scallStep t (sw_calls w ! i) w = Some (c, w1)"
    and w': "w' = w1 \<lparr> sw_calls := (sw_calls w)[i := c] \<rparr>" by (metis sact_call)
  have "idents w' = idents w" using scallStep_frame(12) [OF c] by (simp add: w' idents_def)
  with fencedBy_call [OF c] assms(2) show ?thesis by (simp add: w')
next
  case (SJobStep i b)
  with assms(1) have j: "sjobStep (sc_py cfg) i b w = Some w'" by simp
  from fencedBy_job [OF j assms(2)] sjobStep_frame(7) [OF j] show ?thesis by (simp add: idents_def)
next
  case (RunStep e b)
  with assms(1) have j: "srunStep e b w = Some w'" by simp
  have "sw_assigned w' = sw_assigned w"
  proof (cases "\<exists>t. b = RunCallTick t")
    case True
    then obtain t where "b = RunCallTick t" by blast
    with j obtain c err c' w1 where "scallStep t c w = Some (c', w1)" "w' = w1 \<lparr> sw_run := InStop c' err \<rparr>" by (metis srunStep_call)
    with scallStep_frame(12) show ?thesis by simp
  qed (rule srunStep_other(9) [OF j])
  with fencedBy_run [OF j assms(2)] show ?thesis by (simp add: idents_def)
next
  case (RecvStep b)
  with assms(1) have j: "recvStep (sc_fmt cfg) (sc_maxJobs cfg) b w = Some w'" by simp
  from fencedBy_recv [OF j assms(2)] show ?thesis .
next
  case (SendStep b)
  with assms(1) have j: "sendStep (sc_workerID cfg) b w = Some w'" by simp
  from fencedBy_send [OF j assms(2)] sendStep_frame(11) [OF j] show ?thesis by (simp add: idents_def)
next
  case (WaiterStep i b)
  with assms(1) have j: "waiterStep i b w = Some w'" by simp
  from fencedBy_waiter [OF j assms(2)] waiterStep_frame(10) [OF j] show ?thesis by (simp add: idents_def)
next
  case (Called d)
  with assms show ?thesis by (auto simp: idents_def)
next
  case ConnCancel
  with assms show ?thesis by (auto simp: idents_def fencedBy_def split: if_splits)
qed

section \<open>What the worker guarantees\<close>

definition streamInv :: "sconfig \<Rightarrow> sworker \<Rightarrow> bool" where
  "streamInv cfg w \<longleftrightarrow> countInv (sc_maxJobs cfg) w \<and> drainInv w \<and> reportInv w \<and> fencedBy (idents w) w"

interpretation streaming: step_invariant "sact cfg" "streamInv cfg" for cfg
  by unfold_locales (auto simp: streamInv_def simp del: sact.simps intro: countInv_step drainInv_step reportInv_step fenced_step)

abbreviation streamReaches :: "sconfig \<Rightarrow> sworker \<Rightarrow> bool" where
  "streamReaches cfg w \<equiv> reaches (sact cfg) newStreamingWorker w"

lemma stream_invariant: "streamReaches cfg w \<Longrightarrow> streamInv cfg w"
proof -
  have "streamInv cfg newStreamingWorker"
    by (simp add: streamInv_def newStreamingWorker_def countInv_def drainInv_def drained_def reportInv_def fencedBy_def liveJobs_def)
  then show "streamReaches cfg w \<Longrightarrow> streamInv cfg w" by (rule streaming.reached_keep [rotated])
qed

text \<open>C23. A drained stream has every report on it: when the worker has half-closed a stream at the end of a drain, no job is
  left, none is being admitted, and the reports on the wire are exactly those the jobs queued on this connection, in
  their order.\<close>

theorem graceful_drain_sends_every_report:
  assumes "streamReaches cfg w" "sw_halfClosed w" "sw_state w = stateDraining"
  shows "filter isTerminal (sw_wire w) = sw_reported w \<and> liveJobs w = 0 \<and> \<not> admitted (sw_recv w)"
proof -
  from stream_invariant [OF assms(1)] have i: "reportInv w" "drainInv w" by (simp_all add: streamInv_def)
  from i(1) assms(2,3) have "filter isTerminal (sw_wire w) = sw_reported w" by (auto simp: reportInv_def)
  moreover from i assms(2,3) have "liveJobs w = 0 \<and> \<not> admitted (sw_recv w)"
    by (simp add: reportInv_def drainInv_def drained_def)
  ultimately show ?thesis by blast
qed

text \<open>The streaming worker never runs more jobs than \<open>MaxConcurrentJobs\<close>, whatever the engine assigns, and its counter is
  the number of its jobs, the one it is admitting included.\<close>

theorem streaming_capacity_respected:
  assumes "streamReaches cfg w"
  shows "int (liveJobs w) \<le> max 0 (sc_maxJobs cfg) \<and> sw_jobCount w = int (liveJobs w) + countedIn (sw_recv w)"
proof -
  from stream_invariant [OF assms] have "int (liveJobs w) + of_bool (admitted (sw_recv w)) \<le> max 0 (sc_maxJobs cfg)"
    "sw_jobCount w = int (liveJobs w) + countedIn (sw_recv w)" by (simp_all add: streamInv_def countInv_def)
  moreover have "(0::int) \<le> of_bool (admitted (sw_recv w))" by simp
  ultimately show ?thesis by linarith
qed

text \<open>C24. Every message about a job, sent or waiting to be sent, names a job that the engine assigned together with the
  execution fence it was assigned with.\<close>

theorem streaming_messages_fenced:
  assumes "streamReaches cfg w"
  shows "list_all (identOK (idents w)) (sw_wire w @ sw_out w)"
  using stream_invariant [OF assms] by (simp add: streamInv_def fencedBy_def)

section \<open>An example\<close>

text \<open>A worker that connects, runs a job, is told to shut down, refuses a second job and closes its stream.\<close>

definition demoStream :: sconfig where
  "demoStream = \<lparr> sc_workerID = ''w'', sc_maxJobs = 1, sc_fmt = (\<lambda>_. []),
     sc_py = \<lparr> py_isMap = (\<lambda>_. False), py_structErr = (\<lambda>_. None) \<rparr> \<rparr>"

definition demoProto :: "string \<Rightarrow> int \<Rightarrow> proto_job" where
  "demoProto j n = \<lparr> pb_JobId = j, pb_RunId = ''r'', pb_FunctionId = ''f'', pb_Attempt = 1, pb_MaxAttempts = 3,
     pb_OnExhausted = [], pb_Event = None, pb_Steps = [], pb_Secrets = Map.empty, pb_ExecutionSeq = n, pb_LeaseToken = ''t'' \<rparr>"

abbreviation runGo :: stream_act where "runGo \<equiv> RunStep None RunGo"
abbreviation recvGo :: stream_act where "recvGo \<equiv> RecvStep RecvGo"

definition demoStreamActs :: "stream_act list" where
  "demoStreamActs =
     [runGo, runGo, runGo, runGo, RunStep None (RunReply None), runGo, RunStep None (RunReply None), runGo, runGo, runGo, runGo,
      RecvStep (RecvMsg (EJob (demoProto ''a'' 1))), recvGo, recvGo, recvGo, recvGo, recvGo,
      RecvStep (RecvMsg (EShutdown 0)), RecvStep (RecvMsg (EJob (demoProto ''b'' 2))), recvGo, recvGo, recvGo,
      SJobStep 0 (JobReport 0 (JobCompleted GNil [] 0)), SJobStep 0 JobSent, SJobStep 0 JobGo, SJobStep 0 JobGo,
      CallStep 0 TGo, CallStep 0 TGo, CallStep 0 TGo, CallStep 0 TGo, SendStep SendSeeFlush, SendStep (SendMsg True),
      SendStep (SendMsg True), SendStep (SendMsg True), SendStep SendClose]"

abbreviation demoStreamEnd :: sworker where
  "demoStreamEnd \<equiv> the (runSteps (sact demoStream) demoStreamActs newStreamingWorker)"

lemma demo_stream_runs: "runSteps (sact demoStream) demoStreamActs newStreamingWorker \<noteq> None"
  by code_simp

lemma demo_stream_reached: "streamReaches demoStream demoStreamEnd"
proof -
  from demo_stream_runs obtain w where w: "runSteps (sact demoStream) demoStreamActs newStreamingWorker = Some w" by blast
  from runSteps_reaches [OF w reaches.here] show ?thesis by (simp add: w)
qed

theorem graceful_drain_sends_every_report_witness:
  "filter isTerminal (sw_wire demoStreamEnd) = sw_reported demoStreamEnd \<and>
   sw_wire demoStreamEnd =
     [MJobAck ''a'' (1, ''t''), MJobNack ''b'' ''r'' (2, ''t'') JOB_NACK_REASON_DRAINING,
      MJobCompleted ''a'' (None, None) (1, ''t'')]"
proof
  have h: "sw_halfClosed demoStreamEnd" "sw_state demoStreamEnd = stateDraining" by code_simp+
  show "filter isTerminal (sw_wire demoStreamEnd) = sw_reported demoStreamEnd"
    using graceful_drain_sends_every_report [OF demo_stream_reached h] by blast
qed code_simp

theorem streaming_capacity_respected_witness:
  "int (liveJobs demoStreamEnd) \<le> max 0 (sc_maxJobs demoStream)"
  using streaming_capacity_respected [OF demo_stream_reached] by blast

theorem streaming_messages_fenced_witness:
  "list_all (identOK (idents demoStreamEnd)) (sw_wire demoStreamEnd @ sw_out demoStreamEnd)"
  by (rule streaming_messages_fenced [OF demo_stream_reached])

section \<open>A job that cannot be converted\<close>

text \<open>An assignment whose event cannot be converted is acknowledged and then dropped: no goroutine runs it and
  nothing is reported of it.\<close>

theorem unconvertible_job_is_acked_and_dropped:
  assumes "sw_recv w = RecvAck pj" "protoToJobAssignment (sc_fmt cfg) pj = Inl e" "length (sw_out w) < outCap"
  shows "\<exists>w'. runSteps (sact cfg) [recvGo, recvGo] w = Some w' \<and> sw_recv w' = RecvTop \<and> sw_jobs w' = sw_jobs w \<and>
    sw_out w' = sw_out w @ [MJobAck (pb_JobId pj) (pb_ExecutionSeq pj, pb_LeaseToken pj)]"
  using assms by (simp add: enqueue_def uncount_def)

end
