(* ===== verification/Publish.thy ===== *)
theory Publish
  imports Claims Steps Worker_Protocol Signature
begin

text \<open>
  Publishing to a topic from inside a workflow (\<^verbatim>\<open>src/ironflow/step.go\<close>: \<open>Publish\<close>,
  \<open>PublishWithBranch\<close>, \<open>doPublish\<close>, \<open>defaultKey\<close>, \<open>publishStepName\<close>; the options are in
  \<^verbatim>\<open>types.go\<close>). The publish is a durable step whose body is one HTTP call; sending it is the
  argument \<open>send\<close>. 
\<close>

section \<open>The idempotency key\<close>

text \<open>What the step uses of the standard library: the bytes \<open>json.Marshal\<close> gives for a document,
  \<open>sha256.Sum256\<close>, and the first value a \<open>json.Decoder\<close> finds in a body (or its error).\<close>

record publish_env =
  pe_text :: "json \<Rightarrow> string"
  pe_sha256 :: "string \<Rightarrow> string"
  pe_first :: "string \<Rightarrow> string + json"

definition defaultKey :: "publish_env \<Rightarrow> string \<Rightarrow> string" where
  "defaultKey env seed = ''step-'' @ hexEncode (pe_sha256 env seed)"

definition publishStepName :: "string \<Rightarrow> string" where
  "publishStepName topic = ''publish:'' @ topic"

section \<open>The call\<close>

text \<open>What comes of sending: no request, no response, or a status code, a status line and the part of
  the body that could be read.\<close>

datatype publish_answer =
    PubNotCreated goerr
  | PubNotSent goerr
  | PubAnswered int string string

text \<open>Each \<open>WithPublishIdempotencyKey\<close> option overwrites the one before it.\<close>

definition publishKey :: "string list \<Rightarrow> string \<Rightarrow> string" where
  "publishKey opts key = (let k = foldl (\<lambda>_ o'. o') [] opts in if k = [] then key else k)"

definition publishBody :: "string \<Rightarrow> gval \<Rightarrow> string \<Rightarrow> gval" where
  "publishBody topic data key =
     gobj ([(''topic'', gstr topic), (''data'', data)]
       @ (if key \<noteq> [] then [(''idempotencyKey'', gstr key)] else []))"

definition publishHeader :: "exec \<Rightarrow> (string \<rightharpoonup> string)" where
  "publishHeader c =
     [''Content-Type'' \<mapsto> ''application/json'']
       ++ (if ec_apiKey c \<noteq> [] then [''Authorization'' \<mapsto> ''Bearer '' @ ec_apiKey c] else Map.empty)
       ++ (if ec_runID c \<noteq> [] then [''X-Ironflow-Run-ID'' \<mapsto> ec_runID c] else Map.empty)
       ++ (if ec_environment c \<noteq> [] then [''X-Ironflow-Environment-ID'' \<mapsto> ec_environment c] else Map.empty)"

definition publishCall :: "exec \<Rightarrow> json \<Rightarrow> http_call" where
  "publishCall c body = \<lparr> hc_Method = ''POST'', hc_URL = ec_serverURL c @ ''/ironflow.v1.PubSubService/Publish'',
     hc_Header = publishHeader c, hc_Body = Some body \<rparr>"

text \<open>Decoding the first value of the body into \<open>map[string]any\<close>; \<open>jsonKind\<close> is the word
  \<open>encoding/json\<close> uses for a value that does not fit.\<close>

definition jsonKind :: "json \<Rightarrow> string" where
  "jsonKind j = (case j of JNull \<Rightarrow> ''null'' | JBool _ \<Rightarrow> ''bool'' | JNum _ \<Rightarrow> ''number'' | JStr _ \<Rightarrow> ''string''
     | JArr _ \<Rightarrow> ''array'' | JObj _ \<Rightarrow> ''object'')"

definition decodeMap :: "string + json \<Rightarrow> string + gval" where
  "decodeMap r =
     (case r of
        Inl m \<Rightarrow> Inl m
      | Inr j \<Rightarrow>
          (case j of
             JObj kvs \<Rightarrow> Inr (GJson (JObj kvs))
           | JNull \<Rightarrow> Inr (GJson JNull)
           | _ \<Rightarrow> Inl (''json: cannot unmarshal '' @ jsonKind j @ '' into Go value of type map[string]interface {}'')))"

definition publishResult :: "publish_env \<Rightarrow> string \<Rightarrow> gval \<times> goerr option" where
  "publishResult env text =
     (case decodeMap (pe_first env text) of
        Inl m \<Rightarrow> (GNil, Some (EWrap (''failed to decode publish response: '' @ m) [ENew m]))
      | Inr v \<Rightarrow> (v, None))"

definition doPublish ::
  "publish_env \<Rightarrow> (http_call \<Rightarrow> world \<Rightarrow> publish_answer \<times> world) \<Rightarrow> exec \<Rightarrow> string \<Rightarrow> gval \<Rightarrow> string
   \<Rightarrow> string list \<Rightarrow> world \<Rightarrow> (gval \<times> goerr option) \<times> world" where
  "doPublish env send c topic data key opts w =
     (if ec_serverURL c = [] then ((GNil, Some (ENew ''server URL not configured for publish step'')), w)
      else case marshal (publishBody topic data (publishKey opts key)) of
             Inl m \<Rightarrow> ((GNil, Some (EWrap (''failed to marshal publish request: '' @ m) [ENew m])), w)
           | Inr body \<Rightarrow>
               (case send (publishCall c body) w of
                  (PubNotCreated err, w1) \<Rightarrow> ((GNil, Some err), w1)
                | (PubNotSent err, w1) \<Rightarrow> ((GNil, Some err), w1)
                | (PubAnswered status line text, w1) \<Rightarrow>
                    if status \<noteq> 200 then ((GNil, Some (ENew (''publish failed: '' @ line @ '' '' @ text))), w1)
                    else (publishResult env text, w1)))"

text \<open>The step bodies. \<open>timer\<close> tells, from the worlds before and after the call, whether the timer of a
  function-level step timeout wins.\<close>

definition publishRun :: "(world \<Rightarrow> world \<Rightarrow> bool) \<Rightarrow> world \<Rightarrow> (gval \<times> goerr option) \<times> world \<Rightarrow> fn_run \<times> world" where
  "publishRun timer w x =
     (\<lparr> fr_value = fst (fst x), fr_err = snd (fst x), fr_timerFirst = timer w (snd x) \<rparr>, snd x)"

definition publishSeed :: "publish_env \<Rightarrow> string \<Rightarrow> json \<Rightarrow> string" where
  "publishSeed env stepID payload = stepID @ [CHR 0x00] @ pe_text env payload"

definition publishStep ::
  "publish_env \<Rightarrow> (world \<Rightarrow> world \<Rightarrow> bool) \<Rightarrow> (http_call \<Rightarrow> world \<Rightarrow> publish_answer \<times> world) \<Rightarrow> exec \<Rightarrow> string
   \<Rightarrow> gval \<Rightarrow> string list \<Rightarrow> stepfn" where
  "publishStep env timer send c topic data opts stepID w =
     publishRun timer w
       (case marshal data of
          Inl m \<Rightarrow> ((GNil, Some (EWrap (''failed to marshal publish data: '' @ m) [ENew m])), w)
        | Inr payload \<Rightarrow> doPublish env send c topic data (defaultKey env (publishSeed env stepID payload)) opts w)"

definition branchPublishStep ::
  "publish_env \<Rightarrow> (world \<Rightarrow> world \<Rightarrow> bool) \<Rightarrow> (http_call \<Rightarrow> world \<Rightarrow> publish_answer \<times> world) \<Rightarrow> exec \<Rightarrow> string
   \<Rightarrow> gval \<Rightarrow> string list \<Rightarrow> stepfn" where
  "branchPublishStep env timer send c topic data opts stepID w =
     publishRun timer w (doPublish env send c topic data (defaultKey env stepID) opts w)"

definition publishOutcome :: "gval outcome \<Rightarrow> unit outcome" where
  "publishOutcome r = (case r of Ret _ err \<Rightarrow> Ret () err | Yield y \<Rightarrow> Yield y)"

definition Publish ::
  "publish_env \<Rightarrow> (world \<Rightarrow> world \<Rightarrow> bool) \<Rightarrow> (http_call \<Rightarrow> world \<Rightarrow> publish_answer \<times> world) \<Rightarrow> string \<Rightarrow> gval
   \<Rightarrow> string list \<Rightarrow> exec \<Rightarrow> world \<Rightarrow> unit outcome \<times> exec \<times> world" where
  "Publish env timer send topic data opts c w =
     (let (r, c1, w1) = runWithStepID anyType (publishStepName topic)
            (publishStep env timer send c topic data opts) [] c w
      in (publishOutcome r, c1, w1))"

definition PublishWithBranch ::
  "publish_env \<Rightarrow> (world \<Rightarrow> world \<Rightarrow> bool) \<Rightarrow> (http_call \<Rightarrow> world \<Rightarrow> publish_answer \<times> world) \<Rightarrow> nat \<Rightarrow> string \<Rightarrow> gval
   \<Rightarrow> string list \<Rightarrow> exec \<Rightarrow> world \<Rightarrow> unit outcome \<times> exec \<times> world" where
  "PublishWithBranch env timer send b topic data opts c w =
     (let (r, c1, w1) = runBranchWithStepID b anyType (publishStepName topic)
            (branchPublishStep env timer send c topic data opts) [] c w
      in (publishOutcome r, c1, w1))"

section \<open>What is sent\<close>

text \<open>\<open>only calls send\<close> is a transport that answers as \<open>send\<close> does on the given calls and does nothing
  on any other: a publish that behaves the same on it sends no other call.\<close>

definition only :: "http_call set \<Rightarrow> (http_call \<Rightarrow> world \<Rightarrow> publish_answer \<times> world)
    \<Rightarrow> http_call \<Rightarrow> world \<Rightarrow> publish_answer \<times> world" where
  "only calls send call w = (if call \<in> calls then send call w else (PubNotSent ECanceled, w))"

definition callsFor :: "exec \<Rightarrow> string \<Rightarrow> gval \<Rightarrow> string \<Rightarrow> http_call set" where
  "callsFor c topic data key =
     (case marshal (publishBody topic data key) of Inl _ \<Rightarrow> {} | Inr body \<Rightarrow> {publishCall c body})"

lemma doPublish_only:
  "doPublish env (only (callsFor c topic data (publishKey opts key)) send) c topic data key opts w =
   doPublish env send c topic data key opts w"
  by (simp add: doPublish_def callsFor_def only_def split: sum.splits)

text \<open>The body of the step is called with the claimed id only, and not at all when the step is memoized.\<close>

lemma runBody_cong:
  assumes "fn stepID = fn' stepID"
  shows "runBody sc stepID name fn opts c w = runBody sc stepID name fn' opts c w"
  unfolding runBody_def assms ..

lemma runScoped_cong:
  assumes "fn (fst (sc_generateStepID sc name c)) = fn' (fst (sc_generateStepID sc name c))"
  shows "runScoped sc T name fn opts c w = runScoped sc T name fn' opts c w"
  using assms by (auto simp: runScoped_def split: prod.splits option.splits intro!: runBody_cong)

definition rootKey :: "publish_env \<Rightarrow> string list \<Rightarrow> string \<Rightarrow> gval \<Rightarrow> string" where
  "rootKey env opts stepID data =
     publishKey opts (case marshal data of Inl _ \<Rightarrow> [] | Inr p \<Rightarrow> defaultKey env (publishSeed env stepID p))"

definition branchKey :: "publish_env \<Rightarrow> string list \<Rightarrow> string \<Rightarrow> string" where
  "branchKey env opts stepID = publishKey opts (defaultKey env stepID)"

lemma publishStep_only:
  "publishStep env timer (only (callsFor c topic data (rootKey env opts stepID data)) send) c topic data opts stepID =
   publishStep env timer send c topic data opts stepID"
  by (rule ext) (auto simp: publishStep_def rootKey_def doPublish_only split: sum.splits)

lemma branchPublishStep_only:
  "branchPublishStep env timer (only (callsFor c topic data (branchKey env opts stepID)) send) c topic data opts stepID =
   branchPublishStep env timer send c topic data opts stepID"
  by (rule ext) (simp add: branchPublishStep_def branchKey_def doPublish_only)

lemma Publish_only:
  "Publish env timer (only (callsFor c topic data
      (rootKey env opts (fst (generateStepID (publishStepName topic) c)) data)) send) topic data opts c w =
   Publish env timer send topic data opts c w"
  unfolding Publish_def runWithStepID_def
  by (subst runScoped_cong [where fn' = "publishStep env timer send c topic data opts"])
     (simp_all add: publishStep_only rootContext_def)

lemma runBranch_mark_gen:
  "fst (branch_generateStepID b name (branch_markScopedUsed b c)) = fst (branch_generateStepID b name c)"
  by (cases "b < length (ec_branches c)")
     (simp_all add: branch_generateStepID_def branch_markScopedUsed_def Let_def list_update_beyond)

lemma PublishWithBranch_only:
  "PublishWithBranch env timer (only (callsFor c topic data
      (branchKey env opts (fst (branch_generateStepID b (publishStepName topic) c)))) send) b topic data opts c w =
   PublishWithBranch env timer send b topic data opts c w"
  unfolding PublishWithBranch_def runBranchWithStepID_def Let_def
  by (subst runScoped_cong [where fn' = "branchPublishStep env timer send c topic data opts"])
     (simp_all add: branchPublishStep_only runBranch_mark_gen)

lemma callsFor_key:
  assumes "call \<in> callsFor c topic data key" "key \<noteq> []"
  shows "\<exists>d. hc_Body call = Some (JObj [(''topic'', JStr topic), (''data'', d), (''idempotencyKey'', JStr key)])
     \<and> marshal data = Inr d"
  using assms by (cases data) (auto simp: callsFor_def publishBody_def publishCall_def gobj_def gstr_def)

lemma publishKey_explicit: "opts \<noteq> [] \<Longrightarrow> last opts \<noteq> [] \<Longrightarrow> publishKey opts k = last opts"
proof -
  have "foldl (\<lambda>_ x. x) a xs = (if xs = [] then a else last xs)" for a :: string and xs
    by (induction xs arbitrary: a) auto
  then show "opts \<noteq> [] \<Longrightarrow> last opts \<noteq> [] \<Longrightarrow> publishKey opts k = last opts"
    by (simp add: publishKey_def Let_def)
qed

lemma publishKey_default [simp]: "publishKey [] k = k"
  by (simp add: publishKey_def)

lemma defaultKey_nonempty [simp]: "defaultKey env s \<noteq> []"
  by (simp add: defaultKey_def)

section \<open>Properties\<close>

text \<open>A publish whose step is already completed, or whose run is cancelled, sends nothing: it behaves the
  same on a transport that refuses every call.\<close>

theorem completed_publish_sends_nothing:
  assumes "cancellationErr c w \<noteq> None \<or>
    isCompleted (ec_completedSteps c (fst (generateStepID (publishStepName topic) c)))"
  shows "Publish env timer send topic data opts c w = Publish env timer (only {} send) topic data opts c w"
proof -
  obtain stepID c1 where g: "generateStepID (publishStepName topic) c = (stepID, c1)" by fastforce
  have "ec_completedSteps c1 = ec_completedSteps c"
    using root.gen_fields [of "publishStepName topic" c] g by simp
  then show ?thesis
    using assms g
    by (auto simp: Publish_def runWithStepID_def runScoped_def rootContext_def getCompletedStep_def isCompleted_def
        split: option.splits)
qed

theorem completed_publish_sends_nothing_witness:
  "\<forall>env timer send. Publish env timer send ''t'' GNil [] (newExecutionContext ''r'' ''f'' 1 [] None \<lparr> ec_hasCtx := True \<rparr>)
     \<lparr> w_now = 0, w_ctxErr = Some ECanceled, w_reports = [], w_log = [] \<rparr> =
   Publish env timer (only {} send) ''t'' GNil [] (newExecutionContext ''r'' ''f'' 1 [] None \<lparr> ec_hasCtx := True \<rparr>)
     \<lparr> w_now = 0, w_ctxErr = Some ECanceled, w_reports = [], w_log = [] \<rparr>"
  by (intro allI, rule completed_publish_sends_nothing) (simp add: cancellationErr_def)


definition retryExec :: "int \<Rightarrow> exec" where
  "retryExec attempt = newExecutionContext ''r'' ''f'' attempt [] None \<lparr> ec_serverURL := ''u'' \<rparr>"


text \<open>The default key of a root publish identifies the step and its payload: unless SHA-256 collides on the
  two seeds, different steps or different payloads have different keys. The texts of documents hold no
  zero byte.\<close>

lemma first_split: "xs @ x # ys = us @ x # vs \<Longrightarrow> x \<notin> set xs \<Longrightarrow> x \<notin> set us \<Longrightarrow> xs = us \<and> ys = vs"
  by (induction xs arbitrary: us) (auto simp: Cons_eq_append_conv append_eq_Cons_conv)

lemma last_split:
  assumes "xs @ [x] @ ys = us @ [x] @ vs" "x \<notin> set ys" "x \<notin> set vs"
  shows "xs = us \<and> ys = vs"
proof -
  have "rev ys @ x # rev xs = rev vs @ x # rev us"
    using arg_cong [OF assms(1), of rev] by simp
  moreover have "x \<notin> set (rev ys)" "x \<notin> set (rev vs)" using assms(2,3) by simp_all
  ultimately have "rev ys = rev vs \<and> rev xs = rev us" by (metis first_split)
  then show ?thesis by simp
qed

lemma hexEncode_inj: "hexEncode a = hexEncode b \<longleftrightarrow> a = b"
  by (metis hexDecode_hexEncode option.inject)

theorem publish_keys_identify_steps:
  assumes "CHR 0x00 \<notin> set (pe_text env p)" "CHR 0x00 \<notin> set (pe_text env q)"
    and "pe_sha256 env (publishSeed env i p) = pe_sha256 env (publishSeed env j q)
         \<Longrightarrow> publishSeed env i p = publishSeed env j q"
  shows "rootKey env [] i (GJson p) = rootKey env [] j (GJson q) \<longleftrightarrow> i = j \<and> pe_text env p = pe_text env q"
  using assms last_split [of i "CHR 0x00" "pe_text env p" j "pe_text env q"]
  by (auto simp: rootKey_def defaultKey_def publishSeed_def hexEncode_inj)

definition textEnv :: publish_env where
  "textEnv = \<lparr> pe_text = (\<lambda>j. case j of JNum s \<Rightarrow> s | _ \<Rightarrow> ''null''), pe_sha256 = (\<lambda>s. s), pe_first = (\<lambda>_. Inr JNull) \<rparr>"

theorem publish_keys_identify_steps_witness:
  "rootKey textEnv [] ''r:publish:t:0'' (GJson (JNum ''1'')) \<noteq> rootKey textEnv [] ''r:publish:t:0'' (GJson (JNum ''2''))"
  using publish_keys_identify_steps [of textEnv "JNum ''1''" "JNum ''2''" "''r:publish:t:0''" "''r:publish:t:0''"]
  by (simp add: textEnv_def)

text \<open>The branch form leaves the payload out of the digest. Branches of two fan-outs with the same name
  claim the same ids, so their publishes to one topic carry one key, whatever they publish: every request
  either of them sends has the key of the other, and a server that keeps keys drops the second message.\<close>

lemma only_only: "A \<subseteq> B \<Longrightarrow> only A (only B send) = only A send"
  by (intro ext) (auto simp: only_def)

definition keyed :: "string \<Rightarrow> http_call \<Rightarrow> bool" where
  "keyed key call = (case hc_Body call of
     Some (JObj kvs) \<Rightarrow> map_of kvs ''idempotencyKey'' = Some (JStr key) | _ \<Rightarrow> False)"

lemma callsFor_keyed: "key \<noteq> [] \<Longrightarrow> callsFor c topic data key \<subseteq> {call. keyed key call}"
  using callsFor_key [of _ c topic data key] by (force simp: keyed_def)

theorem same_name_fanouts_share_publish_key:
  "let (b1, c1) = createBranchContext p i c; (b2, c2) = createBranchContext p i c1;
       key = defaultKey env (fst (branch_generateStepID b1 (publishStepName topic) c2))
   in b1 \<noteq> b2
    \<and> PublishWithBranch env timer send b1 topic data1 [] c2 w =
        PublishWithBranch env timer (only {call. keyed key call} send) b1 topic data1 [] c2 w
    \<and> PublishWithBranch env timer send b2 topic data2 [] c2 w =
        PublishWithBranch env timer (only {call. keyed key call} send) b2 topic data2 [] c2 w"
proof -
  obtain b1 c1 b2 c2 where f: "createBranchContext p i c = (b1, c1)" "createBranchContext p i c1 = (b2, c2)"
    by fastforce
  let ?id = "\<lambda>b. fst (branch_generateStepID b (publishStepName topic) c2)"
  have ids: "b1 \<noteq> b2" "?id b1 = ?id b2"
    using same_name_fanouts_share_ids [where p = p and i = i and c = c and n = "publishStepName topic"] f by simp_all
  have "PublishWithBranch env timer send b topic data [] c2 w =
      PublishWithBranch env timer (only {call. keyed (defaultKey env (?id b)) call} send) b topic data [] c2 w" for b data
    using PublishWithBranch_only [of env timer c2 topic data "[]" b, unfolded branchKey_def publishKey_default]
    by (metis only_only callsFor_keyed defaultKey_nonempty)
  from this [of b1 data1] this [of b2 data2] show ?thesis using ids f by simp
qed

end
