(* ===== verification/Duration.thy ===== *)
theory Duration
  imports Http_Client Signature
begin

text \<open>
  Durations with days and weeks (\<open>ParseDuration\<close> of \<^verbatim>\<open>src/ironflow/step.go\<close>). What
  \<open>time.ParseDuration\<close> accepts is the field \<open>tm_duration\<close> of the time readers; the rest is a scan for
  numbers with a unit, summed at the width of \<open>int64\<close>.
\<close>

section \<open>The scan\<close>

text \<open>The alternation \<open>ms|s|m|h|d|w\<close>, in the order of the pattern.\<close>

definition durationUnits :: "(string \<times> int) list" where
  "durationUnits = [(''ms'', millisecond), (''s'', second), (''m'', minute), (''h'', hour), (''d'', 24 * hour),
     (''w'', 7 * 24 * hour)]"

definition matchUnit :: "string \<Rightarrow> (int \<times> string) option" where
  "matchUnit s = first_some (\<lambda>(u, d). map_option (\<lambda>rest. (d, rest)) (cutPrefix u s)) durationUnits"

lemma cutPrefix_Some: "cutPrefix p s = Some r \<Longrightarrow> s = p @ r"
  by (induction p s rule: cutPrefix.induct) (auto split: if_splits)

lemma matchUnit_shorter: "matchUnit s = Some (d, r) \<Longrightarrow> length r < length s"
  unfolding matchUnit_def
  by (drule first_some_SomeD) (auto simp: durationUnits_def dest!: cutPrefix_Some)

text \<open>\<open>FindAllStringSubmatch\<close>: the leftmost match from each position on, as pairs of the digits and the
  length of the unit.\<close>

function findAllTerms :: "string \<Rightarrow> (string \<times> int) list" where
  "findAllTerms [] = []"
| "findAllTerms (c # s) =
     (if isDigit c
      then (case matchUnit (dropWhile isDigit s) of
              Some (d, rest) \<Rightarrow> (c # takeWhile isDigit s, d) # findAllTerms rest
            | None \<Rightarrow> findAllTerms s)
      else findAllTerms s)"
  by pat_completeness auto
termination
  by (relation "measure length")
     (auto dest!: matchUnit_shorter intro: le_less_trans [OF less_imp_le] simp: less_Suc_eq_le
       length_dropWhile_le intro: order_trans [OF less_imp_le length_dropWhile_le])

text \<open>\<open>strconv.ParseInt(ds, 10, 64)\<close> with its error dropped: out of range gives the largest \<open>int64\<close>.\<close>

definition parseSaturated :: "string \<Rightarrow> 64 word" where
  "parseSaturated ds = word_of_int (min (case digitsValue ds 0 of Some n \<Rightarrow> int n | None \<Rightarrow> 0) (2 ^ 63 - 1))"

definition sumTerms :: "(string \<times> int) list \<Rightarrow> 64 word" where
  "sumTerms ms = foldl (\<lambda>total (ds, d). total + parseSaturated ds * word_of_int d) 0 ms"

definition ParseDuration :: "time_readers \<Rightarrow> string \<Rightarrow> goerr + int" where
  "ParseDuration tm s =
     (case tm_duration tm s of
        Some d \<Rightarrow> Inr d
      | None \<Rightarrow>
          (let total = sumTerms (findAllTerms s) in
           if total = 0 then Inl (ENew (''invalid duration: '' @ s)) else Inr (sint total)))"

section \<open>Reading back what was written\<close>

text \<open>A duration written as numbers with units.\<close>

definition writeTerm :: "nat \<times> string \<Rightarrow> string" where
  "writeTerm t = itoa (fst t) @ snd t"

definition unitLength :: "string \<Rightarrow> int" where
  "unitLength u = (case map_of durationUnits u of Some d \<Rightarrow> d | None \<Rightarrow> 0)"

definition termsLength :: "(nat \<times> string) list \<Rightarrow> int" where
  "termsLength ts = (\<Sum>t\<leftarrow>ts. int (fst t) * unitLength (snd t))"

definition startsTerm :: "string \<Rightarrow> bool" where
  "startsTerm s = (s = [] \<or> isDigit (hd s))"

lemma matchUnit_written:
  assumes "u \<in> fst ` set durationUnits" "startsTerm s"
  shows "matchUnit (u @ s) = Some (unitLength u, s)"
  using assms
  by (cases s) (auto simp: matchUnit_def durationUnits_def unitLength_def startsTerm_def isDigit_def)

lemma takeWhile_itoa:
  assumes "s \<noteq> []" "\<not> isDigit (hd s)"
  shows "takeWhile isDigit (itoa n @ s) = itoa n" "dropWhile isDigit (itoa n @ s) = s"
  using assms itoa_digits [of _ n]
  by (cases s; auto simp: takeWhile_append dropWhile_append)+

lemma units_no_digit: "u \<in> fst ` set durationUnits \<Longrightarrow> u \<noteq> [] \<and> \<not> isDigit (hd u)"
  by (auto simp: durationUnits_def isDigit_def)

lemma findAllTerms_digit:
  assumes "s \<noteq> []" "isDigit (hd s)" "matchUnit (dropWhile isDigit s) = Some (d, rest)"
  shows "findAllTerms s = (takeWhile isDigit s, d) # findAllTerms rest"
  using assms by (cases s) auto

lemma findAllTerms_written:
  assumes "\<forall>t\<in>set ts. snd t \<in> fst ` set durationUnits"
  shows "findAllTerms (concat (map writeTerm ts)) = map (\<lambda>t. (itoa (fst t), unitLength (snd t))) ts"
  using assms
proof (induction ts)
  case (Cons t ts)
  obtain n u where t: "t = (n, u)" by fastforce
  let ?s = "concat (map writeTerm ts)"
  have u: "u \<in> fst ` set durationUnits" using Cons.prems t by simp
  have "startsTerm ?s"
    using itoa_digits [OF hd_in_set] by (cases ts) (auto simp: startsTerm_def writeTerm_def)
  note m = matchUnit_written [OF u this]
  have ne: "u @ ?s \<noteq> []" "\<not> isDigit (hd (u @ ?s))" using units_no_digit [OF u] by auto
  have h: "isDigit (hd (itoa n @ u @ ?s))" using itoa_digits [of "hd (itoa n)" n] by simp
  have "findAllTerms (itoa n @ u @ ?s) = (itoa n, unitLength u) # findAllTerms ?s"
    using findAllTerms_digit [of "itoa n @ u @ ?s" "unitLength u" ?s] h m takeWhile_itoa [OF ne, of n] by simp
  then have "findAllTerms (writeTerm t @ ?s) = (itoa n, unitLength u) # findAllTerms ?s"
    by (simp add: t writeTerm_def)
  then show ?case using Cons t by simp
qed simp

lemma unitLength_pos: "u \<in> fst ` set durationUnits \<Longrightarrow> 0 < unitLength u"
  by (auto simp: durationUnits_def unitLength_def duration_units)

lemma termsLength_nonneg:
  assumes "\<forall>t\<in>set ts. snd t \<in> fst ` set durationUnits"
  shows "0 \<le> termsLength ts" and "t \<in> set ts \<Longrightarrow> int (fst t) \<le> termsLength ts"
proof -
  have g: "0 \<le> termsLength ts \<and> (\<forall>t\<in>set ts. int (fst t) \<le> termsLength ts)"
    using assms
  proof (induction ts)
    case (Cons t ts)
    have "1 \<le> unitLength (snd t)" using unitLength_pos [of "snd t"] Cons.prems by simp
    then have "int (fst t) \<le> int (fst t) * unitLength (snd t)" by (simp add: mult_le_cancel_left1)
    then show ?case using Cons by (fastforce simp: termsLength_def)
  qed (simp add: termsLength_def)
  then show "0 \<le> termsLength ts" and "t \<in> set ts \<Longrightarrow> int (fst t) \<le> termsLength ts" by simp_all
qed

lemma sumTerms_written:
  assumes "\<forall>t\<in>set ts. int (fst t) < 2 ^ 63"
  shows "sumTerms (map (\<lambda>t. (itoa (fst t), unitLength (snd t))) ts) = word_of_int (termsLength ts)"
proof -
  have "foldl (\<lambda>total (ds, d). total + parseSaturated ds * word_of_int d) (word_of_int a)
      (map (\<lambda>t. (itoa (fst t), unitLength (snd t))) ts) = word_of_int (a + termsLength ts)" for a
    using assms
  proof (induction ts arbitrary: a)
    case (Cons t ts)
    have "parseSaturated (itoa (fst t)) = word_of_int (int (fst t))"
      using Cons.prems by (simp add: parseSaturated_def digitsValue_itoa)
    then show ?case
      using Cons.IH [of "a + int (fst t) * unitLength (snd t)"] Cons.prems
      by (simp add: termsLength_def wi_hom_add wi_hom_mult add.assoc)
  qed (simp add: termsLength_def)
  from this [of 0] show ?thesis by (simp add: sumTerms_def)
qed

text \<open>A duration written as whole numbers with units, in any order and with any unit repeated, is read back
  exactly, when it is positive and fits an \<open>int64\<close> of nanoseconds.\<close>

theorem durations_read_back:
  assumes "\<forall>t\<in>set ts. snd t \<in> fst ` set durationUnits"
    and "tm_duration tm (concat (map writeTerm ts)) = None"
    and "0 < termsLength ts" "termsLength ts < 2 ^ 63"
  shows "ParseDuration tm (concat (map writeTerm ts)) = Inr (termsLength ts)"
proof -
  have "int (fst t) < 2 ^ 63" if "t \<in> set ts" for t
    using termsLength_nonneg(2) [OF assms(1) that] assms(4) by simp
  then have sum: "sumTerms (findAllTerms (concat (map writeTerm ts))) = word_of_int (termsLength ts)"
    by (simp add: findAllTerms_written [OF assms(1)] sumTerms_written)
  have "sint (word_of_int (termsLength ts) :: 64 word) = termsLength ts"
    using assms(3,4) by (simp add: sint_sbintrunc' signed_take_bit_int_eq_self)
  moreover from this have "(word_of_int (termsLength ts) :: 64 word) \<noteq> 0" using assms(3) by (metis less_irrefl sint_0)
  ultimately show ?thesis using assms(2) sum by (simp add: ParseDuration_def)
qed

text \<open>Evaluating the scan on a literal.\<close>

lemmas duration_scan = ParseDuration_def sumTerms_def parseSaturated_def matchUnit_def durationUnits_def isDigit_def
  duration_units

definition daysReader :: time_readers where
  "daysReader = \<lparr> tm_duration = (\<lambda>_. None), tm_until = (\<lambda>_. None), tm_seconds = (\<lambda>_. 0) \<rparr>"

theorem durations_read_back_witness:
  "ParseDuration daysReader ''1w2d'' = Inr (9 * 24 * hour)"
proof -
  have "ParseDuration daysReader (concat (map writeTerm [(1, ''w''), (2, ''d'')])) = Inr (termsLength [(1, ''w''), (2, ''d'')])"
    by (rule durations_read_back)
       (simp_all add: durationUnits_def daysReader_def termsLength_def unitLength_def duration_units)
  moreover have "concat (map writeTerm [(1, ''w''), (2, ''d'')]) = ''1w2d''" by code_simp
  ultimately show ?thesis by (simp add: termsLength_def unitLength_def durationUnits_def)
qed

text \<open>Text the pattern does not match is skipped, a sign included: whatever holds no digit may stand before
  a duration without changing it.\<close>

theorem duration_prefix_ignored:
  assumes "\<forall>c\<in>set junk. \<not> isDigit c" "tm_duration tm s = None" "tm_duration tm (junk @ s) = None"
    and "ParseDuration tm s = Inr d"
  shows "ParseDuration tm (junk @ s) = Inr d"
proof -
  have "findAllTerms (junk @ s) = findAllTerms s" using assms(1) by (induction junk) auto
  then show ?thesis using assms(2-4) by (simp add: ParseDuration_def Let_def split: if_splits)
qed

theorem duration_prefix_ignored_witness:
  "ParseDuration daysReader ''-1d'' = Inr (24 * hour)"
proof -
  have "ParseDuration daysReader ''1d'' = Inr (24 * hour)" by (simp add: daysReader_def duration_scan)
  then show ?thesis using duration_prefix_ignored [of "''-''" daysReader "''1d''" "24 * hour"]
    by (simp add: isDigit_def daysReader_def)
qed

text \<open>A fraction of a day loses its integer part, and a number of days beyond the range wraps around.\<close>

lemma duration_fraction_and_wrap:
  "ParseDuration daysReader ''1.5d'' = Inr (5 * 24 * hour)"
  "ParseDuration daysReader ''106752d'' = Inr (106752 * 24 * hour - 2 ^ 64)"
  by (simp_all add: daysReader_def duration_scan)

end
