(* ===== verification/Subscription_Wire.thy ===== *)
theory Subscription_Wire
  imports Http_Client Worker_Protocol "HOL-Library.Word"
begin

text \<open>
  What the subscription clients share (\<^verbatim>\<open>src/ironflow/subscribe.go\<close>, \<^verbatim>\<open>subscribe_connectrpc.go\<close>,
  \<^verbatim>\<open>consumer_group_stream.go\<close>): channels, options and the requests made from them, events and errors as
  the caller sees them, the frames of the WebSocket protocol, and the delays between connections.
\<close>

section \<open>Channels\<close>

text \<open>A buffered channel with what its readers have taken from it. A send on a closed channel panics.\<close>

record 'a gochan =
  ch_cap :: nat
  ch_buf :: "'a list"
  ch_closed :: bool
  ch_taken :: "'a list"

definition newChan :: "nat \<Rightarrow> 'a gochan" where
  "newChan cap = \<lparr> ch_cap = cap, ch_buf = [], ch_closed = False, ch_taken = [] \<rparr>"

definition chanRoom :: "'a gochan \<Rightarrow> bool" where
  "chanRoom ch \<longleftrightarrow> length (ch_buf ch) < ch_cap ch"

definition chanPut :: "'a \<Rightarrow> 'a gochan \<Rightarrow> 'a gochan" where
  "chanPut x ch = ch \<lparr> ch_buf := ch_buf ch @ [x] \<rparr>"

definition chanTake :: "'a gochan \<Rightarrow> 'a gochan" where
  "chanTake ch = (case ch_buf ch of [] \<Rightarrow> ch | x # xs \<Rightarrow> ch \<lparr> ch_buf := xs, ch_taken := ch_taken ch @ [x] \<rparr>)"

definition chanClose :: "'a gochan \<Rightarrow> 'a gochan" where
  "chanClose ch = ch \<lparr> ch_closed := True \<rparr>"

definition chanSent :: "'a gochan \<Rightarrow> 'a list" where
  "chanSent ch = ch_taken ch @ ch_buf ch"

lemma chanSent_simps [simp]:
  "chanSent (newChan n) = []" "chanSent (chanPut x ch) = chanSent ch @ [x]"
  "chanSent (chanTake ch) = chanSent ch" "chanSent (chanClose ch) = chanSent ch"
  by (simp_all add: chanSent_def newChan_def chanPut_def chanTake_def chanClose_def split: list.split)

lemma chan_closed_simps [simp]:
  "\<not> ch_closed (newChan n)" "ch_closed (chanPut x ch) = ch_closed ch" "ch_closed (chanTake ch) = ch_closed ch"
  "ch_closed (chanClose ch)"
  by (simp_all add: newChan_def chanPut_def chanTake_def chanClose_def split: list.split)

section \<open>Events and errors\<close>

record event_meta =
  em_Timestamp :: string
  em_Sequence :: nat
  em_SequenceExact :: string

record subscription_event =
  se_ID :: string
  se_Topic :: string
  se_Data :: raw
  se_Meta :: "event_meta option"

record subscription_error =
  er_SubscriptionID :: string
  er_Code :: string
  er_Message :: string
  er_Retrying :: bool

section \<open>Options\<close>

record subscribe_options =
  so_Replay :: int
  so_StartAfterSequence :: "nat option"
  so_IncludeMetadata :: bool
  so_Filter :: string
  so_ConsumerGroup :: string
  so_AckMode :: string
  so_Backpressure :: string
  so_Namespace :: string

definition noOptions :: subscribe_options where
  "noOptions = \<lparr> so_Replay = 0, so_StartAfterSequence = None, so_IncludeMetadata = False, so_Filter = [],
     so_ConsumerGroup = [], so_AckMode = [], so_Backpressure = [], so_Namespace = [] \<rparr>"

text \<open>\<open>reconnectSubscribeOptions\<close>; the copy \<open>cloneSubscribeOptions\<close> makes first is the value itself.\<close>

definition reconnectSubscribeOptions :: "subscribe_options option \<Rightarrow> subscribe_options option" where
  "reconnectSubscribeOptions = map_option (\<lambda>opts. opts \<lparr> so_Replay := 0 \<rparr>)"

text \<open>\<open>SubscribeAckable\<close> forces manual acknowledgment.\<close>

definition ackableOptions :: "subscribe_options option \<Rightarrow> subscribe_options" where
  "ackableOptions opts = (case opts of None \<Rightarrow> noOptions | Some o' \<Rightarrow> o') \<lparr> so_AckMode := ''manual'' \<rparr>"

definition resumeCursor :: "subscribe_options option \<Rightarrow> nat option" where
  "resumeCursor opts = (case opts of None \<Rightarrow> None | Some o' \<Rightarrow> so_StartAfterSequence o')"

definition entityPattern :: "string \<Rightarrow> string \<Rightarrow> string" where
  "entityPattern entityType entityID = ''entity:'' @ entityType @ ''.'' @ entityID @ ''.>''"

definition entityOptions :: "int \<Rightarrow> subscribe_options" where
  "entityOptions replay = (if replay > 0 then noOptions \<lparr> so_Replay := replay \<rparr> else noOptions)"

section \<open>Requests\<close>

text \<open>Messages the WebSocket client writes. Absent options mean that the field is left out.\<close>

datatype ws_request =
    WsSubscribe string "subscribe_options option"
  | WsUnsubscribe string
  | WsAck string string string int

definition newWSSubscribeRequest :: "string \<Rightarrow> subscribe_options option \<Rightarrow> ws_request" where
  "newWSSubscribeRequest pattern opts =
     (case opts of
        None \<Rightarrow> WsSubscribe pattern None
      | Some o' \<Rightarrow>
          if so_Replay o' > 0 \<or> so_StartAfterSequence o' \<noteq> None \<or> so_IncludeMetadata o' \<or> so_Filter o' \<noteq> []
             \<or> so_ConsumerGroup o' \<noteq> [] \<or> so_AckMode o' \<noteq> [] \<or> so_Backpressure o' \<noteq> [] \<or> so_Namespace o' \<noteq> []
          then WsSubscribe pattern (Some (o' \<lparr> so_IncludeMetadata :=
                 so_IncludeMetadata o' \<or> so_StartAfterSequence o' \<noteq> None \<rparr>))
          else WsSubscribe pattern None)"

datatype ack_type = AckAck | AckNak | AckTerm

text \<open>The three acknowledgments on the WebSocket, for the current server subscription.\<close>

definition wsAckRequest :: "ack_type \<Rightarrow> string \<Rightarrow> string \<Rightarrow> int \<Rightarrow> ws_request" where
  "wsAckRequest t subID eventID delay =
     (case t of
        AckAck \<Rightarrow> WsAck ''ack'' eventID subID 0
      | AckNak \<Rightarrow> WsAck ''nak'' eventID subID (milliseconds delay)
      | AckTerm \<Rightarrow> WsAck ''term'' eventID subID 0)"

datatype proto_ack_mode = AckModeUnspecified | AckModeAuto | AckModeManual
datatype proto_backpressure = BackpressureUnspecified | BackpressureDrop | BackpressureBlock | BackpressureBuffer

record subscribe_request =
  rq_Pattern :: string
  rq_Replay :: int
  rq_StartAfterSequence :: "nat option"
  rq_IncludeMetadata :: bool
  rq_Filter :: string
  rq_ConsumerGroup :: string
  rq_Namespace :: string
  rq_AckMode :: proto_ack_mode
  rq_Backpressure :: proto_backpressure

text \<open>\<open>int32(opts.Replay)\<close> keeps the low 32 bits.\<close>

definition int32Of :: "int \<Rightarrow> int" where
  "int32Of i = sint (word_of_int i :: 32 word)"

definition grpcSubscribeRequest :: "string \<Rightarrow> subscribe_options option \<Rightarrow> subscribe_request" where
  "grpcSubscribeRequest pattern opts =
     (let o' = (case opts of None \<Rightarrow> noOptions | Some x \<Rightarrow> x) in
      \<lparr> rq_Pattern = pattern,
        rq_Replay = (if so_Replay o' > 0 then int32Of (so_Replay o') else 0),
        rq_StartAfterSequence = so_StartAfterSequence o',
        rq_IncludeMetadata = (so_IncludeMetadata o' \<or> so_StartAfterSequence o' \<noteq> None),
        rq_Filter = so_Filter o', rq_ConsumerGroup = so_ConsumerGroup o', rq_Namespace = so_Namespace o',
        rq_AckMode = (if so_AckMode o' = ''auto'' then AckModeAuto
                      else if so_AckMode o' = ''manual'' then AckModeManual else AckModeUnspecified),
        rq_Backpressure = (if so_Backpressure o' = ''drop'' then BackpressureDrop
                           else if so_Backpressure o' = ''block'' then BackpressureBlock
                           else if so_Backpressure o' = ''buffer'' then BackpressureBuffer
                           else BackpressureUnspecified) \<rparr>)"

text \<open>\<open>nakDelayMs\<close>: the delay of a negative acknowledgment in milliseconds, refused out of range.\<close>

record ack_error =
  ae_EventID :: string
  ae_Code :: string
  ae_Message :: string

definition maxInt32 :: int where
  "maxInt32 = 2147483647"

definition nakDelayMs :: "string \<Rightarrow> int \<Rightarrow> ack_error + int" where
  "nakDelayMs eventID delay =
     (let ms = milliseconds delay in
      if ms < 0 \<or> ms > maxInt32
      then Inl \<lparr> ae_EventID = eventID, ae_Code = ''invalid_argument'',
             ae_Message = ''redeliver delay '' @ durationString delay @ '' is outside 0 to '' @ itoaInt maxInt32 @ '' ms'' \<rparr>
      else Inr ms)"

section \<open>Events from the stream\<close>

text \<open>A streamed event: its two payload fields, and the metadata with the text of its timestamp.\<close>

record subscription_msg =
  pv_SubscriptionId :: string
  pv_EventId :: string
  pv_Topic :: string
  pv_Data :: "gval option"
  pv_DataValue :: "gval option"
  pv_Sequence :: nat
  pv_Metadata :: "string option option"

definition subscriptionEventFromProto :: "subscription_msg \<Rightarrow> string + subscription_event" where
  "subscriptionEventFromProto msg =
     (let made = (\<lambda>d. Inr \<lparr> se_ID = pv_EventId msg, se_Topic = pv_Topic msg, se_Data = d,
            se_Meta = map_option (\<lambda>ts. \<lparr> em_Timestamp = (case ts of Some t \<Rightarrow> t | None \<Rightarrow> []),
              em_Sequence = pv_Sequence msg, em_SequenceExact = itoa (pv_Sequence msg) \<rparr>) (pv_Metadata msg) \<rparr>);
          conv = (\<lambda>g. case marshal g of Inl m \<Rightarrow> Inl m | Inr j \<Rightarrow> made (Raw j))
      in case pv_Data msg of
           Some g \<Rightarrow> conv g
         | None \<Rightarrow> (case pv_DataValue msg of Some g \<Rightarrow> conv g | None \<Rightarrow> made RawNone))"

section \<open>Frames of the WebSocket\<close>

record ws_result =
  wr_Pattern :: string
  wr_Status :: string
  wr_SubscriptionID :: string
  wr_Code :: string
  wr_Message :: string

datatype ws_frame =
    FrameResults "ws_result list"
  | FrameEvent string subscription_event
  | FrameSubError subscription_error
  | FrameError string string

definition strField :: "(string \<times> json) list \<Rightarrow> string \<Rightarrow> bool \<times> string" where
  "strField kvs name = assignString (fieldValues kvs name) []"

fun assignBool :: "json list \<Rightarrow> bool \<Rightarrow> bool \<times> bool" where
  "assignBool [] v = (True, v)"
| "assignBool (j # js) v =
     (case j of
        JNull \<Rightarrow> assignBool js v
      | JBool b \<Rightarrow> assignBool js b
      | _ \<Rightarrow> (False, snd (assignBool js v)))"

text \<open>A \<open>uint64\<close> field: digits only, within 64 bits.\<close>

definition uint64Literal :: "string \<Rightarrow> nat option" where
  "uint64Literal s =
     (if s = [] then None
      else case digitsValue s 0 of None \<Rightarrow> None | Some n \<Rightarrow> if int n < 2 ^ 64 then Some n else None)"

fun assignUint :: "json list \<Rightarrow> nat \<Rightarrow> bool \<times> nat" where
  "assignUint [] v = (True, v)"
| "assignUint (j # js) v =
     (case j of
        JNull \<Rightarrow> assignUint js v
      | JNum s \<Rightarrow> (case uint64Literal s of
                    Some n \<Rightarrow> assignUint js n
                  | None \<Rightarrow> (False, snd (assignUint js v)))
      | _ \<Rightarrow> (False, snd (assignUint js v)))"

definition decodeMeta :: "(string \<times> json) list \<Rightarrow> event_meta option" where
  "decodeMeta kvs =
     (let (okT, t) = strField kvs ''timestamp''; (okS, s) = assignUint (fieldValues kvs ''sequence'') 0;
          (okE, e) = strField kvs ''sequenceExact''
      in if okT \<and> okS \<and> okE then Some \<lparr> em_Timestamp = t, em_Sequence = s, em_SequenceExact = e \<rparr> else None)"

text \<open>The pointer field \<open>meta\<close>: \<open>null\<close> clears it, and a second object is decoded into the first one's
  struct.\<close>

fun metaFields :: "json list \<Rightarrow> (string \<times> json) list option \<Rightarrow> (string \<times> json) list option option" where
  "metaFields [] v = Some v"
| "metaFields (j # js) v =
     (case j of
        JNull \<Rightarrow> metaFields js None
      | JObj kvs \<Rightarrow> metaFields js (Some ((case v of None \<Rightarrow> [] | Some old \<Rightarrow> old) @ kvs))
      | _ \<Rightarrow> None)"

definition assignMeta :: "json list \<Rightarrow> event_meta option option" where
  "assignMeta js =
     (case metaFields js None of
        None \<Rightarrow> None
      | Some None \<Rightarrow> Some None
      | Some (Some kvs) \<Rightarrow> map_option Some (decodeMeta kvs))"

definition decodeResult :: "json \<Rightarrow> ws_result option" where
  "decodeResult j =
     (let kvs = (case j of JObj kvs \<Rightarrow> kvs | _ \<Rightarrow> []);
          (ok1, p) = strField kvs ''pattern''; (ok2, st) = strField kvs ''status'';
          (ok3, i) = strField kvs ''subscriptionId''; (ok4, c) = strField kvs ''code'';
          (ok5, m) = strField kvs ''message''
      in if ok1 \<and> ok2 \<and> ok3 \<and> ok4 \<and> ok5 \<and> (case j of JObj _ \<Rightarrow> True | JNull \<Rightarrow> True | _ \<Rightarrow> False)
         then Some \<lparr> wr_Pattern = p, wr_Status = st, wr_SubscriptionID = i, wr_Code = c, wr_Message = m \<rparr>
         else None)"

fun decodeAll :: "('a \<Rightarrow> 'b option) \<Rightarrow> 'a list \<Rightarrow> 'b list option" where
  "decodeAll f [] = Some []"
| "decodeAll f (x # xs) =
     (case f x of None \<Rightarrow> None | Some y \<Rightarrow> (case decodeAll f xs of None \<Rightarrow> None | Some ys \<Rightarrow> Some (y # ys)))"

definition assignResults :: "json list \<Rightarrow> ws_result list option" where
  "assignResults js =
     (if js = [] then Some []
      else case last js of JNull \<Rightarrow> Some [] | JArr rs \<Rightarrow> decodeAll decodeResult rs | _ \<Rightarrow> None)"

text \<open>The dispatch of \<open>handleMessage\<close>, with the decoding each handler starts with: a frame that does not
  decode, or has another type, is ignored.\<close>

definition decodeFrame :: "raw \<Rightarrow> ws_frame option" where
  "decodeFrame data =
     (case data of
        Raw (JObj kvs) \<Rightarrow>
          (let (okType, typ) = strField kvs ''type''; (okID, subID) = strField kvs ''subscriptionId'';
               (okCode, code) = strField kvs ''code''; (okMsg, msg) = strField kvs ''message'' in
           if \<not> okType then None
           else if typ = ''subscription_result''
           then map_option FrameResults (assignResults (fieldValues kvs ''results''))
           else if typ = ''event''
           then (let (okEv, ev) = strField kvs ''eventId''; (okTopic, topic) = strField kvs ''topic'' in
                 case assignMeta (fieldValues kvs ''meta'') of
                   None \<Rightarrow> None
                 | Some meta \<Rightarrow>
                     if okID \<and> okEv \<and> okTopic
                     then Some (FrameEvent subID \<lparr> se_ID = ev, se_Topic = topic,
                            se_Data = assignRaw (fieldValues kvs ''data''), se_Meta = meta \<rparr>)
                     else None)
           else if typ = ''subscription_error''
           then (let (okR, r) = assignBool (fieldValues kvs ''retrying'') False in
                 if okID \<and> okCode \<and> okMsg \<and> okR
                 then Some (FrameSubError \<lparr> er_SubscriptionID = subID, er_Code = code, er_Message = msg,
                        er_Retrying = r \<rparr>)
                 else None)
           else if typ = ''error''
           then (if okCode \<and> okMsg then Some (FrameError code msg) else None)
           else None)
      | _ \<Rightarrow> None)"

section \<open>Reconnecting\<close>

text \<open>\<open>connect.CodeOf\<close>: an error that is none of Connect's has the code unknown.\<close>

definition codeOf :: "goerr \<Rightarrow> connect_code" where
  "codeOf err = (case asConnect err of Some (c, _, _) \<Rightarrow> c | None \<Rightarrow> CodeUnknown)"

definition isRetryableSubscriptionError :: "goerr \<Rightarrow> bool" where
  "isRetryableSubscriptionError err =
     (codeOf err \<in> set [CodeUnknown, CodeDeadlineExceeded, CodeResourceExhausted, CodeAborted, CodeInternal,
        CodeUnavailable])"

datatype conn_state = StateConnecting | StateConnected | StateDisconnected | StateReconnecting

record subscription_config =
  sg_AutoReconnect :: bool
  sg_ReconnectDelay :: int
  sg_MaxReconnectDelay :: int
  sg_ReconnectBackoff :: rat

definition subscriptionDefaults :: "subscription_config \<Rightarrow> subscription_config" where
  "subscriptionDefaults c = c
     \<lparr> sg_ReconnectDelay := (if sg_ReconnectDelay c = 0 then second else sg_ReconnectDelay c),
       sg_MaxReconnectDelay := (if sg_MaxReconnectDelay c = 0 then 30 * second else sg_MaxReconnectDelay c),
       sg_ReconnectBackoff := (if sg_ReconnectBackoff c = 0 then 3 / 2 else sg_ReconnectBackoff c) \<rparr>"

text \<open>The next delay between two streams; \<open>rnd\<close> rounds to a \<open>float64\<close>.\<close>

definition nextSubscriptionReconnectDelay :: "(rat \<Rightarrow> rat) \<Rightarrow> int \<Rightarrow> int \<Rightarrow> rat \<Rightarrow> int" where
  "nextSubscriptionReconnectDelay rnd current maximum backoff =
     (let next = truncRat (rnd (rnd (of_int current) * backoff));
          next = (if next \<le> current \<and> current < maximum then current + millisecond else next)
      in if next > maximum then maximum else next)"

text \<open>The delay before the given reconnect of the WebSocket client.\<close>

definition wsReconnectDelay :: "(rat \<Rightarrow> rat) \<Rightarrow> subscription_config \<Rightarrow> nat \<Rightarrow> int" where
  "wsReconnectDelay rnd c attempt =
     (let d = ((\<lambda>x. rnd (x * sg_ReconnectBackoff c)) ^^ (attempt - 1)) (rnd (of_int (sg_ReconnectDelay c)));
          top = rnd (of_int (sg_MaxReconnectDelay c))
      in truncRat (if d > top then top else d))"

text \<open>The delay never passes the maximum, and below the maximum it grows with every attempt, whatever the
  backoff and its rounding.\<close>

lemma nextDelay_bounds:
  assumes "current \<le> maximum"
  shows "nextSubscriptionReconnectDelay rnd current maximum backoff \<le> maximum"
    and "current < maximum \<Longrightarrow> current < nextSubscriptionReconnectDelay rnd current maximum backoff"
  using assms by (auto simp: nextSubscriptionReconnectDelay_def Let_def millisecond_def)

section \<open>Patterns and addresses\<close>

definition runPattern :: "string \<Rightarrow> string" where "runPattern runID = ''system.run.'' @ runID @ ''.>''"
definition functionPattern :: "string \<Rightarrow> string" where "functionPattern f = ''system.function.'' @ f @ ''.>''"
definition userEventPattern :: "string \<Rightarrow> string" where "userEventPattern n = ''events:'' @ n"
definition topicPattern :: "string \<Rightarrow> string" where "topicPattern t = ''topic:'' @ t"

end
