(* ===== verification/Grpc_Subscription.thy ===== *)
theory Grpc_Subscription
  imports Subscription_Wire Machine "HOL-Library.Sublist"
begin

text \<open>
  The ConnectRPC subscription client (\<^verbatim>\<open>src/ironflow/subscribe_connectrpc.go\<close>) as a machine: calls of
  \<open>Subscribe\<close>, the goroutine \<open>streamSubscription\<close> of every subscription, \<open>Unsubscribe\<close>, \<open>Close\<close>, and the
  readers of the channels. A step is one critical section or one channel operation. The client's lock is
  held over several steps by \<open>Close\<close> only, and a subscription's \<open>sendMu\<close> by its goroutine while it is at
  \<open>GSend\<close>; \<open>srv\<close> says which messages the server may send on a stream opened with a request.
\<close>

section \<open>The state\<close>

datatype gpc =
    GOpen
  | GRecv "subscription_msg list"
  | GGot subscription_msg "subscription_msg list"
  | GSend subscription_msg "subscription_msg list"
  | GFail goerr
  | GWait
  | GExit
  | GEnded

datatype gonce = GNotYet | GRemoving | GOnceDone

record gsub =
  gs_ID :: string
  gs_Pattern :: string
  gs_events :: "subscription_event gochan"
  gs_errors :: "subscription_error gochan"
  gs_ctxDone :: bool
  gs_done :: bool
  gs_once :: gonce
  gs_consumerID :: string
  gs_req :: subscribe_request
  gs_pc :: gpc
  gs_cursor :: nat
  gs_accepted :: bool
  gs_delay :: int

datatype gcall =
    GcCheck string "subscribe_options option"
  | GcCount string "subscribe_options option"
  | GcInsert string string "subscribe_options option"
  | GcReturned "string option"

datatype gclose = GcOpen | GcDone | GcLoop "nat list" | GcClosed

record gclient =
  gc_state :: conn_state
  gc_subs :: "gsub list"
  gc_subscriptions :: "string \<rightharpoonup> nat"
  gc_subIDCounter :: nat
  gc_done :: bool
  gc_close :: gclose
  gc_calls :: "gcall list"
  gc_panicked :: bool

definition newGrpcSubscriptionClient :: gclient where
  "newGrpcSubscriptionClient = \<lparr> gc_state = StateDisconnected, gc_subs = [], gc_subscriptions = Map.empty,
     gc_subIDCounter = 0, gc_done = False, gc_close = GcOpen, gc_calls = [], gc_panicked = False \<rparr>"

text \<open>The lock \<open>mu\<close> is free unless \<open>Close\<close> is in its loop.\<close>

definition gMuFree :: "gclient \<Rightarrow> bool" where
  "gMuFree c \<longleftrightarrow> (case gc_close c of GcLoop _ \<Rightarrow> False | _ \<Rightarrow> True)"

section \<open>Subscribing\<close>

definition newGsub :: "subscription_config \<Rightarrow> string \<Rightarrow> string \<Rightarrow> subscribe_options option \<Rightarrow> gsub" where
  "newGsub cfg subID pattern opts =
     (let req = grpcSubscribeRequest pattern opts in
      \<lparr> gs_ID = subID, gs_Pattern = pattern, gs_events = newChan 100, gs_errors = newChan 10,
        gs_ctxDone = False, gs_done = False, gs_once = GNotYet, gs_consumerID = [], gs_req = req, gs_pc = GOpen,
        gs_cursor = (case rq_StartAfterSequence req of Some n \<Rightarrow> n | None \<Rightarrow> 0), gs_accepted = False,
        gs_delay = sg_ReconnectDelay cfg \<rparr>)"

definition grpcSubID :: "nat \<Rightarrow> string" where
  "grpcSubID n = ''grpc-sub-'' @ itoa n"

text \<open>\<open>Subscribe\<close>: the check, the id, and the insertion with the start of the goroutine.\<close>

definition gcallStep :: "subscription_config \<Rightarrow> nat \<Rightarrow> gclient \<Rightarrow> gclient option" where
  "gcallStep cfg k c =
     (if \<not> (k < length (gc_calls c) \<and> gMuFree c) then None
      else case gc_calls c ! k of
             GcCheck pattern opts \<Rightarrow>
               Some (c \<lparr> gc_calls := (gc_calls c)[k :=
                 (if gc_state c = StateConnected then GcCount pattern opts else GcReturned None)] \<rparr>)
           | GcCount pattern opts \<Rightarrow>
               Some (c \<lparr> gc_subIDCounter := gc_subIDCounter c + 1,
                 gc_calls := (gc_calls c)[k := GcInsert (grpcSubID (gc_subIDCounter c + 1)) pattern opts] \<rparr>)
           | GcInsert subID pattern opts \<Rightarrow>
               Some (c \<lparr> gc_subs := gc_subs c @ [newGsub cfg subID pattern opts],
                 gc_subscriptions := (gc_subscriptions c)(subID \<mapsto> length (gc_subs c)),
                 gc_calls := (gc_calls c)[k := GcReturned (Some subID)] \<rparr>)
           | GcReturned _ \<Rightarrow> None)"

section \<open>The goroutine of a subscription\<close>

definition cursorEnabled :: "gsub \<Rightarrow> bool" where
  "cursorEnabled s \<longleftrightarrow> rq_StartAfterSequence (gs_req s) \<noteq> None"

definition attemptReq :: "gsub \<Rightarrow> subscribe_request" where
  "attemptReq s =
     (let r = (if gs_accepted s then gs_req s \<lparr> rq_Replay := 0 \<rparr> else gs_req s)
      in if cursorEnabled s then r \<lparr> rq_StartAfterSequence := Some (gs_cursor s) \<rparr> else r)"

text \<open>What the environment and the runtime decide: how opening and receiving end, and which ready case a
  \<open>select\<close> takes.\<close>

datatype gchoice =
    SOpened "subscription_msg list"
  | SRefused goerr
  | SMessage
  | SEnd "goerr option"
  | SLock
  | SSend
  | SDone
  | SDrop
  | SReport bool
  | STimer
  | SWoken
  | SUnsubscribe

text \<open>After a stream: return, report, or wait to reconnect.\<close>

definition afterStream :: "goerr option \<Rightarrow> gsub \<Rightarrow> gsub" where
  "afterStream err s = s \<lparr> gs_pc :=
     (case err of
        None \<Rightarrow> GExit
      | Some e \<Rightarrow> if \<not> cursorEnabled s \<or> \<not> isRetryableSubscriptionError e then GFail e else GWait) \<rparr>"

text \<open>A message was received: note the consumer id, and skip a message that does not convert.\<close>

definition received :: "subscription_msg \<Rightarrow> subscription_msg list \<Rightarrow> gsub \<Rightarrow> gsub" where
  "received msg rest s =
     (let s1 = s \<lparr> gs_accepted := True,
            gs_consumerID := (if pv_SubscriptionId msg \<noteq> [] then pv_SubscriptionId msg else gs_consumerID s) \<rparr>
      in s1 \<lparr> gs_pc := (case subscriptionEventFromProto msg of Inl _ \<Rightarrow> GRecv rest | Inr _ \<Rightarrow> GGot msg rest) \<rparr>)"

text \<open>The event is in the channel: with a cursor, move it and start over with the delays.\<close>

definition delivered :: "subscription_config \<Rightarrow> subscription_msg \<Rightarrow> subscription_msg list \<Rightarrow> gsub \<Rightarrow> gsub" where
  "delivered cfg msg rest s =
     (let s1 = (case subscriptionEventFromProto msg of
                  Inr ev \<Rightarrow> s \<lparr> gs_events := chanPut ev (gs_events s) \<rparr> | Inl _ \<Rightarrow> s);
          s2 = (if cursorEnabled s \<and> pv_Sequence msg > 0
                then s1 \<lparr> gs_cursor := pv_Sequence msg, gs_delay := sg_ReconnectDelay cfg \<rparr> else s1)
      in s2 \<lparr> gs_pc := GRecv rest \<rparr>)"

definition subEnding :: "gclient \<Rightarrow> gsub \<Rightarrow> bool" where
  "subEnding c s \<longleftrightarrow> gs_done s \<or> gc_done c \<or> cursorEnabled s \<and> gs_ctxDone s"

text \<open>\<open>reportSubscriptionError\<close>, under the read lock: the send is taken only while the subscription is
  tracked.\<close>

definition gError :: "gsub \<Rightarrow> goerr \<Rightarrow> subscription_error" where
  "gError s e = \<lparr> er_SubscriptionID = gs_ID s, er_Code = connectCodeString (codeOf e), er_Message = errorText e,
     er_Retrying = False \<rparr>"

definition gReport :: "bool \<Rightarrow> nat \<Rightarrow> goerr \<Rightarrow> gclient \<Rightarrow> gsub \<Rightarrow> (bool \<times> gsub) option" where
  "gReport send i e c s =
     (if gc_subscriptions c (gs_ID s) \<noteq> Some i then (if send then None else Some (False, s))
      else if send
      then (if ch_closed (gs_errors s) then Some (True, s)
            else if chanRoom (gs_errors s) then Some (False, s \<lparr> gs_errors := chanPut (gError s e) (gs_errors s) \<rparr>)
            else None)
      else if gs_done s \<or> gc_done c \<or> \<not> (ch_closed (gs_errors s) \<or> chanRoom (gs_errors s)) then Some (False, s)
      else None)"

text \<open>One step of \<open>streamSubscription\<close>: the subscription after it, and whether it panicked.\<close>

definition gstreamStep ::
  "(rat \<Rightarrow> rat) \<Rightarrow> (subscribe_request \<Rightarrow> subscription_msg list \<Rightarrow> bool) \<Rightarrow> subscription_config \<Rightarrow> gclient \<Rightarrow> nat \<Rightarrow> gchoice
   \<Rightarrow> gsub \<Rightarrow> (bool \<times> gsub) option" where
  "gstreamStep rnd srv cfg c i ch s =
     (case (gs_pc s, ch) of
        (GOpen, SOpened msgs) \<Rightarrow>
          if srv (attemptReq s) msgs then Some (False, s \<lparr> gs_pc := GRecv msgs \<rparr>) else None
      | (GOpen, SRefused e) \<Rightarrow> Some (False, afterStream (Some e) s)
      | (GRecv (m # ms), SMessage) \<Rightarrow> Some (False, received m ms s)
      | (GRecv _, SEnd err) \<Rightarrow> Some (False, afterStream err s)
      | (GGot m ms, SLock) \<Rightarrow> Some (False, s \<lparr> gs_pc := GSend m ms \<rparr>)
      | (GSend m ms, SSend) \<Rightarrow>
          if ch_closed (gs_events s) then Some (True, s)
          else if chanRoom (gs_events s) then Some (False, delivered cfg m ms s) else None
      | (GSend m ms, SDone) \<Rightarrow> if subEnding c s then Some (False, s \<lparr> gs_pc := GExit \<rparr>) else None
      | (GSend m ms, SDrop) \<Rightarrow>
          if \<not> cursorEnabled s \<and> \<not> subEnding c s \<and> \<not> ch_closed (gs_events s) \<and> \<not> chanRoom (gs_events s)
          then Some (False, s \<lparr> gs_pc := GRecv ms \<rparr>) else None
      | (GFail e, SReport send) \<Rightarrow>
          if gMuFree c then map_option (\<lambda>(p, s'). (p, s' \<lparr> gs_pc := GExit \<rparr>)) (gReport send i e c s) else None
      | (GWait, STimer) \<Rightarrow>
          Some (False, s \<lparr> gs_pc := GOpen, gs_delay :=
            nextSubscriptionReconnectDelay rnd (gs_delay s) (sg_MaxReconnectDelay cfg) (sg_ReconnectBackoff cfg) \<rparr>)
      | (GWait, SWoken) \<Rightarrow>
          if gs_ctxDone s \<or> gs_done s \<or> gc_done c then Some (False, s \<lparr> gs_pc := GExit \<rparr>) else None
      | (GExit, SUnsubscribe) \<Rightarrow>
          if gs_once s = GOnceDone then Some (False, s \<lparr> gs_pc := GEnded \<rparr>) else None
      | _ \<Rightarrow> None)"

section \<open>The machine\<close>

datatype gact =
    GConnect
  | GNewCall string "subscribe_options option"
  | GCall nat
  | GStream nat gchoice
  | GUnsubscribe nat
  | GRemove nat
  | GCancelCtx nat
  | GTakeEvent nat
  | GTakeError nat
  | GClose
  | GCloseLock
  | GCloseSub nat
  | GCloseEnd

definition updSub :: "nat \<Rightarrow> (gsub \<Rightarrow> gsub) \<Rightarrow> gclient \<Rightarrow> gclient" where
  "updSub i f c = c \<lparr> gc_subs := (gc_subs c)[i := f (gc_subs c ! i)] \<rparr>"

text \<open>\<open>Unsubscribe\<close>: inside the \<open>Once\<close>, close \<open>done\<close> and cancel, then take the lock and stop tracking.\<close>

definition gUnsubscribe :: "gsub \<Rightarrow> gsub" where
  "gUnsubscribe s = s \<lparr> gs_done := True, gs_ctxDone := True, gs_once := GRemoving \<rparr>"

text \<open>\<open>Close\<close>, one subscription at a time: close its channels and cancel it.\<close>

definition gCloseSub :: "gsub \<Rightarrow> gsub" where
  "gCloseSub s = s \<lparr> gs_events := chanClose (gs_events s), gs_errors := chanClose (gs_errors s), gs_ctxDone := True \<rparr>"

definition holdsSendMu :: "gsub \<Rightarrow> bool" where
  "holdsSendMu s \<longleftrightarrow> (case gs_pc s of GSend _ _ \<Rightarrow> True | _ \<Rightarrow> False)"

definition gstep ::
  "(rat \<Rightarrow> rat) \<Rightarrow> (subscribe_request \<Rightarrow> subscription_msg list \<Rightarrow> bool) \<Rightarrow> subscription_config \<Rightarrow> gact \<Rightarrow> gclient
   \<Rightarrow> gclient option" where
  "gstep rnd srv cfg a c =
     (if gc_panicked c then None
      else case a of
        GConnect \<Rightarrow> if gMuFree c then Some (c \<lparr> gc_state := StateConnected \<rparr>) else None
      | GNewCall pattern opts \<Rightarrow> Some (c \<lparr> gc_calls := gc_calls c @ [GcCheck pattern opts] \<rparr>)
      | GCall k \<Rightarrow> gcallStep cfg k c
      | GStream i ch \<Rightarrow>
          if i < length (gc_subs c)
          then map_option (\<lambda>(p, s). (updSub i (\<lambda>_. s) c) \<lparr> gc_panicked := p \<rparr>)
                 (gstreamStep rnd srv cfg c i ch (gc_subs c ! i))
          else None
      | GUnsubscribe i \<Rightarrow>
          if i < length (gc_subs c) \<and> gs_once (gc_subs c ! i) = GNotYet then Some (updSub i gUnsubscribe c) else None
      | GRemove i \<Rightarrow>
          if i < length (gc_subs c) \<and> gs_once (gc_subs c ! i) = GRemoving \<and> gMuFree c
          then Some (updSub i (\<lambda>s. s \<lparr> gs_once := GOnceDone \<rparr>) c
                 \<lparr> gc_subscriptions := (gc_subscriptions c)(gs_ID (gc_subs c ! i) := None) \<rparr>)
          else None
      | GCancelCtx i \<Rightarrow>
          if i < length (gc_subs c) then Some (updSub i (\<lambda>s. s \<lparr> gs_ctxDone := True \<rparr>) c) else None
      | GTakeEvent i \<Rightarrow>
          if i < length (gc_subs c) then Some (updSub i (\<lambda>s. s \<lparr> gs_events := chanTake (gs_events s) \<rparr>) c) else None
      | GTakeError i \<Rightarrow>
          if i < length (gc_subs c) then Some (updSub i (\<lambda>s. s \<lparr> gs_errors := chanTake (gs_errors s) \<rparr>) c) else None
      | GClose \<Rightarrow> if gc_close c = GcOpen then Some (c \<lparr> gc_done := True, gc_close := GcDone \<rparr>) else None
      | GCloseLock \<Rightarrow>
          if gc_close c = GcDone
          then Some (c \<lparr> gc_state := StateDisconnected,
                 gc_close := GcLoop (filter (\<lambda>i. gc_subscriptions c (gs_ID (gc_subs c ! i)) = Some i)
                   [0..<length (gc_subs c)]) \<rparr>)
          else None
      | GCloseSub i \<Rightarrow>
          (case gc_close c of
             GcLoop is \<Rightarrow>
               if i \<in> set is \<and> i < length (gc_subs c) \<and> \<not> holdsSendMu (gc_subs c ! i)
               then Some (updSub i gCloseSub c \<lparr> gc_close := GcLoop (removeAll i is) \<rparr>)
               else None
           | _ \<Rightarrow> None)
      | GCloseEnd \<Rightarrow>
          if gc_close c = GcLoop [] then Some (c \<lparr> gc_subscriptions := Map.empty, gc_close := GcClosed \<rparr>) else None)"

section \<open>Acknowledgments\<close>

text \<open>\<open>sendAck\<close>: the request \<open>AckEvent\<close> of an ackable subscription, for the consumer id the stream last gave.\<close>

record ack_event_request =
  aq_Namespace :: string
  aq_GroupName :: string
  aq_ConsumerId :: string
  aq_EventId :: string
  aq_AckType :: ack_type
  aq_RedeliverDelayMs :: int

definition sendAck :: "string \<Rightarrow> string \<Rightarrow> gsub \<Rightarrow> string \<Rightarrow> ack_type \<Rightarrow> int \<Rightarrow> ack_error + ack_event_request" where
  "sendAck grp namespace s eventID ackType delay =
     (case nakDelayMs eventID delay of
        Inl e \<Rightarrow> Inl e
      | Inr delayMs \<Rightarrow> Inr \<lparr> aq_Namespace = namespace, aq_GroupName = grp, aq_ConsumerId = gs_consumerID s,
          aq_EventId = eventID, aq_AckType = ackType, aq_RedeliverDelayMs = delayMs \<rparr>)"

section \<open>With a cursor every event arrives once and in order\<close>

text \<open>What a request selects, apart from where it starts; the log of a selection is everything the server
  will ever send for it, in the order of the sequence.\<close>

definition selects :: "subscribe_request \<Rightarrow> subscribe_request" where
  "selects req = req \<lparr> rq_Replay := 0, rq_StartAfterSequence := None \<rparr>"

definition cursorServer ::
  "(subscribe_request \<Rightarrow> subscription_msg list \<Rightarrow> bool) \<Rightarrow> (subscribe_request \<Rightarrow> subscription_msg list) \<Rightarrow> bool" where
  "cursorServer srv lg \<longleftrightarrow>
     (\<forall>req. sorted_wrt (\<lambda>a b. pv_Sequence a < pv_Sequence b) (lg req))
     \<and> (\<forall>req msgs n. srv req msgs \<and> rq_StartAfterSequence req = Some n \<longrightarrow>
          prefix msgs (filter (\<lambda>m. n < pv_Sequence m) (lg (selects req))))"

definition converted :: "subscription_msg \<Rightarrow> subscription_event list" where
  "converted m = (case subscriptionEventFromProto m of Inr ev \<Rightarrow> [ev] | Inl _ \<Rightarrow> [])"

definition window :: "nat \<Rightarrow> nat \<Rightarrow> subscription_msg list \<Rightarrow> subscription_msg list" where
  "window a b = filter (\<lambda>m. a < pv_Sequence m \<and> pv_Sequence m \<le> b)"

definition eventsOf :: "subscription_msg list \<Rightarrow> subscription_event list" where
  "eventsOf ms = concat (map converted ms)"

fun upcoming :: "gpc \<Rightarrow> subscription_msg list" where
  "upcoming (GRecv ms) = ms"
| "upcoming (GGot m ms) = m # ms"
| "upcoming (GSend m ms) = m # ms"
| "upcoming _ = []"

definition subExact :: "(subscribe_request \<Rightarrow> subscription_msg list) \<Rightarrow> gsub \<Rightarrow> bool" where
  "subExact lg s \<longleftrightarrow>
     (\<forall>n. rq_StartAfterSequence (gs_req s) = Some n \<longrightarrow>
        n \<le> gs_cursor s
        \<and> chanSent (gs_events s) = eventsOf (window n (gs_cursor s) (lg (selects (gs_req s))))
        \<and> (\<exists>pre. eventsOf pre = [] \<and>
             prefix (pre @ upcoming (gs_pc s)) (filter (\<lambda>m. gs_cursor s < pv_Sequence m) (lg (selects (gs_req s))))))"

lemma window_step:
  assumes "sorted_wrt (\<lambda>a b. pv_Sequence a < pv_Sequence b) L" "n \<le> c"
    and "prefix (pre @ m # ms) (filter (\<lambda>m. c < pv_Sequence m) L)"
  shows "window n (pv_Sequence m) L = window n c L @ pre @ [m]"
    and "prefix ms (filter (\<lambda>x. pv_Sequence m < pv_Sequence x) L)"
proof -
  obtain post where f: "filter (\<lambda>m. c < pv_Sequence m) L = pre @ m # ms @ post"
    using assms(3) by (auto elim!: prefixE)
  let ?s = "pv_Sequence"
  have split: "L = filter (\<lambda>x. ?s x \<le> c) L @ filter (\<lambda>x. c < ?s x) L"
    using assms(1)
  proof (induction L)
    case (Cons x L)
    show ?case
    proof (cases "?s x \<le> c")
      case True then show ?thesis using Cons by simp
    next
      case False
      then have "filter (\<lambda>x. ?s x \<le> c) L = []" using Cons.prems by (auto simp: filter_empty_conv)
      then show ?thesis using False Cons by simp
    qed
  qed simp
  let ?lo = "filter (\<lambda>x. ?s x \<le> c) L"
  have L: "L = ?lo @ pre @ m # ms @ post" using split f by simp
  have s: "sorted_wrt (\<lambda>a b. ?s a < ?s b) (pre @ m # ms @ post)"
    using assms(1) f sorted_wrt_filter by metis
  have pre: "c < ?s x \<and> ?s x < ?s m" if "x \<in> set pre" for x
  proof -
    have "x \<in> set (filter (\<lambda>m. c < ?s m) L)" using that f by simp
    then show ?thesis using that s by (auto simp: sorted_wrt_append)
  qed
  have after: "?s m < ?s x" if "x \<in> set (ms @ post)" for x
    using that s by (auto simp: sorted_wrt_append)
  have cm: "c < ?s m" using arg_cong [OF f, of set] by auto
  have lo: "filter (\<lambda>x. n < ?s x \<and> ?s x \<le> ?s m) ?lo = filter (\<lambda>x. n < ?s x \<and> ?s x \<le> c) L"
    using cm by (auto simp: intro!: filter_cong)
  have "window n (?s m) L = window n (?s m) (?lo @ pre @ m # ms @ post)" using L by simp
  also have "\<dots> = window n c L @ pre @ [m]"
  proof -
    have "filter (\<lambda>x. n < ?s x \<and> ?s x \<le> ?s m) pre = pre"
      using pre assms(2) by (intro filter_True) force
    moreover have "filter (\<lambda>x. n < ?s x \<and> ?s x \<le> ?s m) (ms @ post) = []"
      using after by (intro filter_False) force
    ultimately show ?thesis using lo cm assms(2) by (simp add: window_def)
  qed
  finally show "window n (?s m) L = window n c L @ pre @ [m]" .
  have "filter (\<lambda>x. ?s m < ?s x) L = filter (\<lambda>x. ?s m < ?s x) (?lo @ pre @ m # ms @ post)" using L by simp
  also have "\<dots> = ms @ post"
  proof -
    have "filter (\<lambda>x. ?s m < ?s x) ?lo = []" using cm by (auto simp: filter_empty_conv)
    moreover have "filter (\<lambda>x. ?s m < ?s x) pre = []" using pre by (intro filter_False) force
    moreover have "filter (\<lambda>x. ?s m < ?s x) (ms @ post) = ms @ post" using after by (intro filter_True) blast
    ultimately show ?thesis by simp
  qed
  finally show "prefix ms (filter (\<lambda>x. ?s m < ?s x) L)" by simp
qed

lemma eventsOf_append [simp]: "eventsOf (xs @ ys) = eventsOf xs @ eventsOf ys"
  by (simp add: eventsOf_def)

lemma eventsOf_Cons: "eventsOf (x # xs) = converted x @ eventsOf xs"
  by (simp add: eventsOf_def)

lemma prefix_filterD: "prefix (pre @ m # ms) (filter P xs) \<Longrightarrow> P m"
  using set_mono_prefix [of "pre @ m # ms" "filter P xs"] by auto

text \<open>Only a delivery moves the cursor, and only the goroutine changes what it is about to receive.\<close>

lemma subExact_cong:
  assumes "gs_req t = gs_req s" "gs_cursor t = gs_cursor s" "chanSent (gs_events t) = chanSent (gs_events s)"
    and "upcoming (gs_pc t) = upcoming (gs_pc s) \<or> upcoming (gs_pc t) = []" "subExact lg s"
  shows "subExact lg t"
  using assms unfolding subExact_def by (metis append.right_neutral append_prefixD)

lemma subExact_received:
  assumes "gs_pc s = GRecv (m # ms)" "subExact lg s"
  shows "subExact lg (received m ms s)"
proof (cases "subscriptionEventFromProto m")
  case (Inl e)
  have "\<exists>pre'. eventsOf pre' = [] \<and> prefix (pre' @ ms) F" if "eventsOf pre = []" "prefix (pre @ m # ms) F" for pre F
    using that Inl by (intro exI [of _ "pre @ [m]"]) (simp add: eventsOf_Cons converted_def eventsOf_def)
  then show ?thesis using assms Inl unfolding subExact_def received_def Let_def by auto
next
  case (Inr ev)
  then show ?thesis using assms unfolding subExact_def received_def Let_def by auto
qed

lemma subExact_delivered:
  assumes "cursorServer srv lg" "gs_pc s = GSend m ms" "subExact lg s"
  shows "subExact lg (delivered cfg m ms s)"
proof -
  have "subExact lg t" if t: "gs_req t = gs_req s" "gs_pc t = GRecv ms" "gs_cursor t = pv_Sequence m"
    "chanSent (gs_events t) = chanSent (gs_events s) @ converted m" for t
    unfolding subExact_def
  proof (intro allI impI)
    fix n assume "rq_StartAfterSequence (gs_req t) = Some n"
    then obtain pre where n: "n \<le> gs_cursor s"
        "chanSent (gs_events s) = eventsOf (window n (gs_cursor s) (lg (selects (gs_req s))))"
      and pre: "eventsOf pre = []"
        "prefix (pre @ m # ms) (filter (\<lambda>m. gs_cursor s < pv_Sequence m) (lg (selects (gs_req s))))"
      using assms(2,3) t(1) by (fastforce simp: subExact_def)
    have s: "sorted_wrt (\<lambda>a b. pv_Sequence a < pv_Sequence b) (lg (selects (gs_req s)))"
      using assms(1) by (simp add: cursorServer_def)
    have "gs_cursor s < pv_Sequence m" using prefix_filterD [OF pre(2)] .
    then have "n \<le> pv_Sequence m" using n(1) by simp
    then show "n \<le> gs_cursor t \<and> chanSent (gs_events t) = eventsOf (window n (gs_cursor t) (lg (selects (gs_req t))))
        \<and> (\<exists>pre. eventsOf pre = [] \<and>
             prefix (pre @ upcoming (gs_pc t)) (filter (\<lambda>m. gs_cursor t < pv_Sequence m) (lg (selects (gs_req t)))))"
      using window_step [OF s n(1) pre(2)] n(2) pre(1) t
      by (auto simp: eventsOf_Cons intro!: exI [of _ "[]"]) (simp_all add: eventsOf_def)
  qed
  moreover have "subExact lg t" if "rq_StartAfterSequence (gs_req t) = None" for t
    using that by (simp add: subExact_def)
  moreover have "0 < pv_Sequence m" if "cursorEnabled s"
    using that assms(2,3) prefix_filterD [of _ m ms] by (fastforce simp: subExact_def cursorEnabled_def)
  ultimately show ?thesis
    by (cases "cursorEnabled s"; cases "subscriptionEventFromProto m")
       (auto simp: delivered_def Let_def cursorEnabled_def converted_def)
qed

lemma subExact_step:
  assumes "cursorServer srv lg" "gstreamStep rnd srv cfg c i ch s = Some (p, s')" "subExact lg s"
  shows "subExact lg s'"
proof (cases "\<exists>m ms. gs_pc s = GRecv (m # ms) \<and> ch = SMessage")
  case True
  then show ?thesis using assms subExact_received by (auto simp: gstreamStep_def)
next
  case nomsg: False
  show ?thesis
  proof (cases "\<exists>m ms. gs_pc s = GSend m ms \<and> ch = SSend")
    case True
    then show ?thesis using assms subExact_delivered [OF assms(1)] by (auto simp: gstreamStep_def split: if_splits)
  next
    case nosend: False
    show ?thesis
    proof (cases "\<exists>msgs. gs_pc s = GOpen \<and> ch = SOpened msgs")
      case True
      then obtain msgs where o: "gs_pc s = GOpen" "srv (attemptReq s) msgs" "s' = s \<lparr> gs_pc := GRecv msgs \<rparr>"
        using assms(2) by (auto simp: gstreamStep_def split: if_splits)
      have "prefix msgs (filter (\<lambda>m. gs_cursor s < pv_Sequence m) (lg (selects (gs_req s))))" if "cursorEnabled s"
      proof -
        have "rq_StartAfterSequence (attemptReq s) = Some (gs_cursor s)" "selects (attemptReq s) = selects (gs_req s)"
          using that by (simp_all add: attemptReq_def Let_def selects_def)
        then show ?thesis using assms(1) o(2) by (metis cursorServer_def)
      qed
      then show ?thesis using o assms(3)
        by (auto simp: subExact_def cursorEnabled_def intro!: exI [of _ "[]"]) (simp_all add: eventsOf_def)
    next
      case False
      have "gs_req s' = gs_req s \<and> gs_cursor s' = gs_cursor s \<and> gs_events s' = gs_events s
        \<and> (upcoming (gs_pc s') = upcoming (gs_pc s) \<or> upcoming (gs_pc s') = [] \<or> \<not> cursorEnabled s)"
        using assms(2) nomsg nosend False
        by (cases "gs_pc s"; cases ch)
           (auto simp: gstreamStep_def afterStream_def gReport_def split: if_splits list.splits option.splits)
      then consider "\<not> cursorEnabled s'" | "gs_req s' = gs_req s" "gs_cursor s' = gs_cursor s" "gs_events s' = gs_events s"
          "upcoming (gs_pc s') = upcoming (gs_pc s) \<or> upcoming (gs_pc s') = []"
        by (auto simp: cursorEnabled_def)
      then show ?thesis
        using assms(3) subExact_cong [of s' s] by cases (auto simp: subExact_def cursorEnabled_def)
    qed
  qed
qed


text \<open>Every action of the machine treats a subscription in one of these ways.\<close>

lemma gstep_subs:
  assumes "gstep rnd srv cfg a c = Some c'" "s' \<in> set (gc_subs c')"
  obtains (kept) "s' \<in> set (gc_subs c)"
  | (made) subID pattern opts where "s' = newGsub cfg subID pattern opts"
  | (moved) i ch s p where "s \<in> set (gc_subs c)" "gstreamStep rnd srv cfg c i ch s = Some (p, s')"
  | (outside) s where "s \<in> set (gc_subs c)" "gs_req s' = gs_req s" "gs_cursor s' = gs_cursor s" "gs_pc s' = gs_pc s"
      "chanSent (gs_events s') = chanSent (gs_events s)"
proof -
  have upd: "\<exists>s\<in>set (gc_subs c). s' = f s" if "s' \<in> set ((gc_subs c)[i := f (gc_subs c ! i)])" "s' \<notin> set (gc_subs c)"
      "i < length (gc_subs c)" for f i
    using that set_update_subset_insert [of "gc_subs c" i "f (gc_subs c ! i)"] by auto
  show thesis
  proof (cases "s' \<in> set (gc_subs c)")
    case new: False
    show thesis
    proof (cases a)
      case (GCall k)
      then show thesis using assms new made
        by (auto simp: gstep_def gcallStep_def split: if_splits gcall.splits)
    next
      case (GStream i ch)
      then obtain p t where t: "gstreamStep rnd srv cfg c i ch (gc_subs c ! i) = Some (p, t)" "i < length (gc_subs c)"
          "gc_subs c' = (gc_subs c)[i := t]"
        using assms(1) by (auto simp: gstep_def updSub_def split: if_splits)
      then have "s' = t" using assms(2) new set_update_subset_insert [of "gc_subs c" i t] by auto
      then show thesis using moved [of "gc_subs c ! i" i ch p] t by simp
    next
      case (GUnsubscribe i)
      then show thesis using assms new outside upd [of i gUnsubscribe]
        by (fastforce simp: gstep_def updSub_def gUnsubscribe_def split: if_splits)
    next
      case (GRemove i)
      then show thesis using assms new outside upd [of i "\<lambda>s. s \<lparr> gs_once := GOnceDone \<rparr>"]
        by (fastforce simp: gstep_def updSub_def split: if_splits)
    next
      case (GCancelCtx i)
      then show thesis using assms new outside upd [of i "\<lambda>s. s \<lparr> gs_ctxDone := True \<rparr>"]
        by (fastforce simp: gstep_def updSub_def split: if_splits)
    next
      case (GTakeEvent i)
      then show thesis using assms new outside upd [of i "\<lambda>s. s \<lparr> gs_events := chanTake (gs_events s) \<rparr>"]
        by (fastforce simp: gstep_def updSub_def split: if_splits)
    next
      case (GTakeError i)
      then show thesis using assms new outside upd [of i "\<lambda>s. s \<lparr> gs_errors := chanTake (gs_errors s) \<rparr>"]
        by (fastforce simp: gstep_def updSub_def split: if_splits)
    next
      case (GCloseSub i)
      then show thesis using assms new outside upd [of i gCloseSub]
        by (fastforce simp: gstep_def updSub_def gCloseSub_def split: if_splits gclose.splits)
    qed (use assms new in \<open>auto simp: gstep_def split: if_splits\<close>)
  qed (rule kept)
qed

lemma subExact_new: "subExact lg (newGsub cfg subID pattern opts)"
  by (auto simp: subExact_def newGsub_def Let_def window_def eventsOf_def intro!: exI [of _ "[]"])

interpretation grpc_exact: step_invariant "gstep rnd srv cfg"
    "\<lambda>c. cursorServer srv lg \<longrightarrow> (\<forall>s\<in>set (gc_subs c). subExact lg s)" for rnd srv cfg lg
proof (unfold_locales, intro impI ballI)
  fix a c c' s'
  assume step: "gstep rnd srv cfg a c = Some c'" and inv: "cursorServer srv lg \<longrightarrow> (\<forall>s\<in>set (gc_subs c). subExact lg s)"
    and srv: "cursorServer srv lg" and s': "s' \<in> set (gc_subs c')"
  from step s' show "subExact lg s'"
  proof (cases rule: gstep_subs)
    case kept then show ?thesis using inv srv by blast
  next
    case made then show ?thesis using subExact_new by simp
  next
    case moved then show ?thesis using inv srv subExact_step by blast
  next
    case (outside s) then show ?thesis using inv srv subExact_cong [of s' s] by auto
  qed
qed

text \<open>C31. A subscription with a cursor puts every event of the log that lies between its start and its cursor on
  its channel, once and in order, whatever streams break, reconnect or end and however the goroutines of
  the client are scheduled; only messages that cannot be converted are left out.\<close>

theorem grpc_cursor_exact:
  assumes "cursorServer srv lg" "reaches (gstep rnd srv cfg) newGrpcSubscriptionClient c" "s \<in> set (gc_subs c)"
    and "rq_StartAfterSequence (gs_req s) = Some n"
  shows "chanSent (gs_events s) = eventsOf (window n (gs_cursor s) (lg (selects (gs_req s)))) \<and> n \<le> gs_cursor s"
proof -
  have "cursorServer srv lg \<longrightarrow> (\<forall>s\<in>set (gc_subs c). subExact lg s)"
    by (rule grpc_exact.reached_keep [OF assms(2)]) (simp add: newGrpcSubscriptionClient_def)
  then have "subExact lg s" using assms(1,3) by blast
  then show ?thesis using assms(4) by (simp add: subExact_def)
qed

definition grpcDemo :: subscription_config where
  "grpcDemo = \<lparr> sg_AutoReconnect = True, sg_ReconnectDelay = second, sg_MaxReconnectDelay = 30 * second,
     sg_ReconnectBackoff = 3 / 2 \<rparr>"

definition demoMsg :: "nat \<Rightarrow> subscription_msg" where
  "demoMsg n = \<lparr> pv_SubscriptionId = [], pv_EventId = ''e'' @ itoa n, pv_Topic = ''t'', pv_Data = None,
     pv_DataValue = None, pv_Sequence = n, pv_Metadata = None \<rparr>"

definition demoLog :: "subscription_msg list" where
  "demoLog = [demoMsg 1, demoMsg 2]"

definition logServer :: "subscribe_request \<Rightarrow> subscription_msg list \<Rightarrow> bool" where
  "logServer req msgs \<longleftrightarrow>
     prefix msgs (case rq_StartAfterSequence req of Some n \<Rightarrow> filter (\<lambda>m. n < pv_Sequence m) demoLog | None \<Rightarrow> demoLog)"

definition joinActs :: "gact list" where
  "joinActs = [GConnect, GNewCall ''p'' (Some (noOptions \<lparr> so_StartAfterSequence := Some 0 \<rparr>)), GCall 0, GCall 0, GCall 0]"

definition breakActs :: "gact list" where
  "breakActs = joinActs @ map (GStream 0) [SOpened demoLog, SMessage, SLock, SSend, SEnd (Some (ENew ''eof'')), STimer,
     SOpened [demoMsg 2], SMessage, SLock, SSend]"

lemma break_run:
  "map_option (\<lambda>c. map (\<lambda>s. (gs_cursor s, rq_StartAfterSequence (gs_req s))) (gc_subs c))
     (runSteps (gstep (\<lambda>x. x) logServer grpcDemo) breakActs newGrpcSubscriptionClient) = Some [(2, Some 0)]"
  by code_simp

lemma demo_cursorServer: "cursorServer logServer (\<lambda>_. demoLog)"
  by (auto simp: cursorServer_def logServer_def demoLog_def demoMsg_def)

text \<open>Witness: the stream breaks after the first of two events; both are on the channel, once each.\<close>

theorem grpc_cursor_exact_witness:
  "map_option (\<lambda>c. map (\<lambda>s. chanSent (gs_events s)) (gc_subs c))
     (runSteps (gstep (\<lambda>x. x) logServer grpcDemo) breakActs newGrpcSubscriptionClient)
   = Some [eventsOf [demoMsg 1, demoMsg 2]]"
proof -
  obtain c where c: "runSteps (gstep (\<lambda>x. x) logServer grpcDemo) breakActs newGrpcSubscriptionClient = Some c"
    "map (\<lambda>s. (gs_cursor s, rq_StartAfterSequence (gs_req s))) (gc_subs c) = [(2, Some 0)]"
    using break_run by auto
  then obtain s where s: "gc_subs c = [s]" "gs_cursor s = 2" "rq_StartAfterSequence (gs_req s) = Some 0" by auto
  have "chanSent (gs_events s) = eventsOf (window 0 2 demoLog)"
    using grpc_cursor_exact [OF demo_cursorServer runSteps_reaches [OF c(1) reaches.here], of s 0] s by simp
  then show ?thesis using c(1) s(1) by (simp add: window_def demoLog_def demoMsg_def)
qed

section \<open>Closing\<close>

text \<open>A send meets a closed channel only when the client is being closed: until \<open>Close\<close> is called no channel
  of a subscription is closed, so the client cannot panic.\<close>

definition chansOpen :: "gclient \<Rightarrow> bool" where
  "chansOpen c \<longleftrightarrow> gc_close c = GcOpen \<longrightarrow>
     \<not> gc_done c \<and> \<not> gc_panicked c \<and> (\<forall>s\<in>set (gc_subs c). \<not> ch_closed (gs_events s) \<and> \<not> ch_closed (gs_errors s))"

text \<open>The error channel is sent to only while the subscription is tracked, and then it is open.\<close>

definition trackedOpen :: "gclient \<Rightarrow> bool" where
  "trackedOpen c \<longleftrightarrow> (\<forall>i<length (gc_subs c). ch_closed (gs_errors (gc_subs c ! i)) \<longrightarrow>
     gc_subscriptions c (gs_ID (gc_subs c ! i)) = Some i \<longrightarrow> (\<exists>is. gc_close c = GcLoop is))"

lemma gstreamStep_chans:
  assumes "gstreamStep rnd srv cfg c i ch s = Some (p, s')"
  shows "ch_closed (gs_events s') = ch_closed (gs_events s)" "ch_closed (gs_errors s') = ch_closed (gs_errors s)"
    "gs_ID s' = gs_ID s" "gs_once s' = gs_once s"
    "p \<Longrightarrow> ch_closed (gs_events s) \<or> gMuFree c \<and> gc_subscriptions c (gs_ID s) = Some i \<and> ch_closed (gs_errors s)"
  using assms
  by (auto simp: gstreamStep_def afterStream_def received_def delivered_def gReport_def Let_def
      split: gpc.splits gchoice.splits list.splits if_splits option.splits sum.splits)

lemma gUnsubscribe_chans [simp]:
  "gs_events (gUnsubscribe s) = gs_events s" "gs_errors (gUnsubscribe s) = gs_errors s" "gs_ID (gUnsubscribe s) = gs_ID s"
  "gs_ID (gCloseSub s) = gs_ID s"
  by (simp_all add: gUnsubscribe_def gCloseSub_def)

lemma newGsub_chans [simp]:
  "\<not> ch_closed (gs_events (newGsub cfg i p opts))" "\<not> ch_closed (gs_errors (newGsub cfg i p opts))"
  by (simp_all add: newGsub_def Let_def)

lemma chansOpen_step:
  assumes "gstep rnd srv cfg a c = Some c'" "chansOpen c"
  shows "chansOpen c'"
proof (cases a)
  case (GStream i ch)
  then obtain p t where t: "gstreamStep rnd srv cfg c i ch (gc_subs c ! i) = Some (p, t)" "i < length (gc_subs c)"
      "c' = (updSub i (\<lambda>_. t) c) \<lparr> gc_panicked := p \<rparr>"
    using assms(1) by (auto simp: gstep_def split: if_splits)
  then show ?thesis using assms(2) gstreamStep_chans [OF t(1)] nth_mem [OF t(2)]
    by (auto simp: chansOpen_def updSub_def dest!: set_list_updateD)
next
  case (GCall k)
  then show ?thesis using assms
    by (auto simp: gstep_def gcallStep_def chansOpen_def split: if_splits gcall.splits)
qed (use assms in \<open>auto simp: gstep_def chansOpen_def updSub_def dest!: set_list_updateD split: if_splits gclose.splits\<close>)

lemma trackedOpen_step:
  assumes "gstep rnd srv cfg a c = Some c'" "trackedOpen c"
  shows "trackedOpen c'"
proof (cases a)
  case (GStream i ch)
  then obtain p t where t: "gstreamStep rnd srv cfg c i ch (gc_subs c ! i) = Some (p, t)" "i < length (gc_subs c)"
      "c' = (updSub i (\<lambda>_. t) c) \<lparr> gc_panicked := p \<rparr>"
    using assms(1) by (auto simp: gstep_def split: if_splits)
  then show ?thesis using assms(2) gstreamStep_chans [OF t(1)]
    by (auto simp: trackedOpen_def updSub_def nth_list_update)
next
  case (GCall k)
  then show ?thesis using assms
    by (auto simp: gstep_def gcallStep_def trackedOpen_def nth_append less_Suc_eq split: if_splits gcall.splits)
next
  case GCloseLock
  then show ?thesis using assms by (auto simp: gstep_def trackedOpen_def split: if_splits)
qed (use assms in \<open>auto simp: gstep_def trackedOpen_def updSub_def nth_list_update split: if_splits gclose.splits\<close>)

interpretation grpc_open: step_invariant "gstep rnd srv cfg" "\<lambda>c. chansOpen c \<and> trackedOpen c" for rnd srv cfg
  by unfold_locales (blast intro: chansOpen_step trackedOpen_step)

theorem grpc_panics_only_in_close:
  assumes "reaches (gstep rnd srv cfg) newGrpcSubscriptionClient c" "gc_panicked c"
  shows "gc_close c \<noteq> GcOpen"
proof -
  have "chansOpen c \<and> trackedOpen c"
    by (rule grpc_open.reached_keep [OF assms(1)]) (simp add: newGrpcSubscriptionClient_def chansOpen_def trackedOpen_def)
  then show ?thesis using assms(2) by (simp add: chansOpen_def)
qed

text \<open>Reporting an error never meets a closed channel.\<close>

theorem grpc_error_report_is_safe:
  assumes "reaches (gstep rnd srv cfg) newGrpcSubscriptionClient c" "i < length (gc_subs c)"
    and "gstep rnd srv cfg (GStream i (SReport send)) c = Some c'"
  shows "\<not> gc_panicked c'"
proof -
  have "trackedOpen c"
    using grpc_open.reached_keep [OF assms(1)] by (simp add: newGrpcSubscriptionClient_def chansOpen_def trackedOpen_def)
  then show ?thesis using assms(2,3)
    by (auto simp: gstep_def gstreamStep_def trackedOpen_def gMuFree_def gReport_def
        split: if_splits gpc.splits gclose.splits list.splits)
qed

definition closePanicActs :: "gact list" where
  "closePanicActs = joinActs @ [GStream 0 (SOpened demoLog), GStream 0 SMessage, GClose, GCloseLock, GCloseSub 0,
     GStream 0 SLock, GStream 0 SSend]"

text \<open>Closing the client while a subscription handles a message panics: \<open>Close\<close> takes \<open>sendMu\<close> after the
  message was received and before the goroutine does, and the closed events channel is then one of the ready
  cases of the goroutine's \<open>select\<close>, next to the closed \<open>done\<close> channel.\<close>

theorem close_during_delivery_panics:
  "\<exists>c. runSteps (gstep (\<lambda>x. x) logServer grpcDemo) closePanicActs newGrpcSubscriptionClient = Some c \<and> gc_panicked c"
proof -
  have "map_option gc_panicked (runSteps (gstep (\<lambda>x. x) logServer grpcDemo) closePanicActs newGrpcSubscriptionClient) = Some True"
    by code_simp
  then show ?thesis by auto
qed

text \<open>A subscription that ends by itself or by \<open>Unsubscribe\<close> leaves its events channel open, and a later
  \<open>Close\<close> does not know it any more: a reader that ranges over the events waits for ever.\<close>

definition endActs :: "gact list" where
  "endActs = joinActs @ [GStream 0 (SOpened []), GStream 0 (SEnd None), GUnsubscribe 0, GRemove 0, GStream 0 SUnsubscribe,
     GClose, GCloseLock, GCloseEnd]"

lemma ended_subscription_stays_open:
  "map_option (\<lambda>c. (gc_close c, map (\<lambda>s. (gs_pc s, ch_closed (gs_events s))) (gc_subs c)))
     (runSteps (gstep (\<lambda>x. x) logServer grpcDemo) endActs newGrpcSubscriptionClient) = Some (GcClosed, [(GEnded, False)])"
  by code_simp

end
