(* ===== verification/Group_Stream.thy ===== *)
theory Group_Stream
  imports Subscription_Wire Machine "HOL-Library.Sublist"
begin

text \<open>
  A consumer group over one bidirectional stream (\<^verbatim>\<open>src/ironflow/consumer_group_stream.go\<close>,
  \<^verbatim>\<open>consumer_group_stream_conn.go\<close>) as a machine: \<open>run\<close>, which reads the current stream and reconnects,
  \<open>pump\<close>, which moves events of a manual group to the caller, the calls of \<open>Ack\<close>, \<open>Nak\<close> and \<open>Term\<close>,
  \<open>unsubscribe\<close> with its watcher, the timers and the readers of the channels. A step is one critical
  section or one channel operation.
\<close>

section \<open>One stream\<close>

datatype ack_code = AckCodeUnspecified | AckCodeOK | AckCodeInvalidArgument | AckCodeNotFound | AckCodeInternal

record ack_result =
  ar_AckId :: nat
  ar_Code :: ack_code
  ar_Message :: string

text \<open>The errors of the acknowledgment calls: stale, closed, rejected by the server, and those made with
  \<open>fmt.Errorf\<close>. A stale error carries the text it is wrapped in.\<close>

datatype settle_error =
    ErrStaleAck string
  | ErrSubscriptionClosed
  | ErrRejected ack_error
  | ErrText string

datatype ack_outcome = OutcomeResult ack_result | OutcomeError settle_error

record ack_msg =
  am_EventId :: string
  am_AckType :: ack_type
  am_RedeliverDelayMs :: int
  am_AckId :: nat

text \<open>\<open>streamConn\<close>. A pending acknowledgment's channel holds one value: \<open>sn_box\<close>. The last two fields are
  the frames seen so far: the events received on the stream and the acknowledgments sent on it.\<close>

record stream_conn =
  sn_subID :: string
  sn_pattern :: string
  sn_manual :: bool
  sn_cancelled :: bool
  sn_halfClosed :: bool
  sn_ended :: bool
  sn_resetErr :: "goerr option"
  sn_nextAck :: nat
  sn_pending :: "nat list"
  sn_box :: "nat \<rightharpoonup> ack_outcome"
  sn_delivery :: "string \<rightharpoonup> nat \<times> int"
  sn_lastPrune :: "int option"
  sn_received :: "subscription_event list"
  sn_sent :: "ack_msg list"

definition newStreamConn :: "string \<Rightarrow> string \<Rightarrow> bool \<Rightarrow> stream_conn" where
  "newStreamConn subID pattern manual = \<lparr> sn_subID = subID, sn_pattern = pattern, sn_manual = manual,
     sn_cancelled = False, sn_halfClosed = False, sn_ended = False, sn_resetErr = None, sn_nextAck = 0,
     sn_pending = [], sn_box = Map.empty, sn_delivery = Map.empty, sn_lastPrune = None, sn_received = [], sn_sent = [] \<rparr>"

definition endedOutcome :: ack_outcome where
  "endedOutcome = OutcomeError (ErrStaleAck ''ironflow: the stream ended before the ack result arrived: '')"

text \<open>\<open>finish\<close>: mark the stream ended and fail every pending acknowledgment. A send to a full channel would
  block with the lock held: then the step is not there.\<close>

definition finishConn :: "stream_conn \<Rightarrow> stream_conn option" where
  "finishConn sc =
     (if list_ex (\<lambda>i. sn_box sc i \<noteq> None) (sn_pending sc) then None
      else Some (sc \<lparr> sn_ended := True, sn_pending := [],
        sn_box := (\<lambda>i. if i \<in> set (sn_pending sc) then Some endedOutcome else sn_box sc i) \<rparr>))"

text \<open>\<open>markDelivered\<close>: prune old entries once in a while, then count the copy.\<close>

definition markDelivered :: "int \<Rightarrow> int \<Rightarrow> string \<Rightarrow> stream_conn \<Rightarrow> stream_conn" where
  "markDelivered maxAge now evID sc =
     (if \<not> sn_manual sc then sc
      else let prune = (case sn_lastPrune sc of None \<Rightarrow> True | Some t \<Rightarrow> now - t \<ge> maxAge);
               d = (if prune then (\<lambda>k. case sn_delivery sc k of
                                         Some (n, arrived) \<Rightarrow> if now - arrived \<ge> maxAge then None else Some (n, arrived)
                                       | None \<Rightarrow> None)
                    else sn_delivery sc);
               copies = (case d evID of Some (n, _) \<Rightarrow> n | None \<Rightarrow> 0)
           in sc \<lparr> sn_delivery := d(evID \<mapsto> (copies + 1, now)),
                sn_lastPrune := (if prune then Some now else sn_lastPrune sc) \<rparr>)"

definition resetConn :: "goerr \<Rightarrow> stream_conn \<Rightarrow> stream_conn" where
  "resetConn reason sc = sc \<lparr> sn_resetErr := (if sn_resetErr sc = None then Some reason else sn_resetErr sc),
     sn_cancelled := True \<rparr>"

definition resolve :: "ack_result \<Rightarrow> stream_conn \<Rightarrow> stream_conn option" where
  "resolve res sc =
     (if ar_AckId res \<notin> set (sn_pending sc) then Some sc
      else if sn_box sc (ar_AckId res) \<noteq> None then None
      else Some (sc \<lparr> sn_pending := removeAll (ar_AckId res) (sn_pending sc),
             sn_box := (sn_box sc)(ar_AckId res \<mapsto> OutcomeResult res) \<rparr>))"

definition ackCodeName :: "ack_code \<Rightarrow> string" where
  "ackCodeName c = (case c of AckCodeUnspecified \<Rightarrow> ''unspecified'' | AckCodeOK \<Rightarrow> ''ok''
     | AckCodeInvalidArgument \<Rightarrow> ''invalid_argument'' | AckCodeNotFound \<Rightarrow> ''not_found'' | AckCodeInternal \<Rightarrow> ''internal'')"

definition applyResult :: "string \<Rightarrow> ack_result \<Rightarrow> stream_conn \<Rightarrow> settle_error option \<times> stream_conn" where
  "applyResult eventID res sc =
     (if ar_Code res \<noteq> AckCodeOK
      then (Some (ErrRejected \<lparr> ae_EventID = eventID, ae_Code = ackCodeName (ar_Code res), ae_Message = ar_Message res \<rparr>), sc)
      else (None, case sn_delivery sc eventID of
                    None \<Rightarrow> sc
                  | Some (n, arrived) \<Rightarrow>
                      if n \<le> 1 then sc \<lparr> sn_delivery := (sn_delivery sc)(eventID := None) \<rparr>
                      else sc \<lparr> sn_delivery := (sn_delivery sc)(eventID \<mapsto> (n - 1, arrived)) \<rparr>))"

text \<open>The part of \<open>settle\<close> under the lock: refuse a stale acknowledgment, or take the next id.\<close>

definition admitAck :: "string \<Rightarrow> stream_conn \<Rightarrow> settle_error + nat \<times> stream_conn" where
  "admitAck eventID sc =
     (if sn_ended sc \<or> sn_manual sc \<and> sn_delivery sc eventID = None then Inl (ErrStaleAck [])
      else Inr (sn_nextAck sc + 1,
             sc \<lparr> sn_nextAck := sn_nextAck sc + 1, sn_pending := (sn_nextAck sc + 1) # sn_pending sc \<rparr>))"

definition forget :: "nat \<Rightarrow> stream_conn \<Rightarrow> stream_conn" where
  "forget ackID sc = sc \<lparr> sn_pending := removeAll ackID (sn_pending sc) \<rparr>"

section \<open>The state\<close>

text \<open>Program counters. \<open>accepted\<close> and the error are \<open>read\<close>'s results.\<close>

datatype run_at =
    RRecv bool
  | RAuto subscription_event
  | RPush subscription_event
  | RFinish bool "goerr option"
  | RDone bool "goerr option"
  | RWait
  | ROpen
  | RCtxReport
  | RExiting
  | RFinished
  | RPumpWait
  | REnd

datatype pump_at =
    PTop
  | PHave subscription_event nat
  | PSend subscription_event nat
  | PSleep
  | PEnd

datatype settle_at =
    SaStart
  | SaCurrent
  | SaAdmit nat
  | SaSend nat nat int bool
  | SaWait nat nat
  | SaDone "settle_error option"

record settle_call =
  st_eventID :: string
  st_ackType :: ack_type
  st_delay :: int
  st_at :: settle_at

datatype unsub_at = UNot | UStopped | UHalfClosed | UWatched

text \<open>\<open>groupStream\<close>. An event in the channel carries the number of its stream, which the caller does not see.\<close>

record group_stream =
  g_conns :: "stream_conn list"
  g_now :: int
  g_ctxErr :: "goerr option"
  g_cancelled :: bool
  g_unsub :: unsub_at
  g_exiting :: bool
  g_delay :: int
  g_queue :: "(subscription_event \<times> nat) list"
  g_finished :: bool
  g_wake :: bool
  g_events :: "(subscription_event \<times> nat) gochan"
  g_errors :: "subscription_error gochan"
  g_run :: run_at
  g_pump :: pump_at
  g_calls :: "settle_call list"
  g_panicked :: bool

text \<open>The current stream is the last one opened.\<close>

definition g_cur :: "group_stream \<Rightarrow> nat" where
  "g_cur g = length (g_conns g) - 1"

definition g_stopped :: "group_stream \<Rightarrow> bool" where
  "g_stopped g \<longleftrightarrow> g_unsub g \<noteq> UNot"

text \<open>The join's context, or the subscription's own cancellation.\<close>

definition g_ctxDone :: "group_stream \<Rightarrow> bool" where
  "g_ctxDone g \<longleftrightarrow> g_ctxErr g \<noteq> None \<or> g_cancelled g"

definition gClosed :: "group_stream \<Rightarrow> bool" where
  "gClosed g \<longleftrightarrow> g_stopped g \<or> g_exiting g \<or> g_ctxDone g"

definition groupStreamInitialDelay :: int where "groupStreamInitialDelay = second"
definition groupStreamMaxDelay :: int where "groupStreamMaxDelay = 30 * second"
definition groupStreamBackoff :: rat where "groupStreamBackoff = 3 / 2"
definition deliveryMaxAge :: int where "deliveryMaxAge = hour"

text \<open>After the first join of \<open>joinConsumerGroupGrpc\<close>.\<close>

definition joinedGroup :: "string \<Rightarrow> string \<Rightarrow> bool \<Rightarrow> int \<Rightarrow> group_stream" where
  "joinedGroup subID pattern manual now = \<lparr> g_conns = [newStreamConn subID pattern manual], g_now = now,
     g_ctxErr = None, g_cancelled = False, g_unsub = UNot, g_exiting = False, g_delay = groupStreamInitialDelay,
     g_queue = [], g_finished = False, g_wake = False, g_events = newChan 100, g_errors = newChan 10,
     g_run = RRecv False, g_pump = PTop, g_calls = [], g_panicked = False \<rparr>"

definition onConn :: "nat \<Rightarrow> (stream_conn \<Rightarrow> stream_conn) \<Rightarrow> group_stream \<Rightarrow> group_stream" where
  "onConn k f g = g \<lparr> g_conns := (g_conns g)[k := f (g_conns g ! k)] \<rparr>"

section \<open>The goroutine \<open>run\<close>\<close>

text \<open>\<open>report\<close>: dropped when the channel is full; a send on the closed channel panics.\<close>

definition gReportErr :: "string \<Rightarrow> goerr \<Rightarrow> group_stream \<Rightarrow> group_stream" where
  "gReportErr subID e g =
     (if ch_closed (g_errors g) then g \<lparr> g_panicked := True \<rparr>
      else if chanRoom (g_errors g)
      then g \<lparr> g_errors := chanPut \<lparr> er_SubscriptionID = subID, er_Code = connectCodeString (codeOf e),
             er_Message = errorText e, er_Retrying = False \<rparr> (g_errors g) \<rparr>
      else g)"

datatype frame =
    FEvent subscription_msg
  | FAckResult ack_result
  | FHeartbeat
  | FOther
  | FError goerr
  | FEOF

datatype group_choice =
    RcFrame frame
  | RcSend
  | RcStop
  | RcTimer
  | RcJoined string string bool
  | RcRefused goerr
  | RcGo

text \<open>A frame arrives on the current stream.\<close>

definition onFrame :: "frame \<Rightarrow> bool \<Rightarrow> group_stream \<Rightarrow> group_stream option" where
  "onFrame f accepted g =
     (let k = g_cur g; sc = g_conns g ! k in
      case f of
        FEvent m \<Rightarrow>
          (case subscriptionEventFromProto m of
             Inl _ \<Rightarrow> Some (g \<lparr> g_run := RRecv True \<rparr>)
           | Inr ev \<Rightarrow>
               if \<not> sn_manual sc then Some (onConn k (\<lambda>s. s \<lparr> sn_received := sn_received s @ [ev] \<rparr>) g \<lparr> g_run := RAuto ev \<rparr>)
               else Some (onConn k (\<lambda>s. markDelivered deliveryMaxAge (g_now g) (se_ID ev)
                      (s \<lparr> sn_received := sn_received s @ [ev] \<rparr>)) g \<lparr> g_run := RPush ev \<rparr>))
      | FAckResult res \<Rightarrow>
          (case resolve res sc of
             None \<Rightarrow> None
           | Some sc' \<Rightarrow> Some (onConn k (\<lambda>_. sc') g \<lparr> g_run := RRecv True \<rparr>))
      | FHeartbeat \<Rightarrow> Some (g \<lparr> g_run := RRecv True \<rparr>)
      | FOther \<Rightarrow> Some g
      | FError e \<Rightarrow> Some (g \<lparr> g_run := RFinish accepted (Some (case sn_resetErr sc of Some r \<Rightarrow> r | None \<Rightarrow> e)) \<rparr>)
      | FEOF \<Rightarrow> Some (g \<lparr> g_run := RFinish accepted (sn_resetErr sc) \<rparr>))"

text \<open>After \<open>read\<close>: end, or wait to reconnect. A fresh delay is earned by a frame.\<close>

definition afterGroupRead :: "bool \<Rightarrow> goerr option \<Rightarrow> group_stream \<Rightarrow> group_stream" where
  "afterGroupRead accepted err g =
     (if g_ctxDone g \<or> g_stopped g then g \<lparr> g_run := RCtxReport \<rparr>
      else case err of
             Some e \<Rightarrow>
               if \<not> isRetryableSubscriptionError e
               then gReportErr (sn_subID (g_conns g ! g_cur g)) e g \<lparr> g_run := RCtxReport \<rparr>
               else g \<lparr> g_run := RWait, g_delay := (if accepted then groupStreamInitialDelay else g_delay g) \<rparr>
           | None \<Rightarrow> g \<lparr> g_run := RWait, g_delay := (if accepted then groupStreamInitialDelay else g_delay g) \<rparr>)"

text \<open>\<open>serverTooOld\<close> keeps the code of the error it wraps.\<close>

definition serverTooOld :: "goerr \<Rightarrow> goerr" where
  "serverTooOld err =
     (if codeOf err \<noteq> CodeUnimplemented then err
      else newServerTooOld ''SubscribeBidirectional'' ''0.48.0'' ''upgrade the server or use the WebSocket transport'' (Some err))"

definition grunStep :: "(rat \<Rightarrow> rat) \<Rightarrow> group_choice \<Rightarrow> group_stream \<Rightarrow> group_stream option" where
  "grunStep rnd ch g =
     (case (g_run g, ch) of
        (RRecv acc, RcFrame f) \<Rightarrow> onFrame f acc g
      | (RAuto ev, RcSend) \<Rightarrow>
          if ch_closed (g_events g) then Some (g \<lparr> g_panicked := True \<rparr>)
          else if chanRoom (g_events g)
          then Some (g \<lparr> g_events := chanPut (ev, g_cur g) (g_events g), g_run := RRecv True \<rparr>)
          else None
      | (RAuto ev, RcStop) \<Rightarrow>
          if g_stopped g \<or> g_ctxDone g then Some (g \<lparr> g_run := RFinish True None \<rparr>) else None
      | (RPush ev, RcGo) \<Rightarrow>
          Some (g \<lparr> g_queue := g_queue g @ [(ev, g_cur g)], g_wake := True, g_run := RRecv True \<rparr>)
      | (RFinish acc err, RcGo) \<Rightarrow>
          (case finishConn (g_conns g ! g_cur g) of
             None \<Rightarrow> None
           | Some sc' \<Rightarrow> Some (onConn (g_cur g) (\<lambda>_. sc' \<lparr> sn_cancelled := True \<rparr>) g \<lparr> g_run := RDone acc err \<rparr>))
      | (RDone acc err, RcGo) \<Rightarrow> Some (afterGroupRead acc err g)
      | (RWait, RcTimer) \<Rightarrow>
          Some (g \<lparr> g_run := ROpen,
            g_delay := nextSubscriptionReconnectDelay rnd (g_delay g) groupStreamMaxDelay groupStreamBackoff \<rparr>)
      | (RWait, RcStop) \<Rightarrow> if g_stopped g \<or> g_ctxDone g then Some (g \<lparr> g_run := RCtxReport \<rparr>) else None
      | (ROpen, RcJoined subID pattern manual) \<Rightarrow>
          if g_stopped g then Some (g \<lparr> g_run := RCtxReport \<rparr>)
          else Some (g \<lparr> g_conns := g_conns g @ [newStreamConn subID pattern manual], g_run := RRecv False \<rparr>)
      | (ROpen, RcRefused e) \<Rightarrow>
          if g_ctxDone g \<or> g_stopped g then Some (g \<lparr> g_run := RCtxReport \<rparr>)
          else if \<not> isRetryableSubscriptionError e
          then Some (gReportErr (sn_subID (g_conns g ! g_cur g)) (serverTooOld e) g \<lparr> g_run := RCtxReport \<rparr>)
          else Some (g \<lparr> g_run := RWait \<rparr>)
      | (RCtxReport, RcGo) \<Rightarrow>
          Some ((case g_ctxErr g of
                   Some e \<Rightarrow>
                     if g_stopped g then g
                     else gReportErr (sn_subID (g_conns g ! g_cur g))
                            (EConnect (if e = EDeadlineExceeded then CodeDeadlineExceeded else CodeCanceled)
                               (''the join ctx ended the subscription: '' @ errorText e) []) g
                 | None \<Rightarrow> g) \<lparr> g_run := RExiting \<rparr>)
      | (RExiting, RcGo) \<Rightarrow> Some (g \<lparr> g_exiting := True, g_run := RFinished \<rparr>)
      | (RFinished, RcGo) \<Rightarrow> Some (g \<lparr> g_finished := True, g_wake := True, g_run := RPumpWait \<rparr>)
      | (RPumpWait, RcGo) \<Rightarrow>
          if g_pump g = PEnd
          then Some (g \<lparr> g_cancelled := True, g_events := chanClose (g_events g), g_errors := chanClose (g_errors g),
                 g_run := REnd \<rparr>)
          else None
      | _ \<Rightarrow> None)"

section \<open>The goroutine \<open>pump\<close>\<close>

datatype pump_choice = PcGo | PcSend | PcEnded | PcStop | PcWake

definition pumpStep :: "pump_choice \<Rightarrow> group_stream \<Rightarrow> group_stream option" where
  "pumpStep ch g =
     (case (g_pump g, ch) of
        (PTop, PcGo) \<Rightarrow>
          (case g_queue g of
             (ev, k) # q \<Rightarrow> Some (g \<lparr> g_queue := q, g_pump := PHave ev k \<rparr>)
           | [] \<Rightarrow> Some (g \<lparr> g_pump := (if g_finished g then PEnd else PSleep) \<rparr>))
      | (PHave ev k, PcGo) \<Rightarrow>
          Some (g \<lparr> g_pump := (if sn_ended (g_conns g ! k) then PTop else PSend ev k) \<rparr>)
      | (PSend ev k, PcSend) \<Rightarrow>
          if ch_closed (g_events g) then Some (g \<lparr> g_panicked := True \<rparr>)
          else if chanRoom (g_events g) then Some (g \<lparr> g_events := chanPut (ev, k) (g_events g), g_pump := PTop \<rparr>)
          else None
      | (PSend ev k, PcEnded) \<Rightarrow> if sn_ended (g_conns g ! k) then Some (g \<lparr> g_pump := PTop \<rparr>) else None
      | (PSend ev k, PcStop) \<Rightarrow> if g_stopped g \<or> g_ctxDone g then Some (g \<lparr> g_pump := PEnd \<rparr>) else None
      | (PSleep, PcWake) \<Rightarrow> if g_wake g then Some (g \<lparr> g_wake := False, g_pump := PTop \<rparr>) else None
      | (PSleep, PcStop) \<Rightarrow> if g_stopped g \<or> g_ctxDone g then Some (g \<lparr> g_pump := PEnd \<rparr>) else None
      | _ \<Rightarrow> None)"

section \<open>Acknowledging\<close>

definition ackTimeout :: int where "ackTimeout = 30 * second"

datatype settle_choice = ScGo | ScStuck | ScSent | ScFailed "goerr option" | ScResult | ScTimer

definition setCall :: "nat \<Rightarrow> settle_at \<Rightarrow> group_stream \<Rightarrow> group_stream" where
  "setCall j s g = g \<lparr> g_calls := (g_calls g)[j := (g_calls g ! j) \<lparr> st_at := s \<rparr>] \<rparr>"

definition stuckError :: goerr where
  "stuckError = EConnect CodeUnavailable (''an ack send blocked for '' @ durationString ackTimeout) []"

text \<open>\<open>settle\<close> of the group and of the stream: the closed check, the current stream, admission, the send
  with its watchdog (\<open>ScFailed None\<close> is \<open>io.EOF\<close>), and the wait for the result.\<close>

definition settleStep :: "nat \<Rightarrow> settle_choice \<Rightarrow> group_stream \<Rightarrow> group_stream option" where
  "settleStep j ch g =
     (if \<not> j < length (g_calls g) then None
      else let st = g_calls g ! j; ev = st_eventID st in
      case (st_at st, ch) of
        (SaStart, ScGo) \<Rightarrow>
          Some (setCall j (if gClosed g then SaDone (Some ErrSubscriptionClosed) else SaCurrent) g)
      | (SaCurrent, ScGo) \<Rightarrow>
          Some (setCall j (if sn_manual (g_conns g ! g_cur g) then SaAdmit (g_cur g) else SaDone None) g)
      | (SaAdmit k, ScGo) \<Rightarrow>
          (case nakDelayMs ev (if st_ackType st = AckNak then st_delay st else 0) of
             Inl e \<Rightarrow> Some (setCall j (SaDone (Some (ErrRejected e))) g)
           | Inr ms \<Rightarrow>
               (case admitAck ev (g_conns g ! k) of
                  Inl e \<Rightarrow> Some (setCall j (SaDone (Some e)) g)
                | Inr (ackID, sc') \<Rightarrow> Some (setCall j (SaSend k ackID ms False) (onConn k (\<lambda>_. sc') g))))
      | (SaSend k ackID ms False, ScStuck) \<Rightarrow>
          Some (setCall j (SaSend k ackID ms True) (onConn k (resetConn stuckError) g))
      | (SaSend k ackID ms fired, ScSent) \<Rightarrow>
          (let m = \<lparr> am_EventId = ev, am_AckType = st_ackType st, am_RedeliverDelayMs = ms, am_AckId = ackID \<rparr>;
               g1 = onConn k (\<lambda>sc. sc \<lparr> sn_sent := sn_sent sc @ [m] \<rparr>) g
           in Some (if fired
                    then setCall j (SaDone (Some (ErrText (''ironflow: ack of event '' @ ev @ '' not sent within ''
                           @ durationString ackTimeout)))) (onConn k (forget ackID) g1)
                    else setCall j (SaWait k ackID) g1))
      | (SaSend k ackID ms fired, ScFailed err) \<Rightarrow>
          (let g1 = onConn k (forget ackID) g in
           Some (setCall j (SaDone (Some
             (if fired then ErrText (''ironflow: ack of event '' @ ev @ '' not sent within '' @ durationString ackTimeout)
              else if sn_ended (g_conns g ! k) then ErrStaleAck ''ironflow: the stream ended before the ack was sent: ''
              else case err of
                     None \<Rightarrow> ErrStaleAck ''ironflow: the stream ended before the ack was sent: ''
                   | Some e \<Rightarrow> ErrText (''ironflow: send ack: '' @ errorText e)))) g1))
      | (SaWait k ackID, ScResult) \<Rightarrow>
          (case sn_box (g_conns g ! k) ackID of
             None \<Rightarrow> None
           | Some (OutcomeError e) \<Rightarrow> Some (setCall j (SaDone (Some e)) g)
           | Some (OutcomeResult res) \<Rightarrow>
               (let (e, sc') = applyResult ev res (g_conns g ! k)
                in Some (setCall j (SaDone e) (onConn k (\<lambda>_. sc') g))))
      | (SaWait k ackID, ScTimer) \<Rightarrow>
          Some (setCall j (SaDone (Some (ErrText (''ironflow: no ack result for event '' @ ev @ '' within ''
            @ durationString ackTimeout)))) (onConn k (forget ackID) g))
      | _ \<Rightarrow> None)"

section \<open>The machine\<close>

definition idleError :: goerr where
  "idleError = EConnect CodeUnavailable (''no frame from the server within '' @ durationString (90 * second)) []"

datatype group_act =
    ARun group_choice
  | APump pump_choice
  | AIdle
  | ANewSettle ack_type string int
  | ASettle nat settle_choice
  | AUnsubscribe
  | AHalfClose
  | AWatcher
  | AJoinCtx goerr
  | ATakeGroupEvent
  | ATakeGroupError
  | ATick nat

text \<open>\<open>unsubscribe\<close> closes \<open>stopCh\<close>, half-closes the current stream and leaves a watcher that cancels once
  \<open>run\<close> has ended or two seconds have passed. The idle timer resets the stream \<open>run\<close> receives from.\<close>

definition groupStep :: "(rat \<Rightarrow> rat) \<Rightarrow> group_act \<Rightarrow> group_stream \<Rightarrow> group_stream option" where
  "groupStep rnd a g =
     (if g_panicked g then None
      else case a of
        ARun ch \<Rightarrow> grunStep rnd ch g
      | APump ch \<Rightarrow> pumpStep ch g
      | AIdle \<Rightarrow> (case g_run g of RRecv _ \<Rightarrow> Some (onConn (g_cur g) (resetConn idleError) g) | _ \<Rightarrow> None)
      | ANewSettle t ev d \<Rightarrow>
          Some (g \<lparr> g_calls := g_calls g @ [\<lparr> st_eventID = ev, st_ackType = t, st_delay = d, st_at = SaStart \<rparr>] \<rparr>)
      | ASettle j ch \<Rightarrow> settleStep j ch g
      | AUnsubscribe \<Rightarrow> if g_unsub g = UNot then Some (g \<lparr> g_unsub := UStopped \<rparr>) else None
      | AHalfClose \<Rightarrow>
          if g_unsub g = UStopped
          then Some (onConn (g_cur g) (\<lambda>sc. sc \<lparr> sn_halfClosed := True \<rparr>) g \<lparr> g_unsub := UHalfClosed \<rparr>)
          else None
      | AWatcher \<Rightarrow> if g_unsub g = UHalfClosed then Some (g \<lparr> g_cancelled := True, g_unsub := UWatched \<rparr>) else None
      | AJoinCtx e \<Rightarrow> if g_ctxErr g = None then Some (g \<lparr> g_ctxErr := Some e \<rparr>) else None
      | ATakeGroupEvent \<Rightarrow> Some (g \<lparr> g_events := chanTake (g_events g) \<rparr>)
      | ATakeGroupError \<Rightarrow> Some (g \<lparr> g_errors := chanTake (g_errors g) \<rparr>)
      | ATick n \<Rightarrow> Some (g \<lparr> g_now := g_now g + int n \<rparr>))"

section \<open>Closing\<close>

text \<open>The channels are closed by \<open>run\<close>, last of all and after the pump has ended.\<close>

definition closeOK :: "group_stream \<Rightarrow> bool" where
  "closeOK g \<longleftrightarrow> \<not> g_panicked g
     \<and> (ch_closed (g_events g) \<or> ch_closed (g_errors g) \<longrightarrow> g_run g = REnd)
     \<and> (g_run g = REnd \<longrightarrow> g_pump g = PEnd)"

text \<open>What the steps leave alone.\<close>

lemma onConn_fields [simp]:
  "g_panicked (onConn k f g) = g_panicked g" "g_events (onConn k f g) = g_events g" "g_errors (onConn k f g) = g_errors g"
  "g_run (onConn k f g) = g_run g" "g_pump (onConn k f g) = g_pump g" "g_queue (onConn k f g) = g_queue g"
  "g_unsub (onConn k f g) = g_unsub g" "g_ctxErr (onConn k f g) = g_ctxErr g" "g_cancelled (onConn k f g) = g_cancelled g"
  "g_calls (onConn k f g) = g_calls g" "length (g_conns (onConn k f g)) = length (g_conns g)" "g_now (onConn k f g) = g_now g"
  "g_finished (onConn k f g) = g_finished g"
  by (simp_all add: onConn_def)

lemma setCall_fields [simp]:
  "g_panicked (setCall j st g) = g_panicked g" "g_events (setCall j st g) = g_events g" "g_errors (setCall j st g) = g_errors g"
  "g_run (setCall j st g) = g_run g" "g_pump (setCall j st g) = g_pump g" "g_queue (setCall j st g) = g_queue g"
  "g_unsub (setCall j st g) = g_unsub g" "g_ctxErr (setCall j st g) = g_ctxErr g" "g_cancelled (setCall j st g) = g_cancelled g"
  "g_conns (setCall j st g) = g_conns g" "g_finished (setCall j st g) = g_finished g"
  by (simp_all add: setCall_def)

lemma gReportErr_fields [simp]:
  "g_events (gReportErr i e g) = g_events g" "g_run (gReportErr i e g) = g_run g" "g_pump (gReportErr i e g) = g_pump g"
  "g_queue (gReportErr i e g) = g_queue g" "g_unsub (gReportErr i e g) = g_unsub g" "g_ctxErr (gReportErr i e g) = g_ctxErr g"
  "g_cancelled (gReportErr i e g) = g_cancelled g" "g_conns (gReportErr i e g) = g_conns g" "g_calls (gReportErr i e g) = g_calls g"
  "ch_closed (g_errors (gReportErr i e g)) = ch_closed (g_errors g)" "g_finished (gReportErr i e g) = g_finished g"
  "\<not> ch_closed (g_errors g) \<Longrightarrow> g_panicked (gReportErr i e g) = g_panicked g"
  by (simp_all add: gReportErr_def)

lemma derived_updates [simp]:
  "g_cur (g \<lparr> g_queue := v0 \<rparr>) = g_cur g"
  "g_cur (g \<lparr> g_pump := v1 \<rparr>) = g_cur g"
  "g_cur (g \<lparr> g_events := v2 \<rparr>) = g_cur g"
  "g_cur (g \<lparr> g_wake := v3 \<rparr>) = g_cur g"
  "g_cur (g \<lparr> g_run := v4 \<rparr>) = g_cur g"
  "g_cur (g \<lparr> g_finished := v5 \<rparr>) = g_cur g"
  "g_cur (g \<lparr> g_exiting := v6 \<rparr>) = g_cur g"
  "g_cur (g \<lparr> g_delay := v7 \<rparr>) = g_cur g"
  "g_cur (g \<lparr> g_errors := v8 \<rparr>) = g_cur g"
  "g_cur (g \<lparr> g_calls := v9 \<rparr>) = g_cur g"
  "g_cur (g \<lparr> g_now := v10 \<rparr>) = g_cur g"
  "g_cur (g \<lparr> g_panicked := v11 \<rparr>) = g_cur g"
  "g_stopped (g \<lparr> g_queue := v0 \<rparr>) = g_stopped g"
  "g_stopped (g \<lparr> g_pump := v1 \<rparr>) = g_stopped g"
  "g_stopped (g \<lparr> g_events := v2 \<rparr>) = g_stopped g"
  "g_stopped (g \<lparr> g_wake := v3 \<rparr>) = g_stopped g"
  "g_stopped (g \<lparr> g_run := v4 \<rparr>) = g_stopped g"
  "g_stopped (g \<lparr> g_finished := v5 \<rparr>) = g_stopped g"
  "g_stopped (g \<lparr> g_exiting := v6 \<rparr>) = g_stopped g"
  "g_stopped (g \<lparr> g_delay := v7 \<rparr>) = g_stopped g"
  "g_stopped (g \<lparr> g_errors := v8 \<rparr>) = g_stopped g"
  "g_stopped (g \<lparr> g_calls := v9 \<rparr>) = g_stopped g"
  "g_stopped (g \<lparr> g_now := v10 \<rparr>) = g_stopped g"
  "g_stopped (g \<lparr> g_panicked := v11 \<rparr>) = g_stopped g"
  "g_ctxDone (g \<lparr> g_queue := v0 \<rparr>) = g_ctxDone g"
  "g_ctxDone (g \<lparr> g_pump := v1 \<rparr>) = g_ctxDone g"
  "g_ctxDone (g \<lparr> g_events := v2 \<rparr>) = g_ctxDone g"
  "g_ctxDone (g \<lparr> g_wake := v3 \<rparr>) = g_ctxDone g"
  "g_ctxDone (g \<lparr> g_run := v4 \<rparr>) = g_ctxDone g"
  "g_ctxDone (g \<lparr> g_finished := v5 \<rparr>) = g_ctxDone g"
  "g_ctxDone (g \<lparr> g_exiting := v6 \<rparr>) = g_ctxDone g"
  "g_ctxDone (g \<lparr> g_delay := v7 \<rparr>) = g_ctxDone g"
  "g_ctxDone (g \<lparr> g_errors := v8 \<rparr>) = g_ctxDone g"
  "g_ctxDone (g \<lparr> g_calls := v9 \<rparr>) = g_ctxDone g"
  "g_ctxDone (g \<lparr> g_now := v10 \<rparr>) = g_ctxDone g"
  "g_ctxDone (g \<lparr> g_panicked := v11 \<rparr>) = g_ctxDone g"
  by (simp_all add: g_cur_def g_stopped_def g_ctxDone_def)

lemma derived_conns [simp]:
  "g_cur (onConn k f g) = g_cur g" "g_stopped (onConn k f g) = g_stopped g" "g_ctxDone (onConn k f g) = g_ctxDone g"
  "g_cur (setCall j st g) = g_cur g" "g_stopped (setCall j st g) = g_stopped g" "g_ctxDone (setCall j st g) = g_ctxDone g"
  "g_cur (gReportErr i e g) = g_cur g" "g_stopped (gReportErr i e g) = g_stopped g" "g_ctxDone (gReportErr i e g) = g_ctxDone g"
  by (simp_all add: g_cur_def g_stopped_def g_ctxDone_def onConn_def setCall_def gReportErr_def)

lemma settleStep_same:
  assumes "settleStep j ch g = Some g'"
  shows "g_panicked g' = g_panicked g \<and> g_events g' = g_events g \<and> g_errors g' = g_errors g \<and> g_run g' = g_run g
    \<and> g_pump g' = g_pump g \<and> g_queue g' = g_queue g \<and> g_unsub g' = g_unsub g \<and> g_ctxErr g' = g_ctxErr g
    \<and> g_cancelled g' = g_cancelled g \<and> length (g_conns g') = length (g_conns g)"
  using assms
  by (cases "st_at (g_calls g ! j)"; cases ch)
     (auto simp: settleStep_def Let_def split: if_splits sum.splits bool.splits option.splits ack_outcome.splits prod.splits)

lemma closeOK_run:
  assumes "grunStep rnd ch g = Some g'" "closeOK g"
  shows "closeOK g'"
  using assms unfolding closeOK_def
  by (cases "g_run g"; cases ch)
     (auto simp: grunStep_def onFrame_def afterGroupRead_def Let_def split: if_splits frame.splits sum.splits option.splits)

lemma closeOK_pump:
  assumes "pumpStep ch g = Some g'" "closeOK g"
  shows "closeOK g'"
  using assms unfolding closeOK_def
  by (cases "g_pump g"; cases ch) (auto simp: pumpStep_def split: if_splits list.splits)

lemma closeOK_step:
  assumes "groupStep rnd a g = Some g'" "closeOK g"
  shows "closeOK g'"
proof (cases a)
  case (ARun ch) then show ?thesis using assms closeOK_run by (auto simp: groupStep_def split: if_splits)
next
  case (APump ch) then show ?thesis using assms closeOK_pump by (auto simp: groupStep_def split: if_splits)
next
  case (ASettle j ch) then show ?thesis using assms settleStep_same [of j ch g g']
    by (auto simp: groupStep_def closeOK_def split: if_splits)
qed (use assms in \<open>auto simp: groupStep_def closeOK_def split: if_splits run_at.splits\<close>)

section \<open>Pending acknowledgments\<close>

text \<open>The channel of a pending acknowledgment is empty, and no id was used twice.\<close>

definition boxOK :: "stream_conn \<Rightarrow> bool" where
  "boxOK sc \<longleftrightarrow> (\<forall>i\<in>set (sn_pending sc). sn_box sc i = None \<and> i \<le> sn_nextAck sc) \<and> (\<forall>i x. sn_box sc i = Some x \<longrightarrow> i \<le> sn_nextAck sc)"

lemma markDelivered_fields [simp]:
  "sn_pending (markDelivered a n i sc) = sn_pending sc" "sn_box (markDelivered a n i sc) = sn_box sc"
  "sn_nextAck (markDelivered a n i sc) = sn_nextAck sc" "sn_received (markDelivered a n i sc) = sn_received sc"
  "sn_sent (markDelivered a n i sc) = sn_sent sc" "sn_manual (markDelivered a n i sc) = sn_manual sc"
  "sn_ended (markDelivered a n i sc) = sn_ended sc" "sn_cancelled (markDelivered a n i sc) = sn_cancelled sc"
  "sn_halfClosed (markDelivered a n i sc) = sn_halfClosed sc"
  by (simp_all add: markDelivered_def Let_def)

lemma applyResult_fields:
  assumes "applyResult ev res sc = (e, sc')"
  shows "sn_pending sc' = sn_pending sc" "sn_box sc' = sn_box sc" "sn_nextAck sc' = sn_nextAck sc"
    "sn_received sc' = sn_received sc" "sn_sent sc' = sn_sent sc" "sn_manual sc' = sn_manual sc"
    "sn_ended sc' = sn_ended sc" "sn_cancelled sc' = sn_cancelled sc" "sn_halfClosed sc' = sn_halfClosed sc"
    "dom (sn_delivery sc') \<subseteq> dom (sn_delivery sc)"
  using assms by (auto simp: applyResult_def split: if_splits option.splits)

lemma boxOK_ops:
  "boxOK (newStreamConn i p m)"
  "boxOK sc \<Longrightarrow> finishConn sc = Some sc' \<Longrightarrow> boxOK sc'"
  "boxOK sc \<Longrightarrow> resolve res sc = Some sc' \<Longrightarrow> boxOK sc'"
  "boxOK sc \<Longrightarrow> boxOK (forget n sc)"
  "boxOK sc \<Longrightarrow> boxOK (resetConn e sc)"
  by (auto simp: boxOK_def newStreamConn_def finishConn_def resolve_def admitAck_def forget_def resetConn_def list_ex_iff
      split: if_splits)

lemma boxOK_admit:
  assumes "boxOK sc" "admitAck ev sc = Inr (n, sc')"
  shows "boxOK sc'"
proof -
  have "sn_box sc (Suc (sn_nextAck sc)) = None"
    using assms(1) by (cases "sn_box sc (Suc (sn_nextAck sc))") (auto simp: boxOK_def)
  then show ?thesis using assms by (auto simp: boxOK_def admitAck_def le_Suc_eq split: if_splits)
qed

lemma boxOK_enabled:
  "boxOK sc \<Longrightarrow> finishConn sc \<noteq> None" "boxOK sc \<Longrightarrow> resolve res sc \<noteq> None"
  by (auto simp: boxOK_def finishConn_def resolve_def list_ex_iff)

text \<open>How a step changes a stream.\<close>

inductive conn_move :: "stream_conn \<Rightarrow> stream_conn \<Rightarrow> bool" where
  same: "conn_move sc sc"
| auto: "\<not> sn_manual sc \<Longrightarrow> conn_move sc (sc \<lparr> sn_received := sn_received sc @ [ev] \<rparr>)"
| manual: "sn_manual sc \<Longrightarrow>
    conn_move sc (markDelivered deliveryMaxAge now (se_ID ev) (sc \<lparr> sn_received := sn_received sc @ [ev] \<rparr>))"
| resolved: "resolve res sc = Some sc' \<Longrightarrow> conn_move sc sc'"
| finished: "finishConn sc = Some sc' \<Longrightarrow> conn_move sc (sc' \<lparr> sn_cancelled := True \<rparr>)"
| reset: "conn_move sc (resetConn e sc)"
| admitted: "admitAck ev sc = Inr (n, sc') \<Longrightarrow> conn_move sc sc'"
| sent: "conn_move sc (sc \<lparr> sn_sent := sn_sent sc @ [m] \<rparr>)"
| sent_late: "conn_move sc (forget n (sc \<lparr> sn_sent := sn_sent sc @ [m] \<rparr>))"
| forgotten: "conn_move sc (forget n sc)"
| applied: "applyResult ev res sc = (e, sc') \<Longrightarrow> conn_move sc sc'"
| halved: "conn_move sc (sc \<lparr> sn_halfClosed := True \<rparr>)"

lemma conn_move_at:
  assumes "conn_move (g_conns g ! i) (f (g_conns g ! i))" "k < length (g_conns g)"
  shows "conn_move (g_conns g ! k) (g_conns (onConn i f g) ! k)"
  using assms by (cases "i = k") (auto simp: onConn_def conn_move.same)

lemma onConn_at: "k < length (g_conns g) \<Longrightarrow> g_conns (onConn i f g) ! k = (if i = k then f (g_conns g ! k) else g_conns g ! k)"
  by (simp add: onConn_def)

lemma onConn_twice: "onConn k f (onConn k h g) = onConn k (f \<circ> h) g"
  by (cases "k < length (g_conns g)") (simp_all add: onConn_def list_update_beyond)

lemma run_conn_move:
  assumes "grunStep rnd ch g = Some g'" "k < length (g_conns g)"
  shows "conn_move (g_conns g ! k) (g_conns g' ! k)"
  using assms
  by (cases "g_run g"; cases ch)
     (auto simp: grunStep_def onFrame_def afterGroupRead_def Let_def nth_append
       intro!: conn_move.same conn_move_at intro: conn_move.intros split: if_splits frame.splits sum.splits option.splits)

lemma run_conns:
  assumes "grunStep rnd ch g = Some g'"
  shows "length (g_conns g') = length (g_conns g) \<or>
    (\<exists>i p m. g_conns g' = g_conns g @ [newStreamConn i p m] \<and> g_run g = ROpen \<and> g_run g' = RRecv False \<and> \<not> g_stopped g)"
proof (cases "g_run g = ROpen")
  case True
  then show ?thesis using assms by (cases ch) (auto simp: grunStep_def intro!: exI split: if_splits)
next
  case False
  then show ?thesis using assms
    by (cases "g_run g"; cases ch)
       (auto simp: grunStep_def onFrame_def afterGroupRead_def Let_def split: if_splits frame.splits sum.splits option.splits)
qed

lemma settle_conn_move:
  assumes "settleStep j ch g = Some g'" "k < length (g_conns g)"
  shows "conn_move (g_conns g ! k) (g_conns g' ! k)"
proof -
  have both: "conn_move sc ((forget n \<circ> (\<lambda>sc. sc \<lparr> sn_sent := sn_sent sc @ [m] \<rparr>)) sc)" for sc n m
    using conn_move.sent_late by simp
  show ?thesis using assms
    by (cases "st_at (g_calls g ! j)"; cases ch)
       (auto simp: settleStep_def Let_def onConn_twice intro!: conn_move.same conn_move_at both intro: conn_move.intros
        split: if_splits sum.splits bool.splits option.splits ack_outcome.splits prod.splits)
qed

lemma pump_conns: "pumpStep ch g = Some g' \<Longrightarrow> g_conns g' = g_conns g"
  by (auto simp: pumpStep_def split: pump_at.splits pump_choice.splits if_splits list.splits)

lemma pumpStep_calls: "pumpStep ch g = Some g' \<Longrightarrow> g_calls g' = g_calls g"
  by (auto simp: pumpStep_def split: pump_at.splits pump_choice.splits if_splits list.splits)

lemma group_conn_move:
  assumes "groupStep rnd a g = Some g'"
  shows "\<forall>k<length (g_conns g). conn_move (g_conns g ! k) (g_conns g' ! k)"
    and "length (g_conns g') = length (g_conns g) \<or>
      (\<exists>i p m. g_conns g' = g_conns g @ [newStreamConn i p m] \<and> g_run g = ROpen \<and> g_run g' = RRecv False \<and> \<not> g_stopped g)"
proof -
  have "(\<forall>k<length (g_conns g). conn_move (g_conns g ! k) (g_conns g' ! k)) \<and> (length (g_conns g') = length (g_conns g) \<or>
      (\<exists>i p m. g_conns g' = g_conns g @ [newStreamConn i p m] \<and> g_run g = ROpen \<and> g_run g' = RRecv False \<and> \<not> g_stopped g))"
  proof (cases a)
    case (ARun ch) then show ?thesis using assms run_conn_move run_conns by (auto simp: groupStep_def split: if_splits)
  next
    case (APump ch) then show ?thesis using assms pump_conns by (auto simp: groupStep_def conn_move.same split: if_splits)
  next
    case (ASettle j ch) then show ?thesis using assms settle_conn_move settleStep_same
      by (auto simp: groupStep_def split: if_splits)
  next
    case AIdle then show ?thesis using assms
      by (auto simp: groupStep_def intro!: conn_move_at conn_move.reset split: if_splits run_at.splits)
  next
    case AHalfClose then show ?thesis using assms
      by (auto simp: groupStep_def intro!: conn_move_at conn_move.halved split: if_splits)
  qed (use assms in \<open>auto simp: groupStep_def conn_move.same split: if_splits\<close>)
  then show "\<forall>k<length (g_conns g). conn_move (g_conns g ! k) (g_conns g' ! k)"
    and "length (g_conns g') = length (g_conns g) \<or>
      (\<exists>i p m. g_conns g' = g_conns g @ [newStreamConn i p m] \<and> g_run g = ROpen \<and> g_run g' = RRecv False \<and> \<not> g_stopped g)"
    by blast+
qed

lemma new_conn:
  assumes "groupStep rnd a g = Some g'" "k < length (g_conns g')" "\<not> k < length (g_conns g)"
  shows "k = length (g_conns g) \<and> (\<exists>i p m. g_conns g' ! k = newStreamConn i p m)"
proof -
  obtain i p m where "g_conns g' = g_conns g @ [newStreamConn i p m]" using group_conn_move(2) [OF assms(1)] assms(2,3) by auto
  moreover from this have "k = length (g_conns g)" using assms(2,3) by simp
  ultimately show ?thesis by auto
qed

lemma conn_move_box: "conn_move sc sc' \<Longrightarrow> boxOK sc \<Longrightarrow> boxOK sc'"
proof (induction rule: conn_move.induct)
  case (finished sc sc')
  then show ?case using boxOK_ops(2) [of sc sc'] by (simp add: boxOK_def)
next
  case (applied ev res sc e sc') then show ?case using applyResult_fields [OF applied(1)] by (simp add: boxOK_def)
next
  case (sent_late sc n m) then show ?case using boxOK_ops(4) [of "sc \<lparr> sn_sent := sn_sent sc @ [m] \<rparr>" n] by (simp add: boxOK_def)
next
  case (resolved res sc sc') then show ?case using boxOK_ops(3) by blast
next
  case (reset sc e) then show ?case using boxOK_ops(5) by blast
next
  case (admitted ev sc n sc') then show ?case using boxOK_admit by blast
next
  case (forgotten sc n) then show ?case using boxOK_ops(4) by blast
qed (simp_all add: boxOK_def)

text \<open>What only grows.\<close>

definition eventIDs :: "stream_conn \<Rightarrow> string set" where
  "eventIDs sc = se_ID ` set (sn_received sc)"

lemma conn_move_mono:
  assumes "conn_move sc sc'"
  shows "prefix (sn_received sc) (sn_received sc')" "sn_manual sc' = sn_manual sc" "sn_ended sc \<Longrightarrow> sn_ended sc'"
    "sn_halfClosed sc \<Longrightarrow> sn_halfClosed sc'" "sn_cancelled sc \<Longrightarrow> sn_cancelled sc'"
  using assms
  by (induction rule: conn_move.induct)
     (auto simp: resolve_def finishConn_def resetConn_def admitAck_def forget_def applyResult_fields split: if_splits)

lemma conn_move_ids: "conn_move sc sc' \<Longrightarrow> eventIDs sc \<subseteq> eventIDs sc'"
  unfolding eventIDs_def by (intro image_mono set_mono_prefix conn_move_mono(1))

lemma markDelivered_dom: "dom (sn_delivery (markDelivered a n i sc)) \<subseteq> insert i (dom (sn_delivery sc))"
  by (auto simp: markDelivered_def Let_def split: if_splits option.splits prod.splits)

lemma conn_move_delivery:
  assumes "conn_move sc sc'" "dom (sn_delivery sc) \<subseteq> eventIDs sc"
  shows "dom (sn_delivery sc') \<subseteq> eventIDs sc'"
  using assms
proof (induction rule: conn_move.induct)
  case (manual sc now ev)
  have "dom (sn_delivery (markDelivered deliveryMaxAge now (se_ID ev) (sc \<lparr> sn_received := sn_received sc @ [ev] \<rparr>)))
      \<subseteq> insert (se_ID ev) (dom (sn_delivery sc))"
    using markDelivered_dom [of deliveryMaxAge now "se_ID ev" "sc \<lparr> sn_received := sn_received sc @ [ev] \<rparr>"] by simp
  then show ?case using manual by (auto simp: eventIDs_def)
next
  case (applied ev res sc e sc')
  then show ?case using applyResult_fields [OF applied(1)] by (auto simp: eventIDs_def)
next
  case (resolved res sc sc') then show ?case by (fastforce simp: eventIDs_def resolve_def split: if_splits)
next
  case (finished sc sc') then show ?case by (fastforce simp: eventIDs_def finishConn_def split: if_splits)
qed (auto simp: eventIDs_def resetConn_def admitAck_def forget_def split: if_splits)

section \<open>No stale acknowledgment is sent\<close>

definition callOK :: "stream_conn list \<Rightarrow> settle_call \<Rightarrow> bool" where
  "callOK cs c \<longleftrightarrow> (case st_at c of
     SaAdmit k \<Rightarrow> k < length cs \<and> sn_manual (cs ! k)
   | SaSend k _ _ _ \<Rightarrow> k < length cs \<and> st_eventID c \<in> eventIDs (cs ! k)
   | SaWait k _ \<Rightarrow> k < length cs
   | _ \<Rightarrow> True)"

definition ackSound :: "group_stream \<Rightarrow> bool" where
  "ackSound g \<longleftrightarrow> g_conns g \<noteq> []
     \<and> (\<forall>k<length (g_conns g). dom (sn_delivery (g_conns g ! k)) \<subseteq> eventIDs (g_conns g ! k)
          \<and> am_EventId ` set (sn_sent (g_conns g ! k)) \<subseteq> eventIDs (g_conns g ! k))
     \<and> (\<forall>c\<in>set (g_calls g). callOK (g_conns g) c)"

lemma callOK_mono:
  assumes "callOK cs c" "\<forall>k<length cs. conn_move (cs ! k) (ds ! k)" "length cs \<le> length ds"
  shows "callOK ds c"
  using assms conn_move_ids conn_move_mono(2)
  by (fastforce simp: callOK_def split: settle_at.splits)

lemma admitAck_known: "admitAck ev sc = Inr (n, sc') \<Longrightarrow> sn_manual sc \<Longrightarrow> ev \<in> dom (sn_delivery sc)"
  by (auto simp: admitAck_def split: if_splits)

text \<open>Only \<open>settle\<close> sends acknowledgments and changes calls.\<close>

lemma run_sent:
  assumes "grunStep rnd ch g = Some g'"
  shows "k < length (g_conns g) \<Longrightarrow> sn_sent (g_conns g' ! k) = sn_sent (g_conns g ! k)" and "g_calls g' = g_calls g"
proof -
  show "g_calls g' = g_calls g"
    using assms
    by (cases "g_run g"; cases ch)
       (auto simp: grunStep_def onFrame_def afterGroupRead_def Let_def split: if_splits frame.splits sum.splits option.splits)
  show "sn_sent (g_conns g' ! k) = sn_sent (g_conns g ! k)" if "k < length (g_conns g)"
    using assms that
    by (cases "g_run g"; cases ch)
       (auto simp: grunStep_def onFrame_def afterGroupRead_def Let_def nth_append onConn_at resolve_def finishConn_def
         split: if_splits frame.splits sum.splits option.splits)
qed

lemma settle_sent:
  assumes "settleStep j ch g = Some g'" "k < length (g_conns g)"
  shows "sn_sent (g_conns g' ! k) = sn_sent (g_conns g ! k) \<or>
    (\<exists>i ms f m. st_at (g_calls g ! j) = SaSend k i ms f \<and> j < length (g_calls g)
       \<and> sn_sent (g_conns g' ! k) = sn_sent (g_conns g ! k) @ [m] \<and> am_EventId m = st_eventID (g_calls g ! j))"
  using assms
  by (cases "st_at (g_calls g ! j)"; cases ch)
     (auto simp: settleStep_def Let_def onConn_at admitAck_def forget_def resetConn_def applyResult_def
      split: if_splits sum.splits bool.splits option.splits ack_outcome.splits prod.splits)

lemma settle_call_step:
  assumes "settleStep j ch g = Some g'" "j < length (g_calls g)"
  shows "g_calls g' = (g_calls g)[j := (g_calls g ! j) \<lparr> st_at := st_at (g_calls g' ! j) \<rparr>] \<and>
    (case st_at (g_calls g' ! j) of
       SaAdmit k \<Rightarrow> k = g_cur g \<and> sn_manual (g_conns g ! k)
     | SaSend k n ms f \<Rightarrow>
         st_at (g_calls g ! j) = SaAdmit k \<and> (\<exists>sc'. admitAck (st_eventID (g_calls g ! j)) (g_conns g ! k) = Inr (n, sc'))
         \<or> st_at (g_calls g ! j) = SaSend k n ms False
     | SaWait k n \<Rightarrow> \<exists>ms. st_at (g_calls g ! j) = SaSend k n ms False
     | _ \<Rightarrow> True)"
  using assms
  by (cases "st_at (g_calls g ! j)"; cases ch)
     (auto simp: settleStep_def Let_def setCall_def
        split: if_splits sum.splits bool.splits option.splits ack_outcome.splits prod.splits)

lemma settle_call_moved:
  assumes "settleStep j ch g = Some g'" "ackSound g"
  shows "\<forall>c\<in>set (g_calls g'). callOK (g_conns g') c"
proof
  have j: "j < length (g_calls g)" using assms(1) by (auto simp: settleStep_def split: if_splits)
  have ok: "callOK (g_conns g) (g_calls g ! j)" using assms(2) j by (simp add: ackSound_def)
  have cur: "g_cur g < length (g_conns g)" using assms(2) by (cases "g_conns g") (auto simp: ackSound_def g_cur_def)
  note whole = conjunct1 [OF settle_call_step [OF assms(1) j]] and step = conjunct2 [OF settle_call_step [OF assms(1) j]]
  let ?c = "(g_calls g ! j) \<lparr> st_at := st_at (g_calls g' ! j) \<rparr>"
  have len: "length (g_conns g') = length (g_conns g)" using settleStep_same [OF assms(1)] by simp
  have move: "conn_move (g_conns g ! k) (g_conns g' ! k)" if "k < length (g_conns g)" for k
    using settle_conn_move [OF assms(1) that] .
  have new: "callOK (g_conns g') ?c"
  proof (cases "st_at (g_calls g' ! j)")
    case (SaAdmit k) then show ?thesis using step cur len conn_move_mono(2) [OF move] by (auto simp: callOK_def)
  next
    case (SaSend k n ms f)
    have "k < length (g_conns g) \<and> st_eventID (g_calls g ! j) \<in> eventIDs (g_conns g ! k)"
      using step SaSend ok assms(2) admitAck_known by (fastforce simp: callOK_def ackSound_def)
    then show ?thesis using SaSend len conn_move_ids [OF move] by (auto simp: callOK_def)
  next
    case (SaWait k n) then show ?thesis using step ok len by (auto simp: callOK_def)
  qed (simp_all add: callOK_def)
  fix c assume "c \<in> set (g_calls g')"
  then have "c = ?c \<or> c \<in> set (g_calls g)"
    using set_update_subset_insert [of "g_calls g" j ?c] whole by (metis insertE subsetD)
  moreover have "callOK (g_conns g') c" if "c \<in> set (g_calls g)"
    using that assms(2) callOK_mono [of "g_conns g" c "g_conns g'"] move len by (simp add: ackSound_def)
  ultimately show "callOK (g_conns g') c" using new by blast
qed

lemma ackSound_step:
  assumes "groupStep rnd a g = Some g'" "ackSound g"
  shows "ackSound g'"
proof -
  note moves = group_conn_move [OF assms(1)]
  have ne: "g_conns g' \<noteq> []" using moves(2) assms(2) by (cases "g_conns g'") (auto simp: ackSound_def)
  have len: "length (g_conns g) \<le> length (g_conns g')" using moves(2) by auto
  have calls: "\<forall>c\<in>set (g_calls g'). callOK (g_conns g') c"
  proof (cases "\<exists>j ch. a = ASettle j ch")
    case True then show ?thesis using assms settle_call_moved by (auto simp: groupStep_def split: if_splits)
  next
    case False
    have "c \<in> set (g_calls g) \<or> st_at c = SaStart" if "c \<in> set (g_calls g')" for c
      using assms(1) False that run_sent(2) pumpStep_calls
      by (cases a) (auto simp: groupStep_def split: if_splits run_at.splits)
    then show ?thesis using assms(2) callOK_mono [OF _ moves(1) len] by (fastforce simp: ackSound_def callOK_def)
  qed
  have sent: "am_EventId ` set (sn_sent (g_conns g' ! k)) \<subseteq> eventIDs (g_conns g' ! k)" if k: "k < length (g_conns g)" for k
  proof -
    have ids: "eventIDs (g_conns g ! k) \<subseteq> eventIDs (g_conns g' ! k)" using conn_move_ids moves(1) k by blast
    have "sn_sent (g_conns g' ! k) = sn_sent (g_conns g ! k) \<or> (\<exists>m. sn_sent (g_conns g' ! k) = sn_sent (g_conns g ! k) @ [m]
        \<and> am_EventId m \<in> eventIDs (g_conns g ! k))"
    proof (cases a)
      case (ASettle j ch)
      then have s: "settleStep j ch g = Some g'" using assms(1) by (auto simp: groupStep_def split: if_splits)
      have "st_eventID (g_calls g ! j) \<in> eventIDs (g_conns g ! k)"
        if "st_at (g_calls g ! j) = SaSend k i ms f" "j < length (g_calls g)" for i ms f
      proof -
        have "callOK (g_conns g) (g_calls g ! j)" using assms(2) that(2) by (simp add: ackSound_def)
        then show ?thesis using that(1) by (simp add: callOK_def)
      qed
      then show ?thesis using settle_sent [OF s k] by metis
    next
      case (ARun ch) then show ?thesis using assms(1) run_sent(1) k by (auto simp: groupStep_def split: if_splits)
    next
      case (APump ch) then show ?thesis using assms(1) pump_conns by (auto simp: groupStep_def split: if_splits)
    qed (use assms(1) k in \<open>auto simp: groupStep_def onConn_at resetConn_def split: if_splits run_at.splits\<close>)
    moreover have "am_EventId ` set (sn_sent (g_conns g ! k)) \<subseteq> eventIDs (g_conns g ! k)"
      using assms(2) k by (simp add: ackSound_def)
    ultimately show ?thesis using ids by (elim disjE exE conjE) auto
  qed
  have "dom (sn_delivery (g_conns g' ! k)) \<subseteq> eventIDs (g_conns g' ! k) \<and> am_EventId ` set (sn_sent (g_conns g' ! k)) \<subseteq> eventIDs (g_conns g' ! k)"
    if "k < length (g_conns g')" for k
  proof (cases "k < length (g_conns g)")
    case True
    then have "conn_move (g_conns g ! k) (g_conns g' ! k)" "dom (sn_delivery (g_conns g ! k)) \<subseteq> eventIDs (g_conns g ! k)"
      using moves(1) assms(2) by (simp_all add: ackSound_def)
    then show ?thesis using sent [OF True] conn_move_delivery by blast
  next
    case False
    then obtain i p m where "g_conns g' ! k = newStreamConn i p m" using new_conn [OF assms(1) \<open>k < length (g_conns g')\<close>] by blast
    then show ?thesis by (simp add: newStreamConn_def)
  qed
  then show ?thesis using calls ne by (simp add: ackSound_def)
qed

section \<open>What reaches the caller\<close>

text \<open>The events of a stream on their way: handed to the channel, with the pump, queued, and with the reader.\<close>

definition ofStream :: "nat \<Rightarrow> (subscription_event \<times> nat) list \<Rightarrow> subscription_event list" where
  "ofStream k xs = map fst (filter (\<lambda>x. snd x = k) xs)"

fun pumped :: "pump_at \<Rightarrow> (subscription_event \<times> nat) list" where
  "pumped (PHave ev k) = [(ev, k)]"
| "pumped (PSend ev k) = [(ev, k)]"
| "pumped _ = []"

fun reading :: "run_at \<Rightarrow> nat \<Rightarrow> (subscription_event \<times> nat) list" where
  "reading (RAuto ev) k = [(ev, k)]"
| "reading (RPush ev) k = [(ev, k)]"
| "reading _ k = []"

definition flow :: "group_stream \<Rightarrow> (subscription_event \<times> nat) list" where
  "flow g = chanSent (g_events g) @ pumped (g_pump g) @ g_queue g @ reading (g_run g) (g_cur g)"

definition streamLive :: "group_stream \<Rightarrow> nat \<Rightarrow> bool" where
  "streamLive g k \<longleftrightarrow> \<not> sn_ended (g_conns g ! k) \<and> \<not> g_stopped g \<and> \<not> g_ctxDone g"

definition manuals :: "group_stream \<Rightarrow> bool list" where
  "manuals g = map sn_manual (g_conns g)"

fun readMode :: "run_at \<Rightarrow> bool \<Rightarrow> bool" where
  "readMode (RAuto _) b = (\<not> b)"
| "readMode (RPush _) b = b"
| "readMode _ b = True"

definition heldOK :: "group_stream \<Rightarrow> bool" where
  "heldOK g \<longleftrightarrow> manuals g \<noteq> []
     \<and> (\<forall>x\<in>set (flow g). snd x < length (manuals g))
     \<and> (\<forall>x\<in>set (pumped (g_pump g) @ g_queue g). manuals g ! snd x)
     \<and> readMode (g_run g) (manuals g ! g_cur g)"

lemma manuals_same:
  "length (g_conns g') = length (g_conns g) \<Longrightarrow> (\<And>k. k < length (g_conns g) \<Longrightarrow> sn_manual (g_conns g' ! k) = sn_manual (g_conns g ! k))
   \<Longrightarrow> manuals g' = manuals g"
  unfolding manuals_def by (rule nth_equalityI) simp_all

definition flowOK :: "group_stream \<Rightarrow> bool" where
  "flowOK g \<longleftrightarrow> (\<forall>k<length (g_conns g). subseq (ofStream k (flow g)) (sn_received (g_conns g ! k))
     \<and> (streamLive g k \<longrightarrow> ofStream k (flow g) = sn_received (g_conns g ! k)))"

lemma ofStream_simps [simp]:
  "ofStream k [] = []" "ofStream k (x # xs) = (if snd x = k then [fst x] else []) @ ofStream k xs"
  "ofStream k (xs @ ys) = ofStream k xs @ ofStream k ys"
  by (simp_all add: ofStream_def)

lemma ofStream_none: "\<forall>x\<in>set xs. snd x \<noteq> k \<Longrightarrow> ofStream k xs = []"
  by (induction xs) auto

text \<open>A step that moves events along, loses some of streams that are not live, and adds nothing.\<close>

lemma flowOK_moved:
  assumes "flowOK g" "length (g_conns g') = length (g_conns g)"
    and "\<And>k. k < length (g_conns g) \<Longrightarrow> sn_received (g_conns g' ! k) = sn_received (g_conns g ! k)"
    and "\<And>k. k < length (g_conns g) \<Longrightarrow> streamLive g' k \<Longrightarrow> streamLive g k"
    and "\<And>k. k < length (g_conns g) \<Longrightarrow> subseq (ofStream k (flow g')) (ofStream k (flow g))
           \<and> (streamLive g' k \<longrightarrow> ofStream k (flow g') = ofStream k (flow g))"
  shows "flowOK g'"
  using assms unfolding flowOK_def by (metis subseq_order.trans)

lemma settle_received:
  assumes "settleStep j ch g = Some g'" "k < length (g_conns g)"
  shows "sn_received (g_conns g' ! k) = sn_received (g_conns g ! k) \<and> sn_ended (g_conns g' ! k) = sn_ended (g_conns g ! k)
    \<and> sn_manual (g_conns g' ! k) = sn_manual (g_conns g ! k)"
  using assms
  by (cases "st_at (g_calls g ! j)"; cases ch)
     (auto simp: settleStep_def Let_def onConn_at admitAck_def forget_def resetConn_def applyResult_def
      split: if_splits sum.splits bool.splits option.splits ack_outcome.splits prod.splits)

lemma subseq_skip [simp]: "subseq (xs @ ys) (xs @ x # ys)"
  by (intro list_emb_append_mono) auto

lemma heldOK_shrink:
  assumes "heldOK g" "manuals g' = manuals g" "g_cur g' = g_cur g" "set (flow g') \<subseteq> set (flow g)"
    and "set (pumped (g_pump g') @ g_queue g') \<subseteq> set (pumped (g_pump g) @ g_queue g)"
    and "reading (g_run g') 0 = [] \<or> g_run g' = g_run g"
  shows "heldOK g'"
proof -
  have "\<forall>x\<in>set (flow g'). snd x < length (manuals g')" using assms(1,2,4) unfolding heldOK_def by (metis subsetD)
  moreover have "\<forall>x\<in>set (pumped (g_pump g') @ g_queue g'). manuals g' ! snd x"
    using assms(1,2,5) unfolding heldOK_def by (metis subsetD)
  moreover have "readMode (g_run g') (manuals g' ! g_cur g')"
    using assms(1,2,3,6) unfolding heldOK_def by (cases "g_run g'") auto
  ultimately show ?thesis using assms(1,2) unfolding heldOK_def by simp
qed

lemma flow_same:
  assumes "heldOK g" "flowOK g" "g_conns g' = g_conns g" "flow g' = flow g"
    and "pumped (g_pump g') @ g_queue g' = pumped (g_pump g) @ g_queue g"
    and "reading (g_run g') 0 = [] \<or> g_run g' = g_run g" "\<And>k. streamLive g' k \<Longrightarrow> streamLive g k"
  shows "heldOK g' \<and> flowOK g'"
proof
  show "heldOK g'"
    by (rule heldOK_shrink [OF assms(1)]) (use assms(3-6) in \<open>simp_all add: manuals_def g_cur_def\<close>)
  show "flowOK g'" by (rule flowOK_moved [OF assms(2)]) (use assms(3,4,7) in simp_all)
qed

lemma pump_same:
  assumes "pumpStep ch g = Some g'"
  shows "g_conns g' = g_conns g \<and> g_run g' = g_run g \<and> g_cur g' = g_cur g \<and> g_stopped g' = g_stopped g \<and> g_ctxDone g' = g_ctxDone g"
  using assms by (cases "g_pump g"; cases ch) (auto simp: pumpStep_def split: if_splits list.splits)

lemma pump_unsub: "pumpStep ch g = Some g' \<Longrightarrow> g_unsub g' = g_unsub g"
  by (cases "g_pump g"; cases ch) (auto simp: pumpStep_def split: if_splits list.splits)

lemma pump_flow:
  assumes "pumpStep ch g = Some g'"
  shows "subseq (ofStream k (flow g')) (ofStream k (flow g)) \<and> (streamLive g' k \<longrightarrow> ofStream k (flow g') = ofStream k (flow g))"
  using assms by (cases "g_pump g"; cases ch) (auto simp: pumpStep_def flow_def streamLive_def split: if_splits list.splits)

lemma pump_held:
  assumes "pumpStep ch g = Some g'"
  shows "set (flow g') \<subseteq> set (flow g) \<and> set (pumped (g_pump g') @ g_queue g') \<subseteq> set (pumped (g_pump g) @ g_queue g)"
  using assms by (cases "g_pump g"; cases ch) (auto simp: pumpStep_def flow_def split: if_splits list.splits)

lemma flow_pump:
  assumes "pumpStep ch g = Some g'" "heldOK g" "flowOK g"
  shows "heldOK g' \<and> flowOK g'"
proof
  note same = pump_same [OF assms(1)]
  show "heldOK g'" using heldOK_shrink [OF assms(2)] same pump_held [OF assms(1)] by (simp add: manuals_def)
  show "flowOK g'"
    by (rule flowOK_moved [OF assms(3)]) (use same pump_flow [OF assms(1)] in \<open>simp_all add: streamLive_def\<close>)
qed

text \<open>The reader.\<close>

lemma cur_bound: "g_conns g \<noteq> [] \<Longrightarrow> g_cur g < length (g_conns g)"
  by (cases "g_conns g") (simp_all add: g_cur_def)

lemma onFrame_event:
  assumes "g_run g = RRecv acc" "subscriptionEventFromProto m = Inr ev" "onFrame (FEvent m) acc g = Some g'" "heldOK g" "flowOK g"
  shows "heldOK g' \<and> flowOK g'"
proof -
  let ?k = "g_cur g"
  have k: "?k < length (g_conns g)" using assms(4) cur_bound by (simp add: heldOK_def manuals_def)
  have f: "g_events g' = g_events g" "g_pump g' = g_pump g" "g_queue g' = g_queue g" "g_cur g' = ?k"
      "length (g_conns g') = length (g_conns g)" "g_stopped g' = g_stopped g" "g_ctxDone g' = g_ctxDone g"
      "g_run g' = (if sn_manual (g_conns g ! ?k) then RPush ev else RAuto ev)"
    using assms(2,3) by (auto simp: onFrame_def Let_def split: if_splits)
  have at: "sn_received (g_conns g' ! i) = sn_received (g_conns g ! i) @ (if i = ?k then [ev] else [])"
      "sn_ended (g_conns g' ! i) = sn_ended (g_conns g ! i)" "sn_manual (g_conns g' ! i) = sn_manual (g_conns g ! i)"
    if "i < length (g_conns g)" for i
    using assms(2,3) that by (auto simp: onFrame_def Let_def onConn_at split: if_splits)
  have fl: "flow g' = flow g @ [(ev, ?k)]" using f assms(1) by (simp add: flow_def)
  have m: "manuals g' = manuals g" by (rule manuals_same [OF f(5) at(3)])
  have "readMode (g_run g') (manuals g ! ?k)" "?k < length (manuals g)"
    using f(8) k by (simp_all add: manuals_def)
  then have "heldOK g'"
    using assms(4) f(2,3,4) m fl unfolding heldOK_def by simp
  moreover have "flowOK g'"
    using assms(5) f(5-7) at(1,2) fl unfolding flowOK_def streamLive_def by auto
  ultimately show ?thesis ..
qed

text \<open>The other steps of \<open>run\<close> move the event that was read, or leave the events alone.\<close>

lemma run_push:
  assumes "g_run g = RPush ev" "grunStep rnd ch g = Some g'" "heldOK g" "flowOK g"
  shows "heldOK g' \<and> flowOK g'"
proof -
  have g': "g' = g \<lparr> g_queue := g_queue g @ [(ev, g_cur g)], g_wake := True, g_run := RRecv True \<rparr>"
    using assms(1,2) by (cases ch) (auto simp: grunStep_def)
  then have fl: "flow g' = flow g" using assms(1) by (simp add: flow_def)
  have m: "manuals g' = manuals g" using g' by (simp add: manuals_def)
  have "heldOK g'" using assms(1,3) fl m unfolding heldOK_def by (simp add: g')
  moreover have "flowOK g'" using assms(4) fl unfolding flowOK_def streamLive_def by (simp add: g')
  ultimately show ?thesis ..
qed

lemma run_auto:
  assumes "g_run g = RAuto ev" "grunStep rnd ch g = Some g'" "heldOK g" "flowOK g"
  shows "heldOK g' \<and> flowOK g'"
proof -
  show ?thesis
  proof (cases "g' = g \<lparr> g_panicked := True \<rparr>")
    case True
    then show ?thesis using assms(3,4) by (simp add: heldOK_def flowOK_def flow_def streamLive_def manuals_def)
  next
    case False
    then have f: "g_conns g' = g_conns g" "g_pump g' = g_pump g" "g_queue g' = g_queue g" "reading (g_run g') 0 = []"
        "reading (g_run g') (g_cur g) = []" "g_cur g' = g_cur g" "g_stopped g' = g_stopped g" "g_ctxDone g' = g_ctxDone g"
        "chanSent (g_events g') = chanSent (g_events g) @ [(ev, g_cur g)]
         \<or> chanSent (g_events g') = chanSent (g_events g) \<and> (g_stopped g \<or> g_ctxDone g)"
      using assms(1,2) by (cases ch; auto simp: grunStep_def split: if_splits)+
    have m: "manuals g' = manuals g" using f(1) by (simp add: manuals_def)
    have none: "ofStream (g_cur g) (pumped (g_pump g)) = []" "ofStream (g_cur g) (g_queue g) = []"
      using assms(1,3) unfolding heldOK_def by (intro ofStream_none; force)+
    have "subseq (ofStream k (flow g')) (ofStream k (flow g)) \<and> (streamLive g' k \<longrightarrow> ofStream k (flow g') = ofStream k (flow g))" for k
      using f none assms(1) unfolding flow_def streamLive_def by (cases "k = g_cur g") auto
    moreover have "set (flow g') \<subseteq> set (flow g)" using f assms(1) unfolding flow_def by auto
    ultimately show ?thesis
      using heldOK_shrink [OF assms(3) m f(6)] flowOK_moved [OF assms(4), of g'] f by (simp add: streamLive_def)
  qed
qed

lemma run_joined:
  assumes "g_run g = ROpen" "grunStep rnd (RcJoined i p mn) g = Some g'" "heldOK g" "flowOK g"
  shows "heldOK g' \<and> flowOK g'"
proof (cases "g_stopped g")
  case True
  then have "g' = g \<lparr> g_run := RCtxReport \<rparr>" using assms(1,2) by (simp add: grunStep_def)
  then show ?thesis using assms(1) by (intro flow_same [OF assms(3,4)]) (simp_all add: flow_def streamLive_def)
next
  case False
  then have g': "g' = g \<lparr> g_conns := g_conns g @ [newStreamConn i p mn], g_run := RRecv False \<rparr>"
    using assms(1,2) by (simp add: grunStep_def)
  have fl: "flow g' = flow g" using assms(1) by (simp add: flow_def g')
  have m: "manuals g' = manuals g @ [mn]" by (simp add: g' manuals_def newStreamConn_def)
  have idx: "snd x < length (manuals g)" if "x \<in> set (flow g)" for x using assms(3) that by (simp add: heldOK_def)
  have held: "x \<in> set (flow g)" if "x \<in> set (pumped (g_pump g) @ g_queue g)" for x using that by (auto simp: flow_def)
  have "heldOK g'"
    using assms(3) fl m idx held unfolding heldOK_def by (auto simp: g' nth_append less_Suc_eq)
  moreover have "flowOK g'"
    unfolding flowOK_def
  proof (intro allI impI)
    fix k assume "k < length (g_conns g')"
    then consider "k < length (g_conns g)" | "k = length (g_conns g)" by (auto simp: g' less_Suc_eq)
    then show "subseq (ofStream k (flow g')) (sn_received (g_conns g' ! k)) \<and>
        (streamLive g' k \<longrightarrow> ofStream k (flow g') = sn_received (g_conns g' ! k))"
    proof cases
      case 1
      then have "g_conns g' ! k = g_conns g ! k" by (simp add: g' nth_append)
      moreover have "streamLive g' k = streamLive g k" using 1 by (simp add: streamLive_def g' nth_append g_stopped_def g_ctxDone_def)
      ultimately show ?thesis using assms(4) fl 1 by (simp add: flowOK_def)
    next
      case 2
      have "ofStream k (flow g) = []" using idx 2 by (intro ofStream_none) (fastforce simp: manuals_def)
      then show ?thesis using fl 2 by (simp add: g' newStreamConn_def)
    qed
  qed
  ultimately show ?thesis ..
qed

lemma run_other:
  assumes "grunStep rnd ch g = Some g'" "reading (g_run g) 0 = []"
    and "\<nexists>m ev. ch = RcFrame (FEvent m) \<and> subscriptionEventFromProto m = Inr ev" "\<nexists>i p m. ch = RcJoined i p m"
  shows "length (g_conns g') = length (g_conns g) \<and> g_pump g' = g_pump g \<and> g_queue g' = g_queue g \<and> reading (g_run g') (g_cur g') = []
    \<and> reading (g_run g') 0 = [] \<and> chanSent (g_events g') = chanSent (g_events g) \<and> g_cur g' = g_cur g \<and> g_stopped g' = g_stopped g
    \<and> (g_ctxDone g \<longrightarrow> g_ctxDone g')
    \<and> (\<forall>k<length (g_conns g). sn_received (g_conns g' ! k) = sn_received (g_conns g ! k)
         \<and> sn_manual (g_conns g' ! k) = sn_manual (g_conns g ! k) \<and> (sn_ended (g_conns g ! k) \<longrightarrow> sn_ended (g_conns g' ! k)))"
  using assms
  by (cases "g_run g"; cases ch)
     (auto simp: grunStep_def onFrame_def afterGroupRead_def Let_def onConn_at resolve_def finishConn_def g_ctxDone_def
       g_cur_def g_stopped_def split: if_splits frame.splits sum.splits option.splits)

lemma flow_run:
  assumes "grunStep rnd ch g = Some g'" "heldOK g" "flowOK g"
  shows "heldOK g' \<and> flowOK g'"
proof -
  consider (push) ev where "g_run g = RPush ev" | (auto) ev where "g_run g = RAuto ev"
    | (event) m ev acc where "g_run g = RRecv acc" "ch = RcFrame (FEvent m)" "subscriptionEventFromProto m = Inr ev"
    | (joined) i p mn where "g_run g = ROpen" "ch = RcJoined i p mn"
    | (other) "reading (g_run g) 0 = []" "\<nexists>m ev. ch = RcFrame (FEvent m) \<and> subscriptionEventFromProto m = Inr ev"
        "\<nexists>i p m. ch = RcJoined i p m"
    using assms(1) by (cases "g_run g"; cases ch) (auto simp: grunStep_def)
  then show ?thesis
  proof cases
    case push then show ?thesis using assms run_push by blast
  next
    case auto then show ?thesis using assms run_auto by blast
  next
    case event
    then show ?thesis using onFrame_event [OF event(1,3)] assms by (simp add: grunStep_def)
  next
    case joined then show ?thesis using assms run_joined by blast
  next
    case other
    note o = run_other [OF assms(1) other]
    have m: "manuals g' = manuals g" using o by (intro manuals_same) auto
    have fl: "flow g' = flow g"
      using o other(1) by (cases "g_run g") (auto simp: flow_def)
    have "heldOK g'" using heldOK_shrink [OF assms(2) m, of] o fl by auto
    moreover have "flowOK g'" by (rule flowOK_moved [OF assms(3)]) (use o fl in \<open>auto simp: streamLive_def\<close>)
    ultimately show ?thesis ..
  qed
qed

lemma flow_step:
  assumes "groupStep rnd a g = Some g'" "heldOK g" "flowOK g"
  shows "heldOK g' \<and> flowOK g'"
proof (cases a)
  case (ARun ch) then show ?thesis using assms flow_run by (auto simp: groupStep_def split: if_splits)
next
  case (APump ch) then show ?thesis using assms flow_pump by (auto simp: groupStep_def split: if_splits)
next
  case (ASettle j ch)
  then have s: "settleStep j ch g = Some g'" using assms(1) by (auto simp: groupStep_def split: if_splits)
  note same = settleStep_same [OF s] and conns = settle_received [OF s]
  have cur: "g_cur g' = g_cur g" using same by (simp add: g_cur_def)
  have m: "manuals g' = manuals g" using same conns by (intro manuals_same) auto
  have fl: "flow g' = flow g" using same cur by (simp add: flow_def)
  have "heldOK g'" using heldOK_shrink [OF assms(2) m cur] same fl by simp
  moreover have "flowOK g'"
    by (rule flowOK_moved [OF assms(3)]) (use same conns fl in \<open>auto simp: streamLive_def g_stopped_def g_ctxDone_def\<close>)
  ultimately show ?thesis ..
next
  case AIdle
  then obtain acc where g': "g' = onConn (g_cur g) (resetConn idleError) g"
    using assms(1) by (auto simp: groupStep_def split: if_splits run_at.splits)
  have at: "sn_received (g_conns g' ! k) = sn_received (g_conns g ! k)" "sn_ended (g_conns g' ! k) = sn_ended (g_conns g ! k)"
      "sn_manual (g_conns g' ! k) = sn_manual (g_conns g ! k)" if "k < length (g_conns g)" for k
    using that by (simp_all add: g' onConn_at resetConn_def)
  have m: "manuals g' = manuals g" by (rule manuals_same) (simp_all add: g' at(3) [unfolded g'])
  have fl: "flow g' = flow g" by (simp add: flow_def g')
  have "heldOK g'" by (rule heldOK_shrink [OF assms(2) m]) (simp_all add: fl, simp_all add: g')
  moreover have "flowOK g'" by (rule flowOK_moved [OF assms(3)]) (simp_all add: fl at streamLive_def, simp_all add: g')
  ultimately show ?thesis ..
next
  case AHalfClose
  then have g': "g' = onConn (g_cur g) (\<lambda>sc. sc \<lparr> sn_halfClosed := True \<rparr>) g \<lparr> g_unsub := UHalfClosed \<rparr>"
    and u: "g_unsub g = UStopped"
    using assms(1) by (auto simp: groupStep_def split: if_splits)
  have at: "sn_received (g_conns g' ! k) = sn_received (g_conns g ! k)" "sn_ended (g_conns g' ! k) = sn_ended (g_conns g ! k)"
      "sn_manual (g_conns g' ! k) = sn_manual (g_conns g ! k)" if "k < length (g_conns g)" for k
    using that by (simp_all add: g' onConn_at)
  have len: "length (g_conns g') = length (g_conns g)" by (simp add: g')
  have m: "manuals g' = manuals g" by (rule manuals_same [OF len at(3)])
  have cur: "g_cur g' = g_cur g" using len by (simp add: g_cur_def)
  have fl: "flow g' = flow g" using cur by (simp add: flow_def) (simp add: g')
  have "heldOK g'" by (rule heldOK_shrink [OF assms(2) m cur]) (simp_all add: fl, simp_all add: g')
  moreover have "flowOK g'"
    by (rule flowOK_moved [OF assms(3)]) (simp_all add: fl at streamLive_def len, simp_all add: g' g_stopped_def)
  ultimately show ?thesis ..
next
  case ATakeGroupEvent
  then have "g' = g \<lparr> g_events := chanTake (g_events g) \<rparr>" using assms(1) by (auto simp: groupStep_def split: if_splits)
  then show ?thesis by (intro flow_same [OF assms(2,3)]) (simp_all add: flow_def streamLive_def)
next
  case (ANewSettle t ev d)
  show ?thesis by (rule flow_same [OF assms(2,3)]) (use assms(1) ANewSettle in \<open>auto simp: groupStep_def flow_def streamLive_def split: if_splits\<close>)
next
  case AUnsubscribe
  show ?thesis by (rule flow_same [OF assms(2,3)])
    (use assms(1) AUnsubscribe in \<open>auto simp: groupStep_def flow_def streamLive_def g_cur_def g_stopped_def g_ctxDone_def split: if_splits\<close>)
next
  case AWatcher
  show ?thesis by (rule flow_same [OF assms(2,3)])
    (use assms(1) AWatcher in \<open>auto simp: groupStep_def flow_def streamLive_def g_cur_def g_stopped_def g_ctxDone_def split: if_splits\<close>)
next
  case (AJoinCtx e)
  show ?thesis by (rule flow_same [OF assms(2,3)])
    (use assms(1) AJoinCtx in \<open>auto simp: groupStep_def flow_def streamLive_def g_cur_def g_stopped_def g_ctxDone_def split: if_splits\<close>)
next
  case ATakeGroupError
  show ?thesis by (rule flow_same [OF assms(2,3)]) (use assms(1) ATakeGroupError in \<open>auto simp: groupStep_def flow_def streamLive_def split: if_splits\<close>)
next
  case (ATick n)
  show ?thesis by (rule flow_same [OF assms(2,3)]) (use assms(1) ATick in \<open>auto simp: groupStep_def flow_def streamLive_def split: if_splits\<close>)
qed

section \<open>Leaving the group\<close>

text \<open>Every stream but the current one has ended, the current one too once \<open>run\<close> is past it, and \<open>unsubscribe\<close>
  half-closes the current stream.\<close>

fun pastStream :: "run_at \<Rightarrow> bool" where
  "pastStream (RRecv _) = False"
| "pastStream (RAuto _) = False"
| "pastStream (RPush _) = False"
| "pastStream (RFinish _ _) = False"
| "pastStream _ = True"

definition leaveOK :: "group_stream \<Rightarrow> bool" where
  "leaveOK g \<longleftrightarrow> g_conns g \<noteq> []
     \<and> (\<forall>k<length (g_conns g). k \<noteq> g_cur g \<or> pastStream (g_run g) \<longrightarrow> sn_ended (g_conns g ! k))
     \<and> (g_unsub g = UHalfClosed \<or> g_unsub g = UWatched \<longrightarrow> sn_halfClosed (g_conns g ! g_cur g))"

lemma run_past:
  assumes "grunStep rnd ch g = Some g'" "g_conns g \<noteq> []"
  shows "g_unsub g' = g_unsub g \<and> (pastStream (g_run g') \<longrightarrow> pastStream (g_run g) \<or> sn_ended (g_conns g' ! g_cur g))
    \<and> (g_run g = ROpen \<longrightarrow> pastStream (g_run g))"
  using assms cur_bound [OF assms(2)]
  by (cases "g_run g"; cases ch)
     (auto simp: grunStep_def onFrame_def afterGroupRead_def Let_def onConn_at finishConn_def split: if_splits frame.splits sum.splits option.splits)

lemma leaveOK_step:
  assumes "groupStep rnd a g = Some g'" "leaveOK g"
  shows "leaveOK g'"
proof -
  note moves = group_conn_move [OF assms(1)]
  have ne: "g_conns g \<noteq> []" using assms(2) by (simp add: leaveOK_def)
  note cur = cur_bound [OF ne]
  have ended: "sn_ended (g_conns g' ! k)" if "k < length (g_conns g)" "sn_ended (g_conns g ! k)" for k
    using conn_move_mono(3) moves(1) that by blast
  have half: "sn_halfClosed (g_conns g' ! k)" if "k < length (g_conns g)" "sn_halfClosed (g_conns g ! k)" for k
    using conn_move_mono(4) moves(1) that by blast
  have past: "pastStream (g_run g') \<Longrightarrow> pastStream (g_run g) \<or> sn_ended (g_conns g' ! g_cur g)"
    using assms(1) run_past [OF _ ne] pump_same settleStep_same
    by (cases a) (auto simp: groupStep_def split: if_splits run_at.splits)
  have unsub: "g_unsub g' = g_unsub g \<or> g_unsub g = UNot \<and> g_unsub g' = UStopped
      \<or> g_unsub g = UStopped \<and> g_unsub g' = UHalfClosed \<and> sn_halfClosed (g_conns g' ! g_cur g)
      \<or> g_unsub g = UHalfClosed \<and> g_unsub g' = UWatched"
    using assms(1) run_past [OF _ ne] pump_unsub settleStep_same cur
    by (cases a) (auto simp: groupStep_def onConn_at split: if_splits run_at.splits)
  consider (same) "length (g_conns g') = length (g_conns g)"
    | (new) "length (g_conns g') = Suc (length (g_conns g))" "g_run g = ROpen" "g_run g' = RRecv False" "\<not> g_stopped g"
    using moves(2) by auto
  then show ?thesis
  proof cases
    case same
    then have "g_cur g' = g_cur g" by (simp add: g_cur_def)
    moreover have "g_conns g' \<noteq> []" using same ne by auto
    ultimately show ?thesis using assms(2) same ended half past unsub cur unfolding leaveOK_def by auto
  next
    case new
    have c': "g_cur g' = length (g_conns g)" using new(1) by (simp add: g_cur_def)
    have "sn_ended (g_conns g' ! k)" if "k < length (g_conns g)" for k
      using assms(2) ended that new(2) unfolding leaveOK_def by simp
    moreover have "g_unsub g' = UNot \<or> g_unsub g' = UStopped" using new(4) unsub by (auto simp: g_stopped_def)
    moreover have "g_conns g' \<noteq> []" using new(1) by auto
    ultimately show ?thesis using new(1,3) c' unfolding leaveOK_def by (auto simp: less_Suc_eq)
  qed
qed

section \<open>Properties\<close>

definition groupInv :: "group_stream \<Rightarrow> bool" where
  "groupInv g \<longleftrightarrow> closeOK g \<and> (\<forall>k<length (g_conns g). boxOK (g_conns g ! k)) \<and> ackSound g \<and> heldOK g \<and> flowOK g \<and> leaveOK g"

lemma boxes_step:
  assumes "groupStep rnd a g = Some g'" "\<forall>k<length (g_conns g). boxOK (g_conns g ! k)"
  shows "\<forall>k<length (g_conns g'). boxOK (g_conns g' ! k)"
proof (intro allI impI)
  fix k assume k: "k < length (g_conns g')"
  show "boxOK (g_conns g' ! k)"
  proof (cases "k < length (g_conns g)")
    case True then show ?thesis using assms group_conn_move(1) [OF assms(1)] conn_move_box by blast
  next
    case False then show ?thesis using new_conn [OF assms(1) k] boxOK_ops(1) by metis
  qed
qed

interpretation consumer_group: step_invariant "groupStep rnd" groupInv for rnd
proof
  fix a g g' assume step: "groupStep rnd a g = Some g'" and "groupInv g"
  then show "groupInv g'"
    using closeOK_step [OF step] boxes_step [OF step] ackSound_step [OF step] flow_step [OF step] leaveOK_step [OF step]
    unfolding groupInv_def by blast
qed

lemma joinedGroup_inv: "groupInv (joinedGroup i p m now)"
  by (simp add: groupInv_def joinedGroup_def closeOK_def ackSound_def heldOK_def flowOK_def leaveOK_def boxOK_def
      newStreamConn_def manuals_def flow_def g_cur_def)

lemma group_reached: "reaches (groupStep rnd) (joinedGroup i p m now) g \<Longrightarrow> groupInv g"
  by (rule consumer_group.reached_keep [OF _ joinedGroup_inv])

text \<open>C32. No acknowledgment is sent for an event of another stream: every one on the wire names an event this very
  stream has delivered, whatever reconnects happen between the delivery and the call.\<close>

theorem no_stale_ack_is_sent:
  assumes "reaches (groupStep rnd) (joinedGroup i p m now) g" "sc \<in> set (g_conns g)" "ack \<in> set (sn_sent sc)"
  shows "\<exists>ev\<in>set (sn_received sc). se_ID ev = am_EventId ack"
proof -
  have "ackSound g" using group_reached [OF assms(1)] by (simp add: groupInv_def)
  moreover obtain k where "k < length (g_conns g)" "sc = g_conns g ! k" using assms(2) by (auto simp: in_set_conv_nth)
  ultimately have "am_EventId ` set (sn_sent sc) \<subseteq> eventIDs sc" by (simp add: ackSound_def)
  then show ?thesis using assms(3) by (force simp: eventIDs_def)
qed

definition ackDemo :: "group_act list" where
  "ackDemo = [ARun (RcFrame (FEvent \<lparr> pv_SubscriptionId = [], pv_EventId = ''e1'', pv_Topic = ''t'', pv_Data = None,
       pv_DataValue = None, pv_Sequence = 1, pv_Metadata = None \<rparr>)), ARun RcGo, APump PcGo, APump PcGo, APump PcSend, ATakeGroupEvent,
     ANewSettle AckAck ''e1'' 0, ASettle 0 ScGo, ASettle 0 ScGo, ASettle 0 ScGo, ASettle 0 ScSent]"

lemma ackDemo_run:
  "map_option (\<lambda>g. (map (\<lambda>sc. (map am_EventId (sn_sent sc), sn_ended sc)) (g_conns g), map (se_ID \<circ> fst) (chanSent (g_events g)),
       g_stopped g \<or> g_ctxDone g, g_pump g, g_queue g, g_run g))
     (runSteps (groupStep (\<lambda>x. x)) ackDemo (joinedGroup ''s'' ''p'' True 0))
   = Some ([([''e1''], False)], [''e1''], False, PTop, [], RRecv True)"
  by code_simp

theorem no_stale_ack_is_sent_witness:
  "\<exists>g. runSteps (groupStep (\<lambda>x. x)) ackDemo (joinedGroup ''s'' ''p'' True 0) = Some g
     \<and> (\<exists>ev\<in>set (sn_received (hd (g_conns g))). se_ID ev = ''e1'')"
proof -
  obtain g where g: "runSteps (groupStep (\<lambda>x. x)) ackDemo (joinedGroup ''s'' ''p'' True 0) = Some g"
    "map (\<lambda>sc. (map am_EventId (sn_sent sc), sn_ended sc)) (g_conns g) = [([''e1''], False)]"
    using ackDemo_run by auto
  then obtain sc ack where sc: "g_conns g = [sc]" "sn_sent sc = [ack]" "am_EventId ack = ''e1''" by auto
  have "\<exists>ev\<in>set (sn_received sc). se_ID ev = am_EventId ack"
    using no_stale_ack_is_sent [OF runSteps_reaches [OF g(1) reaches.here], of sc ack] sc by simp
  then show ?thesis using g(1) sc by auto
qed

text \<open>The events of each stream reach the caller in the order of the stream and at most once; while the stream
  lives, those not yet on the channel are exactly the ones still with the pump, in the queue or with the
  reader, so none is lost.\<close>

theorem group_events_in_order:
  assumes "reaches (groupStep rnd) (joinedGroup i p m now) g" "k < length (g_conns g)"
  shows "subseq (ofStream k (chanSent (g_events g))) (sn_received (g_conns g ! k))"
    and "streamLive g k \<Longrightarrow> sn_received (g_conns g ! k) = ofStream k (chanSent (g_events g)) @
      ofStream k (pumped (g_pump g) @ g_queue g @ reading (g_run g) (g_cur g))"
proof -
  have "flowOK g" using group_reached [OF assms(1)] by (simp add: groupInv_def)
  then have f: "subseq (ofStream k (flow g)) (sn_received (g_conns g ! k))"
      "streamLive g k \<longrightarrow> ofStream k (flow g) = sn_received (g_conns g ! k)"
    using assms(2) by (simp_all add: flowOK_def)
  have "subseq (ofStream k (chanSent (g_events g))) (ofStream k (flow g))"
    by (auto simp: flow_def intro: prefix_imp_subseq)
  then show "subseq (ofStream k (chanSent (g_events g))) (sn_received (g_conns g ! k))"
    using f(1) subseq_order.trans by blast
  show "streamLive g k \<Longrightarrow> sn_received (g_conns g ! k) = ofStream k (chanSent (g_events g)) @
      ofStream k (pumped (g_pump g) @ g_queue g @ reading (g_run g) (g_cur g))"
    using f(2) by (simp add: flow_def)
qed



text \<open>A send never meets a closed channel, and the channels are closed only after both goroutines are done with
  them.\<close>

theorem group_never_panics:
  assumes "reaches (groupStep rnd) (joinedGroup i p m now) g"
  shows "\<not> g_panicked g" and "ch_closed (g_events g) \<Longrightarrow> g_run g = REnd \<and> g_pump g = PEnd"
  using group_reached [OF assms] by (auto simp: groupInv_def closeOK_def)

text \<open>The reader is never held up by an acknowledgment: ending the stream and handing over a result find the
  channel of every pending call empty.\<close>

theorem group_reader_never_blocks:
  assumes "reaches (groupStep rnd) (joinedGroup i p m now) g"
    and "g_run g = RFinish acc err \<and> ch = RcGo \<or> g_run g = RRecv acc \<and> ch = RcFrame f"
  shows "groupStep rnd (ARun ch) g \<noteq> None"
proof -
  have inv: "\<forall>k<length (g_conns g). boxOK (g_conns g ! k)" "leaveOK g" "\<not> g_panicked g"
    using group_reached [OF assms(1)] by (simp_all add: groupInv_def closeOK_def)
  then have "boxOK (g_conns g ! g_cur g)" using cur_bound by (simp add: leaveOK_def)
  note free = boxOK_enabled [OF this]
  from assms(2) show ?thesis
  proof (elim disjE conjE)
    assume "g_run g = RFinish acc err" "ch = RcGo"
    then show ?thesis using free(1) inv(3) by (auto simp: groupStep_def grunStep_def)
  next
    assume "g_run g = RRecv acc" "ch = RcFrame f"
    then show ?thesis using free(2) inv(3)
      by (cases f) (auto simp: groupStep_def grunStep_def onFrame_def Let_def split: sum.splits option.splits)
  qed
qed

text \<open>Once \<open>Unsubscribe\<close> has half-closed the current stream, every stream the subscription ever opened is
  half-closed or ended, and no further one is opened: no member of the group outlives \<open>Unsubscribe\<close>.\<close>

theorem no_member_outlives_unsubscribe:
  assumes "reaches (groupStep rnd) (joinedGroup i p m now) g" "g_unsub g = UHalfClosed \<or> g_unsub g = UWatched"
  shows "\<forall>sc\<in>set (g_conns g). sn_halfClosed sc \<or> sn_ended sc"
    and "groupStep rnd a g = Some g' \<Longrightarrow> length (g_conns g') = length (g_conns g)"
proof -
  have l: "leaveOK g" using group_reached [OF assms(1)] by (simp add: groupInv_def)
  show "\<forall>sc\<in>set (g_conns g). sn_halfClosed sc \<or> sn_ended sc"
    using l assms(2) unfolding leaveOK_def by (metis in_set_conv_nth)
  show "groupStep rnd a g = Some g' \<Longrightarrow> length (g_conns g') = length (g_conns g)"
    using group_conn_move(2) [of rnd a g g'] assms(2) by (auto simp: g_stopped_def)
qed

end
