(* ===== verification/Ws_Subscription.thy ===== *)
theory Ws_Subscription
  imports Subscription_Wire Machine "HOL-Library.AList"
begin

text \<open>
  The WebSocket subscription client (\<^verbatim>\<open>src/ironflow/subscribe.go\<close>) as a machine: calls of \<open>Subscribe\<close>,
  \<open>Unsubscribe\<close> and \<open>Close\<close>, the reader of a connection, the reconnects, the goroutines that restore the
  subscriptions on a new connection, and the readers of the channels. A step is one critical section or one
  channel operation. The client's lock \<open>mu\<close> is held over several steps by \<open>Close\<close> and by the end of a
  subscription whose renewal was refused; a subscription's \<open>sendMu\<close> by the reader while it is at \<open>RSend\<close>.
  A write reads the connection and writes to it in one step: one that comes after the loss of its
  connection is taken to come just before it, since nothing is read there any more. \<open>Connect\<close> is not called
  while another call of it, a reader or a reconnect is at work, so that a connection has one reader.
\<close>

section \<open>The state\<close>

text \<open>An attempt of \<open>Subscribe\<close> lives in its call, one of \<open>resubscribeAll\<close> in a list of its own.\<close>

datatype attempt_ref = OfCall nat | OfResub nat

datatype wcall_at =
    WcCheck
  | WcActive
  | WcReserve
  | WcPrevious attempt_ref
  | WcSend
  | WcWait
  | WcInstall string
  | WcComplete "goerr + nat"
  | WcCancel goerr
  | WcReturned "goerr + nat"

record wcall =
  wl_Pattern :: string
  wl_options :: "subscribe_options option"
  wl_at :: wcall_at
  wl_result :: "(goerr + string) option"
  wl_done :: bool
  wl_canceled :: bool
  wl_sub :: "nat option"

record wresub =
  wb_sub :: nat
  wb_done :: bool

text \<open>\<open>Unsubscribe\<close> under its \<open>Once\<close>.\<close>

datatype wonce = OnceNot | OnceRemove | OnceSend string | OnceEnd

text \<open>A subscription; \<open>wu_from\<close> records the options it was made with.\<close>

record wsub =
  wu_ID :: string
  wu_Pattern :: string
  wu_events :: "subscription_event gochan"
  wu_errors :: "subscription_error gochan"
  wu_options :: "subscribe_options option"
  wu_done :: bool
  wu_once :: wonce
  wu_from :: "subscribe_options option"

text \<open>A connection with what was written to it and read from it, in order.\<close>

datatype wire_entry =
    HSub string "subscribe_options option" attempt_ref
  | HReq ws_request
  | HResult ws_result
  | HEvent string subscription_event

record wconn =
  wn_closed :: bool
  wn_hist :: "wire_entry list"

datatype rpc =
    RTop
  | RConn
  | RRead nat
  | RHandled nat
  | REvent nat subscription_event nat
  | RSend nat subscription_event nat
  | RCursor nat subscription_event nat
  | RError "nat list" subscription_error nat
  | RResults "ws_result list" nat
  | RDeliver nat ws_result "ws_result list" nat
  | RHandoff nat ws_result "ws_result list" nat
  | RUnsub ws_result attempt_ref "ws_result list" nat
  | RRebind nat nat ws_result "ws_result list" nat
  | RTermOnce nat nat ws_result "ws_result list" nat
  | RComplete ws_result attempt_ref "ws_result list" nat
  | RLost goerr
  | RDisc goerr
  | RPending goerr
  | RSettle bool goerr

text \<open>What drives the connection: \<open>Connect\<close> of the user or of a reconnect, the reader, or the reconnect.\<close>

datatype driver =
    DNone
  | DConnect bool
  | DDial bool
  | DSched
  | DSleep
  | DRetry
  | DRetryPend
  | DReader rpc

text \<open>The end of \<open>Connect\<close>: \<open>resubscribeAll\<close>, then after a reconnect \<open>resendPendingInitialSubscriptions\<close>.\<close>

datatype wrestore =
    SvSnap bool
  | SvLoop bool "(string \<times> nat) list"
  | SvOpts bool string nat nat "(string \<times> nat) list"
  | SvWrite bool string nat nat "subscribe_options option" "(string \<times> nat) list"
  | SvReport bool string nat nat goerr "(string \<times> nat) list"
  | SvComplete bool string nat "(string \<times> nat) list"
  | SvPending
  | SvResend "(string \<times> nat) list"
  | SvResult nat goerr "(string \<times> nat) list"
  | SvDone

datatype wclose = CsOpen | CsLock | CsLoop "nat option" "nat list" | CsPending "nat option" | CsConn "nat option" | CsEnd

record wclient =
  wc_conn :: "nat option"
  wc_conns :: "wconn list"
  wc_state :: conn_state
  wc_reconnectAttempt :: nat
  wc_pending :: "(string \<times> attempt_ref) list"
  wc_subscriptions :: "(string \<times> nat) list"
  wc_subByPattern :: "(string \<times> string) list"
  wc_done :: bool
  wc_fellBehind :: bool
  wc_subs :: "wsub list"
  wc_calls :: "wcall list"
  wc_resubs :: "wresub list"
  wc_driver :: driver
  wc_restores :: "wrestore list"
  wc_close :: wclose
  wc_panicked :: bool

definition newSubscriptionClient :: wclient where
  "newSubscriptionClient = \<lparr> wc_conn = None, wc_conns = [], wc_state = StateDisconnected, wc_reconnectAttempt = 0,
     wc_pending = [], wc_subscriptions = [], wc_subByPattern = [], wc_done = False, wc_fellBehind = False,
     wc_subs = [], wc_calls = [], wc_resubs = [], wc_driver = DNone, wc_restores = [], wc_close = CsOpen,
     wc_panicked = False \<rparr>"

section \<open>Locks and shared operations\<close>

fun readerHoldsMu :: "driver \<Rightarrow> bool" where
  "readerHoldsMu (DReader (RTermOnce _ _ _ _ _)) = True"
| "readerHoldsMu _ = False"

fun closeHoldsMu :: "wclose \<Rightarrow> bool" where
  "closeHoldsMu (CsLoop _ _) = True"
| "closeHoldsMu _ = False"

definition wMuFree :: "wclient \<Rightarrow> bool" where
  "wMuFree c \<longleftrightarrow> \<not> readerHoldsMu (wc_driver c) \<and> \<not> closeHoldsMu (wc_close c)"

definition sendMuFree :: "nat \<Rightarrow> wclient \<Rightarrow> bool" where
  "sendMuFree s c \<longleftrightarrow> (case wc_driver c of DReader (RSend s' _ _) \<Rightarrow> s' \<noteq> s | _ \<Rightarrow> True)"

definition updWsub :: "nat \<Rightarrow> (wsub \<Rightarrow> wsub) \<Rightarrow> wclient \<Rightarrow> wclient" where
  "updWsub s f c = c \<lparr> wc_subs := (wc_subs c)[s := f (wc_subs c ! s)] \<rparr>"

definition updCall :: "nat \<Rightarrow> (wcall \<Rightarrow> wcall) \<Rightarrow> wclient \<Rightarrow> wclient" where
  "updCall k f c = c \<lparr> wc_calls := (wc_calls c)[k := f (wc_calls c ! k)] \<rparr>"

definition appendWire :: "nat \<Rightarrow> wire_entry \<Rightarrow> wclient \<Rightarrow> wclient" where
  "appendWire n e c = c \<lparr> wc_conns := (wc_conns c)[n := (wc_conns c ! n) \<lparr> wn_hist := wn_hist (wc_conns c ! n) @ [e] \<rparr>] \<rparr>"

text \<open>\<open>sendJSON\<close>: the error, if any, and the client after it; \<open>w\<close> is what the write returns.\<close>

definition wsSendJSON :: "goerr option \<Rightarrow> wire_entry \<Rightarrow> wclient \<Rightarrow> (goerr option \<times> wclient) option" where
  "wsSendJSON w e c =
     (if \<not> wMuFree c then None
      else case wc_conn c of
             None \<Rightarrow> Some (Some (ENew ''not connected''), c)
           | Some n \<Rightarrow>
               (case w of
                  Some err \<Rightarrow> Some (Some err, c)
                | None \<Rightarrow> if wn_closed (wc_conns c ! n) then None else Some (None, appendWire n e c)))"

text \<open>The attempts: \<open>done\<close> is closed when an attempt leaves the pending ones.\<close>

fun attemptDone :: "wclient \<Rightarrow> attempt_ref \<Rightarrow> bool" where
  "attemptDone c (OfCall k) = wl_done (wc_calls c ! k)"
| "attemptDone c (OfResub j) = wb_done (wc_resubs c ! j)"

fun attemptCanceled :: "wclient \<Rightarrow> attempt_ref \<Rightarrow> bool" where
  "attemptCanceled c (OfCall k) = wl_canceled (wc_calls c ! k)"
| "attemptCanceled c (OfResub j) = False"

fun isResub :: "attempt_ref \<Rightarrow> bool" where
  "isResub (OfResub _) = True"
| "isResub (OfCall _) = False"

definition attemptOptions :: "wclient \<Rightarrow> nat \<Rightarrow> subscribe_options option" where
  "attemptOptions c k =
     (case wl_sub (wc_calls c ! k) of
        Some s \<Rightarrow> wu_options (wc_subs c ! s)
      | None \<Rightarrow> wl_options (wc_calls c ! k))"

fun markDone :: "attempt_ref \<Rightarrow> wclient \<Rightarrow> wclient" where
  "markDone (OfCall k) c = updCall k (\<lambda>l. l \<lparr> wl_done := True \<rparr>) c"
| "markDone (OfResub j) c = c \<lparr> wc_resubs := (wc_resubs c)[j := (wc_resubs c ! j) \<lparr> wb_done := True \<rparr>] \<rparr>"

definition completeSubscribeAttempt :: "string \<Rightarrow> attempt_ref \<Rightarrow> wclient \<Rightarrow> wclient" where
  "completeSubscribeAttempt pattern a c =
     (if map_of (wc_pending c) pattern = Some a
      then markDone a (c \<lparr> wc_pending := AList.delete pattern (wc_pending c) \<rparr>) else c)"

definition cancelSubscribeAttempt :: "string \<Rightarrow> nat \<Rightarrow> wclient \<Rightarrow> wclient" where
  "cancelSubscribeAttempt pattern k c =
     (if map_of (wc_pending c) pattern = Some (OfCall k)
      then updCall k (\<lambda>l. l \<lparr> wl_canceled := True \<rparr>) c else c)"

text \<open>Remove the pending attempts that satisfy a condition.\<close>

definition dropPending :: "(attempt_ref \<Rightarrow> bool) \<Rightarrow> wclient \<Rightarrow> wclient" where
  "dropPending P c =
     fold markDone (filter P (map snd (wc_pending c)))
       (c \<lparr> wc_pending := filter (\<lambda>e. \<not> P (snd e)) (wc_pending c) \<rparr>)"

definition clearPendingSubscribeAttempts :: "wclient \<Rightarrow> wclient" where
  "clearPendingSubscribeAttempts = dropPending (\<lambda>_. True)"

definition discardPendingResubscribeAttempts :: "wclient \<Rightarrow> wclient" where
  "discardPendingResubscribeAttempts c = dropPending (\<lambda>a. isResub a \<or> attemptCanceled c a) c"

fun offerResult :: "goerr + string \<Rightarrow> attempt_ref \<Rightarrow> wclient \<Rightarrow> wclient" where
  "offerResult r (OfCall k) c = updCall k (\<lambda>l. if wl_result l = None then l \<lparr> wl_result := Some r \<rparr> else l) c"
| "offerResult r (OfResub _) c = c"

definition failPendingSubscribeAttempts :: "goerr \<Rightarrow> wclient \<Rightarrow> wclient" where
  "failPendingSubscribeAttempts err c =
     (let c1 = discardPendingResubscribeAttempts c
      in fold (offerResult (Inl err)) (map snd (wc_pending c1)) c1)"

fun pendingCursor :: "wclient \<Rightarrow> attempt_ref \<Rightarrow> bool" where
  "pendingCursor c (OfCall k) = (\<not> wl_canceled (wc_calls c ! k) \<and> resumeCursor (attemptOptions c k) \<noteq> None)"
| "pendingCursor c (OfResub _) = False"

definition hasPendingCursorSubscription :: "wclient \<Rightarrow> bool" where
  "hasPendingCursorSubscription c \<longleftrightarrow> (\<exists>e\<in>set (wc_pending c). pendingCursor c (snd e))"

definition trackedCursor :: "wclient \<Rightarrow> bool" where
  "trackedCursor c \<longleftrightarrow> (\<exists>e\<in>set (wc_subscriptions c). resumeCursor (wu_options (wc_subs c ! snd e)) \<noteq> None)"

text \<open>The subscription a pattern is bound to; \<open>unsubscribeByPattern\<close> and the checks of the reader use it.\<close>

definition boundID :: "string \<Rightarrow> wclient \<Rightarrow> string" where
  "boundID pattern c = (case map_of (wc_subByPattern c) pattern of Some i \<Rightarrow> i | None \<Rightarrow> [])"

definition currentSubscriptionID :: "string \<Rightarrow> string \<Rightarrow> wclient \<Rightarrow> string" where
  "currentSubscriptionID pattern fallback c = (if boundID pattern c \<noteq> [] then boundID pattern c else fallback)"

definition isCurrent :: "nat \<Rightarrow> wclient \<Rightarrow> bool" where
  "isCurrent s c \<longleftrightarrow> boundID (wu_Pattern (wc_subs c ! s)) c \<noteq> []
     \<and> map_of (wc_subscriptions c) (boundID (wu_Pattern (wc_subs c ! s)) c) = Some s"

text \<open>Closing the channels of a subscription panics when one is closed already.\<close>

definition closeChans :: "nat \<Rightarrow> wclient \<Rightarrow> wclient" where
  "closeChans s c =
     (if ch_closed (wu_events (wc_subs c ! s)) \<or> ch_closed (wu_errors (wc_subs c ! s))
      then c \<lparr> wc_panicked := True \<rparr>
      else updWsub s (\<lambda>u. u \<lparr> wu_events := chanClose (wu_events u), wu_errors := chanClose (wu_errors u) \<rparr>) c)"

text \<open>What the environment and the runtime decide.\<close>

datatype wchoice =
    VGo
  | VFrame raw
  | VFails goerr
  | VDialed
  | VSend
  | VDone
  | VClientDone
  | VCanceled
  | VTimeout
  | VDrop
  | VWrite "goerr option"
  | VOrder "(string \<times> nat) list"

section \<open>Subscribe\<close>

definition newWsub :: "string \<Rightarrow> string \<Rightarrow> subscribe_options option \<Rightarrow> wsub" where
  "newWsub subID pattern opts = \<lparr> wu_ID = subID, wu_Pattern = pattern, wu_events = newChan 100,
     wu_errors = newChan 10, wu_options = opts, wu_done = False, wu_once = OnceNot, wu_from = opts \<rparr>"

fun wireOptions :: "ws_request \<Rightarrow> subscribe_options option" where
  "wireOptions (WsSubscribe _ opts) = opts"
| "wireOptions _ = None"

definition subscribeEntry :: "string \<Rightarrow> subscribe_options option \<Rightarrow> attempt_ref \<Rightarrow> wire_entry" where
  "subscribeEntry pattern opts a = HSub pattern (wireOptions (newWSSubscribeRequest pattern opts)) a"

abbreviation setCallAt :: "nat \<Rightarrow> wcall_at \<Rightarrow> wclient \<Rightarrow> wclient" where
  "setCallAt k p \<equiv> updCall k (\<lambda>l. l \<lparr> wl_at := p \<rparr>)"

definition installSub :: "nat \<Rightarrow> string \<Rightarrow> wclient \<Rightarrow> wclient" where
  "installSub k subID c =
     (let l = wc_calls c ! k; s = length (wc_subs c) in
      updCall k (\<lambda>l. l \<lparr> wl_at := WcComplete (Inr s), wl_sub := Some s \<rparr>)
        (c \<lparr> wc_subs := wc_subs c @ [newWsub subID (wl_Pattern l) (wl_options l)],
             wc_subscriptions := AList.update subID s (wc_subscriptions c),
             wc_subByPattern := AList.update (wl_Pattern l) subID (wc_subByPattern c) \<rparr>))"

definition wcallStep :: "nat \<Rightarrow> wchoice \<Rightarrow> wclient \<Rightarrow> wclient option" where
  "wcallStep k ch c =
     (let l = wc_calls c ! k; p = wl_Pattern l in
      case (wl_at l, ch) of
        (WcCheck, VGo) \<Rightarrow>
          if wMuFree c
          then Some (setCallAt k (if wc_state c = StateConnected then WcActive
                 else WcReturned (Inl (ENew ''not connected to server''))) c)
          else None
      | (WcActive, VGo) \<Rightarrow>
          if wMuFree c
          then Some (setCallAt k (if map_of (wc_subByPattern c) p = None then WcReserve
                 else WcReturned (Inl (ENew (''already subscribed to pattern: '' @ p)))) c)
          else None
      | (WcReserve, VGo) \<Rightarrow>
          Some (case map_of (wc_pending c) p of
                  None \<Rightarrow> setCallAt k WcSend (c \<lparr> wc_pending := AList.update p (OfCall k) (wc_pending c) \<rparr>)
                | Some a \<Rightarrow> setCallAt k (WcPrevious a) c)
      | (WcPrevious a, VDone) \<Rightarrow> if attemptDone c a then Some (setCallAt k WcActive c) else None
      | (WcPrevious a, VFails e) \<Rightarrow> Some (setCallAt k (WcReturned (Inl e)) c)
      | (WcPrevious a, VClientDone) \<Rightarrow>
          if wc_done c then Some (setCallAt k (WcReturned (Inl (ENew ''client closed''))) c) else None
      | (WcSend, VWrite w) \<Rightarrow>
          map_option (\<lambda>(err, c'). setCallAt k
              (case err of
                 None \<Rightarrow> WcWait
               | Some e \<Rightarrow> WcCancel (EWrap (''failed to send subscribe request: '' @ errorText e) [e])) c')
            (wsSendJSON w (subscribeEntry p (wl_options l) (OfCall k)) c)
      | (WcWait, VGo) \<Rightarrow>
          (case wl_result l of
             None \<Rightarrow> None
           | Some (Inl e) \<Rightarrow> Some (updCall k (\<lambda>l. l \<lparr> wl_result := None, wl_at := WcComplete (Inl e) \<rparr>) c)
           | Some (Inr subID) \<Rightarrow> Some (updCall k (\<lambda>l. l \<lparr> wl_result := None, wl_at := WcInstall subID \<rparr>) c))
      | (WcWait, VFails e) \<Rightarrow> Some (setCallAt k (WcCancel e) c)
      | (WcWait, VClientDone) \<Rightarrow>
          if wc_done c then Some (setCallAt k (WcCancel (ENew ''client closed'')) c) else None
      | (WcInstall subID, VGo) \<Rightarrow> if wMuFree c then Some (installSub k subID c) else None
      | (WcComplete r, VGo) \<Rightarrow> Some (setCallAt k (WcReturned r) (completeSubscribeAttempt p (OfCall k) c))
      | (WcCancel e, VGo) \<Rightarrow> Some (setCallAt k (WcReturned (Inl e)) (cancelSubscribeAttempt p k c))
      | _ \<Rightarrow> None)"

section \<open>Unsubscribe\<close>

text \<open>\<open>unsubscribeByPattern\<close> up to the request: the subscription bound to the pattern is removed and its
  channels are closed, which waits for \<open>sendMu\<close>.\<close>

definition removeByPattern :: "nat \<Rightarrow> wclient \<Rightarrow> wclient option" where
  "removeByPattern s c =
     (let p = wu_Pattern (wc_subs c ! s); subID = boundID p c in
      if \<not> wMuFree c then None
      else case map_of (wc_subscriptions c) subID of
             None \<Rightarrow> Some (updWsub s (\<lambda>u. u \<lparr> wu_once := OnceEnd \<rparr>) c)
           | Some t \<Rightarrow>
               if \<not> sendMuFree t c then None
               else Some (closeChans t (updWsub s (\<lambda>u. u \<lparr> wu_once :=
                      (if wc_conn c = None then OnceEnd else OnceSend subID) \<rparr>)
                      (c \<lparr> wc_subscriptions := AList.delete subID (wc_subscriptions c),
                           wc_subByPattern := AList.delete p (wc_subByPattern c) \<rparr>))))"

section \<open>The reader of a connection\<close>

datatype srv_item = SrvResult ws_result | SrvEvent string subscription_event

type_synonym ws_server = "wire_entry list list \<Rightarrow> srv_item \<Rightarrow> bool"

abbreviation setReader :: "rpc \<Rightarrow> wclient \<Rightarrow> wclient" where
  "setReader r c \<equiv> c \<lparr> wc_driver := DReader r \<rparr>"

definition wires :: "wclient \<Rightarrow> wire_entry list list" where
  "wires c = map wn_hist (wc_conns c)"

text \<open>An error is for the subscription it names, or for all.\<close>

definition handleSubscriptionError :: "subscription_error \<Rightarrow> nat \<Rightarrow> wclient \<Rightarrow> rpc" where
  "handleSubscriptionError e n c =
     (case map_of (wc_subscriptions c) (er_SubscriptionID e) of None \<Rightarrow> RHandled n | Some s \<Rightarrow> RError [s] e n)"

definition handleError :: "string \<Rightarrow> string \<Rightarrow> nat \<Rightarrow> wclient \<Rightarrow> rpc" where
  "handleError code msg n c = RError (map snd (wc_subscriptions c)) \<lparr> er_SubscriptionID = [], er_Code = code,
     er_Message = msg, er_Retrying = False \<rparr> n"

text \<open>A frame was read from connection \<open>n\<close>: \<open>handleMessage\<close>, up to the first operation on a channel.\<close>

definition handleFrame :: "ws_server \<Rightarrow> nat \<Rightarrow> raw \<Rightarrow> wclient \<Rightarrow> wclient option" where
  "handleFrame srv n data c =
     (case decodeFrame data of
        None \<Rightarrow> Some (setReader (RHandled n) c)
      | Some (FrameResults rs) \<Rightarrow> Some (setReader (RResults rs n) c)
      | Some (FrameEvent i ev) \<Rightarrow>
          if wMuFree c \<and> srv (wires c) (SrvEvent i ev)
          then Some (setReader (case map_of (wc_subscriptions c) i of None \<Rightarrow> RHandled n | Some s \<Rightarrow> REvent s ev n)
                 (appendWire n (HEvent i ev) c))
          else None
      | Some (FrameSubError e) \<Rightarrow>
          if wMuFree c then Some (setReader (handleSubscriptionError e n c) c) else None
      | Some (FrameError code msg) \<Rightarrow>
          if wMuFree c then Some (setReader (handleError code msg n c) c) else None)"

definition resultOf :: "ws_result \<Rightarrow> goerr + string" where
  "resultOf r = (if wr_Status r = ''ok'' then Inr (wr_SubscriptionID r)
     else Inl (ENew (''['' @ wr_Code r @ ''] '' @ wr_Message r)))"

text \<open>The attempt a result is for was canceled: give an accepted subscription back, then forget the attempt.\<close>

definition giveBack :: "ws_result \<Rightarrow> attempt_ref \<Rightarrow> ws_result list \<Rightarrow> nat \<Rightarrow> rpc" where
  "giveBack r a rs n = (if wr_Status r = ''ok'' then RUnsub r a rs n else RComplete r a rs n)"

text \<open>The start of an iteration of \<open>handleSubscriptionResult\<close>: the attempt the result belongs to.\<close>

definition takeResult :: "ws_server \<Rightarrow> ws_result \<Rightarrow> ws_result list \<Rightarrow> nat \<Rightarrow> wclient \<Rightarrow> wclient option" where
  "takeResult srv r rs n c =
     (if \<not> srv (wires c) (SrvResult r) then None
      else Some (setReader
        (case map_of (wc_pending c) (wr_Pattern r) of
           None \<Rightarrow> RResults rs n
         | Some (OfCall k) \<Rightarrow>
             if wl_canceled (wc_calls c ! k) then giveBack r (OfCall k) rs n else RDeliver k r rs n
         | Some (OfResub j) \<Rightarrow> RRebind (wb_sub (wc_resubs c ! j)) j r rs n)
        (appendWire n (HResult r) c)))"

text \<open>An accepted resubscription is bound to its new id; a refused one ends the subscription: it is removed
  and its error sent here, under \<open>mu\<close>, and its channels are closed in the next step.\<close>

definition rebindSub :: "nat \<Rightarrow> nat \<Rightarrow> ws_result \<Rightarrow> ws_result list \<Rightarrow> nat \<Rightarrow> wclient \<Rightarrow> wclient" where
  "rebindSub s j r rs n c =
     (let p = wr_Pattern r; q = wu_Pattern (wc_subs c ! s) in
      if wr_Status r = ''ok''
      then (if boundID p c \<noteq> [] \<and> map_of (wc_subscriptions c) (boundID p c) = Some s
            then setReader (RComplete r (OfResub j) rs n)
                   (c \<lparr> wc_subscriptions := AList.update (wr_SubscriptionID r) s
                          (AList.delete (boundID p c) (wc_subscriptions c)),
                        wc_subByPattern := AList.update p (wr_SubscriptionID r) (wc_subByPattern c) \<rparr>)
            else setReader (RUnsub r (OfResub j) rs n) c)
      else if isCurrent s c
      then setReader (RTermOnce s j r rs n)
             (updWsub s (\<lambda>u. if chanRoom (wu_errors u) then u \<lparr> wu_errors := chanPut \<lparr> er_SubscriptionID = boundID q c,
                  er_Code = ''RESUBSCRIBE_FAILED'', er_Message = ''['' @ wr_Code r @ ''] '' @ wr_Message r,
                  er_Retrying = False \<rparr> (wu_errors u) \<rparr> else u)
               (c \<lparr> wc_subscriptions := AList.delete (boundID q c) (wc_subscriptions c),
                    wc_subByPattern := AList.delete q (wc_subByPattern c) \<rparr>))
      else setReader (RComplete r (OfResub j) rs n) c)"

definition fellBehindError :: goerr where
  "fellBehindError = ENew ''subscriber fell behind; resuming from cursor''"

definition hasSequence :: "subscription_event \<Rightarrow> nat option" where
  "hasSequence ev = (case se_Meta ev of None \<Rightarrow> None | Some m \<Rightarrow> if em_Sequence m > 0 then Some (em_Sequence m) else None)"

text \<open>A channel send in a \<open>select\<close>: nothing while it is not ready, a panic when the channel is closed.\<close>

definition sendEvent :: "nat \<Rightarrow> subscription_event \<Rightarrow> nat \<Rightarrow> wclient \<Rightarrow> wclient option" where
  "sendEvent s ev n c =
     (let u = wc_subs c ! s in
      if ch_closed (wu_events u) then Some (c \<lparr> wc_panicked := True \<rparr>)
      else if chanRoom (wu_events u)
      then Some (setReader (if hasSequence ev = None then RHandled n else RCursor s ev n)
             (updWsub s (\<lambda>u. u \<lparr> wu_events := chanPut ev (wu_events u) \<rparr>) c))
      else None)"

definition sendSubError :: "nat \<Rightarrow> subscription_error \<Rightarrow> wclient \<Rightarrow> wclient option" where
  "sendSubError s e c =
     (let u = wc_subs c ! s in
      if ch_closed (wu_errors u) then Some (c \<lparr> wc_panicked := True \<rparr>)
      else if chanRoom (wu_errors u) then Some (updWsub s (\<lambda>u. u \<lparr> wu_errors := chanPut e (wu_errors u) \<rparr>) c)
      else None)"

definition notReady :: "'a gochan \<Rightarrow> bool" where
  "notReady ch \<longleftrightarrow> \<not> ch_closed ch \<and> \<not> chanRoom ch"

definition moveCursor :: "subscription_event \<Rightarrow> wsub \<Rightarrow> wsub" where
  "moveCursor ev u =
     (case (wu_options u, hasSequence ev) of
        (Some opts, Some q) \<Rightarrow>
          if so_StartAfterSequence opts \<noteq> None
          then u \<lparr> wu_options := Some (opts \<lparr> so_StartAfterSequence := Some q, so_Replay := 0 \<rparr>) \<rparr> else u
      | _ \<Rightarrow> u)"

text \<open>\<open>handleEvent\<close>: the event is sent under \<open>sendMu\<close>, then the cursor is moved.\<close>

definition deliverStep :: "rpc \<Rightarrow> wchoice \<Rightarrow> wclient \<Rightarrow> wclient option" where
  "deliverStep pc ch c =
     (case (pc, ch) of
        (REvent s ev n, VGo) \<Rightarrow> Some (setReader (RSend s ev n) c)
      | (RSend s ev n, VSend) \<Rightarrow> sendEvent s ev n c
      | (RSend s ev n, VDone) \<Rightarrow> if wu_done (wc_subs c ! s) then Some (setReader (RHandled n) c) else None
      | (RSend s ev n, VClientDone) \<Rightarrow>
          if resumeCursor (wu_options (wc_subs c ! s)) \<noteq> None \<and> wc_done c then Some (setReader (RHandled n) c) else None
      | (RSend s ev n, VTimeout) \<Rightarrow>
          if resumeCursor (wu_options (wc_subs c ! s)) \<noteq> None
          then Some (setReader (RHandled n) (c \<lparr> wc_fellBehind := True \<rparr>)) else None
      | (RSend s ev n, VDrop) \<Rightarrow>
          if resumeCursor (wu_options (wc_subs c ! s)) = None \<and> \<not> wu_done (wc_subs c ! s)
             \<and> notReady (wu_events (wc_subs c ! s))
          then Some (setReader (RHandled n) c) else None
      | (RCursor s ev n, VGo) \<Rightarrow>
          if wMuFree c then Some (setReader (RHandled n) (updWsub s (moveCursor ev) c)) else None
      | _ \<Rightarrow> None)"

text \<open>The errors of \<open>handleSubscriptionError\<close> and \<open>handleError\<close>, one subscription after the other.\<close>

definition errorStep :: "rpc \<Rightarrow> wchoice \<Rightarrow> wclient \<Rightarrow> wclient option" where
  "errorStep pc ch c =
     (case (pc, ch) of
        (RError [] e n, VGo) \<Rightarrow> Some (setReader (RHandled n) c)
      | (RError (s # ss) e n, VSend) \<Rightarrow> map_option (setReader (RError ss e n)) (sendSubError s e c)
      | (RError (s # ss) e n, VDone) \<Rightarrow>
          if wu_done (wc_subs c ! s) then Some (setReader (RError ss e n) c) else None
      | (RError (s # ss) e n, VDrop) \<Rightarrow>
          if \<not> wu_done (wc_subs c ! s) \<and> notReady (wu_errors (wc_subs c ! s)) then Some (setReader (RError ss e n) c) else None
      | _ \<Rightarrow> None)"

text \<open>\<open>handleSubscriptionResult\<close>, result by result.\<close>

definition resultStep :: "ws_server \<Rightarrow> rpc \<Rightarrow> wchoice \<Rightarrow> wclient \<Rightarrow> wclient option" where
  "resultStep srv pc ch c =
     (case (pc, ch) of
        (RResults [] n, VGo) \<Rightarrow> Some (setReader (RHandled n) c)
      | (RResults (r # rs) n, VGo) \<Rightarrow> takeResult srv r rs n c
      | (RDeliver k r rs n, VSend) \<Rightarrow>
          if wl_result (wc_calls c ! k) = None
          then Some (setReader (RHandoff k r rs n) (offerResult (resultOf r) (OfCall k) c)) else None
      | (RDeliver k r rs n, VDone) \<Rightarrow>
          if wl_done (wc_calls c ! k) then Some (setReader (RHandoff k r rs n) c) else None
      | (RDeliver k r rs n, VClientDone) \<Rightarrow> if wc_done c then Some (setReader (RHandoff k r rs n) c) else None
      | (RDeliver k r rs n, VDrop) \<Rightarrow>
          if wl_result (wc_calls c ! k) \<noteq> None \<and> \<not> wl_done (wc_calls c ! k) \<and> \<not> wc_done c
          then Some (setReader (RHandoff k r rs n) c) else None
      | (RHandoff k r rs n, VDone) \<Rightarrow> if wl_done (wc_calls c ! k) then Some (setReader (RResults rs n) c) else None
      | (RHandoff k r rs n, VCanceled) \<Rightarrow>
          if wl_canceled (wc_calls c ! k) then Some (setReader (giveBack r (OfCall k) rs n) c) else None
      | (RHandoff k r rs n, VClientDone) \<Rightarrow> if wc_done c then Some (setReader (RResults rs n) c) else None
      | (RUnsub r a rs n, VWrite w) \<Rightarrow>
          map_option (\<lambda>(_, c'). setReader (RComplete r a rs n) c') (wsSendJSON w (HReq (WsUnsubscribe (wr_SubscriptionID r))) c)
      | (RComplete r a rs n, VGo) \<Rightarrow>
          Some (setReader (RResults rs n) (completeSubscribeAttempt (wr_Pattern r) a c))
      | (RRebind s j r rs n, VGo) \<Rightarrow> if wMuFree c then Some (rebindSub s j r rs n c) else None
      | (RTermOnce s j r rs n, VGo) \<Rightarrow>
          (case wu_once (wc_subs c ! s) of
             OnceNot \<Rightarrow> Some (setReader (RComplete r (OfResub j) rs n)
               (closeChans s (updWsub s (\<lambda>u. u \<lparr> wu_done := True, wu_once := OnceEnd \<rparr>) c)))
           | OnceEnd \<Rightarrow> Some (setReader (RComplete r (OfResub j) rs n) (closeChans s c))
           | _ \<Rightarrow> None)
      | _ \<Rightarrow> None)"

text \<open>\<open>readMessages\<close>, with the handlers.\<close>

definition readerStep :: "ws_server \<Rightarrow> bool \<Rightarrow> rpc \<Rightarrow> wchoice \<Rightarrow> wclient \<Rightarrow> wclient option" where
  "readerStep srv autoReconnect pc ch c =
     (case (pc, ch) of
        (RTop, VGo) \<Rightarrow> Some (if wc_done c then c \<lparr> wc_driver := DNone \<rparr> else setReader RConn c)
      | (RConn, VGo) \<Rightarrow>
          if wMuFree c
          then Some (case wc_conn c of None \<Rightarrow> c \<lparr> wc_driver := DNone \<rparr> | Some n \<Rightarrow> setReader (RRead n) c) else None
      | (RRead n, VFrame data) \<Rightarrow> if wn_closed (wc_conns c ! n) then None else handleFrame srv n data c
      | (RRead n, VFails e) \<Rightarrow> Some (setReader (RLost e) c)
      | (RHandled n, VGo) \<Rightarrow>
          Some (if wc_fellBehind c
                then setReader (RLost fellBehindError) (c \<lparr> wc_fellBehind := False,
                       wc_conns := (wc_conns c)[n := (wc_conns c ! n) \<lparr> wn_closed := True \<rparr>] \<rparr>)
                else setReader RTop c)
      | (RLost e, VGo) \<Rightarrow> Some (if wc_done c then c \<lparr> wc_driver := DNone \<rparr> else setReader (RDisc e) c)
      | (RDisc e, VGo) \<Rightarrow>
          if wMuFree c
          then Some (setReader (if autoReconnect \<or> trackedCursor c then RSettle True e else RPending e)
                 (c \<lparr> wc_state := StateDisconnected, wc_conn := None \<rparr>))
          else None
      | (RPending e, VGo) \<Rightarrow> Some (setReader (RSettle (hasPendingCursorSubscription c) e) c)
      | (RSettle auto e, VGo) \<Rightarrow>
          Some (if auto then (discardPendingResubscribeAttempts c) \<lparr> wc_driver := DSched \<rparr>
                else (failPendingSubscribeAttempts (EWrap (''connection lost: '' @ errorText e) [e]) c) \<lparr> wc_driver := DNone \<rparr>)
      | (REvent _ _ _, _) \<Rightarrow> deliverStep pc ch c
      | (RSend _ _ _, _) \<Rightarrow> deliverStep pc ch c
      | (RCursor _ _ _, _) \<Rightarrow> deliverStep pc ch c
      | (RError _ _ _, _) \<Rightarrow> errorStep pc ch c
      | (RResults _ _, _) \<Rightarrow> resultStep srv pc ch c
      | (RDeliver _ _ _ _, _) \<Rightarrow> resultStep srv pc ch c
      | (RHandoff _ _ _ _, _) \<Rightarrow> resultStep srv pc ch c
      | (RUnsub _ _ _ _, _) \<Rightarrow> resultStep srv pc ch c
      | (RComplete _ _ _ _, _) \<Rightarrow> resultStep srv pc ch c
      | (RRebind _ _ _ _ _, _) \<Rightarrow> resultStep srv pc ch c
      | (RTermOnce _ _ _ _ _, _) \<Rightarrow> resultStep srv pc ch c
      | _ \<Rightarrow> None)"

lemmas reader_steps = readerStep_def deliverStep_def errorStep_def resultStep_def

section \<open>Connecting and reconnecting\<close>

definition dialed :: "wclient \<Rightarrow> wclient" where
  "dialed c = c \<lparr> wc_conns := wc_conns c @ [\<lparr> wn_closed = False, wn_hist = [] \<rparr>],
     wc_conn := Some (length (wc_conns c)), wc_state := StateConnected, wc_reconnectAttempt := 0,
     wc_driver := DReader RTop, wc_restores := wc_restores c @ [SvSnap (wc_reconnectAttempt c > 0)] \<rparr>"

definition driverStep :: "ws_server \<Rightarrow> bool \<Rightarrow> wchoice \<Rightarrow> wclient \<Rightarrow> wclient option" where
  "driverStep srv autoReconnect ch c =
     (case (wc_driver c, ch) of
        (DReader pc, _) \<Rightarrow> readerStep srv autoReconnect pc ch c
      | (DConnect user, VGo) \<Rightarrow>
          if wMuFree c
          then Some (if wc_state c = StateConnected then c \<lparr> wc_driver := DNone \<rparr>
                     else c \<lparr> wc_state := StateConnecting, wc_driver := DDial user \<rparr>)
          else None
      | (DDial user, VFails e) \<Rightarrow>
          if wMuFree c
          then Some (c \<lparr> wc_state := StateDisconnected, wc_driver := (if user then DNone else DRetry) \<rparr>) else None
      | (DDial user, VDialed) \<Rightarrow> if wMuFree c then Some (dialed c) else None
      | (DSched, VGo) \<Rightarrow>
          if wMuFree c
          then Some (if wc_state c = StateReconnecting then c \<lparr> wc_driver := DNone \<rparr>
                     else c \<lparr> wc_state := StateReconnecting, wc_reconnectAttempt := wc_reconnectAttempt c + 1,
                            wc_driver := DSleep \<rparr>)
          else None
      | (DSleep, VTimeout) \<Rightarrow> Some (c \<lparr> wc_driver := DConnect False \<rparr>)
      | (DSleep, VClientDone) \<Rightarrow> if wc_done c then Some (c \<lparr> wc_driver := DNone \<rparr>) else None
      | (DRetry, VGo) \<Rightarrow>
          if wMuFree c then Some (c \<lparr> wc_driver := (if autoReconnect \<or> trackedCursor c then DSched else DRetryPend) \<rparr>)
          else None
      | (DRetryPend, VGo) \<Rightarrow> Some (c \<lparr> wc_driver := (if hasPendingCursorSubscription c then DSched else DNone) \<rparr>)
      | _ \<Rightarrow> None)"

section \<open>Restoring the subscriptions\<close>

text \<open>The snapshot of \<open>resubscribeAll\<close>: for every pattern some subscription of that pattern, in any order.\<close>

definition candidates :: "wclient \<Rightarrow> (string \<times> nat) list" where
  "candidates c = concat (map (\<lambda>e. map (\<lambda>x. (fst e, snd x))
     (filter (\<lambda>x. wu_Pattern (wc_subs c ! snd x) = fst e) (wc_subscriptions c))) (wc_subByPattern c))"

definition snapshotOf :: "wclient \<Rightarrow> (string \<times> nat) list \<Rightarrow> bool" where
  "snapshotOf c todo \<longleftrightarrow> distinct (map fst todo) \<and> set todo \<subseteq> set (candidates c)
     \<and> fst ` set (candidates c) \<subseteq> fst ` set todo"

definition afterResub :: "bool \<Rightarrow> wrestore" where
  "afterResub was = (if was then SvPending else SvDone)"

fun initialRequests :: "wclient \<Rightarrow> string \<times> attempt_ref \<Rightarrow> (string \<times> nat) list" where
  "initialRequests c (p, OfCall k) = (if wl_canceled (wc_calls c ! k) then [] else [(p, k)])"
| "initialRequests c (p, OfResub _) = []"

abbreviation setRestore :: "nat \<Rightarrow> wrestore \<Rightarrow> wclient \<Rightarrow> wclient" where
  "setRestore i r c \<equiv> c \<lparr> wc_restores := (wc_restores c)[i := r] \<rparr>"

text \<open>\<open>reportWebSocketSubscriptionError\<close>; \<open>None\<close> when the chosen case is not ready.\<close>

definition reportError :: "wchoice \<Rightarrow> nat \<Rightarrow> goerr \<Rightarrow> wclient \<Rightarrow> wclient option" where
  "reportError ch s e c =
     (let u = wc_subs c ! s; err = \<lparr> er_SubscriptionID = [], er_Code = ''RESUBSCRIBE_FAILED'',
            er_Message = errorText e, er_Retrying = False \<rparr> in
      if \<not> wMuFree c then None
      else if \<not> isCurrent s c then (if ch = VGo then Some c else None)
      else case ch of
             VSend \<Rightarrow> sendSubError s err c
           | VDone \<Rightarrow> if wu_done u then Some c else None
           | VClientDone \<Rightarrow> if wc_done c then Some c else None
           | VDrop \<Rightarrow> if \<not> wu_done u \<and> \<not> wc_done c \<and> notReady (wu_errors u) then Some c else None
           | _ \<Rightarrow> None)"

text \<open>\<open>resendPendingInitialSubscriptions\<close>.\<close>

definition resendStep :: "nat \<Rightarrow> wchoice \<Rightarrow> wclient \<Rightarrow> wclient option" where
  "resendStep i ch c =
     (case (wc_restores c ! i, ch) of
        (SvPending, VGo) \<Rightarrow>
          Some (setRestore i (SvResend (concat (map (initialRequests c) (wc_pending c))))
            (dropPending (\<lambda>a. \<not> isResub a \<and> attemptCanceled c a) c))
      | (SvResend [], VGo) \<Rightarrow> Some (setRestore i SvDone c)
      | (SvResend ((p, k) # todo), VWrite w) \<Rightarrow>
          map_option (\<lambda>(err, c'). setRestore i
              (case err of None \<Rightarrow> SvResend todo
               | Some e \<Rightarrow> SvResult k (EWrap (''failed to resend subscribe request: '' @ errorText e) [e]) todo) c')
            (wsSendJSON w (subscribeEntry p (attemptOptions c k) (OfCall k)) c)
      | (SvResult k e todo, VSend) \<Rightarrow>
          if wl_result (wc_calls c ! k) = None then Some (setRestore i (SvResend todo) (offerResult (Inl e) (OfCall k) c)) else None
      | (SvResult k e todo, VDone) \<Rightarrow> if wl_done (wc_calls c ! k) then Some (setRestore i (SvResend todo) c) else None
      | (SvResult k e todo, VClientDone) \<Rightarrow> if wc_done c then Some (setRestore i (SvResend todo) c) else None
      | (SvResult k e todo, VDrop) \<Rightarrow>
          if wl_result (wc_calls c ! k) \<noteq> None \<and> \<not> wl_done (wc_calls c ! k) \<and> \<not> wc_done c
          then Some (setRestore i (SvResend todo) c) else None
      | _ \<Rightarrow> None)"

text \<open>\<open>resubscribeAll\<close>, and what follows it.\<close>

definition restoreStep :: "nat \<Rightarrow> wchoice \<Rightarrow> wclient \<Rightarrow> wclient option" where
  "restoreStep i ch c =
     (case (wc_restores c ! i, ch) of
        (SvSnap was, VOrder todo) \<Rightarrow>
          if wMuFree c \<and> snapshotOf c todo then Some (setRestore i (SvLoop was todo) c) else None
      | (SvLoop was [], VGo) \<Rightarrow> Some (setRestore i (afterResub was) c)
      | (SvLoop was ((p, s) # todo), VGo) \<Rightarrow>
          Some (if map_of (wc_pending c) p \<noteq> None then setRestore i (SvLoop was todo) c
                else setRestore i (SvOpts was p s (length (wc_resubs c)) todo)
                       (c \<lparr> wc_resubs := wc_resubs c @ [\<lparr> wb_sub = s, wb_done = False \<rparr>],
                            wc_pending := AList.update p (OfResub (length (wc_resubs c))) (wc_pending c) \<rparr>))
      | (SvOpts was p s j todo, VGo) \<Rightarrow>
          if wMuFree c
          then Some (setRestore i (SvWrite was p s j (reconnectSubscribeOptions (wu_options (wc_subs c ! s))) todo) c)
          else None
      | (SvWrite was p s j opts todo, VWrite w) \<Rightarrow>
          map_option (\<lambda>(err, c'). setRestore i
              (case err of None \<Rightarrow> SvLoop was todo | Some e \<Rightarrow> SvReport was p s j e todo) c')
            (wsSendJSON w (subscribeEntry p opts (OfResub j)) c)
      | (SvReport was p s j e todo, _) \<Rightarrow> map_option (setRestore i (SvComplete was p j todo)) (reportError ch s e c)
      | (SvComplete was p j todo, VGo) \<Rightarrow>
          Some (setRestore i (SvLoop was todo) (completeSubscribeAttempt p (OfResub j) c))
      | (SvPending, _) \<Rightarrow> resendStep i ch c
      | (SvResend _, _) \<Rightarrow> resendStep i ch c
      | (SvResult _ _ _, _) \<Rightarrow> resendStep i ch c
      | _ \<Rightarrow> None)"

lemmas restore_steps = restoreStep_def resendStep_def

section \<open>Close\<close>

definition closeStep :: "wclient \<Rightarrow> wclient option" where
  "closeStep c =
     (case wc_close c of
        CsOpen \<Rightarrow> Some (c \<lparr> wc_done := True, wc_close := CsLock \<rparr>)
      | CsLock \<Rightarrow>
          if wMuFree c
          then Some (c \<lparr> wc_conn := None, wc_state := StateDisconnected,
                 wc_close := CsLoop (wc_conn c) (map snd (wc_subscriptions c)) \<rparr>)
          else None
      | CsLoop n (s # ss) \<Rightarrow> if sendMuFree s c then Some (closeChans s (c \<lparr> wc_close := CsLoop n ss \<rparr>)) else None
      | CsLoop n [] \<Rightarrow> Some (c \<lparr> wc_subscriptions := [], wc_subByPattern := [], wc_close := CsPending n \<rparr>)
      | CsPending n \<Rightarrow> Some ((clearPendingSubscribeAttempts c) \<lparr> wc_close := CsConn n \<rparr>)
      | CsConn n \<Rightarrow>
          Some (c \<lparr> wc_close := CsEnd, wc_conns := (case n of None \<Rightarrow> wc_conns c
                 | Some m \<Rightarrow> (wc_conns c)[m := (wc_conns c ! m) \<lparr> wn_closed := True \<rparr>]) \<rparr>)
      | CsEnd \<Rightarrow> None)"

section \<open>The machine\<close>

datatype wact =
    WConnect
  | WDrive wchoice
  | WSubscribe string "subscribe_options option"
  | WsCall nat wchoice
  | WRestore nat wchoice
  | WUnsubscribe nat
  | WRemove nat
  | WUnsubSend nat "goerr option"
  | WAckCall nat ack_type string int "goerr option"
  | WTakeEvent nat
  | WTakeError nat
  | WClose

definition newCall :: "string \<Rightarrow> subscribe_options option \<Rightarrow> wcall" where
  "newCall pattern opts = \<lparr> wl_Pattern = pattern, wl_options = opts, wl_at = WcCheck, wl_result = None,
     wl_done = False, wl_canceled = False, wl_sub = None \<rparr>"

definition wstep :: "ws_server \<Rightarrow> bool \<Rightarrow> wact \<Rightarrow> wclient \<Rightarrow> wclient option" where
  "wstep srv autoReconnect a c =
     (if wc_panicked c then None
      else case a of
        WConnect \<Rightarrow> if wc_driver c = DNone then Some (c \<lparr> wc_driver := DConnect True \<rparr>) else None
      | WDrive ch \<Rightarrow> driverStep srv autoReconnect ch c
      | WSubscribe pattern opts \<Rightarrow> Some (c \<lparr> wc_calls := wc_calls c @ [newCall pattern opts] \<rparr>)
      | WsCall k ch \<Rightarrow> if k < length (wc_calls c) then wcallStep k ch c else None
      | WRestore i ch \<Rightarrow> if i < length (wc_restores c) then restoreStep i ch c else None
      | WUnsubscribe s \<Rightarrow>
          if s < length (wc_subs c) \<and> wu_once (wc_subs c ! s) = OnceNot
          then Some (updWsub s (\<lambda>u. u \<lparr> wu_done := True, wu_once := OnceRemove \<rparr>) c) else None
      | WRemove s \<Rightarrow>
          if s < length (wc_subs c) \<and> wu_once (wc_subs c ! s) = OnceRemove then removeByPattern s c else None
      | WUnsubSend s w \<Rightarrow>
          if s < length (wc_subs c)
          then (case wu_once (wc_subs c ! s) of
                  OnceSend subID \<Rightarrow> map_option (\<lambda>(_, c'). updWsub s (\<lambda>u. u \<lparr> wu_once := OnceEnd \<rparr>) c')
                    (wsSendJSON w (HReq (WsUnsubscribe subID)) c)
                | _ \<Rightarrow> None)
          else None
      | WAckCall s t eventID delay w \<Rightarrow>
          if s < length (wc_subs c)
          then map_option snd (wsSendJSON w (HReq (wsAckRequest t
                 (currentSubscriptionID (wu_Pattern (wc_subs c ! s)) (wu_ID (wc_subs c ! s)) c) eventID delay)) c)
          else None
      | WTakeEvent s \<Rightarrow>
          if s < length (wc_subs c) then Some (updWsub s (\<lambda>u. u \<lparr> wu_events := chanTake (wu_events u) \<rparr>) c) else None
      | WTakeError s \<Rightarrow>
          if s < length (wc_subs c) then Some (updWsub s (\<lambda>u. u \<lparr> wu_errors := chanTake (wu_errors u) \<rparr>) c) else None
      | WClose \<Rightarrow> closeStep c)"

end
