(* ===== verification/Ws_Invariant.thy ===== *)
theory Ws_Invariant
  imports Ws_Subscription
begin

text \<open>
  An invariant of the WebSocket client (\<open>Ws_Subscription\<close>), and that the calls of \<open>Subscribe\<close>, the
  unsubscriptions and the goroutines that restore the subscriptions keep it: what has been put on the channel
  of a subscription with a cursor covers its cursor, the requests on their way start at or before a covered
  cursor, and a subscription that is bound to an id has received what was read for the id. The server is a
  relation on what was exchanged; its law (\<open>cursorWire\<close>) is stated on a view of a connection that pairs
  results with requests as the protocol does, by pattern and in order.
\<close>

section \<open>What a server promises\<close>

text \<open>The requests not answered yet, and the server's subscriptions with the number of events each has sent.\<close>

record wview =
  vw_open :: "(string \<times> subscribe_options option \<times> attempt_ref) list"
  vw_streams :: "string \<rightharpoonup> string \<times> subscribe_options option \<times> attempt_ref \<times> nat"

fun viewStep :: "wview \<Rightarrow> wire_entry \<Rightarrow> wview" where
  "viewStep v (HSub p opts a) = v \<lparr> vw_open := vw_open v @ [(p, opts, a)] \<rparr>"
| "viewStep v (HReq _) = v"
| "viewStep v (HResult r) =
     (case find (\<lambda>x. fst x = wr_Pattern r) (vw_open v) of
        None \<Rightarrow> v
      | Some (p, opts, a) \<Rightarrow> v \<lparr> vw_open := remove1 (p, opts, a) (vw_open v),
          vw_streams := (if wr_Status r = ''ok'' then (vw_streams v)(wr_SubscriptionID r \<mapsto> (p, opts, a, 0)) else vw_streams v) \<rparr>)"
| "viewStep v (HEvent i _) =
     (case vw_streams v i of
        None \<Rightarrow> v
      | Some (p, opts, a, k) \<Rightarrow> v \<lparr> vw_streams := (vw_streams v)(i \<mapsto> (p, opts, a, Suc k)) \<rparr>)"

definition wireView :: "wire_entry list \<Rightarrow> wview" where
  "wireView = foldl viewStep \<lparr> vw_open = [], vw_streams = Map.empty \<rparr>"

lemma wireView_simps [simp]:
  "wireView [] = \<lparr> vw_open = [], vw_streams = Map.empty \<rparr>" "wireView (h @ [e]) = viewStep (wireView h) e"
  by (simp_all add: wireView_def)

definition seqOf :: "subscription_event \<Rightarrow> nat" where
  "seqOf ev = (case se_Meta ev of Some m \<Rightarrow> em_Sequence m | None \<Rightarrow> 0)"

definition after :: "nat \<Rightarrow> subscription_event list \<Rightarrow> subscription_event list" where
  "after n = filter (\<lambda>ev. n < seqOf ev)"

text \<open>What a request selects, apart from where it starts.\<close>

definition selOf :: "subscribe_options option \<Rightarrow> subscribe_options option" where
  "selOf = map_option (\<lambda>opts. opts \<lparr> so_Replay := 0, so_StartAfterSequence := None \<rparr>)"

type_synonym ws_log = "string \<Rightarrow> subscribe_options option \<Rightarrow> subscription_event list"

text \<open>The law: a result answers a request that is open and an accepted one has a new id; the events of a
  subscription that was requested with a cursor are those of the log after the cursor, in order.\<close>

definition cursorWire :: "ws_server \<Rightarrow> ws_log \<Rightarrow> bool" where
  "cursorWire srv lg \<longleftrightarrow>
     (\<forall>p sel. sorted_wrt (\<lambda>a b. seqOf a < seqOf b) (lg p sel))
     \<and> (\<forall>hs r. srv hs (SrvResult r) \<longrightarrow> hs \<noteq> []
          \<and> wr_Pattern r \<in> fst ` set (vw_open (wireView (last hs)))
          \<and> (wr_Status r = ''ok'' \<longrightarrow> (\<forall>h\<in>set hs. vw_streams (wireView h) (wr_SubscriptionID r) = None)))
     \<and> (\<forall>hs i ev. srv hs (SrvEvent i ev) \<longrightarrow> hs \<noteq> []
          \<and> (\<exists>p opts a k. vw_streams (wireView (last hs)) i = Some (p, opts, a, k)
              \<and> (\<forall>n. resumeCursor opts = Some n \<longrightarrow>
                   k < length (after n (lg p (selOf opts))) \<and> ev = after n (lg p (selOf opts)) ! k)))"

section \<open>What a subscription has received\<close>

definition wireOf :: "string \<Rightarrow> subscribe_options option \<Rightarrow> subscribe_options option" where
  "wireOf p opts = wireOptions (newWSSubscribeRequest p opts)"

definition subLog :: "ws_log \<Rightarrow> wsub \<Rightarrow> subscription_event list" where
  "subLog lg u = lg (wu_Pattern u) (selOf (wireOf (wu_Pattern u) (wu_from u)))"

text \<open>Every event of the log after the start and below \<open>b\<close> has been put on the channel.\<close>

definition covers :: "ws_log \<Rightarrow> wsub \<Rightarrow> nat \<Rightarrow> bool" where
  "covers lg u b \<longleftrightarrow> (\<forall>n. \<not> wu_done u \<and> resumeCursor (wu_from u) = Some n \<longrightarrow>
     (\<forall>ev\<in>set (subLog lg u). n < seqOf ev \<and> seqOf ev < b \<longrightarrow> ev \<in> set (chanSent (wu_events u))))"

definition reqOK :: "ws_log \<Rightarrow> wsub \<Rightarrow> string \<Rightarrow> subscribe_options option \<Rightarrow> bool" where
  "reqOK lg u p opts \<longleftrightarrow> wu_Pattern u = p \<and> (\<forall>n. resumeCursor (wu_from u) = Some n \<longrightarrow>
     (\<exists>m. resumeCursor opts = Some m \<and> covers lg u (Suc m)) \<and> selOf opts = selOf (wireOf p (wu_from u)))"

definition cursorOK :: "ws_log \<Rightarrow> wsub \<Rightarrow> bool" where
  "cursorOK lg u \<longleftrightarrow>
     (resumeCursor (wu_from u) = None \<longrightarrow> resumeCursor (wu_options u) = None)
     \<and> (\<forall>n. resumeCursor (wu_from u) = Some n \<longrightarrow>
          (\<exists>opts q r. wu_from u = Some opts \<and> wu_options u = Some (opts \<lparr> so_StartAfterSequence := Some q, so_Replay := r \<rparr>)
             \<and> covers lg u (Suc q))
          \<and> (\<not> wu_done u \<longrightarrow> set (chanSent (wu_events u)) \<subseteq> set (subLog lg u)))"

definition eventReady :: "ws_log \<Rightarrow> wsub \<Rightarrow> subscription_event \<Rightarrow> bool" where
  "eventReady lg u ev \<longleftrightarrow> covers lg u (seqOf ev) \<and> (\<forall>n. \<not> wu_done u \<and> resumeCursor (wu_from u) = Some n \<longrightarrow>
     ev \<in> set (subLog lg u) \<and> 0 < seqOf ev)"

section \<open>Growth\<close>

lemma set_delete: "set (AList.delete k al) \<subseteq> set al"
  by (auto simp: AList.delete_eq)

definition evolves :: "wsub \<Rightarrow> wsub \<Rightarrow> bool" where
  "evolves u u' \<longleftrightarrow> wu_Pattern u' = wu_Pattern u \<and> wu_from u' = wu_from u \<and> (wu_done u \<longrightarrow> wu_done u')
     \<and> set (chanSent (wu_events u)) \<subseteq> set (chanSent (wu_events u'))"

definition subsGrow :: "wsub list \<Rightarrow> wsub list \<Rightarrow> bool" where
  "subsGrow us us' \<longleftrightarrow> length us \<le> length us' \<and> (\<forall>s<length us. evolves (us ! s) (us' ! s))"

lemma evolves_simps [simp]:
  "evolves u u"
  "evolves u (u \<lparr> wu_errors := e \<rparr>)" "evolves u (u \<lparr> wu_once := x \<rparr>)" "evolves u (u \<lparr> wu_done := True \<rparr>)"
  "evolves u (u \<lparr> wu_done := True, wu_once := x \<rparr>)"
  "evolves u (u \<lparr> wu_events := chanTake (wu_events u) \<rparr>)"
  "evolves u (u \<lparr> wu_events := chanPut ev (wu_events u) \<rparr>)"
  "evolves u (u \<lparr> wu_events := chanClose (wu_events u), wu_errors := e \<rparr>)"
  "evolves u (moveCursor ev u)"
  by (auto simp: evolves_def moveCursor_def split: option.splits)

lemma covers_evolves: "covers lg u b \<Longrightarrow> evolves u u' \<Longrightarrow> covers lg u' b"
  by (auto simp: covers_def evolves_def subLog_def)

lemma covers_less: "covers lg u b \<Longrightarrow> b' \<le> b \<Longrightarrow> covers lg u b'"
  by (auto simp: covers_def)

lemma reqOK_evolves: "reqOK lg u p opts \<Longrightarrow> evolves u u' \<Longrightarrow> reqOK lg u' p opts"
  using covers_evolves [of lg u _ u'] by (force simp: reqOK_def evolves_def)

lemma eventReady_evolves: "eventReady lg u ev \<Longrightarrow> evolves u u' \<Longrightarrow> eventReady lg u' ev"
  using covers_evolves [of lg u _ u'] by (auto simp: eventReady_def evolves_def subLog_def)

lemma subsGrow_refl [simp]: "subsGrow us us"
  by (simp add: subsGrow_def)

lemma evolves_trans: "evolves u u' \<Longrightarrow> evolves u' u'' \<Longrightarrow> evolves u u''"
  by (auto simp: evolves_def)

lemma subsGrow_trans: "subsGrow us us' \<Longrightarrow> subsGrow us' us'' \<Longrightarrow> subsGrow us us''"
  unfolding subsGrow_def using evolves_trans by (meson le_trans less_le_trans)

lemma subsGrow_append [simp]: "subsGrow us (us @ vs)"
  by (simp add: subsGrow_def nth_append)

lemma subsGrow_update [simp]: "evolves (us ! s) u \<Longrightarrow> subsGrow us (us[s := u])"
  by (cases "s < length us") (auto simp: subsGrow_def nth_list_update)

lemma subsGrow_nth: "subsGrow us us' \<Longrightarrow> s < length us \<Longrightarrow> evolves (us ! s) (us' ! s) \<and> s < length us'"
  by (simp add: subsGrow_def)

section \<open>The invariant\<close>

text \<open>Calls and attempts keep what identifies them.\<close>

definition callsGrow :: "wcall list \<Rightarrow> wcall list \<Rightarrow> bool" where
  "callsGrow ls ls' \<longleftrightarrow> length ls \<le> length ls' \<and> (\<forall>k<length ls. wl_Pattern (ls' ! k) = wl_Pattern (ls ! k)
     \<and> wl_options (ls' ! k) = wl_options (ls ! k) \<and> (wl_canceled (ls ! k) \<longrightarrow> wl_canceled (ls' ! k)))"

definition resubsGrow :: "wresub list \<Rightarrow> wresub list \<Rightarrow> bool" where
  "resubsGrow js js' \<longleftrightarrow> length js \<le> length js' \<and> (\<forall>j<length js. wb_sub (js' ! j) = wb_sub (js ! j))"

definition curView :: "wconn list \<Rightarrow> wview" where
  "curView ns = wireView (if ns = [] then [] else wn_hist (last ns))"

fun liveReader :: "driver \<Rightarrow> bool" where
  "liveReader (DReader (RLost _)) = False"
| "liveReader (DReader (RDisc _)) = False"
| "liveReader (DReader (RPending _)) = False"
| "liveReader (DReader (RSettle _ _)) = False"
| "liveReader (DReader _) = True"
| "liveReader _ = False"

fun readerConn :: "driver \<Rightarrow> nat option" where
  "readerConn (DReader (RRead n)) = Some n"
| "readerConn (DReader (RHandled n)) = Some n"
| "readerConn (DReader (REvent _ _ n)) = Some n"
| "readerConn (DReader (RSend _ _ n)) = Some n"
| "readerConn (DReader (RCursor _ _ n)) = Some n"
| "readerConn (DReader (RError _ _ n)) = Some n"
| "readerConn (DReader (RResults _ n)) = Some n"
| "readerConn (DReader (RDeliver _ _ _ n)) = Some n"
| "readerConn (DReader (RHandoff _ _ _ n)) = Some n"
| "readerConn (DReader (RUnsub _ _ _ n)) = Some n"
| "readerConn (DReader (RRebind _ _ _ _ n)) = Some n"
| "readerConn (DReader (RTermOnce _ _ _ _ n)) = Some n"
| "readerConn (DReader (RComplete _ _ _ n)) = Some n"
| "readerConn _ = None"

fun handling :: "driver \<Rightarrow> nat \<Rightarrow> subscription_event set" where
  "handling (DReader (REvent s ev _)) t = (if s = t then {ev} else {})"
| "handling (DReader (RSend s ev _)) t = (if s = t then {ev} else {})"
| "handling _ t = {}"

text \<open>The flag of a lost event is set only until the reader looks at it.\<close>

fun fellOK :: "driver \<Rightarrow> bool" where
  "fellOK (DReader (RHandled _)) = True"
| "fellOK _ = False"

text \<open>What the reader knows at each point.\<close>

fun acceptedFor :: "(string \<rightharpoonup> string \<times> subscribe_options option \<times> attempt_ref \<times> nat) \<Rightarrow> ws_result \<Rightarrow> attempt_ref
    \<Rightarrow> (subscribe_options option \<Rightarrow> bool) \<Rightarrow> bool" where
  "acceptedFor v r a P = (wr_Status r = ''ok'' \<longrightarrow> (\<exists>opts. v (wr_SubscriptionID r) = Some (wr_Pattern r, opts, a, 0) \<and> P opts))"

fun readerInv :: "ws_log \<Rightarrow> wview \<Rightarrow> wsub list \<Rightarrow> wcall list \<Rightarrow> wresub list \<Rightarrow> driver \<Rightarrow> bool" where
  "readerInv lg v us ls js (DReader (REvent s ev n)) = (s < length us \<and> eventReady lg (us ! s) ev)"
| "readerInv lg v us ls js (DReader (RSend s ev n)) = (s < length us \<and> eventReady lg (us ! s) ev)"
| "readerInv lg v us ls js (DReader (RCursor s ev n)) = (s < length us \<and> covers lg (us ! s) (Suc (seqOf ev)))"
| "readerInv lg v us ls js (DReader (RDeliver k r rs n)) = (k < length ls \<and>
     acceptedFor (vw_streams v) r (OfCall k) (\<lambda>opts. opts = wireOf (wr_Pattern r) (wl_options (ls ! k)) \<and> wl_Pattern (ls ! k) = wr_Pattern r))"
| "readerInv lg v us ls js (DReader (RHandoff k r rs n)) = (k < length ls \<and>
     acceptedFor (vw_streams v) r (OfCall k) (\<lambda>opts. opts = wireOf (wr_Pattern r) (wl_options (ls ! k)) \<and> wl_Pattern (ls ! k) = wr_Pattern r))"
| "readerInv lg v us ls js (DReader (RUnsub r a rs n)) = (\<forall>k. a = OfCall k \<longrightarrow> k < length ls \<and> wl_canceled (ls ! k))"
| "readerInv lg v us ls js (DReader (RComplete r a rs n)) = (\<forall>k. a = OfCall k \<longrightarrow> k < length ls \<and> wl_canceled (ls ! k))"
| "readerInv lg v us ls js (DReader (RRebind s j r rs n)) = (s < length us \<and> acceptedFor (vw_streams v) r (OfResub j) (reqOK lg (us ! s) (wr_Pattern r)))"
| "readerInv lg v us ls js (DReader (RTermOnce s j r rs n)) = (s < length us)"
| "readerInv lg v us ls js _ = True"

definition boundInv :: "ws_log \<Rightarrow> wview \<Rightarrow> (string \<times> nat) list \<Rightarrow> wsub list \<Rightarrow> (nat \<Rightarrow> subscription_event set) \<Rightarrow> bool" where
  "boundInv lg v ids us held \<longleftrightarrow>
     (\<forall>i s p opts a k. map_of ids i = Some s \<and> vw_streams v i = Some (p, opts, a, k) \<longrightarrow>
        s < length us \<and> reqOK lg (us ! s) p opts
        \<and> (\<forall>n m. \<not> wu_done (us ! s) \<and> resumeCursor (wu_from (us ! s)) = Some n \<and> resumeCursor opts = Some m \<longrightarrow>
             set (take k (after m (subLog lg (us ! s)))) \<subseteq> set (chanSent (wu_events (us ! s))) \<union> held s))"

fun reqOf :: "ws_log \<Rightarrow> wsub list \<Rightarrow> wcall list \<Rightarrow> wresub list \<Rightarrow> string \<times> subscribe_options option \<times> attempt_ref \<Rightarrow> bool" where
  "reqOf lg us ls js (p, opts, OfCall k) = (k < length ls \<and> wl_Pattern (ls ! k) = p \<and> opts = wireOf p (wl_options (ls ! k)))"
| "reqOf lg us ls js (p, opts, OfResub j) = (j < length js \<and> wb_sub (js ! j) < length us \<and> reqOK lg (us ! wb_sub (js ! j)) p opts)"

fun finished :: "wcall_at \<Rightarrow> bool" where
  "finished (WcComplete _) = True"
| "finished (WcCancel _) = True"
| "finished (WcReturned _) = True"
| "finished _ = False"

text \<open>A call whose accepted id is on its way: the reader waits for it.\<close>

definition handed :: "wcall \<Rightarrow> string \<Rightarrow> bool" where
  "handed l i \<longleftrightarrow> wl_result l = Some (Inr i) \<and> \<not> finished (wl_at l) \<or> wl_at l = WcInstall i"

fun handsOver :: "driver \<Rightarrow> nat \<Rightarrow> string \<Rightarrow> bool" where
  "handsOver (DReader (RHandoff k r rs n)) k' i = (k = k' \<and> i = wr_SubscriptionID r \<and> wr_Status r = ''ok'')"
| "handsOver _ k' i = False"

definition callsInv :: "wcall list \<Rightarrow> driver \<Rightarrow> bool" where
  "callsInv ls d \<longleftrightarrow> (\<forall>k<length ls. (wl_canceled (ls ! k) \<or> wl_done (ls ! k) \<longrightarrow> finished (wl_at (ls ! k)))
     \<and> (\<forall>i. handed (ls ! k) i \<longrightarrow> handsOver d k i))"

fun pendingOK :: "wsub list \<Rightarrow> wcall list \<Rightarrow> wresub list \<Rightarrow> string \<times> attempt_ref \<Rightarrow> bool" where
  "pendingOK us ls js (p, OfCall k) = (k < length ls \<and> wl_Pattern (ls ! k) = p)"
| "pendingOK us ls js (p, OfResub j) = (j < length js)"

definition todoOK :: "wsub list \<Rightarrow> (string \<times> nat) list \<Rightarrow> bool" where
  "todoOK us todo \<longleftrightarrow> (\<forall>(p, s)\<in>set todo. s < length us \<and> wu_Pattern (us ! s) = p)"

definition resendOK :: "wcall list \<Rightarrow> (string \<times> nat) list \<Rightarrow> bool" where
  "resendOK ls todo \<longleftrightarrow> (\<forall>(p, k)\<in>set todo. k < length ls \<and> wl_Pattern (ls ! k) = p)"

fun restoreOK :: "ws_log \<Rightarrow> wsub list \<Rightarrow> wcall list \<Rightarrow> wresub list \<Rightarrow> wrestore \<Rightarrow> bool" where
  "restoreOK lg us ls js (SvLoop was todo) = todoOK us todo"
| "restoreOK lg us ls js (SvOpts was p s j todo) =
     (todoOK us todo \<and> s < length us \<and> wu_Pattern (us ! s) = p \<and> j < length js \<and> wb_sub (js ! j) = s)"
| "restoreOK lg us ls js (SvWrite was p s j opts todo) =
     (todoOK us todo \<and> s < length us \<and> j < length js \<and> wb_sub (js ! j) = s
      \<and> reqOK lg (us ! s) p (wireOf p opts))"
| "restoreOK lg us ls js (SvReport was p s j e todo) = (todoOK us todo \<and> j < length js)"
| "restoreOK lg us ls js (SvComplete was p j todo) = (todoOK us todo \<and> j < length js)"
| "restoreOK lg us ls js (SvResend todo) = resendOK ls todo"
| "restoreOK lg us ls js (SvResult k e todo) = resendOK ls todo"
| "restoreOK lg us ls js _ = True"

definition linkInv :: "nat option \<Rightarrow> wconn list \<Rightarrow> driver \<Rightarrow> bool" where
  "linkInv conn ns d \<longleftrightarrow> (\<forall>n. conn = Some n \<longrightarrow> ns \<noteq> [] \<and> n = length ns - 1)
     \<and> (liveReader d \<longrightarrow> conn \<noteq> None) \<and> (\<forall>n. readerConn d = Some n \<longrightarrow> ns \<noteq> [] \<and> n = length ns - 1)"

definition freshInv :: "(string \<times> nat) list \<Rightarrow> wconn list \<Rightarrow> wsub list \<Rightarrow> bool" where
  "freshInv ids ns us \<longleftrightarrow> (\<forall>i s. (i, s) \<in> set ids \<longrightarrow> s < length us \<and> (\<exists>n\<in>set ns. vw_streams (wireView (wn_hist n)) i \<noteq> None))"

definition wInv :: "ws_log \<Rightarrow> wclient \<Rightarrow> bool" where
  "wInv lg c \<longleftrightarrow> wc_done c \<or>
     linkInv (wc_conn c) (wc_conns c) (wc_driver c)
     \<and> freshInv (wc_subscriptions c) (wc_conns c) (wc_subs c)
     \<and> (\<forall>s<length (wc_subs c). cursorOK lg (wc_subs c ! s))
     \<and> (\<forall>j<length (wc_resubs c). wb_sub (wc_resubs c ! j) < length (wc_subs c))
     \<and> (\<forall>e\<in>set (wc_pending c). pendingOK (wc_subs c) (wc_calls c) (wc_resubs c) e)
     \<and> (\<forall>x\<in>set (wc_restores c). restoreOK lg (wc_subs c) (wc_calls c) (wc_resubs c) x)
     \<and> callsInv (wc_calls c) (wc_driver c)
     \<and> readerInv lg (curView (wc_conns c)) (wc_subs c) (wc_calls c) (wc_resubs c) (wc_driver c)
     \<and> (wc_conn c \<noteq> None \<longrightarrow> (\<forall>x\<in>set (vw_open (curView (wc_conns c))). reqOf lg (wc_subs c) (wc_calls c) (wc_resubs c) x))
     \<and> (liveReader (wc_driver c) \<and> \<not> wc_fellBehind c \<longrightarrow>
          boundInv lg (curView (wc_conns c)) (wc_subscriptions c) (wc_subs c) (handling (wc_driver c)))
     \<and> (wc_fellBehind c \<longrightarrow> fellOK (wc_driver c))"

text \<open>The runs considered: a request that is open on the connection is that of the pattern's pending attempt,
  whose \<open>Subscribe\<close> has not returned.\<close>

definition inSync :: "wclient \<Rightarrow> bool" where
  "inSync c \<longleftrightarrow> wc_conn c = None \<or> (\<forall>(p, opts, a)\<in>set (vw_open (curView (wc_conns c))).
     map_of (wc_pending c) p = Some a \<and> (case a of OfCall k \<Rightarrow> wl_sub (wc_calls c ! k) = None | OfResub _ \<Rightarrow> True))"

definition syncStep :: "ws_server \<Rightarrow> bool \<Rightarrow> wact \<Rightarrow> wclient \<Rightarrow> wclient option" where
  "syncStep srv auto a c = (case wstep srv auto a c of None \<Rightarrow> None | Some c' \<Rightarrow> if inSync c' then Some c' else None)"

section \<open>Frames\<close>

lemma grow_refl [simp]: "callsGrow ls ls" "resubsGrow js js" "callsGrow ls (ls @ ls')" "resubsGrow js (js @ js')"
  by (simp_all add: callsGrow_def resubsGrow_def nth_append)

lemma callsGrow_update [simp]:
  "wl_Pattern l = wl_Pattern (ls ! k) \<Longrightarrow> wl_options l = wl_options (ls ! k) \<Longrightarrow> (wl_canceled (ls ! k) \<longrightarrow> wl_canceled l)
     \<Longrightarrow> callsGrow ls (ls[k := l])"
  by (cases "k < length ls") (auto simp: callsGrow_def nth_list_update)

lemma resubsGrow_update [simp]: "wb_sub b = wb_sub (js ! j) \<Longrightarrow> resubsGrow js (js[j := b])"
  by (cases "j < length js") (auto simp: resubsGrow_def nth_list_update)

lemma callsGrow_trans: "callsGrow ls ls' \<Longrightarrow> callsGrow ls' ls'' \<Longrightarrow> callsGrow ls ls''"
  by (auto simp: callsGrow_def)

lemma resubsGrow_trans: "resubsGrow ls ls' \<Longrightarrow> resubsGrow ls' ls'' \<Longrightarrow> resubsGrow ls ls''"
  by (auto simp: resubsGrow_def)

lemma pendingOK_grow:
  "pendingOK us ls js e \<Longrightarrow> callsGrow ls ls' \<Longrightarrow> resubsGrow js js' \<Longrightarrow> pendingOK us' ls' js' e"
  by (cases "(us, ls, js, e)" rule: pendingOK.cases) (auto simp: callsGrow_def resubsGrow_def)

lemma reqOf_grow:
  "reqOf lg us ls js e \<Longrightarrow> subsGrow us us' \<Longrightarrow> callsGrow ls ls' \<Longrightarrow> resubsGrow js js' \<Longrightarrow> reqOf lg us' ls' js' e"
  by (cases "(lg, us, ls, js, e)" rule: reqOf.cases)
     (auto simp: callsGrow_def resubsGrow_def dest: subsGrow_nth intro: reqOK_evolves)

lemma todo_grow:
  "todoOK us todo \<Longrightarrow> subsGrow us us' \<Longrightarrow> todoOK us' todo"
  "resendOK ls todo \<Longrightarrow> callsGrow ls ls' \<Longrightarrow> resendOK ls' todo"
  by (auto simp: todoOK_def resendOK_def subsGrow_def evolves_def callsGrow_def)

lemma restoreOK_grow:
  assumes "restoreOK lg us ls js x" "subsGrow us us'" "callsGrow ls ls'" "resubsGrow js js'"
  shows "restoreOK lg us' ls' js' x"
proof -
  have s: "s < length us \<Longrightarrow> evolves (us ! s) (us' ! s) \<and> s < length us' \<and> wu_Pattern (us' ! s) = wu_Pattern (us ! s)" for s
    using assms(2) by (simp add: subsGrow_def evolves_def)
  have j: "j < length js \<Longrightarrow> j < length js' \<and> wb_sub (js' ! j) = wb_sub (js ! j)" for j
    using assms(4) by (simp add: resubsGrow_def)
  show ?thesis using assms(1) todo_grow(1) [OF _ assms(2)] todo_grow(2) [OF _ assms(3)] s j reqOK_evolves
    by (cases x) (simp_all, blast)
qed

lemma readerInv_grow:
  assumes "readerInv lg v us ls js d" "subsGrow us us'" "callsGrow ls ls'" "resubsGrow js js'"
  shows "readerInv lg v us' ls' js' d"
proof -
  have s: "s < length us \<Longrightarrow> evolves (us ! s) (us' ! s) \<and> s < length us'" for s
    using assms(2) by (simp add: subsGrow_def)
  have k: "k < length ls \<Longrightarrow> k < length ls' \<and> wl_Pattern (ls' ! k) = wl_Pattern (ls ! k) \<and> wl_options (ls' ! k) = wl_options (ls ! k)
     \<and> (wl_canceled (ls ! k) \<longrightarrow> wl_canceled (ls' ! k))" for k
    using assms(3) by (simp add: callsGrow_def)
  show ?thesis
  proof (cases d)
    case (DReader pc)
    then show ?thesis using assms(1) s k eventReady_evolves covers_evolves reqOK_evolves
      by (cases pc) (simp_all, blast+)
  qed (use assms in simp_all)
qed

lemma boundInv_grow:
  assumes "boundInv lg v ids us held" "subsGrow us us'" "map_of ids' \<subseteq>\<^sub>m map_of ids" "\<And>s. held s \<subseteq> held' s"
  shows "boundInv lg v ids' us' held'"
  unfolding boundInv_def
proof (intro allI impI)
  fix i s p opts a k
  assume b: "map_of ids' i = Some s \<and> vw_streams v i = Some (p, opts, a, k)"
  then have old: "map_of ids i = Some s" using assms(3) by (force simp: map_le_def)
  then have o: "s < length us" "reqOK lg (us ! s) p opts"
    "\<And>n m. \<not> wu_done (us ! s) \<Longrightarrow> resumeCursor (wu_from (us ! s)) = Some n \<Longrightarrow> resumeCursor opts = Some m \<Longrightarrow>
       set (take k (after m (subLog lg (us ! s)))) \<subseteq> set (chanSent (wu_events (us ! s))) \<union> held s"
    using assms(1) b unfolding boundInv_def by blast+
  have e: "evolves (us ! s) (us' ! s)" "s < length us'" using subsGrow_nth [OF assms(2) o(1)] by auto
  then have "subLog lg (us' ! s) = subLog lg (us ! s)" by (simp add: evolves_def subLog_def)
  then show "s < length us' \<and> reqOK lg (us' ! s) p opts
        \<and> (\<forall>n m. \<not> wu_done (us' ! s) \<and> resumeCursor (wu_from (us' ! s)) = Some n \<and> resumeCursor opts = Some m \<longrightarrow>
             set (take k (after m (subLog lg (us' ! s)))) \<subseteq> set (chanSent (wu_events (us' ! s))) \<union> held' s)"
    using e o(2) reqOK_evolves o(3) assms(4) [of s] by (fastforce simp: evolves_def)
qed

lemma freshInv_mono:
  assumes "freshInv ids ns us" "set ids' \<subseteq> set ids" "length us \<le> length us'"
  shows "freshInv ids' ns us'"
  using assms unfolding freshInv_def by (meson less_le_trans subsetD)

text \<open>A step that leaves the connections and the reader alone.\<close>

lemma wInv_frame:
  assumes "wInv lg c" "wc_conn c' = wc_conn c" "wc_conns c' = wc_conns c" "wc_driver c' = wc_driver c"
    and "wc_fellBehind c' = wc_fellBehind c" "wc_done c \<Longrightarrow> wc_done c'"
    and "subsGrow (wc_subs c) (wc_subs c')" "callsGrow (wc_calls c) (wc_calls c')" "resubsGrow (wc_resubs c) (wc_resubs c')"
    and "set (wc_subscriptions c') \<subseteq> set (wc_subscriptions c)" "map_of (wc_subscriptions c') \<subseteq>\<^sub>m map_of (wc_subscriptions c)"
    and "\<not> wc_done c \<Longrightarrow> \<forall>e\<in>set (wc_pending c'). e \<in> set (wc_pending c) \<or> pendingOK (wc_subs c') (wc_calls c') (wc_resubs c') e"
    and "\<not> wc_done c \<Longrightarrow> \<forall>x\<in>set (wc_restores c'). x \<in> set (wc_restores c) \<or> restoreOK lg (wc_subs c') (wc_calls c') (wc_resubs c') x"
    and "\<not> wc_done c \<Longrightarrow> \<forall>s<length (wc_subs c'). cursorOK lg (wc_subs c' ! s)"
    and "\<not> wc_done c \<Longrightarrow> \<forall>j<length (wc_resubs c'). wb_sub (wc_resubs c' ! j) < length (wc_subs c')"
    and "\<not> wc_done c \<Longrightarrow> callsInv (wc_calls c') (wc_driver c)"
  shows "wInv lg c'"
proof (cases "wc_done c")
  case True
  then show ?thesis using assms(6) by (simp add: wInv_def)
next
  case False
  note inv = assms(1) [unfolded wInv_def]
  have "length (wc_subs c) \<le> length (wc_subs c')" using assms(7) by (simp add: subsGrow_def)
  then have f: "freshInv (wc_subscriptions c') (wc_conns c) (wc_subs c')"
    using inv False freshInv_mono assms(10) by blast
  show ?thesis
    unfolding wInv_def assms(2-5)
    using inv False f pendingOK_grow [OF _ assms(8,9)] restoreOK_grow [OF _ assms(7-9)] readerInv_grow [OF _ assms(7-9)]
      reqOf_grow [OF _ assms(7-9)] boundInv_grow [OF _ assms(7,11) order_refl] assms(12-16) [OF False]
    by (intro disjI2) blast
qed

text \<open>Operations on the attempts close \<open>done\<close> of calls that have finished, and offer errors.\<close>

definition callsQuiet :: "wcall list \<Rightarrow> wcall list \<Rightarrow> bool" where
  "callsQuiet ls ls' \<longleftrightarrow> length ls' = length ls \<and> (\<forall>k<length ls. wl_Pattern (ls' ! k) = wl_Pattern (ls ! k)
     \<and> wl_options (ls' ! k) = wl_options (ls ! k) \<and> wl_at (ls' ! k) = wl_at (ls ! k) \<and> wl_canceled (ls' ! k) = wl_canceled (ls ! k)
     \<and> (wl_done (ls' ! k) \<longrightarrow> wl_done (ls ! k) \<or> finished (wl_at (ls ! k)))
     \<and> (\<forall>i. wl_result (ls' ! k) = Some (Inr i) \<longrightarrow> wl_result (ls ! k) = Some (Inr i)))"

lemma callsQuiet_refl [simp]: "callsQuiet ls ls" by (simp add: callsQuiet_def)

lemma callsQuiet_trans: "callsQuiet ls ls' \<Longrightarrow> callsQuiet ls' ls'' \<Longrightarrow> callsQuiet ls ls''"
  by (auto simp: callsQuiet_def)

lemma callsQuiet_grow: "callsQuiet ls ls' \<Longrightarrow> callsGrow ls ls'"
  by (simp add: callsQuiet_def callsGrow_def)

lemma callsQuiet_inv: "callsQuiet ls ls' \<Longrightarrow> callsInv ls d \<Longrightarrow> callsInv ls' d"
  by (auto simp: callsQuiet_def callsInv_def handed_def)

definition sameRest :: "wclient \<Rightarrow> wclient \<Rightarrow> bool" where
  "sameRest c c' \<longleftrightarrow> wc_conn c' = wc_conn c \<and> wc_conns c' = wc_conns c \<and> wc_driver c' = wc_driver c
     \<and> wc_fellBehind c' = wc_fellBehind c \<and> wc_done c' = wc_done c \<and> wc_subs c' = wc_subs c
     \<and> wc_subscriptions c' = wc_subscriptions c \<and> wc_restores c' = wc_restores c
     \<and> set (wc_pending c') \<subseteq> set (wc_pending c)
     \<and> callsQuiet (wc_calls c) (wc_calls c') \<and> resubsGrow (wc_resubs c) (wc_resubs c')
     \<and> length (wc_resubs c') = length (wc_resubs c)"

lemma sameRest_refl: "sameRest c c" by (simp add: sameRest_def)

lemma sameRest_trans: "sameRest c c' \<Longrightarrow> sameRest c' c'' \<Longrightarrow> sameRest c c''"
  unfolding sameRest_def by (simp, metis callsQuiet_trans resubsGrow_trans subset_trans)

definition isFinished :: "wclient \<Rightarrow> attempt_ref \<Rightarrow> bool" where
  "isFinished c a \<longleftrightarrow> (\<forall>k. a = OfCall k \<longrightarrow> k < length (wc_calls c) \<longrightarrow> finished (wl_at (wc_calls c ! k)))"

lemma markDone_rest: "isFinished c a \<Longrightarrow> sameRest c (markDone a c)"
  by (cases a) (auto simp: sameRest_def updCall_def callsQuiet_def nth_upd isFinished_def)

lemma sameRest_finished: "sameRest c c' \<Longrightarrow> isFinished c a \<Longrightarrow> isFinished c' a"
  by (auto simp: sameRest_def isFinished_def callsQuiet_def)

lemma fold_markDone_rest: "\<forall>a\<in>set as. isFinished c a \<Longrightarrow> sameRest c (fold markDone as c)"
proof (induction as arbitrary: c)
  case (Cons a as)
  then have s: "sameRest c (markDone a c)" using markDone_rest by simp
  then have "\<forall>a'\<in>set as. isFinished (markDone a c) a'" using Cons.prems sameRest_finished by simp
  with s show ?case using Cons.IH sameRest_trans by simp
qed (simp add: sameRest_refl)

lemma dropPending_rest:
  assumes "\<forall>e\<in>set (wc_pending c). P (snd e) \<longrightarrow> isFinished c (snd e)"
  shows "sameRest c (dropPending P c)"
proof -
  let ?c = "c \<lparr> wc_pending := filter (\<lambda>e. \<not> P (snd e)) (wc_pending c) \<rparr>"
  have c: "sameRest c ?c" by (simp add: sameRest_def)
  have "sameRest ?c (fold markDone (filter P (map snd (wc_pending c))) ?c)"
    by (rule fold_markDone_rest) (use assms sameRest_finished [OF c] in auto)
  with c show ?thesis unfolding dropPending_def by (rule sameRest_trans)
qed

lemma offerResult_rest: "sameRest c (offerResult (Inl e) a c)"
  by (cases a) (auto simp: sameRest_def updCall_def callsQuiet_def nth_upd)

lemma fold_offer_rest: "sameRest c (fold (offerResult (Inl e)) as c)"
proof (induction as arbitrary: c)
  case (Cons a as)
  then show ?case using sameRest_trans [OF offerResult_rest Cons.IH, of c e a] by simp
qed (simp add: sameRest_refl)

lemma canceled_finished: "callsInv (wc_calls c) d \<Longrightarrow> attemptCanceled c a \<or> isResub a \<Longrightarrow> isFinished c a"
  by (cases a) (auto simp: isFinished_def callsInv_def)

lemma discard_rest: "callsInv (wc_calls c) d \<Longrightarrow> sameRest c (discardPendingResubscribeAttempts c)"
  unfolding discardPendingResubscribeAttempts_def using canceled_finished by (intro dropPending_rest) blast

lemma fail_rest: "callsInv (wc_calls c) d \<Longrightarrow> sameRest c (failPendingSubscribeAttempts e c)"
  unfolding failPendingSubscribeAttempts_def Let_def using sameRest_trans [OF discard_rest fold_offer_rest] by blast

lemma complete_rest: "isFinished c a \<Longrightarrow> sameRest c (completeSubscribeAttempt p a c)"
proof -
  let ?c = "c \<lparr> wc_pending := AList.delete p (wc_pending c) \<rparr>"
  assume f: "isFinished c a"
  have "sameRest c ?c" using set_delete by (simp add: sameRest_def)
  moreover from this have "sameRest ?c (markDone a ?c)" using f markDone_rest sameRest_finished by blast
  ultimately have "sameRest c (markDone a ?c)" by (rule sameRest_trans)
  then show ?thesis unfolding completeSubscribeAttempt_def by (simp add: sameRest_refl)
qed

text \<open>What follows for the invariant.\<close>

lemma wInv_rest:
  assumes "wInv lg c" "sameRest c c'"
  shows "wInv lg c'"
proof -
  note s = assms(2) [unfolded sameRest_def]
  then have fields: "wc_conn c' = wc_conn c" "wc_conns c' = wc_conns c" "wc_driver c' = wc_driver c"
      "wc_fellBehind c' = wc_fellBehind c" "wc_done c' = wc_done c" "wc_subs c' = wc_subs c"
      "wc_subscriptions c' = wc_subscriptions c" "wc_restores c' = wc_restores c"
      "resubsGrow (wc_resubs c) (wc_resubs c')" "length (wc_resubs c') = length (wc_resubs c)" and q: "callsQuiet (wc_calls c) (wc_calls c')"
      and p: "set (wc_pending c') \<subseteq> set (wc_pending c)"
    by simp_all
  have inv: "\<not> wc_done c \<Longrightarrow> (\<forall>s<length (wc_subs c). cursorOK lg (wc_subs c ! s))"
      "\<not> wc_done c \<Longrightarrow> (\<forall>j<length (wc_resubs c). wb_sub (wc_resubs c ! j) < length (wc_subs c))"
      "\<not> wc_done c \<Longrightarrow> callsInv (wc_calls c) (wc_driver c)"
    using assms(1) by (simp_all add: wInv_def)
  show ?thesis
    by (rule wInv_frame [OF assms(1)])
       (use fields inv callsQuiet_grow [OF q] callsQuiet_inv [OF q] p in \<open>auto simp: resubsGrow_def\<close>)
qed

section \<open>Calls\<close>

lemma curView_append:
  "ns \<noteq> [] \<Longrightarrow> n = length ns - 1 \<Longrightarrow> curView (ns[n := (ns ! n) \<lparr> wn_hist := wn_hist (ns ! n) @ [e] \<rparr>]) = viewStep (curView ns) e"
  by (auto simp: curView_def last_list_update last_conv_nth)

lemma viewStep_streams: "vw_streams v i \<noteq> None \<Longrightarrow> vw_streams (viewStep v e) i \<noteq> None"
  by (cases e) (auto split: option.splits)

lemma freshInv_append:
  assumes "freshInv ids ns us"
  shows "freshInv ids (ns[n := (ns ! n) \<lparr> wn_hist := wn_hist (ns ! n) @ [e] \<rparr>]) us"
  unfolding freshInv_def
proof (intro allI impI)
  fix i s assume "(i, s) \<in> set ids"
  then obtain x where x: "x \<in> set ns" "vw_streams (wireView (wn_hist x)) i \<noteq> None" "s < length us"
    using assms unfolding freshInv_def by blast
  obtain k where k: "k < length ns" "ns ! k = x" using x(1) by (auto simp: in_set_conv_nth)
  let ?ns = "ns[n := (ns ! n) \<lparr> wn_hist := wn_hist (ns ! n) @ [e] \<rparr>]"
  have "vw_streams (wireView (wn_hist (?ns ! k))) i \<noteq> None"
    using x(2) k viewStep_streams [OF x(2), of e] by (auto simp: nth_upd simp del: not_None_eq)
  moreover have "?ns ! k \<in> set ?ns" using k(1) by (metis length_list_update nth_mem)
  ultimately show "s < length us \<and> (\<exists>n\<in>set ?ns. vw_streams (wireView (wn_hist n)) i \<noteq> None)" using x(3) by blast
qed

text \<open>A write adds at most a request to the connection.\<close>

lemma wInv_send:
  assumes inv: "wInv lg c" and send: "wsSendJSON w e c = Some (err, c')"
    and e: "(\<exists>q. e = HReq q) \<or> (\<exists>x. e = HSub (fst x) (fst (snd x)) (snd (snd x))
        \<and> (wc_done c \<or> reqOf lg (wc_subs c) (wc_calls c) (wc_resubs c) x))"
  shows "wInv lg c'"
proof (cases "wc_done c \<or> c' = c")
  case True
  moreover have "wc_done c' = wc_done c"
    using send by (auto simp: wsSendJSON_def appendWire_def split: if_splits option.splits)
  ultimately show ?thesis using inv by (auto simp: wInv_def)
next
  case False
  then obtain n where n: "wc_conn c = Some n" "c' = appendWire n e c"
    using send by (auto simp: wsSendJSON_def split: if_splits option.splits)
  then have l: "wc_conns c \<noteq> []" "n = length (wc_conns c) - 1"
    using inv False by (auto simp: wInv_def linkInv_def)
  have v: "curView (wc_conns c') = viewStep (curView (wc_conns c)) e"
    using curView_append [OF l] n(2) by (simp add: appendWire_def)
  have st: "vw_streams (viewStep (curView (wc_conns c)) e) = vw_streams (curView (wc_conns c))"
    using e by auto
  have op: "set (vw_open (viewStep (curView (wc_conns c)) e)) \<subseteq> set (vw_open (curView (wc_conns c))) \<union>
      {x. reqOf lg (wc_subs c) (wc_calls c) (wc_resubs c) x}"
    using e False by auto
  have b: "boundInv lg (viewStep (curView (wc_conns c)) e) ids us held = boundInv lg (curView (wc_conns c)) ids us held" for ids us held
    by (simp add: boundInv_def st)
  have r: "readerInv lg (viewStep (curView (wc_conns c)) e) us ls js d = readerInv lg (curView (wc_conns c)) us ls js d" for us ls js d
    by (cases "(lg, curView (wc_conns c), us, ls, js, d)" rule: readerInv.cases) (simp_all add: st)
  have f: "freshInv (wc_subscriptions c) (wc_conns c') (wc_subs c)"
    using inv False freshInv_append n(2) by (simp add: wInv_def appendWire_def)
  have same: "wc_conn c' = wc_conn c" "length (wc_conns c') = length (wc_conns c)" "wc_driver c' = wc_driver c"
    "wc_subscriptions c' = wc_subscriptions c" "wc_subs c' = wc_subs c" "wc_resubs c' = wc_resubs c" "wc_pending c' = wc_pending c"
    "wc_calls c' = wc_calls c" "wc_restores c' = wc_restores c" "wc_fellBehind c' = wc_fellBehind c"
    using n(2) by (simp_all add: appendWire_def)
  have lk: "linkInv (wc_conn c) (wc_conns c') (wc_driver c)"
    using inv False same(2) l(1) by (auto simp: wInv_def linkInv_def)
  note old = inv [unfolded wInv_def]
  show ?thesis
    unfolding wInv_def v same
    using old False f lk op b r by (intro disjI2) auto
qed

lemma set_update: "set (AList.update k v al) \<subseteq> insert (k, v) (set al)"
  by (induction al) auto

lemma set_updateD: "(i, s) \<in> set (AList.update k v al) \<Longrightarrow> i = k \<and> s = v \<or> (i, s) \<in> set al"
  using set_update by fast

text \<open>Steps of a call that only move it.\<close>

lemma callsInv_move:
  assumes "callsInv ls d" "k < length ls \<Longrightarrow> \<not> finished (wl_at (ls ! k)) \<or> finished p" "\<And>i. p \<noteq> WcInstall i"
  shows "callsInv (ls[k := (ls ! k) \<lparr> wl_at := p \<rparr>]) d"
  using assms by (auto simp: callsInv_def nth_upd handed_def)

lemma wInv_parts:
  assumes "wInv lg c" "\<not> wc_done c"
  shows "\<forall>s<length (wc_subs c). cursorOK lg (wc_subs c ! s)"
    "\<forall>j<length (wc_resubs c). wb_sub (wc_resubs c ! j) < length (wc_subs c)" "callsInv (wc_calls c) (wc_driver c)"
    "\<forall>e\<in>set (wc_pending c). pendingOK (wc_subs c) (wc_calls c) (wc_resubs c) e"
    "\<forall>x\<in>set (wc_restores c). restoreOK lg (wc_subs c) (wc_calls c) (wc_resubs c) x"
    "linkInv (wc_conn c) (wc_conns c) (wc_driver c)"
    "freshInv (wc_subscriptions c) (wc_conns c) (wc_subs c)"
    "readerInv lg (curView (wc_conns c)) (wc_subs c) (wc_calls c) (wc_resubs c) (wc_driver c)"
    "wc_conn c \<noteq> None \<Longrightarrow> (\<forall>x\<in>set (vw_open (curView (wc_conns c))). reqOf lg (wc_subs c) (wc_calls c) (wc_resubs c) x)"
    "liveReader (wc_driver c) \<Longrightarrow> \<not> wc_fellBehind c \<Longrightarrow>
          boundInv lg (curView (wc_conns c)) (wc_subscriptions c) (wc_subs c) (handling (wc_driver c))"
    "wc_fellBehind c \<Longrightarrow> fellOK (wc_driver c)"
  using assms by (simp_all add: wInv_def)

text \<open>A step that changes the calls and the pending attempts only.\<close>

lemma wInv_calls:
  assumes "wInv lg c" "callsGrow (wc_calls c) ls" "\<not> wc_done c \<Longrightarrow> callsInv ls (wc_driver c)"
    and "\<not> wc_done c \<Longrightarrow> \<forall>e\<in>set ps. e \<in> set (wc_pending c) \<or> pendingOK (wc_subs c) ls (wc_resubs c) e"
  shows "wInv lg (c \<lparr> wc_pending := ps, wc_calls := ls \<rparr>)"
  by (rule wInv_frame [OF assms(1)]) (use assms wInv_parts [OF assms(1)] in auto)

lemma updCall_eq: "updCall k f c = c \<lparr> wc_pending := wc_pending c, wc_calls := (wc_calls c)[k := f (wc_calls c ! k)] \<rparr>"
  by (simp add: updCall_def)

lemma wInv_setCallAt:
  assumes "wInv lg c" "k < length (wc_calls c) \<Longrightarrow> \<not> finished (wl_at (wc_calls c ! k)) \<or> finished p" "\<And>i. p \<noteq> WcInstall i"
  shows "wInv lg (setCallAt k p c)"
  unfolding updCall_eq by (rule wInv_calls [OF assms(1)]) (use assms callsInv_move wInv_parts(3) [OF assms(1)] in auto)


lemma wireOf_cursor: "resumeCursor (wireOf p opts) = resumeCursor opts"
  by (auto simp: wireOf_def newWSSubscribeRequest_def resumeCursor_def split: option.splits)

lemma newWsub_simps [simp]:
  "wu_Pattern (newWsub i p opts) = p" "wu_from (newWsub i p opts) = opts" "chanSent (wu_events (newWsub i p opts)) = []"
  "wu_options (newWsub i p opts) = opts" "\<not> wu_done (newWsub i p opts)"
  by (simp_all add: newWsub_def)

lemma covers_start: "resumeCursor (wu_from u) = Some n \<Longrightarrow> covers lg u (Suc n)"
  by (auto simp: covers_def)

lemma cursorOK_new: "cursorOK lg (newWsub i p opts)"
proof -
  have "\<exists>o' q r. opts = Some o' \<and> opts = Some (o' \<lparr> so_StartAfterSequence := Some q, so_Replay := r \<rparr>)
      \<and> covers lg (newWsub i p opts) (Suc q)" if n: "resumeCursor opts = Some n" for n
  proof -
    obtain o' where o': "opts = Some o'" "so_StartAfterSequence o' = Some n"
      using n by (auto simp: resumeCursor_def split: option.splits)
    then have "o' = o' \<lparr> so_StartAfterSequence := Some n, so_Replay := so_Replay o' \<rparr>" by simp
    then show ?thesis using o' covers_start [of "newWsub i p opts" n lg] n
      by (intro exI [of _ o'] exI [of _ n] exI [of _ "so_Replay o'"] conjI) simp_all
  qed
  then show ?thesis by (auto simp: cursorOK_def)
qed

lemma reqOK_new: "reqOK lg (newWsub i p opts) p (wireOf p opts)"
  using covers_start [of "newWsub i p opts"] by (simp add: reqOK_def wireOf_cursor)

text \<open>\<open>Subscribe\<close> installs its subscription while the reader waits: nothing was read for it yet.\<close>

lemma wInv_install:
  assumes inv: "wInv lg c" and k: "k < length (wc_calls c)" "wl_at (wc_calls c ! k) = WcInstall subID"
  shows "wInv lg (installSub k subID c)"
proof (cases "wc_done c")
  case True
  then show ?thesis by (simp add: wInv_def installSub_def Let_def updCall_def)
next
  case False
  note I = wInv_parts [OF inv False]
  let ?l = "wc_calls c ! k" and ?s = "length (wc_subs c)"
  let ?u = "newWsub subID (wl_Pattern ?l) (wl_options ?l)"
  have "handed ?l subID" using k(2) by (simp add: handed_def)
  then have "handsOver (wc_driver c) k subID" using I(3) k(1) by (simp add: callsInv_def)
  then obtain r rs n where d: "wc_driver c = DReader (RHandoff k r rs n)" "subID = wr_SubscriptionID r" "wr_Status r = ''ok''"
    by (auto elim: handsOver.elims)
  obtain opts where o: "vw_streams (curView (wc_conns c)) subID = Some (wl_Pattern ?l, opts, OfCall k, 0)"
      "opts = wireOf (wl_Pattern ?l) (wl_options ?l)"
    using I(8) d by auto
  have ns: "wc_conns c \<noteq> []" using I(6) d(1) by (simp add: linkInv_def)
  let ?us = "wc_subs c @ [?u]" and ?ids = "AList.update subID ?s (wc_subscriptions c)"
  let ?ls = "(wc_calls c)[k := ?l \<lparr> wl_at := WcComplete (Inr ?s), wl_sub := Some ?s \<rparr>]"
  have fresh: "freshInv ?ids (wc_conns c) ?us"
    unfolding freshInv_def
  proof (intro allI impI)
    fix i s assume "(i, s) \<in> set ?ids"
    then consider "i = subID" "s = ?s" | "(i, s) \<in> set (wc_subscriptions c)" using set_updateD by metis
    then show "s < length ?us \<and> (\<exists>n\<in>set (wc_conns c). vw_streams (wireView (wn_hist n)) i \<noteq> None)"
    proof cases
      case 1
      have v: "vw_streams (wireView (wn_hist (last (wc_conns c)))) i \<noteq> None" using o(1) ns 1(1) by (simp add: curView_def)
      have "s < length ?us" using 1(2) by simp
      moreover have "\<exists>n\<in>set (wc_conns c). vw_streams (wireView (wn_hist n)) i \<noteq> None"
        by (rule bexI [of _ "last (wc_conns c)"]) (use v ns in simp_all)
      ultimately show ?thesis by (rule conjI)
    next
      case 2
      then show ?thesis using I(7) unfolding freshInv_def by (metis length_append_singleton less_Suc_eq)
    qed
  qed
  have bound: "boundInv lg (curView (wc_conns c)) ?ids ?us (handling (wc_driver c))" if "\<not> wc_fellBehind c"
  proof -
    have "boundInv lg (curView (wc_conns c)) (wc_subscriptions c) ?us (handling (wc_driver c))"
      using boundInv_grow [OF I(10) [OF _ that], of ?us "wc_subscriptions c"] d(1) by simp
    then show ?thesis using o reqOK_new [of lg subID "wl_Pattern ?l" "wl_options ?l"]
      by (auto simp: boundInv_def update_conv' nth_append split: if_splits)
  qed
  have gl: "callsGrow (wc_calls c) ?ls" and gs: "subsGrow (wc_subs c) ?us" and gj: "resubsGrow (wc_resubs c) (wc_resubs c)"
    by simp_all
  have "callsInv ?ls (wc_driver c)" using I(3) by (auto simp: callsInv_def nth_upd handed_def)
  moreover have "\<forall>s<length ?us. cursorOK lg (?us ! s)" using I(1) cursorOK_new by (auto simp: nth_append less_Suc_eq)
  moreover have "\<forall>j<length (wc_resubs c). wb_sub (wc_resubs c ! j) < length ?us" using I(2) by auto
  moreover have "\<forall>e\<in>set (wc_pending c). pendingOK ?us ?ls (wc_resubs c) e" using I(4) pendingOK_grow [OF _ gl gj] by blast
  moreover have "\<forall>x\<in>set (wc_restores c). restoreOK lg ?us ?ls (wc_resubs c) x" using I(5) restoreOK_grow [OF _ gs gl gj] by blast
  moreover have "readerInv lg (curView (wc_conns c)) ?us ?ls (wc_resubs c) (wc_driver c)"
    by (rule readerInv_grow [OF I(8) gs gl gj])
  moreover have "wc_conn c \<noteq> None \<longrightarrow> (\<forall>x\<in>set (vw_open (curView (wc_conns c))). reqOf lg ?us ?ls (wc_resubs c) x)"
    using I(9) reqOf_grow [OF _ gs gl gj] by blast
  ultimately show ?thesis
    using I(6,11) fresh bound unfolding wInv_def installSub_def Let_def updCall_def by simp
qed

lemma cursorOK_cong:
  assumes "cursorOK lg u" "wu_Pattern u' = wu_Pattern u" "wu_from u' = wu_from u" "wu_options u' = wu_options u"
    and "wu_done u \<longrightarrow> wu_done u'" "set (chanSent (wu_events u')) = set (chanSent (wu_events u))"
  shows "cursorOK lg u'"
proof -
  have "subLog lg u' = subLog lg u" using assms by (simp add: subLog_def)
  moreover have "covers lg u b \<Longrightarrow> covers lg u' b" for b using assms covers_evolves [of lg u b u'] by (simp add: evolves_def)
  ultimately show ?thesis using assms unfolding cursorOK_def by metis
qed

lemma wInv_sub:
  assumes "wInv lg c" "evolves (wc_subs c ! s) u'" "cursorOK lg (wc_subs c ! s) \<Longrightarrow> cursorOK lg u'"
  shows "wInv lg (c \<lparr> wc_subs := (wc_subs c)[s := u'] \<rparr>)"
  by (rule wInv_frame [OF assms(1)]) (use assms wInv_parts [OF assms(1)] in \<open>auto simp: nth_upd\<close>)

lemma wInv_updWsub:
  assumes "wInv lg c" "evolves (wc_subs c ! s) (f (wc_subs c ! s))" "cursorOK lg (wc_subs c ! s) \<Longrightarrow> cursorOK lg (f (wc_subs c ! s))"
  shows "wInv lg (updWsub s f c)"
  unfolding updWsub_def by (rule wInv_sub [OF assms])

lemma cursorOK_simps [simp]:
  "cursorOK lg u \<Longrightarrow> cursorOK lg (u \<lparr> wu_errors := e \<rparr>)" "cursorOK lg u \<Longrightarrow> cursorOK lg (u \<lparr> wu_once := x \<rparr>)"
  "cursorOK lg u \<Longrightarrow> cursorOK lg (u \<lparr> wu_done := True, wu_once := x \<rparr>)"
  "cursorOK lg u \<Longrightarrow> cursorOK lg (u \<lparr> wu_events := chanTake (wu_events u) \<rparr>)"
  "cursorOK lg u \<Longrightarrow> cursorOK lg (u \<lparr> wu_events := chanClose (wu_events u), wu_errors := e \<rparr>)"
  by (rule cursorOK_cong; simp)+

lemma wInv_panic: "wInv lg c \<Longrightarrow> wInv lg (c \<lparr> wc_panicked := p \<rparr>)"
  by (simp add: wInv_def)

lemma wInv_closeChans: "wInv lg c \<Longrightarrow> wInv lg (closeChans s c)"
  unfolding closeChans_def by (auto intro!: wInv_panic wInv_updWsub)

lemma wInv_forget:
  assumes "wInv lg c"
  shows "wInv lg (c \<lparr> wc_subscriptions := AList.delete i (wc_subscriptions c), wc_subByPattern := x \<rparr>)"
  by (rule wInv_frame [OF assms])
     (use wInv_parts(1-3) [OF assms] set_delete [of i "wc_subscriptions c"] in \<open>simp_all add: delete_conv' map_le_def\<close>)

lemma removeByPattern_inv: "wInv lg c \<Longrightarrow> removeByPattern s c = Some c' \<Longrightarrow> wInv lg c'"
  unfolding removeByPattern_def Let_def
  by (auto split: if_splits option.splits intro!: wInv_updWsub wInv_closeChans wInv_forget)

text \<open>The calls of \<open>Subscribe\<close>.\<close>

lemma wcallStep_inv:
  assumes inv: "wInv lg c" and k: "k < length (wc_calls c)" and step: "wcallStep k ch c = Some c'"
  shows "wInv lg c'"
proof -
  let ?l = "wc_calls c ! k"
  have move: "wInv lg (setCallAt k p c)" if "\<not> finished (wl_at ?l) \<or> finished p" "\<And>i. p \<noteq> WcInstall i" for p
    using wInv_setCallAt [OF inv] that by blast
  show ?thesis
  proof (cases "wl_at ?l")
    case WcReserve
    have "wInv lg (c \<lparr> wc_pending := AList.update (wl_Pattern ?l) (OfCall k) (wc_pending c),
        wc_calls := (wc_calls c)[k := ?l \<lparr> wl_at := WcSend \<rparr>] \<rparr>)"
    proof (rule wInv_calls [OF inv])
      show "callsInv ((wc_calls c)[k := ?l \<lparr> wl_at := WcSend \<rparr>]) (wc_driver c)" if "\<not> wc_done c"
        using callsInv_move wInv_parts(3) [OF inv that] WcReserve by simp
      show "\<forall>e\<in>set (AList.update (wl_Pattern ?l) (OfCall k) (wc_pending c)). e \<in> set (wc_pending c) \<or>
          pendingOK (wc_subs c) ((wc_calls c)[k := ?l \<lparr> wl_at := WcSend \<rparr>]) (wc_resubs c) e"
        using set_update [of "wl_Pattern ?l" "OfCall k" "wc_pending c"] k by (auto dest!: subsetD)
    qed simp
    then show ?thesis using step WcReserve move
      by (auto simp: wcallStep_def Let_def updCall_def split: wchoice.splits option.splits)
  next
    case WcSend
    then obtain w err c1 where s: "wsSendJSON w (subscribeEntry (wl_Pattern ?l) (wl_options ?l) (OfCall k)) c = Some (err, c1)"
        "c' = setCallAt k (case err of None \<Rightarrow> WcWait
             | Some e \<Rightarrow> WcCancel (EWrap (''failed to send subscribe request: '' @ errorText e) [e])) c1"
      using step by (auto simp: wcallStep_def Let_def split: wchoice.splits)
    have "wInv lg c1"
      by (rule wInv_send [OF inv s(1)])
         (use k in \<open>auto simp: subscribeEntry_def wireOf_def intro!: disjI2 exI [of _ "(wl_Pattern ?l, wireOf (wl_Pattern ?l) (wl_options ?l), OfCall k)"]\<close>)
    moreover have "wc_calls c1 = wc_calls c"
      using s(1) by (auto simp: wsSendJSON_def appendWire_def split: if_splits option.splits)
    ultimately show ?thesis unfolding s(2) using WcSend by (intro wInv_setCallAt) (auto split: option.splits)
  next
    case WcWait
    have take: "wInv lg (updCall k (\<lambda>l. l \<lparr> wl_result := None, wl_at := p \<rparr>) c)"
      if "(\<exists>e. p = WcComplete e) \<or> (\<exists>i. p = WcInstall i \<and> wl_result ?l = Some (Inr i))" for p
      unfolding updCall_eq
    proof (rule wInv_calls [OF inv])
      show "callsInv ((wc_calls c)[k := ?l \<lparr> wl_result := None, wl_at := p \<rparr>]) (wc_driver c)" if "\<not> wc_done c"
        using wInv_parts(3) [OF inv that] WcWait \<open>_ \<or> _\<close> k
        by (auto simp: callsInv_def nth_upd handed_def)
    qed simp_all
    then show ?thesis using step WcWait move
      by (auto simp: wcallStep_def Let_def split: wchoice.splits option.splits sum.splits if_splits)
  next
    case (WcInstall subID)
    then show ?thesis using step wInv_install [OF inv k] by (auto simp: wcallStep_def Let_def split: wchoice.splits if_splits)
  next
    case (WcComplete r)
    let ?c = "completeSubscribeAttempt (wl_Pattern ?l) (OfCall k) c"
    have s: "sameRest c ?c" using WcComplete by (intro complete_rest) (simp add: isFinished_def)
    have "wInv lg (setCallAt k (WcReturned r) ?c)" by (rule wInv_setCallAt [OF wInv_rest [OF inv s]]) simp_all
    then show ?thesis using step WcComplete by (auto simp: wcallStep_def Let_def split: wchoice.splits)
  next
    case (WcCancel e)
    have "wInv lg (updCall k (\<lambda>l. l \<lparr> wl_canceled := True \<rparr>) c)"
      unfolding updCall_eq
      by (rule wInv_calls [OF inv]) (use WcCancel wInv_parts(3) [OF inv] in \<open>auto simp: callsInv_def nth_upd handed_def\<close>)
    then have "wInv lg (cancelSubscribeAttempt (wl_Pattern ?l) k c)" using inv by (simp add: cancelSubscribeAttempt_def)
    then have "wInv lg (setCallAt k (WcReturned (Inl e)) (cancelSubscribeAttempt (wl_Pattern ?l) k c))"
      by (rule wInv_setCallAt) simp_all
    then show ?thesis using step WcCancel by (auto simp: wcallStep_def Let_def split: wchoice.splits)
  qed (use step move in \<open>auto simp: wcallStep_def Let_def split: wchoice.splits if_splits\<close>)
qed

section \<open>Restoring\<close>

text \<open>The goroutines that restore the subscriptions.\<close>

lemma wInv_setRestore:
  assumes "wInv lg c" "\<not> wc_done c \<Longrightarrow> restoreOK lg (wc_subs c) (wc_calls c) (wc_resubs c) r"
  shows "wInv lg (setRestore i r c)"
  by (rule wInv_frame [OF assms(1)])
     (use assms(2) wInv_parts(1-3) [OF assms(1)] in \<open>auto dest!: set_list_updateD\<close>)

lemma resumeCursor_Some: "resumeCursor opts = Some n \<longleftrightarrow> (\<exists>x. opts = Some x \<and> so_StartAfterSequence x = Some n)"
  by (auto simp: resumeCursor_def split: option.splits)

lemma wireOf_cursor_eq:
  "so_StartAfterSequence x = Some n \<Longrightarrow> wireOf p (Some x) = Some (x \<lparr> so_IncludeMetadata := True \<rparr>)"
  by (simp add: wireOf_def newWSSubscribeRequest_def)

lemma reqOK_reconnect:
  assumes "cursorOK lg u"
  shows "reqOK lg u (wu_Pattern u) (wireOf (wu_Pattern u) (reconnectSubscribeOptions (wu_options u)))"
proof -
  let ?o = "wireOf (wu_Pattern u) (reconnectSubscribeOptions (wu_options u))"
  have "(\<exists>m. resumeCursor ?o = Some m \<and> covers lg u (Suc m)) \<and> selOf ?o = selOf (wireOf (wu_Pattern u) (wu_from u))"
    if n: "resumeCursor (wu_from u) = Some n" for n
  proof -
    obtain x q r where x: "wu_from u = Some x" "wu_options u = Some (x \<lparr> so_StartAfterSequence := Some q, so_Replay := r \<rparr>)"
        "covers lg u (Suc q)"
      using assms n unfolding cursorOK_def by blast
    have n': "so_StartAfterSequence x = Some n" using n x(1) by (simp add: resumeCursor_def)
    from x have o: "?o = Some (x \<lparr> so_StartAfterSequence := Some q, so_Replay := 0, so_IncludeMetadata := True \<rparr>)"
      by (simp add: reconnectSubscribeOptions_def wireOf_cursor_eq)
    then have "resumeCursor ?o = Some q" "selOf ?o = selOf (wireOf (wu_Pattern u) (wu_from u))"
      using x n' by (simp_all add: resumeCursor_def selOf_def wireOf_cursor_eq)
    then show ?thesis using x(3) by simp
  qed
  then show ?thesis by (simp add: reqOK_def)
qed

lemma sendSubError_inv: "wInv lg c \<Longrightarrow> sendSubError s e c = Some c' \<Longrightarrow> wInv lg c'"
  unfolding sendSubError_def Let_def by (auto split: if_splits intro!: wInv_panic wInv_updWsub)

lemma sendSubError_same:
  "sendSubError s e c = Some c' \<Longrightarrow> wc_done c' = wc_done c \<and> wc_calls c' = wc_calls c \<and> wc_resubs c' = wc_resubs c
     \<and> subsGrow (wc_subs c) (wc_subs c') \<and> wc_restores c' = wc_restores c \<and> wc_driver c' = wc_driver c \<and> wc_conn c' = wc_conn c
     \<and> wc_conns c' = wc_conns c"
  by (auto simp: sendSubError_def Let_def updWsub_def split: if_splits)

lemma reportError_inv: "wInv lg c \<Longrightarrow> reportError ch s e c = Some c' \<Longrightarrow> wInv lg c'"
  unfolding reportError_def Let_def by (auto split: if_splits wchoice.splits intro: sendSubError_inv)

lemma reportError_same:
  "reportError ch s e c = Some c' \<Longrightarrow> wc_done c' = wc_done c \<and> wc_calls c' = wc_calls c \<and> wc_resubs c' = wc_resubs c
     \<and> subsGrow (wc_subs c) (wc_subs c')"
  by (auto simp: reportError_def Let_def split: if_splits wchoice.splits dest!: sendSubError_same)

lemma wsSendJSON_same:
  "wsSendJSON w e c = Some (err, c') \<Longrightarrow> wc_done c' = wc_done c \<and> wc_calls c' = wc_calls c \<and> wc_resubs c' = wc_resubs c
     \<and> wc_subs c' = wc_subs c \<and> wc_restores c' = wc_restores c \<and> wc_driver c' = wc_driver c \<and> wc_conn c' = wc_conn c
     \<and> wc_pending c' = wc_pending c"
  by (auto simp: wsSendJSON_def appendWire_def split: if_splits option.splits)

lemma resendOK_initial:
  "\<forall>e\<in>set ps. pendingOK us (wc_calls c) js e \<Longrightarrow> resendOK (wc_calls c) (concat (map (initialRequests c) ps))"
proof (induction ps)
  case (Cons e ps)
  then show ?case by (cases "(c, e)" rule: initialRequests.cases) (auto simp: resendOK_def)
qed (simp add: resendOK_def)

lemma todoOK_snapshot:
  assumes "freshInv (wc_subscriptions c) ns (wc_subs c)" "snapshotOf c todo"
  shows "todoOK (wc_subs c) todo"
proof -
  have "s < length (wc_subs c) \<and> wu_Pattern (wc_subs c ! s) = p" if "(p, s) \<in> set todo" for p s
  proof -
    have "(p, s) \<in> set (candidates c)" using that assms(2) by (auto simp: snapshotOf_def)
    then obtain i where "(i, s) \<in> set (wc_subscriptions c)" "wu_Pattern (wc_subs c ! s) = p" by (auto simp: candidates_def)
    then show ?thesis using assms(1) unfolding freshInv_def by blast
  qed
  then show ?thesis by (auto simp: todoOK_def)
qed

fun restorePart :: "wrestore \<Rightarrow> nat" where
  "restorePart (SvSnap _) = 0" | "restorePart (SvLoop _ _) = 0" | "restorePart (SvOpts _ _ _ _ _) = 0"
| "restorePart (SvWrite _ _ _ _ _ _) = 1" | "restorePart (SvReport _ _ _ _ _ _) = 1" | "restorePart (SvComplete _ _ _ _) = 1"
| "restorePart _ = 2"

lemma restoreStep_snap:
  assumes inv: "wInv lg c" and i: "i < length (wc_restores c)" and step: "restoreStep i ch c = Some c'" and sync: "inSync c'"
    and part: "restorePart (wc_restores c ! i) = 0"
  shows "wInv lg c'"
proof -
  have ok: "\<not> wc_done c \<Longrightarrow> restoreOK lg (wc_subs c) (wc_calls c) (wc_resubs c) (wc_restores c ! i)"
    using wInv_parts(5) [OF inv] i by simp
  note set = wInv_setRestore [OF inv]
  show ?thesis
  proof (cases "wc_restores c ! i")
    case (SvSnap was)
    then obtain todo where "c' = setRestore i (SvLoop was todo) c" "snapshotOf c todo"
      using step by (auto simp: restore_steps split: wchoice.splits if_splits)
    then show ?thesis using set [of "SvLoop was todo"] todoOK_snapshot wInv_parts(7) [OF inv] by auto
  next
    case (SvLoop was todo)
    show ?thesis
    proof (cases todo)
      case Nil
      then show ?thesis using step SvLoop set [of "afterResub was"]
        by (auto simp: restore_steps afterResub_def split: wchoice.splits if_splits)
    next
      case (Cons e todo')
      obtain p s where e: "e = (p, s)" by (cases e)
      let ?j = "length (wc_resubs c)"
      let ?c = "c \<lparr> wc_resubs := wc_resubs c @ [\<lparr> wb_sub = s, wb_done = False \<rparr>],
          wc_pending := AList.update p (OfResub ?j) (wc_pending c), wc_restores := (wc_restores c)[i := SvOpts was p s ?j todo'] \<rparr>"
      have t: "\<not> wc_done c \<Longrightarrow> todoOK (wc_subs c) todo' \<and> s < length (wc_subs c) \<and> wu_Pattern (wc_subs c ! s) = p"
        using ok SvLoop Cons e by (auto simp: todoOK_def)
      have "wInv lg ?c"
      proof (rule wInv_frame [OF inv])
        show "\<forall>e\<in>set (wc_pending ?c). e \<in> set (wc_pending c) \<or> pendingOK (wc_subs ?c) (wc_calls ?c) (wc_resubs ?c) e"
          using set_update [of p "OfResub ?j" "wc_pending c"] by (auto dest!: subsetD)
        show "\<forall>x\<in>set (wc_restores ?c). x \<in> set (wc_restores c) \<or> restoreOK lg (wc_subs ?c) (wc_calls ?c) (wc_resubs ?c) x"
          if "\<not> wc_done c" using t [OF that] by (auto dest!: set_list_updateD)
        show "\<forall>j<length (wc_resubs ?c). wb_sub (wc_resubs ?c ! j) < length (wc_subs ?c)" if "\<not> wc_done c"
          using t [OF that] wInv_parts(2) [OF inv that] by (auto simp: nth_append less_Suc_eq)
      qed (use wInv_parts(1-3) [OF inv] in simp_all)
      moreover have "wInv lg (setRestore i (SvLoop was todo') c)" using set t by simp
      ultimately show ?thesis using step SvLoop Cons e
        by (auto simp: restore_steps split: wchoice.splits if_splits)
    qed
  next
    case (SvOpts was p s j todo)
    have "reqOK lg (wc_subs c ! s) p (wireOf p (reconnectSubscribeOptions (wu_options (wc_subs c ! s))))" if "\<not> wc_done c"
      using ok [OF that] SvOpts wInv_parts(1) [OF inv that] reqOK_reconnect by auto
    then show ?thesis using step SvOpts ok set [of "SvWrite was p s j (reconnectSubscribeOptions (wu_options (wc_subs c ! s))) todo"]
      by (auto simp: restore_steps split: wchoice.splits if_splits)
  qed (use step part in \<open>auto simp: restore_steps split: wchoice.splits\<close>)
qed

lemma restoreStep_write:
  assumes inv: "wInv lg c" and i: "i < length (wc_restores c)" and step: "restoreStep i ch c = Some c'" and sync: "inSync c'"
    and part: "restorePart (wc_restores c ! i) = 1"
  shows "wInv lg c'"
proof -
  have ok: "\<not> wc_done c \<Longrightarrow> restoreOK lg (wc_subs c) (wc_calls c) (wc_resubs c) (wc_restores c ! i)"
    using wInv_parts(5) [OF inv] i by simp
  note set = wInv_setRestore [OF inv]
  show ?thesis
  proof (cases "wc_restores c ! i")
    case (SvWrite was p s j opts todo)
    then obtain w err c1 where s: "wsSendJSON w (subscribeEntry p opts (OfResub j)) c = Some (err, c1)"
        "c' = setRestore i (case err of None \<Rightarrow> SvLoop was todo | Some e \<Rightarrow> SvReport was p s j e todo) c1"
      using step by (auto simp: restore_steps split: wchoice.splits)
    have "wInv lg c1"
      by (rule wInv_send [OF inv s(1)])
         (use ok SvWrite in \<open>auto simp: subscribeEntry_def wireOf_def intro!: exI [of _ "(p, wireOf p opts, OfResub j)"]\<close>)
    then show ?thesis unfolding s(2)
      using ok SvWrite wsSendJSON_same [OF s(1)] by (intro wInv_setRestore) (auto split: option.splits)
  next
    case (SvReport was p s j e todo)
    then obtain c1 where s: "reportError ch s e c = Some c1" "c' = setRestore i (SvComplete was p j todo) c1"
      using step by (auto simp: restore_steps)
    show ?thesis unfolding s(2)
      by (rule wInv_setRestore [OF reportError_inv [OF inv s(1)]])
         (use reportError_same [OF s(1)] ok SvReport todo_grow(1) in auto)
  next
    case (SvComplete was p j todo)
    let ?c = "completeSubscribeAttempt p (OfResub j) c"
    have s: "sameRest c ?c" by (rule complete_rest) (simp add: isFinished_def)
    then have "wInv lg (setRestore i (SvLoop was todo) ?c)"
      using ok SvComplete by (intro wInv_setRestore [OF wInv_rest [OF inv s]]) (simp add: sameRest_def)
    then show ?thesis using step SvComplete by (auto simp: restore_steps split: wchoice.splits)
  qed (use step part in \<open>auto simp: restore_steps split: wchoice.splits\<close>)
qed

lemma restoreStep_resend:
  assumes inv: "wInv lg c" and i: "i < length (wc_restores c)" and step: "restoreStep i ch c = Some c'" and sync: "inSync c'"
    and part: "restorePart (wc_restores c ! i) = 2"
  shows "wInv lg c'"
proof -
  have ok: "\<not> wc_done c \<Longrightarrow> restoreOK lg (wc_subs c) (wc_calls c) (wc_resubs c) (wc_restores c ! i)"
    using wInv_parts(5) [OF inv] i by simp
  note set = wInv_setRestore [OF inv]
  show ?thesis
  proof (cases "wc_restores c ! i")
    case SvPending
    let ?c = "dropPending (\<lambda>a. \<not> isResub a \<and> attemptCanceled c a) c"
    show ?thesis
    proof (cases "wc_done c")
      case False
      have s: "sameRest c ?c" using canceled_finished [OF wInv_parts(3) [OF inv False]] by (intro dropPending_rest) blast
      then have q: "callsGrow (wc_calls c) (wc_calls ?c)" by (simp add: sameRest_def callsQuiet_grow)
      have "wInv lg (setRestore i (SvResend (concat (map (initialRequests c) (wc_pending c)))) ?c)"
        using resendOK_initial [OF wInv_parts(4) [OF inv False]] todo_grow(2) [OF _ q]
        by (intro wInv_setRestore [OF wInv_rest [OF inv s]]) simp
      then show ?thesis using step SvPending by (auto simp: restore_steps split: wchoice.splits)
    next
      case True
      have "wc_done (fold markDone as x) = wc_done x" for as x
      proof (induction as arbitrary: x)
        case (Cons a as) then show ?case by (cases a) (simp_all add: updCall_def)
      qed simp
      then have "wc_done c'" using True step SvPending by (auto simp: restore_steps dropPending_def split: wchoice.splits)
      then show ?thesis by (simp add: wInv_def)
    qed
  next
    case (SvResend todo)
    show ?thesis
    proof (cases todo)
      case Nil
      then show ?thesis using step SvResend set [of SvDone] by (auto simp: restore_steps split: wchoice.splits)
    next
      case (Cons e todo')
      obtain p k where e: "e = (p, k)" by (cases e)
      let ?o = "wireOf p (attemptOptions c k)"
      obtain w err c1 where s: "wsSendJSON w (subscribeEntry p (attemptOptions c k) (OfCall k)) c = Some (err, c1)"
          "c' = setRestore i (case err of None \<Rightarrow> SvResend todo' | Some e \<Rightarrow> SvResult k
             (EWrap (''failed to resend subscribe request: '' @ errorText e) [e]) todo') c1"
        using step SvResend Cons e by (auto simp: restore_steps split: wchoice.splits)
      have r: "\<not> wc_done c \<Longrightarrow> k < length (wc_calls c) \<and> wl_Pattern (wc_calls c ! k) = p \<and> resendOK (wc_calls c) todo'"
        using ok SvResend Cons e by (auto simp: resendOK_def)
      have "wInv lg c1"
      proof (cases "c1 = c \<or> wc_done c")
        case True
        then show ?thesis using inv wsSendJSON_same [OF s(1)] by (auto simp: wInv_def)
      next
        case False
        then obtain n where n: "wc_conn c = Some n" "c1 = appendWire n (HSub p ?o (OfCall k)) c"
          using s(1) by (auto simp: wsSendJSON_def subscribeEntry_def wireOf_def split: if_splits option.splits)
        have l: "wc_conns c \<noteq> []" "n = length (wc_conns c) - 1"
          using wInv_parts(6) [OF inv] n False by (auto simp: linkInv_def)
        have "curView (wc_conns c') = viewStep (curView (wc_conns c)) (HSub p ?o (OfCall k))"
          using curView_append [OF l] s(2) n(2) by (simp add: appendWire_def)
        then have "wl_sub (wc_calls c ! k) = None"
          using sync s(2) n by (auto simp: inSync_def appendWire_def)
        then have "?o = wireOf p (wl_options (wc_calls c ! k))" by (simp add: attemptOptions_def)
        then show ?thesis using r False
          by (intro wInv_send [OF inv s(1)])
             (auto simp: subscribeEntry_def wireOf_def intro!: exI [of _ "(p, ?o, OfCall k)"])
      qed
      then show ?thesis unfolding s(2)
        using r wsSendJSON_same [OF s(1)] by (intro wInv_setRestore) (auto split: option.splits)
    qed
  next
    case (SvResult k e todo)
    have "wInv lg (setRestore i (SvResend todo) (offerResult (Inl e) (OfCall k) c))"
      using ok SvResult offerResult_rest [of c e "OfCall k"] todo_grow(2) [OF _ callsQuiet_grow]
      by (intro wInv_setRestore [OF wInv_rest [OF inv offerResult_rest]]) (auto simp: sameRest_def)
    moreover have "wInv lg (setRestore i (SvResend todo) c)" using set ok SvResult by simp
    ultimately show ?thesis using step SvResult by (auto simp: restore_steps split: wchoice.splits if_splits)
  qed (use step part in \<open>auto simp: restore_steps split: wchoice.splits\<close>)
qed

lemma restoreStep_inv:
  assumes "wInv lg c" "i < length (wc_restores c)" "restoreStep i ch c = Some c'" "inSync c'"
  shows "wInv lg c'"
proof -
  have "restorePart (wc_restores c ! i) = 0 \<or> restorePart (wc_restores c ! i) = 1 \<or> restorePart (wc_restores c ! i) = 2"
    by (cases "wc_restores c ! i") simp_all
  then show ?thesis using restoreStep_snap [OF assms] restoreStep_write [OF assms] restoreStep_resend [OF assms] by blast
qed

end
