(* ===== verification/Ws_Delivery.thy ===== *)
theory Ws_Delivery
  imports Ws_Invariant
begin

text \<open>
  The reader and the reconnects of the WebSocket client keep the invariant, so a subscription with a cursor
  receives every event between its start and its cursor over any number of connections
  (\<open>ws_cursor_complete\<close>).
\<close>

section \<open>The reader\<close>

lemma callsInv_other:
  "callsInv ls d0 \<Longrightarrow> (\<And>k i. k < length ls \<Longrightarrow> handed (ls ! k) i \<Longrightarrow> \<not> handsOver d0 k i) \<Longrightarrow> callsInv ls d"
  by (auto simp: callsInv_def)

lemma wInv_driver:
  assumes inv: "wInv lg c" and
    "\<not> wc_done c \<Longrightarrow> linkInv (wc_conn c) (wc_conns c) d \<and> callsInv (wc_calls c) d
       \<and> readerInv lg (curView (wc_conns c)) (wc_subs c) (wc_calls c) (wc_resubs c) d \<and> (wc_fellBehind c \<longrightarrow> fellOK d)"
    and "\<not> wc_done c \<Longrightarrow> liveReader d \<Longrightarrow> \<not> wc_fellBehind c \<Longrightarrow>
       boundInv lg (curView (wc_conns c)) (wc_subscriptions c) (wc_subs c) (handling d)"
  shows "wInv lg (c \<lparr> wc_driver := d \<rparr>)"
  using assms by (auto simp: wInv_def)

text \<open>A step of the reader that touches nothing else, away from the handover of an id.\<close>

lemma wInv_reader:
  assumes inv: "wInv lg c" and d: "wc_driver c = DReader pc" and "\<And>k i. \<not> handsOver (DReader pc) k i"
    and fell: "wc_fellBehind c \<Longrightarrow> fellOK (DReader pc')"
    and live: "liveReader (DReader pc') \<Longrightarrow> liveReader (DReader pc) \<and> (\<forall>s. handling (DReader pc) s \<subseteq> handling (DReader pc') s)"
    and conn: "\<And>n. readerConn (DReader pc') = Some n \<Longrightarrow> readerConn (DReader pc) = Some n \<or> wc_conn c = Some n"
    and r: "\<not> wc_done c \<Longrightarrow> readerInv lg (curView (wc_conns c)) (wc_subs c) (wc_calls c) (wc_resubs c) (DReader pc')"
  shows "wInv lg (setReader pc' c)"
proof (rule wInv_driver [OF inv])
  assume nd: "\<not> wc_done c"
  note I = wInv_parts [OF inv nd]
  have "callsInv (wc_calls c) (DReader pc')" using callsInv_other [OF I(3)] d assms(3) by metis
  moreover have "linkInv (wc_conn c) (wc_conns c) (DReader pc')" using I(6) d live conn unfolding linkInv_def by metis
  ultimately show "linkInv (wc_conn c) (wc_conns c) (DReader pc') \<and> callsInv (wc_calls c) (DReader pc')
       \<and> readerInv lg (curView (wc_conns c)) (wc_subs c) (wc_calls c) (wc_resubs c) (DReader pc')
       \<and> (wc_fellBehind c \<longrightarrow> fellOK (DReader pc'))"
    using fell r [OF nd] by blast
  show "boundInv lg (curView (wc_conns c)) (wc_subscriptions c) (wc_subs c) (handling (DReader pc'))"
    if "liveReader (DReader pc')" "\<not> wc_fellBehind c"
    using boundInv_grow [OF I(10) [OF _ that(2)] subsGrow_refl map_le_refl] live [OF that(1)] d by simp
qed

lemma wInv_noReader:
  assumes "wInv lg c" "\<not> liveReader d" "readerConn d = None" "\<And>us ls js v. readerInv lg v us ls js d" "\<not> wc_done c \<Longrightarrow> \<not> wc_fellBehind c"
    and "\<And>k i. \<not> handsOver (wc_driver c) k i"
  shows "wInv lg (c \<lparr> wc_driver := d \<rparr>)"
  by (rule wInv_driver [OF assms(1)])
     (use assms wInv_parts(3,6) [OF assms(1)] callsInv_other [OF wInv_parts(3) [OF assms(1)]] in \<open>auto simp: linkInv_def\<close>)

text \<open>A result was taken from the connection.\<close>

lemma cursorWire_result:
  assumes "cursorWire srv lg" "srv hs (SrvResult r)"
  shows "wr_Pattern r \<in> fst ` set (vw_open (wireView (last hs)))
    \<and> (wr_Status r = ''ok'' \<longrightarrow> (\<forall>h\<in>set hs. vw_streams (wireView h) (wr_SubscriptionID r) = None))"
  using assms unfolding cursorWire_def by blast

lemma viewStep_result:
  assumes "wr_Pattern r \<in> fst ` set (vw_open v)"
  obtains opts a where "(wr_Pattern r, opts, a) \<in> set (vw_open v)"
    "vw_open (viewStep v (HResult r)) = remove1 (wr_Pattern r, opts, a) (vw_open v)"
    "vw_streams (viewStep v (HResult r)) =
       (if wr_Status r = ''ok'' then (vw_streams v)(wr_SubscriptionID r \<mapsto> (wr_Pattern r, opts, a, 0)) else vw_streams v)"
proof -
  obtain x where x: "find (\<lambda>x. fst x = wr_Pattern r) (vw_open v) = Some x"
  proof (cases "find (\<lambda>x. fst x = wr_Pattern r) (vw_open v)")
    case None
    then have "wr_Pattern r \<notin> fst ` set (vw_open v)" by (auto simp: find_None_iff)
    then show thesis using assms by simp
  qed blast
  then have m: "x \<in> set (vw_open v)" "fst x = wr_Pattern r" by (auto simp: find_Some_iff)
  then obtain opts a where e: "x = (wr_Pattern r, opts, a)" by (metis prod.collapse)
  show thesis using that [of opts a] x m(1) unfolding e by simp
qed

lemma wires_last: "wc_conns c \<noteq> [] \<Longrightarrow> wireView (last (wires c)) = curView (wc_conns c)"
  by (simp add: wires_def curView_def last_map)

lemma wInv_appendWire:
  assumes inv: "wInv lg c" and d: "wc_driver c = DReader pc" "readerConn (DReader pc) = Some n"
    and live: "liveReader (DReader pc)" "liveReader (DReader pc')" "\<And>k i. \<not> handsOver (DReader pc) k i"
      "readerConn (DReader pc') = Some n" "\<not> fellOK (DReader pc)"
    and o: "\<not> wc_done c \<Longrightarrow> set (vw_open (viewStep (curView (wc_conns c)) e)) \<subseteq> set (vw_open (curView (wc_conns c)))"
    and r: "\<not> wc_done c \<Longrightarrow> readerInv lg (viewStep (curView (wc_conns c)) e) (wc_subs c) (wc_calls c) (wc_resubs c) (DReader pc')"
    and b: "\<not> wc_done c \<Longrightarrow> boundInv lg (viewStep (curView (wc_conns c)) e) (wc_subscriptions c) (wc_subs c) (handling (DReader pc'))"
  shows "wInv lg (setReader pc' (appendWire n e c))"
proof (cases "wc_done c")
  case False
  note I = wInv_parts [OF inv False]
  have l: "wc_conns c \<noteq> []" "n = length (wc_conns c) - 1" "wc_conn c \<noteq> None"
    using I(6) d live(1) by (auto simp: linkInv_def)
  have f: "\<not> wc_fellBehind c" using I(11) d(1) live(5) by auto
  have "callsInv (wc_calls c) (DReader pc')" using callsInv_other [OF I(3)] d live(3) by metis
  then show ?thesis
    using False I(1-7) I(9) l o [OF False] r [OF False] b [OF False] curView_append [OF l(1,2), of e] live(2,4) d f
      freshInv_append [OF I(7), of n e]
    by (auto simp: wInv_def appendWire_def linkInv_def)
qed (simp add: wInv_def appendWire_def)

lemma takeResult_inv:
  assumes law: "cursorWire srv lg" and inv: "wInv lg c" and d: "wc_driver c = DReader (RResults (r # rs) n)"
    and sync: "inSync c" and step: "takeResult srv r rs n c = Some c'"
  shows "wInv lg c'"
proof -
  let ?pc = "case map_of (wc_pending c) (wr_Pattern r) of
           None \<Rightarrow> RResults rs n
         | Some (OfCall k) \<Rightarrow>
             if wl_canceled (wc_calls c ! k) then giveBack r (OfCall k) rs n else RDeliver k r rs n
         | Some (OfResub j) \<Rightarrow> RRebind (wb_sub (wc_resubs c ! j)) j r rs n"
  let ?v = "curView (wc_conns c)" and ?v' = "viewStep (curView (wc_conns c)) (HResult r)"
  have srv: "srv (wires c) (SrvResult r)" and c': "c' = setReader ?pc (appendWire n (HResult r) c)"
    using step by (auto simp: takeResult_def split: if_splits)
  have pc: "liveReader (DReader ?pc)" "readerConn (DReader ?pc) = Some n" "handling (DReader ?pc) = (\<lambda>_. {})"
    by (auto simp: giveBack_def split: option.splits attempt_ref.splits)
  have main: "set (vw_open ?v') \<subseteq> set (vw_open ?v)
      \<and> readerInv lg ?v' (wc_subs c) (wc_calls c) (wc_resubs c) (DReader ?pc)
      \<and> boundInv lg ?v' (wc_subscriptions c) (wc_subs c) (\<lambda>_. {})" if nd: "\<not> wc_done c"
  proof -
    note I = wInv_parts [OF inv nd]
    have l: "wc_conns c \<noteq> []" "wc_conn c \<noteq> None" using I(6) d by (auto simp: linkInv_def)
    have law1: "wr_Pattern r \<in> fst ` set (vw_open ?v)"
      "wr_Status r = ''ok'' \<Longrightarrow> h \<in> set (wires c) \<Longrightarrow> vw_streams (wireView h) (wr_SubscriptionID r) = None" for h
      using cursorWire_result [OF law srv] unfolding wires_last [OF l(1)] by blast+
    obtain opts a where a: "(wr_Pattern r, opts, a) \<in> set (vw_open ?v)"
      "vw_open ?v' = remove1 (wr_Pattern r, opts, a) (vw_open ?v)"
      "vw_streams ?v' = (if wr_Status r = ''ok'' then (vw_streams ?v)(wr_SubscriptionID r \<mapsto> (wr_Pattern r, opts, a, 0)) else vw_streams ?v)"
      using viewStep_result [OF law1(1)] by blast
    have p: "map_of (wc_pending c) (wr_Pattern r) = Some a" using sync l(2) a(1) by (auto simp: inSync_def)
    have q: "reqOf lg (wc_subs c) (wc_calls c) (wc_resubs c) (wr_Pattern r, opts, a)" using I(9) l(2) a(1) by blast
    have "readerInv lg ?v' (wc_subs c) (wc_calls c) (wc_resubs c) (DReader ?pc)"
      using p q a(3) by (cases a) (auto simp: giveBack_def)
    moreover have "boundInv lg ?v' (wc_subscriptions c) (wc_subs c) (\<lambda>_. {})"
    proof -
      have "handling (wc_driver c) = (\<lambda>_. {})" by (rule ext) (simp add: d)
      then have b: "boundInv lg ?v (wc_subscriptions c) (wc_subs c) (\<lambda>_. {})"
        using I(10,11) d by auto
      have "map_of (wc_subscriptions c) (wr_SubscriptionID r) = None" if ok: "wr_Status r = ''ok''"
      proof (rule ccontr)
        assume "map_of (wc_subscriptions c) (wr_SubscriptionID r) \<noteq> None"
        then obtain s where "(wr_SubscriptionID r, s) \<in> set (wc_subscriptions c)" by (auto dest: map_of_SomeD)
        then obtain m where "m \<in> set (wc_conns c)" "vw_streams (wireView (wn_hist m)) (wr_SubscriptionID r) \<noteq> None"
          using I(7) unfolding freshInv_def by blast
        then show False using law1(2) [OF ok, of "wn_hist m"] by (simp add: wires_def)
      qed
      then show ?thesis using b unfolding boundInv_def a(3) by (auto split: if_splits)
    qed
    ultimately show ?thesis using a(2) set_remove1_subset by fastforce
  qed
  show ?thesis unfolding c' using main pc
    by (intro wInv_appendWire [OF inv d]) (simp_all add: pc)
qed

text \<open>The events of a log, by their place and by their sequence.\<close>

lemma after_nth:
  assumes "sorted_wrt (\<lambda>a b. seqOf a < seqOf b) L" "k < length (after m L)"
  shows "after m L ! k \<in> set L" "m < seqOf (after m L ! k)"
    "ev \<in> set L \<Longrightarrow> m < seqOf ev \<Longrightarrow> seqOf ev < seqOf (after m L ! k) \<Longrightarrow> ev \<in> set (take k (after m L))"
proof -
  have in_after: "after m L ! k \<in> set (after m L)" using assms(2) by simp
  then show "after m L ! k \<in> set L" "m < seqOf (after m L ! k)" by (auto simp: after_def)
  assume e: "ev \<in> set L" "m < seqOf ev" "seqOf ev < seqOf (after m L ! k)"
  then have "ev \<in> set (after m L)" by (simp add: after_def)
  then obtain j where j: "j < length (after m L)" "after m L ! j = ev" by (auto simp: in_set_conv_nth)
  have s: "sorted_wrt (\<lambda>a b. seqOf a < seqOf b) (after m L)" using assms(1) by (simp add: after_def sorted_wrt_filter)
  have "j < k"
  proof (rule ccontr)
    assume "\<not> j < k"
    then have "k = j \<or> seqOf (after m L ! k) < seqOf (after m L ! j)"
      using sorted_wrt_nth_less [OF s, of k j] j(1) by (cases "k = j") auto
    then show False using e(3) j(2) by auto
  qed
  then show "ev \<in> set (take k (after m L))" using j by (auto simp: in_set_conv_nth)
qed

lemma log_unique:
  "sorted_wrt (\<lambda>a b. seqOf a < seqOf b) L \<Longrightarrow> a \<in> set L \<Longrightarrow> b \<in> set L \<Longrightarrow> seqOf a = seqOf b \<Longrightarrow> a = b"
  by (induction L) auto

text \<open>The next event of a bound subscription: everything before it has been delivered.\<close>

lemma eventReady_bound:
  assumes law: "\<forall>p sel. sorted_wrt (\<lambda>a b. seqOf a < seqOf b) (lg p sel)"
    and u: "reqOK lg u p opts"
    and sent: "\<forall>n m. \<not> wu_done u \<and> resumeCursor (wu_from u) = Some n \<and> resumeCursor opts = Some m \<longrightarrow>
             set (take k (after m (subLog lg u))) \<subseteq> set (chanSent (wu_events u))"
    and ev: "\<forall>m. resumeCursor opts = Some m \<longrightarrow>
             k < length (after m (lg p (selOf opts))) \<and> ev = after m (lg p (selOf opts)) ! k"
  shows "eventReady lg u ev"
    and "\<not> wu_done u \<Longrightarrow> resumeCursor (wu_from u) = Some n \<Longrightarrow> resumeCursor opts = Some m \<Longrightarrow>
             set (take (Suc k) (after m (subLog lg u))) \<subseteq> set (chanSent (wu_events u)) \<union> {ev}"
proof -
  have step: "ev \<in> set (subLog lg u) \<and> 0 < seqOf ev \<and> k < length (after m (subLog lg u)) \<and> ev = after m (subLog lg u) ! k
      \<and> (\<forall>e\<in>set (subLog lg u). n < seqOf e \<and> seqOf e < seqOf ev \<longrightarrow> e \<in> set (chanSent (wu_events u)))"
    if live: "\<not> wu_done u" "resumeCursor (wu_from u) = Some n" "resumeCursor opts = Some m" for n m
  proof -
    have L: "lg p (selOf opts) = subLog lg u" and cov: "covers lg u (Suc m)"
      using u live(2,3) by (auto simp: reqOK_def subLog_def)
    have e: "k < length (after m (subLog lg u))" "ev = after m (subLog lg u) ! k" using ev live(3) L by auto
    have s: "sorted_wrt (\<lambda>a b. seqOf a < seqOf b) (subLog lg u)" using law by (simp add: subLog_def)
    have "e' \<in> set (chanSent (wu_events u))" if "e' \<in> set (subLog lg u)" "n < seqOf e'" "seqOf e' < seqOf ev" for e'
    proof (cases "m < seqOf e'")
      case True
      then have "e' \<in> set (take k (after m (subLog lg u)))" using after_nth(3) [OF s e(1), of e'] e(2) that by simp
      then show ?thesis using sent live by blast
    next
      case False
      then show ?thesis using cov live that by (auto simp: covers_def)
    qed
    then show ?thesis using after_nth(1,2) [OF s e(1)] e by auto
  qed
  have m: "\<exists>m. resumeCursor opts = Some m" if "resumeCursor (wu_from u) = Some n" for n
    using u that by (auto simp: reqOK_def)
  show "eventReady lg u ev"
    unfolding eventReady_def covers_def using step m by blast
  show "set (take (Suc k) (after m (subLog lg u))) \<subseteq> set (chanSent (wu_events u)) \<union> {ev}"
    if "\<not> wu_done u" "resumeCursor (wu_from u) = Some n" "resumeCursor opts = Some m"
  proof -
    have "set (take k (after m (subLog lg u))) \<subseteq> set (chanSent (wu_events u))" using sent that by blast
    then show ?thesis using step [OF that] by (auto simp: take_Suc_conv_app_nth)
  qed
qed

lemma cursorWire_event:
  assumes "cursorWire srv lg" "srv hs (SrvEvent i ev)"
  shows "\<exists>p opts a k. vw_streams (wireView (last hs)) i = Some (p, opts, a, k)
      \<and> (\<forall>n. resumeCursor opts = Some n \<longrightarrow> k < length (after n (lg p (selOf opts))) \<and> ev = after n (lg p (selOf opts)) ! k)"
    "\<forall>q sel. sorted_wrt (\<lambda>a b. seqOf a < seqOf b) (lg q sel)"
  using assms unfolding cursorWire_def by blast+

lemma boundInvD:
  assumes "boundInv lg v ids us held" "map_of ids i = Some s" "vw_streams v i = Some (p, opts, a, k)"
  shows "s < length us" "reqOK lg (us ! s) p opts"
    "\<not> wu_done (us ! s) \<Longrightarrow> resumeCursor (wu_from (us ! s)) = Some n \<Longrightarrow> resumeCursor opts = Some m \<Longrightarrow>
       set (take k (after m (subLog lg (us ! s)))) \<subseteq> set (chanSent (wu_events (us ! s))) \<union> held s"
  using assms unfolding boundInv_def by blast+

lemma boundInv_count:
  assumes b: "boundInv lg v ids us held" and st: "vw_streams v i = Some (p, opts, a, k)"
    and v': "vw_streams v' = (vw_streams v)(i \<mapsto> (p, opts, a, Suc k))"
    and new: "\<And>s n m. map_of ids i = Some s \<Longrightarrow> \<not> wu_done (us ! s) \<Longrightarrow> resumeCursor (wu_from (us ! s)) = Some n \<Longrightarrow>
       resumeCursor opts = Some m \<Longrightarrow>
       set (take (Suc k) (after m (subLog lg (us ! s)))) \<subseteq> set (chanSent (wu_events (us ! s))) \<union> held' s"
    and held: "\<And>s. held s \<subseteq> held' s"
  shows "boundInv lg v' ids us held'"
  unfolding boundInv_def
proof (intro allI impI)
  fix j s p' opts' a' k'
  assume j: "map_of ids j = Some s \<and> vw_streams v' j = Some (p', opts', a', k')"
  show "s < length us \<and> reqOK lg (us ! s) p' opts' \<and> (\<forall>n m. \<not> wu_done (us ! s) \<and> resumeCursor (wu_from (us ! s)) = Some n
      \<and> resumeCursor opts' = Some m \<longrightarrow> set (take k' (after m (subLog lg (us ! s)))) \<subseteq> set (chanSent (wu_events (us ! s))) \<union> held' s)"
  proof (cases "j = i")
    case True
    then show ?thesis using j v' new boundInvD(1,2) [OF b _ st] by auto
  next
    case False
    then have "vw_streams v j = Some (p', opts', a', k')" using j v' by simp
    then show ?thesis using boundInvD [OF b conjunct1 [OF j]] held [of s] by (meson Un_mono order_refl subset_trans)
  qed
qed

lemma readEvent_inv:
  assumes law: "cursorWire srv lg" and inv: "wInv lg c" and d: "wc_driver c = DReader (RRead n)"
    and srv: "srv (wires c) (SrvEvent i ev)"
  shows "wInv lg (setReader (case map_of (wc_subscriptions c) i of None \<Rightarrow> RHandled n | Some s \<Rightarrow> REvent s ev n)
      (appendWire n (HEvent i ev) c))" (is "wInv lg (setReader ?pc _)")
proof (rule wInv_appendWire [OF inv d])
  show "liveReader (DReader ?pc)" "readerConn (DReader ?pc) = Some n" by (auto split: option.splits)
  let ?v = "curView (wc_conns c)" and ?v' = "viewStep (curView (wc_conns c)) (HEvent i ev)"
  have main: "set (vw_open ?v') \<subseteq> set (vw_open ?v) \<and> readerInv lg ?v' (wc_subs c) (wc_calls c) (wc_resubs c) (DReader ?pc)
      \<and> boundInv lg ?v' (wc_subscriptions c) (wc_subs c) (handling (DReader ?pc))" if nd: "\<not> wc_done c"
  proof -
    note I = wInv_parts [OF inv nd]
    have l: "wc_conns c \<noteq> []" using I(6) d by (auto simp: linkInv_def)
    obtain p opts a k where st: "vw_streams ?v i = Some (p, opts, a, k)"
      and ev: "\<forall>m. resumeCursor opts = Some m \<longrightarrow>
         k < length (after m (lg p (selOf opts))) \<and> ev = after m (lg p (selOf opts)) ! k"
      using cursorWire_event(1) [OF law srv] unfolding wires_last [OF l] by blast
    have v': "vw_streams ?v' = (vw_streams ?v)(i \<mapsto> (p, opts, a, Suc k))" "vw_open ?v' = vw_open ?v" using st by simp_all
    have "handling (wc_driver c) = (\<lambda>_. {})" by (rule ext) (simp add: d)
    then have b: "boundInv lg ?v (wc_subscriptions c) (wc_subs c) (\<lambda>_. {})" using I(10,11) d by auto
    show ?thesis
    proof (cases "map_of (wc_subscriptions c) i")
      case None
      have "handling (DReader (RHandled n)) = (\<lambda>_. {})" by (rule ext) simp
      moreover have "boundInv lg ?v' (wc_subscriptions c) (wc_subs c) (\<lambda>_. {})"
        by (rule boundInv_count [OF b st v'(1)]) (simp_all add: None)
      ultimately show ?thesis using None v'(2) by simp
    next
      case (Some s)
      note s = boundInvD [OF b Some st]
      have sent: "\<forall>x m. \<not> wu_done (wc_subs c ! s) \<and> resumeCursor (wu_from (wc_subs c ! s)) = Some x \<and> resumeCursor opts = Some m \<longrightarrow>
           set (take k (after m (subLog lg (wc_subs c ! s)))) \<subseteq> set (chanSent (wu_events (wc_subs c ! s)))"
        using s(3) by simp
      note e = eventReady_bound [OF cursorWire_event(2) [OF law srv] s(2) sent ev]
      have bd: "boundInv lg ?v' (wc_subscriptions c) (wc_subs c) (handling (DReader (REvent s ev n)))"
      proof (rule boundInv_count [OF b st v'(1)])
        fix t x m
        assume t: "map_of (wc_subscriptions c) i = Some t" "\<not> wu_done (wc_subs c ! t)"
          "resumeCursor (wu_from (wc_subs c ! t)) = Some x" "resumeCursor opts = Some m"
        then have "t = s" using Some by simp
        then show "set (take (Suc k) (after m (subLog lg (wc_subs c ! t)))) \<subseteq>
            set (chanSent (wu_events (wc_subs c ! t))) \<union> handling (DReader (REvent s ev n)) t"
          using e(2) t(2-4) by simp
      qed simp
      have "readerInv lg ?v' (wc_subs c) (wc_calls c) (wc_resubs c) (DReader (REvent s ev n))"
        using e(1) s(1) by (simp only: readerInv.simps simp_thms)
      then show ?thesis unfolding Some option.case using bd by (intro conjI) (simp add: v'(2) del: viewStep.simps)
    qed
  qed
  then show "\<not> wc_done c \<Longrightarrow> set (vw_open ?v') \<subseteq> set (vw_open ?v)"
    "\<not> wc_done c \<Longrightarrow> readerInv lg ?v' (wc_subs c) (wc_calls c) (wc_resubs c) (DReader ?pc)"
    "\<not> wc_done c \<Longrightarrow> boundInv lg ?v' (wc_subscriptions c) (wc_subs c) (handling (DReader ?pc))"
    by blast+
qed simp_all

lemma handleFrame_inv:
  assumes law: "cursorWire srv lg" and inv: "wInv lg c" and d: "wc_driver c = DReader (RRead n)"
    and step: "handleFrame srv n data c = Some c'"
  shows "wInv lg c'"
proof -
  have f: "wc_fellBehind c \<Longrightarrow> \<not> wc_done c \<Longrightarrow> False" using wInv_parts(11) [OF inv] d by auto
  have move: "wInv lg (setReader pc c)" if "pc = RHandled n \<or> (\<exists>rs. pc = RResults rs n) \<or> (\<exists>ss e. pc = RError ss e n)" for pc
  proof (cases "wc_done c")
    case False
    then show ?thesis using that f by (intro wInv_reader [OF inv d]) auto
  qed (simp add: wInv_def)
  show ?thesis
  proof (cases "decodeFrame data")
    case (Some fr)
    show ?thesis
    proof (cases fr)
      case (FrameEvent i ev)
      then show ?thesis using step Some readEvent_inv [OF law inv d, of i ev] by (simp add: handleFrame_def handleSubscriptionError_def handleError_def split: if_split_asm)
    qed (use step Some move in \<open>auto simp: handleFrame_def handleSubscriptionError_def handleError_def split: if_splits option.splits\<close>)
  qed (use step move in \<open>auto simp: handleFrame_def handleSubscriptionError_def handleError_def\<close>)
qed

text \<open>Putting an event on a channel and moving the cursor.\<close>

lemma cursorOK_put:
  assumes "cursorOK lg u" "eventReady lg u ev"
  shows "cursorOK lg (u \<lparr> wu_events := chanPut ev (wu_events u) \<rparr>)"
proof -
  let ?u = "u \<lparr> wu_events := chanPut ev (wu_events u) \<rparr>"
  have "covers lg ?u b" if "covers lg u b" for b using covers_evolves [OF that] by simp
  moreover have "subLog lg ?u = subLog lg u" by (simp add: subLog_def)
  ultimately show ?thesis using assms by (fastforce simp: cursorOK_def eventReady_def)
qed

lemma covers_put:
  assumes "\<forall>q sel. sorted_wrt (\<lambda>a b. seqOf a < seqOf b) (lg q sel)" "eventReady lg u ev"
  shows "covers lg (u \<lparr> wu_events := chanPut ev (wu_events u) \<rparr>) (Suc (seqOf ev))"
proof -
  let ?u = "u \<lparr> wu_events := chanPut ev (wu_events u) \<rparr>"
  have L: "subLog lg ?u = subLog lg u" by (simp add: subLog_def)
  have s: "sorted_wrt (\<lambda>a b. seqOf a < seqOf b) (subLog lg u)" using assms(1) by (simp add: subLog_def)
  show ?thesis
    unfolding covers_def L
  proof (intro allI impI ballI)
    fix n e
    assume live: "\<not> wu_done ?u \<and> resumeCursor (wu_from ?u) = Some n" and e: "e \<in> set (subLog lg u)" "n < seqOf e \<and> seqOf e < Suc (seqOf ev)"
    then have ready: "ev \<in> set (subLog lg u)" "covers lg u (seqOf ev)" using assms(2) by (auto simp: eventReady_def)
    show "e \<in> set (chanSent (wu_events ?u))"
    proof (cases "seqOf e = seqOf ev")
      case True
      then show ?thesis using log_unique [OF s e(1) ready(1)] by simp
    next
      case False
      then show ?thesis using ready(2) live e by (auto simp: covers_def)
    qed
  qed
qed

lemma hasSequence_seqOf: "hasSequence ev = Some q \<Longrightarrow> q = seqOf ev"
  by (auto simp: hasSequence_def seqOf_def split: option.splits if_splits)

lemma cursorOK_move:
  assumes "cursorOK lg u" "covers lg u (Suc (seqOf ev))"
  shows "cursorOK lg (moveCursor ev u)"
proof (cases "hasSequence ev")
  case (Some q)
  then have q: "q = seqOf ev" by (rule hasSequence_seqOf)
  let ?u = "moveCursor ev u"
  have same: "wu_from ?u = wu_from u" "wu_done ?u = wu_done u" "wu_events ?u = wu_events u" "wu_Pattern ?u = wu_Pattern u"
    by (auto simp: moveCursor_def split: option.splits)
  then have L: "subLog lg ?u = subLog lg u" and C: "covers lg ?u b = covers lg u b" for b
    by (simp_all add: subLog_def covers_def)
  show ?thesis
    unfolding cursorOK_def same L C
  proof (intro conjI allI impI)
    assume "resumeCursor (wu_from u) = None"
    then have "resumeCursor (wu_options u) = None" using assms(1) by (simp add: cursorOK_def)
    then show "resumeCursor (wu_options ?u) = None" by (auto simp: moveCursor_def resumeCursor_def split: option.splits)
  next
    fix n assume n: "resumeCursor (wu_from u) = Some n"
    then obtain x p r where x: "wu_from u = Some x" "wu_options u = Some (x \<lparr> so_StartAfterSequence := Some p, so_Replay := r \<rparr>)"
      using assms(1) unfolding cursorOK_def by blast
    then have "wu_options ?u = Some (x \<lparr> so_StartAfterSequence := Some (seqOf ev), so_Replay := 0 \<rparr>)"
      using Some q by (simp add: moveCursor_def)
    then show "\<exists>opts q r. wu_from u = Some opts \<and> wu_options ?u = Some (opts \<lparr> so_StartAfterSequence := Some q, so_Replay := r \<rparr>)
        \<and> covers lg u (Suc q)" using x(1) assms(2) by blast
    show "set (chanSent (wu_events u)) \<subseteq> set (subLog lg u)" if "\<not> wu_done u"
      using assms(1) n that unfolding cursorOK_def by blast
  qed
qed (use assms in \<open>simp add: moveCursor_def split: option.splits\<close>)

text \<open>The reader is done with an event that was delivered, that no cursor subscription lost, or whose
  subscription is ending.\<close>

lemma boundInv_drop:
  assumes b: "boundInv lg v ids us (handling (DReader (RSend s ev n)))"
    and "wu_done (us ! s) \<or> resumeCursor (wu_from (us ! s)) = None \<or> ev \<in> set (chanSent (wu_events (us ! s)))"
  shows "boundInv lg v ids us (\<lambda>_. {})"
  unfolding boundInv_def
proof (intro allI impI)
  fix i t p opts a k
  assume i: "map_of ids i = Some t \<and> vw_streams v i = Some (p, opts, a, k)"
  note t = boundInvD [OF b conjunct1 [OF i] conjunct2 [OF i]]
  show "t < length us \<and> reqOK lg (us ! t) p opts \<and> (\<forall>n m. \<not> wu_done (us ! t) \<and> resumeCursor (wu_from (us ! t)) = Some n
      \<and> resumeCursor opts = Some m \<longrightarrow> set (take k (after m (subLog lg (us ! t)))) \<subseteq> set (chanSent (wu_events (us ! t))) \<union> {})"
    using t assms(2) by (cases "s = t") auto
qed

lemma wInv_done: "wc_done c \<Longrightarrow> wInv lg c" by (simp add: wInv_def)

lemma sendEvent_inv:
  assumes law: "\<forall>q sel. sorted_wrt (\<lambda>a b. seqOf a < seqOf b) (lg q sel)"
    and inv: "wInv lg c" and d: "wc_driver c = DReader (RSend s ev n)" and step: "sendEvent s ev n c = Some c'"
  shows "wInv lg c'"
proof (cases "wc_done c")
  case True
  then show ?thesis using step by (intro wInv_done) (auto simp: sendEvent_def Let_def updWsub_def split: if_splits)
next
  case False
  note I = wInv_parts [OF inv False]
  let ?f = "\<lambda>u. u \<lparr> wu_events := chanPut ev (wu_events u) \<rparr>"
  let ?c = "updWsub s ?f c" and ?pc = "if hasSequence ev = None then RHandled n else RCursor s ev n"
  have r: "s < length (wc_subs c)" "eventReady lg (wc_subs c ! s) ev" using I(8) d by simp_all
  have inv1: "wInv lg ?c" using cursorOK_put r(2) by (intro wInv_updWsub [OF inv]) simp_all
  have nd: "\<not> wc_done ?c" using False by (simp add: updWsub_def)
  note J = wInv_parts [OF inv1 nd]
  have d': "wc_driver ?c = DReader (RSend s ev n)" using d by (simp add: updWsub_def)
  have h: "handling (DReader ?pc) = (\<lambda>_. {})" by (rule ext) simp
  have fell: "\<not> wc_fellBehind ?c" using J(11) d' by auto
  have s: "s < length (wc_subs ?c)" "wc_subs ?c ! s = ?f (wc_subs c ! s)" using r(1) by (simp_all add: updWsub_def)
  have "wInv lg (setReader ?pc ?c)"
  proof (rule wInv_driver [OF inv1])
    have "callsInv (wc_calls ?c) (DReader ?pc)" using callsInv_other [OF J(3)] d' by simp
    moreover have "linkInv (wc_conn ?c) (wc_conns ?c) (DReader ?pc)" using J(6) d' by (auto simp: linkInv_def)
    moreover have "readerInv lg (curView (wc_conns ?c)) (wc_subs ?c) (wc_calls ?c) (wc_resubs ?c) (DReader ?pc)"
      using s covers_put [OF law r(2)] by simp
    ultimately show "linkInv (wc_conn ?c) (wc_conns ?c) (DReader ?pc) \<and> callsInv (wc_calls ?c) (DReader ?pc)
       \<and> readerInv lg (curView (wc_conns ?c)) (wc_subs ?c) (wc_calls ?c) (wc_resubs ?c) (DReader ?pc)
       \<and> (wc_fellBehind ?c \<longrightarrow> fellOK (DReader ?pc))" using fell by blast
    show "boundInv lg (curView (wc_conns ?c)) (wc_subscriptions ?c) (wc_subs ?c) (handling (DReader ?pc))"
      unfolding h
    proof (rule boundInv_drop)
      show "boundInv lg (curView (wc_conns ?c)) (wc_subscriptions ?c) (wc_subs ?c) (handling (DReader (RSend s ev n)))"
        using J(10) d' fell by simp
      show "wu_done (wc_subs ?c ! s) \<or> resumeCursor (wu_from (wc_subs ?c ! s)) = None \<or> ev \<in> set (chanSent (wu_events (wc_subs ?c ! s)))"
        using s by simp
    qed
  qed
  then show ?thesis using step wInv_panic [OF inv] by (auto simp: sendEvent_def Let_def split: if_splits)
qed

text \<open>Giving up on an event.\<close>

lemma wInv_giveUp:
  assumes inv: "wInv lg c" and d: "wc_driver c = DReader (RSend s ev n)"
    and w: "wu_done (wc_subs c ! s) \<or> resumeCursor (wu_options (wc_subs c ! s)) = None \<or> wc_done c"
  shows "wInv lg (setReader (RHandled n) c)"
proof (cases "wc_done c")
  case False
  note I = wInv_parts [OF inv False]
  have f: "\<not> wc_fellBehind c" using I(11) d by auto
  have s: "s < length (wc_subs c)" using I(8) d by simp
  have "resumeCursor (wu_from (wc_subs c ! s)) = None" if o: "resumeCursor (wu_options (wc_subs c ! s)) = None"
  proof (rule ccontr)
    assume "resumeCursor (wu_from (wc_subs c ! s)) \<noteq> None"
    then obtain x q r where "wu_options (wc_subs c ! s) = Some (x \<lparr> so_StartAfterSequence := Some q, so_Replay := r \<rparr>)"
      using I(1) s unfolding cursorOK_def by blast
    then show False using o by (simp add: resumeCursor_def)
  qed
  then have w': "wu_done (wc_subs c ! s) \<or> resumeCursor (wu_from (wc_subs c ! s)) = None \<or> ev \<in> set (chanSent (wu_events (wc_subs c ! s)))"
    using w False by metis
  have h: "handling (DReader (RHandled n)) = (\<lambda>_. {})" by (rule ext) simp
  show ?thesis
  proof (rule wInv_driver [OF inv])
    show "linkInv (wc_conn c) (wc_conns c) (DReader (RHandled n)) \<and> callsInv (wc_calls c) (DReader (RHandled n))
       \<and> readerInv lg (curView (wc_conns c)) (wc_subs c) (wc_calls c) (wc_resubs c) (DReader (RHandled n))
       \<and> (wc_fellBehind c \<longrightarrow> fellOK (DReader (RHandled n)))"
      using I(6) d callsInv_other [OF I(3)] by (auto simp: linkInv_def)
    show "boundInv lg (curView (wc_conns c)) (wc_subscriptions c) (wc_subs c) (handling (DReader (RHandled n)))"
      unfolding h using I(10) d f by (intro boundInv_drop [OF _ w']) simp
  qed
qed (simp add: wInv_done)

lemma wInv_timeout:
  assumes inv: "wInv lg c" and d: "wc_driver c = DReader (RSend s ev n)"
  shows "wInv lg (setReader (RHandled n) (c \<lparr> wc_fellBehind := True \<rparr>))"
proof (cases "wc_done c")
  case False
  note I = wInv_parts [OF inv False]
  then show ?thesis using d callsInv_other [OF I(3)] by (auto simp: wInv_def linkInv_def)
qed (simp add: wInv_done)

text \<open>The lost event ends the connection.\<close>

lemma wInv_dropConn:
  assumes inv: "wInv lg c" and d: "wc_driver c = DReader (RHandled n)"
  shows "wInv lg (setReader (RLost e) (c \<lparr> wc_fellBehind := False, wc_conns := (wc_conns c)[n := (wc_conns c ! n) \<lparr> wn_closed := True \<rparr>] \<rparr>))"
    (is "wInv lg (setReader _ (_ \<lparr> wc_fellBehind := _, wc_conns := ?ns \<rparr>))")
proof (cases "wc_done c")
  case False
  note I = wInv_parts [OF inv False]
  have l: "wc_conns c \<noteq> []" "n = length (wc_conns c) - 1" using I(6) d by (auto simp: linkInv_def)
  have v: "curView ?ns = curView (wc_conns c)" using l by (simp add: curView_def last_list_update last_conv_nth)
  have h: "wn_hist ` set ?ns = wn_hist ` set (wc_conns c)"
  proof -
    have "map wn_hist ?ns = map wn_hist (wc_conns c)" by (rule nth_equalityI) (simp_all add: nth_upd)
    then show ?thesis by (metis set_map)
  qed
  have f: "freshInv (wc_subscriptions c) ?ns (wc_subs c)"
    unfolding freshInv_def
  proof (intro allI impI)
    fix i s assume "(i, s) \<in> set (wc_subscriptions c)"
    then obtain m where m: "s < length (wc_subs c)" "m \<in> set (wc_conns c)" "vw_streams (wireView (wn_hist m)) i \<noteq> None"
      using I(7) unfolding freshInv_def by blast
    then obtain m' where "m' \<in> set ?ns" "wn_hist m' = wn_hist m" using h by (metis (no_types, lifting) imageE imageI)
    then show "s < length (wc_subs c) \<and> (\<exists>m\<in>set ?ns. vw_streams (wireView (wn_hist m)) i \<noteq> None)"
      using m by (metis (no_types))
  qed
  have "linkInv (wc_conn c) ?ns (DReader (RLost e))" using I(6) by (auto simp: linkInv_def)
  moreover have "callsInv (wc_calls c) (DReader (RLost e))" using callsInv_other [OF I(3)] d by simp
  ultimately show ?thesis using I(1,2,4,5) I(9) f v by (simp add: wInv_def)
qed (simp add: wInv_done)

section \<open>Results\<close>

text \<open>The id of an accepted request is handed to its call.\<close>

lemma deliver_inv:
  assumes inv: "wInv lg c" and d: "wc_driver c = DReader (RDeliver k r rs n)" and room: "wl_result (wc_calls c ! k) = None"
  shows "wInv lg (setReader (RHandoff k r rs n) (offerResult (resultOf r) (OfCall k) c))"
proof (cases "wc_done c")
  case True
  then show ?thesis by (intro wInv_done) (simp add: updCall_def)
next
  case False
  note I = wInv_parts [OF inv False]
  define ls where "ls = (wc_calls c)[k := (wc_calls c ! k) \<lparr> wl_result := Some (resultOf r) \<rparr>]"
  let ?d = "DReader (RHandoff k r rs n)"
  have c': "setReader (RHandoff k r rs n) (offerResult (resultOf r) (OfCall k) c) = c \<lparr> wc_calls := ls, wc_driver := ?d \<rparr>"
    by (simp add: updCall_def room ls_def)
  have g: "callsGrow (wc_calls c) ls" by (simp add: ls_def)
  have "callsInv ls ?d"
    using I(3) d by (auto simp: ls_def callsInv_def nth_upd handed_def resultOf_def split: if_splits)
  moreover have "linkInv (wc_conn c) (wc_conns c) ?d" using I(6) d by (auto simp: linkInv_def)
  moreover have "readerInv lg (curView (wc_conns c)) (wc_subs c) ls (wc_resubs c) ?d"
    using readerInv_grow [OF I(8) subsGrow_refl g grow_refl(2)] unfolding d readerInv.simps .
  moreover have "handling ?d = handling (wc_driver c)" by (rule ext) (simp add: d)
  moreover have "\<not> wc_fellBehind c" using I(11) d by auto
  moreover have "\<forall>e\<in>set (wc_pending c). pendingOK (wc_subs c) ls (wc_resubs c) e" using I(4) pendingOK_grow [OF _ g grow_refl(2)] by blast
  moreover have "\<forall>x\<in>set (wc_restores c). restoreOK lg (wc_subs c) ls (wc_resubs c) x"
    using I(5) restoreOK_grow [OF _ subsGrow_refl g grow_refl(2)] by blast
  moreover have "wc_conn c \<noteq> None \<longrightarrow> (\<forall>x\<in>set (vw_open (curView (wc_conns c))). reqOf lg (wc_subs c) ls (wc_resubs c) x)"
    using I(9) reqOf_grow [OF _ subsGrow_refl g grow_refl(2)] by blast
  ultimately show ?thesis using I(1,2,7,10) d unfolding c' by (simp add: wInv_def)
qed

text \<open>The reader goes on from a handover when the call has finished.\<close>

lemma handoff_inv:
  assumes inv: "wInv lg c" and d: "wc_driver c = DReader (RHandoff k r rs n)"
    and k: "wc_done c \<or> wl_done (wc_calls c ! k) \<or> wl_canceled (wc_calls c ! k)"
    and pc: "pc = RResults rs n \<or> pc = giveBack r (OfCall k) rs n \<and> wl_canceled (wc_calls c ! k)"
  shows "wInv lg (setReader pc c)"
proof (cases "wc_done c")
  case False
  note I = wInv_parts [OF inv False]
  have kl: "k < length (wc_calls c)" using I(8) d by simp
  then have "finished (wl_at (wc_calls c ! k))" using I(3) k False by (auto simp: callsInv_def)
  then have nh: "\<not> handed (wc_calls c ! k) i" for i by (auto simp: handed_def)
  have p: "readerConn (DReader pc) = Some n" "liveReader (DReader pc)" "\<And>i j. \<not> handsOver (DReader pc) i j"
    "readerInv lg (curView (wc_conns c)) (wc_subs c) (wc_calls c) (wc_resubs c) (DReader pc)"
    using pc kl by (auto simp: giveBack_def split: if_splits)
  have h: "handling (wc_driver c) = (\<lambda>_. {})" "handling (DReader pc) = (\<lambda>_. {})"
    by (rule ext, use d pc in \<open>auto simp: giveBack_def split: if_splits\<close>)+
  show ?thesis
  proof (rule wInv_driver [OF inv])
    have "callsInv (wc_calls c) (DReader pc)"
      by (rule callsInv_other [OF I(3)]) (use nh d in auto)
    moreover have "linkInv (wc_conn c) (wc_conns c) (DReader pc)" "wc_fellBehind c \<longrightarrow> fellOK (DReader pc)"
      using I(6,11) d p by (auto simp: linkInv_def)
    moreover note p(4)
    ultimately show "linkInv (wc_conn c) (wc_conns c) (DReader pc) \<and> callsInv (wc_calls c) (DReader pc)
       \<and> readerInv lg (curView (wc_conns c)) (wc_subs c) (wc_calls c) (wc_resubs c) (DReader pc)
       \<and> (wc_fellBehind c \<longrightarrow> fellOK (DReader pc))" by blast
    show "boundInv lg (curView (wc_conns c)) (wc_subscriptions c) (wc_subs c) (handling (DReader pc))" if "\<not> wc_fellBehind c"
      using I(10) d that h by simp
  qed
qed (simp add: wInv_done)

text \<open>A renewed subscription is bound to its new id: nothing was read for it yet.\<close>

lemma bind_inv:
  assumes inv: "wInv lg c" and d: "wc_driver c = DReader (RRebind s j r rs n)" and ok: "wr_Status r = ''ok''"
  shows "wInv lg (setReader (RComplete r (OfResub j) rs n)
      (c \<lparr> wc_subscriptions := AList.update (wr_SubscriptionID r) s (AList.delete i0 (wc_subscriptions c)),
           wc_subByPattern := x \<rparr>))"
proof (cases "wc_done c")
  case False
  note I = wInv_parts [OF inv False]
  let ?id = "wr_SubscriptionID r"
  let ?ids = "AList.update ?id s (AList.delete i0 (wc_subscriptions c))" and ?d = "DReader (RComplete r (OfResub j) rs n)"
  obtain opts where o: "s < length (wc_subs c)" "vw_streams (curView (wc_conns c)) ?id = Some (wr_Pattern r, opts, OfResub j, 0)"
      "reqOK lg (wc_subs c ! s) (wr_Pattern r) opts"
    using I(8) d ok by auto
  have ns: "wc_conns c \<noteq> []" using I(6) d by (auto simp: linkInv_def)
  have f: "\<not> wc_fellBehind c" using I(11) d by auto
  have h: "handling (wc_driver c) = (\<lambda>_. {})" "handling ?d = (\<lambda>_. {})" by (rule ext, simp add: d)+
  have "freshInv ?ids (wc_conns c) (wc_subs c)"
    unfolding freshInv_def
  proof (intro allI impI)
    fix i t assume "(i, t) \<in> set ?ids"
    then consider "i = ?id" "t = s" | "(i, t) \<in> set (wc_subscriptions c)" using set_updateD set_delete by fast
    then show "t < length (wc_subs c) \<and> (\<exists>n\<in>set (wc_conns c). vw_streams (wireView (wn_hist n)) i \<noteq> None)"
    proof cases
      case 1
      have v: "vw_streams (wireView (wn_hist (last (wc_conns c)))) i \<noteq> None" using o(2) ns 1(1) by (simp add: curView_def)
      have "\<exists>n\<in>set (wc_conns c). vw_streams (wireView (wn_hist n)) i \<noteq> None"
        by (rule bexI [of _ "last (wc_conns c)"]) (use v ns in simp_all)
      then show ?thesis using o(1) 1(2) by blast
    next
      case 2
      then show ?thesis using I(7) unfolding freshInv_def by blast
    qed
  qed
  moreover have "boundInv lg (curView (wc_conns c)) ?ids (wc_subs c) (\<lambda>_. {})"
  proof -
    have b: "boundInv lg (curView (wc_conns c)) (wc_subscriptions c) (wc_subs c) (\<lambda>_. {})" using I(10) d f h by simp
    show ?thesis
      unfolding boundInv_def
    proof (intro allI impI)
      fix i t p opts' a k
      assume i: "map_of ?ids i = Some t \<and> vw_streams (curView (wc_conns c)) i = Some (p, opts', a, k)"
      show "t < length (wc_subs c) \<and> reqOK lg (wc_subs c ! t) p opts' \<and> (\<forall>n m. \<not> wu_done (wc_subs c ! t)
          \<and> resumeCursor (wu_from (wc_subs c ! t)) = Some n \<and> resumeCursor opts' = Some m \<longrightarrow>
          set (take k (after m (subLog lg (wc_subs c ! t)))) \<subseteq> set (chanSent (wu_events (wc_subs c ! t))) \<union> {})"
      proof (cases "i = ?id")
        case True
        then show ?thesis using i o by (auto simp: update_conv')
      next
        case False
        then have "map_of (wc_subscriptions c) i = Some t" using i by (auto simp: update_conv' delete_conv' split: if_splits)
        then show ?thesis using boundInvD [OF b _ conjunct2 [OF i]] by blast
      qed
    qed
  qed
  moreover have "callsInv (wc_calls c) ?d" using callsInv_other [OF I(3)] d by simp
  moreover have "linkInv (wc_conn c) (wc_conns c) ?d" using I(6) d by (auto simp: linkInv_def)
  ultimately show ?thesis using I(1,2,4,5,9) h(2) f by (simp add: wInv_def)
qed (simp add: wInv_done)

lemma rebindSub_inv:
  assumes inv: "wInv lg c" and d: "wc_driver c = DReader (RRebind s j r rs n)"
  shows "wInv lg (rebindSub s j r rs n c)"
proof -
  have move: "wInv lg (setReader pc c)" if "pc = RComplete r (OfResub j) rs n \<or> pc = RUnsub r (OfResub j) rs n" for pc
  proof (cases "wc_done c")
    case False
    then show ?thesis using that wInv_parts(11) [OF inv False] d by (intro wInv_reader [OF inv d]) auto
  qed (simp add: wInv_done)
  have stop: "wInv lg (setReader (RTermOnce s j r rs n) (updWsub s (\<lambda>u. if chanRoom (wu_errors u) then u \<lparr> wu_errors := f u \<rparr> else u)
      (c \<lparr> wc_subscriptions := AList.delete i (wc_subscriptions c), wc_subByPattern := x \<rparr>)))" for i x f
  proof -
    let ?c = "updWsub s (\<lambda>u. if chanRoom (wu_errors u) then u \<lparr> wu_errors := f u \<rparr> else u)
      (c \<lparr> wc_subscriptions := AList.delete i (wc_subscriptions c), wc_subByPattern := x \<rparr>)"
    have inv1: "wInv lg ?c" by (rule wInv_updWsub [OF wInv_forget [OF inv]]) simp_all
    have d1: "wc_driver ?c = DReader (RRebind s j r rs n)" using d by (simp add: updWsub_def)
    show ?thesis
    proof (cases "wc_done ?c")
      case False
      then show ?thesis using wInv_parts(8,11) [OF inv1 False] d1 by (intro wInv_reader [OF inv1 d1]) auto
    qed (simp add: wInv_done)
  qed
  show ?thesis unfolding rebindSub_def Let_def using move stop bind_inv [OF inv d] by simp
qed

lemma termOnce_inv:
  assumes inv: "wInv lg c" and d: "wc_driver c = DReader (RTermOnce s j r rs n)"
    and c': "c' = closeChans s c \<or> c' = closeChans s (updWsub s (\<lambda>u. u \<lparr> wu_done := True, wu_once := OnceEnd \<rparr>) c)"
  shows "wInv lg (setReader (RComplete r (OfResub j) rs n) c')"
proof -
  have inv1: "wInv lg c'" using c' by (auto intro!: wInv_closeChans wInv_updWsub inv)
  have d1: "wc_driver c' = DReader (RTermOnce s j r rs n)" using c' d by (auto simp: closeChans_def updWsub_def)
  show ?thesis
  proof (cases "wc_done c'")
    case False
    then show ?thesis using wInv_parts(11) [OF inv1 False] d1 by (intro wInv_reader [OF inv1 d1]) auto
  qed (simp add: wInv_done)
qed

section \<open>All steps\<close>

lemma cursorWire_sorted: "cursorWire srv lg \<Longrightarrow> \<forall>q sel. sorted_wrt (\<lambda>a b. seqOf a < seqOf b) (lg q sel)"
  unfolding cursorWire_def by blast

lemma attempts_done:
  "wc_done (discardPendingResubscribeAttempts c) = wc_done c" "wc_done (failPendingSubscribeAttempts e c) = wc_done c"
proof -
  have m: "wc_done (fold markDone as x) = wc_done x" for as x
  proof (induction as arbitrary: x)
    case (Cons a as) then show ?case by (cases a) (simp_all add: updCall_def)
  qed simp
  have o: "wc_done (fold (offerResult r) as x) = wc_done x" for r as x
  proof (induction as arbitrary: x)
    case (Cons a as) then show ?case by (cases a) (simp_all add: updCall_def)
  qed simp
  show "wc_done (discardPendingResubscribeAttempts c) = wc_done c" "wc_done (failPendingSubscribeAttempts e c) = wc_done c"
    by (simp_all add: failPendingSubscribeAttempts_def discardPendingResubscribeAttempts_def dropPending_def Let_def m o)
qed

lemma sendSubError_driver: "sendSubError s e c = Some c' \<Longrightarrow> wc_driver c' = wc_driver c \<and> wc_fellBehind c' = wc_fellBehind c"
  by (auto simp: sendSubError_def Let_def updWsub_def split: if_splits)

lemma wInv_move:
  assumes inv: "wInv lg c" and d: "wc_driver c = DReader pc"
    and "\<And>k i. \<not> handsOver (DReader pc) k i"
    and "\<not> wc_done c \<Longrightarrow> wc_fellBehind c \<Longrightarrow> fellOK (DReader pc')"
    and "liveReader (DReader pc') \<Longrightarrow> liveReader (DReader pc) \<and> (\<forall>s. handling (DReader pc) s \<subseteq> handling (DReader pc') s)"
    and "\<And>n. readerConn (DReader pc') = Some n \<Longrightarrow> readerConn (DReader pc) = Some n \<or> wc_conn c = Some n"
    and "\<not> wc_done c \<Longrightarrow> readerInv lg (curView (wc_conns c)) (wc_subs c) (wc_calls c) (wc_resubs c) (DReader pc')"
  shows "wInv lg (setReader pc' c)"
proof (cases "wc_done c")
  case False
  then show ?thesis using assms(3-7) by (intro wInv_reader [OF inv d]) auto
qed (simp add: wInv_done)

lemma fell_reader: "wInv lg c \<Longrightarrow> wc_driver c = DReader pc \<Longrightarrow> \<not> wc_done c \<Longrightarrow> wc_fellBehind c \<Longrightarrow> fellOK (DReader pc)"
  using wInv_parts(11) by fastforce

text \<open>The steps of the reader in three groups: events and errors, results, and the end of the connection.\<close>

fun readingPc :: "rpc \<Rightarrow> nat" where
  "readingPc RTop = 0" | "readingPc RConn = 0" | "readingPc (RRead _) = 0" | "readingPc (RHandled _) = 0"
| "readingPc (REvent _ _ _) = 0" | "readingPc (RSend _ _ _) = 0" | "readingPc (RCursor _ _ _) = 0" | "readingPc (RError _ _ _) = 0"
| "readingPc (RLost _) = 2" | "readingPc (RDisc _) = 2" | "readingPc (RPending _) = 2" | "readingPc (RSettle _ _) = 2"
| "readingPc _ = 1"

lemma readerStep_read:
  assumes law: "cursorWire srv lg" and inv: "wInv lg c" and d: "wc_driver c = DReader pc"
    and sync: "inSync c" and step: "readerStep srv auto pc ch c = Some c'" and nd: "\<not> (wc_done c \<and> wc_done c')"
    and pc: "readingPc pc = 0"
  shows "wInv lg c'"
proof -
  note False = nd and move = wInv_move [OF inv d] and fell = fell_reader [OF inv d]
  show ?thesis
    using pc
  proof (cases pc)
    case RTop
    show ?thesis
    proof (cases "wc_done c")
      case True
      then show ?thesis using step RTop False by (auto simp: reader_steps split: wchoice.splits)
    next
      case nd: False
      then show ?thesis using step RTop move [of RConn] fell by (auto simp: reader_steps split: wchoice.splits)
    qed
  next
    case RConn
    have "wc_done c \<or> wc_conn c \<noteq> None" using wInv_parts(6) [OF inv] d RConn by (auto simp: linkInv_def)
    then show ?thesis using step RConn move [of "RRead (the (wc_conn c))"] fell False
      by (auto simp: reader_steps wInv_done split: wchoice.splits if_splits option.splits)
  next
    case (RRead n)
    show ?thesis
    proof (cases ch)
      case (VFrame data)
      then show ?thesis using step RRead handleFrame_inv [OF law inv d [unfolded RRead]] by (auto simp: reader_steps split: if_splits)
    next
      case (VFails e)
      then show ?thesis using step RRead move [of "RLost e"] fell by (auto simp: reader_steps)
    qed (use step RRead in \<open>auto simp: reader_steps\<close>)
  next
    case (RHandled n)
    then show ?thesis using step move [of RTop] wInv_dropConn [OF inv d [unfolded RHandled]]
      by (auto simp: reader_steps split: wchoice.splits)
  next
    case (REvent s ev n)
    then show ?thesis using step move [of "RSend s ev n"] fell wInv_parts(8) [OF inv] d
      by (auto simp: reader_steps split: wchoice.splits)
  next
    case (RSend s ev n)
    note d' = d [unfolded RSend]
    show ?thesis using step RSend sendEvent_inv [OF cursorWire_sorted [OF law] inv d'] wInv_giveUp [OF inv d'] wInv_timeout [OF inv d']
      by (cases ch) (auto simp: reader_steps split: if_splits)
  next
    case (RCursor s ev n)
    have inv1: "wInv lg (updWsub s (moveCursor ev) c)" if "\<not> wc_done c"
      by (rule wInv_updWsub [OF inv]) (use wInv_parts(8) [OF inv that] d RCursor cursorOK_move in auto)
    have d1: "wc_driver (updWsub s (moveCursor ev) c) = DReader (RCursor s ev n)" using d RCursor by (simp add: updWsub_def)
    have "wInv lg (setReader (RHandled n) (updWsub s (moveCursor ev) c))"
    proof (cases "wc_done c")
      case nd: False
      show ?thesis by (rule wInv_reader [OF inv1 [OF nd] d1]) simp_all
    qed (simp add: wInv_done updWsub_def)
    then show ?thesis using step RCursor by (auto simp: reader_steps split: wchoice.splits if_splits)
  next
    case (RError ss e n)
    show ?thesis
    proof (cases ss)
      case Nil
      then show ?thesis using step RError move [of "RHandled n"] by (auto simp: reader_steps split: wchoice.splits)
    next
      case (Cons s ss')
      have "wInv lg (setReader (RError ss' e n) c1)" if s: "sendSubError s e c = Some c1" for c1
      proof (cases "wc_done c1")
        case nd: False
        have d1: "wc_driver c1 = DReader (RError ss e n)" using sendSubError_driver [OF s] d RError by simp
        show ?thesis
          by (rule wInv_reader [OF sendSubError_inv [OF inv s] d1])
             (use wInv_parts(11) [OF sendSubError_inv [OF inv s] nd] d1 in auto)
      qed (simp add: wInv_done)
      then show ?thesis using step RError Cons move [of "RError ss' e n"] fell
        by (auto simp: reader_steps split: wchoice.splits if_splits)
    qed
  qed simp_all
qed

lemma readerStep_result:
  assumes law: "cursorWire srv lg" and inv: "wInv lg c" and d: "wc_driver c = DReader pc"
    and sync: "inSync c" and step: "readerStep srv auto pc ch c = Some c'" and nd: "\<not> (wc_done c \<and> wc_done c')"
    and pc: "readingPc pc = 1"
  shows "wInv lg c'"
proof -
  note False = nd and move = wInv_move [OF inv d] and fell = fell_reader [OF inv d]
  show ?thesis
    using pc
  proof (cases pc)
    case (RResults rs n)
    show ?thesis
    proof (cases rs)
      case Nil
      then show ?thesis using step RResults move [of "RHandled n"] by (auto simp: reader_steps split: wchoice.splits)
    next
      case (Cons r rs')
      then show ?thesis using step RResults takeResult_inv [OF law inv d [unfolded RResults Cons] sync]
        by (auto simp: reader_steps split: wchoice.splits)
    qed
  next
    case (RDeliver k r rs n)
    have "readerInv lg (curView (wc_conns c)) (wc_subs c) (wc_calls c) (wc_resubs c) (DReader (RHandoff k r rs n))" if "\<not> wc_done c"
      using wInv_parts(8) [OF inv that] d RDeliver by simp
    then have "wInv lg (setReader (RHandoff k r rs n) c)" using move [of "RHandoff k r rs n"] RDeliver fell by auto
    then show ?thesis using step RDeliver deliver_inv [OF inv d [unfolded RDeliver]]
      by (cases ch) (auto simp: reader_steps split: if_splits)
  next
    case (RHandoff k r rs n)
    then show ?thesis using step handoff_inv [OF inv d [unfolded RHandoff]]
      by (cases ch) (auto simp: reader_steps split: if_splits)
  next
    case (RUnsub r a rs n)
    then obtain w err c1 where s: "wsSendJSON w (HReq (WsUnsubscribe (wr_SubscriptionID r))) c = Some (err, c1)"
        "c' = setReader (RComplete r a rs n) c1"
      using step by (auto simp: reader_steps split: wchoice.splits)
    have inv1: "wInv lg c1" by (rule wInv_send [OF inv s(1)]) simp
    have d1: "wc_driver c1 = DReader (RUnsub r a rs n)" using wsSendJSON_same [OF s(1)] d RUnsub by simp
    show ?thesis
    proof (cases "wc_done c1")
      case nd: False
      show ?thesis unfolding s(2)
        by (rule wInv_reader [OF inv1 d1]) (use wInv_parts(8,11) [OF inv1 nd] d1 in auto)
    qed (simp add: wInv_done s(2))
  next
    case (RComplete r a rs n)
    let ?c = "completeSubscribeAttempt (wr_Pattern r) a c"
    show ?thesis
    proof (cases "wc_done c")
      case nd: False
      have "isFinished c a"
        using wInv_parts(3,8) [OF inv nd] d RComplete by (auto simp: isFinished_def callsInv_def)
      then have s: "sameRest c ?c" by (rule complete_rest)
      have inv1: "wInv lg ?c" by (rule wInv_rest [OF inv s])
      have d1: "wc_driver ?c = DReader (RComplete r a rs n)" "wc_fellBehind ?c = wc_fellBehind c" using s d RComplete by (simp_all add: sameRest_def)
      have "wInv lg (setReader (RResults rs n) ?c)"
        by (rule wInv_reader [OF inv1 d1(1)]) (use fell nd RComplete d1(2) in auto)
      then show ?thesis using step RComplete by (auto simp: reader_steps split: wchoice.splits)
    next
      case True
      then have "wc_done c'" using step RComplete
        by (cases a) (auto simp: reader_steps completeSubscribeAttempt_def updCall_def split: wchoice.splits if_splits)
      then show ?thesis by (rule wInv_done)
    qed
  next
    case (RRebind s j r rs n)
    then show ?thesis using step rebindSub_inv [OF inv d [unfolded RRebind]] by (auto simp: reader_steps split: wchoice.splits if_splits)
  next
    case (RTermOnce s j r rs n)
    then show ?thesis using step termOnce_inv [OF inv d [unfolded RTermOnce]]
      by (auto simp: reader_steps split: wchoice.splits if_splits wonce.splits)
  qed simp_all
qed

lemma readerStep_end:
  assumes law: "cursorWire srv lg" and inv: "wInv lg c" and d: "wc_driver c = DReader pc"
    and sync: "inSync c" and step: "readerStep srv auto pc ch c = Some c'" and nd: "\<not> (wc_done c \<and> wc_done c')"
    and pc: "readingPc pc = 2"
  shows "wInv lg c'"
proof -
  note False = nd and move = wInv_move [OF inv d] and fell = fell_reader [OF inv d]
  show ?thesis
    using pc
  proof (cases pc)
    case (RLost e)
    show ?thesis
    proof (cases "wc_done c")
      case nd: False
      then show ?thesis using step RLost move [of "RDisc e"] fell by (auto simp: reader_steps split: wchoice.splits)
    qed (use step RLost False in \<open>auto simp: reader_steps split: wchoice.splits\<close>)
  next
    case (RDisc e)
    let ?c = "c \<lparr> wc_state := StateDisconnected, wc_conn := None \<rparr>"
    have "wInv lg (setReader pc' ?c)" if "pc' = RSettle True e \<or> pc' = RPending e" for pc'
    proof (cases "wc_done c")
      case nd: False
      have "callsInv (wc_calls c) (DReader pc')" using callsInv_other [OF wInv_parts(3) [OF inv nd]] d RDisc by simp
      then show ?thesis using wInv_parts [OF inv nd] that d RDisc by (auto simp: wInv_def linkInv_def)
    qed (simp add: wInv_done)
    then show ?thesis using step RDisc by (auto simp: reader_steps split: wchoice.splits if_splits)
  next
    case (RPending e)
    then show ?thesis using step move [of "RSettle (hasPendingCursorSubscription c) e"] fell by (auto simp: reader_steps split: wchoice.splits)
  next
    case (RSettle au e)
    have rest: "wInv lg (c1 \<lparr> wc_driver := d1 \<rparr>)" if s: "sameRest c c1" and d1: "d1 = DSched \<or> d1 = DNone" and nd: "\<not> wc_done c" for c1 d1
    proof (rule wInv_noReader [OF wInv_rest [OF inv s]])
      show "\<not> wc_fellBehind c1" "\<And>k i. \<not> handsOver (wc_driver c1) k i" using s fell nd RSettle d by (auto simp: sameRest_def)
    qed (use d1 in auto)
    show ?thesis
    proof (cases "wc_done c")
      case nd: False
      note I = wInv_parts(3) [OF inv nd]
      show ?thesis using step RSettle rest [OF discard_rest [OF I] _ nd] rest [OF fail_rest [OF I] _ nd]
        by (auto simp: reader_steps split: wchoice.splits if_splits)
    next
      case True
      then have "wc_done c'" using step RSettle attempts_done
        by (auto simp: reader_steps split: wchoice.splits if_splits)
      then show ?thesis by (rule wInv_done)
    qed
  qed simp_all
qed

lemma readerStep_inv:
  assumes "cursorWire srv lg" "wInv lg c" "wc_driver c = DReader pc" "inSync c" "readerStep srv auto pc ch c = Some c'"
  shows "wInv lg c'"
proof (cases "wc_done c \<and> wc_done c'")
  case False
  have "readingPc pc = 0 \<or> readingPc pc = 1 \<or> readingPc pc = 2" by (cases pc) simp_all
  then show ?thesis using readerStep_read [OF assms False] readerStep_result [OF assms False] readerStep_end [OF assms False] by blast
qed (simp add: wInv_done)

text \<open>Only \<open>Close\<close> closes the client.\<close>

definition closeSame :: "wclient \<Rightarrow> wclient \<Rightarrow> bool" where
  "closeSame c c' \<longleftrightarrow> wc_close c' = wc_close c \<and> wc_done c' = wc_done c"

lemma closeSame_upd [simp]:
  "closeSame c (updCall k f c') = closeSame c c'" "closeSame c (updWsub s g c') = closeSame c c'"
  "closeSame c (appendWire n e c') = closeSame c c'" "closeSame c c" "closeSame c (closeChans s c') = closeSame c c'"
  by (simp_all add: closeSame_def updCall_def updWsub_def appendWire_def closeChans_def)

lemma closeSame_fields [simp]:
  "closeSame c (c' \<lparr> wc_driver := d \<rparr>) = closeSame c c'" "closeSame c (c' \<lparr> wc_restores := x \<rparr>) = closeSame c c'"
  "closeSame c (c' \<lparr> wc_pending := x1 \<rparr>) = closeSame c c'" "closeSame c (c' \<lparr> wc_resubs := x2 \<rparr>) = closeSame c c'"
  "closeSame c (c' \<lparr> wc_state := x3 \<rparr>) = closeSame c c'" "closeSame c (c' \<lparr> wc_conn := x4 \<rparr>) = closeSame c c'"
  "closeSame c (c' \<lparr> wc_conns := x5 \<rparr>) = closeSame c c'" "closeSame c (c' \<lparr> wc_fellBehind := x6 \<rparr>) = closeSame c c'"
  "closeSame c (c' \<lparr> wc_subscriptions := x7 \<rparr>) = closeSame c c'" "closeSame c (c' \<lparr> wc_subByPattern := x8 \<rparr>) = closeSame c c'"
  "closeSame c (c' \<lparr> wc_reconnectAttempt := x9 \<rparr>) = closeSame c c'" "closeSame c (c' \<lparr> wc_calls := xa \<rparr>) = closeSame c c'"
  "closeSame c (c' \<lparr> wc_panicked := xb \<rparr>) = closeSame c c'" "closeSame c (c' \<lparr> wc_subs := xc \<rparr>) = closeSame c c'"
  by (simp_all add: closeSame_def)

lemma closeSame_send: "wsSendJSON w e c = Some (err, c') \<Longrightarrow> closeSame c c'"
  by (auto simp: wsSendJSON_def split: if_splits option.splits)

lemma closeSame_ops [simp]:
  "closeSame c (markDone a c') = closeSame c c'" "closeSame c (offerResult r a c') = closeSame c c'"
  by (cases a; simp)+

lemma closeSame_folds [simp]:
  "closeSame c (fold markDone as c') = closeSame c c'" "closeSame c (fold (offerResult r) as c') = closeSame c c'"
  by (induction as arbitrary: c') simp_all

lemma closeSame_pending [simp]:
  "closeSame c (completeSubscribeAttempt p a c') = closeSame c c'" "closeSame c (cancelSubscribeAttempt p k c') = closeSame c c'"
  "closeSame c (dropPending P c') = closeSame c c'" "closeSame c (discardPendingResubscribeAttempts c') = closeSame c c'"
  "closeSame c (failPendingSubscribeAttempts e c') = closeSame c c'"
  by (simp_all add: completeSubscribeAttempt_def cancelSubscribeAttempt_def dropPending_def discardPendingResubscribeAttempts_def
      failPendingSubscribeAttempts_def Let_def)

lemma closeSame_subError: "sendSubError s e c = Some c' \<Longrightarrow> closeSame c c'"
  by (auto simp: sendSubError_def Let_def split: if_splits)

lemma closeSame_call: "wcallStep k ch c = Some c' \<Longrightarrow> closeSame c c'"
  by (auto simp: wcallStep_def Let_def installSub_def split: wcall_at.splits wchoice.splits if_splits option.splits sum.splits
      dest!: closeSame_send)

lemma closeSame_reader: "readerStep srv auto pc ch c = Some c' \<Longrightarrow> closeSame c c'"
  by (cases pc; cases ch)
     (auto simp: reader_steps handleFrame_def handleSubscriptionError_def handleError_def takeResult_def rebindSub_def sendEvent_def Let_def
      split: if_splits option.splits list.splits wonce.splits ws_frame.splits dest!: closeSame_send closeSame_subError)

lemma closeSame_driver: "driverStep srv auto ch c = Some c' \<Longrightarrow> closeSame c c'"
  by (auto simp: driverStep_def dialed_def split: driver.splits wchoice.splits if_splits dest: closeSame_reader)

lemma closeSame_report: "reportError ch s e c = Some c' \<Longrightarrow> closeSame c c'"
  by (auto simp: reportError_def Let_def split: if_splits wchoice.splits dest: closeSame_subError)

lemma closeSame_restore: "restoreStep i ch c = Some c' \<Longrightarrow> closeSame c c'"
  by (cases "wc_restores c ! i"; cases ch)
     (auto simp: restore_steps split: if_splits list.splits prod.splits dest!: closeSame_send closeSame_report)

lemma closeSame_remove: "removeByPattern s c = Some c' \<Longrightarrow> closeSame c c'"
  by (auto simp: removeByPattern_def Let_def split: if_splits option.splits)

lemma wstep_closeSame:
  assumes "wstep srv auto a c = Some c'" "a \<noteq> WClose"
  shows "closeSame c c'"
  using assms
  by (cases a) (auto simp: wstep_def split: if_splits wonce.splits
      dest!: closeSame_send dest: closeSame_driver closeSame_call closeSame_restore closeSame_remove)

definition closingInv :: "wclient \<Rightarrow> bool" where
  "closingInv c \<longleftrightarrow> wc_close c = CsOpen \<or> wc_done c"

lemma clear_done [simp]: "wc_done (clearPendingSubscribeAttempts c) = wc_done c"
  using closeSame_pending(3) [of c "\<lambda>_. True" c] by (simp add: closeSame_def clearPendingSubscribeAttempts_def)

lemma closeStep_done: "closeStep c = Some c' \<Longrightarrow> closingInv c \<Longrightarrow> wc_done c'"
  by (auto simp: closeStep_def closingInv_def closeChans_def updWsub_def split: wclose.splits if_splits list.splits)

lemma wstep_closing: "wstep srv auto a c = Some c' \<Longrightarrow> closingInv c \<Longrightarrow> closingInv c'"
  using wstep_closeSame [of srv auto a c c'] closeStep_done [of c c']
  by (cases "a = WClose") (auto simp: wstep_def closingInv_def closeSame_def split: if_splits)

section \<open>The invariant holds in every run\<close>

lemma driverStep_inv:
  assumes law: "cursorWire srv lg" and inv: "wInv lg c" and sync: "inSync c" and step: "driverStep srv auto ch c = Some c'"
  shows "wInv lg c'"
proof (cases "\<exists>pc. wc_driver c = DReader pc")
  case True
  then show ?thesis using step readerStep_inv [OF law inv _ sync] by (auto simp: driverStep_def)
next
  case False
  then have nr: "\<And>k i. \<not> handsOver (wc_driver c) k i" by (cases "wc_driver c") auto
  have nf: "\<not> wc_done c \<Longrightarrow> \<not> wc_fellBehind c" using wInv_parts(11) [OF inv] False by (cases "wc_driver c") auto
  have move: "wInv lg (c \<lparr> wc_driver := d \<rparr>)" if "\<And>pc. d \<noteq> DReader pc" for d
    by (rule wInv_noReader [OF inv]) (use that nr nf in \<open>cases d; simp\<close>)+
  have state: "wInv lg (c1 \<lparr> wc_state := x, wc_driver := d \<rparr>) \<longleftrightarrow> wInv lg (c1 \<lparr> wc_driver := d \<rparr>)"
    "wInv lg (c1 \<lparr> wc_state := x, wc_reconnectAttempt := y, wc_driver := d \<rparr>) \<longleftrightarrow> wInv lg (c1 \<lparr> wc_driver := d \<rparr>)" for c1 x y d
    by (simp_all add: wInv_def)
  have dial: "wInv lg (dialed c)"
  proof (cases "wc_done c")
    case nd: False
    note I = wInv_parts [OF inv nd]
    have v: "curView (wc_conns c @ [\<lparr> wn_closed = False, wn_hist = [] \<rparr>]) = \<lparr> vw_open = [], vw_streams = Map.empty \<rparr>"
      by (simp add: curView_def)
    have f: "freshInv (wc_subscriptions c) (wc_conns c @ [\<lparr> wn_closed = False, wn_hist = [] \<rparr>]) (wc_subs c)"
      using I(7) unfolding freshInv_def by auto
    have "callsInv (wc_calls c) (DReader RTop)" using callsInv_other [OF I(3)] nr by blast
    then show ?thesis using I(1,2,4,5) f nf nd by (auto simp: wInv_def dialed_def v linkInv_def boundInv_def)
  qed (simp add: wInv_done dialed_def)
  show ?thesis
    by (use step False in \<open>cases "wc_driver c"; cases ch\<close>)
       (auto simp: driverStep_def move dial state split: if_splits)
qed

lemma wstep_inv:
  assumes law: "cursorWire srv lg" and inv: "wInv lg c" "inSync c" "closingInv c"
    and step: "wstep srv auto a c = Some c'" and sync: "inSync c'"
  shows "wInv lg c'"
proof (cases a)
  case WConnect
  have "wInv lg (c \<lparr> wc_driver := DConnect True \<rparr>)" if "wc_driver c = DNone"
    by (rule wInv_noReader [OF inv(1)]) (use that wInv_parts(11) [OF inv(1)] in auto)
  then show ?thesis using step WConnect by (auto simp: wstep_def split: if_splits)
next
  case (WDrive ch)
  then show ?thesis using step driverStep_inv [OF law inv(1,2)] by (auto simp: wstep_def split: if_splits)
next
  case (WSubscribe p opts)
  have "wInv lg (c \<lparr> wc_calls := wc_calls c @ [newCall p opts] \<rparr>)"
    by (rule wInv_frame [OF inv(1)])
       (use wInv_parts(1-3) [OF inv(1)] in \<open>auto simp: callsInv_def nth_append handed_def newCall_def less_Suc_eq\<close>)
  then show ?thesis using step WSubscribe by (auto simp: wstep_def split: if_splits)
next
  case (WsCall k ch)
  then show ?thesis using step wcallStep_inv [OF inv(1)] by (auto simp: wstep_def split: if_splits)
next
  case (WRestore i ch)
  then show ?thesis using step restoreStep_inv [OF inv(1) _ _ sync] by (auto simp: wstep_def split: if_splits)
next
  case (WUnsubscribe s)
  then show ?thesis using step wInv_updWsub [OF inv(1)] by (auto simp: wstep_def split: if_splits)
next
  case (WRemove s)
  then show ?thesis using step removeByPattern_inv [OF inv(1)] by (auto simp: wstep_def split: if_splits)
next
  case (WUnsubSend s w)
  then obtain subID err c1 where s: "wsSendJSON w (HReq (WsUnsubscribe subID)) c = Some (err, c1)"
      "c' = updWsub s (\<lambda>u. u \<lparr> wu_once := OnceEnd \<rparr>) c1"
    using step by (auto simp: wstep_def split: if_splits wonce.splits)
  then show ?thesis using wInv_updWsub [OF wInv_send [OF inv(1) s(1)]] by simp
next
  case (WAckCall s t ev delay w)
  then obtain q err where "wsSendJSON w (HReq q) c = Some (err, c')"
    using step by (auto simp: wstep_def split: if_splits)
  then show ?thesis using wInv_send [OF inv(1)] by blast
next
  case (WTakeEvent s)
  then show ?thesis using step wInv_updWsub [OF inv(1)] by (auto simp: wstep_def split: if_splits)
next
  case (WTakeError s)
  then show ?thesis using step wInv_updWsub [OF inv(1)] by (auto simp: wstep_def split: if_splits)
next
  case WClose
  then show ?thesis using step closeStep_done inv(3) by (auto simp: wstep_def wInv_done split: if_splits)
qed

interpretation ws_delivery: step_invariant "syncStep srv auto"
    "\<lambda>c. cursorWire srv lg \<longrightarrow> wInv lg c \<and> inSync c \<and> closingInv c" for srv auto lg
  by unfold_locales (auto simp: syncStep_def split: option.splits if_splits intro: wstep_inv wstep_closing)


section \<open>Runs\<close>

text \<open>A server that keeps the law with a log of two events, and frames it writes.\<close>

definition wsDemoEvent :: "nat \<Rightarrow> subscription_event" where
  "wsDemoEvent q = \<lparr> se_ID = ''e'' @ itoa q, se_Topic = ''t'', se_Data = Raw JNull,
     se_Meta = Some \<lparr> em_Timestamp = [], em_Sequence = q, em_SequenceExact = [] \<rparr> \<rparr>"

definition wsDemoLog :: "subscription_event list" where
  "wsDemoLog = [wsDemoEvent 1, wsDemoEvent 2]"

definition logWire :: ws_server where
  "logWire hs item \<longleftrightarrow> hs \<noteq> [] \<and>
     (case item of
        SrvResult r \<Rightarrow> wr_Pattern r \<in> fst ` set (vw_open (wireView (last hs)))
          \<and> (wr_Status r = ''ok'' \<longrightarrow> list_all (\<lambda>h. vw_streams (wireView h) (wr_SubscriptionID r) = None) hs)
      | SrvEvent i ev \<Rightarrow>
          (case vw_streams (wireView (last hs)) i of
             None \<Rightarrow> False
           | Some (p, opts, a, k) \<Rightarrow>
               (case resumeCursor opts of
                  None \<Rightarrow> True
                | Some n \<Rightarrow> k < length (after n wsDemoLog) \<and> ev = after n wsDemoLog ! k)))"

lemma logWire_law: "cursorWire logWire (\<lambda>_ _. wsDemoLog)"
  by (auto simp: cursorWire_def logWire_def list_all_iff wsDemoLog_def wsDemoEvent_def seqOf_def split: option.splits)

definition resultFrame :: "string \<Rightarrow> string \<Rightarrow> string \<Rightarrow> raw" where
  "resultFrame p st i = Raw (JObj [(''type'', JStr ''subscription_result''), (''results'', JArr [JObj
     [(''pattern'', JStr p), (''status'', JStr st), (''subscriptionId'', JStr i)]])])"

definition eventFrame :: "string \<Rightarrow> nat \<Rightarrow> raw" where
  "eventFrame i q = Raw (JObj [(''type'', JStr ''event''), (''subscriptionId'', JStr i), (''eventId'', JStr (''e'' @ itoa q)),
     (''topic'', JStr ''t''), (''data'', JNull), (''meta'', JObj [(''timestamp'', JStr []), (''sequence'', JNum (itoa q))])])"

definition wsConnectActs :: "wact list" where
  "wsConnectActs = [WConnect, WDrive VGo, WDrive VDialed, WRestore 0 (VOrder []), WRestore 0 VGo]"

definition readActs :: "raw \<Rightarrow> wact list" where
  "readActs f = [WDrive VGo, WDrive VGo, WDrive (VFrame f)]"

definition requestActs :: "nat \<Rightarrow> string \<Rightarrow> subscribe_options option \<Rightarrow> wact list" where
  "requestActs k p opts = [WSubscribe p opts, WsCall k VGo, WsCall k VGo, WsCall k VGo, WsCall k (VWrite None)]"

definition acceptActs :: "nat \<Rightarrow> string \<Rightarrow> string \<Rightarrow> wact list" where
  "acceptActs k p i = readActs (resultFrame p ''ok'' i) @ [WDrive VGo, WDrive VSend, WsCall k VGo, WsCall k VGo, WsCall k VGo,
     WDrive VDone, WDrive VGo, WDrive VGo]"

definition deliverActs :: "string \<Rightarrow> nat \<Rightarrow> wact list" where
  "deliverActs i q = readActs (eventFrame i q) @ [WDrive VGo, WDrive VSend, WDrive VGo, WDrive VGo]"

definition reconnectActs :: "wact list" where
  "reconnectActs = [WDrive VGo, WDrive VGo, WDrive (VFails (ENew ''eof'')), WDrive VGo, WDrive VGo, WDrive VGo, WDrive VGo,
     WDrive VTimeout, WDrive VGo, WDrive VDialed]"

definition renewActs :: "string \<Rightarrow> wact list" where
  "renewActs p = [WRestore 1 (VOrder [(p, 0)]), WRestore 1 VGo, WRestore 1 VGo, WRestore 1 (VWrite None)]"

definition fromStart :: "subscribe_options option" where
  "fromStart = Some (noOptions \<lparr> so_StartAfterSequence := Some 0 \<rparr>)"

definition resumeActs :: "wact list" where
  "resumeActs = wsConnectActs @ requestActs 0 ''p'' fromStart @ acceptActs 0 ''p'' ''s1'' @ deliverActs ''s1'' 1 @ reconnectActs @
     renewActs ''p'' @ readActs (resultFrame ''p'' ''ok'' ''s2'') @ [WDrive VGo, WDrive VGo, WDrive VGo, WDrive VGo, WDrive VGo]
     @ deliverActs ''s2'' 2"

lemma resume_run:
  "map_option (\<lambda>c. (map (\<lambda>u. (resumeCursor (wu_options u), resumeCursor (wu_from u), wu_done u)) (wc_subs c), wc_done c))
     (runSteps (syncStep logWire True) resumeActs newSubscriptionClient) = Some ([(Some 2, Some 0, False)], False)"
  by code_simp


end
