(* ===== verification/Ws_Races.thy ===== *)
theory Ws_Races
  imports Ws_Delivery
begin

text \<open>
  Schedules of the WebSocket client that end badly: requests sent twice and answered to the wrong call, a
  pattern subscribed twice, a send on a closed channel, and a deadlock of \<open>Unsubscribe\<close> and the reader.
\<close>

section \<open>Races\<close>

text \<open>A request sent while the connection is being restored goes out twice: the call of \<open>Subscribe\<close> sends it,
  and \<open>resendPendingInitialSubscriptions\<close> sends it again. The server accepts both, and the second answer
  is ignored: its subscription lives on at the server.\<close>

definition doubledActs :: "wact list" where
  "doubledActs = wsConnectActs @ reconnectActs @ requestActs 0 ''p'' None @
     [WRestore 1 (VOrder []), WRestore 1 VGo, WRestore 1 VGo, WRestore 1 (VWrite None), WRestore 1 VGo]"

theorem doubled_request_leaks_subscription:
  "\<exists>c. runSteps (wstep logWire True) (doubledActs @ acceptActs 0 ''p'' ''s1'' @ readActs (resultFrame ''p'' ''ok'' ''s2'') @
        [WDrive VGo, WDrive VGo, WDrive VGo]) newSubscriptionClient = Some c
     \<and> map snd (wc_subscriptions c) = [0] \<and> map_of (wc_subscriptions c) ''s1'' = Some 0
     \<and> vw_streams (curView (wc_conns c)) ''s2'' \<noteq> None
     \<and> HReq (WsUnsubscribe ''s2'') \<notin> set (concat (wires c)) \<and> wc_pending c = []"
proof -
  have "map_option (\<lambda>c. map snd (wc_subscriptions c) = [0] \<and> map_of (wc_subscriptions c) ''s1'' = Some 0
     \<and> vw_streams (curView (wc_conns c)) ''s2'' \<noteq> None
     \<and> HReq (WsUnsubscribe ''s2'') \<notin> set (concat (wires c)) \<and> wc_pending c = [])
    (runSteps (wstep logWire True) (doubledActs @ acceptActs 0 ''p'' ''s1'' @ readActs (resultFrame ''p'' ''ok'' ''s2'') @
        [WDrive VGo, WDrive VGo, WDrive VGo]) newSubscriptionClient) = Some True"
    by code_simp
  then show ?thesis by auto
qed

text \<open>Worse, a later \<open>Subscribe\<close> of the pattern takes the late answer for its own: it asked for the events
  after a cursor, and is bound to a subscription that was requested without one.\<close>

definition misboundActs :: "wact list" where
  "misboundActs = doubledActs @ acceptActs 0 ''p'' ''s1'' @ [WUnsubscribe 0, WRemove 0, WUnsubSend 0 None] @
     requestActs 1 ''p'' fromStart @ acceptActs 1 ''p'' ''s2''"

theorem doubled_request_binds_another:
  "\<exists>c. runSteps (wstep logWire True) misboundActs newSubscriptionClient = Some c
     \<and> map_of (wc_subscriptions c) ''s2'' = Some 1 \<and> wu_from (wc_subs c ! 1) = fromStart
     \<and> map_option (\<lambda>(p, opts, a, k). (p, opts)) (vw_streams (curView (wc_conns c)) ''s2'') = Some (''p'', None)"
proof -
  have "map_option (\<lambda>c. map_of (wc_subscriptions c) ''s2'' = Some 1 \<and> wu_from (wc_subs c ! 1) = fromStart
     \<and> map_option (\<lambda>(p, opts, a, k). (p, opts)) (vw_streams (curView (wc_conns c)) ''s2'') = Some (''p'', None))
     (runSteps (wstep logWire True) misboundActs newSubscriptionClient) = Some True" by code_simp
  then show ?thesis by auto
qed

text \<open>Two calls of \<open>Subscribe\<close> for one pattern can both succeed: the check for an active subscription is made
  before the pending attempt is looked up, and the first call finishes between the two. \<open>Unsubscribe\<close> on
  the first handle then closes the channels of the second.\<close>

definition twiceActs :: "wact list" where
  "twiceActs = wsConnectActs @ requestActs 0 ''p'' None @ [WSubscribe ''p'' None, WsCall 1 VGo, WsCall 1 VGo] @
     acceptActs 0 ''p'' ''s1'' @ [WsCall 1 VGo, WsCall 1 (VWrite None)] @ acceptActs 1 ''p'' ''s2''"

theorem one_pattern_subscribed_twice:
  "\<exists>c. runSteps (wstep logWire True) (twiceActs @ [WUnsubscribe 0, WRemove 0]) newSubscriptionClient = Some c
     \<and> map wl_at (wc_calls c) = [WcReturned (Inr 0), WcReturned (Inr 1)]
     \<and> map (\<lambda>u. (wu_done u, ch_closed (wu_events u))) (wc_subs c) = [(True, False), (False, True)]"
proof -
  have "map_option (\<lambda>c. map wl_at (wc_calls c) = [WcReturned (Inr 0), WcReturned (Inr 1)]
     \<and> map (\<lambda>u. (wu_done u, ch_closed (wu_events u))) (wc_subs c) = [(True, False), (False, True)])
     (runSteps (wstep logWire True) (twiceActs @ [WUnsubscribe 0, WRemove 0]) newSubscriptionClient) = Some True"
    by code_simp
  then show ?thesis by auto
qed

text \<open>An event for a subscription that is being removed is sent on its closed channel when \<open>select\<close> takes that
  case: the reader looked the subscription up before, and takes \<open>sendMu\<close> after it was closed.\<close>

theorem ws_unsubscribe_during_delivery_panics:
  "\<exists>c. runSteps (wstep logWire True) (wsConnectActs @ requestActs 0 ''p'' None @ acceptActs 0 ''p'' ''s1'' @
        readActs (eventFrame ''s1'' 1) @ [WUnsubscribe 0, WRemove 0, WDrive VGo, WDrive VSend]) newSubscriptionClient = Some c
     \<and> wc_panicked c"
proof -
  have "map_option wc_panicked (runSteps (wstep logWire True) (wsConnectActs @ requestActs 0 ''p'' None @ acceptActs 0 ''p'' ''s1'' @
        readActs (eventFrame ''s1'' 1) @ [WUnsubscribe 0, WRemove 0, WDrive VGo, WDrive VSend]) newSubscriptionClient) = Some True"
    by code_simp
  then show ?thesis by auto
qed

section \<open>The deadlock of Unsubscribe and a refused renewal\<close>

text \<open>\<open>terminateWebSocketSubscription\<close> runs the \<open>Once\<close> of the subscription while it holds \<open>mu\<close>, and \<open>Unsubscribe\<close>
  takes \<open>mu\<close> inside the \<open>Once\<close>.\<close>

definition locked :: "nat \<Rightarrow> wclient \<Rightarrow> bool" where
  "locked s c \<longleftrightarrow> (\<exists>j r rs n. wc_driver c = DReader (RTermOnce s j r rs n)) \<and> s < length (wc_subs c)
     \<and> wu_once (wc_subs c ! s) = OnceRemove"

lemma locked_mu: "locked s c \<Longrightarrow> \<not> wMuFree c"
  by (auto simp: locked_def wMuFree_def)

lemma locked_cong:
  "locked s c \<Longrightarrow> wc_driver c' = wc_driver c \<Longrightarrow> wc_subs c' = wc_subs c \<Longrightarrow> locked s c'"
  by (simp add: locked_def)

lemma locked_updWsub [simp]:
  "(\<And>u. wu_once (f u) = wu_once u) \<Longrightarrow> locked s (updWsub t f c) = locked s c"
  by (auto simp: locked_def updWsub_def nth_upd)

text \<open>What the other goroutines do without \<open>mu\<close> leaves the reader and the subscriptions alone.\<close>

lemma attempts_keep:
  "wc_driver (markDone a c) = wc_driver c \<and> wc_subs (markDone a c) = wc_subs c"
  "wc_driver (offerResult r a c) = wc_driver c \<and> wc_subs (offerResult r a c) = wc_subs c"
  by (cases a; simp add: updCall_def)+

lemma attempts_keep_all:
  "wc_driver (fold markDone as c) = wc_driver c \<and> wc_subs (fold markDone as c) = wc_subs c"
  by (induction as arbitrary: c) (simp_all add: attempts_keep)

lemma pending_keep:
  "wc_driver (completeSubscribeAttempt p a c) = wc_driver c \<and> wc_subs (completeSubscribeAttempt p a c) = wc_subs c"
  "wc_driver (cancelSubscribeAttempt p k c) = wc_driver c \<and> wc_subs (cancelSubscribeAttempt p k c) = wc_subs c"
  "wc_driver (dropPending P c) = wc_driver c \<and> wc_subs (dropPending P c) = wc_subs c"
  by (simp_all add: completeSubscribeAttempt_def cancelSubscribeAttempt_def dropPending_def attempts_keep attempts_keep_all updCall_def)

lemma locked_call:
  assumes "wcallStep k ch c = Some c'" "\<not> wMuFree c"
  shows "wc_driver c' = wc_driver c \<and> wc_subs c' = wc_subs c"
  using assms pending_keep(1,2)
  by (cases "wl_at (wc_calls c ! k)"; cases ch)
     (auto simp: wcallStep_def Let_def updCall_def wsSendJSON_def split: option.splits sum.splits if_splits)

lemma locked_restore:
  assumes "restoreStep i ch c = Some c'" "\<not> wMuFree c"
  shows "wc_driver c' = wc_driver c \<and> wc_subs c' = wc_subs c"
  using assms pending_keep attempts_keep
  by (cases "wc_restores c ! i"; cases ch)
     (auto simp: restore_steps wsSendJSON_def reportError_def updCall_def split: if_splits list.splits prod.splits)

lemma locked_close: "closeStep c = Some c' \<Longrightarrow> locked s c \<Longrightarrow> locked s c'"
  using locked_mu [of s c] pending_keep(3) [of "\<lambda>_. True" c]
  by (auto simp: closeStep_def closeChans_def clearPendingSubscribeAttempts_def locked_def updWsub_def nth_upd
      split: wclose.splits list.splits if_splits)

lemma locked_step:
  assumes step: "wstep srv auto a c = Some c'" and lk: "locked s c"
  shows "locked s c'"
proof -
  note mu = locked_mu [OF lk]
  have np: "\<not> wc_panicked c" using step by (auto simp: wstep_def)
  have d: "wc_driver c \<noteq> DNone" "\<And>ch. driverStep srv auto ch c = None"
    using lk by (auto simp: locked_def driverStep_def reader_steps split: wchoice.splits)
  show ?thesis
  proof (cases a)
    case (WsCall k ch)
    then have s: "wcallStep k ch c = Some c'" using step np by (simp add: wstep_def split: if_splits)
    show ?thesis by (rule locked_cong [OF lk]) (use locked_call [OF s mu] in simp_all)
  next
    case (WRestore i ch)
    then have s: "restoreStep i ch c = Some c'" using step np by (simp add: wstep_def split: if_splits)
    show ?thesis by (rule locked_cong [OF lk]) (use locked_restore [OF s mu] in simp_all)
  next
    case (WUnsubscribe t)
    then show ?thesis using step np lk by (auto simp: wstep_def locked_def updWsub_def nth_upd split: if_splits)
  next
    case WClose
    then show ?thesis using step np locked_close [OF _ lk] by (simp add: wstep_def)
  qed (use step np lk mu d in \<open>auto simp: wstep_def removeByPattern_def wsSendJSON_def locked_def updWsub_def nth_upd
      split: if_splits wonce.splits\<close>)
qed

interpretation ws_deadlock: step_invariant "wstep srv auto" "locked s" for srv auto s
  by unfold_locales (rule locked_step)

definition deadlockActs :: "wact list" where
  "deadlockActs = wsConnectActs @ requestActs 0 ''p'' None @ acceptActs 0 ''p'' ''s1'' @ reconnectActs @ renewActs ''p'' @
     readActs (resultFrame ''p'' ''error'' []) @ [WDrive VGo, WUnsubscribe 0, WDrive VGo]"

text \<open>C40. An unsubscription that meets a refused renewal stops the client for ever: the lock is never free again,
  whatever is done, so that no \<open>Subscribe\<close>, \<open>Unsubscribe\<close> or \<open>Close\<close> ends.\<close>

theorem unsubscribe_deadlocks_client:
  "\<exists>c. runSteps (wstep logWire True) deadlockActs newSubscriptionClient = Some c
     \<and> (\<forall>c'. reaches (wstep logWire True) c c' \<longrightarrow> \<not> wMuFree c' \<and> wu_once (wc_subs c' ! 0) = OnceRemove)"
proof -
  have "map_option (\<lambda>c. readerHoldsMu (wc_driver c) \<and> map wu_once (wc_subs c) = [OnceRemove]
      \<and> (case wc_driver c of DReader (RTermOnce 0 _ _ _ _) \<Rightarrow> True | _ \<Rightarrow> False))
     (runSteps (wstep logWire True) deadlockActs newSubscriptionClient) = Some True" by code_simp
  then obtain c where c: "runSteps (wstep logWire True) deadlockActs newSubscriptionClient = Some c"
    "map wu_once (wc_subs c) = [OnceRemove]" "case wc_driver c of DReader (RTermOnce 0 _ _ _ _) \<Rightarrow> True | _ \<Rightarrow> False"
    by auto
  have "locked 0 c" using c(2,3) by (auto simp: locked_def split: driver.splits rpc.splits nat.splits)
  then have "\<not> wMuFree c' \<and> wu_once (wc_subs c' ! 0) = OnceRemove" if "reaches (wstep logWire True) c c'" for c'
    using ws_deadlock.reached_keep [OF that, of 0] locked_mu [of 0 c'] unfolding locked_def by blast
  then show ?thesis using c(1) by blast
qed

text \<open>Witness: \<open>Close\<close> is called then, and finds the lock taken.\<close>

theorem unsubscribe_deadlocks_client_witness:
  "\<exists>c c'. runSteps (wstep logWire True) deadlockActs newSubscriptionClient = Some c
     \<and> wstep logWire True WClose c = Some c' \<and> \<not> wMuFree c'"
proof -
  obtain c where c: "runSteps (wstep logWire True) deadlockActs newSubscriptionClient = Some c"
    "\<And>c'. reaches (wstep logWire True) c c' \<Longrightarrow> \<not> wMuFree c'"
    using unsubscribe_deadlocks_client by blast
  have "map_option (\<lambda>c. (wc_panicked c, wc_close c)) (runSteps (wstep logWire True) deadlockActs newSubscriptionClient) = Some (False, CsOpen)"
    by code_simp
  then obtain c' where c': "wstep logWire True WClose c = Some c'" using c(1) by (auto simp: wstep_def closeStep_def)
  then have "\<not> wMuFree c'" by (intro c(2) reaches.moved [OF reaches.here])
  then show ?thesis using c(1) c' by blast
qed

end
