(* ===== verification/Run_Events.thy ===== *)
theory Run_Events
  imports Subscription_Wire
begin

text \<open>
  Frames about runs (\<^verbatim>\<open>src/ironflow/run_events.go\<close>): \<open>RunVersionFilter\<close>, which drops late frames, with
  its map into a linked list of versions. It is refined against a cache of pairs ordered by use, and for
  streams that fit the cache against a predicate on the frames seen before.
\<close>

section \<open>The payload of a run frame\<close>

record run_event =
  rn_ID :: string
  rn_FunctionID :: string
  rn_EventID :: string
  rn_ExecutionMode :: string
  rn_Status :: string
  rn_Attempt :: int
  rn_MaxAttempts :: int
  rn_Version :: int
  rn_CreatedAt :: string
  rn_UpdatedAt :: string
  rn_StartedAt :: string
  rn_CompletedAt :: string
  rn_Output :: raw
  rn_Error :: raw
  rn_Timestamp :: string

definition intField :: "(string \<times> json) list \<Rightarrow> string \<Rightarrow> bool \<times> int" where
  "intField kvs name = assignInt (fieldValues kvs name) 0"

text \<open>\<open>ParseRunEvent\<close>; \<open>None\<close> is the decoder's error.\<close>

definition parseRunEvent :: "subscription_event \<Rightarrow> run_event option" where
  "parseRunEvent event =
     (case se_Data event of
        RawNone \<Rightarrow> None
      | RawBad _ \<Rightarrow> None
      | Raw j \<Rightarrow>
          (let kvs = (case j of JObj kvs \<Rightarrow> kvs | _ \<Rightarrow> []);
               strs = map (strField kvs) [''id'', ''functionId'', ''eventId'', ''executionMode'', ''status'',
                 ''createdAt'', ''updatedAt'', ''startedAt'', ''completedAt'', ''timestamp''];
               ints = map (intField kvs) [''attempt'', ''maxAttempts'', ''version'']
           in if (case j of JObj _ \<Rightarrow> True | JNull \<Rightarrow> True | _ \<Rightarrow> False) \<and> list_all fst strs \<and> list_all fst ints
              then Some \<lparr> rn_ID = snd (strs ! 0), rn_FunctionID = snd (strs ! 1), rn_EventID = snd (strs ! 2),
                rn_ExecutionMode = snd (strs ! 3), rn_Status = snd (strs ! 4), rn_Attempt = snd (ints ! 0),
                rn_MaxAttempts = snd (ints ! 1), rn_Version = snd (ints ! 2), rn_CreatedAt = snd (strs ! 5),
                rn_UpdatedAt = snd (strs ! 6), rn_StartedAt = snd (strs ! 7), rn_CompletedAt = snd (strs ! 8),
                rn_Output = assignRaw (fieldValues kvs ''output''),
                rn_Error = assignRaw (fieldValues kvs ''error''), rn_Timestamp = snd (strs ! 9) \<rparr>
              else None))"

section \<open>The filter\<close>

record run_version =
  rv_runID :: string
  rv_version :: int

text \<open>An element of the linked list has an address; \<open>highest\<close> maps a key to one. The list stands front
  first, with each element's value beside its address.\<close>

record version_filter =
  vf_MaxRuns :: int
  vf_highest :: "(string \<rightharpoonup> nat) option"
  vf_recency :: "(nat \<times> run_version) list"
  vf_fresh :: nat

definition defaultRunVersionFilterMaxRuns :: int where
  "defaultRunVersionFilterMaxRuns = 10000"

definition emptyFilter :: "int \<Rightarrow> version_filter" where
  "emptyFilter n = \<lparr> vf_MaxRuns = n, vf_highest = None, vf_recency = [], vf_fresh = 0 \<rparr>"

definition newRunVersionFilter :: version_filter where
  "newRunVersionFilter = emptyFilter defaultRunVersionFilterMaxRuns"

definition filterLimit :: "version_filter \<Rightarrow> nat" where
  "filterLimit f = nat (if vf_MaxRuns f \<le> 0 then defaultRunVersionFilterMaxRuns else vf_MaxRuns f)"

text \<open>The element a key leads to, if any.\<close>

definition elementOf :: "string \<Rightarrow> version_filter \<Rightarrow> (nat \<times> run_version) option" where
  "elementOf k f =
     (case vf_highest f of
        None \<Rightarrow> None
      | Some hi \<Rightarrow> (case hi k of None \<Rightarrow> None | Some a \<Rightarrow> find (\<lambda>x. fst x = a) (vf_recency f)))"

definition openFilter :: "version_filter \<Rightarrow> version_filter" where
  "openFilter f = (if vf_highest f = None then f \<lparr> vf_highest := Some Map.empty, vf_recency := [] \<rparr> else f)"

fun joinDots :: "string list \<Rightarrow> string" where
  "joinDots [] = []"
| "joinDots [s] = s"
| "joinDots (s # t # ss) = s @ CHR ''.'' # joinDots (t # ss)"

text \<open>The local \<open>payload\<close> struct; \<open>None\<close> is the decoder's error.\<close>

definition decodeVersion :: "raw \<Rightarrow> int option" where
  "decodeVersion data =
     (case data of
        Raw (JObj kvs) \<Rightarrow> (let (ok, v) = intField kvs ''version'' in if ok then Some v else None)
      | Raw JNull \<Rightarrow> Some 0
      | _ \<Rightarrow> None)"

text \<open>The loop that forgets from the front while the list is too long.\<close>

fun evictOldest :: "nat \<Rightarrow> (string \<rightharpoonup> nat) \<Rightarrow> (nat \<times> run_version) list \<Rightarrow> (string \<rightharpoonup> nat) \<times> (nat \<times> run_version) list" where
  "evictOldest limit hi [] = (hi, [])"
| "evictOldest limit hi (x # xs) =
     (if length (x # xs) > limit then evictOldest limit (hi(rv_runID (snd x) := None)) xs else (hi, x # xs))"

text \<open>The end of \<open>Accept\<close>: compare with what the key leads to and move it to the back, or add it.\<close>

definition rankFrame :: "bool \<Rightarrow> string \<Rightarrow> int \<Rightarrow> version_filter \<Rightarrow> bool \<times> version_filter" where
  "rankFrame deleted k version f =
     (case elementOf k f of
        Some (a, seen) \<Rightarrow>
          if \<not> deleted \<and> version < rv_version seen then (False, f)
          else (True, f \<lparr> vf_recency := filter (\<lambda>x. fst x \<noteq> a) (vf_recency f)
                            @ [(a, seen \<lparr> rv_version := version \<rparr>)] \<rparr>)
      | None \<Rightarrow>
          (let a = vf_fresh f;
               hi = (case vf_highest f of None \<Rightarrow> Map.empty | Some hi \<Rightarrow> hi)(k \<mapsto> a);
               (hi', xs) = evictOldest (filterLimit f) hi
                 (vf_recency f @ [(a, \<lparr> rv_runID = k, rv_version = version \<rparr>)])
           in (True, f \<lparr> vf_highest := Some hi', vf_recency := xs, vf_fresh := a + 1 \<rparr>)))"

definition acceptFrame :: "subscription_event \<Rightarrow> version_filter \<Rightarrow> bool \<times> version_filter" where
  "acceptFrame event f =
     (let parts = splitOn CHR ''.'' (se_Topic event);
          isStep = (length parts \<ge> 6 \<and> parts ! 3 = ''step'')
      in if (\<not> isStep \<and> length parts \<noteq> 4) \<or> parts ! 0 \<noteq> ''system'' \<or> parts ! 1 \<noteq> ''run'' then (True, f)
         else (let runID = parts ! 2; leaf = parts ! 3; f = openFilter f;
                   deleted = (\<not> isStep \<and> leaf = ''deleted'')
               in if \<not> deleted \<and> (case elementOf runID f of None \<Rightarrow> False | Some (_, seen) \<Rightarrow> rv_version seen = -1)
                  then (False, f)
                  else (let k = (if isStep then joinDots (take (length parts - 3) (drop 2 parts)) else runID)
                        in if deleted then rankFrame True k (-1) f
                           else (case decodeVersion (se_Data event) of
                                   None \<Rightarrow> (True, f)
                                 | Some v \<Rightarrow> if v < 1 then (True, f) else rankFrame False k v f))))"

text \<open>What the filter answers to a sequence of frames.\<close>

fun acceptAll :: "subscription_event list \<Rightarrow> version_filter \<Rightarrow> bool list" where
  "acceptAll [] f = []"
| "acceptAll (e # es) f = (let (b, f') = acceptFrame e f in b # acceptAll es f')"

section \<open>Specification\<close>

text \<open>What a frame is about: nothing the filter ranks, the deletion of a run, or a run and a key under
  it with a usable version, if it has one.\<close>

datatype frame_kind = Foreign | Deleted string | Ranked string string "int option"

definition frameKind :: "subscription_event \<Rightarrow> frame_kind" where
  "frameKind event =
     (let parts = splitOn CHR ''.'' (se_Topic event);
          isStep = (length parts \<ge> 6 \<and> parts ! 3 = ''step'');
          v = (case decodeVersion (se_Data event) of None \<Rightarrow> None | Some v \<Rightarrow> if v < 1 then None else Some v)
      in if (\<not> isStep \<and> length parts \<noteq> 4) \<or> parts ! 0 \<noteq> ''system'' \<or> parts ! 1 \<noteq> ''run'' then Foreign
         else if isStep then Ranked (parts ! 2) (joinDots (take (length parts - 3) (drop 2 parts))) v
         else if parts ! 3 = ''deleted'' then Deleted (parts ! 2)
         else Ranked (parts ! 2) (parts ! 2) v)"

text \<open>A cache of at most \<open>limit\<close> keys, least recently ranked first.\<close>

type_synonym version_cache = "(string \<times> int) list"

definition cacheRank :: "nat \<Rightarrow> string \<Rightarrow> int \<Rightarrow> version_cache \<Rightarrow> version_cache" where
  "cacheRank limit k v c =
     (let c' = filter (\<lambda>p. fst p \<noteq> k) c @ [(k, v)]
      in if k \<in> fst ` set c then c' else drop (length c' - limit) c')"

definition cacheStep :: "nat \<Rightarrow> frame_kind \<Rightarrow> version_cache \<Rightarrow> bool \<times> version_cache" where
  "cacheStep limit fk c =
     (case fk of
        Foreign \<Rightarrow> (True, c)
      | Deleted r \<Rightarrow> (True, cacheRank limit r (-1) c)
      | Ranked r k vo \<Rightarrow>
          if map_of c r = Some (-1) then (False, c)
          else (case vo of
                  None \<Rightarrow> (True, c)
                | Some v \<Rightarrow>
                    if \<exists>w\<in>set_option (map_of c k). v < w then (False, c)
                    else (True, cacheRank limit k v c)))"

definition cacheOf :: "version_filter \<Rightarrow> version_cache" where
  "cacheOf f = map (\<lambda>x. (rv_runID (snd x), rv_version (snd x))) (vf_recency f)"

text \<open>The map and the list agree.\<close>

definition linked :: "(string \<rightharpoonup> nat) \<Rightarrow> (nat \<times> run_version) list \<Rightarrow> bool" where
  "linked hi xs \<longleftrightarrow> distinct (map fst xs) \<and> distinct (map (rv_runID \<circ> snd) xs)
     \<and> (\<forall>x\<in>set xs. hi (rv_runID (snd x)) = Some (fst x))
     \<and> (\<forall>k\<in>dom hi. k \<in> (rv_runID \<circ> snd) ` set xs)"

definition filterOk :: "version_filter \<Rightarrow> bool" where
  "filterOk f \<longleftrightarrow> (case vf_highest f of None \<Rightarrow> vf_recency f = [] | Some hi \<Rightarrow> linked hi (vf_recency f))
     \<and> (\<forall>x\<in>set (vf_recency f). fst x < vf_fresh f)"

section \<open>The filter implements the cache\<close>

lemma find_unique: "distinct (map fst xs) \<Longrightarrow> (a, y) \<in> set xs \<Longrightarrow> find (\<lambda>x. fst x = a) xs = Some (a, y)"
  by (induction xs) force+

lemma cacheOf_keys: "fst ` set (cacheOf f) = (rv_runID \<circ> snd) ` set (vf_recency f)"
  by (simp add: cacheOf_def image_image comp_def)

lemma cacheOf_distinct: "filterOk f \<Longrightarrow> distinct (map fst (cacheOf f))"
  by (auto simp: filterOk_def linked_def cacheOf_def comp_def split: option.splits)

lemma elementOf_Some:
  assumes "filterOk f" "elementOf k f = Some (a, seen)"
  shows "(a, seen) \<in> set (vf_recency f)" "rv_runID seen = k"
    "vf_highest f \<noteq> None" "map_of (cacheOf f) k = Some (rv_version seen)"
proof -
  from assms(2) obtain hi b where hi': "vf_highest f = Some hi" "hi k = Some b"
    and fnd': "find (\<lambda>x. fst x = b) (vf_recency f) = Some (a, seen)"
    by (auto simp: elementOf_def split: option.splits)
  from fnd' have "b = a" by (auto simp: find_Some_iff split_beta) (metis fst_conv)
  with hi' fnd' have hi: "vf_highest f = Some hi" "hi k = Some a"
    and fnd: "find (\<lambda>x. fst x = a) (vf_recency f) = Some (a, seen)" by auto
  with assms have l: "linked hi (vf_recency f)" by (simp add: filterOk_def)
  from fnd show mem: "(a, seen) \<in> set (vf_recency f)" by (auto simp: find_Some_iff in_set_conv_nth)
  from hi l obtain b y where y: "(b, y) \<in> set (vf_recency f)" "rv_runID y = k" by (force simp: linked_def)
  with l have "hi k = Some b" by (force simp: linked_def)
  with hi y have "(a, y) \<in> set (vf_recency f)" by simp
  moreover have "distinct (map fst (vf_recency f))" using l by (simp add: linked_def)
  ultimately have "y = seen" using mem eq_key_imp_eq_value by metis
  with y show k: "rv_runID seen = k" by simp
  show "vf_highest f \<noteq> None" using hi by simp
  show "map_of (cacheOf f) k = Some (rv_version seen)"
    by (rule map_of_is_SomeI [OF cacheOf_distinct [OF assms(1)]]) (use mem k in \<open>force simp: cacheOf_def\<close>)
qed

lemma elementOf_None:
  assumes "filterOk f" "elementOf k f = None"
  shows "k \<notin> fst ` set (cacheOf f)"
proof
  assume "k \<in> fst ` set (cacheOf f)"
  then obtain a y where y: "(a, y) \<in> set (vf_recency f)" "rv_runID y = k" by (auto simp: cacheOf_keys)
  with assms(1) obtain hi where hi: "vf_highest f = Some hi" and l: "linked hi (vf_recency f)"
    by (auto simp: filterOk_def split: option.splits)
  with y have "hi k = Some a" by (force simp: linked_def)
  with find_unique [of "vf_recency f"] l y hi assms(2) show False by (simp add: linked_def elementOf_def)
qed

lemma elementOf_cache: "filterOk f \<Longrightarrow> map_of (cacheOf f) k = map_option (rv_version \<circ> snd) (elementOf k f)"
  using elementOf_Some(4) [of f k] elementOf_None [of f k]
  by (cases "elementOf k f") (auto simp: map_of_eq_None_iff)

lemma linked_tl: "linked hi (x # xs) \<Longrightarrow> linked (hi(rv_runID (snd x) := None)) xs"
  by (fastforce simp: linked_def image_iff)

lemma evictOldest_linked:
  "linked hi xs \<Longrightarrow> evictOldest limit hi xs = (hi', ys) \<Longrightarrow> linked hi' ys \<and> ys = drop (length xs - limit) xs"
proof (induction limit hi xs rule: evictOldest.induct)
  case (2 limit hi x xs)
  then show ?case
    using linked_tl [of hi x xs] by (cases "length (x # xs) > limit") (auto simp: Suc_diff_le simp del: fun_upd_apply)
qed auto

lemma openFilter_ok: "filterOk f \<Longrightarrow> filterOk (openFilter f)" "filterOk f \<Longrightarrow> cacheOf (openFilter f) = cacheOf f"
  "vf_highest (openFilter f) \<noteq> None" "vf_MaxRuns (openFilter f) = vf_MaxRuns f"
  by (auto simp: filterOk_def openFilter_def linked_def cacheOf_def)

lemma linked_moved:
  assumes "linked hi xs" "(a, seen) \<in> set xs"
  shows "linked hi (filter (\<lambda>x. fst x \<noteq> a) xs @ [(a, seen \<lparr> rv_version := v \<rparr>)])"
    "map (\<lambda>x. (rv_runID (snd x), rv_version (snd x))) (filter (\<lambda>x. fst x \<noteq> a) xs) =
     filter (\<lambda>p. fst p \<noteq> rv_runID seen) (map (\<lambda>x. (rv_runID (snd x), rv_version (snd x))) xs)"
proof -
  have same: "fst x = a \<longleftrightarrow> rv_runID (snd x) = rv_runID seen" if "x \<in> set xs" for x
  proof
    assume "fst x = a"
    then have "(a, snd x) \<in> set xs" using that by (metis prod.collapse)
    with assms have "snd x = seen" using eq_key_imp_eq_value [of xs a] by (auto simp: linked_def)
    then show "rv_runID (snd x) = rv_runID seen" by simp
  next
    assume "rv_runID (snd x) = rv_runID seen"
    moreover have "hi (rv_runID (snd x)) = Some (fst x)" using assms(1) that by (auto simp: linked_def)
    moreover have "hi (rv_runID seen) = Some a" using assms by (force simp: linked_def)
    ultimately show "fst x = a" by simp
  qed
  have flt: "filter (\<lambda>x. fst x \<noteq> a) xs = filter (\<lambda>x. rv_runID (snd x) \<noteq> rv_runID seen) xs"
    by (rule filter_cong [OF refl]) (simp add: same)
  then show "map (\<lambda>x. (rv_runID (snd x), rv_version (snd x))) (filter (\<lambda>x. fst x \<noteq> a) xs) =
     filter (\<lambda>p. fst p \<noteq> rv_runID seen) (map (\<lambda>x. (rv_runID (snd x), rv_version (snd x))) xs)"
    by (simp add: filter_map comp_def)
  have "k \<in> (rv_runID \<circ> snd) ` set (filter (\<lambda>x. fst x \<noteq> a) xs @ [(a, seen \<lparr> rv_version := v \<rparr>)])" if "k \<in> dom hi" for k
  proof -
    from that assms(1) obtain x where "x \<in> set xs" "rv_runID (snd x) = k" by (force simp: linked_def)
    then show ?thesis unfolding flt by (cases "k = rv_runID seen") force+
  qed
  moreover have "distinct (map (rv_runID \<circ> snd) (filter (\<lambda>x. fst x \<noteq> a) xs @ [(a, seen \<lparr> rv_version := v \<rparr>)]))"
    unfolding flt using assms(1) by (auto simp: linked_def distinct_map_filter)
  moreover have "distinct (map fst (filter (\<lambda>x. fst x \<noteq> a) xs @ [(a, seen \<lparr> rv_version := v \<rparr>)]))"
    using assms(1) by (auto simp: linked_def distinct_map_filter)
  moreover have "\<forall>x\<in>set (filter (\<lambda>x. fst x \<noteq> a) xs @ [(a, seen \<lparr> rv_version := v \<rparr>)]). hi (rv_runID (snd x)) = Some (fst x)"
    using assms by (force simp: linked_def)
  ultimately show "linked hi (filter (\<lambda>x. fst x \<noteq> a) xs @ [(a, seen \<lparr> rv_version := v \<rparr>)])"
    by (simp add: linked_def)
qed

lemma linked_added:
  assumes "linked hi xs" "\<forall>x\<in>set xs. fst x < a" "k \<notin> (rv_runID \<circ> snd) ` set xs"
  shows "linked (hi(k \<mapsto> a)) (xs @ [(a, \<lparr> rv_runID = k, rv_version = v \<rparr>)])"
  using assms by (auto simp: linked_def image_iff)

lemma rankFrame_refines:
  assumes ok: "filterOk f" and opened: "vf_highest f \<noteq> None"
    and r: "rankFrame deleted k v f = (b, f')"
  shows "filterOk f'" "filterLimit f' = filterLimit f"
    "b \<longleftrightarrow> deleted \<or> \<not> (\<exists>w\<in>set_option (map_of (cacheOf f) k). v < w)"
    "cacheOf f' = (if b then cacheRank (filterLimit f) k v (cacheOf f) else cacheOf f)"
proof -
  obtain hi where hi: "vf_highest f = Some hi" using opened by auto
  with ok have l: "linked hi (vf_recency f)" by (simp add: filterOk_def)
  have "filterOk f' \<and> filterLimit f' = filterLimit f \<and> (b \<longleftrightarrow> deleted \<or> \<not> (\<exists>w\<in>set_option (map_of (cacheOf f) k). v < w))
    \<and> cacheOf f' = (if b then cacheRank (filterLimit f) k v (cacheOf f) else cacheOf f)"
  proof (cases "elementOf k f")
    case None
    note kn = elementOf_None [OF ok None]
    let ?a = "vf_fresh f" and ?x = "\<lparr> rv_runID = k, rv_version = v \<rparr>"
    obtain hi' xs where e: "evictOldest (filterLimit f) (hi(k \<mapsto> ?a)) (vf_recency f @ [(?a, ?x)]) = (hi', xs)"
      by fastforce
    have "linked (hi(k \<mapsto> ?a)) (vf_recency f @ [(?a, ?x)])"
      using linked_added [OF l] ok kn by (auto simp: filterOk_def cacheOf_keys)
    with e have x: "linked hi' xs" "xs = drop (length (vf_recency f) + 1 - filterLimit f) (vf_recency f @ [(?a, ?x)])"
      using evictOldest_linked by fastforce+
    have f': "b" "f' = f \<lparr> vf_highest := Some hi', vf_recency := xs, vf_fresh := ?a + 1 \<rparr>"
      using r None hi e by (auto simp: rankFrame_def Let_def)
    have "\<forall>x\<in>set xs. fst x < ?a + 1"
      using ok x(2) by (fastforce simp: filterOk_def dest: in_set_dropD)
    moreover have "cacheOf f' = cacheRank (filterLimit f) k v (cacheOf f)"
    proof -
      have "filter (\<lambda>p. fst p \<noteq> k) (cacheOf f) = cacheOf f" using kn by (force intro: filter_True)
      then show ?thesis using kn f' x(2) by (cases "filterLimit f") (simp_all add: cacheRank_def Let_def cacheOf_def drop_map)
    qed
    moreover have "map_of (cacheOf f) k = None" using kn by (simp add: map_of_eq_None_iff)
    ultimately show ?thesis using f' x(1) by (auto simp: filterOk_def filterLimit_def)
  next
    case (Some p)
    obtain a seen where p: "p = (a, seen)" by fastforce
    note s = elementOf_Some [OF ok Some [unfolded p]]
    note m = linked_moved [OF l s(1)]
    show ?thesis
    proof (cases "\<not> deleted \<and> v < rv_version seen")
      case True
      then show ?thesis using r Some p s ok by (auto simp: rankFrame_def)
    next
      case False
      then have f': "b" "f' = f \<lparr> vf_recency := filter (\<lambda>x. fst x \<noteq> a) (vf_recency f) @ [(a, seen \<lparr> rv_version := v \<rparr>)] \<rparr>"
        using r Some p by (auto simp: rankFrame_def)
      have "filterOk f'" using f' m(1) hi ok s(1) by (auto simp: filterOk_def)
      moreover have "cacheOf f' = cacheRank (filterLimit f) k v (cacheOf f)"
        using f'(2) m(2) s(2) map_of_SomeD [OF s(4)] by (force simp: cacheRank_def Let_def cacheOf_def)
      ultimately show ?thesis using f' False s(4) by (auto simp: filterLimit_def)
    qed
  qed
  then show "filterOk f'" "filterLimit f' = filterLimit f"
    "b \<longleftrightarrow> deleted \<or> \<not> (\<exists>w\<in>set_option (map_of (cacheOf f) k). v < w)"
    "cacheOf f' = (if b then cacheRank (filterLimit f) k v (cacheOf f) else cacheOf f)" by auto
qed

lemma blocked_iff:
  "filterOk f \<Longrightarrow> (case elementOf k f of None \<Rightarrow> False | Some (_, seen) \<Rightarrow> rv_version seen = -1)
     \<longleftrightarrow> map_of (cacheOf f) k = Some (-1)"
  by (auto simp: elementOf_cache split: option.splits)

text \<open>
  One \<open>Accept\<close> of the filter, with its map of pointers into a linked list, answers like the cache of
  pairs and leaves the cache's next state; the map and the list keep agreeing.
\<close>
lemma accept_implements_cache:
  assumes "filterOk f" "acceptFrame e f = (b, f')"
  shows "filterOk f' \<and> filterLimit f' = filterLimit f \<and> cacheStep (filterLimit f) (frameKind e) (cacheOf f) = (b, cacheOf f')"
proof -
  let ?parts = "splitOn CHR ''.'' (se_Topic e)" and ?o = "openFilter f"
  have o: "filterOk ?o" "cacheOf ?o = cacheOf f" "vf_highest ?o \<noteq> None" "filterLimit ?o = filterLimit f"
    using openFilter_ok [of f] assms(1) by (auto simp: filterLimit_def)
  note [simp] = blocked_iff [OF o(1)]
  have rank: "filterOk f' \<and> filterLimit f' = filterLimit f
      \<and> b = (d \<or> \<not> (\<exists>w\<in>set_option (map_of (cacheOf f) k). v < w))
      \<and> cacheOf f' = (if b then cacheRank (filterLimit f) k v (cacheOf f) else cacheOf f)"
    if "rankFrame d k v ?o = (b, f')" for d k v
    using rankFrame_refines [OF o(1,3) that] o(2,4) by simp
  consider (foreign) "frameKind e = Foreign" | (del) r where "frameKind e = Deleted r" | (ranked) r k vo where "frameKind e = Ranked r k vo"
    by (cases "frameKind e") auto
  then show ?thesis
  proof cases
    case foreign
    then have "b" "f' = f" using assms(2) by (auto simp: frameKind_def acceptFrame_def Let_def split: if_splits)
    then show ?thesis using foreign assms(1) by (simp add: cacheStep_def)
  next
    case (del r)
    then have "rankFrame True r (-1) ?o = (b, f')"
      using assms(2) by (auto simp: frameKind_def acceptFrame_def Let_def split: if_splits)
    from rank [OF this] show ?thesis using del by (simp add: cacheStep_def)
  next
    case (ranked r k vo)
    then have acc: "acceptFrame e f =
        (if map_of (cacheOf f) r = Some (-1) then (False, ?o)
         else case vo of None \<Rightarrow> (True, ?o) | Some v \<Rightarrow> rankFrame False k v ?o)"
      using o(2) by (auto simp: frameKind_def acceptFrame_def Let_def split: if_splits option.splits)
    show ?thesis
    proof (cases "map_of (cacheOf f) r = Some (-1) \<or> vo = None")
      case True
      then show ?thesis using acc assms(2) ranked o by (auto simp: cacheStep_def)
    next
      case False
      then obtain v where v: "vo = Some v" by auto
      with False acc assms(2) have "rankFrame False k v ?o = (b, f')" by simp
      from rank [OF this] show ?thesis using ranked v False by (auto simp: cacheStep_def)
    qed
  qed
qed


section \<open>Streams that fit the cache\<close>

text \<open>A frame is superseded by an earlier one: the deletion of its run, or a higher version of its key.\<close>

definition supersedes :: "frame_kind \<Rightarrow> frame_kind \<Rightarrow> bool" where
  "supersedes d e =
     (case (d, e) of
        (Deleted r', Ranked r k vo) \<Rightarrow> r' = r
      | (Ranked r' k' (Some w), Ranked r k (Some v)) \<Rightarrow> k' = k \<and> v < w
      | _ \<Rightarrow> False)"

text \<open>The frames that are not superseded, by position.\<close>

fun keptAll :: "frame_kind list \<Rightarrow> frame_kind list \<Rightarrow> bool list" where
  "keptAll seen [] = []"
| "keptAll seen (e # es) = list_all (\<lambda>d. \<not> supersedes d e) seen # keptAll (seen @ [e]) es"

text \<open>The keys a stream ranks, each once.\<close>

definition frameKey :: "frame_kind \<Rightarrow> string list" where
  "frameKey fk = (case fk of Foreign \<Rightarrow> [] | Deleted r \<Rightarrow> [r] | Ranked r k vo \<Rightarrow> if vo = None then [] else [k])"

definition rankedKeys :: "frame_kind list \<Rightarrow> string set" where
  "rankedKeys ks = set (concat (map frameKey ks))"

definition runOf :: "string \<Rightarrow> string" where
  "runOf k = takeWhile (\<lambda>c. c \<noteq> CHR ''.'') k"

text \<open>What splitting a topic guarantees of the kinds.\<close>

definition kindOk :: "frame_kind \<Rightarrow> bool" where
  "kindOk fk = (case fk of Foreign \<Rightarrow> True | Deleted r \<Rightarrow> runOf r = r
     | Ranked r k vo \<Rightarrow> runOf k = r \<and> (\<forall>v\<in>set_option vo. v \<ge> 1))"

lemma splitOn_no_dot: "p \<in> set (splitOn sep s) \<Longrightarrow> sep \<notin> set p"
  by (induction s arbitrary: p) (auto split: if_splits list.splits)

lemma runOf_plain: "CHR ''.'' \<notin> set r \<Longrightarrow> runOf r = r" "CHR ''.'' \<notin> set r \<Longrightarrow> runOf (r @ CHR ''.'' # s) = r"
  by (auto simp: runOf_def takeWhile_append takeWhile_eq_all_conv)

lemma joinDots_Cons: "ss \<noteq> [] \<Longrightarrow> joinDots (s # ss) = s @ CHR ''.'' # joinDots ss"
  by (cases ss) auto

lemma frameKind_ok: "kindOk (frameKind e)"
proof -
  let ?parts = "splitOn CHR ''.'' (se_Topic e)"
  have plain: "CHR ''.'' \<notin> set (?parts ! 2)" if "length ?parts \<ge> 4"
    using that splitOn_no_dot [OF nth_mem, of 2 "CHR ''.''" "se_Topic e"] by simp
  have step: "runOf (joinDots (take (length ?parts - 3) (drop 2 ?parts))) = ?parts ! 2" if "length ?parts \<ge> 6"
  proof -
    have "take (length ?parts - 3) (drop 2 ?parts) = ?parts ! 2 # take (length ?parts - 4) (drop 3 ?parts)"
      using that by (simp add: take_Cons' flip: Cons_nth_drop_Suc)
    moreover have "take (length ?parts - 4) (drop 3 ?parts) \<noteq> []" using that by auto
    ultimately show ?thesis using plain that by (simp add: joinDots_Cons runOf_plain)
  qed
  show ?thesis
    using plain step by (auto simp: frameKind_def kindOk_def Let_def runOf_plain split: option.splits if_splits)
qed

text \<open>What the cache knows of the frames seen, as long as it has forgotten nothing.\<close>

definition tracks :: "frame_kind list \<Rightarrow> version_cache \<Rightarrow> bool" where
  "tracks seen c \<longleftrightarrow> distinct (map fst c) \<and> fst ` set c \<subseteq> rankedKeys seen
     \<and> (\<forall>r. Deleted r \<in> set seen \<longrightarrow> map_of c r = Some (-1))
     \<and> (\<forall>r k w. Ranked r k (Some w) \<in> set seen \<longrightarrow> Deleted r \<notin> set seen \<longrightarrow> (\<exists>u. map_of c k = Some u \<and> w \<le> u))
     \<and> (\<forall>k u. map_of c k = Some u \<longrightarrow> u = -1 \<and> Deleted k \<in> set seen \<or> u \<ge> 1 \<and> (\<exists>r. Ranked r k (Some u) \<in> set seen))"

lemma tracksD:
  "tracks seen c \<Longrightarrow> Deleted r \<in> set seen \<Longrightarrow> map_of c r = Some (-1)"
  "tracks seen c \<Longrightarrow> Ranked r k (Some w) \<in> set seen \<Longrightarrow> Deleted r \<notin> set seen \<Longrightarrow> \<exists>u. map_of c k = Some u \<and> w \<le> u"
  "tracks seen c \<Longrightarrow> map_of c k = Some u \<Longrightarrow>
     u = -1 \<and> Deleted k \<in> set seen \<or> u \<ge> 1 \<and> (\<exists>r. Ranked r k (Some u) \<in> set seen)"
  by (unfold tracks_def) blast+

lemma tracksI:
  assumes "distinct (map fst c)" "fst ` set c \<subseteq> rankedKeys seen"
    "\<And>r. Deleted r \<in> set seen \<Longrightarrow> map_of c r = Some (-1)"
    "\<And>r k w. Ranked r k (Some w) \<in> set seen \<Longrightarrow> Deleted r \<notin> set seen \<Longrightarrow> \<exists>u. map_of c k = Some u \<and> w \<le> u"
    "\<And>k u. map_of c k = Some u \<Longrightarrow>
       u = -1 \<and> Deleted k \<in> set seen \<or> u \<ge> 1 \<and> (\<exists>r. Ranked r k (Some u) \<in> set seen)"
  shows "tracks seen c"
  using assms by (unfold tracks_def) blast

lemma rankedKeys_snoc: "rankedKeys (ks @ [e]) = rankedKeys ks \<union> set (frameKey e)"
  by (auto simp: rankedKeys_def)

lemma cacheRank_roomy:
  assumes c: "distinct (map fst c)" "fst ` set c \<subseteq> K" and K: "finite K" "card (insert k K) \<le> limit"
  shows "distinct (map fst (cacheRank limit k v c))" "fst ` set (cacheRank limit k v c) = insert k (fst ` set c)"
    "map_of (cacheRank limit k v c) = (map_of c)(k \<mapsto> v)"
proof -
  let ?c = "filter (\<lambda>p. fst p \<noteq> k) c @ [(k, v)]"
  have d: "distinct (map fst ?c)" using c(1) by (auto simp: distinct_map_filter)
  have s: "fst ` set ?c = insert k (fst ` set c)" by force
  have "length ?c = card (fst ` set ?c)" using distinct_card [OF d] by simp
  also have "\<dots> \<le> card (insert k K)" unfolding s using c(2) K(1) by (intro card_mono) auto
  finally have e: "cacheRank limit k v c = ?c" using K(2) by (auto simp: cacheRank_def Let_def)
  show "distinct (map fst (cacheRank limit k v c))" "fst ` set (cacheRank limit k v c) = insert k (fst ` set c)"
    unfolding e by (rule d, rule s)
  have "map_of (filter (\<lambda>p. fst p \<noteq> k) c) k = None" by (auto simp: map_of_eq_None_iff)
  moreover have "map_of (filter (\<lambda>p. fst p \<noteq> k) c) j = map_of c j" if "j \<noteq> k" for j
    using that by (induction c) auto
  ultimately show "map_of (cacheRank limit k v c) = (map_of c)(k \<mapsto> v)"
    unfolding e by (auto simp: fun_eq_iff map_add_def split: option.split)
qed


lemma tracks_ranked:
  assumes t: "tracks seen c" and K: "card (insert k (rankedKeys seen)) \<le> limit" and v: "v \<ge> 1"
    and run: "map_of c r \<noteq> Some (-1)" "runOf k = r" "\<forall>d\<in>set seen. kindOk d"
    and low: "\<not> (\<exists>w\<in>set_option (map_of c k). v < w)"
  shows "tracks (seen @ [Ranked r k (Some v)]) (cacheRank limit k v c)"
proof -
  note roomy = cacheRank_roomy [of c "rankedKeys seen" k limit v]
  have c: "distinct (map fst c)" "fst ` set c \<subseteq> rankedKeys seen" "finite (rankedKeys seen)"
    using t by (auto simp: tracks_def rankedKeys_def)
  note roomy = roomy [OF c K]
  have nodel: "Deleted r \<notin> set seen" using t run(1) by (auto simp: tracks_def)
  have delk: "Deleted k \<notin> set seen" using nodel run(2,3) by (force simp: kindOk_def)
  note m = roomy(3)
  let ?seen = "seen @ [Ranked r k (Some v)]"
  have "map_of (cacheRank limit k v c) d = Some (-1)" if "Deleted d \<in> set ?seen" for d
    using that t delk m by (auto simp: tracks_def)
  moreover have "\<exists>u. map_of (cacheRank limit k v c) k1 = Some u \<and> w \<le> u"
    if "Ranked r1 k1 (Some w) \<in> set ?seen" "Deleted r1 \<notin> set ?seen" for r1 k1 w
  proof (cases "Ranked r1 k1 (Some w) \<in> set seen")
    case True
    with that tracksD(2) [OF t True] obtain u where u: "map_of c k1 = Some u" "w \<le> u" by auto
    show ?thesis using u m low by (cases "k1 = k") auto
  next
    case False
    with that m show ?thesis by auto
  qed
  moreover have "u = -1 \<and> Deleted k1 \<in> set ?seen \<or> u \<ge> 1 \<and> (\<exists>r. Ranked r k1 (Some u) \<in> set ?seen)"
    if "map_of (cacheRank limit k v c) k1 = Some u" for k1 u
    using that tracksD(3) [OF t, of k1 u] m v by (cases "k1 = k") auto
  moreover have "fst ` set (cacheRank limit k v c) \<subseteq> rankedKeys ?seen"
    using roomy(2) c(2) by (auto simp: rankedKeys_snoc frameKey_def)
  ultimately show ?thesis using roomy(1) unfolding tracks_def by blast
qed

lemma tracks_deleted:
  assumes t: "tracks seen c" and K: "card (insert r (rankedKeys seen)) \<le> limit"
    and run: "runOf r = r" "\<forall>d\<in>set seen. kindOk d"
  shows "tracks (seen @ [Deleted r]) (cacheRank limit r (-1) c)"
proof -
  have c: "distinct (map fst c)" "fst ` set c \<subseteq> rankedKeys seen" "finite (rankedKeys seen)"
    using t by (auto simp: tracks_def rankedKeys_def)
  note roomy = cacheRank_roomy [OF c K]
  note m = roomy(3)
  let ?seen = "seen @ [Deleted r]"
  have "map_of (cacheRank limit r (-1) c) d = Some (-1)" if "Deleted d \<in> set ?seen" for d
    using that t m by (auto simp: tracks_def)
  moreover have "\<exists>u. map_of (cacheRank limit r (-1) c) k1 = Some u \<and> w \<le> u"
    if "Ranked r1 k1 (Some w) \<in> set ?seen" "Deleted r1 \<notin> set ?seen" for r1 k1 w
  proof -
    from that run(2) have "runOf k1 = r1" by (auto simp: kindOk_def)
    with run(1) that(2) have "k1 \<noteq> r" by auto
    then show ?thesis using that tracksD(2) [OF t, of r1 k1 w] m by auto
  qed
  moreover have "u = -1 \<and> Deleted k1 \<in> set ?seen \<or> u \<ge> 1 \<and> (\<exists>r. Ranked r k1 (Some u) \<in> set ?seen)"
    if "map_of (cacheRank limit r (-1) c) k1 = Some u" for k1 u
    using that tracksD(3) [OF t, of k1 u] m by (cases "k1 = r") auto
  moreover have "fst ` set (cacheRank limit r (-1) c) \<subseteq> rankedKeys ?seen"
    using roomy(2) c(2) by (auto simp: rankedKeys_snoc frameKey_def)
  ultimately show ?thesis using roomy(1) unfolding tracks_def by blast
qed

lemma tracks_quiet:
  assumes "tracks seen c" "e = Foreign \<or> (\<exists>r k vo. e = Ranked r k vo \<and> (vo = None \<or> Deleted r \<in> set seen
    \<or> (\<exists>v w. vo = Some v \<and> map_of c k = Some w \<and> v < w)))"
  shows "tracks (seen @ [e]) c"
proof (rule tracksI)
  show "distinct (map fst c)" "fst ` set c \<subseteq> rankedKeys (seen @ [e])"
    using assms(1) by (auto simp: tracks_def rankedKeys_snoc)
  show "map_of c r = Some (-1)" if "Deleted r \<in> set (seen @ [e])" for r
    using that assms tracksD(1) by auto
  show "\<exists>u. map_of c k = Some u \<and> w \<le> u"
    if "Ranked r k (Some w) \<in> set (seen @ [e])" "Deleted r \<notin> set (seen @ [e])" for r k w
  proof (cases "Ranked r k (Some w) \<in> set seen")
    case True
    with that show ?thesis using tracksD(2) [OF assms(1) True] by simp
  next
    case False
    with that assms(2) show ?thesis by auto
  qed
  show "u = -1 \<and> Deleted k \<in> set (seen @ [e]) \<or> u \<ge> 1 \<and> (\<exists>r. Ranked r k (Some u) \<in> set (seen @ [e]))"
    if "map_of c k = Some u" for k u
    using tracksD(3) [OF assms(1) that] by auto
qed

lemma cacheStep_tracks:
  assumes t: "tracks seen c" and ok: "\<forall>d\<in>set seen. kindOk d" "kindOk e"
    and K: "card (rankedKeys (seen @ [e])) \<le> limit" and s: "cacheStep limit e c = (b, c')"
  shows "tracks (seen @ [e]) c'" "b = list_all (\<lambda>d. \<not> supersedes d e) seen"
proof -
  have "tracks (seen @ [e]) c' \<and> b = list_all (\<lambda>d. \<not> supersedes d e) seen"
  proof (cases e)
    case Foreign
    then have "list_all (\<lambda>d. \<not> supersedes d e) seen"
      by (auto simp: supersedes_def list_all_iff split: frame_kind.splits option.splits)
    then show ?thesis using s Foreign tracks_quiet [OF t, of e] by (auto simp: cacheStep_def)
  next
    case (Deleted r)
    then have "list_all (\<lambda>d. \<not> supersedes d e) seen"
      by (auto simp: supersedes_def list_all_iff split: frame_kind.splits option.splits)
    then show ?thesis using s ok K Deleted tracks_deleted [OF t, of r limit]
      by (auto simp: cacheStep_def rankedKeys_snoc frameKey_def kindOk_def)
  next
    case (Ranked r k vo)
    have del: "map_of c r = Some (-1) \<longleftrightarrow> Deleted r \<in> set seen"
      using tracksD(1) [OF t] tracksD(3) [OF t, of r "-1"] by auto
    have sup: "list_all (\<lambda>d. \<not> supersedes d e) seen \<longleftrightarrow>
        Deleted r \<notin> set seen \<and> (\<forall>v\<in>set_option vo. \<forall>r' w. Ranked r' k (Some w) \<in> set seen \<longrightarrow> w \<le> v)"
      unfolding Ranked list_all_iff by (fastforce simp: supersedes_def not_less split: frame_kind.splits option.splits)
    show ?thesis
    proof (cases "Deleted r \<in> set seen \<or> vo = None")
      case True
      then show ?thesis using s sup Ranked del tracks_quiet [OF t, of e] by (auto simp: cacheStep_def)
    next
      case False
      then obtain v where v: "vo = Some v" and nd: "Deleted r \<notin> set seen" by auto
      have k: "runOf k = r" "v \<ge> 1" using ok(2) Ranked v by (auto simp: kindOk_def)
      have low: "(\<exists>w\<in>set_option (map_of c k). v < w) \<longleftrightarrow> (\<exists>r' w. Ranked r' k (Some w) \<in> set seen \<and> v < w)"
      proof
        assume "\<exists>w\<in>set_option (map_of c k). v < w"
        then obtain w where w: "map_of c k = Some w" "v < w" by auto
        with t k(2) obtain r' where "Ranked r' k (Some w) \<in> set seen" using tracksD(3) [OF t w(1)] by auto
        with w(2) show "\<exists>r' w. Ranked r' k (Some w) \<in> set seen \<and> v < w" by blast
      next
        assume "\<exists>r' w. Ranked r' k (Some w) \<in> set seen \<and> v < w"
        then obtain r' w where w: "Ranked r' k (Some w) \<in> set seen" "v < w" by blast
        with ok(1) k(1) have "r' = r" by (auto simp: kindOk_def)
        with w nd tracksD(2) [OF t w(1)] obtain u where "map_of c k = Some u" "w \<le> u" by blast
        with w(2) show "\<exists>w\<in>set_option (map_of c k). v < w" by auto
      qed
      show ?thesis
      proof (cases "\<exists>w\<in>set_option (map_of c k). v < w")
        case True
        then have "b = False" "c' = c" using s Ranked v nd del by (auto simp: cacheStep_def)
        moreover have "tracks (seen @ [e]) c" using True Ranked v by (intro tracks_quiet [OF t]) auto
        ultimately show ?thesis using sup v nd low True by (auto simp: not_le)
      next
        case False
        then have "b = True" "c' = cacheRank limit k v c" using s Ranked v nd del by (auto simp: cacheStep_def)
        moreover have "tracks (seen @ [e]) (cacheRank limit k v c)"
          unfolding Ranked v using K Ranked v
          by (intro tracks_ranked [OF t _ k(2) _ k(1) ok(1) False]) (simp_all add: rankedKeys_snoc frameKey_def del nd)
        ultimately show ?thesis using sup v nd low False by (auto simp: not_less)
      qed
    qed
  qed
  then show "tracks (seen @ [e]) c'" "b = list_all (\<lambda>d. \<not> supersedes d e) seen" by auto
qed

lemma acceptAll_tracks:
  assumes "filterOk f" "tracks seen (cacheOf f)" "\<forall>d\<in>set seen. kindOk d"
    "card (rankedKeys (seen @ map frameKind es)) \<le> filterLimit f"
  shows "acceptAll es f = keptAll seen (map frameKind es)"
  using assms
proof (induction es arbitrary: f seen)
  case (Cons e es)
  obtain b f' where a: "acceptFrame e f = (b, f')" by fastforce
  note i = accept_implements_cache [OF Cons.prems(1) a]
  have sub: "rankedKeys (seen @ [frameKind e]) \<subseteq> rankedKeys (seen @ map frameKind (e # es))"
    unfolding rankedKeys_def by simp blast
  have fin: "finite (rankedKeys (seen @ map frameKind (e # es)))" unfolding rankedKeys_def by (rule finite_set)
  have "card (rankedKeys (seen @ [frameKind e])) \<le> filterLimit f"
    by (rule order_trans [OF card_mono [OF fin sub] Cons.prems(4)])
  note t = cacheStep_tracks [OF Cons.prems(2,3) frameKind_ok this conjunct2 [OF conjunct2 [OF i]]]
  have "acceptAll es f' = keptAll (seen @ [frameKind e]) (map frameKind es)"
  proof (rule Cons.IH)
    show "filterOk f'" using i by blast
    show "tracks (seen @ [frameKind e]) (cacheOf f')" by (rule t(1))
    show "\<forall>d\<in>set (seen @ [frameKind e]). kindOk d" using Cons.prems(3) frameKind_ok [of e] by auto
    have "filterLimit f' = filterLimit f" using i by blast
    with Cons.prems(4) show "card (rankedKeys ((seen @ [frameKind e]) @ map frameKind es)) \<le> filterLimit f'" by simp
  qed
  with a t(2) show ?case by simp
qed simp

text \<open>C35. 
  As long as a stream ranks no more keys than the filter remembers, the filter passes exactly the frames
  that no earlier frame supersedes: a frame of a run is dropped if and only if the run's deletion came
  before it, or a frame with the same run or step and a higher version did.
\<close>
theorem filter_drops_superseded:
  assumes "card (rankedKeys (map frameKind es)) \<le> filterLimit (emptyFilter n)"
  shows "acceptAll es (emptyFilter n) = keptAll [] (map frameKind es)"
proof (rule acceptAll_tracks)
  show "filterOk (emptyFilter n)" by (simp add: filterOk_def emptyFilter_def)
  show "tracks [] (cacheOf (emptyFilter n))" by (simp add: tracks_def cacheOf_def emptyFilter_def)
qed (use assms in auto)


definition runFrame :: "string \<Rightarrow> string \<Rightarrow> string \<Rightarrow> subscription_event" where
  "runFrame r leaf v = \<lparr> se_ID = ''e'', se_Topic = ''system.run.'' @ r @ ''.'' @ leaf,
     se_Data = Raw (JObj [(''version'', JNum v)]), se_Meta = None \<rparr>"

text \<open>Updates out of order, a step with its own versions, a deletion, and late frames after it.\<close>

definition lateFrames :: "subscription_event list" where
  "lateFrames = [runFrame ''r1'' ''completed'' ''5'', runFrame ''r1'' ''updated'' ''4'',
     runFrame ''r1'' ''step.s.updated'' ''2'', runFrame ''r2'' ''updated'' ''1'', runFrame ''r1'' ''deleted'' ''0'',
     runFrame ''r1'' ''updated'' ''6'', runFrame ''r1'' ''step.s.updated'' ''3'', runFrame ''r2'' ''updated'' ''0'']"

theorem filter_drops_superseded_witness:
  "acceptAll lateFrames (emptyFilter 3) = [True, False, True, True, True, False, False, True]"
proof -
  have "card (rankedKeys (map frameKind lateFrames)) \<le> filterLimit (emptyFilter 3)" by code_simp
  then have "acceptAll lateFrames (emptyFilter 3) = keptAll [] (map frameKind lateFrames)"
    by (rule filter_drops_superseded)
  also have "\<dots> = [True, False, True, True, True, False, False, True]" by code_simp
  finally show ?thesis .
qed

section \<open>Forgetting\<close>

lemma cacheRank_length: "0 < limit \<Longrightarrow> length c \<le> limit \<Longrightarrow> length (cacheRank limit k v c) \<le> limit"
proof -
  assume a: "0 < limit" "length c \<le> limit"
  have "length (filter (\<lambda>p. fst p \<noteq> k) c) < length c" if "k \<in> fst ` set c"
    using that by (auto intro: length_filter_less)
  with a show ?thesis by (fastforce simp: cacheRank_def Let_def)
qed

lemma cacheStep_length: "0 < limit \<Longrightarrow> length c \<le> limit \<Longrightarrow> length (snd (cacheStep limit e c)) \<le> limit"
  by (auto simp: cacheStep_def cacheRank_length split: frame_kind.splits option.splits)

text \<open>The filter never remembers more keys than its cap.\<close>

lemma filter_bounded:
  assumes "filterOk f" "length (vf_recency f) \<le> filterLimit f" "acceptFrame e f = (b, f')"
  shows "length (vf_recency f') \<le> filterLimit f'"
proof -
  have len: "length (cacheOf g) = length (vf_recency g)" for g by (simp add: cacheOf_def)
  have pos: "0 < filterLimit f" by (simp add: filterLimit_def defaultRunVersionFilterMaxRuns_def)
  note i = accept_implements_cache [OF assms(1,3)]
  then have "length (cacheOf f') \<le> filterLimit f"
    using cacheStep_length [OF pos, of "cacheOf f" "frameKind e"] assms(2) len [of f] by simp
  with i len show ?thesis by metis
qed

text \<open>A frame that is dropped does not count as seen: with room for two, run \<open>a\<close> is forgotten before
  run \<open>b\<close>, whose last frame is older, and the late frame passes when it comes again.\<close>

lemma late_frames_do_not_refresh:
  "acceptAll [runFrame ''a'' ''completed'' ''5'', runFrame ''b'' ''updated'' ''5'', runFrame ''a'' ''updated'' ''3'',
     runFrame ''c'' ''created'' ''1'', runFrame ''b'' ''updated'' ''4'', runFrame ''a'' ''updated'' ''3''] (emptyFilter 2)
   = [True, True, False, True, False, True]"
  by code_simp

text \<open>Payloads the parser and the filter take differently: a frame whose version is not a number is an
  error for \<open>ParseRunEvent\<close>, and passes the filter.\<close>

lemma unparsable_frames_pass:
  assumes "decodeVersion (se_Data e) = None"
  shows "parseRunEvent e = None"
proof -
  have "parseRunEvent e = None" if "se_Data e = Raw (JObj kvs)" for kvs
    using that assms by (auto simp: decodeVersion_def parseRunEvent_def Let_def split: if_splits prod.splits)
  then show ?thesis using assms
    by (auto simp: decodeVersion_def parseRunEvent_def split: raw.splits json.splits)
qed

end
