(* ===== verification/Wait_Stream.thy ===== *)
theory Wait_Stream
  imports Subscription_Wire Machine "HOL-Library.Sublist"
begin

text \<open>
  The streaming wait for a projection (\<^verbatim>\<open>src/ironflow/projection_stream.go\<close>): the opening of the
  stream, and \<open>runWaitStream\<close> as a machine with its channel, its reader and the cancellation.
\<close>

section \<open>Frames\<close>

datatype wait_kind = KindUnspecified | KindProgress | KindDone | KindHeartbeat

record wait_msg =
  wm_Kind :: wait_kind
  wm_CurrentSeq :: nat
  wm_TargetSeq :: nat
  wm_BehindByEvents :: int
  wm_CaughtUp :: bool
  wm_TimedOut :: bool
  wm_Mode :: string
  wm_Error :: string

record wait_progress =
  wp_CurrentSeq :: nat
  wp_TargetSeq :: nat
  wp_BehindByEvents :: int
  wp_CaughtUp :: bool
  wp_TimedOut :: bool
  wp_Mode :: string
  wp_Err :: "goerr option"
  wp_Terminal :: bool

definition progressFrame :: "wait_msg \<Rightarrow> wait_progress" where
  "progressFrame m = \<lparr> wp_CurrentSeq = wm_CurrentSeq m, wp_TargetSeq = wm_TargetSeq m,
     wp_BehindByEvents = wm_BehindByEvents m, wp_CaughtUp = False, wp_TimedOut = False, wp_Mode = wm_Mode m,
     wp_Err = None, wp_Terminal = False \<rparr>"

definition doneFrame :: "wait_msg \<Rightarrow> wait_progress" where
  "doneFrame m = \<lparr> wp_CurrentSeq = wm_CurrentSeq m, wp_TargetSeq = wm_TargetSeq m,
     wp_BehindByEvents = wm_BehindByEvents m, wp_CaughtUp = wm_CaughtUp m, wp_TimedOut = wm_TimedOut m,
     wp_Mode = wm_Mode m, wp_Err = (if wm_Error m \<noteq> [] then Some (ENew (wm_Error m)) else None),
     wp_Terminal = True \<rparr>"

definition errFrame :: "nat \<Rightarrow> nat \<Rightarrow> goerr \<Rightarrow> wait_progress" where
  "errFrame lastSeen minSeq err = \<lparr> wp_CurrentSeq = lastSeen, wp_TargetSeq = minSeq, wp_BehindByEvents = 0,
     wp_CaughtUp = False, wp_TimedOut = False, wp_Mode = [], wp_Err = Some err, wp_Terminal = True \<rparr>"

text \<open>\<open>errors.Is(err, context.Canceled)\<close>. A Connect error made from the local context wraps it; one that
  came over the wire does not, whatever its code.\<close>

fun isCtxCanceled :: "goerr \<Rightarrow> bool"
  and isCtxCanceled_iron :: "ironflow_error \<Rightarrow> bool" where
  "isCtxCanceled ECanceled = True"
| "isCtxCanceled (EIron e) = isCtxCanceled_iron e"
| "isCtxCanceled (EStep e _ _) = isCtxCanceled_iron e"
| "isCtxCanceled (EStepTimeout e _ _) = isCtxCanceled_iron e"
| "isCtxCanceled (ENonRetryable e) = isCtxCanceled_iron e"
| "isCtxCanceled (EWrap _ es) = (\<exists>e\<in>set es. isCtxCanceled e)"
| "isCtxCanceled _ = False"
| "isCtxCanceled_iron (IronflowError _ _ _ _ _ c) = (case c of None \<Rightarrow> False | Some e \<Rightarrow> isCtxCanceled e)"

section \<open>Opening\<close>

record wait_opts =
  wo_MinSeq :: nat
  wo_Timeout :: int
  wo_Partition :: string

record wait_request =
  wq_Name :: string
  wq_MinSeq :: nat
  wq_Partition :: string
  wq_Timeout :: "int option"

definition waitRequest :: "string \<Rightarrow> wait_opts \<Rightarrow> wait_request" where
  "waitRequest name opts = \<lparr> wq_Name = name, wq_MinSeq = wo_MinSeq opts, wq_Partition = wo_Partition opts,
     wq_Timeout = (if wo_Timeout opts > 0 then Some (wo_Timeout opts) else None) \<rparr>"

definition waitHeaders :: "'w client \<Rightarrow> (string \<rightharpoonup> string)" where
  "waitHeaders c =
     (Map.empty ++ (if cl_apiKey c \<noteq> [] then [''Authorization'' \<mapsto> ''Bearer '' @ cl_apiKey c] else Map.empty))
     ++ (if cl_environment c \<noteq> [] then [''X-Ironflow-Environment-ID'' \<mapsto> cl_environment c] else Map.empty)"

text \<open>Where \<open>runWaitStream\<close> is.\<close>

datatype wait_at =
    WtReceive
  | WtSend wait_progress
  | WtEnded "goerr option"
  | WtCancel
  | WtClose
  | WtEnd

text \<open>The context of the stream, the once of \<open>cancel\<close>, and the channel. The last three fields are the
  frames received, the stream's error when it ended, and whether a send was given up.\<close>

record wait_stream =
  wt_ctxDone :: bool
  wt_cancelled :: bool
  wt_out :: "wait_progress gochan"
  wt_lastSeen :: nat
  wt_at :: wait_at
  wt_received :: "wait_msg list"
  wt_ended :: "goerr option option"
  wt_gaveUp :: bool

definition newWaitStream :: wait_stream where
  "newWaitStream = \<lparr> wt_ctxDone = False, wt_cancelled = False, wt_out = newChan 8, wt_lastSeen = 0,
     wt_at = WtReceive, wt_received = [], wt_ended = None, wt_gaveUp = False \<rparr>"

text \<open>\<open>WaitForProjectionStream\<close>: the call that opens the stream answers with an error or not.\<close>

definition openWaitStream ::
  "(wait_request \<Rightarrow> (string \<rightharpoonup> string) \<Rightarrow> goerr option) \<Rightarrow> 'w client \<Rightarrow> string \<Rightarrow> wait_opts \<Rightarrow> goerr + wait_stream" where
  "openWaitStream rpc c name opts =
     (if name = [] then Inl (ENew ''name is required'')
      else case rpc (waitRequest name opts) (waitHeaders c) of
             Some err \<Rightarrow> Inl err
           | None \<Rightarrow> Inr newWaitStream)"

section \<open>Steps\<close>

definition cancelWait :: "wait_stream \<Rightarrow> wait_stream" where
  "cancelWait s = (if wt_cancelled s then s else s \<lparr> wt_cancelled := True, wt_ctxDone := True \<rparr>)"

text \<open>What the loop does with a frame: after a terminal frame it returns, and the end of the stream is
  looked at when no terminal frame came.\<close>

definition gotFrame :: "wait_msg \<Rightarrow> wait_stream \<Rightarrow> wait_stream" where
  "gotFrame m s0 =
     (let s = s0 \<lparr> wt_received := wt_received s0 @ [m] \<rparr> in
      case wm_Kind m of
        KindHeartbeat \<Rightarrow> s
      | KindProgress \<Rightarrow> s \<lparr> wt_lastSeen := wm_CurrentSeq m, wt_at := WtSend (progressFrame m) \<rparr>
      | KindDone \<Rightarrow> s \<lparr> wt_at := WtSend (doneFrame m) \<rparr>
      | KindUnspecified \<Rightarrow> s)"

datatype wait_act =
    WaFrame wait_msg
  | WaEnd "goerr option"
  | WaSent
  | WaGiveUp
  | WaReport
  | WaReturn
  | WaTake
  | WaCancel
  | WaParent

definition waitStep :: "nat \<Rightarrow> wait_act \<Rightarrow> wait_stream \<Rightarrow> wait_stream option" where
  "waitStep minSeq a s =
     (case a of
        WaFrame m \<Rightarrow> if wt_at s = WtReceive then Some (gotFrame m s) else None
      | WaEnd err \<Rightarrow>
          if wt_at s = WtReceive then Some (s \<lparr> wt_at := WtEnded err, wt_ended := Some err \<rparr>) else None
      | WaSent \<Rightarrow>
          (case wt_at s of
             WtSend p \<Rightarrow>
               if chanRoom (wt_out s)
               then Some (s \<lparr> wt_out := chanPut p (wt_out s), wt_at := (if wp_Terminal p then WtCancel else WtReceive) \<rparr>)
               else None
           | _ \<Rightarrow> None)
      | WaGiveUp \<Rightarrow>
          (case wt_at s of
             WtSend p \<Rightarrow> if wt_ctxDone s then Some (s \<lparr> wt_gaveUp := True, wt_at := WtCancel \<rparr>) else None
           | _ \<Rightarrow> None)
      | WaReport \<Rightarrow>
          (case wt_at s of
             WtEnded (Some err) \<Rightarrow>
               Some (s \<lparr> wt_at := (if isCtxCanceled err then WtCancel else WtSend (errFrame (wt_lastSeen s) minSeq err)) \<rparr>)
           | WtEnded None \<Rightarrow> Some (s \<lparr> wt_at := WtCancel \<rparr>)
           | _ \<Rightarrow> None)
      | WaReturn \<Rightarrow>
          (case wt_at s of
             WtCancel \<Rightarrow> Some ((cancelWait s) \<lparr> wt_at := WtClose \<rparr>)
           | WtClose \<Rightarrow> Some (s \<lparr> wt_out := chanClose (wt_out s), wt_at := WtEnd \<rparr>)
           | _ \<Rightarrow> None)
      | WaTake \<Rightarrow> if ch_buf (wt_out s) = [] then None else Some (s \<lparr> wt_out := chanTake (wt_out s) \<rparr>)
      | WaCancel \<Rightarrow> Some (cancelWait s)
      | WaParent \<Rightarrow> Some (s \<lparr> wt_ctxDone := True \<rparr>))"

section \<open>What the caller is to see\<close>

text \<open>The frames of a stream as the caller is to see them: the progress frames up to the first final one,
  and that one; or, when the stream broke before it, the error with the last sequence seen.\<close>

definition endFrames :: "nat \<Rightarrow> nat \<Rightarrow> goerr option \<Rightarrow> wait_progress list" where
  "endFrames minSeq lastSeen e =
     (case e of Some err \<Rightarrow> if isCtxCanceled err then [] else [errFrame lastSeen minSeq err] | None \<Rightarrow> [])"

fun userFrames :: "nat \<Rightarrow> nat \<Rightarrow> goerr option option \<Rightarrow> wait_msg list \<Rightarrow> wait_progress list" where
  "userFrames minSeq lastSeen ended [] =
     (case ended of Some e \<Rightarrow> endFrames minSeq lastSeen e | None \<Rightarrow> [])"
| "userFrames minSeq lastSeen ended (m # ms) =
     (case wm_Kind m of
        KindProgress \<Rightarrow> progressFrame m # userFrames minSeq (wm_CurrentSeq m) ended ms
      | KindDone \<Rightarrow> [doneFrame m]
      | _ \<Rightarrow> userFrames minSeq lastSeen ended ms)"

lemma terminal_simps [simp]:
  "\<not> wp_Terminal (progressFrame m)" "wp_Terminal (doneFrame m)" "wp_Terminal (errFrame n k e)"
  by (simp_all add: progressFrame_def doneFrame_def errFrame_def)

lemma endFrames_simps [simp]:
  "endFrames minSeq n None = []" "isCtxCanceled err \<Longrightarrow> endFrames minSeq n (Some err) = []"
  "\<not> isCtxCanceled err \<Longrightarrow> endFrames minSeq n (Some err) = [errFrame n minSeq err]"
  by (simp_all add: endFrames_def)

lemma endFrames_butlast [simp]: "butlast (endFrames minSeq n e) = []"
  by (simp add: endFrames_def split: option.split)

lemma userFrames_terminal: "\<forall>p\<in>set (butlast (userFrames minSeq lastSeen ended ms)). \<not> wp_Terminal p"
  by (induction ms arbitrary: lastSeen) (auto split: option.splits wait_kind.splits)

text \<open>While no final frame has come, a further frame comes at the end.\<close>

definition noFinal :: "wait_msg list \<Rightarrow> bool" where
  "noFinal ms \<longleftrightarrow> (\<forall>m\<in>set ms. wm_Kind m \<noteq> KindDone)"

fun lastCursor :: "nat \<Rightarrow> wait_msg list \<Rightarrow> nat" where
  "lastCursor n [] = n"
| "lastCursor n (m # ms) = lastCursor (if wm_Kind m = KindProgress then wm_CurrentSeq m else n) ms"

lemma lastCursor_append: "lastCursor n (ms @ [m]) = (if wm_Kind m = KindProgress then wm_CurrentSeq m else lastCursor n ms)"
  by (induction ms arbitrary: n) auto

lemma userFrames_snoc:
  "noFinal ms \<Longrightarrow> userFrames minSeq n None (ms @ [m]) = userFrames minSeq n None ms
     @ (case wm_Kind m of KindProgress \<Rightarrow> [progressFrame m] | KindDone \<Rightarrow> [doneFrame m] | _ \<Rightarrow> [])"
  by (induction ms arbitrary: n) (auto simp: noFinal_def split: wait_kind.splits)

lemma userFrames_end:
  "noFinal ms \<Longrightarrow> userFrames minSeq n (Some e) ms = userFrames minSeq n None ms
     @ endFrames minSeq (lastCursor n ms) e"
  by (induction ms arbitrary: n) (auto simp: noFinal_def split: wait_kind.splits option.splits)

text \<open>The frames to see are those sent, and the one at hand.\<close>

definition waitOk :: "nat \<Rightarrow> wait_stream \<Rightarrow> bool" where
  "waitOk minSeq s \<longleftrightarrow>
     (let sent = chanSent (wt_out s); due = userFrames minSeq 0 (wt_ended s) (wt_received s) in
      (wt_gaveUp s \<longrightarrow> wt_ctxDone s \<and> (\<exists>p. due = sent @ [p]))
      \<and> (ch_closed (wt_out s) \<longleftrightarrow> wt_at s = WtEnd)
      \<and> (wt_lastSeen s = lastCursor 0 (wt_received s))
      \<and> (case wt_at s of
           WtReceive \<Rightarrow> \<not> wt_gaveUp s \<and> wt_ended s = None \<and> noFinal (wt_received s) \<and> sent = due
         | WtSend p \<Rightarrow> \<not> wt_gaveUp s \<and> due = sent @ [p]
             \<and> (\<not> wp_Terminal p \<longrightarrow> wt_ended s = None \<and> noFinal (wt_received s))
         | WtEnded e \<Rightarrow> \<not> wt_gaveUp s \<and> wt_ended s = Some e \<and> noFinal (wt_received s)
             \<and> due = sent @ endFrames minSeq (wt_lastSeen s) e
         | _ \<Rightarrow> wt_gaveUp s \<or> sent = due))"

lemma noFinal_snoc [simp]: "noFinal (ms @ [m]) \<longleftrightarrow> noFinal ms \<and> wm_Kind m \<noteq> KindDone"
  by (auto simp: noFinal_def)

lemma cancelWait_simps [simp]:
  "wt_out (cancelWait s) = wt_out s" "wt_at (cancelWait s) = wt_at s" "wt_lastSeen (cancelWait s) = wt_lastSeen s"
  "wt_received (cancelWait s) = wt_received s" "wt_ended (cancelWait s) = wt_ended s" "wt_gaveUp (cancelWait s) = wt_gaveUp s"
  "wt_ctxDone s \<Longrightarrow> wt_ctxDone (cancelWait s)"
  by (simp_all add: cancelWait_def)

lemma waitOk_gotFrame:
  assumes "waitOk minSeq s" "wt_at s = WtReceive"
  shows "waitOk minSeq (gotFrame m s)"
proof -
  have ok: "\<not> wt_gaveUp s" "wt_ended s = None" "noFinal (wt_received s)" "\<not> ch_closed (wt_out s)"
    "chanSent (wt_out s) = userFrames minSeq 0 None (wt_received s)" "wt_lastSeen s = lastCursor 0 (wt_received s)"
    using assms by (auto simp: waitOk_def Let_def)
  show ?thesis
    using ok assms(2) by (cases "wm_Kind m") (auto simp: waitOk_def gotFrame_def Let_def userFrames_snoc lastCursor_append)
qed

lemma waitOk_step:
  assumes "waitStep minSeq a s = Some s'" "waitOk minSeq s"
  shows "waitOk minSeq s'"
proof (cases a)
  case (WaFrame m)
  then show ?thesis using assms waitOk_gotFrame by (auto simp: waitStep_def split: if_splits)
next
  case (WaEnd e)
  then show ?thesis using assms
    by (auto simp: waitStep_def waitOk_def Let_def userFrames_end split: if_splits option.splits)
next
  case WaSent
  then obtain p where p: "wt_at s = WtSend p"
      "s' = s \<lparr> wt_out := chanPut p (wt_out s), wt_at := (if wp_Terminal p then WtCancel else WtReceive) \<rparr>"
    using assms(1) by (auto simp: waitStep_def split: wait_at.splits if_splits)
  show ?thesis using assms(2) p(1) unfolding p(2) by (auto simp: waitOk_def Let_def)
next
  case WaGiveUp
  then obtain p where p: "wt_at s = WtSend p" "wt_ctxDone s" "s' = s \<lparr> wt_gaveUp := True, wt_at := WtCancel \<rparr>"
    using assms(1) by (auto simp: waitStep_def split: wait_at.splits if_splits)
  show ?thesis using assms(2) p(1,2) unfolding p(3) by (auto simp: waitOk_def Let_def)
next
  case WaReport
  then obtain e where e: "wt_at s = WtEnded e" using assms(1) by (auto simp: waitStep_def split: wait_at.splits)
  show ?thesis
  proof (cases "\<exists>err. e = Some err \<and> \<not> isCtxCanceled err")
    case True
    then obtain err where err: "e = Some err" "\<not> isCtxCanceled err" by blast
    then have "s' = s \<lparr> wt_at := WtSend (errFrame (wt_lastSeen s) minSeq err) \<rparr>"
      using assms(1) e WaReport by (simp add: waitStep_def)
    moreover have "wt_ended s = Some (Some err)" "\<not> wt_gaveUp s" "\<not> ch_closed (wt_out s)"
        "wt_lastSeen s = lastCursor 0 (wt_received s)"
        "userFrames minSeq 0 (Some (Some err)) (wt_received s) = chanSent (wt_out s) @ [errFrame (wt_lastSeen s) minSeq err]"
      using assms(2) e err by (auto simp: waitOk_def Let_def)
    ultimately show ?thesis by (simp add: waitOk_def)
  next
    case False
    then have "s' = s \<lparr> wt_at := WtCancel \<rparr>"
      using assms(1) e WaReport by (cases e) (simp_all add: waitStep_def)
    then show ?thesis using assms(2) e False by (cases e) (auto simp: waitOk_def Let_def)
  qed
next
  case WaReturn
  then have "wt_at s = WtCancel \<and> s' = (cancelWait s) \<lparr> wt_at := WtClose \<rparr>
      \<or> wt_at s = WtClose \<and> s' = s \<lparr> wt_out := chanClose (wt_out s), wt_at := WtEnd \<rparr>"
    using assms(1) by (auto simp: waitStep_def split: wait_at.splits)
  then show ?thesis using assms(2) by (auto simp: waitOk_def Let_def)
next
  case WaTake
  then have "s' = s \<lparr> wt_out := chanTake (wt_out s) \<rparr>" using assms(1) by (auto simp: waitStep_def split: if_splits)
  then show ?thesis using assms(2) by (auto simp: waitOk_def Let_def split: wait_at.splits)
next
  case WaCancel
  then have "s' = cancelWait s" using assms(1) by (auto simp: waitStep_def)
  then show ?thesis using assms(2) by (auto simp: waitOk_def Let_def split: wait_at.splits)
next
  case WaParent
  then have "s' = s \<lparr> wt_ctxDone := True \<rparr>" using assms(1) by (auto simp: waitStep_def)
  then show ?thesis using assms(2) by (auto simp: waitOk_def Let_def split: wait_at.splits)
qed

interpretation wait_inv: step_invariant "waitStep minSeq" "waitOk minSeq" for minSeq
  by unfold_locales (rule waitOk_step)

text \<open>C36. 
  Whatever the caller, its context and the server do, the caller sees a prefix of the stream's progress
  frames followed by its final one, heartbeats left out, with a final frame only at the end; and when the
  channel is closed it has seen all of them, unless a frame was given up because the context was over.
\<close>
theorem wait_stream_shows_frames:
  assumes "reaches (waitStep minSeq) newWaitStream s"
  shows "prefix (chanSent (wt_out s)) (userFrames minSeq 0 (wt_ended s) (wt_received s))
    \<and> (\<forall>p\<in>set (butlast (chanSent (wt_out s))). \<not> wp_Terminal p)
    \<and> (ch_closed (wt_out s) \<longrightarrow> chanSent (wt_out s) = userFrames minSeq 0 (wt_ended s) (wt_received s) \<or> wt_gaveUp s)
    \<and> (wt_gaveUp s \<longrightarrow> wt_ctxDone s)"
proof -
  let ?sent = "chanSent (wt_out s)" and ?due = "userFrames minSeq 0 (wt_ended s) (wt_received s)"
  have ok: "waitOk minSeq s"
    by (rule wait_inv.reached_keep [OF assms]) (simp add: waitOk_def newWaitStream_def noFinal_def)
  have p: "prefix ?sent ?due" using ok by (cases "wt_at s") (auto simp: waitOk_def Let_def)
  then obtain zs where zs: "?due = ?sent @ zs" by (auto elim: prefixE)
  have "\<forall>p\<in>set (butlast ?sent). \<not> wp_Terminal p"
    using userFrames_terminal [of minSeq 0 "wt_ended s" "wt_received s"] unfolding zs
    by (cases "zs = []") (auto simp: butlast_append dest: in_set_butlastD)
  with p ok show ?thesis by (auto simp: waitOk_def Let_def)
qed

definition frameOf :: "wait_kind \<Rightarrow> nat \<Rightarrow> wait_msg" where
  "frameOf k n = \<lparr> wm_Kind = k, wm_CurrentSeq = n, wm_TargetSeq = 9, wm_BehindByEvents = 0, wm_CaughtUp = (k = KindDone),
     wm_TimedOut = False, wm_Mode = ''managed'', wm_Error = [] \<rparr>"

definition waitRun :: "wait_act list" where
  "waitRun = [WaFrame (frameOf KindProgress 3), WaSent, WaFrame (frameOf KindHeartbeat 0), WaTake,
     WaFrame (frameOf KindProgress 7), WaSent, WaEnd (Some (ENew ''connection reset'')), WaReport, WaSent, WaReturn, WaReturn]"

lemma wait_run:
  "map_option (\<lambda>s. (ch_closed (wt_out s), wt_gaveUp s, wt_ended s, wt_received s)) (runSteps (waitStep 9) waitRun newWaitStream)
   = Some (True, False, Some (Some (ENew ''connection reset'')),
       [frameOf KindProgress 3, frameOf KindHeartbeat 0, frameOf KindProgress 7])"
  by code_simp

text \<open>Witness: the transport breaks after two progress frames and a heartbeat; the caller sees the two and
  the error, with the last sequence seen.\<close>

theorem wait_stream_shows_frames_witness:
  "map_option (\<lambda>s. chanSent (wt_out s)) (runSteps (waitStep 9) waitRun newWaitStream)
   = Some [progressFrame (frameOf KindProgress 3), progressFrame (frameOf KindProgress 7), errFrame 7 9 (ENew ''connection reset'')]"
proof -
  obtain s where s: "runSteps (waitStep 9) waitRun newWaitStream = Some s" "ch_closed (wt_out s)" "\<not> wt_gaveUp s"
    "wt_ended s = Some (Some (ENew ''connection reset''))"
    "wt_received s = [frameOf KindProgress 3, frameOf KindHeartbeat 0, frameOf KindProgress 7]"
    using wait_run by auto
  have "chanSent (wt_out s) = userFrames 9 0 (wt_ended s) (wt_received s)"
    using wait_stream_shows_frames [OF runSteps_reaches [OF s(1) reaches.here]] s by blast
  then show ?thesis using s by (simp add: frameOf_def)
qed

section \<open>Ends the caller cannot tell apart\<close>

text \<open>A stream that ends without a final frame and without an error closes the channel with no final
  frame, and the caller did not cancel anything.\<close>

lemma clean_end_is_silent:
  "map_option (\<lambda>s. (ch_closed (wt_out s), chanSent (wt_out s), wt_gaveUp s))
     (runSteps (waitStep 9) [WaFrame (frameOf KindProgress 3), WaSent, WaEnd None, WaReport, WaReturn, WaReturn] newWaitStream)
   = Some (True, [progressFrame (frameOf KindProgress 3)], False)"
  by code_simp

text \<open>Cancelling drains nothing: the frames in the channel are still there when it is closed.\<close>

lemma cancel_drains_nothing:
  "map_option (\<lambda>s. (ch_closed (wt_out s), ch_buf (wt_out s)))
     (runSteps (waitStep 9) [WaFrame (frameOf KindProgress 3), WaSent, WaCancel, WaEnd (Some ECanceled), WaReport,
        WaReturn, WaReturn] newWaitStream)
   = Some (True, [progressFrame (frameOf KindProgress 3)])"
  by code_simp

text \<open>A wait without a projection name, or whose call fails, starts no stream.\<close>

lemma openWaitStream_simps:
  "openWaitStream rpc c [] opts = Inl (ENew ''name is required'')"
  "name \<noteq> [] \<Longrightarrow> rpc (waitRequest name opts) (waitHeaders c) = Some err \<Longrightarrow> openWaitStream rpc c name opts = Inl err"
  "openWaitStream rpc c name opts = Inr s \<Longrightarrow> s = newWaitStream"
  by (auto simp: openWaitStream_def split: if_splits option.splits)

end
