(* ===== verification/Agent_Tools.thy ===== *)
theory Agent_Tools
  imports Signature Http_Client
begin

text \<open>
  Tools an agent exposes (\<^verbatim>\<open>src/ironflow/agent/mcp.go\<close>, \<^verbatim>\<open>dispatch.go\<close>, \<^verbatim>\<open>internal_registry.go\<close>): their
  registration with the server, the registry of the process, and the handler of signed calls. The keyed
  hash, JSON parsing, the clock and the HTTP transport are arguments; a tool's handler is a function of a
  state of any type.
\<close>

section \<open>The registry\<close>

record 'w mcp_tool =
  mt_Name :: string
  mt_Description :: string
  mt_InputSchemaJSON :: string
  mt_Validate :: "(gval \<Rightarrow> goerr option) option"
  mt_Scopes :: "string list option"
  mt_TimeoutMS :: "32 word"
  mt_Handler :: "gval \<Rightarrow> 'w \<Rightarrow> (goerr + gval) \<times> 'w"

record 'w registered_tool =
  rt_AgentName :: string
  rt_QualifiedName :: string
  rt_HMACSecret :: string
  rt_Def :: "'w mcp_tool"

type_synonym 'w tool_registry = "string \<rightharpoonup> 'w registered_tool"

definition registerLocal :: "'w registered_tool \<Rightarrow> 'w tool_registry \<Rightarrow> 'w tool_registry" where
  "registerLocal entry reg = reg(rt_QualifiedName entry \<mapsto> entry)"

definition unregisterLocal :: "string \<Rightarrow> 'w tool_registry \<Rightarrow> 'w tool_registry" where
  "unregisterLocal agentName reg =
     (\<lambda>qn. case reg qn of None \<Rightarrow> None | Some entry \<Rightarrow> if rt_AgentName entry = agentName then None else Some entry)"

definition lookupLocal :: "string \<Rightarrow> 'w tool_registry \<Rightarrow> 'w registered_tool option" where
  "lookupLocal qualifiedName reg = reg qualifiedName"

section \<open>The handler of signed calls\<close>

record dispatch_request =
  dr_Method :: string
  dr_Path :: string
  dr_Body :: "goerr + string"
  dr_Signature :: string
  dr_Timestamp :: string

text \<open>An answer: a line of text, or a status with a JSON body. The body is missing when the encoder refuses
  it, after the status has been written.\<close>

datatype dispatch_answer = PlainAnswer int string | JsonAnswer int "json option"

definition dispatchReplayWindow :: int where
  "dispatchReplayWindow = 5 * minute"

definition dispatchFutureSkew :: int where
  "dispatchFutureSkew = 1 * minute"

definition signaturePrefix :: string where
  "signaturePrefix = ''sha256=''"

definition DispatchPath :: string where
  "DispatchPath = ''/ironflow/agent-tools/dispatch''"

text \<open>\<open>writeEnvelope\<close>, and \<open>writeJSON\<close> of an output: \<open>omitempty\<close> leaves out a nil output.\<close>

definition writeEnvelope :: "int \<Rightarrow> string \<Rightarrow> string \<Rightarrow> dispatch_answer" where
  "writeEnvelope status code message =
     JsonAnswer status (Some (JObj [(''error'', JObj [(''code'', JStr code), (''message'', JStr message)])]))"

definition writeOutput :: "gval \<Rightarrow> dispatch_answer" where
  "writeOutput output =
     JsonAnswer 200 (if output = GNil then Some (JObj [])
       else case marshal output of Inl _ \<Rightarrow> None | Inr j \<Rightarrow> Some (JObj [(''output'', j)]))"

text \<open>\<open>now.Sub(time.Unix(ts, 0))\<close>: the seconds of a \<open>time.Time\<close> count from year 1 and wrap at 64 bits, and the
  difference saturates.\<close>

definition sinceUnix :: "int \<Rightarrow> 64 word \<Rightarrow> int" where
  "sinceUnix now ts =
     max (- (2 ^ 63)) (min (2 ^ 63 - 1) (now + 62135596800 * second - sint (ts + 62135596800) * second))"

definition verifyHMAC :: "(string \<Rightarrow> string \<Rightarrow> string) \<Rightarrow> string \<Rightarrow> 64 word \<Rightarrow> string \<Rightarrow> string \<Rightarrow> bool" where
  "verifyHMAC mac rawBody ts receivedHex secretHex =
     (case hexDecode secretHex of
        None \<Rightarrow> False
      | Some secret \<Rightarrow>
          (let expected = mac secret (itoaInt (sint ts) @ ''.'' @ rawBody) in
           case hexDecode receivedHex of
             None \<Rightarrow> False
           | Some received \<Rightarrow>
               if length received \<noteq> length expected \<or> received = [] then False else received = expected))"

text \<open>\<open>json.Unmarshal\<close> into \<open>dispatchPayload\<close>.\<close>

definition decodePayload :: "json \<Rightarrow> (string \<times> raw) option" where
  "decodePayload j =
     (case j of
        JObj kvs \<Rightarrow>
          (let (ok, q) = assignString (fieldValues kvs ''qualified_name'') []
           in if ok then Some (q, assignRaw (fieldValues kvs ''input'')) else None)
      | JNull \<Rightarrow> Some ([], RawNone)
      | _ \<Rightarrow> None)"

text \<open>The input as the tool sees it. The input of a parsed body is always a document.\<close>

definition decodeInput :: "raw \<Rightarrow> string + gval" where
  "decodeInput r = (case r of RawNone \<Rightarrow> Inr GNil | RawBad m \<Rightarrow> Inl m | Raw j \<Rightarrow> unmarshalAny j)"

text \<open>The part after the signature has been checked.\<close>

definition callTool :: "'w mcp_tool \<Rightarrow> raw \<Rightarrow> 'w \<Rightarrow> dispatch_answer \<times> 'w" where
  "callTool def inp w =
     (case decodeInput inp of
        Inl m \<Rightarrow> (writeEnvelope 400 ''INPUT_SCHEMA_INVALID'' (''input is not valid JSON: '' @ m), w)
      | Inr input \<Rightarrow>
          (case (case mt_Validate def of None \<Rightarrow> None | Some validate \<Rightarrow> validate input) of
             Some err \<Rightarrow> (writeEnvelope 400 ''INPUT_SCHEMA_INVALID'' (errorText err), w)
           | None \<Rightarrow>
               (case mt_Handler def input w of
                  (Inl err, w1) \<Rightarrow> (writeEnvelope 200 ''HANDLER_ERROR'' (errorText err), w1)
                | (Inr output, w1) \<Rightarrow> (writeOutput output, w1))))"

text \<open>The checks before it, in their order: a refusal with status, code and message, or the entry and the
  input.\<close>

definition dispatchChecks ::
  "(string \<Rightarrow> string \<Rightarrow> string) \<Rightarrow> (string \<Rightarrow> json option) \<Rightarrow> int \<Rightarrow> 'w tool_registry \<Rightarrow> dispatch_request
   \<Rightarrow> (int \<times> string \<times> string) + 'w registered_tool \<times> raw" where
  "dispatchChecks mac parse now reg r =
     (case dr_Body r of
        Inl _ \<Rightarrow> Inl (400, ''INVALID_REQUEST'', ''failed to read body'')
      | Inr rawBody \<Rightarrow>
          if dr_Signature r = [] \<or> dr_Timestamp r = [] then Inl (401, ''SIGNATURE_MISMATCH'', ''missing HMAC headers'')
          else if \<not> hasPrefix signaturePrefix (dr_Signature r)
          then Inl (401, ''SIGNATURE_MISMATCH'', ''invalid signature format'')
          else (case parseInt64 (dr_Timestamp r) of
                  None \<Rightarrow> Inl (401, ''TIMESTAMP_SKEW'', ''invalid timestamp'')
                | Some ts \<Rightarrow>
                    if sinceUnix now ts > dispatchReplayWindow then Inl (401, ''TIMESTAMP_SKEW'', ''request timestamp too old'')
                    else if - sinceUnix now ts > dispatchFutureSkew
                    then Inl (401, ''TIMESTAMP_SKEW'', ''request timestamp too far in future'')
                    else (case (case parse rawBody of None \<Rightarrow> None | Some j \<Rightarrow> decodePayload j) of
                            None \<Rightarrow> Inl (400, ''INVALID_REQUEST'', ''callback body is not valid JSON'')
                          | Some (qualifiedName, inp) \<Rightarrow>
                              if qualifiedName = [] then Inl (400, ''INVALID_REQUEST'', ''qualified_name missing'')
                              else (case lookupLocal qualifiedName reg of
                                      None \<Rightarrow> Inl (401, ''SIGNATURE_MISMATCH'', ''HMAC mismatch'')
                                    | Some entry \<Rightarrow>
                                        if \<not> verifyHMAC mac rawBody ts (drop (length signaturePrefix) (dr_Signature r)) (rt_HMACSecret entry)
                                        then Inl (401, ''SIGNATURE_MISMATCH'', ''HMAC mismatch'')
                                        else Inr (entry, inp)))))"

definition HandleAgentToolDispatch ::
  "(string \<Rightarrow> string \<Rightarrow> string) \<Rightarrow> (string \<Rightarrow> json option) \<Rightarrow> int \<Rightarrow> 'w tool_registry \<Rightarrow> dispatch_request \<Rightarrow> 'w
   \<Rightarrow> dispatch_answer \<times> 'w" where
  "HandleAgentToolDispatch mac parse now reg r w =
     (case dispatchChecks mac parse now reg r of
        Inl (status, code, message) \<Rightarrow> (writeEnvelope status code message, w)
      | Inr (entry, inp) \<Rightarrow> callTool (rt_Def entry) inp w)"

definition DispatchHandler ::
  "(string \<Rightarrow> string \<Rightarrow> string) \<Rightarrow> (string \<Rightarrow> json option) \<Rightarrow> int \<Rightarrow> 'w tool_registry \<Rightarrow> dispatch_request \<Rightarrow> 'w
   \<Rightarrow> dispatch_answer \<times> 'w" where
  "DispatchHandler mac parse now reg r w =
     (if dr_Method r \<noteq> ''POST'' then (PlainAnswer 405 ''method not allowed'', w)
      else if dr_Path r \<noteq> DispatchPath then (PlainAnswer 404 ''404 page not found'', w)
      else HandleAgentToolDispatch mac parse now reg r w)"

section \<open>Exposing tools\<close>

record 'w mcp_config =
  mc_Name :: string
  mc_Version :: string
  mc_Tools :: "'w mcp_tool list"
  mc_CallbackURL :: string
  mc_ServerURL :: string
  mc_APIKey :: string
  mc_Environment :: string

text \<open>What the process environment gives: the configured server, \<open>IRONFLOW_API_KEY\<close> and \<open>IRONFLOW_ENV\<close>.\<close>

record mcp_env =
  me_ServerURL :: string
  me_APIKey :: string
  me_Environment :: string
  me_SDKVersion :: string

record mcp_handle =
  mh_Name :: string
  mh_ToolCount :: nat
  mh_Status :: string
  mh_ToolNames :: "string list"
  mh_serverURL :: string
  mh_apiKey :: string
  mh_environment :: string
  mh_unregistered :: bool

definition mcpError :: "string \<Rightarrow> string \<Rightarrow> (string \<times> detail) list \<Rightarrow> goerr option \<Rightarrow> goerr" where
  "mcpError code message details cause = EIron (IronflowError message code False 0 details cause)"

definition toToolDefJSON :: "'w mcp_tool \<Rightarrow> json" where
  "toToolDefJSON def = JObj
     [(''name'', JStr (mt_Name def)), (''description'', JStr (mt_Description def)),
      (''inputSchemaJson'', JStr (mt_InputSchemaJSON def)),
      (''requiredScopes'', JArr (map JStr (case mt_Scopes def of None \<Rightarrow> [] | Some s \<Rightarrow> s))),
      (''timeoutMs'', JNum (itoa (unat (mt_TimeoutMS def))))]"

text \<open>The loop over the tools: the first repeated name or missing schema ends it.\<close>

fun toolPayload :: "string list \<Rightarrow> 'w mcp_tool list \<Rightarrow> goerr + json list" where
  "toolPayload seen [] = Inr []"
| "toolPayload seen (def # defs) =
     (if mt_Name def \<in> set seen
      then Inl (mcpError ''AGENT_MCP_DUPLICATE_TOOL'' (''ExposeMcp received duplicate tool name '' @ quoted (mt_Name def))
             [(''toolName'', DStr (mt_Name def))] None)
      else if mt_InputSchemaJSON def = []
      then Inl (mcpError ''AGENT_MCP_MISSING_SCHEMA'' (''ExposeMcp tool '' @ quoted (mt_Name def) @ '' missing InputSchemaJSON'')
             [(''toolName'', DStr (mt_Name def))] None)
      else (case toolPayload (mt_Name def # seen) defs of
              Inl err \<Rightarrow> Inl err
            | Inr js \<Rightarrow> Inr (toToolDefJSON def # js)))"

definition trimRightSlashes :: "string \<Rightarrow> string" where
  "trimRightSlashes s = rev (dropWhile (\<lambda>c. c = CHR ''/'') (rev s))"

text \<open>\<open>postJSON\<close>. The bodies it is given always marshal. The limit on the response body is the transport's.\<close>

definition postJSON ::
  "mcp_env \<Rightarrow> (http_call \<Rightarrow> 'w \<Rightarrow> transport \<times> 'w) \<Rightarrow> string \<Rightarrow> string \<Rightarrow> string \<Rightarrow> string \<Rightarrow> json \<Rightarrow> 'w
   \<Rightarrow> (goerr + http_response) \<times> 'w" where
  "postJSON env send serverURL path apiKey environment body w =
     (case send \<lparr> hc_Method = ''POST'', hc_URL = trimRightSlashes serverURL @ path,
              hc_Header = [''Content-Type'' \<mapsto> ''application/json'', ''Authorization'' \<mapsto> ''Bearer '' @ apiKey,
                  ''X-Ironflow-SDK'' \<mapsto> ''go/'' @ me_SDKVersion env]
                ++ (if environment \<noteq> [] then [''X-Ironflow-Environment-ID'' \<mapsto> environment] else Map.empty),
              hc_Body = Some body \<rparr> w of
        (NotCreated err, w1) \<Rightarrow>
          (Inl (mcpError ''AGENT_MCP_TRANSPORT_ERROR'' (''failed to build request: '' @ errorText err) [] (Some err)), w1)
      | (NotSent err, w1) \<Rightarrow>
          (Inl (mcpError ''AGENT_MCP_TRANSPORT_ERROR'' (''POST '' @ path @ '' failed: '' @ errorText err) [] (Some err)), w1)
      | (NotRead err, w1) \<Rightarrow>
          (Inl (mcpError ''AGENT_MCP_INVALID_RESPONSE'' (''read response: '' @ errorText err) [] (Some err)), w1)
      | (Answered resp, w1) \<Rightarrow>
          if rp_StatusCode resp \<ge> 400
          then (Inl (mcpError ''AGENT_MCP_TRANSPORT_ERROR''
                  (''POST '' @ path @ '' failed: HTTP '' @ itoaInt (rp_StatusCode resp)
                   @ (if rp_Text resp \<noteq> [] then [CHR '' '', CHR 0xE2, CHR 0x80, CHR 0x94, CHR '' ''] @ rp_Text resp else []))
                  [] None), w1)
          else (Inr resp, w1))"

text \<open>\<open>json.Unmarshal\<close> into the list of names: an element that is \<open>null\<close> is the empty name.\<close>

fun stringElems :: "json list \<Rightarrow> string list option" where
  "stringElems [] = Some []"
| "stringElems (j # js) =
     (case (case j of JStr s \<Rightarrow> Some s | JNull \<Rightarrow> Some [] | _ \<Rightarrow> None, stringElems js) of
        (Some s, Some ss) \<Rightarrow> Some (s # ss)
      | _ \<Rightarrow> None)"

fun assignStrings :: "json list \<Rightarrow> string list \<Rightarrow> string list option" where
  "assignStrings [] v = Some v"
| "assignStrings (j # js) v =
     (case j of
        JNull \<Rightarrow> assignStrings js []
      | JArr es \<Rightarrow> (case stringElems es of None \<Rightarrow> None | Some ss \<Rightarrow> assignStrings js ss)
      | _ \<Rightarrow> None)"

definition decodeRegistered :: "json \<Rightarrow> (string \<times> string list) option" where
  "decodeRegistered j =
     (case j of
        JObj kvs \<Rightarrow>
          (let (ok, secret) = assignString (fieldValues kvs ''hmacSecret'') []
           in if ok then map_option (Pair secret) (assignStrings (fieldValues kvs ''registeredToolNames'') []) else None)
      | JNull \<Rightarrow> Some ([], [])
      | _ \<Rightarrow> None)"

text \<open>\<open>decodeJSON\<close>: an empty body leaves the zero response.\<close>

definition decodeJSON :: "http_response \<Rightarrow> goerr + string \<times> string list" where
  "decodeJSON resp =
     (let bad = Inl (mcpError ''AGENT_MCP_INVALID_RESPONSE'' (''response body is not valid JSON: '' @ take 256 (rp_Text resp))
            [] (Some (ENew ''json''))) in
      case rp_Body resp of
        RawNone \<Rightarrow> Inr ([], [])
      | RawBad _ \<Rightarrow> bad
      | Raw j \<Rightarrow> (case decodeRegistered j of None \<Rightarrow> bad | Some d \<Rightarrow> Inr d))"

definition orElse :: "string \<Rightarrow> string \<Rightarrow> string" where
  "orElse a b = (if a = [] then b else a)"

text \<open>The loop that stores the closures, and the whole of \<open>ExposeMcp\<close>.\<close>

definition toolEntryFor :: "string \<Rightarrow> string \<Rightarrow> 'w mcp_tool \<Rightarrow> 'w registered_tool" where
  "toolEntryFor agent secret def = \<lparr> rt_AgentName = agent, rt_QualifiedName = agent @ ''.'' @ mt_Name def,
     rt_HMACSecret = secret, rt_Def = def \<rparr>"

definition storeTools :: "string \<Rightarrow> string \<Rightarrow> 'w mcp_tool list \<Rightarrow> 'w tool_registry \<Rightarrow> 'w tool_registry" where
  "storeTools agent secret defs reg = fold (\<lambda>def. registerLocal (toolEntryFor agent secret def)) defs reg"

definition exposeChecks :: "mcp_env \<Rightarrow> 'w mcp_config \<Rightarrow> goerr + json list" where
  "exposeChecks env cfg =
     (if mc_Tools cfg = [] then Inl (mcpError ''AGENT_MCP_NO_TOOLS'' ''ExposeMcp requires at least one tool'' [] None)
      else if mc_CallbackURL cfg = []
      then Inl (mcpError ''AGENT_MCP_MISSING_CALLBACK_URL'' ''ExposeMcp requires CallbackURL pointing at your Serve() mount'' [] None)
      else if orElse (mc_ServerURL cfg) (me_ServerURL env) = []
      then Inl (mcpError ''AGENT_MCP_MISSING_SERVER_URL'' ''ExposeMcp requires ServerURL (or IRONFLOW_SERVER_URL env)'' [] None)
      else if orElse (mc_APIKey cfg) (me_APIKey env) = []
      then Inl (mcpError ''AGENT_MCP_MISSING_API_KEY''
             ''ExposeMcp requires APIKey (or IRONFLOW_API_KEY env) with the agent:tools:register action'' [] None)
      else toolPayload [] (mc_Tools cfg))"

definition ExposeMcp ::
  "mcp_env \<Rightarrow> (http_call \<Rightarrow> 'w \<Rightarrow> transport \<times> 'w) \<Rightarrow> 'w mcp_config \<Rightarrow> 'w tool_registry \<Rightarrow> 'w
   \<Rightarrow> (goerr + mcp_handle) \<times> 'w tool_registry \<times> 'w" where
  "ExposeMcp env send cfg reg w =
     (case exposeChecks env cfg of
        Inl err \<Rightarrow> (Inl err, reg, w)
      | Inr tools \<Rightarrow>
          (let serverURL = orElse (mc_ServerURL cfg) (me_ServerURL env);
               apiKey = orElse (mc_APIKey cfg) (me_APIKey env);
               environment = orElse (mc_Environment cfg) (me_Environment env);
               body = JObj [(''agentName'', JStr (mc_Name cfg)), (''callbackUrl'', JStr (mc_CallbackURL cfg)),
                 (''tools'', JArr tools)]
           in case postJSON env send serverURL ''/ironflow.v1.AgentToolsService/RegisterTool'' apiKey environment body w of
                (Inl err, w1) \<Rightarrow> (Inl err, reg, w1)
              | (Inr resp, w1) \<Rightarrow>
                  (case decodeJSON resp of
                     Inl err \<Rightarrow> (Inl err, reg, w1)
                   | Inr (secret, names) \<Rightarrow>
                       if secret = [] \<or> names = []
                       then (Inl (mcpError ''AGENT_MCP_INVALID_RESPONSE''
                               ''RegisterTool response missing hmacSecret or registeredToolNames'' [] None), reg, w1)
                       else (Inr \<lparr> mh_Name = mc_Name cfg, mh_ToolCount = length names, mh_Status = ''active'',
                               mh_ToolNames = names, mh_serverURL = serverURL, mh_apiKey = apiKey,
                               mh_environment = environment, mh_unregistered = False \<rparr>,
                             storeTools (mc_Name cfg) secret (mc_Tools cfg) reg, w1))))"

definition Unregister ::
  "mcp_env \<Rightarrow> (http_call \<Rightarrow> 'w \<Rightarrow> transport \<times> 'w) \<Rightarrow> mcp_handle \<Rightarrow> 'w tool_registry \<Rightarrow> 'w
   \<Rightarrow> goerr option \<times> mcp_handle \<times> 'w tool_registry \<times> 'w" where
  "Unregister env send h reg w =
     (if mh_unregistered h then (None, h, reg, w)
      else let h' = h \<lparr> mh_unregistered := True \<rparr>; reg' = unregisterLocal (mh_Name h) reg
           in case postJSON env send (mh_serverURL h) ''/ironflow.v1.AgentToolsService/UnregisterTool'' (mh_apiKey h)
                     (mh_environment h) (JObj [(''agentName'', JStr (mh_Name h))]) w of
                (Inl err, w1) \<Rightarrow>
                  (Some (mcpError ''AGENT_MCP_UNREGISTER_FAILED'' (''unregister failed: '' @ errorText err) [] (Some err)), h', reg', w1)
              | (Inr _, w1) \<Rightarrow> (None, h', reg', w1))"
section \<open>Who runs a tool\<close>

text \<open>A request carries the digest made with the secret of an entry.\<close>

definition signedFor :: "(string \<Rightarrow> string \<Rightarrow> string) \<Rightarrow> dispatch_request \<Rightarrow> 'w registered_tool \<Rightarrow> bool" where
  "signedFor mac r entry =
     (case (dr_Body r, parseInt64 (dr_Timestamp r)) of
        (Inr rawBody, Some ts) \<Rightarrow> verifyHMAC mac rawBody ts (drop (length signaturePrefix) (dr_Signature r)) (rt_HMACSecret entry)
      | _ \<Rightarrow> False)"

lemma verifyHMAC_iff:
  "verifyHMAC mac rawBody ts receivedHex secretHex \<longleftrightarrow>
     (\<exists>secret. hexDecode secretHex = Some secret
        \<and> hexDecode receivedHex = Some (mac secret (itoaInt (sint ts) @ ''.'' @ rawBody))
        \<and> mac secret (itoaInt (sint ts) @ ''.'' @ rawBody) \<noteq> [])"
  by (auto simp: verifyHMAC_def Let_def split: option.splits)

text \<open>The seconds of a timestamp wrap only for one too far in the future, which is then taken for one long
  past.\<close>

lemma sint_shift:
  fixes ts :: "64 word"
  shows "sint (ts + 62135596800) = sint ts + 62135596800 \<or> sint (ts + 62135596800) = sint ts + 62135596800 - 2 ^ 64"
proof -
  have r: "- (2 ^ 63) \<le> sint ts" "sint ts < 2 ^ 63" using sint_range_size [of ts] by (simp_all add: word_size)
  have "sint (ts + 62135596800) = signed_take_bit 63 (sint ts + 62135596800)"
    using sint_sbintrunc' [of "sint ts + 62135596800", where 'a = 64]
    by (simp add: signed_take_bit_add sint_word_ariths)
  also have "\<dots> = (sint ts + 62135596800 + 2 ^ 63) mod 2 ^ 64 - 2 ^ 63"
    by (simp add: signed_take_bit_eq_take_bit_shift take_bit_eq_mod)
  finally have e: "sint (ts + 62135596800) = (sint ts + 62135596800 + 2 ^ 63) mod 2 ^ 64 - 2 ^ 63" .
  show ?thesis
  proof (cases "sint ts + 62135596800 + 2 ^ 63 < 2 ^ 64")
    case True
    with r have "(sint ts + 62135596800 + 2 ^ 63) mod 2 ^ 64 = sint ts + 62135596800 + 2 ^ 63" by (intro mod_pos_pos_trivial) auto
    with e show ?thesis by simp
  next
    case False
    have "(sint ts + 62135596800 + 2 ^ 63) mod 2 ^ 64 = (sint ts + 62135596800 + 2 ^ 63 - 2 ^ 64) mod 2 ^ 64"
      by (rule minus_mod_self2 [symmetric])
    also have "\<dots> = sint ts + 62135596800 + 2 ^ 63 - 2 ^ 64" using False r by (intro mod_pos_pos_trivial) auto
    finally show ?thesis using e by simp
  qed
qed

lemma sinceUnix_recent:
  assumes "0 \<le> now" "sinceUnix now ts \<le> dispatchReplayWindow" "- sinceUnix now ts \<le> dispatchFutureSkew"
  shows "now - sint ts * second \<le> 5 * minute" "sint ts * second - now \<le> minute"
proof -
  have r: "sint ts < 2 ^ 63" using sint_range_size [of ts] by (simp add: word_size)
  let ?d = "now + 62135596800 * second - sint (ts + 62135596800) * second"
  have d: "?d \<le> 5 * minute" "- ?d \<le> minute"
    using assms(2,3) by (auto simp: sinceUnix_def dispatchReplayWindow_def dispatchFutureSkew_def duration_units)
  then have "sint (ts + 62135596800) = sint ts + 62135596800"
    using sint_shift [of ts] assms(1) r by (auto simp: duration_units)
  with d show "now - sint ts * second \<le> 5 * minute" "sint ts * second - now \<le> minute"
    by (simp_all add: algebra_simps)
qed


lemma dispatchChecks_refuses: "dispatchChecks mac parse now reg r = Inl (st, code, msg) \<Longrightarrow> st = 400 \<or> st = 401"
  by (auto simp: dispatchChecks_def split: sum.splits option.splits if_splits)

lemma dispatchChecks_passes:
  assumes "dispatchChecks mac parse now reg r = Inr (entry, inp)"
  obtains rawBody ts j q where "dr_Body r = Inr rawBody" "hasPrefix signaturePrefix (dr_Signature r)"
      "parseInt64 (dr_Timestamp r) = Some ts"
      "sinceUnix now ts \<le> dispatchReplayWindow" "- sinceUnix now ts \<le> dispatchFutureSkew"
      "parse rawBody = Some j" "decodePayload j = Some (q, inp)" "reg q = Some entry" "signedFor mac r entry"
  using assms by (auto simp: dispatchChecks_def lookupLocal_def signedFor_def not_less split: sum.splits option.splits if_splits)

text \<open>C37. 
  A tool runs only for a request whose body names it, whose signature is the digest of its timestamp and
  its body under the secret the tool was registered with, and whose timestamp is at most five minutes old
  and a minute ahead, whatever its 64-bit value; every other request is refused and changes nothing.
\<close>
theorem tool_runs_only_authentic:
  assumes "0 \<le> now" "HandleAgentToolDispatch mac parse now reg r w = (a, w')"
    and "w' \<noteq> w \<or> (\<exists>body. a = JsonAnswer 200 body)"
  shows "\<exists>rawBody ts j q inp entry secret. dr_Body r = Inr rawBody \<and> parseInt64 (dr_Timestamp r) = Some ts
    \<and> now - sint ts * second \<le> 5 * minute \<and> sint ts * second - now \<le> minute
    \<and> parse rawBody = Some j \<and> decodePayload j = Some (q, inp) \<and> reg q = Some entry
    \<and> hexDecode (rt_HMACSecret entry) = Some secret
    \<and> hexDecode (drop (length signaturePrefix) (dr_Signature r)) = Some (mac secret (itoaInt (sint ts) @ ''.'' @ rawBody))
    \<and> callTool (rt_Def entry) inp w = (a, w')"
proof (cases "dispatchChecks mac parse now reg r")
  case (Inl x)
  obtain st code msg where x: "x = (st, code, msg)" by (cases x) auto
  with dispatchChecks_refuses [of mac parse now reg r st code msg] Inl assms(2,3) show ?thesis
    by (auto simp: HandleAgentToolDispatch_def writeEnvelope_def)
next
  case (Inr x)
  obtain entry inp where x: "x = (entry, inp)" by (cases x) auto
  with Inr obtain rawBody ts j q where c: "dr_Body r = Inr rawBody" "parseInt64 (dr_Timestamp r) = Some ts"
      "sinceUnix now ts \<le> dispatchReplayWindow" "- sinceUnix now ts \<le> dispatchFutureSkew"
      "parse rawBody = Some j" "decodePayload j = Some (q, inp)" "reg q = Some entry" "signedFor mac r entry"
    using dispatchChecks_passes [of mac parse now reg r entry inp] by metis
  obtain secret where "hexDecode (rt_HMACSecret entry) = Some secret"
      "hexDecode (drop (length signaturePrefix) (dr_Signature r)) = Some (mac secret (itoaInt (sint ts) @ ''.'' @ rawBody))"
    using c(1,2,8) by (auto simp: signedFor_def verifyHMAC_iff)
  moreover have "callTool (rt_Def entry) inp w = (a, w')" using assms(2) Inr x by (simp add: HandleAgentToolDispatch_def)
  ultimately show ?thesis using c(1,2,5,6,7) sinceUnix_recent [OF assms(1) c(3,4)] by blast
qed

text \<open>Without a signature that fits a registered tool the answer says nothing about the registry: two
  registries, in none of which the request is signed for an entry, answer alike.\<close>

lemma forged_call_learns_nothing:
  assumes "\<And>q entry. reg1 q = Some entry \<Longrightarrow> \<not> signedFor mac r entry"
    and "\<And>q entry. reg2 q = Some entry \<Longrightarrow> \<not> signedFor mac r entry"
  shows "HandleAgentToolDispatch mac parse now reg1 r w = HandleAgentToolDispatch mac parse now reg2 r w"
proof -
  have "dispatchChecks mac parse now reg1 r = dispatchChecks mac parse now reg2 r"
    using assms
    by (auto simp: dispatchChecks_def signedFor_def lookupLocal_def split: sum.splits option.splits)
  then show ?thesis by (simp add: HandleAgentToolDispatch_def)
qed


definition demoMcpTool :: "nat mcp_tool" where
  "demoMcpTool = \<lparr> mt_Name = ''sum'', mt_Description = [], mt_InputSchemaJSON = ''{}'', mt_Validate = None, mt_Scopes = None,
     mt_TimeoutMS = 0, mt_Handler = (\<lambda>input n. (Inr input, n + 1)) \<rparr>"

definition demoDispatch :: "string \<Rightarrow> dispatch_request" where
  "demoDispatch hex = \<lparr> dr_Method = ''POST'', dr_Path = DispatchPath, dr_Body = Inr ''body'',
     dr_Signature = signaturePrefix @ hex, dr_Timestamp = ''100'' \<rparr>"

definition demoParse :: "string \<Rightarrow> json option" where
  "demoParse text = Some (JObj [(''qualified_name'', JStr ''calc.sum''), (''input'', JNum ''7'')])"

definition demoTools :: "nat tool_registry" where
  "demoTools = storeTools ''calc'' ''6b'' [demoMcpTool] Map.empty"

lemma demo_call:
  "HandleAgentToolDispatch (\<lambda>key msg. key @ msg) demoParse (160 * second) demoTools (demoDispatch (hexEncode ''k100.body'')) 0
   = (JsonAnswer 200 (Some (JObj [(''output'', JNum ''7'')])), 1)"
  by code_simp

text \<open>Witness: a signed call one minute old runs the tool; the theorem gives back the entry and its
  secret.\<close>

theorem tool_runs_only_authentic_witness:
  "\<exists>entry secret. demoTools ''calc.sum'' = Some entry \<and> hexDecode (rt_HMACSecret entry) = Some secret
     \<and> hexDecode (hexEncode ''k100.body'') = Some (secret @ itoaInt (sint (100 :: 64 word)) @ ''.'' @ ''body'')"
proof -
  have p: "parseInt64 ''100'' = Some 100" by code_simp
  have d: "decodePayload (JObj [(''qualified_name'', JStr ''calc.sum''), (''input'', JNum ''7'')]) = Some (''calc.sum'', Raw (JNum ''7''))"
    by code_simp
  have now: "0 \<le> 160 * second" by (simp add: duration_units)
  show ?thesis
    using tool_runs_only_authentic [OF now demo_call] p d
    by (auto simp: demoDispatch_def demoParse_def)
qed

text \<open>What the encoder refuses leaves a status of 200 with no body, and a nil output an object with neither
  member.\<close>

lemma unencodable_output_has_no_body:
  assumes "mt_Validate def = None" "decodeInput inp = Inr input" "mt_Handler def input w = (Inr (GBad m), w1)"
  shows "callTool def inp w = (JsonAnswer 200 None, w1)"
  using assms by (simp add: callTool_def writeOutput_def)

lemma nil_output_has_no_member:
  assumes "mt_Validate def = None" "decodeInput inp = Inr input" "mt_Handler def input w = (Inr GNil, w1)"
  shows "callTool def inp w = (JsonAnswer 200 (Some (JObj [])), w1)"
  using assms by (simp add: callTool_def writeOutput_def)

section \<open>The registry over time\<close>

text \<open>Entries stand under their own names and have a secret.\<close>

definition registryOk :: "'w tool_registry \<Rightarrow> bool" where
  "registryOk reg \<longleftrightarrow> (\<forall>q entry. reg q = Some entry \<longrightarrow> rt_QualifiedName entry = q \<and> rt_HMACSecret entry \<noteq> []
     \<and> q = rt_AgentName entry @ ''.'' @ mt_Name (rt_Def entry))"

lemma toolPayload_distinct:
  "toolPayload seen defs = Inr js \<Longrightarrow> distinct (map mt_Name defs) \<and> set (map mt_Name defs) \<inter> set seen = {}"
proof (induction defs arbitrary: seen js)
  case (Cons def defs)
  then obtain js' where js': "toolPayload (mt_Name def # seen) defs = Inr js'" "mt_Name def \<notin> set seen"
    by (auto split: if_splits sum.splits)
  from Cons.IH [OF js'(1)] js'(2) show ?case by auto
qed simp

lemma storeTools_other:
  "q \<notin> (\<lambda>def. agent @ ''.'' @ mt_Name def) ` set defs \<Longrightarrow> storeTools agent secret defs reg q = reg q"
  by (induction defs arbitrary: reg) (auto simp: storeTools_def registerLocal_def toolEntryFor_def)

lemma storeTools_stored:
  "distinct (map mt_Name defs) \<Longrightarrow> def \<in> set defs \<Longrightarrow>
   storeTools agent secret defs reg (agent @ ''.'' @ mt_Name def) = Some (toolEntryFor agent secret def)"
proof (induction defs arbitrary: reg)
  case (Cons d ds)
  let ?reg = "registerLocal (toolEntryFor agent secret d) reg"
  have step: "storeTools agent secret (d # ds) reg = storeTools agent secret ds ?reg" by (simp add: storeTools_def)
  show ?case
  proof (cases "def = d")
    case True
    with Cons.prems(1) have "agent @ ''.'' @ mt_Name def \<notin> (\<lambda>def. agent @ ''.'' @ mt_Name def) ` set ds" by auto
    from storeTools_other [OF this] True show ?thesis
      unfolding step by (simp add: registerLocal_def toolEntryFor_def)
  next
    case False
    with Cons show ?thesis unfolding step by simp
  qed
qed simp

lemma storeTools_ok: "registryOk reg \<Longrightarrow> secret \<noteq> [] \<Longrightarrow> registryOk (storeTools agent secret defs reg)"
proof (induction defs arbitrary: reg)
  case (Cons d ds)
  have "registryOk (registerLocal (toolEntryFor agent secret d) reg)"
    using Cons.prems by (auto simp: registryOk_def registerLocal_def toolEntryFor_def)
  from Cons.IH [OF this Cons.prems(2)] show ?case by (simp add: storeTools_def)
qed (simp add: storeTools_def)

text \<open>A successful \<open>ExposeMcp\<close> stores every tool under its name with the secret of the answer, leaves the
  other names alone, and a failed one changes no entry.\<close>

lemma ExposeMcp_stores:
  assumes "ExposeMcp env send cfg reg w = (res, reg', w1)"
  shows "(\<exists>err. res = Inl err \<and> reg' = reg)
    \<or> (\<exists>h secret. res = Inr h \<and> secret \<noteq> [] \<and> mh_Name h = mc_Name cfg \<and> \<not> mh_unregistered h
        \<and> distinct (map mt_Name (mc_Tools cfg)) \<and> reg' = storeTools (mc_Name cfg) secret (mc_Tools cfg) reg)"
proof (cases "exposeChecks env cfg")
  case (Inl err)
  then show ?thesis using assms by (auto simp: ExposeMcp_def)
next
  case (Inr js)
  then have "toolPayload [] (mc_Tools cfg) = Inr js" by (auto simp: exposeChecks_def split: if_splits)
  from toolPayload_distinct [OF this] show ?thesis
    using assms Inr by (auto simp: ExposeMcp_def Let_def split: prod.splits sum.splits if_splits)
qed

lemma ExposeMcp_keeps:
  assumes "ExposeMcp env send cfg reg w = (res, reg', w1)" "registryOk reg"
  shows "registryOk reg'"
  using ExposeMcp_stores [OF assms(1)] assms(2) storeTools_ok by blast

text \<open>\<open>Unregister\<close> removes the agent's entries whatever the server answers, and does nothing the second
  time.\<close>

lemma Unregister_removes:
  assumes "Unregister env send h reg w = (err, h', reg', w1)"
  shows "mh_unregistered h' \<and> (if mh_unregistered h then err = None \<and> h' = h \<and> reg' = reg \<and> w1 = w
    else reg' = unregisterLocal (mh_Name h) reg)"
  using assms by (auto simp: Unregister_def Let_def split: if_splits prod.splits sum.splits)

lemma unregistered_gone: "unregisterLocal agent reg q = Some entry \<Longrightarrow> rt_AgentName entry \<noteq> agent \<and> reg q = Some entry"
  by (auto simp: unregisterLocal_def split: option.splits if_splits)

lemma Unregister_keeps:
  assumes "Unregister env send h reg w = (err, h', reg', w1)" "registryOk reg"
  shows "registryOk reg'"
proof (cases "mh_unregistered h")
  case True
  then show ?thesis using Unregister_removes [OF assms(1)] assms(2) by simp
next
  case False
  with Unregister_removes [OF assms(1)] have "reg' = unregisterLocal (mh_Name h) reg" by simp
  with assms(2) unregistered_gone show ?thesis unfolding registryOk_def by metis
qed

text \<open>A call signed with an entry's secret, in time, reaches its tool.\<close>

lemma signed_call_reaches_tool:
  assumes "reg q = Some entry" "q \<noteq> []" "hexDecode (rt_HMACSecret entry) = Some key"
    and "dr_Body r = Inr rawBody" "dr_Timestamp r = itoaInt (sint ts)"
    and "dr_Signature r = signaturePrefix @ hexEncode (mac key (itoaInt (sint ts) @ ''.'' @ rawBody))"
    and "mac key (itoaInt (sint ts) @ ''.'' @ rawBody) \<noteq> []"
    and "sinceUnix now ts \<le> dispatchReplayWindow" "- sinceUnix now ts \<le> dispatchFutureSkew"
    and "parse rawBody = Some j" "decodePayload j = Some (q, inp)"
  shows "HandleAgentToolDispatch mac parse now reg r w = callTool (rt_Def entry) inp w"
proof -
  have "dr_Timestamp r \<noteq> []" unfolding assms(5) by (simp add: itoaInt_def)
  moreover have "hasPrefix signaturePrefix (dr_Signature r)" unfolding assms(6) by (simp add: hasPrefix_def signaturePrefix_def)
  moreover have "dr_Signature r \<noteq> []" unfolding assms(6) by (simp add: signaturePrefix_def)
  moreover have "verifyHMAC mac rawBody ts (drop (length signaturePrefix) (dr_Signature r)) (rt_HMACSecret entry)"
    using assms(3,6,7) by (simp add: verifyHMAC_iff)
  ultimately have "dispatchChecks mac parse now reg r = Inr (entry, inp)"
    using assms by (simp add: dispatchChecks_def lookupLocal_def parseInt64_itoaInt)
  then show ?thesis by (simp add: HandleAgentToolDispatch_def)
qed

text \<open>Exposing an agent again with fewer tools leaves the tools that are gone in the registry, with the old
  secret: a call signed with it still runs them.\<close>

lemma reexposed_agent_keeps_old_tool:
  "(let other = demoMcpTool \<lparr> mt_Name := ''mul'' \<rparr>; reg = storeTools ''calc'' ''71'' [other] demoTools
    in HandleAgentToolDispatch (\<lambda>key msg. key @ msg) demoParse (160 * second) reg (demoDispatch (hexEncode ''k100.body'')) 0
       = (JsonAnswer 200 (Some (JObj [(''output'', JNum ''7'')])), 1))"
  by code_simp

end
