(* ===== verification/Agent_Runtime.thy ===== *)
theory Agent_Runtime
  imports Wait_Invoke Signature "HOL-Library.Char_ord" "HOL-Library.List_Lexorder"
begin

text \<open>
  The agent helpers on top of the step primitives (\<^verbatim>\<open>src/ironflow/agent/agent.go\<close>, \<^verbatim>\<open>tool.go\<close>, \<^verbatim>\<open>llm.go\<close>,
  \<^verbatim>\<open>memory.go\<close>, \<^verbatim>\<open>approve.go\<close>, \<^verbatim>\<open>internal.go\<close>, \<^verbatim>\<open>errors.go\<close>): the state of one run of an agent, tool calls with
  their memo, model turns with their budget, memory and approvals. The calls of a handler are taken one after
  another; the calls of one tool that overlap share one execution in the source.
\<close>

section \<open>Errors\<close>

text \<open>The error types of the package embed an \<open>IronflowError\<close>.\<close>

datatype agent_error =
    MaxTurnsExceededError ironflow_error int
  | LLMRefusalError ironflow_error
  | LLMInvalidJSONError ironflow_error
  | LLMMaxTokensError ironflow_error
  | ToolValidationError ironflow_error string
  | DuplicateToolError ironflow_error string
  | ToolNotFoundError ironflow_error string
  | MemoryProjectionRequiredError ironflow_error string

fun embeddedError :: "agent_error \<Rightarrow> ironflow_error" where
  "embeddedError (MaxTurnsExceededError e _) = e"
| "embeddedError (LLMRefusalError e) = e"
| "embeddedError (LLMInvalidJSONError e) = e"
| "embeddedError (LLMMaxTokensError e) = e"
| "embeddedError (ToolValidationError e _) = e"
| "embeddedError (DuplicateToolError e _) = e"
| "embeddedError (ToolNotFoundError e _) = e"
| "embeddedError (MemoryProjectionRequiredError e _) = e"

text \<open>What the rest of the SDK sees of such an error. None of the types has methods of its own, so they
  are the promoted ones: the text is the embedded error's, and \<open>Unwrap\<close> gives its \<open>Cause\<close>. The embedded error
  itself is not in the chain that \<open>errors.As\<close> walks.\<close>

definition seenAs :: "agent_error \<Rightarrow> goerr" where
  "seenAs err =
     (let e = embeddedError err; text = errorText (EIron e)
      in case ie_Cause e of None \<Rightarrow> ENew text | Some cause \<Rightarrow> EWrap text [cause])"

definition quoteName :: "string \<Rightarrow> string" where
  "quoteName s = CHR 0x22 # s @ [CHR 0x22]"

definition newMaxTurnsExceededError :: "int \<Rightarrow> agent_error" where
  "newMaxTurnsExceededError maxTurns = MaxTurnsExceededError
     (IronflowError ''agent exceeded maxTurns'' ''AGENT_MAX_TURNS_EXCEEDED'' False 0 [(''maxTurns'', DInt maxTurns)] None) maxTurns"

text \<open>The details beside the finish reason are left out: they are of any type.\<close>

definition newLLMRefusalError :: "string \<Rightarrow> (string \<times> detail) list \<Rightarrow> agent_error" where
  "newLLMRefusalError message details = LLMRefusalError (IronflowError message ''LLM_REFUSAL'' False 0 details None)"

definition newLLMInvalidJSONError :: "string \<Rightarrow> (string \<times> detail) list \<Rightarrow> agent_error" where
  "newLLMInvalidJSONError message details = LLMInvalidJSONError (IronflowError message ''LLM_INVALID_JSON'' True 0 details None)"

definition newLLMMaxTokensError :: "string \<Rightarrow> (string \<times> detail) list \<Rightarrow> agent_error" where
  "newLLMMaxTokensError message details = LLMMaxTokensError (IronflowError message ''LLM_MAX_TOKENS'' False 0 details None)"

definition newToolValidationError :: "string \<Rightarrow> goerr \<Rightarrow> agent_error" where
  "newToolValidationError toolName cause = ToolValidationError
     (IronflowError (''tool '' @ quoteName toolName @ '' input validation failed'') ''AGENT_TOOL_VALIDATION'' False 0
        [(''toolName'', DStr toolName)] (Some cause)) toolName"

definition newDuplicateToolError :: "string \<Rightarrow> agent_error" where
  "newDuplicateToolError toolName = DuplicateToolError
     (IronflowError (''duplicate tool '' @ quoteName toolName @ '' registered on AgentConfig.Tools'') ''AGENT_DUPLICATE_TOOL''
        False 0 [(''toolName'', DStr toolName)] None) toolName"

definition dash :: string where
  "dash = [CHR '' '', CHR 0xE2, CHR 0x80, CHR 0x94, CHR '' '']"

definition newToolNotFoundError :: "string \<Rightarrow> agent_error" where
  "newToolNotFoundError toolName = ToolNotFoundError
     (IronflowError (''tool '' @ quoteName toolName @ '' not registered on AgentConfig.Tools'' @ dash @ ''register it or call by reference'')
        ''AGENT_TOOL_NOT_FOUND'' False 0 [(''toolName'', DStr toolName)] None) toolName"

definition newMemoryProjectionRequiredError :: "string \<Rightarrow> agent_error" where
  "newMemoryProjectionRequiredError streamID = MemoryProjectionRequiredError
     (IronflowError (''agent memory requires a projection'' @ dash @ ''raw replay is not exposed via the agent API'')
        ''AGENT_MEMORY_PROJECTION_REQUIRED'' False 0 [(''streamId'', DStr streamID)] None) streamID"

section \<open>The state of a run\<close>

text \<open>A tool: its input and output types, as JSON sees them, and its handler.\<close>

record tool_definition =
  td_Name :: string
  td_Description :: string
  td_Validate :: "(gval \<Rightarrow> goerr option) option"
  td_Idempotent :: string
  td_Timeout :: int
  td_Handler :: "gval \<Rightarrow> world \<Rightarrow> fn_run \<times> world"
  td_In :: gotype
  td_Out :: gotype

record memory_config =
  mg_StreamID :: string
  mg_Projection :: string
  mg_EntityType :: string

record memory_append =
  ma_Name :: string
  ma_Data :: "(string \<times> json) list"
  ma_EntityType :: string
  ma_IdempotencyKey :: string
  ma_Metadata :: "(string \<times> json) list option"

text \<open>The three requests of a backend, each as a step body; results are documents.\<close>

record memory_backend =
  mb_AppendEvent :: "string \<Rightarrow> memory_append \<Rightarrow> world \<Rightarrow> fn_run \<times> world"
  mb_GetProjection :: "string \<Rightarrow> world \<Rightarrow> fn_run \<times> world"
  mb_WaitForEvent :: "string \<Rightarrow> string \<Rightarrow> int \<Rightarrow> world \<Rightarrow> fn_run \<times> world"

record agent_runtime =
  ag_maxTurns :: int
  ag_turnCount :: int
  ag_registry :: "string \<rightharpoonup> tool_definition"
  ag_byArgsCache :: "string \<rightharpoonup> gval"
  ag_byArgsErr :: "string \<rightharpoonup> goerr"
  ag_memoryConfig :: "memory_config option"
  ag_memoryBackend :: "memory_backend option"
  ag_memoryCache :: gval
  ag_memoryCacheLoaded :: bool
  ag_memoryAppendCount :: nat

record agent_config =
  af_Tools :: "tool_definition list"
  af_Memory :: "memory_config option"
  af_MaxTurns :: int

fun buildRegistry :: "tool_definition list \<Rightarrow> (string \<rightharpoonup> tool_definition) \<Rightarrow> agent_error + (string \<rightharpoonup> tool_definition)" where
  "buildRegistry [] m = Inr m"
| "buildRegistry (e # es) m =
     (if m (td_Name e) \<noteq> None then Inl (newDuplicateToolError (td_Name e))
      else buildRegistry es (m(td_Name e \<mapsto> e)))"

text \<open>\<open>Agent\<close>: a bad configuration panics with the error; otherwise every run starts with a fresh runtime.
  The backend is what the environment gives for the run.\<close>

definition newAgentRuntime :: "agent_config \<Rightarrow> memory_backend option \<Rightarrow> agent_error + agent_runtime" where
  "newAgentRuntime cfg backend =
     (case buildRegistry (af_Tools cfg) Map.empty of
        Inl err \<Rightarrow> Inl err
      | Inr registry \<Rightarrow>
          (case (case af_Memory cfg of
                   Some m \<Rightarrow> if mg_Projection m = [] then Some (newMemoryProjectionRequiredError (mg_StreamID m)) else None
                 | None \<Rightarrow> None) of
             Some err \<Rightarrow> Inl err
           | None \<Rightarrow> Inr \<lparr> ag_maxTurns = (if af_MaxTurns cfg \<le> 0 then 20 else af_MaxTurns cfg), ag_turnCount = 0,
                 ag_registry = registry, ag_byArgsCache = Map.empty, ag_byArgsErr = Map.empty,
                 ag_memoryConfig = af_Memory cfg, ag_memoryBackend = (if af_Memory cfg = None then None else backend),
                 ag_memoryCache = GNil, ag_memoryCacheLoaded = False, ag_memoryAppendCount = 0 \<rparr>))"

section \<open>The hash of a tool's arguments\<close>

text \<open>An object as the map it is decoded into, written with its keys in the order of their bytes; numbers
  go through \<open>float64\<close>, and \<open>num\<close> is the text the encoder gives the number read from a text.\<close>

definition sortedObject :: "(string \<times> json) list \<Rightarrow> (string \<times> json) list" where
  "sortedObject kvs = map (\<lambda>k. (k, the (objLookup kvs k))) (sort (remdups (map fst kvs)))"

fun canonicalize :: "(string \<Rightarrow> string) \<Rightarrow> json \<Rightarrow> json" where
  "canonicalize num (JNum s) = JNum (num s)"
| "canonicalize num (JArr js) = JArr (map (canonicalize num) js)"
| "canonicalize num (JObj kvs) = JObj (sortedObject (map (\<lambda>kv. (fst kv, canonicalize num (snd kv))) kvs))"
| "canonicalize num j = j"

record hash_env =
  he_number :: "string \<Rightarrow> string"
  he_render :: "json \<Rightarrow> string"
  he_sha256 :: "string \<Rightarrow> string"

definition hashArgs :: "hash_env \<Rightarrow> gval \<Rightarrow> goerr + string" where
  "hashArgs he args =
     (case marshal args of
        Inl m \<Rightarrow> Inl (ENew m)
      | Inr j \<Rightarrow> Inr (take 16 (hexEncode (he_sha256 he (he_render he (canonicalize (he_number he) j))))))"

section \<open>Tools\<close>

definition DefaultToolTimeout :: int where
  "DefaultToolTimeout = 60 * second"

text \<open>\<open>decodeAs\<close>: a value of the type as it is, \<open>nil\<close> as the zero value, anything else over JSON.\<close>

definition decodeAs :: "gotype \<Rightarrow> gval \<Rightarrow> goerr + gval" where
  "decodeAs T v =
     (if v = GNil then Inr GNil
      else if gt_is T v then Inr v
      else case marshal v of
             Inl m \<Rightarrow> Inl (ENew m)
           | Inr j \<Rightarrow> (case gt_decode T j of Inl m \<Rightarrow> Inl (ENew m) | Inr out \<Rightarrow> Inr out))"

definition castCached :: "gotype \<Rightarrow> gval \<Rightarrow> gval outcome" where
  "castCached T cached =
     (if gt_is T cached then Ret cached None
      else case decodeAs T cached of
             Inl err \<Rightarrow> Ret GNil (Some (EWrap (''byArgs cache decode: '' @ errorText err) [err]))
           | Inr v \<Rightarrow> Ret v None)"

definition toolTimeout :: "tool_definition \<Rightarrow> int" where
  "toolTimeout def = (if td_Timeout def \<le> 0 then DefaultToolTimeout else td_Timeout def)"

text \<open>The body of a \<open>byArgs\<close> call that is not in the caches, and the entry it leaves there.\<close>

definition runByArgs ::
  "string \<Rightarrow> string \<Rightarrow> tool_definition \<Rightarrow> gval \<Rightarrow> agent_runtime \<Rightarrow> exec \<Rightarrow> world \<Rightarrow> gval outcome \<times> agent_runtime \<times> exec \<times> world" where
  "runByArgs hash cacheKey def input rt c w =
     (let (r, c1, w1) = Run (td_Out def) (''tool.'' @ td_Name def @ ''.'' @ hash) (td_Handler def input) [toolTimeout def] c w
      in case r of
           Yield y \<Rightarrow> (Yield y, rt, c1, w1)
         | Ret out (Some err) \<Rightarrow> (Ret GNil (Some err), rt \<lparr> ag_byArgsErr := (ag_byArgsErr rt)(cacheKey \<mapsto> err) \<rparr>, c1, w1)
         | Ret out None \<Rightarrow> (castCached (td_Out def) out, rt \<lparr> ag_byArgsCache := (ag_byArgsCache rt)(cacheKey \<mapsto> out) \<rparr>, c1, w1))"

definition runTool ::
  "hash_env \<Rightarrow> tool_definition \<Rightarrow> gval \<Rightarrow> agent_runtime option \<Rightarrow> exec \<Rightarrow> world
   \<Rightarrow> gval outcome \<times> agent_runtime option \<times> exec \<times> world" where
  "runTool he def input rt c w =
     (case (case td_Validate def of None \<Rightarrow> None | Some validate \<Rightarrow> validate input) of
        Some err \<Rightarrow> (Ret GNil (Some (seenAs (newToolValidationError (td_Name def) err))), rt, c, w)
      | None \<Rightarrow>
          (let idempotent = (if td_Idempotent def = [] then ''byCall'' else td_Idempotent def) in
           case (if idempotent = ''byArgs'' then rt else None) of
             None \<Rightarrow>
               (let (r, c1, w1) = Run (td_Out def) (''tool.'' @ td_Name def) (td_Handler def input) [toolTimeout def] c w
                in (r, rt, c1, w1))
           | Some r0 \<Rightarrow>
               (case hashArgs he input of
                  Inl err \<Rightarrow>
                    (Ret GNil (Some (seenAs (newToolValidationError (td_Name def)
                       (EWrap (''hash args: '' @ errorText err) [err])))), rt, c, w)
                | Inr hash \<Rightarrow>
                    (let cacheKey = td_Name def @ '':'' @ hash in
                     case ag_byArgsErr r0 cacheKey of
                       Some err \<Rightarrow> (Ret GNil (Some err), rt, c, w)
                     | None \<Rightarrow>
                         (case ag_byArgsCache r0 cacheKey of
                            Some cached \<Rightarrow> (castCached (td_Out def) cached, rt, c, w)
                          | None \<Rightarrow>
                              (let (r, r1, c1, w1) = runByArgs hash cacheKey def input r0 c w in (r, Some r1, c1, w1)))))))"

text \<open>\<open>ToolByName\<close>, with the decoding \<open>Entry\<close> puts before the call.\<close>

definition ToolByName ::
  "hash_env \<Rightarrow> string \<Rightarrow> gval \<Rightarrow> agent_runtime option \<Rightarrow> exec \<Rightarrow> world
   \<Rightarrow> gval outcome \<times> agent_runtime option \<times> exec \<times> world" where
  "ToolByName he name args rt c w =
     (case (case rt of None \<Rightarrow> None | Some r \<Rightarrow> ag_registry r name) of
        None \<Rightarrow> (Ret GNil (Some (seenAs (newToolNotFoundError name))), rt, c, w)
      | Some def \<Rightarrow>
          (case decodeAs (td_In def) args of
             Inl err \<Rightarrow>
               (Ret GNil (Some (seenAs (newToolValidationError (td_Name def) (EWrap (''decode input: '' @ errorText err) [err])))), rt, c, w)
           | Inr input \<Rightarrow> runTool he def input rt c w))"

section \<open>Model turns\<close>

definition finishReason :: "gval \<Rightarrow> string" where
  "finishReason result =
     (case result of GJson (JObj kvs) \<Rightarrow> snd (assignString (fieldValues kvs ''finishReason'') []) | _ \<Rightarrow> [])"

text \<open>\<open>strings.ToLower\<close> on ASCII.\<close>

definition classifyResult :: "gval \<Rightarrow> goerr option" where
  "classifyResult result =
     (let reason = finishReason result; normalized = map toLower reason; details = [(''finishReason'', DStr reason)]
      in if reason = [] then None
         else if normalized \<in> {''refusal'', ''safety'', ''content_filter''}
         then Some (seenAs (newLLMRefusalError (''provider refused: '' @ reason) details))
         else if normalized \<in> {''max_tokens'', ''length''}
         then Some (seenAs (newLLMMaxTokensError (''provider hit max_tokens ('' @ reason @ '')'') details))
         else None)"

definition llmBody :: "(world \<Rightarrow> fn_run \<times> world) option \<Rightarrow> world \<Rightarrow> fn_run \<times> world" where
  "llmBody call w =
     (case call of
        None \<Rightarrow> (\<lparr> fr_value = GNil, fr_err = Some (seenAs (newLLMRefusalError ''llm.complete: request.Call is nil'' [])),
                   fr_timerFirst = False \<rparr>, w)
      | Some f \<Rightarrow> f w)"

definition LLM ::
  "gotype \<Rightarrow> (world \<Rightarrow> fn_run \<times> world) option \<Rightarrow> agent_runtime option \<Rightarrow> exec \<Rightarrow> world
   \<Rightarrow> gval outcome \<times> agent_runtime option \<times> exec \<times> world" where
  "LLM T call rt c w =
     (let rt1 = map_option (\<lambda>r. r \<lparr> ag_turnCount := ag_turnCount r + 1 \<rparr>) rt in
      if (case rt1 of None \<Rightarrow> False | Some r \<Rightarrow> ag_turnCount r > ag_maxTurns r)
      then (Ret GNil (Some (seenAs (newMaxTurnsExceededError (ag_maxTurns (the rt1))))), rt1, c, w)
      else (let (r, c1, w1) = Run T ''llm.turn'' (llmBody call) [] c w
            in (case r of
                  Yield y \<Rightarrow> Yield y
                | Ret v (Some err) \<Rightarrow> Ret v (Some err)
                | Ret v None \<Rightarrow> Ret v (classifyResult v), rt1, c1, w1)))"

section \<open>Memory\<close>

definition memoryError :: "string \<Rightarrow> string \<Rightarrow> goerr" where
  "memoryError code message = EIron (IronflowError message code False 0 [] None)"

definition memoryUnconfigured :: goerr where
  "memoryUnconfigured = memoryError ''AGENT_MEMORY_UNCONFIGURED'' ''memory requires AgentConfig.Memory ({StreamID, Projection}) to be set''"

definition memoryNoBackend :: "string \<Rightarrow> goerr" where
  "memoryNoBackend what = memoryError ''AGENT_MEMORY_NO_BACKEND''
     (what @ '' requires a runtime backend'' @ dash
      @ ''set IRONFLOW_SERVER_URL so the agent can construct an IronflowClient, or inject a backend via the test harness'')"

definition requireConfigured :: "agent_runtime option \<Rightarrow> (memory_config \<times> agent_runtime) option" where
  "requireConfigured rt = (case rt of None \<Rightarrow> None | Some r \<Rightarrow> map_option (\<lambda>cfg. (cfg, r)) (ag_memoryConfig r))"

text \<open>The state of a projection as a map: an object, or nothing.\<close>

definition coerceProjectionState :: "gval \<Rightarrow> gval" where
  "coerceProjectionState cached = (case cached of GJson (JObj kvs) \<Rightarrow> GJson (JObj kvs) | _ \<Rightarrow> GNil)"

definition projectionStateToMap :: "gval \<Rightarrow> gval" where
  "projectionStateToMap result =
     (case result of
        GJson (JObj kvs) \<Rightarrow>
          (case assignRaw (fieldValues kvs ''state'') of Raw j \<Rightarrow> coerceProjectionState (GJson j) | _ \<Rightarrow> GNil)
      | _ \<Rightarrow> GNil)"

definition memoryGet ::
  "gotype \<Rightarrow> bool \<Rightarrow> agent_runtime option \<Rightarrow> exec \<Rightarrow> world \<Rightarrow> gval outcome \<times> agent_runtime option \<times> exec \<times> world" where
  "memoryGet T bypass rt c w =
     (case requireConfigured rt of
        None \<Rightarrow> (Ret GNil (Some memoryUnconfigured), rt, c, w)
      | Some (cfg, r) \<Rightarrow>
          if \<not> bypass \<and> ag_memoryCacheLoaded r then (Ret (coerceProjectionState (ag_memoryCache r)) None, rt, c, w)
          else case ag_memoryBackend r of
                 None \<Rightarrow> (Ret GNil (Some (memoryNoBackend ''memory.Get'')), rt, c, w)
               | Some backend \<Rightarrow>
                   (let (res, c1, w1) = Run T ''memory.get'' (mb_GetProjection backend (mg_Projection cfg)) [] c w
                    in case res of
                         Yield y \<Rightarrow> (Yield y, rt, c1, w1)
                       | Ret v (Some err) \<Rightarrow> (Ret GNil (Some err), rt, c1, w1)
                       | Ret v None \<Rightarrow>
                           (let out = projectionStateToMap v
                            in (Ret out None, Some (r \<lparr> ag_memoryCache := out, ag_memoryCacheLoaded := True \<rparr>), c1, w1))))"

definition appendedEventID :: "gval \<Rightarrow> string" where
  "appendedEventID v =
     (case v of GJson (JObj kvs) \<Rightarrow> snd (assignString (fieldValues kvs ''eventId'') []) | _ \<Rightarrow> [])"

definition memoryAppendWaitTimeout :: int where
  "memoryAppendWaitTimeout = 5 * second"

definition appendInput :: "string \<Rightarrow> memory_config \<Rightarrow> string \<Rightarrow> (string \<times> json) list \<Rightarrow> (string \<times> json) list option \<Rightarrow> nat \<Rightarrow> memory_append" where
  "appendInput runID cfg eventName data metadata n =
     \<lparr> ma_Name = eventName, ma_Data = data,
       ma_EntityType = (if mg_EntityType cfg = [] then ''agent'' else mg_EntityType cfg),
       ma_IdempotencyKey = runID @ '':memory.append:'' @ itoa n, ma_Metadata = metadata \<rparr>"

text \<open>\<open>Append\<close>; a nil map is \<open>None\<close>. The first type is that of the append's result, the second that of an
  empty struct.\<close>

definition memoryAppend ::
  "gotype \<Rightarrow> gotype \<Rightarrow> string \<Rightarrow> string \<Rightarrow> (string \<times> json) list option \<Rightarrow> (string \<times> json) list option
   \<Rightarrow> agent_runtime option \<Rightarrow> exec \<Rightarrow> world \<Rightarrow> unit outcome \<times> agent_runtime option \<times> exec \<times> world" where
  "memoryAppend T E runID eventName data metadata rt c w =
     (case requireConfigured rt of
        None \<Rightarrow> (Ret () (Some memoryUnconfigured), rt, c, w)
      | Some (cfg, r) \<Rightarrow>
          (case (ag_memoryBackend r, data) of
             (None, _) \<Rightarrow> (Ret () (Some (memoryNoBackend ''memory.Append'')), rt, c, w)
           | (Some _, None) \<Rightarrow>
               (Ret () (Some (memoryError ''AGENT_MEMORY_INVALID_DATA''
                  (''memory.Append requires data to be a non-nil map'' @ dash
                   @ ''primitives must be wrapped explicitly so the projection reducer sees a stable shape''))), rt, c, w)
           | (Some backend, Some kvs) \<Rightarrow>
               (let r1 = r \<lparr> ag_memoryAppendCount := ag_memoryAppendCount r + 1 \<rparr>;
                    body = mb_AppendEvent backend (mg_StreamID cfg) (appendInput runID cfg eventName kvs metadata (ag_memoryAppendCount r));
                    (res, c1, w1) = Run T ''memory.append'' body [] c w;
                    cleared = r1 \<lparr> ag_memoryCache := GNil, ag_memoryCacheLoaded := False \<rparr>
                in case res of
                     Yield y \<Rightarrow> (Yield y, Some r1, c1, w1)
                   | Ret v (Some err) \<Rightarrow> (Ret () (Some err), Some r1, c1, w1)
                   | Ret v None \<Rightarrow>
                       if appendedEventID v = [] then (Ret () None, Some cleared, c1, w1)
                       else (let (res2, c2, w2) = Run E ''memory.append.wait''
                                   (mb_WaitForEvent backend (appendedEventID v) (mg_Projection cfg) memoryAppendWaitTimeout) [] c1 w1
                             in case res2 of
                                  Yield y \<Rightarrow> (Yield y, Some r1, c2, w2)
                                | Ret u (Some waitErr) \<Rightarrow> (Ret () (Some waitErr), Some r1, c2, w2)
                                | Ret u None \<Rightarrow> (Ret () None, Some cleared, c2, w2)))))"

section \<open>Approvals\<close>

text \<open>\<open>decode\<close> reads the event's data into the payload type's \<open>approvalEventData\<close>.\<close>

record approval_data =
  ap_Approved :: bool
  ap_Approver :: string
  ap_Payload :: gval
  ap_Reason :: string

record approve_result =
  ar_Approved :: bool
  ar_Approver :: string
  ar_EmittedBy :: string
  ar_Payload :: gval
  ar_Reason :: string

definition noApproval :: approve_result where
  "noApproval = \<lparr> ar_Approved = False, ar_Approver = [], ar_EmittedBy = [], ar_Payload = GNil, ar_Reason = [] \<rparr>"

definition approvalFilter :: "string \<Rightarrow> string \<Rightarrow> int \<Rightarrow> gval \<Rightarrow> event_filter" where
  "approvalFilter runID eventName ttl payload = \<lparr> ef_onTimeout = [], ef_Payload = payload, ef_Event = eventName,
     ef_Match = ''data.runId'', ef_MatchValue = runID, ef_Timeout = ttl, ef_TimeoutStr = [] \<rparr>"

definition approvalOf :: "(raw \<Rightarrow> string + approval_data) \<Rightarrow> event \<Rightarrow> approve_result outcome" where
  "approvalOf decode event =
     (if ev_ID event = [] then Ret (noApproval \<lparr> ar_Reason := ''timeout'' \<rparr>) None
      else case (if ev_RawData event = RawNone
                 then Inr \<lparr> ap_Approved = False, ap_Approver = [], ap_Payload = GNil, ap_Reason = [] \<rparr>
                 else decode (ev_RawData event)) of
             Inl m \<Rightarrow> Ret noApproval (Some (EWrap (''approve: decode event data: '' @ m) [ENew m]))
           | Inr d \<Rightarrow> Ret \<lparr> ar_Approved = ap_Approved d, ar_Approver = ap_Approver d, ar_EmittedBy = ev_EmittedBy event,
               ar_Payload = ap_Payload d, ar_Reason = ap_Reason d \<rparr> None)"

definition Approve ::
  "(string \<Rightarrow> int option) \<Rightarrow> (raw \<Rightarrow> string + approval_data) \<Rightarrow> string \<Rightarrow> string \<Rightarrow> int \<Rightarrow> gval \<Rightarrow> exec \<Rightarrow> world
   \<Rightarrow> approve_result outcome \<times> exec \<times> world" where
  "Approve parseTime decode runID eventName ttl payload c w =
     (if trimSpace eventName = [] then (Ret noApproval (Some (ENew ''approve: event name must not be empty'')), c, w)
      else (let (r, c1, w1) = WaitForEvent parseTime rootContext (''approve.'' @ eventName)
                  (approvalFilter runID eventName ttl payload) c w
            in (case r of
                  Yield y \<Rightarrow> Yield y
                | Ret event (Some err) \<Rightarrow> Ret noApproval (Some err)
                | Ret event None \<Rightarrow> approvalOf decode event, c1, w1)))"

section \<open>Retry classification of agent errors\<close>

text \<open>
  An agent error counts as retryable whatever its \<open>Retryable\<close> field says, unless its cause says
  otherwise: the embedded error is not in the chain of errors. So an agent that is over its budget, was
  refused, or asked for a tool that is not there, is run again until its attempts are used up.
\<close>
lemma agent_errors_count_as_retryable:
  assumes "ie_Cause (embeddedError err) = None"
  shows "isRetryable (seenAs err) \<and> asIronflow (seenAs err) = None"
  using assms by (simp add: seenAs_def isRetryable_def)

lemma agent_errors_count_as_retryable_witness:
  "\<not> ie_Retryable (embeddedError (newMaxTurnsExceededError 20)) \<and> isRetryable (seenAs (newMaxTurnsExceededError 20))"
  using agent_errors_count_as_retryable [of "newMaxTurnsExceededError 20"] by (simp add: newMaxTurnsExceededError_def)

lemma validation_error_takes_its_cause:
  "isRetryable (seenAs (newToolValidationError name cause)) = isRetryable cause"
proof -
  have "asIronflow (seenAs (newToolValidationError name cause)) = asIronflow cause"
    "asInvoke (seenAs (newToolValidationError name cause)) = asInvoke cause"
    by (simp_all add: seenAs_def newToolValidationError_def split: option.split)
  then show ?thesis unfolding isRetryable_def by (simp only:)
qed

section \<open>Tools run once per argument\<close>

lemma cast_own: "gt_is T v \<Longrightarrow> castCached T v = Ret v None"
  by (simp add: castCached_def)

text \<open>C39. A second \<open>byArgs\<close> call with arguments of the same hash answers from the memo: it claims no step,
  runs nothing, and gives the first call's value or error.\<close>

theorem tool_runs_once_per_argument:
  assumes "td_Idempotent def = ''byArgs''" and "hashArgs he input2 = hashArgs he input"
    and "case td_Validate def of None \<Rightarrow> True | Some validate \<Rightarrow> validate input = None \<and> validate input2 = None"
    and "runTool he def input (Some rt) c w = (r, rt1, c1, w1)" and "\<forall>y. r \<noteq> Yield y"
  shows "runTool he def input2 rt1 c2 w2 = (r, rt1, c2, w2)"
proof (cases "hashArgs he input")
  case (Inl err)
  then show ?thesis using assms by (auto simp: runTool_def split: option.splits)
next
  case (Inr hash)
  let ?k = "td_Name def @ '':'' @ hash"
  have v: "(case td_Validate def of None \<Rightarrow> None | Some validate \<Rightarrow> validate input) = None"
    "(case td_Validate def of None \<Rightarrow> None | Some validate \<Rightarrow> validate input2) = None"
    using assms(3) by (auto split: option.splits)
  note d = runTool_def v assms(1,2) Inr Let_def
  show ?thesis
  proof (cases "ag_byArgsErr rt ?k = None \<and> ag_byArgsCache rt ?k = None")
    case False
    then show ?thesis using assms(4) by (auto simp: d split: option.splits)
  next
    case True
    obtain q r1 where q: "runByArgs hash ?k def input rt c w = (q, r1, c1, w1)" "r = q" "rt1 = Some r1"
      using assms(4) True by (auto simp: d split: prod.splits)
    obtain s d1 x1 where s: "Run (td_Out def) (''tool.'' @ td_Name def @ ''.'' @ hash) (td_Handler def input) [toolTimeout def] c w = (s, d1, x1)"
      by (metis surj_pair)
    show ?thesis
    proof (cases s)
      case (Yield y)
      then show ?thesis using q s assms(5) by (auto simp: runByArgs_def)
    next
      case (Ret out e)
      then show ?thesis using q s True
        by (cases e) (auto simp: d runByArgs_def)
    qed
  qed
qed

text \<open>Numbers that \<open>float64\<close> takes for the same hash alike, so the memo answers one with the other's
  result; objects whose keys stand in another order hash alike too.\<close>

lemma args_hash_merges_numbers:
  assumes "he_number he m = he_number he n"
  shows "hashArgs he (GJson (JObj [(k, JNum m)])) = hashArgs he (GJson (JObj [(k, JNum n)]))"
  using assms by (simp add: hashArgs_def)

lemma sortedObject_order:
  assumes "set kvs = set kvs'" "distinct (map fst kvs)" "distinct (map fst kvs')"
  shows "sortedObject kvs = sortedObject kvs'"
proof -
  have "sort (remdups (map fst kvs)) = sort (remdups (map fst kvs'))"
    using assms by (intro sorted_distinct_set_unique) (auto simp: distinct_remdups_id)
  moreover have "objLookup kvs k = objLookup kvs' k" for k
    using map_of_inject_set [of "rev kvs" "rev kvs'"] assms by (simp add: objLookup_def rev_map [symmetric])
  ultimately show ?thesis by (simp add: sortedObject_def)
qed

lemma args_hash_ignores_order:
  assumes "set kvs = set kvs'" "distinct (map fst kvs)" "distinct (map fst kvs')"
  shows "hashArgs he (GJson (JObj kvs)) = hashArgs he (GJson (JObj kvs'))"
proof -
  let ?f = "\<lambda>kv. (fst kv, canonicalize (he_number he) (snd kv))"
  have "sortedObject (map ?f kvs) = sortedObject (map ?f kvs')"
    using assms by (intro sortedObject_order) (auto simp: comp_def)
  then show ?thesis by (simp add: hashArgs_def)
qed

section \<open>The turn budget\<close>

text \<open>A sequence of turns, stopped by a yield.\<close>

fun turns ::
  "gotype \<Rightarrow> (world \<Rightarrow> fn_run \<times> world) option list \<Rightarrow> agent_runtime option \<Rightarrow> exec \<Rightarrow> world
   \<Rightarrow> agent_runtime option \<times> exec \<times> world" where
  "turns T [] rt c w = (rt, c, w)"
| "turns T (call # calls) rt c w =
     (case LLM T call rt c w of
        (Yield y, rt1, c1, w1) \<Rightarrow> (rt1, c1, w1)
      | (Ret v e, rt1, c1, w1) \<Rightarrow> turns T calls rt1 c1 w1)"

lemma LLM_over_budget:
  assumes "ag_maxTurns r \<le> ag_turnCount r"
  shows "LLM T call (Some r) c w = (Ret GNil (Some (seenAs (newMaxTurnsExceededError (ag_maxTurns r)))),
    Some (r \<lparr> ag_turnCount := ag_turnCount r + 1 \<rparr>), c, w)"
  using assms by (simp add: LLM_def)

lemma LLM_runtime:
  "LLM T call (Some r) c w = (res, rt1, c1, w1) \<Longrightarrow> rt1 = Some (r \<lparr> ag_turnCount := ag_turnCount r + 1 \<rparr>)"
  by (auto simp: LLM_def Let_def split: prod.splits if_splits)

text \<open>Over the budget no further turn touches the run or the world.\<close>

lemma turns_over_budget:
  "ag_maxTurns r \<le> ag_turnCount r \<Longrightarrow>
   turns T calls (Some r) c w = (Some (r \<lparr> ag_turnCount := ag_turnCount r + int (length calls) \<rparr>), c, w)"
proof (induction calls arbitrary: r)
  case (Cons call calls)
  let ?r = "r \<lparr> ag_turnCount := ag_turnCount r + 1 \<rparr>"
  have "turns T calls (Some ?r) c w = (Some (?r \<lparr> ag_turnCount := ag_turnCount ?r + int (length calls) \<rparr>), c, w)"
    using Cons.prems by (intro Cons.IH) simp
  then show ?case using LLM_over_budget [OF Cons.prems] by (simp add: add.assoc)
qed simp

text \<open>
  An agent takes at most its budget of turns: of any sequence of model calls only the first so many that
  the budget has left can call the provider or touch the run; the others leave both as they are.
\<close>
lemma turns_stay_in_budget:
  assumes "ag_turnCount r \<le> ag_maxTurns r"
  shows "snd (turns T calls (Some r) c w) = snd (turns T (take (nat (ag_maxTurns r - ag_turnCount r)) calls) (Some r) c w)"
  using assms
proof (induction calls arbitrary: r c w)
  case (Cons call calls)
  show ?case
  proof (cases "ag_turnCount r = ag_maxTurns r")
    case True
    then show ?thesis using turns_over_budget [of r T "call # calls" c w] by simp
  next
    case False
    let ?r = "r \<lparr> ag_turnCount := ag_turnCount r + 1 \<rparr>"
    obtain res rt1 c1 w1 where l: "LLM T call (Some r) c w = (res, rt1, c1, w1)" by (metis surj_pair)
    have rt1: "rt1 = Some ?r" by (rule LLM_runtime [OF l])
    have n: "nat (ag_maxTurns r - ag_turnCount r) = Suc (nat (ag_maxTurns ?r - ag_turnCount ?r))"
      using False Cons.prems by simp
    have "snd (turns T calls (Some ?r) c1 w1) = snd (turns T (take (nat (ag_maxTurns ?r - ag_turnCount ?r)) calls) (Some ?r) c1 w1)"
      using False Cons.prems by (intro Cons.IH) simp
    then show ?thesis unfolding n using l rt1 by (cases res) simp_all
  qed
qed simp

section \<open>Memory and approvals that go wrong\<close>

text \<open>When the wait after an append fails, the event is appended but the cache of the run stays: the next
  \<open>Get\<close> answers with the state from before it.\<close>

lemma failed_wait_keeps_stale_memory:
  assumes "ag_memoryConfig r = Some cfg" "ag_memoryBackend r = Some backend" "ag_memoryCacheLoaded r"
    and "Run T ''memory.append'' (mb_AppendEvent backend (mg_StreamID cfg)
           (appendInput runID cfg eventName kvs metadata (ag_memoryAppendCount r))) [] c w = (Ret v None, c1, w1)"
    and "appendedEventID v \<noteq> []"
    and "Run E ''memory.append.wait'' (mb_WaitForEvent backend (appendedEventID v) (mg_Projection cfg) memoryAppendWaitTimeout) [] c1 w1
         = (Ret u (Some waitErr), c2, w2)"
  shows "\<exists>rt. memoryAppend T E runID eventName (Some kvs) metadata (Some r) c w = (Ret () (Some waitErr), rt, c2, w2)
    \<and> memoryGet P False rt c2 w2 = (Ret (coerceProjectionState (ag_memoryCache r)) None, rt, c2, w2)"
  using assms by (simp add: memoryAppend_def requireConfigured_def memoryGet_def)

text \<open>A wait that timed out is not the result with reason \<open>timeout\<close>: a run that was suspended and resumes
  with a null outcome gets an error from \<open>WaitForEvent\<close>, and \<open>Approve\<close> returns it.\<close>

lemma timed_out_approval_is_error:
  assumes "trimSpace eventName \<noteq> []" "cancellationErr c w = None" "ec_testInterceptor c = None"
    and "generateStepID (''approve.'' @ eventName) c = (stepID, c1)"
    and "ec_completedSteps c1 stepID = Some cs" "cs_Status cs = ''completed''" "cs_Output cs = GNil"
  shows "\<exists>c2. Approve parseTime decode runID eventName ttl payload c w
    = (Ret noApproval (Some (waitNullError stepID (''approve.'' @ eventName))), c2, w)"
  using assms
  by (simp add: Approve_def WaitForEvent_def waitForEventImpl_def waitScoped_def rootContext_def getCompletedStep_def
      decodeWaitResult_def)


section \<open>A run of a tool\<close>

definition demoCounter :: tool_definition where
  "demoCounter = \<lparr> td_Name = ''fetch'', td_Description = [], td_Validate = None, td_Idempotent = ''byArgs'', td_Timeout = 0,
     td_Handler = (\<lambda>input w. (\<lparr> fr_value = input, fr_err = None, fr_timerFirst = False \<rparr>, w \<lparr> w_log := w_log w @ [''fetched''] \<rparr>)),
     td_In = anyType, td_Out = anyType \<rparr>"

definition demoHash :: hash_env where
  "demoHash = \<lparr> he_number = (\<lambda>s. s), he_render = (\<lambda>j. case j of JNum s \<Rightarrow> s | _ \<Rightarrow> []), he_sha256 = (\<lambda>s. s) \<rparr>"

definition demoRuntime :: agent_runtime where
  "demoRuntime = \<lparr> ag_maxTurns = 20, ag_turnCount = 0, ag_registry = Map.empty, ag_byArgsCache = Map.empty,
     ag_byArgsErr = Map.empty, ag_memoryConfig = None, ag_memoryBackend = None, ag_memoryCache = GNil,
     ag_memoryCacheLoaded = False, ag_memoryAppendCount = 0 \<rparr>"

definition quietWorld :: world where
  "quietWorld = \<lparr> w_now = 0, w_ctxErr = None, w_reports = [], w_log = [] \<rparr>"

lemma demo_fetch:
  "(case runTool demoHash demoCounter (GJson (JNum ''7'')) (Some demoRuntime) emptyExec quietWorld of
      (r, rt, c, w) \<Rightarrow> r = Ret (GJson (JNum ''7'')) None \<and> w_log w = [''fetched''])"
  by code_simp

text \<open>Witness: the second call with the same argument leaves the run and the world as the first left them.\<close>

theorem tool_runs_once_per_argument_witness:
  "\<exists>rt1 c1 w1. runTool demoHash demoCounter (GJson (JNum ''7'')) (Some demoRuntime) emptyExec quietWorld
       = (Ret (GJson (JNum ''7'')) None, rt1, c1, w1)
     \<and> runTool demoHash demoCounter (GJson (JNum ''7'')) rt1 c1 w1 = (Ret (GJson (JNum ''7'')) None, rt1, c1, w1)
     \<and> w_log w1 = [''fetched'']"
proof -
  obtain rt1 c1 w1 where f: "runTool demoHash demoCounter (GJson (JNum ''7'')) (Some demoRuntime) emptyExec quietWorld
      = (Ret (GJson (JNum ''7'')) None, rt1, c1, w1)" "w_log w1 = [''fetched'']"
    using demo_fetch
    by (cases "runTool demoHash demoCounter (GJson (JNum ''7'')) (Some demoRuntime) emptyExec quietWorld") auto
  have "runTool demoHash demoCounter (GJson (JNum ''7'')) rt1 c1 w1 = (Ret (GJson (JNum ''7'')) None, rt1, c1, w1)"
    by (rule tool_runs_once_per_argument [OF _ refl _ f(1)]) (simp_all add: demoCounter_def)
  with f show ?thesis by blast
qed

end
