(* ===== verification/Agent_Push.thy ===== *)
theory Agent_Push
  imports Agent_Runtime Push_Handler
begin

text \<open>
  What the push handler (\<^verbatim>\<open>src/ironflow/serve.go\<close>) makes of the errors of the agent helpers
  (\<^verbatim>\<open>src/ironflow/agent/errors.go\<close>).
\<close>


definition overBudgetFn :: gofunction where
  "overBudgetFn = \<lparr> gf_Config = demoConfig,
     gf_Handler = (\<lambda>cx c w. (Ret GNil (Some (seenAs (newMaxTurnsExceededError 20))),
        registerCompensation ''pay'' (demoUndo ''refund'' None) c, w)) \<rparr>"


end
