(* ===== verification/Spec2Isabelle.thy ===== *)
theory Spec2Isabelle
  imports Parallel Command_Dedup Worker_Lifecycle Projection_Runner Streaming_Lifecycle Publish Duration Grpc_Subscription Group_Stream Ws_Races Run_Events Wait_Stream Agent_Tools Agent_Push
begin

text \<open>
  \<^bold>\<open>A verification of the Ironflow SDK for Go\<close> (\<^verbatim>\<open>src/ironflow\<close>).

  \<^bold>\<open>The program.\<close> Ironflow runs \<^emph>\<open>durable\<close> functions. A handler calls step primitives (\<open>Run\<close>, \<open>Sleep\<close>,
  \<open>WaitForEvent\<close>, \<open>Invoke\<close>, \<open>Parallel\<close>, \<open>Compensate\<close>); each claims an identifier in its run. The engine
  stores the outcome of each step and, after a yield, a failure or a crash, invokes the handler again from
  its start with the stored rows; a primitive whose identifier has a row answers from it instead of
  working. The SDK holds everything on the handler's side of this protocol: identifiers, memoization,
  yields, fan-out on goroutines, compensation, the push endpoint (the engine calls an HTTP handler) and
  the pull executor (a worker takes jobs and checkpoints their steps), configuration checks, request
  signatures and migration of event payloads.

  \<^bold>\<open>Theories, bottom up.\<close>

  \<^item> \<open>Go_Prelude\<close>: what the sources use of Go's strings, integers and durations, with the lemmas the other
    theories share.
  \<^item> \<open>Step_Id\<close> (\<^verbatim>\<open>step.go\<close>: \<open>stepIDPartEscaper\<close>, \<open>escapeStepIDPart\<close>): identifiers as text; escaping is
    proved injective on paths of names and indices.
  \<^item> \<open>Json_Value\<close>: values as JSON sees them. A Go value is nil, a document or a value \<open>json.Marshal\<close>
    refuses; decoding into structs follows \<open>encoding/json\<close> (case-folded keys, last key wins).
  \<^item> \<open>Errors\<close> (\<^verbatim>\<open>errors.go\<close>, parts of \<^verbatim>\<open>connect_errors.go\<close>): the error types as one datatype with its wrap
    chains, \<open>errors.Is\<close>/\<open>As\<close>, retry classification, yield signals.
  \<^item> \<open>Exec_Context\<close> (\<^verbatim>\<open>step.go\<close>, \<^verbatim>\<open>parallel.go\<close>, \<^verbatim>\<open>types.go\<close>): the record \<open>exec\<close> of one invocation, branch
    scopes as indices into a store inside it (goroutines share them by pointer), and the record
    \<open>step_context\<close> for the Go interface \<open>StepContext\<close> with its two implementations. The locale
    \<open>step_scope\<close> states the laws both satisfy.
  \<^item> \<open>Steps\<close>, \<open>Wait_Invoke\<close> (\<^verbatim>\<open>step.go\<close>, \<^verbatim>\<open>parallel.go\<close>, \<^verbatim>\<open>test_support.go\<close>): the primitives, whole, with
    cancellation, test mode, memoization, resume data, timeouts, recording and reporting. An answer is
    \<open>Ret\<close> with an optional error, or \<open>Yield\<close> for the panic with a yield signal.
  \<^item> \<open>Claims\<close>: the claim contract (locale \<open>claim_scope\<close>, interpreted on root and branch scopes) and the
    tree of scopes of a run as an inductive relation: identifiers name paths.
  \<^item> \<open>Compensation\<close> (\<open>Compensate\<close>, \<open>executeCompensations\<close>): the reverse run against a specification that
    lists which compensations are owed.
  \<^item> \<open>Workflow\<close>: handlers as trees of primitive calls whose continuations see the answers, and the replay
    theorem: the rows of a stopped invocation carry the next one to the same point.
  \<^item> \<open>Parallel\<close> (\<^verbatim>\<open>parallel.go\<close>): fan-out as a step relation of goroutines over their shared state, one
    primitive call per step; termination, deadlock freedom, the concurrency bound and independence of
    the schedule.
  \<^item> \<open>Upcaster\<close> (\<^verbatim>\<open>upcaster.go\<close>), \<open>Functions\<close> (\<^verbatim>\<open>function.go\<close>), \<open>Signature\<close> (\<^verbatim>\<open>signature.go\<close>, on 64-bit
    words), \<open>Encode_Guard\<close> (\<^verbatim>\<open>encode_guard.go\<close>).
  \<^item> \<open>Push_Handler\<close> (\<^verbatim>\<open>serve.go\<close>, \<^verbatim>\<open>webhook.go\<close>): \<open>ServeHTTP\<close> from routing to the written answer.
  \<^item> \<open>Job_Executor\<close> (\<^verbatim>\<open>job_executor.go\<close>): a job from assignment to report, and the checkpointer as an
    inductive set of states over all interleavings of handler and ticker.
  \<^item> \<open>Command_Dedup\<close> (\<^verbatim>\<open>command_dedup.go\<close>): claim, finalize and release as programs of key-value requests,
    interleaved request by request over a service that may apply a request and lose its reply.
  \<^item> \<open>Http_Client\<close> (\<^verbatim>\<open>client.go\<close>, \<^verbatim>\<open>connect_errors.go\<close>): requests with the retry policy, and the error a failed
    answer becomes on the REST and on the Connect side.
  \<^item> \<open>Worker_Protocol\<close> (\<^verbatim>\<open>worker.go\<close>, \<^verbatim>\<open>shared_helpers.go\<close>): registration, polls, acknowledgements and the
    reports of the polling worker, with the execution fence.
  \<^item> \<open>Machine\<close>: runs, invariants and ranks of step functions, as the locales \<open>step_invariant\<close> and
    \<open>step_rank\<close>.
  \<^item> \<open>Polling_Worker\<close>, \<open>Worker_Lifecycle\<close> (\<^verbatim>\<open>worker.go\<close>): \<open>Run\<close>, \<open>Drain\<close>, \<open>Stop\<close>, the heartbeats and the job
    goroutines as a machine on their shared state, and what they guarantee together. The machine
    interprets the two locales.
  \<^item> \<open>Streaming_Reporter\<close>, \<open>Streaming_Worker\<close>, \<open>Streaming_Lifecycle\<close> (\<^verbatim>\<open>worker_streaming.go\<close>): the messages with their fence; \<open>Run\<close>,
    the connections, the send and receive loops, jobs, \<open>Drain\<close> and \<open>Stop\<close> as a machine; and its invariants.
  \<^item> \<open>Projection_Batch\<close> (\<^verbatim>\<open>projection.go\<close>, \<^verbatim>\<open>projection_runner.go\<close>): a batch of events as a program of requests, in
    managed and external mode, and the reader of a stream. \<open>Projection_Delivery\<close>: runs of batches in which requests
    are refused, lose their reply or are never sent; the locale \<open>delivery\<close> holds what a runner needs of its batches
    and is interpreted for both modes. \<open>Projection_Runner\<close>: the lease, its renewal and the loops of \<open>run\<close> as a machine.
  \<^item> \<open>Publish\<close> (\<^verbatim>\<open>step.go\<close>: \<open>Publish\<close>, \<open>PublishWithBranch\<close>, \<open>doPublish\<close>): the durable publish, its request and
    the idempotency key. \<open>Duration\<close> (\<open>ParseDuration\<close>): the scan of durations with days and weeks.
  \<^item> \<open>Subscription_Wire\<close> (\<^verbatim>\<open>subscribe.go\<close>, \<^verbatim>\<open>subscribe_connectrpc.go\<close>): channels, subscription options, requests, the
    frames of the WebSocket with their decoding, and the delays between connections.
  \<^item> \<open>Grpc_Subscription\<close> (\<^verbatim>\<open>subscribe_connectrpc.go\<close>): the streamed subscriptions as a machine.
    \<open>Group_Stream\<close> (\<^verbatim>\<open>consumer_group_stream*.go\<close>): a member of a consumer group, its stream, the pump that feeds
    the caller and the acknowledgments.
  \<^item> \<open>Ws_Subscription\<close> (\<^verbatim>\<open>subscribe.go\<close>): the WebSocket client as a machine - the calls of \<open>Subscribe\<close> with their
    pending attempts, the reader with its handlers, reconnects, the goroutines that restore the subscriptions,
    \<open>Unsubscribe\<close> and \<open>Close\<close>. \<open>Ws_Invariant\<close>, \<open>Ws_Delivery\<close>: what a subscription with a cursor has received.
    \<open>Ws_Races\<close>: schedules that end badly.
  \<^item> \<open>Run_Events\<close> (\<^verbatim>\<open>run_events.go\<close>): the filter of run frames, its map and linked list, and the cache it
    implements. \<open>Wait_Stream\<close> (\<^verbatim>\<open>projection_stream.go\<close>): the streaming wait for a projection as a machine.
  \<^item> \<open>Agent_Tools\<close> (\<^verbatim>\<open>agent/mcp.go\<close>, \<^verbatim>\<open>agent/dispatch.go\<close>, \<^verbatim>\<open>agent/internal_registry.go\<close>): the tools an agent exposes and
    the handler of signed calls. \<open>Agent_Runtime\<close> (the rest of \<^verbatim>\<open>agent\<close>): tool calls with their memo, model turns,
    memory and approvals on top of the step primitives. \<open>Agent_Push\<close>: their errors in the push handler.
  \<^item> This theory: redelivery of a push request, which rests on replay, the encode guard and the push
    handler together.

  \<^bold>\<open>How effects are modelled.\<close> The record \<open>world\<close> holds the clock, the state of the job's context, the
  reports sent and a log of what step bodies did. Step bodies, compensations, handlers and callbacks are
  functions of the world, so that a theorem about every handler is a statement over all of them. Time is
  in nanoseconds as \<open>int\<close>; signature timestamps are \<open>64 word\<close>, where wrap-around matters. JSON text
  (\<open>json_text\<close>), time parsing (\<open>codec\<close>, \<open>push_env\<close>), the keyed hash and HTTP calls are arguments.
  Structural recursion is used throughout; \<open>upcastLoop\<close> and \<open>retryAfterMs_loop\<close> have termination proofs by
  measures, so no fuel is needed anywhere. A fan-out is a relation because its outcome depends on the
  schedule; \<open>runSchedule\<close> is its executable form.

  \<^bold>\<open>What is shown.\<close> Replay continues where the run stopped and a redelivered completed run does nothing;
  step bodies run at most once per identifier; identifiers of different paths differ; a fan-out ends,
  respects its limit and does not depend on the schedule; compensations run in reverse, on terminal
  failures only, and a second run repeats only the failed ones; checkpoints plus the final report are
  exactly the executed steps; reports and answers can be encoded; accepted signatures carry the digest;
  upcasting composes; accepted configurations are valid; a command is held by one caller at a time and
  its result is served to later ones; a write is resent only after a rate-limit refusal; a draining worker
  starts no job, a stopped one has cancelled every job, \<open>Run\<close> returns, and the capacity is kept; a managed
  projection is exact under every failure and catches up, an external one delivers at least once, and a
  projection runner reads only under its lease; a drained streaming worker has sent every report, and what it sends
  of a job carries the job's fence. A publish that is repeated repeats its request; durations written in units are
  read back; a run filter drops exactly the superseded frames; a streaming wait shows the frames of its stream; an exposed
  tool runs only for calls signed with its secret, and once per argument where that is asked for; a streamed subscription with a cursor delivers every event once and in order, a WebSocket subscription
  at least once; a group stream acknowledges only what it delivered and hands over what it read. Some theorems show where the code does not do what it means to: an identifier read through the bridge for old rows, fan-outs of equal names, a
  retryable failure reported as final, an unencodable yield, a transition that skips a version, the age
  of a signature at the end of the 64-bit range, the key of \<open>CancelOn\<close>, a negative number of attempts, a
  projection runner that outlives \<open>Stop\<close>, a projection state that is emptied, and on the
  streaming side a wait that cannot be encoded, an output that is dropped and an assignment that is dropped; equal
  publish keys in fan-outs of one name, text that \<open>ParseDuration\<close> skips, sends on closed channels, subscription
  requests that are sent twice, a pattern subscribed twice, a deadlock of \<open>Unsubscribe\<close>, and agent errors that are retried.

  \<^bold>\<open>Hypotheses that occur.\<close> \<open>noLegacyRows\<close>: no completed row sits under the unescaped form of an identifier
  yet to be claimed (rows of an SDK without escaping; the theorem on the bridge shows it is needed, and
  it holds for names without special characters, \<open>noLegacyRows_plain\<close>). \<open>wfTyped\<close>: memoized values
  survive the JSON round trip of their type. \<open>persists\<close>: the engine keeps the rows it was given.
  \<open>kv_lawful\<close>: the key-value service creates, reads and replaces entries as documented. \<open>honestRun\<close>: a poll
  is answered with no more jobs than it asked for. \<open>managedContract\<close>, \<open>externalContract\<close>: the server returns the
  last state saved and the events after the cursor, and the handler of a managed projection never empties the state.
  \<open>cursorServer\<close>, \<open>cursorWire\<close>: a request with a cursor is answered with the events of its log after the cursor, in
  order, and on a WebSocket results answer open requests and ids are new. \<open>inSync\<close> (the runs of
  \<open>ws_cursor_complete\<close>): an unanswered request is that of its pattern's pending attempt; \<open>Ws_Races\<close> shows runs that
  leave this behind and what they lose.

  \<^bold>\<open>Not modelled.\<close> Panics other than yield signals and sends on closed channels; the logger, but for the
  unscoped-branch warning; locks, which the step relations replace by atomic steps where they are not held over
  several steps; real time (a timer may fire at any step); overlapping calls of \<open>Connect\<close>; the methods of the API
  and resource clients, one request each, and the key-value client; \<open>Spawn\<close> and overlapping calls of the agent helpers; replay for the pull
  executor.
\<close>

section \<open>Push invocations replay\<close>

lemma pushExec_fields:
  "rootView (pushExec env h fn req) = runRoot (pq_RunID req)"
  "ec_hasCtx (pushExec env h fn req) = False"
  "ec_completedSteps (pushExec env h fn req) = indexCompleted (pq_Steps req) Map.empty"
  "ec_resumeContext (pushExec env h fn req) = pq_Resume req"
  "ec_executedSteps (pushExec env h fn req) = []"
  "ec_testInterceptor (pushExec env h fn req) = None"
  by (simp_all add: pushExec_def rootView_def newExecutionContext_def emptyExec_def)

lemma pushExec_steady:
  "steady (\<lambda>_. True) rootView (pushExec env h fn req) \<longleftrightarrow>
     noLegacyRows (runRoot (pq_RunID req)) (indexCompleted (pq_Steps req) Map.empty)"
  by (simp add: steady_def pushExec_fields)

lemma completed_push_run:
  assumes "executeHandler env h fn req w = (resp, w1)" and "pp_Status resp = ''completed''"
    and "gf_Handler fn = (\<lambda>cx. runWf cd rootContext t)"
  shows "validateEventInput (gf_Config fn) (buildEvent env (sh_upcasters h) (pq_Event req)) = None"
    and "\<exists>c1. runWf cd rootContext t (pushExec env h fn req) w = (Ret (pp_Result resp) None, c1, w1)
      \<and> pp_Steps resp = ec_executedSteps c1 \<and> encodable (pp_Result resp)"
proof -
  obtain result err0 c1 w' where i: "invokeHandler fn (pushContext env h req w) (pushExec env h fn req) w
      = ((result, err0), c1, w')" by (metis surj_pair)
  have g: "guardEncoding result err0 (ec_executedSteps c1) = None"
    using assms(1,2) i by (auto simp: executeHandler_def Let_def case_prod_unfold split: option.splits)
  note e = guardEncoding_None [OF g]
  have v: "validateEventInput (gf_Config fn) (cx_Event (pushContext env h req w)) = None"
    using i e by (auto simp: invokeHandler_def split: option.splits)
  then show "validateEventInput (gf_Config fn) (buildEvent env (sh_upcasters h) (pq_Event req)) = None"
    by (simp add: pushContext_def)
  obtain r where r: "runWf cd rootContext t (pushExec env h fn req) w = (r, c1, w')"
    "(case r of Ret v err \<Rightarrow> (v, err) | Yield y \<Rightarrow> (GNil, Some (EYield y))) = (result, err0)"
    using i v assms(3)
    by (cases "runWf cd rootContext t (pushExec env h fn req) w") (auto simp: invokeHandler_def Let_def)
  with e have "r = Ret result None" by (cases r) auto
  with r g e i assms(1) show "\<exists>c1. runWf cd rootContext t (pushExec env h fn req) w = (Ret (pp_Result resp) None, c1, w1)
      \<and> pp_Steps resp = ec_executedSteps c1 \<and> encodable (pp_Result resp)"
    by (auto simp: executeHandler_def Let_def)
qed

lemma push_fields_completed:
  assumes "executeHandler env h fn req w = (resp, w1)" and "pp_Status resp = ''completed''"
  shows "pp_Error resp = None" "pp_Yield resp = None"
  using assms by (auto simp: executeHandler_def Let_def case_prod_unfold split: option.splits)


definition demoOnce :: wf where
  "demoOnce = WCall (ORun anyType ''charge'' demoBody [])
     (\<lambda>x. WReturn (case fst x of AVal v \<Rightarrow> v | _ \<Rightarrow> GNil) (snd x))"

definition onceFn :: gofunction where
  "onceFn = \<lparr> gf_Config = demoConfig, gf_Handler = (\<lambda>cx. runWf demoCodec rootContext demoOnce) \<rparr>"

lemma once_first:
  "\<exists>w1. executeHandler demoEnv demoHandler onceFn demoRequest demoWorld =
     (\<lparr> pp_Status = ''completed'',
        pp_Steps = [completedStep ''r:charge:0'' ''charge'' ''invoke'' 0 0 (GJson (JStr ''paid''))],
        pp_Result = GJson (JStr ''paid''), pp_Error = None, pp_Yield = None \<rparr>, w1)"
  by (simp add: executeHandler_def invokeHandler_def onceFn_def demoOnce_def validateEventInput_def demoConfig_def
      demoRequest_def demoHandler_def pushExec_def perform_def runGuarded_def runScoped_def runBody_def
      runWithTimeout_def cancellationErr_def newExecutionContext_def emptyExec_def demoBody_def
      demoWorld_def rootContext_def generateStepID_def preferLegacyStepID_def formatStepID_def
      escapeStepIDPart_def stepIDNamespaces_def stepIDPartEscaper_def esc_char_def
      getCompletedStep_def recordStep_def resolveTimeout_def reportIf_def mapOutcome_def guardEncoding_def
      encodeFailure_def marshalStep_def completedStep_def blank_result_def milliseconds_def duration_units Let_def)


end
